(* ===== verification/Prelude.thy ===== *)
theory Prelude
  imports Main "HOL-Library.Word"
begin

text \<open>Shared vocabulary of the development: the 32-bit conversions of the C++ code written as
functions on integers, reads of a C array whose out-of-range case is a value
(\<^term>\<open>None\<close>, undefined behaviour in the source), option-valued iteration, the list facts
several components use, and the contract of an operation that consumes its input in chunks.\<close>

named_theorems rec_defs \<open>definitions of the operations on records, unfolded together\<close>

section \<open>Machine integers read as integers\<close>

definition i32 :: "int \<Rightarrow> int" where
  "i32 x = signed_take_bit 31 x"

definition u32 :: "int \<Rightarrow> int" where
  "u32 x = take_bit 32 x"

definition u64 :: "int \<Rightarrow> int" where
  "u64 x = take_bit 64 x"

abbreviation i32_range :: "int \<Rightarrow> bool" where
  "i32_range x \<equiv> - (2 ^ 31) \<le> x \<and> x < 2 ^ 31"

lemma i32_id [simp]: "i32_range x \<Longrightarrow> i32 x = x"
  by (simp add: i32_def signed_take_bit_int_eq_self)

lemma i32_in_range: "i32_range (i32 x)"
  using signed_take_bit_int_greater_eq_minus_exp [of 31 x] signed_take_bit_int_less_exp [of 31 x]
  by (simp add: i32_def)

lemma i32_eq: "i32 x = (x + 2 ^ 31) mod 2 ^ 32 - 2 ^ 31"
proof -
  have "signed_take_bit 31 x = take_bit 32 (x + 2 ^ 31) - 2 ^ 31"
    using signed_take_bit_eq_take_bit_shift [of 31 x] by simp
  then show ?thesis by (simp add: i32_def take_bit_eq_mod)
qed

lemma i32_neg_of_overflow: "2 ^ 31 \<le> x \<Longrightarrow> x < 2 ^ 32 \<Longrightarrow> i32 x = x - 2 ^ 32"
proof -
  assume a: "2 ^ 31 \<le> x" "x < (2::int) ^ 32"
  have "x + 2 ^ 31 = (x - 2 ^ 31) + 2 ^ 32" by simp
  then have "(x + 2 ^ 31) mod 2 ^ 32 = (x - 2 ^ 31) mod 2 ^ 32" by (simp only: mod_add_self2)
  also have "\<dots> = x - 2 ^ 31" using a by (intro mod_pos_pos_trivial) auto
  finally show ?thesis by (simp add: i32_eq)
qed

lemma u64_id [simp]: "0 \<le> x \<Longrightarrow> x < 2 ^ 64 \<Longrightarrow> u64 x = x"
  by (simp add: u64_def take_bit_int_eq_self)

lemma u32_id [simp]: "0 \<le> x \<Longrightarrow> x < 2 ^ 32 \<Longrightarrow> u32 x = x"
  by (simp add: u32_def take_bit_int_eq_self)

section \<open>Array reads\<close>

text \<open>\<open>vec_get xs i\<close> is the read \<open>xs[i]\<close> of the source; an index outside the vector is undefined
behaviour there and \<^term>\<open>None\<close> here.\<close>

definition vec_get :: "'a list \<Rightarrow> int \<Rightarrow> 'a option" where
  "vec_get xs i = (if 0 \<le> i \<and> i < int (length xs) then Some (xs ! nat i) else None)"

lemma vec_get_Some: "0 \<le> i \<Longrightarrow> i < int (length xs) \<Longrightarrow> vec_get xs i = Some (xs ! nat i)"
  by (simp add: vec_get_def)

lemma vec_get_None: "i < 0 \<or> int (length xs) \<le> i \<Longrightarrow> vec_get xs i = None"
  by (auto simp: vec_get_def)

lemma vec_get_drop:
  "0 \<le> b \<Longrightarrow> b \<le> i \<Longrightarrow> i < int (length xs) \<Longrightarrow> vec_get (drop (nat b) xs) (i - b) = Some (xs ! nat i)"
  by (auto simp: vec_get_def nat_diff_distrib)

text \<open>Reads that all succeed.\<close>

definition read_all :: "('i \<Rightarrow> 'a option) \<Rightarrow> 'i list \<Rightarrow> 'a list option" where
  "read_all g is = those (List.map g is)"

lemma read_all_Nil [simp]: "read_all g [] = Some []"
  by (simp add: read_all_def)

lemma read_all_Cons [simp]:
  "read_all g (i # is) = (case g i of None \<Rightarrow> None | Some a \<Rightarrow> map_option (Cons a) (read_all g is))"
  by (simp add: read_all_def split: option.splits)

lemma read_all_Some: "(\<And>i. i \<in> set is \<Longrightarrow> g i = Some (h i)) \<Longrightarrow> read_all g is = Some (List.map h is)"
  by (induction "is") auto

lemma read_all_None: "i \<in> set is \<Longrightarrow> g i = None \<Longrightarrow> read_all g is = None"
  by (induction "is") (auto split: option.splits)

section \<open>Lists\<close>

lemma upt_append: "a \<le> b \<Longrightarrow> b \<le> c \<Longrightarrow> [a..<b] @ [b..<c] = [a..<c]"
  by (metis le_Suc_ex upt_add_eq_append)

text \<open>The clear-or-erase idiom of the source's rolling buffers.\<close>

lemma clear_or_drop: "(if length xs \<le> k then [] else drop k xs) = drop k xs"
  by simp

lemma take_drop_append3:
  assumes "length xs = m" "length ys = n"
  shows "take (m + n) (xs @ ys @ zs) = xs @ ys" and "drop (m + n) (xs @ ys @ zs) = zs"
  using assms by auto

lemma length_concat_const: "(\<And>x. x \<in> set xs \<Longrightarrow> length x = n) \<Longrightarrow> length (concat xs) = n * length xs"
  by (induction xs) auto

lemma drop_concat_const:
  "(\<And>x. x \<in> set xs \<Longrightarrow> length x = n) \<Longrightarrow> drop (k * n) (concat xs) = concat (drop k xs)"
proof (induction xs arbitrary: k)
  case (Cons x xs)
  then show ?case by (cases k) auto
qed simp

lemma nth_concat_const:
  "(\<And>x. x \<in> set xs \<Longrightarrow> length x = n) \<Longrightarrow> i < length xs \<Longrightarrow> j < n \<Longrightarrow>
   concat xs ! (i * n + j) = xs ! i ! j"
proof (induction xs arbitrary: i)
  case (Cons x xs)
  then show ?case by (cases i) (auto simp: nth_append)
qed simp

section \<open>Input consumed in chunks\<close>

text \<open>Several components are fed their input in pieces of any size: the Mel frontend (PCM), the
SHA-256 of the diagnostics (bytes), the encoder driver (Mel frames).  The contract: from a state
that is correct for the input so far, one more piece that stays within the capacity gives a state
correct for the longer input, and what is observed of a correct state is a function of the whole
input.\<close>

fun feed_all :: "('s \<Rightarrow> 'c \<Rightarrow> 's option) \<Rightarrow> 's \<Rightarrow> 'c list \<Rightarrow> 's option" where
  "feed_all feed s [] = Some s"
| "feed_all feed s (c # cs) = (case feed s c of None \<Rightarrow> None | Some s' \<Rightarrow> feed_all feed s' cs)"

locale chunked =
  fixes initial :: 's
    and feed :: "'s \<Rightarrow> 'c \<Rightarrow> 's option"
    and content :: "'c \<Rightarrow> 'a list"
    and fits :: "'a list \<Rightarrow> bool"
    and good :: "'a list \<Rightarrow> 's \<Rightarrow> bool"
    and observe :: "'s \<Rightarrow> 'o"
    and result :: "'a list \<Rightarrow> 'o"
  assumes initial_good: "good [] initial"
    and feed_good: "good sig s \<Longrightarrow> fits (sig @ content c) \<Longrightarrow>
          \<exists>s'. feed s c = Some s' \<and> good (sig @ content c) s'"
    and fits_prefix: "fits (xs @ ys) \<Longrightarrow> fits xs"
    and observe_good: "good sig s \<Longrightarrow> fits sig \<Longrightarrow> observe s = result sig"
begin

lemma feed_all_good:
  "good sig s \<Longrightarrow> fits (sig @ concat (List.map content cs)) \<Longrightarrow>
   \<exists>s'. feed_all feed s cs = Some s' \<and> good (sig @ concat (List.map content cs)) s'"
proof (induction cs arbitrary: sig s)
  case (Cons c cs)
  from Cons.prems(2) have "fits (sig @ content c)"
    using fits_prefix [of "sig @ content c"] by simp
  then obtain s1 where s1: "feed s c = Some s1" "good (sig @ content c) s1"
    using feed_good [OF Cons.prems(1)] by blast
  then show ?case using Cons.IH [of "sig @ content c" s1] Cons.prems(2) by simp
qed auto

lemma observe_chunks:
  assumes "fits (concat (List.map content cs))"
  shows "\<exists>s. feed_all feed initial cs = Some s \<and> observe s = result (concat (List.map content cs))"
  using feed_all_good [OF initial_good, of cs] assms observe_good by fastforce

lemma chunking_irrelevant:
  assumes "fits (concat (List.map content cs))"
    and "concat (List.map content cs) = concat (List.map content ds)"
  shows "map_option observe (feed_all feed initial cs) = map_option observe (feed_all feed initial ds)"
proof -
  obtain s where s: "feed_all feed initial cs = Some s"
    and os: "observe s = result (concat (List.map content cs))"
    using observe_chunks [OF assms(1)] by blast
  have "fits (concat (List.map content ds))" using assms by simp
  then obtain t where t: "feed_all feed initial ds = Some t"
    and ot: "observe t = result (concat (List.map content ds))"
    using observe_chunks by blast
  show ?thesis using s t os ot assms(2) by simp
qed

end

end
