(* ===== verification/MelFrontend.thy ===== *)
theory MelFrontend
  imports Prelude
begin

text \<open>The shared log-Mel frontend of \<open>src/src/voxtral-mel.cpp\<close>: filter and window tables, the
reflect index map, the per-frame DFT kernel, the batch spectrogram and the incremental frontend
with its rolling PCM buffer.  Single-precision arithmetic and the libm functions are a parameter
(\<open>float_ops\<close>), so that what is proved bit for bit holds for every float semantics; the loops, the
index arithmetic and the order of the float operations are the source's.  A read outside a buffer
is \<^term>\<open>None\<close>.\<close>

section \<open>Float operations, a parameter\<close>

record 'f float_ops =
  f_add :: "'f \<Rightarrow> 'f \<Rightarrow> 'f"
  f_sub :: "'f \<Rightarrow> 'f \<Rightarrow> 'f"
  f_mul :: "'f \<Rightarrow> 'f \<Rightarrow> 'f"
  f_div :: "'f \<Rightarrow> 'f \<Rightarrow> 'f"
  f_neg :: "'f \<Rightarrow> 'f"
  f_lt :: "'f \<Rightarrow> 'f \<Rightarrow> bool"
  f_le :: "'f \<Rightarrow> 'f \<Rightarrow> bool"
  f_of_int :: "int \<Rightarrow> 'f"
  f_lit :: "int \<Rightarrow> int \<Rightarrow> 'f"
  f_log :: "'f \<Rightarrow> 'f"
  f_log10 :: "'f \<Rightarrow> 'f"
  f_exp :: "'f \<Rightarrow> 'f"
  f_cos :: "'f \<Rightarrow> 'f"
  f_sin :: "'f \<Rightarrow> 'f"

text \<open>\<open>f_lit ops m e\<close> is the float literal of the decimal \<open>m * 10 ^ (- e)\<close>.  \<open>std::max\<close> and
\<open>std::min\<close> return their first argument unless the comparison holds.\<close>

definition f_max :: "('f, 'z) float_ops_scheme \<Rightarrow> 'f \<Rightarrow> 'f \<Rightarrow> 'f" where
  "f_max ops a b = (if f_lt ops a b then b else a)"

definition f_min :: "('f, 'z) float_ops_scheme \<Rightarrow> 'f \<Rightarrow> 'f \<Rightarrow> 'f" where
  "f_min ops a b = (if f_lt ops b a then b else a)"

section \<open>Filterbank, window and twiddle tables\<close>

definition hertz_to_mel :: "('f, 'z) float_ops_scheme \<Rightarrow> 'f \<Rightarrow> 'f" where
  "hertz_to_mel ops freq_hz =
    (let logstep = f_div ops (f_lit ops 27 0) (f_log ops (f_lit ops 64 1));
         mels = f_div ops (f_mul ops (f_lit ops 3 0) freq_hz) (f_lit ops 200 0)
     in if f_le ops (f_lit ops 1000 0) freq_hz
        then f_add ops (f_lit ops 15 0)
               (f_mul ops (f_log ops (f_div ops freq_hz (f_lit ops 1000 0))) logstep)
        else mels)"

definition mel_to_hertz :: "('f, 'z) float_ops_scheme \<Rightarrow> 'f \<Rightarrow> 'f" where
  "mel_to_hertz ops mels =
    (let logstep = f_div ops (f_log ops (f_lit ops 64 1)) (f_lit ops 27 0);
         freq = f_div ops (f_mul ops (f_lit ops 200 0) mels) (f_lit ops 3 0)
     in if f_le ops (f_lit ops 15 0) mels
        then f_mul ops (f_lit ops 1000 0)
               (f_exp ops (f_mul ops logstep (f_sub ops mels (f_lit ops 15 0))))
        else freq)"

text \<open>The filters are stored by frequency: element \<open>(k, m)\<close> at \<open>k * 128 + m\<close>.\<close>

definition slaney_entry :: "('f, 'z) float_ops_scheme \<Rightarrow> 'f list \<Rightarrow> 'f list \<Rightarrow> nat \<Rightarrow> nat \<Rightarrow> 'f" where
  "slaney_entry ops fft_freqs filter_freqs k m =
    (let f_left = filter_freqs ! m;
         f_center = filter_freqs ! (m + 1);
         f_right = filter_freqs ! (m + 2);
         enorm = f_div ops (f_lit ops 2 0) (f_sub ops f_right f_left);
         f = fft_freqs ! k;
         down_slope = f_div ops (f_neg ops (f_sub ops f f_center)) (f_sub ops f_center f_left);
         up_slope = f_div ops (f_sub ops f_right f) (f_sub ops f_right f_center);
         val = f_max ops (f_lit ops 0 0) (f_min ops down_slope up_slope)
     in f_mul ops val enorm)"

definition build_slaney_filters :: "('f, 'z) float_ops_scheme \<Rightarrow> 'f list" where
  "build_slaney_filters ops =
    (let fft_freqs = List.map (\<lambda>i. f_div ops (f_mul ops (f_of_int ops 8000) (f_of_int ops (int i)))
                                 (f_of_int ops 200)) [0..<201];
         mel_min = hertz_to_mel ops (f_lit ops 0 0);
         mel_max = hertz_to_mel ops (f_lit ops 8000 0);
         mel_pts = List.map (\<lambda>i. f_add ops mel_min
                     (f_div ops (f_mul ops (f_sub ops mel_max mel_min) (f_of_int ops (int i)))
                                (f_of_int ops 129))) [0..<130];
         filter_freqs = List.map (mel_to_hertz ops) mel_pts
     in concat (List.map (\<lambda>k. List.map (slaney_entry ops fft_freqs filter_freqs k) [0..<128]) [0..<201]))"

definition mel_pi :: "('f, 'z) float_ops_scheme \<Rightarrow> 'f" where
  "mel_pi ops = f_lit ops 314159265358979323846 20"

definition build_hann_window :: "('f, 'z) float_ops_scheme \<Rightarrow> 'f list" where
  "build_hann_window ops = List.map (\<lambda>i.
     f_mul ops (f_lit ops 5 1)
       (f_sub ops (f_lit ops 1 0)
         (f_cos ops (f_div ops (f_mul ops (f_mul ops (f_lit ops 2 0) (mel_pi ops)) (f_of_int ops (int i)))
                               (f_of_int ops 400))))) [0..<400]"

definition plan_angle :: "('f, 'z) float_ops_scheme \<Rightarrow> nat \<Rightarrow> nat \<Rightarrow> 'f" where
  "plan_angle ops k n =
     f_div ops (f_mul ops (f_mul ops (f_mul ops (f_lit ops 2 0) (mel_pi ops)) (f_of_int ops (int k)))
                          (f_of_int ops (int n)))
       (f_of_int ops 400)"

definition stft_cos_table :: "('f, 'z) float_ops_scheme \<Rightarrow> 'f list" where
  "stft_cos_table ops =
     concat (List.map (\<lambda>k. List.map (\<lambda>n. f_cos ops (plan_angle ops k n)) [0..<400]) [0..<201])"

definition stft_sin_table :: "('f, 'z) float_ops_scheme \<Rightarrow> 'f list" where
  "stft_sin_table ops =
     concat (List.map (\<lambda>k. List.map (\<lambda>n. f_sin ops (plan_angle ops k n)) [0..<400]) [0..<201])"

section \<open>The reflect index map\<close>

function reflect_index :: "int \<Rightarrow> int \<Rightarrow> int" where
  "reflect_index idx len =
     (if len \<le> 1 then 0
      else if idx < 0 then reflect_index (- idx) len
      else if len \<le> idx then reflect_index (2 * len - 2 - idx) len
      else idx)"
  by auto
termination
  by (relation "measure (\<lambda>(idx, len). nat (2 * \<bar>idx\<bar> + (if idx < 0 then 1 else 0)))") auto

declare reflect_index.simps [simp del]

text \<open>The index both frontends read for the signal position \<open>src\<close>.\<close>

definition resolve_index :: "int \<Rightarrow> int \<Rightarrow> int" where
  "resolve_index src n = (if 0 \<le> src \<and> src < n then src else reflect_index src n)"

section \<open>The per-frame kernel\<close>

text \<open>One DFT bin: the loop unrolled by four over the windowed samples, then the scalar tail.
\<open>co\<close> and \<open>si\<close> are the bin's rows of the twiddle tables.\<close>

function dft_loop4 ::
  "('f, 'z) float_ops_scheme \<Rightarrow> nat \<Rightarrow> (nat \<Rightarrow> 'f) \<Rightarrow> (nat \<Rightarrow> 'f) \<Rightarrow> (nat \<Rightarrow> 'f) \<Rightarrow> nat \<Rightarrow> 'f \<Rightarrow> 'f
   \<Rightarrow> nat \<times> 'f \<times> 'f" where
  "dft_loop4 ops n x co si i re im =
    (if i + 3 < n
     then dft_loop4 ops n x co si (i + 4)
       (f_add ops re (f_add ops (f_add ops (f_add ops
          (f_mul ops (x i) (co i)) (f_mul ops (x (i + 1)) (co (i + 1))))
          (f_mul ops (x (i + 2)) (co (i + 2)))) (f_mul ops (x (i + 3)) (co (i + 3)))))
       (f_sub ops im (f_add ops (f_add ops (f_add ops
          (f_mul ops (x i) (si i)) (f_mul ops (x (i + 1)) (si (i + 1))))
          (f_mul ops (x (i + 2)) (si (i + 2)))) (f_mul ops (x (i + 3)) (si (i + 3)))))
     else (i, re, im))"
  by auto
termination by (relation "measure (\<lambda>(ops, n, x, co, si, i, re, im). n - i)") auto

declare dft_loop4.simps [simp del]

function dft_tail ::
  "('f, 'z) float_ops_scheme \<Rightarrow> nat \<Rightarrow> (nat \<Rightarrow> 'f) \<Rightarrow> (nat \<Rightarrow> 'f) \<Rightarrow> (nat \<Rightarrow> 'f) \<Rightarrow> nat \<Rightarrow> 'f \<Rightarrow> 'f
   \<Rightarrow> 'f \<times> 'f" where
  "dft_tail ops n x co si i re im =
    (if i < n
     then dft_tail ops n x co si (i + 1)
            (f_add ops re (f_mul ops (x i) (co i))) (f_sub ops im (f_mul ops (x i) (si i)))
     else (re, im))"
  by auto
termination by (relation "measure (\<lambda>(ops, n, x, co, si, i, re, im). n - i)") auto

declare dft_tail.simps [simp del]

definition dft_power ::
  "('f, 'z) float_ops_scheme \<Rightarrow> nat \<Rightarrow> (nat \<Rightarrow> 'f) \<Rightarrow> (nat \<Rightarrow> 'f) \<Rightarrow> (nat \<Rightarrow> 'f) \<Rightarrow> 'f" where
  "dft_power ops n x co si =
    (let (i, re4, im4) = dft_loop4 ops n x co si 0 (f_lit ops 0 0) (f_lit ops 0 0);
         (re, im) = dft_tail ops n x co si i re4 im4
     in f_add ops (f_mul ops re re) (f_mul ops im im))"

definition log_normalize :: "('f, 'z) float_ops_scheme \<Rightarrow> 'f \<Rightarrow> 'f" where
  "log_normalize ops v =
    (let v1 = f_max ops v (f_lit ops 1 10);
         v2 = f_log10 ops v1;
         v3 = f_max ops v2 (f_sub ops (f_lit ops 15 1) (f_lit ops 8 0))
     in f_div ops (f_add ops v3 (f_lit ops 4 0)) (f_lit ops 4 0))"

definition frame_from_window ::
  "('f, 'z) float_ops_scheme \<Rightarrow> 'f list \<Rightarrow> 'f list \<Rightarrow> 'f list \<Rightarrow> 'f list" where
  "frame_from_window ops window hann filters =
    (let windowed = List.map (\<lambda>i. f_mul ops (window ! i) (hann ! i)) [0..<400];
         power = List.map (\<lambda>k. dft_power ops 400 (\<lambda>i. windowed ! i)
                             (\<lambda>i. stft_cos_table ops ! (k * 400 + i))
                             (\<lambda>i. stft_sin_table ops ! (k * 400 + i))) [0..<201];
         mel_accum = foldl (\<lambda>acc k. List.map (\<lambda>m. f_add ops (acc ! m)
                                (f_mul ops (filters ! (k * 128 + m)) (power ! k))) [0..<128])
                       (replicate 128 (f_lit ops 0 0)) [0..<201]
     in List.map (log_normalize ops) mel_accum)"

section \<open>The batch spectrogram\<close>

definition batch_frame_count :: "int \<Rightarrow> int" where
  "batch_frame_count n_samples =
    (if n_samples \<le> 0 then 0
     else let n_stft_frames = n_samples div 160 + 1;
              n_frames = n_stft_frames - 1
          in if 0 < n_frames then n_frames else 0)"

text \<open>The output is channel-major: element \<open>(m, f)\<close> at \<open>m * n_frames + f\<close>.\<close>

definition compute_batch ::
  "('f, 'z) float_ops_scheme \<Rightarrow> 'f list \<Rightarrow> 'f list \<Rightarrow> 'f list \<Rightarrow> int \<Rightarrow> ('f list \<times> int) option" where
  "compute_batch ops hann filters audio n_samples =
    (let n_frames = batch_frame_count n_samples
     in if n_frames \<le> 0 then Some ([], n_frames)
        else case read_all (\<lambda>i. let src = int i - 200
                              in vec_get audio (resolve_index src n_samples))
                    [0..<nat (n_samples + 2 * 200)] of
          None \<Rightarrow> None
        | Some centered \<Rightarrow>
            let frames = List.map (\<lambda>frame. frame_from_window ops
                             (take 400 (drop (frame * 160) centered)) hann filters) [0..<nat n_frames]
            in Some (concat (List.map (\<lambda>m. List.map (\<lambda>fb. fb ! m) frames) [0..<128]), n_frames))"

section \<open>The incremental frontend\<close>

record 'f frontend =
  fe_hann :: "'f list"
  fe_filters :: "'f list"
  fe_pcm :: "'f list"
  fe_pcm_base :: int
  fe_total_received :: int
  fe_next_frame :: int
  fe_frames_during_feed :: int
  fe_frames_at_finish :: int
  fe_dft_frames_computed :: int
  fe_pcm_peak_retained :: int
  fe_finalized :: bool
  fe_mel_frames :: "'f list"
  fe_mel_base_frame :: int
  fe_retain_history :: bool

definition frame_hi_index :: "int \<Rightarrow> int" where
  "frame_hi_index f =
    (let direct_hi = f * 160 + (400 - 1) - 200;
         lowest_s = f * 160 - 200;
         reflect_hi = (if lowest_s < 0 then - lowest_s else direct_hi)
     in if reflect_hi < direct_hi then direct_hi else reflect_hi)"

definition frame_lo_index :: "int \<Rightarrow> int" where
  "frame_lo_index f = (let lowest_s = f * 160 - 200 in if lowest_s < 0 then 0 else lowest_s)"

definition mel_frame_required_sample :: "int \<Rightarrow> int" where
  "mel_frame_required_sample frame = (if frame < 0 then 0 else frame_hi_index frame)"

text \<open>\<open>n\<close> is the \<open>int32_t\<close> total the caller passes; the start sample is converted to \<open>int32_t\<close> too.\<close>

definition fill_window :: "'f frontend \<Rightarrow> int \<Rightarrow> int \<Rightarrow> 'f list option" where
  "fill_window fe f n =
    (let start = i32 (f * 160)
     in read_all (\<lambda>i. let src = start + int i - 200
                   in vec_get (fe_pcm fe) (resolve_index src n - fe_pcm_base fe)) [0..<400])"

definition compute_and_store_frame ::
  "('f, 'z) float_ops_scheme \<Rightarrow> 'f frontend \<Rightarrow> int \<Rightarrow> int \<Rightarrow> 'f frontend option" where
  "compute_and_store_frame ops fe f n =
    (case fill_window fe f n of
       None \<Rightarrow> None
     | Some window \<Rightarrow> Some (fe
         \<lparr> fe_mel_frames := fe_mel_frames fe @ frame_from_window ops window (fe_hann fe) (fe_filters fe),
           fe_dft_frames_computed := fe_dft_frames_computed fe + 1 \<rparr>))"

function emit_stable_frames ::
  "('f, 'z) float_ops_scheme \<Rightarrow> 'f frontend \<Rightarrow> 'f frontend option" where
  "emit_stable_frames ops fe =
    (if frame_hi_index (fe_next_frame fe) \<le> fe_total_received fe - 1
     then case compute_and_store_frame ops fe (fe_next_frame fe) (i32 (fe_total_received fe)) of
            None \<Rightarrow> None
          | Some fe1 \<Rightarrow> emit_stable_frames ops
              (fe1 \<lparr> fe_next_frame := fe_next_frame fe1 + 1,
                     fe_frames_during_feed := fe_frames_during_feed fe1 + 1 \<rparr>)
     else Some fe)"
  by auto
termination
  by (relation "measure (\<lambda>(ops, fe). nat (fe_total_received fe - 160 * fe_next_frame fe))")
     (auto simp: frame_hi_index_def compute_and_store_frame_def Let_def split: option.splits if_splits)

declare emit_stable_frames.simps [simp del]

definition compact :: "'f frontend \<Rightarrow> 'f frontend" where
  "compact fe =
    (let keep_from = frame_lo_index (fe_next_frame fe);
         fe1 = (if fe_pcm_base fe < keep_from
                then let drp = nat (keep_from - fe_pcm_base fe)
                     in fe \<lparr> fe_pcm := (if length (fe_pcm fe) \<le> drp then [] else drop drp (fe_pcm fe)),
                             fe_pcm_base := keep_from \<rparr>
                else fe);
         retained = int (length (fe_pcm fe1))
     in if fe_pcm_peak_retained fe1 < retained then fe1 \<lparr> fe_pcm_peak_retained := retained \<rparr> else fe1)"

text \<open>The handle is created over the two borrowed tables; a null table or a failed allocation
gives no handle.\<close>

definition mel_frontend_create :: "'f list option \<Rightarrow> 'f list option \<Rightarrow> bool \<Rightarrow> 'f frontend option" where
  "mel_frontend_create hann filters alloc =
    (case (hann, filters) of
       (Some h, Some w) \<Rightarrow>
         (if alloc then Some \<lparr> fe_hann = h, fe_filters = w, fe_pcm = [], fe_pcm_base = 0,
            fe_total_received = 0, fe_next_frame = 0, fe_frames_during_feed = 0,
            fe_frames_at_finish = 0, fe_dft_frames_computed = 0, fe_pcm_peak_retained = 0,
            fe_finalized = False, fe_mel_frames = [], fe_mel_base_frame = 0,
            fe_retain_history = True \<rparr> else None)
     | _ \<Rightarrow> None)"

definition mel_frontend_set_retain_history :: "'f frontend \<Rightarrow> bool \<Rightarrow> 'f frontend" where
  "mel_frontend_set_retain_history fe retain =
    (let fe1 = fe \<lparr> fe_retain_history := retain \<rparr>
     in if \<not> retain \<and> 0 < fe_mel_base_frame fe1 then fe1 \<lparr> fe_mel_frames := [] \<rparr> else fe1)"

definition mel_frontend_reset :: "'f frontend \<Rightarrow> 'f frontend" where
  "mel_frontend_reset fe = fe
     \<lparr> fe_pcm := [], fe_pcm_base := 0, fe_total_received := 0, fe_next_frame := 0,
       fe_frames_during_feed := 0, fe_frames_at_finish := 0, fe_dft_frames_computed := 0,
       fe_pcm_peak_retained := 0, fe_finalized := False, fe_mel_frames := [],
       fe_mel_base_frame := 0 \<rparr>"

text \<open>\<open>pcm\<close> is the caller's pointer (\<^term>\<open>None\<close> for null) to its \<open>n\<close> samples.  The result is the
returned flag and the new state, \<^term>\<open>None\<close> when a read left its buffer.\<close>

definition mel_frontend_append ::
  "('f, 'z) float_ops_scheme \<Rightarrow> 'f frontend \<Rightarrow> 'f list \<Rightarrow> (bool \<times> 'f frontend) option" where
  "mel_frontend_append ops fe samples =
    (let fe1 = fe \<lparr> fe_pcm := fe_pcm fe @ samples,
                    fe_total_received := fe_total_received fe + int (length samples) \<rparr>
     in case emit_stable_frames ops fe1 of
          None \<Rightarrow> None
        | Some fe2 \<Rightarrow> Some (True, compact fe2))"

definition mel_frontend_feed ::
  "('f, 'z) float_ops_scheme \<Rightarrow> 'f frontend \<Rightarrow> 'f list option \<Rightarrow> nat \<Rightarrow> (bool \<times> 'f frontend) option" where
  "mel_frontend_feed ops fe pcm n =
    (if fe_finalized fe then Some (False, fe)
     else if n = 0 then Some (True, fe)
     else case pcm of
       None \<Rightarrow> Some (False, fe)
     | Some samples \<Rightarrow> mel_frontend_append ops fe (take n samples))"

definition mel_frontend_feed_silence ::
  "('f, 'z) float_ops_scheme \<Rightarrow> 'f frontend \<Rightarrow> nat \<Rightarrow> (bool \<times> 'f frontend) option" where
  "mel_frontend_feed_silence ops fe n =
    (if fe_finalized fe then Some (False, fe)
     else if n = 0 then Some (True, fe)
     else mel_frontend_append ops fe (replicate n (f_lit ops 0 0)))"

function finish_frames ::
  "('f, 'z) float_ops_scheme \<Rightarrow> 'f frontend \<Rightarrow> int \<Rightarrow> int \<Rightarrow> 'f frontend option" where
  "finish_frames ops fe n_total final_total =
    (if fe_next_frame fe < n_total
     then case compute_and_store_frame ops fe (fe_next_frame fe) (i32 final_total) of
            None \<Rightarrow> None
          | Some fe1 \<Rightarrow> finish_frames ops
              (fe1 \<lparr> fe_next_frame := fe_next_frame fe1 + 1,
                     fe_frames_at_finish := fe_frames_at_finish fe1 + 1 \<rparr>) n_total final_total
     else Some fe)"
  by auto
termination
  by (relation "measure (\<lambda>(ops, fe, n_total, t). nat (n_total - fe_next_frame fe))")
     (auto simp: compute_and_store_frame_def split: option.splits)

declare finish_frames.simps [simp del]

definition mel_frontend_finish ::
  "('f, 'z) float_ops_scheme \<Rightarrow> 'f frontend \<Rightarrow> 'f frontend option" where
  "mel_frontend_finish ops fe =
    (if fe_finalized fe then Some fe
     else let final_total = fe_total_received fe;
              n_total = final_total div 160
          in case finish_frames ops (fe \<lparr> fe_finalized := True \<rparr>) n_total final_total of
               None \<Rightarrow> None
             | Some fe1 \<Rightarrow> Some (fe1 \<lparr> fe_pcm := [], fe_pcm_base := final_total \<rparr>))"

record mel_metrics =
  mm_frames_total :: int
  mm_frames_during_feed :: int
  mm_frames_at_finish :: int
  mm_dft_frames_computed :: int
  mm_pcm_retained :: int
  mm_pcm_peak_retained :: int
  mm_pcm_base :: int
  mm_total_received :: int
  mm_finalized :: bool

definition mel_frontend_metrics :: "'f frontend option \<Rightarrow> mel_metrics" where
  "mel_frontend_metrics fe_ptr =
    (case fe_ptr of
       None \<Rightarrow> \<lparr> mm_frames_total = 0, mm_frames_during_feed = 0, mm_frames_at_finish = 0,
          mm_dft_frames_computed = 0, mm_pcm_retained = 0, mm_pcm_peak_retained = 0,
          mm_pcm_base = 0, mm_total_received = 0, mm_finalized = False \<rparr>
     | Some fe \<Rightarrow> \<lparr> mm_frames_total = fe_next_frame fe,
          mm_frames_during_feed = fe_frames_during_feed fe,
          mm_frames_at_finish = fe_frames_at_finish fe,
          mm_dft_frames_computed = fe_dft_frames_computed fe,
          mm_pcm_retained = int (length (fe_pcm fe)),
          mm_pcm_peak_retained = fe_pcm_peak_retained fe,
          mm_pcm_base = fe_pcm_base fe, mm_total_received = fe_total_received fe,
          mm_finalized = fe_finalized fe \<rparr>)"

text \<open>A borrowed frame is its 128 values; no frame is a null pointer.\<close>

definition mel_frontend_frame_data :: "'f frontend \<Rightarrow> int \<Rightarrow> 'f list option" where
  "mel_frontend_frame_data fe frame =
    (if frame < fe_mel_base_frame fe \<or> fe_next_frame fe \<le> frame then None
     else let rel = frame - fe_mel_base_frame fe;
              retained = int (length (fe_mel_frames fe) div 128)
          in if rel < 0 \<or> retained \<le> rel then None
             else Some (take 128 (drop (nat rel * 128) (fe_mel_frames fe))))"

definition mel_frontend_discard_before :: "'f frontend \<Rightarrow> int \<Rightarrow> 'f frontend" where
  "mel_frontend_discard_before fe frame =
    (if fe_retain_history fe then fe
     else if frame \<le> fe_mel_base_frame fe then fe
     else let available = int (length (fe_mel_frames fe) div 128);
              target = min frame (fe_mel_base_frame fe + available);
              drop_frames = target - fe_mel_base_frame fe
          in if drop_frames \<le> 0 then fe
             else let drp = nat drop_frames * 128
                  in fe \<lparr> fe_mel_frames := (if length (fe_mel_frames fe) \<le> drp then []
                                             else drop drp (fe_mel_frames fe)),
                          fe_mel_base_frame := target \<rparr>)"

text \<open>Channel-major copies of the frame-major history.\<close>

definition mel_frontend_assemble_raw :: "'f frontend \<Rightarrow> ('f list \<times> int) option" where
  "mel_frontend_assemble_raw fe =
    (if fe_mel_base_frame fe \<noteq> 0 then Some ([], 0)
     else let n_frames = i32 (fe_next_frame fe)
          in if n_frames \<le> 0 then Some ([], n_frames)
             else map_option (\<lambda>rows. (concat rows, n_frames))
               (read_all (\<lambda>m. read_all (\<lambda>f. vec_get (fe_mel_frames fe) (int f * 128 + int m))
                   [0..<nat n_frames]) [0..<128]))"

definition mel_frontend_assemble_even :: "'f frontend \<Rightarrow> ('f list \<times> int) option" where
  "mel_frontend_assemble_even fe =
    (if fe_mel_base_frame fe \<noteq> 0 then Some ([], 0)
     else let n_total = i32 (fe_next_frame fe);
              drop_first = (n_total mod 2 \<noteq> 0);
              n_out = (if drop_first then n_total - 1 else n_total);
              src_off = (if drop_first then 1 else 0)
          in if n_out \<le> 0 then Some ([], n_out)
             else map_option (\<lambda>rows. (concat rows, n_out))
               (read_all (\<lambda>m. read_all (\<lambda>j. vec_get (fe_mel_frames fe) ((int j + src_off) * 128 + int m))
                   [0..<nat n_out]) [0..<128]))"

text \<open>\<open>compute_mel_even\<close> of \<open>src/src/voxtral.cpp\<close> trims the batch matrix in its own buffer, one
\<open>memmove\<close> per channel.\<close>

definition memmove :: "'a list \<Rightarrow> nat \<Rightarrow> nat \<Rightarrow> nat \<Rightarrow> 'a list" where
  "memmove buf dst src n = take dst buf @ take n (drop src buf) @ drop (dst + n) buf"

definition compute_mel_even ::
  "('f, 'z) float_ops_scheme \<Rightarrow> 'f list \<Rightarrow> 'f list \<Rightarrow> 'f list \<Rightarrow> int \<Rightarrow> ('f list \<times> int) option" where
  "compute_mel_even ops hann filters samples n_samples =
    (case compute_batch ops hann filters samples n_samples of
       None \<Rightarrow> None
     | Some (written, n_frames) \<Rightarrow>
         let max_frames = n_samples div 160 + 1;
             mel_data = written @ replicate (nat (128 * max_frames) - length written) (f_lit ops 0 0)
         in if n_frames mod 2 \<noteq> 0
            then let w = nat n_frames
                 in Some (foldl (\<lambda>buf m. memmove buf (m * (w - 1)) (m * w + 1) (w - 1)) mel_data [0..<128],
                          n_frames - 1)
            else Some (mel_data, n_frames))"

end
