(* ===== verification/MelCorrect.thy ===== *)
theory MelCorrect
  imports MelFrontend
begin

text \<open>Correctness of the Mel frontend: the reflect index map stays inside the signal, the
incremental frontend keeps a tail of fewer than 400 samples that always contains what the next
frame reads, and its frames are those of the batch spectrogram whatever the chunk boundaries.\<close>

section \<open>Reflect indices\<close>

lemma reflect_index_range: "1 \<le> len \<Longrightarrow> 0 \<le> reflect_index idx len \<and> reflect_index idx len < len"
  by (induction idx len rule: reflect_index.induct) (subst (1 2) reflect_index.simps, auto)

lemma reflect_index_inside: "0 \<le> idx \<Longrightarrow> idx < len \<Longrightarrow> reflect_index idx len = idx"
  by (subst reflect_index.simps) auto

lemma reflect_index_left:
  "idx < 0 \<Longrightarrow> - idx < len \<Longrightarrow> reflect_index idx len = - idx"
  by (subst reflect_index.simps) (auto simp: reflect_index_inside)

lemma reflect_index_right:
  "len \<le> idx \<Longrightarrow> idx \<le> 2 * len - 2 \<Longrightarrow> reflect_index idx len = 2 * len - 2 - idx"
  by (subst reflect_index.simps) (auto simp: reflect_index_inside)

lemma resolve_index_range: "1 \<le> n \<Longrightarrow> 0 \<le> resolve_index src n \<and> resolve_index src n < n"
  by (auto simp: resolve_index_def reflect_index_range)

lemma resolve_index_stable:
  assumes "\<bar>src\<bar> < n"
  shows "resolve_index src n = \<bar>src\<bar>"
  using assms by (auto simp: resolve_index_def reflect_index_left)

lemma frame_hi_eq: "0 \<le> f \<Longrightarrow> frame_hi_index f = (if f = 0 then 200 else f * 160 + 199)"
  by (auto simp: frame_hi_index_def Let_def)

lemma frame_lo_eq: "0 \<le> f \<Longrightarrow> frame_lo_index f = max 0 (f * 160 - 200)"
  by (auto simp: frame_lo_index_def Let_def)

text \<open>Every sample a frame reads lies between its low and its high index once the high index has
been received.\<close>

lemma stable_read:
  assumes "0 \<le> f" "i < 400"
  shows "frame_lo_index f \<le> \<bar>f * 160 + int i - 200\<bar>"
    and "\<bar>f * 160 + int i - 200\<bar> \<le> frame_hi_index f"
  using assms by (auto simp: frame_hi_eq frame_lo_eq)

lemma final_read:
  assumes "0 \<le> f" "f < n div 160" "i < 400"
  shows "frame_lo_index f \<le> resolve_index (f * 160 + int i - 200) n"
    and "resolve_index (f * 160 + int i - 200) n < n"
proof -
  have n: "160 * f + 160 \<le> n"
  proof -
    have "160 * (f + 1) \<le> 160 * (n div 160)"
      by (rule mult_left_mono) (use assms(2) in auto)
    also have "\<dots> \<le> n" using mult_div_mod_eq [of 160 n] pos_mod_sign [of 160 n] by simp
    finally show ?thesis by simp
  qed
  have r: "0 \<le> resolve_index (f * 160 + int i - 200) n \<and> resolve_index (f * 160 + int i - 200) n < n"
    using n assms(1) by (intro resolve_index_range) linarith
  then show "resolve_index (f * 160 + int i - 200) n < n" by simp
  show "frame_lo_index f \<le> resolve_index (f * 160 + int i - 200) n"
  proof (cases "f \<le> 1")
    case True
    then show ?thesis using r assms(1) by (simp add: frame_lo_eq)
  next
    case False
    then have "resolve_index (f * 160 + int i - 200) n = f * 160 + int i - 200 \<or>
        resolve_index (f * 160 + int i - 200) n = 2 * n - 2 - (f * 160 + int i - 200)"
      using n assms(3) by (auto simp: resolve_index_def reflect_index_right)
    then show ?thesis using False n assms(3) by (auto simp: frame_lo_eq)
  qed
qed

section \<open>The frame as a function of the signal\<close>

definition signal_window :: "'f list \<Rightarrow> int \<Rightarrow> 'f list" where
  "signal_window sig f =
     List.map (\<lambda>i. sig ! nat (resolve_index (f * 160 + int i - 200) (int (length sig)))) [0..<400]"

definition frame_at :: "('f, 'z) float_ops_scheme \<Rightarrow> 'f list \<Rightarrow> 'f list \<Rightarrow> 'f list \<Rightarrow> int \<Rightarrow> 'f list" where
  "frame_at ops hann filters sig f = frame_from_window ops (signal_window sig f) hann filters"

lemma length_foldl_const:
  "length acc = n \<Longrightarrow> (\<And>a k. length (g a k) = n) \<Longrightarrow> length (foldl g acc ks) = n"
  by (induction ks arbitrary: acc) auto

lemma length_frame_from_window [simp]: "length (frame_from_window ops w hann filters) = 128"
  unfolding frame_from_window_def Let_def by (subst length_map, rule length_foldl_const) auto

lemma length_frame_at [simp]: "length (frame_at ops hann filters sig f) = 128"
  by (simp add: frame_at_def)

lemma length_build_hann [simp]: "length (build_hann_window ops) = 400"
  by (simp add: build_hann_window_def)

lemma length_build_filters [simp]: "length (build_slaney_filters ops) = 201 * 128"
  by (simp add: build_slaney_filters_def Let_def length_concat o_def sum_list_triv)

text \<open>A frame whose high index has been received does not depend on what follows.\<close>

lemma signal_window_stable:
  assumes "0 \<le> f" "frame_hi_index f < int (length sig)"
  shows "signal_window (sig @ rest) f = signal_window sig f"
  unfolding signal_window_def
proof (rule map_cong [OF refl])
  fix i assume "i \<in> set [0..<400]"
  then have i: "\<bar>f * 160 + int i - 200\<bar> < int (length sig)"
    using stable_read(2) [OF assms(1), of i] assms(2) by simp
  then have "\<bar>f * 160 + int i - 200\<bar> < int (length (sig @ rest))" by simp
  then have "resolve_index (f * 160 + int i - 200) (int (length (sig @ rest))) = \<bar>f * 160 + int i - 200\<bar>"
    and "resolve_index (f * 160 + int i - 200) (int (length sig)) = \<bar>f * 160 + int i - 200\<bar>"
    using i by (simp_all only: resolve_index_stable)
  then show "(sig @ rest) ! nat (resolve_index (f * 160 + int i - 200) (int (length (sig @ rest)))) =
      sig ! nat (resolve_index (f * 160 + int i - 200) (int (length sig)))"
    using i by (simp add: nth_append nat_less_iff)
qed

section \<open>The rolling buffer\<close>

text \<open>What holds inside the emit and finish loops: the buffer is the signal from its base on and the
history is the frames from the history's base to the next frame.\<close>

definition rolling ::
  "('f, 'z) float_ops_scheme \<Rightarrow> 'f list \<Rightarrow> 'f list \<Rightarrow> 'f list \<Rightarrow> 'f frontend \<Rightarrow> bool" where
  "rolling ops hann filters sig fe \<longleftrightarrow>
     fe_hann fe = hann \<and> fe_filters fe = filters \<and> fe_total_received fe = int (length sig) \<and>
     0 \<le> fe_pcm_base fe \<and> fe_pcm_base fe \<le> int (length sig) \<and>
     fe_pcm fe = drop (nat (fe_pcm_base fe)) sig \<and>
     0 \<le> fe_mel_base_frame fe \<and> fe_mel_base_frame fe \<le> fe_next_frame fe \<and>
     fe_mel_frames fe = concat (List.map (frame_at ops hann filters sig)
                                  [fe_mel_base_frame fe..fe_next_frame fe - 1]) \<and>
     fe_dft_frames_computed fe = fe_next_frame fe \<and>
     fe_pcm_peak_retained fe < 400 \<and>
     fe_frames_during_feed fe + fe_frames_at_finish fe = fe_next_frame fe"

lemma rolling_next_nonneg: "rolling ops hann filters sig fe \<Longrightarrow> 0 \<le> fe_next_frame fe"
  by (auto simp: rolling_def)

text \<open>The state between two operations: in addition, the buffer starts at the lowest sample the next
frame reads, and the next frame is the first that is not stable.\<close>

definition mel_inv ::
  "('f, 'z) float_ops_scheme \<Rightarrow> 'f list \<Rightarrow> 'f list \<Rightarrow> 'f list \<Rightarrow> 'f frontend \<Rightarrow> bool" where
  "mel_inv ops hann filters sig fe \<longleftrightarrow>
     rolling ops hann filters sig fe \<and> \<not> fe_finalized fe \<and> fe_frames_at_finish fe = 0 \<and>
     fe_pcm_base fe = frame_lo_index (fe_next_frame fe) \<and>
     (0 < fe_next_frame fe \<longrightarrow> frame_hi_index (fe_next_frame fe - 1) < int (length sig)) \<and>
     int (length sig) \<le> frame_hi_index (fe_next_frame fe)"

lemma compute_and_store_frame_eq:
  assumes "rolling ops hann filters sig fe"
    and "fe_pcm_base fe \<le> frame_lo_index f" and "i32_range (f * 160)"
    and lo: "\<And>i. i < 400 \<Longrightarrow> frame_lo_index f \<le> resolve_index (f * 160 + int i - 200) (int (length sig))"
    and hi: "\<And>i. i < 400 \<Longrightarrow> resolve_index (f * 160 + int i - 200) (int (length sig)) < int (length sig)"
  shows "compute_and_store_frame ops fe f (int (length sig)) = Some (fe
      \<lparr> fe_mel_frames := fe_mel_frames fe @ frame_at ops hann filters sig f,
        fe_dft_frames_computed := fe_dft_frames_computed fe + 1 \<rparr>)"
proof -
  have "fill_window fe f (int (length sig)) = Some (signal_window sig f)"
    unfolding fill_window_def signal_window_def Let_def i32_id [OF assms(3)]
  proof (rule read_all_Some)
    fix i assume "i \<in> set [0..<400]"
    then have "i < 400" by simp
    from lo [OF this] hi [OF this] assms(1,2)
    show "vec_get (fe_pcm fe) (resolve_index (f * 160 + int i - 200) (int (length sig)) - fe_pcm_base fe)
        = Some (sig ! nat (resolve_index (f * 160 + int i - 200) (int (length sig))))"
      by (simp add: rolling_def vec_get_drop)
  qed
  then show ?thesis using assms(1)
    by (simp add: compute_and_store_frame_def frame_at_def rolling_def)
qed

lemma rolling_step:
  assumes "rolling ops hann filters sig fe"
  shows "rolling ops hann filters sig (fe
      \<lparr> fe_mel_frames := fe_mel_frames fe @ frame_at ops hann filters sig (fe_next_frame fe),
        fe_dft_frames_computed := fe_dft_frames_computed fe + 1,
        fe_next_frame := fe_next_frame fe + 1,
        fe_frames_during_feed := fe_frames_during_feed fe + 1 \<rparr>)"
    and "rolling ops hann filters sig (fe
      \<lparr> fe_mel_frames := fe_mel_frames fe @ frame_at ops hann filters sig (fe_next_frame fe),
        fe_dft_frames_computed := fe_dft_frames_computed fe + 1,
        fe_next_frame := fe_next_frame fe + 1,
        fe_frames_at_finish := fe_frames_at_finish fe + 1 \<rparr>)"
  using assms by (auto simp: rolling_def upto_rec2)

lemma stable_bounds:
  assumes "0 \<le> f" "frame_hi_index f < int (length sig)" "i < 400"
  shows "frame_lo_index f \<le> resolve_index (f * 160 + int i - 200) (int (length sig))"
    and "resolve_index (f * 160 + int i - 200) (int (length sig)) < int (length sig)"
  using stable_read [OF assms(1,3)] assms(2) by (simp_all add: resolve_index_stable)

lemma frame_lo_mono: "0 \<le> f \<Longrightarrow> f \<le> g \<Longrightarrow> frame_lo_index f \<le> frame_lo_index g"
  by (simp add: frame_lo_eq)

lemma emit_stable_frames_good:
  assumes "rolling ops hann filters sig fe"
    and "fe_pcm_base fe \<le> frame_lo_index (fe_next_frame fe)"
    and "int (length sig) + 400 < 2 ^ 31"
    and "0 < fe_next_frame fe \<longrightarrow> frame_hi_index (fe_next_frame fe - 1) < int (length sig)"
  shows "\<exists>fe'. emit_stable_frames ops fe = Some fe' \<and> rolling ops hann filters sig fe' \<and>
     fe_pcm_base fe' = fe_pcm_base fe \<and> fe_pcm_base fe' \<le> frame_lo_index (fe_next_frame fe') \<and>
     fe_finalized fe' = fe_finalized fe \<and> fe_frames_at_finish fe' = fe_frames_at_finish fe \<and>
     fe_mel_base_frame fe' = fe_mel_base_frame fe \<and> fe_retain_history fe' = fe_retain_history fe \<and>
     fe_next_frame fe \<le> fe_next_frame fe' \<and>
     (0 < fe_next_frame fe' \<longrightarrow> frame_hi_index (fe_next_frame fe' - 1) < int (length sig)) \<and>
     int (length sig) \<le> frame_hi_index (fe_next_frame fe')"
  using assms
proof (induction ops fe rule: emit_stable_frames.induct)
  case (1 ops fe)
  note r = "1.prems"(1)
  have tot: "fe_total_received fe = int (length sig)" using r by (simp add: rolling_def)
  have n0: "0 \<le> fe_next_frame fe" by (rule rolling_next_nonneg [OF r])
  show ?case
  proof (cases "frame_hi_index (fe_next_frame fe) \<le> fe_total_received fe - 1")
    case False
    then have "emit_stable_frames ops fe = Some fe" by (subst emit_stable_frames.simps) simp
    then show ?thesis using "1.prems" False tot by simp
  next
    case True
    then have hi: "frame_hi_index (fe_next_frame fe) < int (length sig)" using tot by simp
    then have rng: "i32_range (fe_next_frame fe * 160)"
      using n0 "1.prems"(3) by (auto simp: frame_hi_eq split: if_splits)
    have tot32: "i32 (fe_total_received fe) = int (length sig)"
      using "1.prems"(3) tot by simp
    note cs = compute_and_store_frame_eq [OF r "1.prems"(2) rng stable_bounds [OF n0 hi]]
    let ?fe1 = "fe \<lparr> fe_mel_frames := fe_mel_frames fe @ frame_at ops hann filters sig (fe_next_frame fe),
        fe_dft_frames_computed := fe_dft_frames_computed fe + 1 \<rparr>"
    let ?fe2 = "?fe1 \<lparr> fe_next_frame := fe_next_frame ?fe1 + 1,
        fe_frames_during_feed := fe_frames_during_feed ?fe1 + 1 \<rparr>"
    have eq: "emit_stable_frames ops fe = emit_stable_frames ops ?fe2"
      using True hi by (subst emit_stable_frames.simps) (simp add: tot32 cs)
    have r2: "rolling ops hann filters sig ?fe2" using rolling_step(1) [OF r] by simp
    have b2: "fe_pcm_base ?fe2 \<le> frame_lo_index (fe_next_frame ?fe2)"
      using "1.prems"(2) frame_lo_mono [OF n0, of "fe_next_frame fe + 1"] by simp
    from "1.IH" [OF True, of ?fe1] r2 b2 "1.prems"(3) hi
    show ?thesis unfolding eq by (simp add: tot32 cs) fastforce
  qed
qed

lemma frame_hi_mono: "0 \<le> f \<Longrightarrow> f \<le> g \<Longrightarrow> frame_hi_index f \<le> frame_hi_index g"
  by (auto simp: frame_hi_eq)

lemma frame_at_stable:
  "0 \<le> f \<Longrightarrow> frame_hi_index f < int (length sig) \<Longrightarrow>
   frame_at ops hann filters (sig @ rest) f = frame_at ops hann filters sig f"
  by (simp add: frame_at_def signal_window_stable)

lemma rolling_append:
  assumes "mel_inv ops hann filters sig fe"
  shows "rolling ops hann filters (sig @ xs) (fe \<lparr> fe_pcm := fe_pcm fe @ xs,
           fe_total_received := fe_total_received fe + int (length xs) \<rparr>)"
proof -
  have r: "rolling ops hann filters sig fe" using assms by (simp add: mel_inv_def)
  have "frame_at ops hann filters (sig @ xs) f = frame_at ops hann filters sig f"
    if "f \<in> set [fe_mel_base_frame fe..fe_next_frame fe - 1]" for f
  proof (rule frame_at_stable)
    show "0 \<le> f" using that r by (auto simp: rolling_def)
    then have "frame_hi_index f \<le> frame_hi_index (fe_next_frame fe - 1)"
      using that by (intro frame_hi_mono) auto
    moreover have "0 < fe_next_frame fe" using that r by (auto simp: rolling_def)
    ultimately show "frame_hi_index f < int (length sig)" using assms by (simp add: mel_inv_def)
  qed
  then have m: "List.map (frame_at ops hann filters (sig @ xs)) [fe_mel_base_frame fe..fe_next_frame fe - 1]
      = List.map (frame_at ops hann filters sig) [fe_mel_base_frame fe..fe_next_frame fe - 1]"
    by (rule map_cong [OF refl])
  have z: "nat (fe_pcm_base fe) - length sig = 0" using r unfolding rolling_def by linarith
  from r show ?thesis by (simp add: rolling_def m z)
qed

lemma compact_good:
  assumes "rolling ops hann filters sig fe" "\<not> fe_finalized fe" "fe_frames_at_finish fe = 0"
    and "fe_pcm_base fe \<le> frame_lo_index (fe_next_frame fe)"
    and "0 < fe_next_frame fe \<longrightarrow> frame_hi_index (fe_next_frame fe - 1) < int (length sig)"
    and "int (length sig) \<le> frame_hi_index (fe_next_frame fe)"
  shows "mel_inv ops hann filters sig (compact fe)"
proof -
  let ?k = "frame_lo_index (fe_next_frame fe)"
  have n0: "0 \<le> fe_next_frame fe" by (rule rolling_next_nonneg [OF assms(1)])
  have k: "0 \<le> ?k" "?k \<le> int (length sig)" "int (length sig) - ?k < 400"
    using n0 assms(5,6) by (auto simp: frame_lo_eq frame_hi_eq split: if_splits)
  have pcm: "fe_pcm (compact fe) = drop (nat ?k) sig \<and> fe_pcm_base (compact fe) = ?k \<and>
      fe_pcm_peak_retained (compact fe) < 400"
    using assms(1,4) k
    by (auto simp: compact_def Let_def rolling_def nat_diff_distrib)
  then show ?thesis using assms(1,2,3,5,6) k
    by (auto simp: compact_def Let_def rolling_def mel_inv_def)
qed

lemma compact_frame [simp]:
  "fe_mel_base_frame (compact fe) = fe_mel_base_frame fe"
  "fe_retain_history (compact fe) = fe_retain_history fe"
  "fe_next_frame (compact fe) = fe_next_frame fe"
  by (auto simp: compact_def Let_def)

lemma mel_frontend_append_good:
  assumes inv: "mel_inv ops hann filters sig fe" and len: "int (length (sig @ xs)) + 400 < 2 ^ 31"
  shows "\<exists>fe'. mel_frontend_append ops fe xs = Some (True, fe') \<and> mel_inv ops hann filters (sig @ xs) fe' \<and>
     fe_mel_base_frame fe' = fe_mel_base_frame fe \<and> fe_retain_history fe' = fe_retain_history fe"
proof -
  let ?fe1 = "fe \<lparr> fe_pcm := fe_pcm fe @ xs,
       fe_total_received := fe_total_received fe + int (length xs) \<rparr>"
  have b: "fe_pcm_base ?fe1 \<le> frame_lo_index (fe_next_frame ?fe1)" using inv by (simp add: mel_inv_def)
  have h: "0 < fe_next_frame ?fe1 \<longrightarrow> frame_hi_index (fe_next_frame ?fe1 - 1) < int (length (sig @ xs))"
    using inv by (auto simp: mel_inv_def)
  obtain fe2 where fe2: "emit_stable_frames ops ?fe1 = Some fe2" "rolling ops hann filters (sig @ xs) fe2"
      "fe_pcm_base fe2 \<le> frame_lo_index (fe_next_frame fe2)"
      "fe_finalized fe2 = fe_finalized ?fe1" "fe_frames_at_finish fe2 = fe_frames_at_finish ?fe1"
      "fe_mel_base_frame fe2 = fe_mel_base_frame ?fe1" "fe_retain_history fe2 = fe_retain_history ?fe1"
      "0 < fe_next_frame fe2 \<longrightarrow> frame_hi_index (fe_next_frame fe2 - 1) < int (length (sig @ xs))"
      "int (length (sig @ xs)) \<le> frame_hi_index (fe_next_frame fe2)"
    using emit_stable_frames_good [OF rolling_append [OF inv, of xs] b len h] by blast
  have "mel_inv ops hann filters (sig @ xs) (compact fe2)"
    by (rule compact_good) (use fe2 inv in \<open>auto simp: mel_inv_def\<close>)
  then show ?thesis using fe2 by (simp add: mel_frontend_append_def Let_def)
qed

lemma finish_frames_good:
  assumes "rolling ops hann filters sig fe"
    and "fe_pcm_base fe \<le> frame_lo_index (fe_next_frame fe)"
    and "int (length sig) < 2 ^ 30" and "fe_next_frame fe \<le> int (length sig) div 160"
  shows "\<exists>fe'. finish_frames ops fe (int (length sig) div 160) (int (length sig)) = Some fe' \<and>
     rolling ops hann filters sig fe' \<and> fe_next_frame fe' = int (length sig) div 160 \<and>
     fe_finalized fe' = fe_finalized fe \<and> fe_mel_base_frame fe' = fe_mel_base_frame fe \<and>
     fe_retain_history fe' = fe_retain_history fe"
  using assms
proof (induction ops fe "int (length sig) div 160" "int (length sig)" rule: finish_frames.induct)
  case (1 ops fe)
  note r = "1.prems"(1)
  have n0: "0 \<le> fe_next_frame fe" by (rule rolling_next_nonneg [OF r])
  show ?case
  proof (cases "fe_next_frame fe < int (length sig) div 160")
    case False
    then have "finish_frames ops fe (int (length sig) div 160) (int (length sig)) = Some fe"
      by (subst finish_frames.simps) simp
    then show ?thesis using r False "1.prems"(4) by simp
  next
    case True
    have "fe_next_frame fe * 160 \<le> int (length sig) div 160 * 160"
      by (rule mult_right_mono) (use True in auto)
    then have "fe_next_frame fe * 160 \<le> int (length sig)"
      using mult_div_mod_eq [of 160 "int (length sig)"] pos_mod_sign [of 160 "int (length sig)"] by simp
    then have rng: "i32_range (fe_next_frame fe * 160)" using n0 "1.prems"(3) by auto
    have tot32: "i32 (int (length sig)) = int (length sig)" using "1.prems"(3) by simp
    note cs = compute_and_store_frame_eq [OF r "1.prems"(2) rng final_read [OF n0 True]]
    let ?fe1 = "fe \<lparr> fe_mel_frames := fe_mel_frames fe @ frame_at ops hann filters sig (fe_next_frame fe),
        fe_dft_frames_computed := fe_dft_frames_computed fe + 1 \<rparr>"
    let ?fe2 = "?fe1 \<lparr> fe_next_frame := fe_next_frame ?fe1 + 1,
        fe_frames_at_finish := fe_frames_at_finish ?fe1 + 1 \<rparr>"
    have eq: "finish_frames ops fe (int (length sig) div 160) (int (length sig)) =
        finish_frames ops ?fe2 (int (length sig) div 160) (int (length sig))"
      by (subst finish_frames.simps) (simp add: True tot32 cs)
    have r2: "rolling ops hann filters sig ?fe2" using rolling_step(2) [OF r] by simp
    have b2: "fe_pcm_base ?fe2 \<le> frame_lo_index (fe_next_frame ?fe2)"
      using "1.prems"(2) frame_lo_mono [OF n0, of "fe_next_frame fe + 1"] by simp
    from "1.hyps" [OF True, of ?fe1] r2 b2 "1.prems"(3) True
    show ?thesis unfolding eq by (simp add: tot32 cs)
  qed
qed

lemma mel_frontend_finish_good:
  assumes inv: "mel_inv ops hann filters sig fe" and len: "int (length sig) < 2 ^ 30"
  shows "\<exists>fe'. mel_frontend_finish ops fe = Some fe' \<and> fe_finalized fe' \<and> fe_pcm fe' = [] \<and>
     fe_next_frame fe' = int (length sig) div 160 \<and>
     fe_dft_frames_computed fe' = fe_next_frame fe' \<and>
     fe_frames_during_feed fe' + fe_frames_at_finish fe' = fe_next_frame fe' \<and>
     fe_mel_base_frame fe' = fe_mel_base_frame fe \<and>
     fe_mel_frames fe' = concat (List.map (frame_at ops hann filters sig)
                           [fe_mel_base_frame fe..int (length sig) div 160 - 1])"
proof -
  let ?fe1 = "fe \<lparr> fe_finalized := True \<rparr>"
  have r: "rolling ops hann filters sig ?fe1" using inv by (simp add: mel_inv_def rolling_def)
  have b: "fe_pcm_base ?fe1 \<le> frame_lo_index (fe_next_frame ?fe1)" using inv by (simp add: mel_inv_def)
  have n0: "0 \<le> fe_next_frame fe" using rolling_next_nonneg [OF r] by simp
  have "fe_next_frame fe * 160 \<le> int (length sig)"
    using inv n0 by (auto simp: mel_inv_def frame_hi_eq split: if_splits)
  then have n: "fe_next_frame ?fe1 \<le> int (length sig) div 160"
    by (simp add: less_eq_div_iff_mult_less_eq)
  from finish_frames_good [OF r b len n] obtain fe2 where
    fe2: "finish_frames ops ?fe1 (int (length sig) div 160) (int (length sig)) = Some fe2"
      "rolling ops hann filters sig fe2" "fe_next_frame fe2 = int (length sig) div 160"
      "fe_finalized fe2 = fe_finalized ?fe1" "fe_mel_base_frame fe2 = fe_mel_base_frame ?fe1"
    by blast
  have nf: "\<not> fe_finalized fe" and tot: "fe_total_received fe = int (length sig)"
    using inv by (simp_all add: mel_inv_def rolling_def)
  show ?thesis using fe2 nf tot by (simp add: mel_frontend_finish_def Let_def rolling_def)
qed

section \<open>The batch spectrogram computes the same frames\<close>

lemma batch_frame_count_eq: "0 \<le> n \<Longrightarrow> batch_frame_count n = n div 160"
  by (auto simp: batch_frame_count_def Let_def pos_imp_zdiv_pos_iff zdiv_eq_0_iff)

lemma centered_window:
  assumes "f * 160 + 400 \<le> length sig + 400"
  shows "take 400 (drop (f * 160) (List.map (\<lambda>i. sig ! nat (resolve_index (int i - 200) (int (length sig))))
            [0..<length sig + 400])) = signal_window sig (int f)"
proof -
  have "take 400 (drop (f * 160) [0..<length sig + 400]) = [f * 160..<f * 160 + 400]"
    using assms by (simp add: take_upt)
  also have "\<dots> = List.map (\<lambda>i. i + f * 160) [0..<400]" by (simp add: map_add_upt add.commute)
  finally show ?thesis
    by (simp add: signal_window_def drop_map take_map o_def algebra_simps)
qed

lemma compute_batch_eq:
  assumes "0 < n_frames" "n_frames = int (length sig) div 160"
  shows "compute_batch ops hann filters sig (int (length sig)) =
     Some (concat (List.map (\<lambda>m. List.map (\<lambda>f. frame_at ops hann filters sig (int f) ! m)
                     [0..<nat n_frames]) [0..<128]), n_frames)"
proof -
  let ?n = "int (length sig)"
  have pos: "0 < ?n" using assms by (cases "sig = []") auto
  have rr: "0 \<le> resolve_index s ?n" "resolve_index s ?n < ?n" for s
    using resolve_index_range [of ?n s] pos by simp_all
  have cnt: "batch_frame_count ?n = n_frames" using assms(2) by (simp add: batch_frame_count_eq)
  have c: "read_all (\<lambda>i. let src = int i - 200 in vec_get sig (resolve_index src ?n)) [0..<nat (?n + 2 * 200)]
      = Some (List.map (\<lambda>i. sig ! nat (resolve_index (int i - 200) ?n)) [0..<nat (?n + 2 * 200)])"
    by (rule read_all_Some) (simp add: Let_def vec_get_Some rr)
  have n: "nat (?n + 2 * 200) = length sig + 400" by simp
  have win: "take 400 (drop (f * 160) (List.map (\<lambda>i. sig ! nat (resolve_index (int i - 200) ?n))
              [0..<length sig + 400])) = signal_window sig (int f)" if "f \<in> set [0..<nat n_frames]" for f
  proof (rule centered_window)
    have "int f * 160 \<le> ?n div 160 * 160" using that assms(2) by (intro mult_right_mono) auto
    then show "f * 160 + 400 \<le> length sig + 400"
      using mult_div_mod_eq [of 160 ?n] pos_mod_sign [of 160 ?n] by simp
  qed
  have fr: "List.map (\<lambda>frame. frame_from_window ops (take 400 (drop (frame * 160)
       (List.map (\<lambda>i. sig ! nat (resolve_index (int i - 200) ?n)) [0..<length sig + 400]))) hann filters)
         [0..<nat n_frames] = List.map (\<lambda>f. frame_at ops hann filters sig (int f)) [0..<nat n_frames]"
    by (rule map_cong [OF refl]) (simp add: frame_at_def win)
  show ?thesis using assms(1)
    unfolding compute_batch_def cnt Let_def [of n_frames] c [unfolded n] n
    by (simp add: fr o_def Let_def)
qed

lemma upto_map_int: "[0..int n - 1] = List.map int [0..<n]"
  by (induction n) (auto simp: upto_rec2)

lemma history_get:
  assumes "f < n" "m < 128" "\<And>k. length (F k) = 128"
  shows "vec_get (concat (List.map F [0..int n - 1])) (int f * 128 + int m) = Some (F (int f) ! m)"
proof -
  let ?xs = "List.map (\<lambda>k. F (int k)) [0..<n]"
  have l: "length (concat ?xs) = 128 * n"
    by (subst length_concat_const [of _ 128]) (auto simp: assms(3))
  have "f * 128 + m < 128 * n" using assms(1,2) by simp
  then have "vec_get (concat ?xs) (int f * 128 + int m) = Some (concat ?xs ! (f * 128 + m))"
    unfolding vec_get_def l by (simp add: nat_add_distrib nat_mult_distrib)
  also have "concat ?xs ! (f * 128 + m) = F (int f) ! m"
    by (subst nth_concat_const [of _ 128]) (use assms in auto)
  finally show ?thesis by (simp add: upto_map_int o_def)
qed

lemma assemble_raw_finished:
  assumes "fe_mel_base_frame fe = 0" "fe_next_frame fe = int (length sig) div 160"
    and "int (length sig) < 2 ^ 30"
    and "fe_mel_frames fe = concat (List.map (frame_at ops hann filters sig) [0..int (length sig) div 160 - 1])"
  shows "mel_frontend_assemble_raw fe = compute_batch ops hann filters sig (int (length sig))"
proof -
  let ?n = "int (length sig) div 160"
  have n0: "0 \<le> ?n" by (simp add: pos_imp_zdiv_nonneg_iff)
  have "?n \<le> int (length sig)" proof -
    have "?n = int (length sig div 160)" by (simp add: zdiv_int)
    then show ?thesis by simp
  qed
  then have n32: "i32 ?n = ?n" using assms(3) n0 by simp
  show ?thesis
  proof (cases "?n \<le> 0")
    case True
    then have "?n = 0" using n0 by simp
    then show ?thesis using assms(1,2) n32
      by (simp add: mel_frontend_assemble_raw_def compute_batch_def batch_frame_count_eq Let_def)
  next
    case False
    have row: "read_all (\<lambda>f. vec_get (fe_mel_frames fe) (int f * 128 + int m)) [0..<nat ?n] =
        Some (List.map (\<lambda>f. frame_at ops hann filters sig (int f) ! m) [0..<nat ?n])"
      if "m \<in> set [0..<128]" for m
      using that n0 unfolding assms(4)
      by (intro read_all_Some) (use history_get [of _ "nat ?n" m "frame_at ops hann filters sig"] in simp)
    have "read_all (\<lambda>m. read_all (\<lambda>f. vec_get (fe_mel_frames fe) (int f * 128 + int m)) [0..<nat ?n]) [0..<128]
        = Some (List.map (\<lambda>m. List.map (\<lambda>f. frame_at ops hann filters sig (int f) ! m) [0..<nat ?n]) [0..<128])"
      by (rule read_all_Some) (rule row)
    then show ?thesis using False assms(1,2) n32
      by (simp add: mel_frontend_assemble_raw_def compute_batch_eq [OF _ refl] Let_def)
  qed
qed

section \<open>The frontend as a chunked consumer\<close>

text \<open>The two ways samples reach the frontend.\<close>

datatype 'f pcm_chunk = Samples "'f list" | Silence nat

definition chunk_samples :: "('f, 'z) float_ops_scheme \<Rightarrow> 'f pcm_chunk \<Rightarrow> 'f list" where
  "chunk_samples ops c = (case c of Samples xs \<Rightarrow> xs | Silence n \<Rightarrow> replicate n (f_lit ops 0 0))"

definition feed_chunk :: "('f, 'z) float_ops_scheme \<Rightarrow> 'f frontend \<Rightarrow> 'f pcm_chunk \<Rightarrow> 'f frontend option" where
  "feed_chunk ops fe c =
    (case (case c of Samples xs \<Rightarrow> mel_frontend_feed ops fe (Some xs) (length xs)
                   | Silence n \<Rightarrow> mel_frontend_feed_silence ops fe n) of
       Some (True, fe') \<Rightarrow> Some fe'
     | _ \<Rightarrow> None)"

definition fresh_frontend :: "'f list \<Rightarrow> 'f list \<Rightarrow> 'f frontend" where
  "fresh_frontend hann filters = the (mel_frontend_create (Some hann) (Some filters) True)"

definition finished_matrix :: "('f, 'z) float_ops_scheme \<Rightarrow> 'f frontend \<Rightarrow> ('f list \<times> int) option" where
  "finished_matrix ops fe =
    (case mel_frontend_finish ops fe of None \<Rightarrow> None | Some fe' \<Rightarrow> mel_frontend_assemble_raw fe')"

lemma fresh_good: "mel_inv ops hann filters [] (fresh_frontend hann filters)"
  by (simp add: fresh_frontend_def mel_frontend_create_def mel_inv_def rolling_def frame_lo_eq frame_hi_eq)

lemma feed_chunk_good:
  assumes "mel_inv ops hann filters sig fe" "int (length (sig @ chunk_samples ops c)) + 400 < 2 ^ 31"
  shows "\<exists>fe'. feed_chunk ops fe c = Some fe' \<and> mel_inv ops hann filters (sig @ chunk_samples ops c) fe' \<and>
     fe_mel_base_frame fe' = fe_mel_base_frame fe"
proof -
  have "\<not> fe_finalized fe" using assms(1) by (simp add: mel_inv_def)
  with assms mel_frontend_append_good [OF assms] show ?thesis
    by (cases c) (auto simp: feed_chunk_def chunk_samples_def mel_frontend_feed_def
        mel_frontend_feed_silence_def)
qed

interpretation mel: chunked "fresh_frontend hann filters" "feed_chunk ops" "chunk_samples ops"
  "\<lambda>sig. int (length sig) < 2 ^ 30"
  "\<lambda>sig fe. mel_inv ops hann filters sig fe \<and> fe_mel_base_frame fe = 0"
  "finished_matrix ops" "\<lambda>sig. compute_batch ops hann filters sig (int (length sig))"
  for ops :: "('f, 'z) float_ops_scheme" and hann filters
proof unfold_locales
  show "mel_inv ops hann filters [] (fresh_frontend hann filters) \<and>
      fe_mel_base_frame (fresh_frontend hann filters) = 0"
    using fresh_good by (simp add: fresh_frontend_def mel_frontend_create_def)
next
  fix sig fe c
  assume "mel_inv ops hann filters sig fe \<and> fe_mel_base_frame fe = 0"
    and "int (length (sig @ chunk_samples ops c)) < 2 ^ 30"
  then show "\<exists>fe'. feed_chunk ops fe c = Some fe' \<and>
      mel_inv ops hann filters (sig @ chunk_samples ops c) fe' \<and> fe_mel_base_frame fe' = 0"
    using feed_chunk_good [of ops hann filters sig fe c] by simp
next
  fix sig fe
  assume a: "mel_inv ops hann filters sig fe \<and> fe_mel_base_frame fe = 0" and l: "int (length sig) < 2 ^ 30"
  then obtain fe' where "mel_frontend_finish ops fe = Some fe'" "fe_mel_base_frame fe' = 0"
      "fe_next_frame fe' = int (length sig) div 160"
      "fe_mel_frames fe' = concat (List.map (frame_at ops hann filters sig) [0..int (length sig) div 160 - 1])"
    using mel_frontend_finish_good [of ops hann filters sig fe] by auto
  then show "finished_matrix ops fe = compute_batch ops hann filters sig (int (length sig))"
    using assemble_raw_finished [OF _ _ l] by (simp add: finished_matrix_def)
qed auto

section \<open>Bounded history and access to single frames\<close>

lemma discard_before_good:
  assumes "mel_inv ops hann filters sig fe"
  shows "mel_inv ops hann filters sig (mel_frontend_discard_before fe frame)"
proof -
  let ?b = "fe_mel_base_frame fe" and ?n = "fe_next_frame fe"
  let ?F = "frame_at ops hann filters sig"
  have r: "rolling ops hann filters sig fe" using assms by (simp add: mel_inv_def)
  have b: "0 \<le> ?b" "?b \<le> ?n" and h: "fe_mel_frames fe = concat (List.map ?F [?b..?n - 1])"
    using r by (simp_all add: rolling_def)
  have len: "length (fe_mel_frames fe) = nat (?n - ?b) * 128"
    unfolding h by (subst length_concat_const [of _ 128]) auto
  have avail: "int (length (fe_mel_frames fe) div 128) = ?n - ?b" unfolding len using b by simp
  have d: "drop (nat (t - ?b) * 128) (fe_mel_frames fe) = concat (List.map ?F [t..?n - 1])"
    if t: "?b \<le> t" "t \<le> ?n" for t
  proof -
    have "[?b..?n - 1] = [?b..t - 1] @ [t..?n - 1]"
      using t upto_split1 [of ?b t "?n - 1"] by (cases "t = ?n") auto
    then show ?thesis unfolding h
      by (subst drop_concat_const [of _ 128]) (auto simp: drop_map)
  qed
  let ?t = "min frame (?b + (?n - ?b))"
  have keep: "mel_inv ops hann filters sig (fe
      \<lparr> fe_mel_frames := drop (nat (t - ?b) * 128) (fe_mel_frames fe), fe_mel_base_frame := t \<rparr>)"
    if t: "?b \<le> t" "t \<le> ?n" for t
    using assms b t by (simp add: mel_inv_def rolling_def d [OF t, unfolded h])
  have "mel_frontend_discard_before fe frame = fe \<or> (?b \<le> ?t \<and> mel_frontend_discard_before fe frame =
       fe \<lparr> fe_mel_frames := drop (nat (?t - ?b) * 128) (fe_mel_frames fe), fe_mel_base_frame := ?t \<rparr>)"
    unfolding mel_frontend_discard_before_def Let_def avail clear_or_drop using b by simp
  then show ?thesis
  proof (elim disjE conjE)
    assume "mel_frontend_discard_before fe frame = fe"
    then show ?thesis using assms by simp
  next
    assume "?b \<le> ?t" and eq: "mel_frontend_discard_before fe frame = fe
      \<lparr> fe_mel_frames := drop (nat (?t - ?b) * 128) (fe_mel_frames fe), fe_mel_base_frame := ?t \<rparr>"
    show ?thesis unfolding eq by (rule keep) (use \<open>?b \<le> ?t\<close> in auto)
  qed
qed

lemma frame_data_inv:
  assumes "mel_inv ops hann filters sig fe" "fe_mel_base_frame fe \<le> f" "f < fe_next_frame fe"
  shows "mel_frontend_frame_data fe f = Some (frame_at ops hann filters sig f)"
proof -
  let ?b = "fe_mel_base_frame fe" and ?n = "fe_next_frame fe"
  let ?F = "frame_at ops hann filters sig"
  have h: "fe_mel_frames fe = concat (List.map ?F [?b..?n - 1])"
    using assms(1) by (simp add: rolling_def mel_inv_def)
  have len: "length (fe_mel_frames fe) = nat (?n - ?b) * 128"
    unfolding h by (subst length_concat_const [of _ 128]) auto
  have sp: "[?b..?n - 1] = [?b..f - 1] @ f # [f + 1..?n - 1]"
    using assms(2,3) by (simp add: upto_split3)
  have "drop (nat (f - ?b) * 128) (fe_mel_frames fe) = concat (List.map ?F (f # [f + 1..?n - 1]))"
    unfolding h sp by (subst drop_concat_const [of _ 128]) (auto simp: drop_map)
  moreover have "int (length (fe_mel_frames fe) div 128) = ?n - ?b" unfolding len using assms(2,3) by simp
  ultimately show ?thesis using assms(2,3) by (simp add: mel_frontend_frame_data_def Let_def)
qed

section \<open>A session longer than the 32-bit sample count\<close>

lemma emit_overflow:
  assumes "rolling ops hann filters sig fe" "0 < fe_pcm_base fe"
    and "2 ^ 31 \<le> int (length sig)" "int (length sig) < 2 ^ 32"
    and "frame_hi_index (fe_next_frame fe) < int (length sig)"
  shows "emit_stable_frames ops fe = None"
proof -
  have tot: "fe_total_received fe = int (length sig)" using assms(1) by (simp add: rolling_def)
  have "i32 (fe_total_received fe) < 0" using assms(3,4) by (simp add: tot i32_neg_of_overflow)
  then have "resolve_index src (i32 (fe_total_received fe)) = 0" for src
    by (subst resolve_index_def) (simp add: reflect_index.simps)
  then have "fill_window fe (fe_next_frame fe) (i32 (fe_total_received fe)) = None"
    unfolding fill_window_def Let_def
    by (intro read_all_None [of 0]) (use assms(2) in \<open>auto simp: vec_get_None\<close>)
  then show ?thesis using assms(5) tot
    by (subst emit_stable_frames.simps) (simp add: compute_and_store_frame_def)
qed

lemma append_overflow:
  assumes inv: "mel_inv ops hann filters sig fe" and "1000 \<le> length sig" and "400 \<le> length xs"
    and "2 ^ 31 \<le> int (length (sig @ xs))" "int (length (sig @ xs)) < 2 ^ 32"
  shows "mel_frontend_append ops fe xs = None"
proof -
  let ?fe1 = "fe \<lparr> fe_pcm := fe_pcm fe @ xs,
       fe_total_received := fe_total_received fe + int (length xs) \<rparr>"
  have n0: "0 \<le> fe_next_frame fe" using inv by (auto simp: mel_inv_def rolling_def)
  have lo: "fe_pcm_base fe = frame_lo_index (fe_next_frame fe)"
    and le: "fe_pcm_base fe \<le> int (length sig)" using inv by (simp_all add: mel_inv_def rolling_def)
  have hi: "int (length sig) \<le> frame_hi_index (fe_next_frame fe)" using inv by (simp add: mel_inv_def)
  then have big: "4 \<le> fe_next_frame fe"
    using assms(2) n0 by (auto simp: frame_hi_eq split: if_splits)
  have base: "fe_pcm_base fe = fe_next_frame fe * 160 - 200" using lo big by (simp add: frame_lo_eq)
  have "emit_stable_frames ops ?fe1 = None"
  proof (rule emit_overflow [OF rolling_append [OF inv] _ assms(4,5)])
    show "0 < fe_pcm_base ?fe1" using base big by simp
    have "frame_hi_index (fe_next_frame fe) = fe_next_frame fe * 160 + 199" using big by (simp add: frame_hi_eq)
    then show "frame_hi_index (fe_next_frame ?fe1) < int (length (sig @ xs))"
      using base le assms(3) by simp
  qed
  then show ?thesis by (simp add: mel_frontend_append_def Let_def)
qed

section \<open>Trimming an odd matrix in place\<close>

lemma trim_rows:
  assumes "\<And>r. r \<in> set rows \<Longrightarrow> length r = w" "0 < w" "m \<le> length rows"
  defines "step \<equiv> \<lambda>buf m. memmove buf (m * (w - 1)) (m * w + 1) (w - 1)"
  shows "take (m * (w - 1)) (foldl step (concat rows @ tail) [0..<m]) = concat (List.map tl (take m rows)) \<and>
     drop (m * (w - 1)) (foldl step (concat rows @ tail) [0..<m]) = drop (m * (w - 1)) (concat rows @ tail)"
  using assms(3)
proof (induction m)
  case (Suc m)
  let ?b = "foldl step (concat rows @ tail) [0..<m]"
  have IH: "take (m * (w - 1)) ?b = concat (List.map tl (take m rows))"
      "drop (m * (w - 1)) ?b = drop (m * (w - 1)) (concat rows @ tail)" using Suc by simp_all
  have lc: "length (concat rows) = w * length rows" by (rule length_concat_const) (rule assms(1))
  have mw: "m * w + w \<le> length (concat rows)"
    using Suc.prems mult_le_mono1 [of "Suc m" "length rows" w] by (simp add: lc mult.commute)
  have le: "m * (w - 1) \<le> m * w + 1"
    by (rule le_trans [OF mult_le_mono2 [of "w - 1" w m]]) auto
  have dd: "drop (m * w + 1 - m * (w - 1)) (drop (m * (w - 1)) xs) = drop (m * w + 1) xs" for xs :: "'a list"
    using le by simp
  have "drop (m * w + 1) ?b = drop (m * w + 1) (concat rows @ tail)"
    using arg_cong [OF IH(2), of "drop (m * w + 1 - m * (w - 1))"] unfolding dd .
  also have "\<dots> = drop 1 (drop (m * w) (concat rows) @ tail)" using mw by simp
  also have "drop (m * w) (concat rows) = rows ! m @ concat (drop (Suc m) rows)"
    using assms(1) Suc.prems by (simp add: drop_concat_const [of rows w] Cons_nth_drop_Suc [symmetric])
  finally have src: "take (w - 1) (drop (m * w + 1) ?b) = tl (rows ! m)"
    using assms(1) [of "rows ! m"] assms(2) Suc.prems by (simp add: drop_Suc)
  have lt: "length (take (m * (w - 1)) ?b) = m * (w - 1)"
    unfolding IH(1) using assms(1) Suc.prems
    by (subst length_concat_const [of _ "w - 1"]) (auto dest: in_set_takeD)
  have stp: "step b m = take (m * (w - 1)) b @ take (w - 1) (drop (m * w + 1) b) @
      drop (m * (w - 1) + (w - 1)) b" for b
    by (simp add: step_def memmove_def)
  have "foldl step (concat rows @ tail) [0..<Suc m] = step ?b m" by simp
  then have st: "foldl step (concat rows @ tail) [0..<Suc m] = take (m * (w - 1)) ?b @ tl (rows ! m) @
      drop (m * (w - 1) + (w - 1)) ?b"
    unfolding stp src .
  have ltl: "length (tl (rows ! m)) = w - 1" using assms(1) [of "rows ! m"] Suc.prems by simp
  have sm: "Suc m * (w - 1) = m * (w - 1) + (w - 1)" by simp
  have "take (Suc m * (w - 1)) (foldl step (concat rows @ tail) [0..<Suc m])
      = concat (List.map tl (take m rows)) @ tl (rows ! m)"
    unfolding st sm using take_drop_append3(1) [OF lt ltl] by (simp only: IH(1))
  moreover have "drop (m * (w - 1) + (w - 1)) xs = drop (w - 1) (drop (m * (w - 1)) xs)" for xs :: "'a list"
    by (simp only: drop_drop add.commute)
  then have "drop (Suc m * (w - 1)) (foldl step (concat rows @ tail) [0..<Suc m])
      = drop (Suc m * (w - 1)) (concat rows @ tail)"
    unfolding st sm take_drop_append3(2) [OF lt ltl] by (simp only: IH(2))
  moreover have "take (Suc m) rows = take m rows @ [rows ! m]"
    using Suc.prems by (simp add: take_Suc_conv_app_nth)
  ultimately show ?case by simp
qed simp

lemma compute_mel_even_eq:
  assumes n: "n = int (length sig) div 160" and m: "n_out = (if n mod 2 = 0 then n else n - 1)"
  shows "map_option (\<lambda>(buf, k). (take (128 * nat k) buf, k)) (compute_mel_even ops hann filters sig (int (length sig)))
    = Some (concat (List.map (\<lambda>m. List.map (\<lambda>f. frame_at ops hann filters sig (int f) ! m)
        [(if n mod 2 = 0 then 0 else 1)..<nat n]) [0..<128]), n_out)"
proof (cases "0 < n")
  case False
  have "n = int (length sig div 160)" using n by (simp add: zdiv_int)
  then have "n = 0" using False by simp
  then show ?thesis using n m
    by (simp add: compute_mel_even_def compute_batch_def batch_frame_count_eq Let_def)
next
  case True
  let ?w = "nat n"
  let ?row = "\<lambda>m. List.map (\<lambda>f. frame_at ops hann filters sig (int f) ! m) [0..<?w]"
  let ?rows = "List.map ?row [0..<128]"
  have l: "length (concat ?rows) = ?w * 128" by (subst length_concat_const [of _ ?w]) auto
  have cb: "compute_batch ops hann filters sig (int (length sig)) = Some (concat ?rows, n)"
    by (rule compute_batch_eq [OF True n])
  define tail where
    "tail = replicate (nat (128 * (int (length sig) div 160 + 1)) - length (concat ?rows)) (f_lit ops 0 0)"
  show ?thesis
  proof (cases "n mod 2 = 0")
    case True
    then show ?thesis using m l
      by (simp add: compute_mel_even_def cb Let_def mult.commute)
  next
    case False
    let ?buf = "foldl (\<lambda>buf m. memmove buf (m * (?w - 1)) (m * ?w + 1) (?w - 1)) (concat ?rows @ tail) [0..<128]"
    have e: "compute_mel_even ops hann filters sig (int (length sig)) = Some (?buf, n - 1)"
      using False by (simp add: compute_mel_even_def cb Let_def tail_def)
    have t: "take (128 * (?w - 1)) ?buf = concat (List.map tl (take 128 ?rows))"
      by (rule conjunct1 [OF trim_rows]) (use True in auto)
    have tl_row: "tl (?row m) = List.map (\<lambda>f. frame_at ops hann filters sig (int f) ! m) [1..<?w]" for m
      using True by (simp add: map_tl [symmetric] tl_upt)
    have k: "nat (n - 1) = ?w - 1" using True by simp
    have tr: "concat (List.map tl (take 128 ?rows)) =
        concat (List.map (\<lambda>m. List.map (\<lambda>f. frame_at ops hann filters sig (int f) ! m) [1..<?w]) [0..<128])"
      by (simp only: take_all length_map length_upt map_map o_def tl_row)
    show ?thesis using False m by (simp only: e option.map prod.case k t tr) simp
  qed
qed

lemma assemble_even_finished:
  assumes "fe_mel_base_frame fe = 0" "fe_next_frame fe = n" "n = int (length sig) div 160"
    and "int (length sig) < 2 ^ 30"
    and fr: "fe_mel_frames fe = concat (List.map (frame_at ops hann filters sig) [0..n - 1])"
  shows "mel_frontend_assemble_even fe = Some (concat (List.map (\<lambda>m.
      List.map (\<lambda>f. frame_at ops hann filters sig (int f) ! m)
        [(if n mod 2 = 0 then 0 else 1)..<nat n]) [0..<128]), if n mod 2 = 0 then n else n - 1)"
proof -
  let ?off = "if n mod 2 = 0 then 0 else 1 :: nat"
  have nn: "n = int (length sig div 160)" using assms(3) by (simp add: zdiv_int)
  then have n0: "0 \<le> n" and nl: "n \<le> int (length sig)" by simp_all
  have n32: "i32 n = n" using assms(4) n0 nl by simp
  let ?o = "if n mod 2 = 0 then n else n - 1"
  have row: "read_all (\<lambda>j. vec_get (fe_mel_frames fe) ((int j + int ?off) * 128 + int m)) [0..<nat ?o] =
      Some (List.map (\<lambda>f. frame_at ops hann filters sig (int f) ! m) [?off..<nat n])"
    if "m \<in> set [0..<128]" for m
  proof -
    have "read_all (\<lambda>j. vec_get (fe_mel_frames fe) ((int j + int ?off) * 128 + int m)) [0..<nat ?o] =
      Some (List.map (\<lambda>j. frame_at ops hann filters sig (int (j + ?off)) ! m) [0..<nat ?o])"
    proof (rule read_all_Some)
      fix j assume "j \<in> set [0..<nat ?o]"
      then have j: "j + ?off < nat n" using n0 by (auto split: if_splits)
      have m: "m < 128" using that by simp
      show "vec_get (fe_mel_frames fe) ((int j + int ?off) * 128 + int m) =
          Some (frame_at ops hann filters sig (int (j + ?off)) ! m)"
        using history_get [OF j m, of "frame_at ops hann filters sig"] n0 by (simp add: fr)
    qed
    also have "List.map (\<lambda>j. frame_at ops hann filters sig (int (j + ?off)) ! m) [0..<nat ?o] =
        List.map (\<lambda>f. frame_at ops hann filters sig (int f) ! m) (List.map (\<lambda>j. j + ?off) [0..<nat n - ?off])"
      using n0 by (simp add: nat_diff_distrib' o_def)
    also have "List.map (\<lambda>j. j + ?off) [0..<nat n - ?off] = [?off..<nat n]"
      by (cases "?off \<le> nat n") (auto simp: map_add_upt)
    finally show ?thesis .
  qed
  have rows: "read_all (\<lambda>m. read_all (\<lambda>j. vec_get (fe_mel_frames fe) ((int j + int ?off) * 128 + int m))
      [0..<nat ?o]) [0..<128] = Some (List.map (\<lambda>m. List.map (\<lambda>f. frame_at ops hann filters sig (int f) ! m)
        [?off..<nat n]) [0..<128])"
    by (rule read_all_Some) (rule row)
  have z: "?o \<le> 0 \<Longrightarrow> [?off..<nat n] = []" using n0 by (auto split: if_splits)
  have off: "(if n mod 2 \<noteq> 0 then 1 else 0) = int ?off" by simp
  show ?thesis
    unfolding mel_frontend_assemble_even_def Let_def assms(2) n32 off
    using assms(1) rows z by auto
qed

section \<open>The unrolled kernel in exact arithmetic\<close>

lemma dft_loop4_exact:
  fixes ops :: "('f::comm_ring_1, 'z) float_ops_scheme"
  assumes "f_add ops = (+)" "f_mul ops = (*)" "f_sub ops = (-)"
    and "i \<le> n" "re = (\<Sum>j<i. x j * co j)" "im = - (\<Sum>j<i. x j * si j)"
  shows "\<exists>k. k \<le> n \<and> dft_loop4 ops n x co si i re im = (k, \<Sum>j<k. x j * co j, - (\<Sum>j<k. x j * si j))"
  using assms
proof (induction ops n x co si i re im rule: dft_loop4.induct)
  case (1 ops n x co si i re im)
  show ?case
  proof (cases "i + 3 < n")
    case True
    have s: "(\<Sum>j<i + 4. g j) = (\<Sum>j<i. g j) + (g i + g (i + 1) + g (i + 2) + g (i + 3))" for g :: "nat \<Rightarrow> 'f"
      by (simp add: eval_nat_numeral algebra_simps)
    show ?thesis
      unfolding dft_loop4.simps [of ops n x co si i] if_P [OF True]
      by (rule "1.IH" [OF True]) (use "1.prems" True in \<open>simp_all add: s\<close>)
  next
    case False
    then show ?thesis using "1.prems" by (subst dft_loop4.simps) auto
  qed
qed

lemma dft_tail_exact:
  fixes ops :: "('f::comm_ring_1, 'z) float_ops_scheme"
  assumes "f_add ops = (+)" "f_mul ops = (*)" "f_sub ops = (-)"
    and "i \<le> n" "re = (\<Sum>j<i. x j * co j)" "im = - (\<Sum>j<i. x j * si j)"
  shows "dft_tail ops n x co si i re im = (\<Sum>j<n. x j * co j, - (\<Sum>j<n. x j * si j))"
  using assms
proof (induction ops n x co si i re im rule: dft_tail.induct)
  case (1 ops n x co si i re im)
  then show ?case by (cases "i < n") (subst dft_tail.simps, auto)+
qed

section \<open>Properties\<close>

text \<open>Exact integer arithmetic, the float semantics of the witnesses.\<close>

definition int_ops :: "int float_ops" where
  "int_ops = \<lparr> f_add = (+), f_sub = (-), f_mul = (*), f_div = (div), f_neg = uminus,
     f_lt = (<), f_le = (\<le>), f_of_int = id, f_lit = (\<lambda>m e. m div 10 ^ nat e),
     f_log = id, f_log10 = id, f_exp = id, f_cos = id, f_sin = id \<rparr>"

text \<open>C3: feeding a signal to the incremental frontend in any chunks (samples or silence), finishing
it and assembling the history returns exactly the matrix of the batch spectrogram of the whole
signal, for every float semantics, as long as the signal has fewer than 2^30 samples; no read leaves
its buffer on the way.\<close>

theorem mel_incremental_eq_batch:
  assumes "int (length (concat (List.map (chunk_samples ops) cs))) < 2 ^ 30"
  shows "\<exists>fe. feed_all (feed_chunk ops) (fresh_frontend hann filters) cs = Some fe \<and>
     finished_matrix ops fe =
       compute_batch ops hann filters (concat (List.map (chunk_samples ops) cs))
         (int (length (concat (List.map (chunk_samples ops) cs))))"
  by (rule mel.observe_chunks [OF assms])

lemma mel_incremental_eq_batch_witness:
  "\<exists>fe. feed_all (feed_chunk int_ops) (fresh_frontend [1] [2])
        [Samples [3, 1, 4], Silence 400, Samples [1, 5]] = Some fe \<and>
     finished_matrix int_ops fe = compute_batch int_ops [1] [2] ([3, 1, 4] @ replicate 400 0 @ [1, 5]) 405"
  using mel_incremental_eq_batch [of int_ops "[Samples [3, 1, 4], Silence 400, Samples [1, 5]]" "[1]" "[2]"]
  by (simp add: chunk_samples_def int_ops_def)

text \<open>the even trim.  After the same feeds, \<open>assemble_even\<close> of the finished frontend returns
what \<open>compute_mel_even\<close> leaves in the used part of its buffer by trimming the batch matrix in place
with one \<open>memmove\<close> per channel.\<close>

theorem mel_even_eq_inplace_trim:
  assumes "int (length (concat (List.map (chunk_samples ops) cs))) < 2 ^ 30"
  shows "\<exists>fe fe'. feed_all (feed_chunk ops) (fresh_frontend hann filters) cs = Some fe \<and>
     mel_frontend_finish ops fe = Some fe' \<and>
     mel_frontend_assemble_even fe' = map_option (\<lambda>(buf, k). (take (128 * nat k) buf, k))
       (compute_mel_even ops hann filters (concat (List.map (chunk_samples ops) cs))
         (int (length (concat (List.map (chunk_samples ops) cs)))))"
proof -
  let ?sig = "concat (List.map (chunk_samples ops) cs)"
  obtain fe where fe: "feed_all (feed_chunk ops) (fresh_frontend hann filters) cs = Some fe"
      "mel_inv ops hann filters ?sig fe" "fe_mel_base_frame fe = 0"
    using mel.feed_all_good [OF mel.initial_good, of ops cs hann filters] assms by auto
  obtain fe' where fe': "mel_frontend_finish ops fe = Some fe'" "fe_mel_base_frame fe' = 0"
      "fe_next_frame fe' = int (length ?sig) div 160"
      "fe_mel_frames fe' = concat (List.map (frame_at ops hann filters ?sig) [0..int (length ?sig) div 160 - 1])"
    using mel_frontend_finish_good [OF fe(2) assms] fe(3) by auto
  show ?thesis using fe(1) fe'(1) assemble_even_finished [OF fe'(2,3) refl assms fe'(4)]
    by (simp only: compute_mel_even_eq [OF refl refl]) auto
qed

lemma mel_even_eq_inplace_trim_witness:
  "\<exists>fe fe'. feed_all (feed_chunk int_ops) (fresh_frontend [1] [2]) [Silence 160, Samples [7]] = Some fe \<and>
     mel_frontend_finish int_ops fe = Some fe' \<and>
     mel_frontend_assemble_even fe' = map_option (\<lambda>(buf, k). (take (128 * nat k) buf, k))
       (compute_mel_even int_ops [1] [2] (replicate 160 0 @ [7]) 161)"
  using mel_even_eq_inplace_trim [of int_ops "[Silence 160, Samples [7]]" "[1]" "[2]"]
  by (simp add: chunk_samples_def int_ops_def)

text \<open>C18: while a signal is fed, fewer than 400 samples are retained (peak included), every frame is
computed exactly once, and each frame handed out is the frame of the whole signal, whatever is fed
later.\<close>

theorem mel_feed_bounded_and_stable:
  assumes "feed_all (feed_chunk ops) (fresh_frontend hann filters) cs = Some fe"
    and "int (length (concat (List.map (chunk_samples ops) cs))) < 2 ^ 30"
  shows "length (fe_pcm fe) < 400 \<and> fe_pcm_peak_retained fe < 400 \<and>
     fe_dft_frames_computed fe = fe_next_frame fe \<and> fe_frames_during_feed fe = fe_next_frame fe \<and>
     (\<forall>f. 0 \<le> f \<and> f < fe_next_frame fe \<longrightarrow> mel_frontend_frame_data fe f =
        Some (frame_at ops hann filters (concat (List.map (chunk_samples ops) cs) @ rest) f))"
proof -
  let ?sig = "concat (List.map (chunk_samples ops) cs)"
  have inv: "mel_inv ops hann filters ?sig fe" and b: "fe_mel_base_frame fe = 0"
    using mel.feed_all_good [OF mel.initial_good, of ops cs hann filters] assms by auto
  have n0: "0 \<le> fe_next_frame fe" using inv by (auto simp: mel_inv_def rolling_def)
  have "mel_frontend_frame_data fe f = Some (frame_at ops hann filters (?sig @ rest) f)"
    if f: "0 \<le> f" "f < fe_next_frame fe" for f
  proof -
    have "frame_hi_index f \<le> frame_hi_index (fe_next_frame fe - 1)" using f by (intro frame_hi_mono) auto
    then have "frame_hi_index f < int (length ?sig)" using inv f by (simp add: mel_inv_def)
    then show ?thesis using frame_data_inv [OF inv] f b by (simp add: frame_at_stable)
  qed
  moreover have "length (fe_pcm fe) < 400"
    using inv n0 by (auto simp: mel_inv_def rolling_def frame_lo_eq frame_hi_eq split: if_splits)
  ultimately show ?thesis using inv by (auto simp: mel_inv_def rolling_def)
qed

lemma mel_feed_bounded_and_stable_witness:
  "\<exists>fe. feed_all (feed_chunk int_ops) (fresh_frontend [1] [2]) [Silence 900] = Some fe \<and>
     length (fe_pcm fe) < 400"
proof -
  obtain fe where fe: "feed_all (feed_chunk int_ops) (fresh_frontend [1] [2]) [Silence 900] = Some fe"
    using mel.observe_chunks [of int_ops "[Silence 900]" "[1]" "[2]"] by (auto simp: chunk_samples_def)
  from mel_feed_bounded_and_stable [OF fe, of "[]"] fe show ?thesis by (simp add: chunk_samples_def)
qed

text \<open>over exact arithmetic the unrolled kernel computes the squared magnitude of the DFT bin, for
every window length, multiple of four or not.\<close>

theorem dft_power_exact:
  fixes ops :: "('f::comm_ring_1, 'z) float_ops_scheme"
  assumes "f_add ops = (+)" "f_mul ops = (*)" "f_sub ops = (-)" "f_lit ops 0 0 = 0"
  shows "dft_power ops n x co si = (\<Sum>j<n. x j * co j)\<^sup>2 + (\<Sum>j<n. x j * si j)\<^sup>2"
proof -
  obtain k where k: "k \<le> n" "dft_loop4 ops n x co si 0 (f_lit ops 0 0) (f_lit ops 0 0) =
      (k, \<Sum>j<k. x j * co j, - (\<Sum>j<k. x j * si j))"
    using dft_loop4_exact [OF assms(1-3), of 0 n "f_lit ops 0 0" x co "f_lit ops 0 0" si] assms(4) by auto
  have "dft_tail ops n x co si k (\<Sum>j<k. x j * co j) (- (\<Sum>j<k. x j * si j)) =
      (\<Sum>j<n. x j * co j, - (\<Sum>j<n. x j * si j))"
    by (rule dft_tail_exact) (use assms k in auto)
  then show ?thesis using k(2) assms by (simp add: dft_power_def power2_eq_square)
qed

lemma dft_power_exact_witness:
  "dft_power int_ops 6 (\<lambda>i. int i) (\<lambda>i. 2) (\<lambda>i. 3) = (\<Sum>j<6. int j * 2)\<^sup>2 + (\<Sum>j<6. int j * 3)\<^sup>2"
  using dft_power_exact [of int_ops 6 "\<lambda>i. int i" "\<lambda>i. 2" "\<lambda>i. 3"] by (simp add: int_ops_def)

text \<open>the frontend converts its 64-bit sample count to \<open>int32_t\<close> for each frame, so the feed that
takes a stream past 2^31 samples (37 hours) reads outside the retained buffer: from every reachable
state after at least 1000 samples, appending at least 400 samples across the boundary has no defined
result, although the header claims bounded operation independent of the stream's duration.\<close>

theorem mel_feed_past_int32_undefined:
  assumes "mel_inv ops hann filters sig fe" and "1000 \<le> length sig" and "400 \<le> length xs"
    and "2 ^ 31 \<le> int (length (sig @ xs))" "int (length (sig @ xs)) < 2 ^ 32"
  shows "mel_frontend_feed ops fe (Some xs) (length xs) = None"
proof -
  have "\<not> fe_finalized fe" using assms(1) by (simp add: mel_inv_def)
  moreover have "xs \<noteq> []" using assms(3) by auto
  ultimately show ?thesis using append_overflow [OF assms] by (simp add: mel_frontend_feed_def)
qed

lemma mel_feed_past_int32_undefined_witness:
  "\<exists>fe. feed_chunk int_ops (fresh_frontend [1] [2]) (Silence (2 ^ 31 - 401)) = Some fe \<and>
     mel_frontend_feed int_ops fe (Some (replicate 1280 0)) 1280 = None"
proof -
  have n: "int (2 ^ 31 - 401) + 400 < 2 ^ 31" by simp
  obtain fe where fe: "feed_chunk int_ops (fresh_frontend [1] [2]) (Silence (2 ^ 31 - 401)) = Some fe"
      "mel_inv int_ops [1] [2] (replicate (2 ^ 31 - 401) (0::int)) fe"
    using feed_chunk_good [OF fresh_good, of int_ops "Silence (2 ^ 31 - 401)" "[1]" "[2]"] n
    by (auto simp: chunk_samples_def int_ops_def)
  have "mel_frontend_feed int_ops fe (Some (replicate 1280 0)) (length (replicate 1280 (0::int))) = None"
    by (rule mel_feed_past_int32_undefined [OF fe(2)]) simp_all
  then show ?thesis using fe(1) by simp
qed

end
