(* ===== verification/KvRing.thy ===== *)
theory KvRing
  imports Prelude
begin

text \<open>The model-free ring planners of the decoder and encoder attention caches
(\<open>src/src/voxtral.cpp\<close>, \<open>src/src/voxtral-internal.h\<close>).  Positions are absolute, storage is modulo
the capacity; a span of positions is at most two physical segments.  The two segment functions
satisfy one contract, the locale \<open>ring_segments\<close>, and what the caches rely on is proved from it:
a write touches exactly the slots of its positions, and a read returns, oldest first, the rows last
written for its positions.\<close>

section \<open>Segments\<close>

record kv_seg =
  seg_slot :: int
  seg_len :: int

text \<open>The filled prefix of the two-element output array; its length is the returned count.\<close>

definition decoder_kv_segments :: "int \<Rightarrow> int \<Rightarrow> int \<Rightarrow> kv_seg list" where
  "decoder_kv_segments absolute_start len capacity =
    (if len \<le> 0 then []
     else let slot = i32 (absolute_start mod capacity);
              first = min len (capacity - slot)
          in if first = len then [\<lparr> seg_slot = slot, seg_len = first \<rparr>]
             else [\<lparr> seg_slot = slot, seg_len = first \<rparr>, \<lparr> seg_slot = 0, seg_len = len - first \<rparr>])"

definition enc_kv_ring_segments :: "int \<Rightarrow> int \<Rightarrow> int \<Rightarrow> kv_seg list" where
  "enc_kv_ring_segments abs_start len capacity =
    (if len \<le> 0 then []
     else let slot0 = i32 (abs_start mod capacity);
              first = min len (capacity - slot0)
          in if len \<le> first then [\<lparr> seg_slot = slot0, seg_len = first \<rparr>]
             else [\<lparr> seg_slot = slot0, seg_len = first \<rparr>, \<lparr> seg_slot = 0, seg_len = len - first \<rparr>])"

definition seg_slots :: "kv_seg list \<Rightarrow> int list" where
  "seg_slots segs = concat (List.map (\<lambda>s. [seg_slot s..seg_slot s + seg_len s - 1]) segs)"

text \<open>The device tensors are indexed by slot; the graph writes the new rows through the write
segments and gathers the window through the read segments.\<close>

definition ring_write :: "(int \<Rightarrow> 'v) \<Rightarrow> kv_seg list \<Rightarrow> 'v list \<Rightarrow> (int \<Rightarrow> 'v)" where
  "ring_write store segs rows = fold (\<lambda>(k, v) st. st(k := v)) (zip (seg_slots segs) rows) store"

definition ring_read :: "(int \<Rightarrow> 'v) \<Rightarrow> kv_seg list \<Rightarrow> 'v list" where
  "ring_read store segs = List.map store (seg_slots segs)"

section \<open>The contract of a segment function\<close>

lemma upto_shift: "List.map (\<lambda>k. k + c) [i..j] = [i + c..j + (c::int)]"
proof (induction "nat (j - i + 1)" arbitrary: i)
  case 0
  then show ?case by simp
next
  case (Suc n)
  then have "i \<le> j" by simp
  moreover have "List.map (\<lambda>k. k + c) [i + 1..j] = [i + 1 + c..j + c]"
    by (rule Suc.hyps(1)) (use Suc.hyps(2) in simp)
  ultimately show ?case by (simp add: upto_rec1 [of i j] upto_rec1 [of "c + i" "c + j"] algebra_simps)
qed

text \<open>The contents of a ring of rows after the rows \<open>hist\<close> were appended, one position each: each of
the last \<open>cap\<close> positions is in its slot.\<close>

definition ring_holds :: "int \<Rightarrow> (int \<Rightarrow> 'v) \<Rightarrow> 'v list \<Rightarrow> bool" where
  "ring_holds cap store hist \<longleftrightarrow>
     (\<forall>p. 0 \<le> p \<and> int (length hist) - cap \<le> p \<and> p < int (length hist) \<longrightarrow> store (p mod cap) = hist ! nat p)"

lemma mod_distinct: "a < b \<Longrightarrow> b - a < cap \<Longrightarrow> a mod cap \<noteq> b mod (cap::int)"
  by (metis diff_gt_0_iff_gt mod_eq_dvd_iff not_less zdvd_imp_le)

lemma fold_upd_notin:
  "k \<notin> set ks \<Longrightarrow> fold (\<lambda>(k, v) st. st(k := v)) (zip ks vs) st k = st k"
proof (induction ks arbitrary: vs st)
  case (Cons a ks)
  then show ?case by (cases vs) auto
qed simp

lemma fold_upd_nth:
  "distinct ks \<Longrightarrow> length ks = length vs \<Longrightarrow> i < length ks \<Longrightarrow>
   fold (\<lambda>(k, v) st. st(k := v)) (zip ks vs) st (ks ! i) = vs ! i"
proof (induction ks arbitrary: vs st i)
  case (Cons a ks)
  obtain v vs' where vs: "vs = v # vs'" using Cons.prems(2) by (cases vs) auto
  show ?case
  proof (cases i)
    case 0
    then show ?thesis using Cons.prems vs fold_upd_notin [of a ks vs' "st(a := v)"]
      by (simp del: fun_upd_apply) simp
  next
    case (Suc j)
    then show ?thesis using Cons.IH [of vs' j] Cons.prems vs by simp
  qed
qed simp

locale ring_segments =
  fixes segments :: "int \<Rightarrow> int \<Rightarrow> int \<Rightarrow> kv_seg list"
  assumes slots: "0 \<le> start \<Longrightarrow> 0 \<le> len \<Longrightarrow> len \<le> cap \<Longrightarrow> 0 < cap \<Longrightarrow> cap < 2 ^ 31 \<Longrightarrow>
      seg_slots (segments start len cap) = List.map (\<lambda>p. p mod cap) [start..start + len - 1]"
    and at_most_two: "length (segments start len cap) \<le> 2"
begin

lemma slots_distinct:
  assumes "0 \<le> start" "0 \<le> len" "len \<le> cap" "0 < cap" "cap < 2 ^ 31"
  shows "distinct (seg_slots (segments start len cap))"
  unfolding slots [OF assms] distinct_map
proof (intro conjI inj_onI)
  fix a b assume "a \<in> set [start..start + len - 1]" "b \<in> set [start..start + len - 1]"
    and eq: "a mod cap = b mod cap"
  then have "a - b < cap" "b - a < cap" using assms(3) by auto
  then show "a = b" using eq mod_distinct [of a b cap] mod_distinct [of b a cap] by force
qed simp

lemma slots_in_range:
  "0 \<le> start \<Longrightarrow> 0 \<le> len \<Longrightarrow> len \<le> cap \<Longrightarrow> 0 < cap \<Longrightarrow> cap < 2 ^ 31 \<Longrightarrow>
   s \<in> set (seg_slots (segments start len cap)) \<Longrightarrow> 0 \<le> s \<and> s < cap"
  by (auto simp: slots)

text \<open>Slots of positions that are at most a capacity apart are disjoint: a write keeps every row
within \<open>cap\<close> positions of its end.\<close>

lemma slots_keep:
  assumes "0 \<le> start" "0 \<le> len" "len \<le> cap" "0 < cap" "cap < 2 ^ 31"
    and "start + len - cap \<le> p" "p < start"
  shows "p mod cap \<notin> set (seg_slots (segments start len cap))"
proof
  assume "p mod cap \<in> set (seg_slots (segments start len cap))"
  then obtain q where "start \<le> q" "q \<le> start + len - 1" "p mod cap = q mod cap"
    by (auto simp: slots [OF assms(1-5)])
  then show False using mod_distinct [of p q cap] assms(6,7) by auto
qed

lemma write_holds:
  assumes "ring_holds cap store hist" "int (length rows) \<le> cap" "0 < cap" "cap < 2 ^ 31"
  shows "ring_holds cap (ring_write store (segments (int (length hist)) (int (length rows)) cap) rows)
           (hist @ rows)"
  unfolding ring_holds_def
proof (intro allI impI)
  fix p :: int
  let ?H = "int (length hist)" and ?n = "int (length rows)"
  let ?ks = "seg_slots (segments ?H ?n cap)"
  assume p: "0 \<le> p \<and> int (length (hist @ rows)) - cap \<le> p \<and> p < int (length (hist @ rows))"
  note sl = slots [of ?H ?n cap] and di = slots_distinct [of ?H ?n cap] and kp = slots_keep [of ?H ?n cap p]
  have lk: "length ?ks = length rows" using sl assms by simp
  show "ring_write store (segments ?H ?n cap) rows (p mod cap) = (hist @ rows) ! nat p"
  proof (cases "p < ?H")
    case True
    then have "p mod cap \<notin> set ?ks" using kp p assms by simp
    then have "ring_write store (segments ?H ?n cap) rows (p mod cap) = store (p mod cap)"
      by (simp add: ring_write_def fold_upd_notin)
    also have "\<dots> = hist ! nat p" using assms(1) p True by (auto simp: ring_holds_def)
    finally show ?thesis using True p by (simp add: nth_append nat_less_iff)
  next
    case False
    let ?i = "nat (p - ?H)"
    have i: "?i < length ?ks" using p False lk by (simp add: nat_less_iff)
    have "?ks ! ?i = p mod cap" using sl assms i p False by simp
    moreover have "fold (\<lambda>(k, v) st. st(k := v)) (zip ?ks rows) store (?ks ! ?i) = rows ! ?i"
      by (rule fold_upd_nth) (use di lk i assms in auto)
    moreover have "\<not> nat p < length hist" using False by linarith
    ultimately show ?thesis using False p by (simp add: ring_write_def nth_append nat_diff_distrib)
  qed
qed

lemma read_holds:
  assumes "ring_holds cap store hist" "0 < cap" "cap < 2 ^ 31"
    and "0 \<le> start" "0 \<le> len" "start + len \<le> int (length hist)" "int (length hist) - cap \<le> start"
  shows "ring_read store (segments start len cap) = take (nat len) (drop (nat start) hist)"
proof (rule nth_equalityI)
  have lc: "len \<le> cap" using assms by simp
  note sl = slots [OF assms(4,5) lc assms(2,3)]
  show "length (ring_read store (segments start len cap)) = length (take (nat len) (drop (nat start) hist))"
    using assms by (simp add: ring_read_def sl nat_add_distrib nat_le_iff min_absorb2 le_diff_conv nat_diff_distrib)
  fix i assume "i < length (ring_read store (segments start len cap))"
  then have i: "int i < len" using assms(5) by (simp add: ring_read_def sl)
  have "store ((start + int i) mod cap) = hist ! nat (start + int i)"
    using assms i by (auto simp: ring_holds_def)
  then show "ring_read store (segments start len cap) ! i = take (nat len) (drop (nat start) hist) ! i"
    using i assms by (simp add: ring_read_def sl nat_add_distrib)
qed

end

lemma two_segments:
  assumes "0 \<le> start" "0 < len" "len \<le> cap" "0 < cap"
  defines "slot \<equiv> start mod cap"
  shows "List.map (\<lambda>p. p mod cap) [start..start + len - 1] =
     (if len \<le> cap - slot then [slot..slot + len - 1] else [slot..cap - 1] @ [0..len - (cap - slot) - 1])"
proof -
  define q where "q = start div cap"
  have st: "start = slot + q * cap" by (simp add: slot_def q_def)
  have sr: "0 \<le> slot" "slot < cap" using assms by (simp_all add: slot_def)
  have "[start..start + len - 1] = List.map (\<lambda>k. k + q * cap) [slot..slot + len - 1]"
    by (simp add: upto_shift st algebra_simps)
  then have m: "List.map (\<lambda>p. p mod cap) [start..start + len - 1] = List.map (\<lambda>p. p mod cap) [slot..slot + len - 1]"
    by (simp add: o_def)
  have id: "List.map (\<lambda>p. p mod cap) [a..b] = [a..b]" if "0 \<le> a" "b < cap" for a b
    by (rule map_idI) (use that in auto)
  show ?thesis
  proof (cases "len \<le> cap - slot")
    case True
    then show ?thesis using m id [of slot "slot + len - 1"] sr by simp
  next
    case False
    have "[slot..slot + len - 1] = [slot..cap - 1] @ [cap..slot + len - 1]"
      using upto_split1 [of slot cap "slot + len - 1"] sr False by simp
    moreover have "[cap..slot + len - 1] = List.map (\<lambda>k. k + cap) [0..len - (cap - slot) - 1]"
      by (simp add: upto_shift algebra_simps)
    ultimately show ?thesis using m False id [of slot "cap - 1"] id [of 0 "len - (cap - slot) - 1"] sr assms(3)
      by (simp add: o_def)
  qed
qed

interpretation dec_ring: ring_segments decoder_kv_segments
proof unfold_locales
  fix start len cap :: int
  assume a: "0 \<le> start" "0 \<le> len" "len \<le> cap" "0 < cap" "cap < 2 ^ 31"
  have m: "0 \<le> start mod cap" "start mod cap < cap" using a by simp_all
  then have r: "i32 (start mod cap) = start mod cap" using a(5) by (intro i32_id) linarith
  show "seg_slots (decoder_kv_segments start len cap) = List.map (\<lambda>p. p mod cap) [start..start + len - 1]"
    using two_segments [of start len cap] a m r
    by (cases "len = 0") (auto simp: decoder_kv_segments_def seg_slots_def Let_def min_def)
next
  show "length (decoder_kv_segments start len cap) \<le> 2" for start len cap
    by (simp add: decoder_kv_segments_def Let_def)
qed

interpretation enc_ring: ring_segments enc_kv_ring_segments
proof unfold_locales
  fix start len cap :: int
  assume a: "0 \<le> start" "0 \<le> len" "len \<le> cap" "0 < cap" "cap < 2 ^ 31"
  have m: "0 \<le> start mod cap" "start mod cap < cap" using a by simp_all
  then have r: "i32 (start mod cap) = start mod cap" using a(5) by (intro i32_id) linarith
  show "seg_slots (enc_kv_ring_segments start len cap) = List.map (\<lambda>p. p mod cap) [start..start + len - 1]"
    using two_segments [of start len cap] a m r
    by (cases "len = 0") (auto simp: enc_kv_ring_segments_def seg_slots_def Let_def min_def)
next
  show "length (enc_kv_ring_segments start len cap) \<le> 2" for start len cap
    by (simp add: enc_kv_ring_segments_def Let_def)
qed

section \<open>The decoder cache\<close>

record decoder_kv_ring =
  rg_capacity :: int
  rg_used :: int
  rg_oldest :: int
  rg_next :: int
  rg_wraps :: int
  rg_evictions :: int
  rg_bytes_moved :: int
  rg_full_buffer_moves :: int

record decoder_plan =
  dp_absolute_start :: int
  dp_n_new :: int
  dp_write_seg :: "kv_seg list"
  dp_read_seg :: "kv_seg list"
  dp_used_after :: int
  dp_oldest_after :: int
  dp_next_after :: int
  dp_evicted :: int
  dp_wrapped :: bool

text \<open>\<open>clear_kv_cache\<close>: the bookkeeping only, the device slots keep their contents.\<close>

definition decoder_ring_cleared :: "int \<Rightarrow> decoder_kv_ring" where
  "decoder_ring_cleared configured_capacity =
    \<lparr> rg_capacity = configured_capacity, rg_used = 0, rg_oldest = 0, rg_next = 0, rg_wraps = 0,
      rg_evictions = 0, rg_bytes_moved = 0, rg_full_buffer_moves = 0 \<rparr>"

definition decoder_kv_plan :: "decoder_kv_ring \<Rightarrow> int \<Rightarrow> int \<Rightarrow> decoder_plan option" where
  "decoder_kv_plan ring absolute_start n_new =
    (if rg_capacity ring \<le> 0 \<or> rg_used ring < 0 \<or> rg_capacity ring < rg_used ring \<or>
        rg_oldest ring < 0 \<or> rg_next ring < 0 \<or> rg_oldest ring + rg_used ring \<noteq> rg_next ring \<or>
        absolute_start \<noteq> rg_next ring \<or> n_new \<le> 0 \<or> rg_capacity ring < n_new
     then None
     else let next_after = absolute_start + n_new;
              used_after = min (rg_capacity ring) (rg_used ring + n_new);
              oldest_after = next_after - used_after;
              previous_cycle = (if absolute_start = 0 then 0 else (absolute_start - 1) div rg_capacity ring);
              newest_cycle = (next_after - 1) div rg_capacity ring
          in Some \<lparr> dp_absolute_start = absolute_start, dp_n_new = n_new,
               dp_write_seg = decoder_kv_segments absolute_start n_new (i32 (rg_capacity ring)),
               dp_read_seg = decoder_kv_segments oldest_after (i32 used_after) (i32 (rg_capacity ring)),
               dp_used_after = used_after, dp_oldest_after = oldest_after, dp_next_after = next_after,
               dp_evicted = max 0 (rg_used ring + n_new - rg_capacity ring),
               dp_wrapped = (previous_cycle < newest_cycle) \<rparr>)"

definition decoder_kv_commit_plan :: "decoder_kv_ring \<Rightarrow> decoder_plan \<Rightarrow> decoder_kv_ring" where
  "decoder_kv_commit_plan ring plan =
    (let ring1 = ring \<lparr> rg_used := dp_used_after plan, rg_oldest := dp_oldest_after plan,
           rg_next := dp_next_after plan, rg_evictions := rg_evictions ring + dp_evicted plan \<rparr>
     in if dp_wrapped plan then ring1 \<lparr> rg_wraps := rg_wraps ring1 + 1 \<rparr> else ring1)"

text \<open>One graph execution: plan at the ring's next position, write the new rows, gather the window,
commit.  The result is the new bookkeeping, the device rows and the gathered rows.\<close>

definition decoder_kv_execute ::
  "decoder_kv_ring \<Rightarrow> (int \<Rightarrow> 'v) \<Rightarrow> 'v list \<Rightarrow> (decoder_kv_ring \<times> (int \<Rightarrow> 'v) \<times> 'v list) option" where
  "decoder_kv_execute ring store rows =
    (case decoder_kv_plan ring (rg_next ring) (int (length rows)) of
       None \<Rightarrow> None
     | Some plan \<Rightarrow>
         let store1 = ring_write store (dp_write_seg plan) rows
         in Some (decoder_kv_commit_plan ring plan, store1, ring_read store1 (dp_read_seg plan)))"

fun decoder_kv_run ::
  "decoder_kv_ring \<Rightarrow> (int \<Rightarrow> 'v) \<Rightarrow> 'v list list \<Rightarrow> (decoder_kv_ring \<times> (int \<Rightarrow> 'v) \<times> 'v list list) option" where
  "decoder_kv_run ring store [] = Some (ring, store, [])"
| "decoder_kv_run ring store (rows # batches) =
    (case decoder_kv_execute ring store rows of
       None \<Rightarrow> None
     | Some (ring1, store1, window) \<Rightarrow>
         (case decoder_kv_run ring1 store1 batches of
            None \<Rightarrow> None
          | Some (ring2, store2, windows) \<Rightarrow> Some (ring2, store2, window # windows)))"

section \<open>The encoder cache\<close>

record enc_plan =
  ep_q_start :: int
  ep_n_new :: int
  ep_win_start :: int
  ep_win_end :: int
  ep_win_len :: int
  ep_read_seg :: "kv_seg list"
  ep_read_wraps :: bool
  ep_write_seg :: "kv_seg list"
  ep_write_wraps :: bool
  ep_conv_mel_start :: int
  ep_conv_mel_end :: int
  ep_conv_slice_start :: int
  ep_evicted :: int

definition enc_kv_mask_allows :: "int \<Rightarrow> int \<Rightarrow> int \<Rightarrow> bool" where
  "enc_kv_mask_allows kv_abs q_abs window \<longleftrightarrow> kv_abs \<le> q_abs \<and> q_abs - (window - 1) \<le> kv_abs"

definition enc_kv_plan :: "int \<Rightarrow> int \<Rightarrow> int \<Rightarrow> int \<Rightarrow> enc_plan option" where
  "enc_kv_plan q_start n_new capacity window =
    (if n_new \<le> 0 \<or> capacity \<le> 0 \<or> window \<le> 0 then None
     else if capacity - window < n_new then None
     else if q_start < 0 then None
     else let win_start = max 0 (q_start - (window - 1));
              win_end = q_start + n_new;
              win_len = i32 (win_end - win_start);
              read_seg = enc_kv_ring_segments win_start win_len capacity;
              write_seg = enc_kv_ring_segments q_start n_new capacity;
              conv_mel_start = max 0 (2 * (q_start - 2));
              old_lo = max 0 (q_start - window);
              new_lo = max 0 (win_end - window)
          in Some \<lparr> ep_q_start = q_start, ep_n_new = n_new, ep_win_start = win_start,
               ep_win_end = win_end, ep_win_len = win_len,
               ep_read_seg = read_seg, ep_read_wraps = (1 < length read_seg),
               ep_write_seg = write_seg, ep_write_wraps = (1 < length write_seg),
               ep_conv_mel_start = conv_mel_start, ep_conv_mel_end = 2 * (q_start + n_new),
               ep_conv_slice_start = i32 (q_start - conv_mel_start div 2),
               ep_evicted = new_lo - old_lo \<rparr>)"

text \<open>One encoder graph execution over the cache: write the rows of the new frames, then gather the
causal window.\<close>

definition enc_kv_execute :: "int \<Rightarrow> int \<Rightarrow> int \<Rightarrow> (int \<Rightarrow> 'v) \<Rightarrow> 'v list \<Rightarrow> ((int \<Rightarrow> 'v) \<times> 'v list) option" where
  "enc_kv_execute capacity window emitted store rows =
    (case enc_kv_plan emitted (int (length rows)) capacity window of
       None \<Rightarrow> None
     | Some plan \<Rightarrow>
         let store1 = ring_write store (ep_write_seg plan) rows
         in Some (store1, ring_read store1 (ep_read_seg plan)))"

end
