(* ===== verification/KvCorrect.thy ===== *)
theory KvCorrect
  imports KvRing
begin

text \<open>Correctness of the attention caches.  The decoder cache refines a sliding window over the rows
appended so far; the encoder cache, driven at the number of frames emitted so far, gathers exactly
the causal window of the batch, which contains every key the mask lets a query attend.\<close>

section \<open>The decoder cache is a sliding window\<close>

definition last_rows :: "int \<Rightarrow> 'v list \<Rightarrow> 'v list" where
  "last_rows n xs = drop (length xs - nat n) xs"

definition decoder_kv_inv :: "int \<Rightarrow> decoder_kv_ring \<Rightarrow> (int \<Rightarrow> 'v) \<Rightarrow> 'v list \<Rightarrow> bool" where
  "decoder_kv_inv cap ring store hist \<longleftrightarrow>
     rg_capacity ring = cap \<and> rg_next ring = int (length hist) \<and>
     rg_used ring = min cap (int (length hist)) \<and>
     rg_oldest ring = int (length hist) - rg_used ring \<and>
     rg_evictions ring = rg_oldest ring \<and>
     rg_wraps ring = (if hist = [] then 0 else (int (length hist) - 1) div cap) \<and>
     rg_bytes_moved ring = 0 \<and> rg_full_buffer_moves ring = 0 \<and>
     ring_holds cap store hist"

lemma decoder_kv_inv_cleared: "0 \<le> cap \<Longrightarrow> decoder_kv_inv cap (decoder_ring_cleared cap) store []"
  by (auto simp: decoder_kv_inv_def decoder_ring_cleared_def ring_holds_def)

lemma take_drop_all: "take (length xs - k) (drop k xs) = drop k xs"
  by simp

lemma decoder_kv_plan_accepts:
  assumes "decoder_kv_inv cap ring store hist" "0 < cap" "0 < n" "n \<le> cap"
  shows "\<exists>plan. decoder_kv_plan ring (rg_next ring) n = Some plan"
  using assms by (simp add: decoder_kv_inv_def decoder_kv_plan_def Let_def)

lemma next_cycle:
  assumes "0 < cap" "0 < n" "n \<le> cap" "0 < (h::int)"
  shows "(h + n - 1) div cap = (if (h - 1) div cap < (h + n - 1) div cap then (h - 1) div cap + 1
                                else (h - 1) div cap)"
proof -
  have "(h + n - 1) div cap \<le> (h - 1 + cap) div cap" using assms by (intro zdiv_mono1) auto
  also have "\<dots> = (h - 1) div cap + 1" using div_add_self2 [of cap "h - 1"] assms(1) by simp
  finally have "(h + n - 1) div cap \<le> (h - 1) div cap + 1" .
  moreover have "(h - 1) div cap \<le> (h + n - 1) div cap" using assms by (intro zdiv_mono1) auto
  ultimately show ?thesis by auto
qed

lemma decoder_kv_execute_good:
  assumes inv: "decoder_kv_inv cap ring store hist" and cap: "0 < cap" "cap < 2 ^ 31"
    and rows: "rows \<noteq> []" "int (length rows) \<le> cap"
  shows "\<exists>ring1 store1. decoder_kv_execute ring store rows = Some (ring1, store1, last_rows cap (hist @ rows)) \<and>
     decoder_kv_inv cap ring1 store1 (hist @ rows)"
proof -
  let ?H = "int (length hist)" and ?n = "int (length rows)"
  let ?u = "min cap (min cap ?H + ?n)"
  have nx: "rg_next ring = ?H" and cp: "rg_capacity ring = cap" and us: "rg_used ring = min cap ?H"
    and holds: "ring_holds cap store hist"
    using inv by (simp_all add: decoder_kv_inv_def)
  have n0: "0 < ?n" using rows(1) by simp
  have i: "i32 cap = cap" "i32 ?u = ?u" using cap n0 by (auto intro!: i32_id simp: min_def)
  have u: "?u = min cap (?H + ?n)" using n0 by (simp add: min_def)
  obtain plan where plan: "decoder_kv_plan ring ?H ?n = Some plan"
    using decoder_kv_plan_accepts [OF inv cap(1) n0 rows(2)] nx by auto
  have pl: "dp_write_seg plan = decoder_kv_segments ?H ?n cap"
      "dp_read_seg plan = decoder_kv_segments (?H + ?n - ?u) ?u cap"
      "dp_used_after plan = ?u" "dp_oldest_after plan = ?H + ?n - ?u" "dp_next_after plan = ?H + ?n"
      "dp_evicted plan = max 0 (min cap ?H + ?n - cap)"
      "dp_wrapped plan = ((if ?H = 0 then 0 else (?H - 1) div cap) < (?H + ?n - 1) div cap)"
    using plan unfolding decoder_kv_plan_def cp us i Let_def by (auto split: if_splits)
  let ?st = "ring_write store (decoder_kv_segments ?H ?n cap) rows"
  have st: "ring_holds cap ?st (hist @ rows)"
    by (rule dec_ring.write_holds [OF holds rows(2) cap])
  have rd: "ring_read ?st (decoder_kv_segments (?H + ?n - ?u) ?u cap) = last_rows cap (hist @ rows)"
  proof -
    have "ring_read ?st (decoder_kv_segments (?H + ?n - ?u) ?u cap)
        = take (nat ?u) (drop (nat (?H + ?n - ?u)) (hist @ rows))"
      by (rule dec_ring.read_holds [OF st cap]) (use u n0 cap in auto)
    also have "nat (?H + ?n - ?u) = length (hist @ rows) - nat cap" unfolding u
      using cap by (auto simp: min_def nat_diff_distrib' nat_add_distrib)
    also have "nat ?u = length (hist @ rows) - (length (hist @ rows) - nat cap)"
      unfolding u using cap by (auto simp: min_def)
    finally show ?thesis unfolding last_rows_def take_drop_all .
  qed
  have wr: "(if hist @ rows = [] then 0 else (int (length (hist @ rows)) - 1) div cap) =
      (if dp_wrapped plan then rg_wraps ring + 1 else rg_wraps ring)"
  proof (cases "hist = []")
    case True
    have "(?n - 1) div cap = 0" using n0 rows(2) by (intro div_pos_pos_trivial) auto
    then show ?thesis using True inv rows pl by (simp add: decoder_kv_inv_def)
  next
    case False
    then have "0 < ?H" by simp
    note nc = next_cycle [OF cap(1) n0 rows(2) this]
    have "rg_wraps ring = (?H - 1) div cap" using inv False by (simp add: decoder_kv_inv_def)
    moreover have "dp_wrapped plan = ((?H - 1) div cap < (?H + ?n - 1) div cap)" using pl(7) False by simp
    ultimately show ?thesis using False nc by (cases "dp_wrapped plan") simp_all
  qed
  let ?r1 = "decoder_kv_commit_plan ring plan"
  have cm: "rg_capacity ?r1 = cap" "rg_next ?r1 = ?H + ?n" "rg_used ?r1 = ?u"
      "rg_oldest ?r1 = ?H + ?n - ?u" "rg_evictions ?r1 = rg_evictions ring + dp_evicted plan"
      "rg_wraps ?r1 = (if dp_wrapped plan then rg_wraps ring + 1 else rg_wraps ring)"
      "rg_bytes_moved ?r1 = 0" "rg_full_buffer_moves ?r1 = 0"
    using inv by (simp_all add: decoder_kv_commit_plan_def Let_def pl(3-5) decoder_kv_inv_def)
  have "rg_evictions ring = ?H - min cap ?H" using inv by (simp add: decoder_kv_inv_def)
  then have ev: "rg_evictions ring + dp_evicted plan = ?H + ?n - ?u" using pl(6) n0 by linarith
  have "decoder_kv_inv cap ?r1 ?st (hist @ rows)"
    unfolding decoder_kv_inv_def cm ev wr using st u by simp
  then show ?thesis using plan rd by (simp add: decoder_kv_execute_def Let_def pl nx)
qed

lemma decoder_kv_run_good:
  assumes "decoder_kv_inv cap ring store hist" "0 < cap" "cap < 2 ^ 31"
    and "\<And>b. b \<in> set batches \<Longrightarrow> b \<noteq> [] \<and> int (length b) \<le> cap"
  shows "\<exists>ring1 store1. decoder_kv_run ring store batches = Some (ring1, store1,
       List.map (\<lambda>i. last_rows cap (hist @ concat (take (Suc i) batches))) [0..<length batches]) \<and>
     decoder_kv_inv cap ring1 store1 (hist @ concat batches)"
  using assms(1,4)
proof (induction batches arbitrary: ring store hist)
  case (Cons b batches)
  from decoder_kv_execute_good [OF Cons.prems(1) assms(2,3), of b] Cons.prems(2) [of b]
  obtain ring1 store1 where e: "decoder_kv_execute ring store b = Some (ring1, store1, last_rows cap (hist @ b))"
      "decoder_kv_inv cap ring1 store1 (hist @ b)" by auto
  from Cons.IH [OF e(2)] Cons.prems(2) obtain ring2 store2 where
    "decoder_kv_run ring1 store1 batches = Some (ring2, store2,
       List.map (\<lambda>i. last_rows cap ((hist @ b) @ concat (take (Suc i) batches))) [0..<length batches])"
    "decoder_kv_inv cap ring2 store2 ((hist @ b) @ concat batches)" by auto
  then show ?case using e(1)
    by (simp add: upt_conv_Cons map_Suc_upt [symmetric] o_def del: upt_Suc)
qed simp

section \<open>The encoder cache gathers the causal window\<close>

lemma enc_kv_plan_SomeD:
  assumes "enc_kv_plan q n cap window = Some plan" "q + n < 2 ^ 63" "cap < 2 ^ 31"
  shows "0 \<le> q" "0 < n" "0 < window" "n \<le> cap - window"
    and "ep_win_start plan = max 0 (q - (window - 1))" "ep_win_end plan = q + n"
    and "ep_win_len plan = ep_win_end plan - ep_win_start plan"
    and "ep_read_seg plan = enc_kv_ring_segments (ep_win_start plan) (ep_win_len plan) cap"
    and "ep_write_seg plan = enc_kv_ring_segments q n cap"
    and "ep_conv_mel_start plan = max 0 (2 * (q - 2))" "ep_conv_mel_end plan = 2 * (q + n)"
    and "ep_conv_slice_start plan = q - ep_conv_mel_start plan div 2"
    and "ep_evicted plan = max 0 (q + n - window) - max 0 (q - window)"
    and "ep_read_wraps plan = (1 < length (ep_read_seg plan))"
proof -
  have c: "0 < n" "0 < window" "n \<le> cap - window" "0 \<le> q" "0 < cap"
    using assms(1) by (auto simp: enc_kv_plan_def split: if_splits)
  have l: "i32 (q + n - max 0 (q - (window - 1))) = q + n - max 0 (q - (window - 1))"
    using c assms(3) by (intro i32_id) auto
  have s: "i32 (q - max 0 (2 * (q - 2)) div 2) = q - max 0 (2 * (q - 2)) div 2"
  proof (rule i32_id)
    have "q - max 0 (2 * (q - 2)) div 2 = (if q \<le> 2 then q else 2)" by auto
    then show "i32_range (q - max 0 (2 * (q - 2)) div 2)" using c by auto
  qed
  show "0 \<le> q" "0 < n" "0 < window" "n \<le> cap - window" using c by simp_all
  have g: "\<not> (n \<le> 0 \<or> cap \<le> 0 \<or> window \<le> 0)" "\<not> cap - window < n" "\<not> q < 0" using c by simp_all
  note pe = sym [OF option.inject [THEN iffD1, OF assms(1) [unfolded enc_kv_plan_def Let_def l s
        if_not_P [OF g(1)] if_not_P [OF g(2)] if_not_P [OF g(3)]]]]
  show "ep_win_start plan = max 0 (q - (window - 1))" "ep_win_end plan = q + n"
    "ep_win_len plan = ep_win_end plan - ep_win_start plan"
    "ep_read_seg plan = enc_kv_ring_segments (ep_win_start plan) (ep_win_len plan) cap"
    "ep_write_seg plan = enc_kv_ring_segments q n cap"
    "ep_conv_mel_start plan = max 0 (2 * (q - 2))" "ep_conv_mel_end plan = 2 * (q + n)"
    "ep_conv_slice_start plan = q - ep_conv_mel_start plan div 2"
    "ep_evicted plan = max 0 (q + n - window) - max 0 (q - window)"
    "ep_read_wraps plan = (1 < length (ep_read_seg plan))"
    by (simp_all only: pe enc_plan.simps)
qed

text \<open>The frames kept in the cache: the ring holds at least the last \<open>window\<close> rows.\<close>

definition enc_kv_inv :: "int \<Rightarrow> (int \<Rightarrow> 'v) \<Rightarrow> 'v list \<Rightarrow> bool" where
  "enc_kv_inv cap store hist \<longleftrightarrow> ring_holds cap store hist"

lemma enc_kv_execute_good:
  assumes "enc_kv_inv cap store hist" "cap < 2 ^ 31" "0 < window"
    and "rows \<noteq> []" "int (length rows) \<le> cap - window"
  shows "\<exists>store1. enc_kv_execute cap window (int (length hist)) store rows =
       Some (store1, last_rows (window - 1 + int (length rows)) (hist @ rows)) \<and>
     enc_kv_inv cap store1 (hist @ rows)"
proof -
  let ?H = "int (length hist)" and ?n = "int (length rows)"
  let ?s = "max 0 (?H - (window - 1))"
  have cap: "0 < cap" "?n \<le> cap" using assms by auto
  obtain plan where plan: "enc_kv_plan ?H ?n cap window = Some plan"
    using assms by (auto simp: enc_kv_plan_def Let_def)
  have l: "i32 (?H + ?n - ?s) = ?H + ?n - ?s" using assms cap by (intro i32_id) auto
  have pl: "ep_write_seg plan = enc_kv_ring_segments ?H ?n cap"
      "ep_read_seg plan = enc_kv_ring_segments ?s (?H + ?n - ?s) cap"
    using plan l by (auto simp: enc_kv_plan_def Let_def split: if_splits)
  let ?st = "ring_write store (enc_kv_ring_segments ?H ?n cap) rows"
  have st: "ring_holds cap ?st (hist @ rows)"
    by (rule enc_ring.write_holds) (use assms cap in \<open>auto simp: enc_kv_inv_def\<close>)
  have "ring_read ?st (enc_kv_ring_segments ?s (?H + ?n - ?s) cap)
      = take (nat (?H + ?n - ?s)) (drop (nat ?s) (hist @ rows))"
    by (rule enc_ring.read_holds [OF st cap(1) assms(2)]) (use assms cap in auto)
  also have "nat ?s = length (hist @ rows) - nat (window - 1 + ?n)"
    using assms by (auto simp: max_def nat_diff_distrib' nat_add_distrib)
  also have "nat (?H + ?n - ?s) = length (hist @ rows) - nat ?s"
    using assms by (auto simp: max_def nat_diff_distrib' nat_add_distrib)
  finally have rd: "ring_read ?st (enc_kv_ring_segments ?s (?H + ?n - ?s) cap)
      = last_rows (window - 1 + ?n) (hist @ rows)"
    using assms by (simp add: last_rows_def)
  show ?thesis using plan rd st by (simp add: enc_kv_execute_def Let_def pl enc_kv_inv_def)
qed

lemma decoder_kv_run_cleared:
  assumes "0 < cap" "cap < 2 ^ 31"
    and "\<And>b. b \<in> set batches \<Longrightarrow> b \<noteq> [] \<and> int (length b) \<le> cap"
  shows "\<exists>ring1 store1. decoder_kv_run (decoder_ring_cleared cap) store batches = Some (ring1, store1,
       List.map (\<lambda>i. last_rows cap (concat (take (Suc i) batches))) [0..<length batches]) \<and>
     decoder_kv_inv cap ring1 store1 (concat batches)"
  using decoder_kv_run_good [OF decoder_kv_inv_cleared, of cap batches store] assms by simp

section \<open>Properties\<close>

text \<open>C5: the decoder attention cache is a sliding window.  Starting from a cleared cache of any
capacity, over stale device rows, a sequence of executions of one up to \<open>capacity\<close> rows each is
accepted; each one gathers exactly the last \<open>capacity\<close> rows appended so far, oldest first, across any
number of physical wraps; at the end the bookkeeping counts positions, evictions and wraps exactly
and no rollover has moved a byte.\<close>

theorem decoder_kv_sliding_window:
  assumes "0 < cap" "cap < 2 ^ 31"
    and "\<forall>b\<in>set batches. b \<noteq> [] \<and> int (length b) \<le> cap"
  shows "\<exists>ring1 store1. decoder_kv_run (decoder_ring_cleared cap) store batches = Some (ring1, store1,
       List.map (\<lambda>i. last_rows cap (concat (take (Suc i) batches))) [0..<length batches]) \<and>
     rg_next ring1 = int (length (concat batches)) \<and>
     rg_evictions ring1 = max 0 (int (length (concat batches)) - cap) \<and>
     rg_wraps ring1 = (if concat batches = [] then 0 else (int (length (concat batches)) - 1) div cap) \<and>
     rg_bytes_moved ring1 = 0 \<and> rg_full_buffer_moves ring1 = 0"
proof -
  obtain ring1 store1 where r: "decoder_kv_run (decoder_ring_cleared cap) store batches = Some (ring1, store1,
       List.map (\<lambda>i. last_rows cap (concat (take (Suc i) batches))) [0..<length batches])"
      "decoder_kv_inv cap ring1 store1 (concat batches)"
    using decoder_kv_run_cleared [of cap batches store] assms by auto
  have "rg_evictions ring1 = max 0 (int (length (concat batches)) - cap)"
    using r(2) by (simp add: decoder_kv_inv_def)
  then show ?thesis using r unfolding decoder_kv_inv_def by blast
qed

lemma decoder_kv_sliding_window_witness:
  "\<exists>ring1 store1. decoder_kv_run (decoder_ring_cleared 4) (\<lambda>_. 99) [[1, 2, 3], [4, 5], [6::int]] =
     Some (ring1, store1, [[1, 2, 3], [2, 3, 4, 5], [3, 4, 5, 6]]) \<and> rg_wraps ring1 = 1"
  using decoder_kv_sliding_window [of 4 "[[1, 2, 3], [4, 5], [6::int]]" "\<lambda>_. 99"]
  by (simp add: last_rows_def upt_rec numeral_2_eq_2 del: decoder_kv_run.simps) blast

text \<open>the decoder planner accepts exactly the next absolute position with a batch that fits; a
gap, a repeated position, an empty batch or one above the capacity is refused and leaves nothing to
commit.\<close>

theorem decoder_kv_plan_accepts_iff:
  assumes "decoder_kv_inv cap ring store hist" "0 < cap"
  shows "decoder_kv_plan ring pos n \<noteq> None \<longleftrightarrow> pos = int (length hist) \<and> 0 < n \<and> n \<le> cap"
  using assms by (auto simp: decoder_kv_inv_def decoder_kv_plan_def Let_def)

lemma decoder_kv_plan_accepts_iff_witness:
  "decoder_kv_plan (decoder_ring_cleared 4) 1 1 = None"
  using decoder_kv_plan_accepts_iff [OF decoder_kv_inv_cleared, of 4 1 1] by simp

text \<open>C6: an accepted encoder plan is sufficient.  Every key position the causal mask lets one of the
batch's queries attend lies in the gathered window; every Mel frame the convolution of a new frame
reads lies in the convolution window, whose start is even and whose slice starts at the first new
frame; and the eviction count is the advance of the logical retention bound.\<close>

theorem enc_kv_plan_sufficient:
  assumes "enc_kv_plan q n cap window = Some plan" "q + n < 2 ^ 63" "cap < 2 ^ 31"
  shows "(\<forall>e kv. q \<le> e \<and> e < q + n \<and> 0 \<le> kv \<and> enc_kv_mask_allows kv e window \<longrightarrow>
           ep_win_start plan \<le> kv \<and> kv < ep_win_end plan) \<and>
     (\<forall>e m. q \<le> e \<and> e < q + n \<and> max 0 (2 * e - 3) \<le> m \<and> m \<le> 2 * e + 1 \<longrightarrow>
           ep_conv_mel_start plan \<le> m \<and> m < ep_conv_mel_end plan) \<and>
     even (ep_conv_mel_start plan) \<and>
     ep_conv_mel_start plan div 2 + ep_conv_slice_start plan = q \<and>
     0 \<le> ep_conv_slice_start plan \<and> ep_conv_slice_start plan \<le> 2 \<and>
     ep_evicted plan = max 0 (q + n - window) - max 0 (q - window)"
proof -
  note d = enc_kv_plan_SomeD [OF assms]
  have "ep_conv_mel_start plan = 2 * max 0 (q - 2)" using d(10) by (auto simp: max_def)
  then have "even (ep_conv_mel_start plan)" "ep_conv_mel_start plan div 2 = max 0 (q - 2)" by simp_all
  then show ?thesis using d(1-3,5,6,10-13) by (auto simp: enc_kv_mask_allows_def)
qed

lemma enc_kv_plan_sufficient_witness:
  "\<exists>plan. enc_kv_plan 10 3 16 8 = Some plan \<and> even (ep_conv_mel_start plan)"
proof -
  have "enc_kv_plan 10 3 16 8 \<noteq> None" by (simp add: enc_kv_plan_def Let_def)
  then obtain plan where p: "enc_kv_plan 10 3 16 8 = Some plan" by auto
  then show ?thesis using enc_kv_plan_sufficient [OF p] by simp
qed

end
