(* ===== verification/EncoderSchedule.thy ===== *)
theory EncoderSchedule
  imports Prelude
begin

text \<open>The encoder's batch schedule read from the environment (\<open>src/src/voxtral.cpp\<close>): the integer
parser over \<open>strtol\<close>, the normalisation of the physical row count and the combination of the four
knobs.  The environment is a function from names to values.\<close>

section \<open>The C library's strtol, base 10\<close>

text \<open>White space, an optional sign, digits; the result is the value and the unconsumed rest,
\<^term>\<open>None\<close> when no digit was found (the end pointer stays at the start).  Values beyond the 64-bit
\<open>long\<close> are clamped.\<close>

definition is_space :: "char \<Rightarrow> bool" where
  "is_space c \<longleftrightarrow> c \<in> {CHR '' '', CHR 0x09, CHR 0x0A, CHR 0x0B, CHR 0x0C, CHR 0x0D}"

definition is_digit :: "char \<Rightarrow> bool" where
  "is_digit c \<longleftrightarrow> 48 \<le> (of_char c :: nat) \<and> (of_char c :: nat) \<le> 57"

definition digit_value :: "char \<Rightarrow> int" where
  "digit_value c = of_char c - 48"

fun parse_digits :: "int \<Rightarrow> string \<Rightarrow> int \<times> string" where
  "parse_digits acc [] = (acc, [])"
| "parse_digits acc (c # cs) =
    (if is_digit c then parse_digits (10 * acc + digit_value c) cs else (acc, c # cs))"

definition strtol10 :: "string \<Rightarrow> (int \<times> string) option" where
  "strtol10 s =
    (let s1 = dropWhile is_space s;
         (neg, s2) = (case s1 of
            [] \<Rightarrow> (False, [])
          | c # cs \<Rightarrow> if c = CHR ''-'' then (True, cs) else if c = CHR ''+'' then (False, cs)
                       else (False, c # cs))
     in case s2 of
          [] \<Rightarrow> None
        | c # cs \<Rightarrow> if is_digit c
            then (let (v, rest) = parse_digits 0 s2 in Some (max (- (2 ^ 63)) (min (2 ^ 63 - 1) (if neg then - v else v)), rest))
            else None)"

section \<open>The schedule\<close>

record encoder_kv_schedule =
  sched_logical :: int
  sched_physical :: int

type_synonym environment = "string \<Rightarrow> string option"

definition env_positive_i32 :: "environment \<Rightarrow> string \<Rightarrow> int \<Rightarrow> int" where
  "env_positive_i32 env name fallback =
    (case env name of
       None \<Rightarrow> fallback
     | Some value \<Rightarrow>
         if value = [] then fallback
         else case strtol10 value of
           None \<Rightarrow> fallback
         | Some (parsed, rest) \<Rightarrow>
             if rest \<noteq> [] \<or> parsed \<le> 0 \<or> 2147483647 < parsed then fallback else parsed)"

definition normalize_physical_rows :: "int \<Rightarrow> int" where
  "normalize_physical_rows rows =
    (if rows \<le> 4 then 4 else if rows \<le> 8 then 8 else if rows \<le> 16 then 16
     else if rows \<le> 32 then 32 else if rows \<le> 64 then 64 else 128)"

definition encoder_kv_uses_segmented_attention :: "environment \<Rightarrow> int \<Rightarrow> bool" where
  "encoder_kv_uses_segmented_attention env physical_rows \<longleftrightarrow>
     physical_rows < 32 \<or> env ''VOXTRAL_ENC_KV_MANUAL'' \<noteq> None"

text \<open>The fallback loop: the largest value not above \<open>logical\<close> that divides \<open>physical\<close>.\<close>

function shrink_logical :: "int \<Rightarrow> int \<Rightarrow> int" where
  "shrink_logical physical logical =
    (if 1 < logical \<and> physical mod logical \<noteq> 0 then shrink_logical physical (logical - 1) else logical)"
  by auto
termination by (relation "measure (\<lambda>(p, l). nat l)") auto

declare shrink_logical.simps [simp del]

definition legacy_grid :: "environment \<Rightarrow> int \<times> int" where
  "legacy_grid env =
    (case env ''VOXTRAL_ENC_KV_GRID'' of
       Some (c # cs) \<Rightarrow>
         (let v = env_positive_i32 env ''VOXTRAL_ENC_KV_GRID'' 4
          in (min v 128, if 32 \<le> v then normalize_physical_rows v else 4))
     | _ \<Rightarrow> (4, 4))"

definition encoder_kv_schedule_from_env :: "environment \<Rightarrow> encoder_kv_schedule" where
  "encoder_kv_schedule_from_env env =
    (if env ''VOXTRAL_ENC_KV_MODE'' = Some ''throughput'' \<or> env ''VOXTRAL_ENC_KV_MODE'' = Some ''offline''
     then \<lparr> sched_logical = 128, sched_physical = 128 \<rparr>
     else let (logical0, physical0) = legacy_grid env;
          logical1 = min (env_positive_i32 env ''VOXTRAL_ENC_KV_LOGICAL_BATCH'' logical0) 128;
          physical1 = normalize_physical_rows (env_positive_i32 env ''VOXTRAL_ENC_KV_PHYSICAL_ROWS'' physical0);
          logical2 = max 1 logical1;
          logical3 = (if physical1 < logical2 \<or> physical1 mod logical2 \<noteq> 0
                      then shrink_logical physical1 (min logical2 physical1) else logical2)
        in \<lparr> sched_logical = logical3, sched_physical = physical1 \<rparr>)"

text \<open>The shape of the terminal graph, chosen from the environment when the context is created.\<close>

definition atoi :: "string \<Rightarrow> int" where
  "atoi s = (case strtol10 s of None \<Rightarrow> 0 | Some (v, rest) \<Rightarrow> i32 v)"

definition finish_physical_from_env :: "environment \<Rightarrow> int" where
  "finish_physical_from_env env =
    (case env ''VOXTRAL_ENCODER_FINISH_PHYSICAL'' of
       None \<Rightarrow> 8
     | Some value \<Rightarrow>
         let parsed = atoi value
         in if parsed = 4 \<or> parsed = 8 \<or> parsed = 16 \<or> parsed = 32 \<or> parsed = 128 then parsed else 8)"

section \<open>Every environment gives a valid schedule\<close>

lemma shrink_logical_dvd: "1 \<le> l \<Longrightarrow> shrink_logical p l dvd p \<and> 1 \<le> shrink_logical p l \<and> shrink_logical p l \<le> l"
proof (induction p l rule: shrink_logical.induct)
  case (1 p l)
  show ?case
  proof (cases "1 < l \<and> p mod l \<noteq> 0")
    case True
    then have "shrink_logical p l = shrink_logical p (l - 1)" by (subst shrink_logical.simps) simp
    then show ?thesis using "1.IH" [OF True] True by simp
  next
    case False
    then have "shrink_logical p l = l" by (subst shrink_logical.simps) auto
    then show ?thesis using False "1.prems" by auto
  qed
qed

lemma env_positive: "0 < fallback \<Longrightarrow> 0 < env_positive_i32 env name fallback"
  by (auto simp: env_positive_i32_def split: option.splits if_splits)

lemma normalize_physical_cases:
  "normalize_physical_rows r \<in> {4, 8, 16, 32, 64, 128}"
  by (simp add: normalize_physical_rows_def)

text \<open>What the encoder driver relies on.\<close>

definition schedule_ok :: "encoder_kv_schedule \<Rightarrow> bool" where
  "schedule_ok s \<longleftrightarrow> 1 \<le> sched_logical s \<and> sched_logical s \<le> 128 \<and>
     sched_physical s \<in> {4, 8, 16, 32, 64, 128} \<and> sched_logical s dvd sched_physical s"

lemma normalized_logical:
  assumes "0 < l" "p \<in> {4, 8, 16, 32, 64, 128}" "l \<le> 128"
  shows "schedule_ok \<lparr> sched_logical = (if p < l \<or> p mod l \<noteq> 0 then shrink_logical p (min l p) else l),
           sched_physical = p \<rparr>"
proof (cases "p < l \<or> p mod l \<noteq> 0")
  case True
  have "1 \<le> min l p" using assms by auto
  from shrink_logical_dvd [OF this, of p] True assms show ?thesis by (auto simp: schedule_ok_def)
next
  case False
  then show ?thesis using assms by (auto simp: schedule_ok_def)
qed

text \<open>whatever the environment holds, the encoder schedule is well formed: at least one and at
most 128 logical rows, a physical row count of a supported shape, and a whole number of logical
batches in a physical block, so no batch crosses a block boundary.\<close>

theorem encoder_kv_schedule_valid:
  "schedule_ok (encoder_kv_schedule_from_env env) \<and> finish_physical_from_env env \<in> {4, 8, 16, 32, 128}"
proof -
  have "finish_physical_from_env env \<in> {4, 8, 16, 32, 128}"
    by (auto simp: finish_physical_from_env_def Let_def split: option.splits)
  moreover have "schedule_ok (encoder_kv_schedule_from_env env)"
  proof (cases "env ''VOXTRAL_ENC_KV_MODE'' = Some ''throughput'' \<or> env ''VOXTRAL_ENC_KV_MODE'' = Some ''offline''")
    case True
    then show ?thesis by (simp add: encoder_kv_schedule_from_env_def schedule_ok_def)
  next
    case False
    obtain l0 p0 where lp: "legacy_grid env = (l0, p0)" by fastforce
    let ?l = "max 1 (min (env_positive_i32 env ''VOXTRAL_ENC_KV_LOGICAL_BATCH'' l0) 128)"
    let ?p = "normalize_physical_rows (env_positive_i32 env ''VOXTRAL_ENC_KV_PHYSICAL_ROWS'' p0)"
    have "schedule_ok \<lparr> sched_logical = (if ?p < ?l \<or> ?p mod ?l \<noteq> 0 then shrink_logical ?p (min ?l ?p) else ?l),
           sched_physical = ?p \<rparr>"
      by (rule normalized_logical) (use normalize_physical_cases in auto)
    then show ?thesis using False unfolding encoder_kv_schedule_from_env_def lp Let_def
      by (simp only: if_False prod.case)
  qed
  ultimately show ?thesis by simp
qed

end
