(* ===== verification/EncoderKv.thy ===== *)
theory EncoderKv
  imports KvRing EncoderSchedule
begin

text \<open>The per-layer KV encoder of \<open>src/src/voxtral.cpp\<close>: the Mel tail, one graph execution
(\<open>run_encoder_steady_batch\<close>, \<open>run_encoder_kv_batch\<close>), the microbatch driver, and the stream
operations push, final push, finish and reset.  The ggml graphs are a parameter: a function from
the device's state and the inputs the code computes for the graph to the new device state and the
output frames.  A Mel frame (128 floats) and an encoder output frame are opaque values; telemetry
timestamps and capacities of scratch buffers are not modelled.\<close>

section \<open>The device, a parameter\<close>

text \<open>What the code sets as graph inputs.  A Mel row is \<^term>\<open>None\<close> where the fixed-shape graph is
given zeros; a mask entry is \<^term>\<open>True\<close> where the code writes 0 (attend), \<^term>\<open>False\<close> for minus
infinity.\<close>

datatype 'm graph_input =
    SteadyGraph "'m option list" "int list" "int list" "int list" "bool list list"
  | BlockGraph enc_plan int "'m list" "int list" "bool list list"

record ('m, 'k, 'o) encoder_gpu =
  gpu_exec :: "'k \<Rightarrow> 'm graph_input \<Rightarrow> ('k \<times> 'o list \<times> int) option"
  gpu_copy :: "'k \<Rightarrow> bool"

text \<open>The part of the context the encoder reads.\<close>

record encoder_config =
  cfg_schedule :: encoder_kv_schedule
  cfg_finish_physical :: int
  cfg_want_ring :: bool
  cfg_segmented :: "int \<Rightarrow> bool"

section \<open>State\<close>

record ('m, 'k, 'o) enc_state =
  ek_reusable :: bool
  ek_emitted :: int
  ek_stable_mel :: int
  ek_mel_tail :: "'m list"
  ek_tail_base :: int
  ek_enc_accum :: "'o list"
  ek_finalized :: bool
  ek_transformer_frames :: int
  ek_kv_appends :: int
  ek_kv_evictions :: int
  ek_kv_wraps :: int
  ek_kv_materialized :: int
  ek_graph_execs :: int
  ek_max_new_per_exec :: int
  ek_warmup_frames :: int
  ek_frames_before_finish :: int
  ek_frames_at_finish :: int
  ek_frames_at_finish_exec :: int
  ek_peak_logical :: int
  ek_peak_mel_tail :: int
  ek_peak_output :: int
  ek_enc_out_d2h_bytes :: int
  ek_logical_submitted :: int
  ek_physical_evaluated :: int
  ek_padding_evaluated :: int
  ek_device :: 'k
  ek_out_ring :: "int \<Rightarrow> 'o option"

definition enc_frames_realizable :: "int \<Rightarrow> int" where
  "enc_frames_realizable mel_frames = (if mel_frames < 2 then 0 else (mel_frames - 2) div 2 + 1)"

text \<open>\<open>encoder_kv_reset\<close>: metadata only; the device keeps its rows.\<close>

definition encoder_kv_reset :: "('m, 'k, 'o) enc_state \<Rightarrow> ('m, 'k, 'o) enc_state" where
  "encoder_kv_reset kv = kv
    \<lparr> ek_emitted := 0, ek_stable_mel := 0, ek_mel_tail := [], ek_tail_base := 0, ek_enc_accum := [],
      ek_finalized := False, ek_transformer_frames := 0, ek_kv_appends := 0, ek_kv_evictions := 0,
      ek_kv_wraps := 0, ek_kv_materialized := 0, ek_graph_execs := 0, ek_max_new_per_exec := 0,
      ek_warmup_frames := 0, ek_frames_before_finish := 0, ek_frames_at_finish := 0,
      ek_frames_at_finish_exec := 0, ek_peak_logical := 0, ek_peak_mel_tail := 0, ek_peak_output := 0,
      ek_enc_out_d2h_bytes := 0, ek_logical_submitted := 0, ek_physical_evaluated := 0,
      ek_padding_evaluated := 0 \<rparr>"

definition encoder_kv_fresh :: "'k \<Rightarrow> (int \<Rightarrow> 'o option) \<Rightarrow> ('m, 'k, 'o) enc_state" where
  "encoder_kv_fresh dev ring =
    \<lparr> ek_reusable = False, ek_emitted = 0, ek_stable_mel = 0, ek_mel_tail = [], ek_tail_base = 0,
      ek_enc_accum = [], ek_finalized = False, ek_transformer_frames = 0, ek_kv_appends = 0,
      ek_kv_evictions = 0, ek_kv_wraps = 0, ek_kv_materialized = 0, ek_graph_execs = 0,
      ek_max_new_per_exec = 0, ek_warmup_frames = 0, ek_frames_before_finish = 0,
      ek_frames_at_finish = 0, ek_frames_at_finish_exec = 0, ek_peak_logical = 0,
      ek_peak_mel_tail = 0, ek_peak_output = 0, ek_enc_out_d2h_bytes = 0, ek_logical_submitted = 0,
      ek_physical_evaluated = 0, ek_padding_evaluated = 0, ek_device = dev, ek_out_ring = ring \<rparr>"

section \<open>The encoder-output ring copy\<close>

text \<open>The loop of \<open>copy_chunk_to_enc_out_ring\<close>: source offset, destination slot and length of each
device copy.\<close>

function copy_segments :: "int \<Rightarrow> int \<Rightarrow> int \<Rightarrow> int \<Rightarrow> (int \<times> int \<times> int) list" where
  "copy_segments cap q_start n dn =
    (if dn < n \<and> 0 < cap
     then let slot = i32 ((q_start + dn) mod cap);
              seg = min (n - dn) (cap - slot)
          in if seg \<le> 0 then [] else (dn, slot, seg) # copy_segments cap q_start n (dn + seg)
     else [])"
  by auto
termination by (relation "measure (\<lambda>(cap, q, n, dn). nat (n - dn))") auto

declare copy_segments.simps [simp del]

fun copy_rows :: "'o list \<Rightarrow> (int \<times> int \<times> int) list \<Rightarrow> (int \<Rightarrow> 'o option) \<Rightarrow> (int \<Rightarrow> 'o option)" where
  "copy_rows src [] ring = ring"
| "copy_rows src ((off, slot, seg) # segs) ring =
     copy_rows src segs
       (\<lambda>s. if slot \<le> s \<and> s < slot + seg then Some (src ! nat (off + (s - slot))) else ring s)"

text \<open>The new ring, \<^term>\<open>None\<close> when the copy graph failed.\<close>

definition copy_chunk_to_enc_out_ring ::
  "encoder_config \<Rightarrow> ('m, 'k, 'o) encoder_gpu \<Rightarrow> 'k \<Rightarrow> (int \<Rightarrow> 'o option) \<Rightarrow> 'o list \<Rightarrow> int \<Rightarrow> int
   \<Rightarrow> (int \<Rightarrow> 'o option) option" where
  "copy_chunk_to_enc_out_ring cfg gpu dev ring chunk q_start n =
    (if \<not> cfg_want_ring cfg \<or> n \<le> 0 then Some ring
     else if gpu_copy gpu dev then Some (copy_rows chunk (copy_segments 256 q_start n 0) ring)
     else None)"

section \<open>One graph execution\<close>

text \<open>The bookkeeping both executions end with.\<close>

definition note_execution :: "('m, 'k, 'o) enc_state \<Rightarrow> enc_plan \<Rightarrow> int \<Rightarrow> ('m, 'k, 'o) enc_state" where
  "note_execution kv plan p =
    (let n = ep_n_new plan;
         emitted = ep_q_start plan + n;
         logical = emitted - max 0 (emitted - 750)
     in kv \<lparr> ek_emitted := emitted,
          ek_transformer_frames := ek_transformer_frames kv + n,
          ek_kv_appends := ek_kv_appends kv + n,
          ek_kv_evictions := ek_kv_evictions kv + ep_evicted plan,
          ek_kv_wraps := (if ep_read_wraps plan \<or> ep_write_wraps plan then ek_kv_wraps kv + 1 else ek_kv_wraps kv),
          ek_graph_execs := ek_graph_execs kv + 1,
          ek_logical_submitted := ek_logical_submitted kv + n,
          ek_physical_evaluated := ek_physical_evaluated kv + p,
          ek_max_new_per_exec := max (ek_max_new_per_exec kv) n,
          ek_peak_logical := max (ek_peak_logical kv) logical \<rparr>)"

text \<open>The fixed convolution window of the 4-row graph; \<^term>\<open>None\<close> when a needed Mel frame is outside the
tail.\<close>

definition steady_window :: "('m, 'k, 'o) enc_state \<Rightarrow> int \<Rightarrow> 'm option list option" where
  "steady_window kv q_start =
    read_all (\<lambda>i. let absolute = 2 * (q_start - 2) + int i
                in if absolute < 0 then Some None
                   else let rel = absolute - ek_tail_base kv
                        in if rel < 0 \<or> int (length (ek_mel_tail kv)) \<le> rel then None
                           else Some (Some (ek_mel_tail kv ! nat rel))) [0..<12]"

definition steady_mask_row :: "int \<Rightarrow> bool list" where
  "steady_mask_row absolute_q =
    (let slots = List.map (\<lambda>key. key mod 878) [max 0 (absolute_q - (750 - 1))..absolute_q]
     in List.map (\<lambda>slot. slot \<in> set slots) [0..877])"

definition run_encoder_steady_batch ::
  "('m, 'k, 'o) encoder_gpu \<Rightarrow> ('m, 'k, 'o) enc_state \<Rightarrow> enc_plan \<Rightarrow> bool \<times> ('m, 'k, 'o) enc_state" where
  "run_encoder_steady_batch gpu kv plan =
    (if ep_n_new plan \<noteq> 4 then (False, kv)
     else case steady_window kv (ep_q_start plan) of
       None \<Rightarrow> (False, kv)
     | Some conv \<Rightarrow>
         let queries = [ep_q_start plan..ep_q_start plan + 3];
             output_rows = List.map (\<lambda>q. i32 (q mod 256)) queries
         in case gpu_exec gpu (ek_device kv)
                   (SteadyGraph conv (List.map i32 queries) (List.map (\<lambda>q. i32 (q mod 878)) queries)
                      output_rows (List.map steady_mask_row queries)) of
              None \<Rightarrow> (False, kv)
            | Some (dev, outs, materialized) \<Rightarrow>
                let kv1 = kv \<lparr> ek_device := dev,
                      ek_out_ring := fold (\<lambda>(r, v) ring. ring(r := Some v)) (zip output_rows outs)
                                       (ek_out_ring kv) \<rparr>
                in (True, note_execution kv1 plan 4))"

definition block_mask :: "encoder_config \<Rightarrow> int \<Rightarrow> int \<Rightarrow> int \<Rightarrow> int \<Rightarrow> int \<Rightarrow> bool list list" where
  "block_mask cfg p block_start q_offset n key_start =
    List.map (\<lambda>ql. let real_query = (q_offset \<le> ql \<and> ql < q_offset + n);
                     q_abs = block_start + ql
                 in List.map (\<lambda>kv_abs. (real_query \<and> enc_kv_mask_allows kv_abs q_abs 750) \<or>
                                  (\<not> real_query \<and> cfg_segmented cfg p \<and> kv_abs = key_start))
                      [key_start..block_start + p - 1]) [0..p - 1]"

text \<open>The inputs of a block graph of \<open>p\<close> physical rows; \<^term>\<open>None\<close> when the tail misses the convolution
window.\<close>

definition block_input :: "encoder_config \<Rightarrow> ('m, 'k, 'o) enc_state \<Rightarrow> enc_plan \<Rightarrow> int \<Rightarrow> 'm graph_input option" where
  "block_input cfg kv plan p =
    (let q_offset = i32 (ep_q_start plan mod p);
         block_start = ep_q_start plan - q_offset;
         key_start = max 0 (block_start - (750 - 1))
     in if ep_conv_mel_start plan < ek_tail_base kv \<or>
           ek_tail_base kv + int (length (ek_mel_tail kv)) < ep_conv_mel_end plan
        then None
        else Some (BlockGraph plan p
               (take (nat (ep_conv_mel_end plan - ep_conv_mel_start plan))
                     (drop (nat (ep_conv_mel_start plan - ek_tail_base kv)) (ek_mel_tail kv)))
               (List.map i32 [block_start..block_start + p - 1])
               (block_mask cfg p block_start q_offset (ep_n_new plan) key_start)))"

definition block_finish ::
  "encoder_config \<Rightarrow> ('m, 'k, 'o) encoder_gpu \<Rightarrow> ('m, 'k, 'o) enc_state \<Rightarrow> enc_plan \<Rightarrow> int \<Rightarrow> 'k \<Rightarrow> 'o list
   \<Rightarrow> int \<Rightarrow> bool \<times> ('m, 'k, 'o) enc_state" where
  "block_finish cfg gpu kv plan p dev outs materialized =
    (let n = ep_n_new plan;
         kv1 = kv \<lparr> ek_device := dev,
               ek_enc_accum := (if cfg_want_ring cfg then ek_enc_accum kv else ek_enc_accum kv @ take (nat n) outs),
               ek_enc_out_d2h_bytes := (if cfg_want_ring cfg then ek_enc_out_d2h_bytes kv
                                        else ek_enc_out_d2h_bytes kv + n * 1280 * 4) \<rparr>
     in case copy_chunk_to_enc_out_ring cfg gpu dev (ek_out_ring kv) outs (ep_q_start plan) n of
          None \<Rightarrow> (False, kv1)
        | Some ring \<Rightarrow>
            let kv2 = note_execution (kv1 \<lparr> ek_out_ring := ring \<rparr>) plan p
            in (True, kv2
                 \<lparr> ek_kv_materialized := ek_kv_materialized kv2 + materialized,
                   ek_padding_evaluated := ek_padding_evaluated kv2 + (p - n),
                   ek_peak_output := max (ek_peak_output kv2) (int (length (ek_enc_accum kv2))) \<rparr>))"

definition run_encoder_kv_batch ::
  "encoder_config \<Rightarrow> ('m, 'k, 'o) encoder_gpu \<Rightarrow> ('m, 'k, 'o) enc_state \<Rightarrow> enc_plan \<Rightarrow> int
   \<Rightarrow> bool \<times> ('m, 'k, 'o) enc_state" where
  "run_encoder_kv_batch cfg gpu kv plan physical_override =
    (let p = (if 0 < physical_override then physical_override else sched_physical (cfg_schedule cfg))
     in if ek_reusable kv \<and> cfg_want_ring cfg \<and> ep_n_new plan = 4 \<and> p = 4
        then run_encoder_steady_batch gpu kv plan
        else case block_input cfg kv plan p of
          None \<Rightarrow> (False, kv)
        | Some inp \<Rightarrow>
            (case gpu_exec gpu (ek_device kv) inp of
               None \<Rightarrow> (False, kv)
             | Some (dev, outs, materialized) \<Rightarrow> block_finish cfg gpu kv plan p dev outs materialized))"

section \<open>The Mel tail and the driver\<close>

definition encoder_kv_trim_tail :: "('m, 'k, 'o) enc_state \<Rightarrow> ('m, 'k, 'o) enc_state" where
  "encoder_kv_trim_tail kv =
    (let keep_from = max 0 (2 * (ek_emitted kv - 2));
         kv1 = (if ek_tail_base kv < keep_from
                then let drp = nat (keep_from - ek_tail_base kv)
                     in kv \<lparr> ek_mel_tail := (if length (ek_mel_tail kv) \<le> drp then []
                                              else drop drp (ek_mel_tail kv)),
                             ek_tail_base := keep_from \<rparr>
                else kv)
     in kv1 \<lparr> ek_peak_mel_tail := max (ek_peak_mel_tail kv1) (int (length (ek_mel_tail kv1))) \<rparr>)"

definition encoder_kv_run ::
  "encoder_config \<Rightarrow> ('m, 'k, 'o) encoder_gpu \<Rightarrow> ('m, 'k, 'o) enc_state \<Rightarrow> int \<Rightarrow> int \<Rightarrow> bool \<Rightarrow> int
   \<Rightarrow> bool \<times> ('m, 'k, 'o) enc_state" where
  "encoder_kv_run cfg gpu kv q0 n final physical_override =
    (case enc_kv_plan q0 n 878 750 of
       None \<Rightarrow> (False, kv)
     | Some plan \<Rightarrow>
         if ek_stable_mel kv < ep_conv_mel_end plan then (False, kv)
         else let (ok, kv1) = run_encoder_kv_batch cfg gpu kv plan physical_override
              in if \<not> ok then (False, kv1)
                 else let kv2 = (if final
                        then kv1 \<lparr> ek_frames_at_finish := ek_frames_at_finish kv1 + n,
                                   ek_frames_at_finish_exec := ek_frames_at_finish_exec kv1 + n \<rparr>
                        else kv1 \<lparr> ek_frames_before_finish := ek_frames_before_finish kv1 + n \<rparr>)
                      in (True, encoder_kv_trim_tail kv2))"

text \<open>The decision of one pass through the driver loop: stop, fail, or run \<open>n\<close> frames at a physical
shape (and whether it is the warmup block).\<close>

datatype drive_step = Stop | Fail | Run int int bool

definition batch_rows :: "int \<Rightarrow> int \<Rightarrow> int \<Rightarrow> int \<Rightarrow> int" where
  "batch_rows physical logical emitted rem =
    (let q_offset = i32 (emitted mod physical);
         room = physical - q_offset
     in i32 (min (min logical room) rem))"

definition next_drive_step :: "encoder_config \<Rightarrow> bool \<Rightarrow> bool \<Rightarrow> int \<Rightarrow> int \<Rightarrow> drive_step" where
  "next_drive_step cfg reusable final emitted target =
    (let schedule = cfg_schedule cfg;
         batch_terminal = (final \<and> reusable \<and> cfg_want_ring cfg);
         rem = target - emitted
     in if target \<le> emitted then Stop
        else if emitted = 0 \<and> \<not> final \<and> target < 128 then Stop
        else if emitted = 0 \<and> 128 \<le> target then Run 128 128 True
        else if \<not> final \<and> rem < sched_logical schedule then Stop
        else let physical = (if batch_terminal then cfg_finish_physical cfg else sched_physical schedule);
                 logical = (if batch_terminal then cfg_finish_physical cfg else sched_logical schedule);
                 n = batch_rows physical logical emitted rem
             in if n \<le> 0 then Fail else Run n physical False)"

lemma trim_tail_emitted [simp]: "ek_emitted (encoder_kv_trim_tail kv) = ek_emitted kv"
  by (simp add: encoder_kv_trim_tail_def Let_def)

lemma enc_kv_plan_fields:
  "enc_kv_plan q n cap window = Some plan \<Longrightarrow> ep_q_start plan = q \<and> ep_n_new plan = n \<and> 0 < n"
  by (auto simp: enc_kv_plan_def Let_def split: if_splits)

lemma note_execution_emitted [simp]: "ek_emitted (note_execution kv plan p) = ep_q_start plan + ep_n_new plan"
  by (simp add: note_execution_def Let_def)

lemma run_encoder_steady_batch_emitted:
  "run_encoder_steady_batch gpu kv plan = (True, kv') \<Longrightarrow> ek_emitted kv' = ep_q_start plan + ep_n_new plan"
  by (auto simp: run_encoder_steady_batch_def Let_def split: if_splits option.splits)

lemma block_finish_emitted:
  "block_finish cfg gpu kv plan p dev outs mat = (True, kv') \<Longrightarrow> ek_emitted kv' = ep_q_start plan + ep_n_new plan"
  by (auto simp: block_finish_def Let_def split: option.splits)

lemma run_encoder_kv_batch_emitted:
  "run_encoder_kv_batch cfg gpu kv plan phys = (True, kv') \<Longrightarrow> ek_emitted kv' = ep_q_start plan + ep_n_new plan"
  unfolding run_encoder_kv_batch_def Let_def
  by (auto dest: block_finish_emitted run_encoder_steady_batch_emitted
      split: if_split_asm option.split_asm prod.split_asm)

lemma encoder_kv_run_emitted:
  assumes "encoder_kv_run cfg gpu kv q0 n final phys = (True, kv')"
  shows "ek_emitted kv' = q0 + n"
proof -
  obtain plan where "enc_kv_plan q0 n 878 750 = Some plan"
    using assms by (auto simp: encoder_kv_run_def split: option.splits)
  with assms show ?thesis
    using run_encoder_kv_batch_emitted [of cfg gpu kv plan phys] enc_kv_plan_fields [of q0 n 878 750 plan]
    by (auto simp: encoder_kv_run_def Let_def split: if_splits prod.splits)
qed

lemma next_drive_step_Run:
  assumes "next_drive_step cfg reusable final emitted target = Run n phys warm"
  shows "0 < n" "emitted < target"
  using assms by (auto simp: next_drive_step_def Let_def split: if_splits)

text \<open>An execution never changes the count of stable Mel frames, so the driver terminates.\<close>

lemma note_execution_stable [simp]: "ek_stable_mel (note_execution kv plan p) = ek_stable_mel kv"
  by (simp add: note_execution_def Let_def)

lemma trim_tail_stable [simp]: "ek_stable_mel (encoder_kv_trim_tail kv) = ek_stable_mel kv"
  by (simp add: encoder_kv_trim_tail_def Let_def)

lemma run_encoder_kv_batch_stable:
  "ek_stable_mel (snd (run_encoder_kv_batch cfg gpu kv plan phys)) = ek_stable_mel kv"
  unfolding run_encoder_kv_batch_def run_encoder_steady_batch_def block_finish_def Let_def
  by (simp split: option.split prod.split)

lemma encoder_kv_run_stable:
  assumes "encoder_kv_run cfg gpu kv q0 n final phys = (ok, kv')"
  shows "ek_stable_mel kv' = ek_stable_mel kv"
proof (cases "enc_kv_plan q0 n 878 750")
  case None
  then show ?thesis using assms by (simp add: encoder_kv_run_def)
next
  case (Some plan)
  obtain ok1 kv1 where r: "run_encoder_kv_batch cfg gpu kv plan phys = (ok1, kv1)" by fastforce
  have "ek_stable_mel kv1 = ek_stable_mel kv"
    using run_encoder_kv_batch_stable [of cfg gpu kv plan phys] r by simp
  then show ?thesis using assms Some r by (auto simp: encoder_kv_run_def Let_def split: if_splits)
qed

lemma drive_decreases:
  assumes "next_drive_step cfg r final (ek_emitted kv) (enc_frames_realizable (ek_stable_mel kv)) = Run n phys w"
    and "encoder_kv_run cfg gpu (if w then kv \<lparr> ek_warmup_frames := 128 \<rparr> else kv) (ek_emitted kv) n final phys
      = (True, kv2)"
  shows "nat (enc_frames_realizable (ek_stable_mel kv2) - ek_emitted kv2)
       < nat (enc_frames_realizable (ek_stable_mel kv) - ek_emitted kv)"
  using encoder_kv_run_emitted [OF assms(2)] encoder_kv_run_stable [OF assms(2)]
    next_drive_step_Run [OF assms(1)] by (cases w) auto

function encoder_kv_drive ::
  "encoder_config \<Rightarrow> ('m, 'k, 'o) encoder_gpu \<Rightarrow> bool \<Rightarrow> ('m, 'k, 'o) enc_state
   \<Rightarrow> bool \<times> ('m, 'k, 'o) enc_state" where
  "encoder_kv_drive cfg gpu final kv =
    (case next_drive_step cfg (ek_reusable kv) final (ek_emitted kv) (enc_frames_realizable (ek_stable_mel kv)) of
       Stop \<Rightarrow> (True, kv)
     | Fail \<Rightarrow> (False, kv)
     | Run n physical warmup \<Rightarrow>
         let kv1 = (if warmup then kv \<lparr> ek_warmup_frames := 128 \<rparr> else kv)
         in case encoder_kv_run cfg gpu kv1 (ek_emitted kv) n final physical of
              (False, kv2) \<Rightarrow> (False, kv2)
            | (True, kv2) \<Rightarrow> encoder_kv_drive cfg gpu final kv2)"
  by auto

termination
proof (relation "measure (\<lambda>(cfg, gpu, final, kv). nat (enc_frames_realizable (ek_stable_mel kv) - ek_emitted kv))",
    goal_cases)
  case 2
  then show ?case
    by (simp only: in_measure prod.case) (rule drive_decreases, assumption, simp)
qed simp

declare encoder_kv_drive.simps [simp del]

section \<open>The stream operations\<close>

text \<open>\<open>voxtral_encoder_stream\<close> with the KV strategy: the shared counters of the wrapper and its KV
runtime.  \<open>alloc_ok\<close> is the outcome of the lazy device allocation.\<close>

record ('m, 'k, 'o) enc_stream =
  es_kv :: "('m, 'k, 'o) enc_state"
  es_stable_mel :: int
  es_emitted :: int
  es_finalized :: bool
  es_mel_frames_received :: int

definition encoder_stream_append ::
  "encoder_config \<Rightarrow> ('m, 'k, 'o) enc_stream \<Rightarrow> 'm list \<Rightarrow> ('m, 'k, 'o) enc_stream" where
  "encoder_stream_append cfg es frames =
    es \<lparr> es_kv := (es_kv es)
           \<lparr> ek_reusable := cfg_want_ring cfg,
             ek_mel_tail := ek_mel_tail (es_kv es) @ frames,
             ek_stable_mel := ek_stable_mel (es_kv es) + int (length frames) \<rparr>,
         es_stable_mel := es_stable_mel es + int (length frames),
         es_mel_frames_received := es_mel_frames_received es + int (length frames) \<rparr>"

definition encoder_stream_drive_kv ::
  "encoder_config \<Rightarrow> ('m, 'k, 'o) encoder_gpu \<Rightarrow> bool \<Rightarrow> ('m, 'k, 'o) enc_stream \<Rightarrow> bool \<times> ('m, 'k, 'o) enc_stream" where
  "encoder_stream_drive_kv cfg gpu final es =
    (let (ok, kv) = encoder_kv_drive cfg gpu final (es_kv es) in (ok, es \<lparr> es_kv := kv \<rparr>))"

definition encoder_stream_push_mel ::
  "encoder_config \<Rightarrow> ('m, 'k, 'o) encoder_gpu \<Rightarrow> bool \<Rightarrow> ('m, 'k, 'o) enc_stream \<Rightarrow> 'm list option \<Rightarrow> int \<Rightarrow> int
   \<Rightarrow> bool \<times> ('m, 'k, 'o) enc_stream" where
  "encoder_stream_push_mel cfg gpu alloc_ok es frames base_frame n =
    (if es_finalized es then (False, es)
     else if n \<le> 0 then (True, es)
     else case frames of
       None \<Rightarrow> (False, es)
     | Some fs \<Rightarrow>
         if base_frame \<noteq> es_stable_mel es then (False, es)
         else if \<not> alloc_ok
         then (False, es \<lparr> es_kv := (es_kv es) \<lparr> ek_reusable := cfg_want_ring cfg \<rparr> \<rparr>)
         else encoder_stream_drive_kv cfg gpu False (encoder_stream_append cfg es (take (nat n) fs)))"

definition encoder_stream_push_mel_final ::
  "encoder_config \<Rightarrow> ('m, 'k, 'o) encoder_gpu \<Rightarrow> bool \<Rightarrow> ('m, 'k, 'o) enc_stream \<Rightarrow> 'm list option \<Rightarrow> int \<Rightarrow> int
   \<Rightarrow> bool \<times> ('m, 'k, 'o) enc_stream" where
  "encoder_stream_push_mel_final cfg gpu alloc_ok es frames base_frame n =
    (if es_finalized es then (False, es)
     else if n \<le> 0 then (True, es)
     else case frames of
       None \<Rightarrow> (False, es)
     | Some fs \<Rightarrow>
         if base_frame \<noteq> es_stable_mel es then (False, es)
         else if \<not> alloc_ok
         then (False, es \<lparr> es_kv := (es_kv es) \<lparr> ek_reusable := cfg_want_ring cfg \<rparr> \<rparr>)
         else encoder_stream_drive_kv cfg gpu True (encoder_stream_append cfg es (take (nat n) fs)))"

definition encoder_stream_finish ::
  "encoder_config \<Rightarrow> ('m, 'k, 'o) encoder_gpu \<Rightarrow> ('m, 'k, 'o) enc_stream \<Rightarrow> bool \<times> ('m, 'k, 'o) enc_stream" where
  "encoder_stream_finish cfg gpu es =
    (if es_finalized es then (True, es)
     else let (ok, kv) = encoder_kv_drive cfg gpu True (es_kv es)
          in (ok, es \<lparr> es_kv := kv \<lparr> ek_finalized := True, ek_mel_tail := [],
                                       ek_tail_base := ek_stable_mel kv \<rparr>,
                        es_finalized := True, es_emitted := ek_emitted kv \<rparr>))"

definition encoder_stream_reset :: "('m, 'k, 'o) enc_stream \<Rightarrow> ('m, 'k, 'o) enc_stream" where
  "encoder_stream_reset es = es
    \<lparr> es_kv := encoder_kv_reset (es_kv es), es_stable_mel := 0, es_emitted := 0,
      es_finalized := False, es_mel_frames_received := 0 \<rparr>"

definition encoder_stream_create :: "'k \<Rightarrow> (int \<Rightarrow> 'o option) \<Rightarrow> ('m, 'k, 'o) enc_stream" where
  "encoder_stream_create dev ring =
    \<lparr> es_kv = encoder_kv_fresh dev ring, es_stable_mel = 0, es_emitted = 0, es_finalized = False,
      es_mel_frames_received = 0 \<rparr>"

text \<open>The batch encoder: the whole channel-major Mel (here its frames) through one final drive, then the
upload of the used rows of the host accumulation, which is undefined when the accumulation is
shorter than the count.\<close>

datatype 'o global_result = EncodeFailed | EncodeUndefined | EncodeDone int "'o list"

definition run_encoder_global ::
  "encoder_config \<Rightarrow> ('m, 'k, 'o) encoder_gpu \<Rightarrow> 'k \<Rightarrow> (int \<Rightarrow> 'o option) \<Rightarrow> bool \<Rightarrow> bool \<Rightarrow> 'm list
   \<Rightarrow> 'o global_result" where
  "run_encoder_global cfg gpu dev ring alloc_ok out_alloc_ok mel =
    (if mel = [] then EncodeFailed
     else if \<not> alloc_ok then EncodeFailed
     else let kv = (encoder_kv_fresh dev ring) \<lparr> ek_mel_tail := mel, ek_stable_mel := int (length mel) \<rparr>;
              (ok, kv1) = encoder_kv_drive cfg gpu True kv
          in if \<not> ok then EncodeFailed
             else let used = i32 (ek_emitted kv1) div 4 * 4
                  in if used \<le> 0 \<or> \<not> out_alloc_ok then EncodeFailed
                     else if int (length (ek_enc_accum kv1)) < used then EncodeUndefined
                     else EncodeDone used (take (nat used) (ek_enc_accum kv1)))"

end
