(* ===== verification/EncoderCorrect.thy ===== *)
theory EncoderCorrect
  imports EncoderKv KvCorrect
begin

text \<open>Correctness of the KV encoder: with a device that does not fail, no push is refused for a
bookkeeping reason, every realizable frame goes through the transformer exactly once, the Mel tail
stays bounded, the output ring holds the newest 256 frames, and the sequence of graphs submitted
depends only on the Mel frames received, not on how they were split into pushes.\<close>

section \<open>Assumptions on the device\<close>

definition gpu_total :: "('m, 'k, 'o) encoder_gpu \<Rightarrow> bool" where
  "gpu_total gpu \<longleftrightarrow> (\<forall>k inp. gpu_exec gpu k inp \<noteq> None) \<and> (\<forall>k. gpu_copy gpu k)"

fun input_rows :: "'m graph_input \<Rightarrow> int" where
  "input_rows (SteadyGraph conv pos kv_rows out_rows msk) = 4"
| "input_rows (BlockGraph plan p conv pos msk) = ep_n_new plan"

definition gpu_rows :: "('m, 'k, 'o) encoder_gpu \<Rightarrow> bool" where
  "gpu_rows gpu \<longleftrightarrow> (\<forall>k inp k' outs mat. gpu_exec gpu k inp = Some (k', outs, mat) \<longrightarrow>
     int (length outs) = max 0 (input_rows inp))"

definition config_ok :: "encoder_config \<Rightarrow> bool" where
  "config_ok cfg \<longleftrightarrow> schedule_ok (cfg_schedule cfg) \<and> cfg_finish_physical cfg \<in> {4, 8, 16, 32, 128}"

section \<open>The output ring\<close>

text \<open>The copy loop writes the same slots as the segment planner of a 256-slot ring.\<close>

lemma fold_upd_interval:
  "int (length vs) = len \<Longrightarrow> fold (\<lambda>(k, v) st. st(k := v)) (zip [a..a + len - 1] vs) st =
   (\<lambda>s. if a \<le> s \<and> s < a + len then vs ! nat (s - a) else st s)"
proof (induction vs arbitrary: a len st)
  case Nil
  then show ?case by (auto simp: fun_eq_iff)
next
  case (Cons v vs)
  have l: "int (length vs) = len - 1" using Cons.prems by simp
  have u: "[a..a + len - 1] = a # [a + 1..a + 1 + (len - 1) - 1]"
    using Cons.prems by (simp add: upto_rec1)
  have "fold (\<lambda>(k, v) st. st(k := v)) (zip [a..a + len - 1] (v # vs)) st =
      fold (\<lambda>(k, v) st. st(k := v)) (zip [a + 1..a + 1 + (len - 1) - 1] vs) (st(a := v))"
    unfolding u by simp
  also have "\<dots> = (\<lambda>s. if a + 1 \<le> s \<and> s < a + 1 + (len - 1) then vs ! nat (s - (a + 1)) else (st(a := v)) s)"
    by (rule Cons.IH [OF l])
  also have "\<dots> = (\<lambda>s. if a \<le> s \<and> s < a + len then (v # vs) ! nat (s - a) else st s)"
  proof
    fix s
    have "a < s \<Longrightarrow> nat (s - a) = Suc (nat (s - (a + 1)))" by simp
    then show "(if a + 1 \<le> s \<and> s < a + 1 + (len - 1) then vs ! nat (s - (a + 1)) else (st(a := v)) s) =
        (if a \<le> s \<and> s < a + len then (v # vs) ! nat (s - a) else st s)"
      using Cons.prems by (cases "a = s") auto
  qed
  finally show ?case .
qed

lemma copy_segments_eq:
  assumes "0 \<le> q" "0 < n" "n \<le> 256"
  shows "copy_segments 256 q n 0 =
    (let slot = q mod 256 in
     if n \<le> 256 - slot then [(0, slot, n)] else [(0, slot, 256 - slot), (256 - slot, 0, n - (256 - slot))])"
proof -
  define slot where "slot = q mod 256"
  have s: "0 \<le> slot" "slot < 256" by (simp_all add: slot_def)
  have i: "i32 slot = slot" using s by simp
  have e: "copy_segments 256 q n n = []" for n by (subst copy_segments.simps) simp
  have first: "copy_segments 256 q n 0 = (0, slot, min n (256 - slot)) # copy_segments 256 q n (min n (256 - slot))"
    using assms s by (subst copy_segments.simps) (simp add: Let_def i slot_def [symmetric])
  show ?thesis
  proof (cases "n \<le> 256 - slot")
    case True
    then show ?thesis using first e by (simp add: Let_def slot_def [symmetric] min_absorb1)
  next
    case False
    have z: "(q + (256 - slot)) mod 256 = 0" unfolding slot_def by presburger
    have "copy_segments 256 q n (256 - slot) = [(256 - slot, 0, n - (256 - slot))]"
      using False s assms e by (subst copy_segments.simps) (simp add: Let_def z)
    then show ?thesis using first False by (simp add: Let_def slot_def [symmetric] min_absorb2)
  qed
qed

lemma copy_rows_ring_write:
  assumes "0 \<le> q" "int (length outs) = n" "0 < n" "n \<le> 256"
  shows "copy_rows outs (copy_segments 256 q n 0) ring =
     ring_write ring (enc_kv_ring_segments q n 256) (List.map Some outs)"
proof -
  define slot where "slot = q mod 256"
  have s: "0 \<le> slot" "slot < 256" by (simp_all add: slot_def)
  have i: "i32 slot = slot" using s by simp
  show ?thesis
  proof (cases "n \<le> 256 - slot")
    case True
    then show ?thesis using assms s
      by (auto simp: copy_segments_eq Let_def slot_def [symmetric] enc_kv_ring_segments_def i ring_write_def
          seg_slots_def fold_upd_interval fun_eq_iff nat_less_iff)
  next
    case False
    let ?f = "256 - slot"
    have l1: "int (length (take (nat ?f) outs)) = ?f" and l2: "int (length (drop (nat ?f) outs)) = n - ?f"
      using False assms s by auto
    have z: "zip ([slot..slot + ?f - 1] @ [0..0 + (n - ?f) - 1]) (List.map Some outs) =
        zip [slot..slot + ?f - 1] (List.map Some (take (nat ?f) outs)) @
        zip [0..0 + (n - ?f) - 1] (List.map Some (drop (nat ?f) outs))"
      using l1 by (simp add: zip_append1 take_map drop_map)
    show ?thesis using False assms s l1 l2
      unfolding copy_segments_eq [OF assms(1,3,4)] enc_kv_ring_segments_def ring_write_def Let_def
        slot_def [symmetric] i
      by (auto simp: seg_slots_def z [simplified] fold_upd_interval [of "List.map Some (take (nat ?f) outs)" ?f slot, simplified]
          fold_upd_interval [of "List.map Some (drop (nat ?f) outs)" "n - ?f" 0, simplified] nth_append fun_eq_iff
          nat_add_distrib)
  qed
qed

section \<open>The invariant of the encoder state\<close>

text \<open>\<open>sig\<close> is the Mel received so far, \<open>outs\<close> the outputs of the emitted frames in order.\<close>

definition enc_inv :: "encoder_config \<Rightarrow> 'm list \<Rightarrow> ('m, 'k, 'o) enc_state \<Rightarrow> bool" where
  "enc_inv cfg sig kv \<longleftrightarrow>
     ek_stable_mel kv = int (length sig) \<and> 0 \<le> ek_emitted kv \<and>
     ek_emitted kv \<le> enc_frames_realizable (int (length sig)) \<and>
     ek_tail_base kv = max 0 (2 * (ek_emitted kv - 2)) \<and>
     ek_mel_tail kv = drop (nat (ek_tail_base kv)) sig \<and>
     ek_transformer_frames kv = ek_emitted kv \<and> ek_kv_appends kv = ek_emitted kv \<and>
     ek_logical_submitted kv = ek_emitted kv \<and>
     ek_kv_evictions kv = max 0 (ek_emitted kv - 750) \<and>
     ek_frames_before_finish kv + ek_frames_at_finish kv = ek_emitted kv \<and>
     ek_frames_at_finish_exec kv = ek_frames_at_finish kv"

lemma realizable_mel: "0 \<le> e \<Longrightarrow> e \<le> enc_frames_realizable m \<Longrightarrow> 0 \<le> m \<Longrightarrow> 2 * e \<le> m"
  by (auto simp: enc_frames_realizable_def split: if_splits)

lemma realizable_mono: "m \<le> m' \<Longrightarrow> enc_frames_realizable m \<le> enc_frames_realizable m'"
  by (auto simp: enc_frames_realizable_def intro: zdiv_mono1)

lemma realizable_nonneg: "0 \<le> enc_frames_realizable m"
  by (auto simp: enc_frames_realizable_def pos_imp_zdiv_nonneg_iff)

text \<open>The plan of a batch of 1 to 128 realizable frames is accepted and its convolution window is in
the tail.\<close>

lemma plan_for:
  assumes "0 \<le> q" "1 \<le> n" "n \<le> 128" "q < 2 ^ 62"
  obtains plan where "enc_kv_plan q n 878 750 = Some plan" "ep_q_start plan = q" "ep_n_new plan = n"
    "ep_conv_mel_start plan = max 0 (2 * (q - 2))" "ep_conv_mel_end plan = 2 * (q + n)"
    "ep_evicted plan = max 0 (q + n - 750) - max 0 (q - 750)"
proof -
  have "enc_kv_plan q n 878 750 \<noteq> None" using assms by (simp add: enc_kv_plan_def Let_def)
  then obtain plan where p: "enc_kv_plan q n 878 750 = Some plan" by auto
  have "q + n < 2 ^ 63" using assms by simp
  from enc_kv_plan_SomeD [OF p this] enc_kv_plan_fields [OF p] p that show ?thesis by simp
qed

lemma steady_window_ok:
  assumes "enc_inv cfg sig kv" "2 * (ek_emitted kv + 4) \<le> int (length sig)"
  shows "steady_window kv (ek_emitted kv) =
    Some (List.map (\<lambda>i. let a = 2 * (ek_emitted kv - 2) + int i in if a < 0 then None else Some (sig ! nat a)) [0..<12])"
  unfolding steady_window_def
proof (rule read_all_Some)
  fix i assume "i \<in> set [0..<12]"
  then have i: "int i < 12" by simp
  let ?a = "2 * (ek_emitted kv - 2) + int i"
  have tb: "ek_tail_base kv = max 0 (2 * (ek_emitted kv - 2))"
    and tl: "ek_mel_tail kv = drop (nat (ek_tail_base kv)) sig"
    using assms(1) by (simp_all add: enc_inv_def)
  have b: "0 \<le> ek_tail_base kv" "0 \<le> ?a \<longrightarrow> ek_tail_base kv \<le> ?a" "?a < int (length sig)"
    using tb i assms(2) by (auto simp: max_def)
  show "(let absolute = ?a in if absolute < 0 then Some None
      else let rel = absolute - ek_tail_base kv
           in if rel < 0 \<or> int (length (ek_mel_tail kv)) \<le> rel then None else Some (Some (ek_mel_tail kv ! nat rel)))
    = Some (let a = ?a in if a < 0 then None else Some (sig ! nat a))"
    using b by (auto simp: Let_def tl nat_diff_distrib)
qed

definition block_window :: "'m list \<Rightarrow> int \<Rightarrow> int \<Rightarrow> 'm list" where
  "block_window sig q n = take (nat (2 * (q + n) - max 0 (2 * (q - 2)))) (drop (nat (max 0 (2 * (q - 2)))) sig)"

lemma block_input_ok:
  assumes "enc_inv cfg sig kv" "ep_q_start plan = ek_emitted kv"
    and "ep_conv_mel_start plan = max 0 (2 * (ek_emitted kv - 2))"
    and "ep_conv_mel_end plan = 2 * (ek_emitted kv + n)" "2 * (ek_emitted kv + n) \<le> int (length sig)"
  shows "block_input cfg kv plan p =
    (let q_offset = i32 (ek_emitted kv mod p); block_start = ek_emitted kv - q_offset
     in Some (BlockGraph plan p (block_window sig (ek_emitted kv) n)
          (List.map i32 [block_start..block_start + p - 1])
          (block_mask cfg p block_start q_offset (ep_n_new plan) (max 0 (block_start - (750 - 1))))))"
proof -
  have tb: "ek_tail_base kv = max 0 (2 * (ek_emitted kv - 2))"
    and tl: "ek_mel_tail kv = drop (nat (ek_tail_base kv)) sig" and e: "0 \<le> ek_emitted kv"
    and le: "ek_emitted kv \<le> enc_frames_realizable (int (length sig))"
    using assms(1) by (simp_all add: enc_inv_def)
  have "2 * ek_emitted kv \<le> int (length sig)" by (rule realizable_mel [OF e le]) simp
  then have b: "0 \<le> ek_tail_base kv" "ek_tail_base kv \<le> int (length sig)" using tb e by (auto simp: max_def)
  have "\<not> (ep_conv_mel_start plan < ek_tail_base kv \<or>
        ek_tail_base kv + int (length (ek_mel_tail kv)) < ep_conv_mel_end plan)"
    using assms(3-5) tb tl b by simp
  then show ?thesis using assms(2-4) tb tl by (simp add: block_input_def block_window_def Let_def)
qed

lemma block_window_append:
  "2 * (q + n) \<le> int (length sig) \<Longrightarrow> block_window (sig @ ys) q n = block_window sig q n"
  by (simp add: block_window_def)

text \<open>The part of the state that does not depend on Mel frames received but not yet used.\<close>

definition enc_core :: "('m, 'k, 'o) enc_state \<Rightarrow> ('m, 'k, 'o) enc_state" where
  "enc_core kv = kv \<lparr> ek_mel_tail := [], ek_tail_base := 0, ek_stable_mel := 0, ek_peak_mel_tail := 0 \<rparr>"

lemma enc_core_simps [simp]:
  "enc_core (note_execution kv plan p) = note_execution (enc_core kv) plan p"
  "enc_core (encoder_kv_trim_tail kv) = enc_core kv"
  "ek_emitted (enc_core kv) = ek_emitted kv" "ek_device (enc_core kv) = ek_device kv"
  "ek_reusable (enc_core kv) = ek_reusable kv" "ek_out_ring (enc_core kv) = ek_out_ring kv"
  "ek_enc_accum (enc_core kv) = ek_enc_accum kv"
  by (simp_all add: enc_core_def note_execution_def encoder_kv_trim_tail_def Let_def)

lemma enc_core_eqD:
  assumes "enc_core a = enc_core b"
  shows "ek_emitted a = ek_emitted b" "ek_device a = ek_device b" "ek_reusable a = ek_reusable b"
    "ek_out_ring a = ek_out_ring b" "ek_enc_accum a = ek_enc_accum b"
  using enc_core_simps(3-7) [of a] enc_core_simps(3-7) [of b] assms by simp_all

section \<open>One execution\<close>

lemma copy_chunk_ok:
  assumes "gpu_total gpu" "0 < n"
  shows "copy_chunk_to_enc_out_ring cfg gpu dev ring chunk q n =
    Some (if cfg_want_ring cfg then copy_rows chunk (copy_segments 256 q n 0) ring else ring)"
  using assms by (simp add: copy_chunk_to_enc_out_ring_def gpu_total_def)

text \<open>What an execution of the frames \<open>[q, q + n)\<close> does to the counters.\<close>

definition executed :: "('m, 'k, 'o) enc_state \<Rightarrow> int \<Rightarrow> ('m, 'k, 'o) enc_state \<Rightarrow> bool" where
  "executed kv n kv1 \<longleftrightarrow>
     ek_emitted kv1 = ek_emitted kv + n \<and> ek_stable_mel kv1 = ek_stable_mel kv \<and>
     ek_mel_tail kv1 = ek_mel_tail kv \<and> ek_tail_base kv1 = ek_tail_base kv \<and>
     ek_reusable kv1 = ek_reusable kv \<and>
     ek_transformer_frames kv1 = ek_transformer_frames kv + n \<and> ek_kv_appends kv1 = ek_kv_appends kv + n \<and>
     ek_logical_submitted kv1 = ek_logical_submitted kv + n \<and>
     ek_kv_evictions kv1 = ek_kv_evictions kv + (max 0 (ek_emitted kv + n - 750) - max 0 (ek_emitted kv - 750)) \<and>
     ek_frames_before_finish kv1 = ek_frames_before_finish kv \<and>
     ek_frames_at_finish kv1 = ek_frames_at_finish kv \<and>
     ek_frames_at_finish_exec kv1 = ek_frames_at_finish_exec kv"

lemma note_execution_executed:
  assumes "ep_q_start plan = ek_emitted kv" "ep_n_new plan = n"
    and "ep_evicted plan = max 0 (ek_emitted kv + n - 750) - max 0 (ek_emitted kv - 750)"
  shows "executed kv n (note_execution kv plan p)"
  using assms by (simp add: executed_def note_execution_def Let_def)

lemma run_batch_ok:
  assumes inv: "enc_inv cfg sig kv" and tot: "gpu_total gpu" and n: "1 \<le> n"
    and plan: "ep_q_start plan = ek_emitted kv" "ep_n_new plan = n"
      "ep_conv_mel_start plan = max 0 (2 * (ek_emitted kv - 2))" "ep_conv_mel_end plan = 2 * (ek_emitted kv + n)"
      "ep_evicted plan = max 0 (ek_emitted kv + n - 750) - max 0 (ek_emitted kv - 750)"
    and mel: "2 * (ek_emitted kv + n) \<le> int (length sig)"
  shows "\<exists>kv1. run_encoder_kv_batch cfg gpu kv plan phys = (True, kv1) \<and> executed kv n kv1"
proof -
  let ?p = "if 0 < phys then phys else sched_physical (cfg_schedule cfg)"
  show ?thesis
  proof (cases "ek_reusable kv \<and> cfg_want_ring cfg \<and> ep_n_new plan = 4 \<and> ?p = 4")
    case True
    then have n4: "n = 4" using plan by simp
    obtain conv where c: "steady_window kv (ep_q_start plan) = Some conv"
      using steady_window_ok [OF inv] mel n4 plan by auto
    obtain kv1 where r: "run_encoder_steady_batch gpu kv plan = (True, note_execution kv1 plan 4)"
      and k: "\<exists>d r. kv1 = kv \<lparr> ek_device := d, ek_out_ring := r \<rparr>"
    proof -
      let ?queries = "[ep_q_start plan..ep_q_start plan + 3]"
      let ?inp = "SteadyGraph conv (List.map i32 ?queries) (List.map (\<lambda>q. i32 (q mod 878)) ?queries)
          (List.map (\<lambda>q. i32 (q mod 256)) ?queries) (List.map steady_mask_row ?queries)"
      obtain d o' m where g: "gpu_exec gpu (ek_device kv) ?inp = Some (d, o', m)"
        using tot unfolding gpu_total_def by (metis not_None_eq prod_cases3)
      show thesis
        by (rule that [of "kv \<lparr> ek_device := d, ek_out_ring := fold (\<lambda>(r, v) ring. ring(r := Some v))
              (zip (List.map (\<lambda>q. i32 (q mod 256)) ?queries) o') (ek_out_ring kv) \<rparr>"])
          (use g c n4 plan in \<open>simp_all add: run_encoder_steady_batch_def Let_def\<close>, blast)
    qed
    have "executed kv n (note_execution kv1 plan 4)"
      using k plan by (auto simp: executed_def note_execution_def Let_def)
    then show ?thesis using True r by (simp add: run_encoder_kv_batch_def Let_def)
  next
    case False
    obtain inp where i: "block_input cfg kv plan ?p = Some inp"
      using block_input_ok [OF inv plan(1,3,4) mel] by (simp add: Let_def)
    obtain d o' m where g: "gpu_exec gpu (ek_device kv) inp = Some (d, o', m)"
      using tot unfolding gpu_total_def by (metis not_None_eq prod_cases3)
    have n0: "0 < ep_n_new plan" using n plan by simp
    obtain kv1 where f: "block_finish cfg gpu kv plan ?p d o' m = (True, kv1)" "executed kv n kv1"
      using plan copy_chunk_ok [OF tot n0]
      by (simp add: block_finish_def Let_def executed_def note_execution_def)
    then show ?thesis using False i g by (auto simp: run_encoder_kv_batch_def Let_def)
  qed
qed

lemma executed_trim_inv:
  assumes inv: "enc_inv cfg sig kv" and ex: "executed kv n kv1" and n: "1 \<le> n"
    and le: "ek_emitted kv + n \<le> enc_frames_realizable (int (length sig))"
    and kv2: "kv2 = (if final
       then kv1 \<lparr> ek_frames_at_finish := ek_frames_at_finish kv1 + n,
                  ek_frames_at_finish_exec := ek_frames_at_finish_exec kv1 + n \<rparr>
       else kv1 \<lparr> ek_frames_before_finish := ek_frames_before_finish kv1 + n \<rparr>)"
  shows "enc_inv cfg sig (encoder_kv_trim_tail kv2)"
proof -
  let ?e = "ek_emitted kv" and ?e' = "ek_emitted kv + n"
  have e: "0 \<le> ?e" and tb: "ek_tail_base kv = max 0 (2 * (?e - 2))"
    and tl: "ek_mel_tail kv = drop (nat (ek_tail_base kv)) sig"
    using inv by (simp_all add: enc_inv_def)
  have f: "ek_emitted kv2 = ?e'" "ek_tail_base kv2 = ek_tail_base kv" "ek_mel_tail kv2 = ek_mel_tail kv"
    using ex by (auto simp: kv2 executed_def)
  have t: "ek_tail_base (encoder_kv_trim_tail kv2) = max 0 (2 * (?e' - 2)) \<and>
      ek_mel_tail (encoder_kv_trim_tail kv2) = drop (nat (max 0 (2 * (?e' - 2)))) sig"
  proof (cases "ek_tail_base kv < max 0 (2 * (?e' - 2))")
    case True
    have "0 \<le> ek_tail_base kv" using tb by simp
    then have "drop (nat (max 0 (2 * (?e' - 2)) - ek_tail_base kv)) (ek_mel_tail kv) = drop (nat (max 0 (2 * (?e' - 2)))) sig"
      using True tl by (simp add: nat_diff_distrib)
    then show ?thesis using True f unfolding encoder_kv_trim_tail_def Let_def clear_or_drop by simp
  next
    case False
    then have "max 0 (2 * (?e' - 2)) = ek_tail_base kv" using tb n by auto
    then show ?thesis using False f tl unfolding encoder_kv_trim_tail_def Let_def by simp
  qed
  have o: "ek_reusable (encoder_kv_trim_tail kv2) = ek_reusable kv2"
      "ek_transformer_frames (encoder_kv_trim_tail kv2) = ek_transformer_frames kv2"
      "ek_kv_appends (encoder_kv_trim_tail kv2) = ek_kv_appends kv2"
      "ek_logical_submitted (encoder_kv_trim_tail kv2) = ek_logical_submitted kv2"
      "ek_kv_evictions (encoder_kv_trim_tail kv2) = ek_kv_evictions kv2"
      "ek_frames_before_finish (encoder_kv_trim_tail kv2) = ek_frames_before_finish kv2"
      "ek_frames_at_finish (encoder_kv_trim_tail kv2) = ek_frames_at_finish kv2"
      "ek_frames_at_finish_exec (encoder_kv_trim_tail kv2) = ek_frames_at_finish_exec kv2"
    by (simp_all add: encoder_kv_trim_tail_def Let_def)
  show ?thesis using inv ex e n le t f unfolding enc_inv_def o
    by (cases final) (auto simp: kv2 executed_def)
qed

lemma encoder_kv_run_ok:
  assumes inv: "enc_inv cfg sig kv" and tot: "gpu_total gpu" and n: "1 \<le> n" "n \<le> 128"
    and le: "ek_emitted kv + n \<le> enc_frames_realizable (int (length sig))" and b: "int (length sig) < 2 ^ 62"
  shows "\<exists>kv1. encoder_kv_run cfg gpu kv (ek_emitted kv) n final phys = (True, kv1) \<and>
     enc_inv cfg sig kv1 \<and> ek_emitted kv1 = ek_emitted kv + n \<and> ek_reusable kv1 = ek_reusable kv"
proof -
  have e: "0 \<le> ek_emitted kv" and st: "ek_stable_mel kv = int (length sig)"
    using inv by (simp_all add: enc_inv_def)
  have mel: "2 * (ek_emitted kv + n) \<le> int (length sig)"
    by (rule realizable_mel) (use e n le in auto)
  have "ek_emitted kv < 2 ^ 62" using mel n e b by simp
  then obtain plan where plan: "enc_kv_plan (ek_emitted kv) n 878 750 = Some plan"
      "ep_q_start plan = ek_emitted kv" "ep_n_new plan = n"
      "ep_conv_mel_start plan = max 0 (2 * (ek_emitted kv - 2))" "ep_conv_mel_end plan = 2 * (ek_emitted kv + n)"
      "ep_evicted plan = max 0 (ek_emitted kv + n - 750) - max 0 (ek_emitted kv - 750)"
    using plan_for [OF e n] by blast
  obtain kv1 where r: "run_encoder_kv_batch cfg gpu kv plan phys = (True, kv1)" "executed kv n kv1"
    using run_batch_ok [OF inv tot n(1) plan(2-6) mel] by blast
  let ?kv2 = "if final
       then kv1 \<lparr> ek_frames_at_finish := ek_frames_at_finish kv1 + n,
                  ek_frames_at_finish_exec := ek_frames_at_finish_exec kv1 + n \<rparr>
       else kv1 \<lparr> ek_frames_before_finish := ek_frames_before_finish kv1 + n \<rparr>"
  have "encoder_kv_run cfg gpu kv (ek_emitted kv) n final phys = (True, encoder_kv_trim_tail ?kv2)"
    unfolding encoder_kv_run_def plan(1) option.case plan(5) st
    using mel r(1) by (simp only: Let_def prod.case if_False if_True not_less [symmetric] not_True_eq_False)
  moreover have "ek_emitted (encoder_kv_trim_tail ?kv2) = ek_emitted kv + n"
    using r(2) by (simp add: executed_def)
  moreover have "ek_reusable (encoder_kv_trim_tail ?kv2) = ek_reusable kv"
    using r(2) by (simp add: executed_def encoder_kv_trim_tail_def Let_def)
  ultimately show ?thesis using executed_trim_inv [OF inv r(2) n(1) le refl] by metis
qed

section \<open>The driver\<close>

lemma batch_rows_bounds:
  assumes "0 < p" "p \<le> 128" "1 \<le> l" "l \<le> 128" "0 < rem" "0 \<le> e"
  shows "1 \<le> batch_rows p l e rem" "batch_rows p l e rem \<le> 128" "batch_rows p l e rem \<le> rem"
    and "batch_rows p l e rem \<le> l"
proof -
  have m: "0 \<le> e mod p" "e mod p < p" using assms(1) by simp_all
  then have i: "i32 (e mod p) = e mod p" using assms(2) by (intro i32_id) auto
  have "1 \<le> p - e mod p" "p - e mod p \<le> 128" using m assms(2) by linarith+
  then have r: "1 \<le> min (min l (p - e mod p)) rem" "min (min l (p - e mod p)) rem \<le> 128"
    using assms by (auto simp: min_def)
  then have "i32 (min (min l (p - e mod p)) rem) = min (min l (p - e mod p)) rem" by (intro i32_id) auto
  then have eq: "batch_rows p l e rem = min (min l (p - e mod p)) rem" by (simp add: batch_rows_def i Let_def)
  show "1 \<le> batch_rows p l e rem" "batch_rows p l e rem \<le> 128" "batch_rows p l e rem \<le> rem"
    "batch_rows p l e rem \<le> l"
    unfolding eq using r assms(4) by linarith+
qed

lemma next_drive_step_ok:
  assumes "config_ok cfg" "0 \<le> e"
  shows "next_drive_step cfg r final e t \<noteq> Fail"
    and "next_drive_step cfg r final e t = Run n p w \<Longrightarrow> 1 \<le> n \<and> n \<le> 128 \<and> e + n \<le> t"
    and "final \<Longrightarrow> e < t \<Longrightarrow> next_drive_step cfg r final e t \<noteq> Stop"
proof -
  have s: "1 \<le> sched_logical (cfg_schedule cfg)" "sched_logical (cfg_schedule cfg) \<le> 128"
      "0 < sched_physical (cfg_schedule cfg)" "sched_physical (cfg_schedule cfg) \<le> 128"
      "0 < cfg_finish_physical cfg" "cfg_finish_physical cfg \<le> 128"
    using assms(1) by (auto simp: config_ok_def schedule_ok_def)
  have b: "e < t \<longrightarrow> 1 \<le> batch_rows P L e (t - e) \<and> batch_rows P L e (t - e) \<le> 128 \<and> batch_rows P L e (t - e) \<le> t - e"
    if "0 < P" "P \<le> 128" "1 \<le> L" "L \<le> 128" for P L
    using batch_rows_bounds [OF that, of "t - e" e] assms(2) by simp
  have f: "1 \<le> cfg_finish_physical cfg" using s(5) by simp
  note b1 = b [OF s(3,4,1,2)] and b2 = b [OF s(5,6) f s(6)]
  show "next_drive_step cfg r final e t \<noteq> Fail"
    "next_drive_step cfg r final e t = Run n p w \<Longrightarrow> 1 \<le> n \<and> n \<le> 128 \<and> e + n \<le> t"
    "final \<Longrightarrow> e < t \<Longrightarrow> next_drive_step cfg r final e t \<noteq> Stop"
    using b1 b2 by (auto simp: next_drive_step_def Let_def split: if_splits)
qed

lemma warmup_inv: "enc_inv cfg sig kv \<Longrightarrow> enc_inv cfg sig (if w then kv \<lparr> ek_warmup_frames := 128 \<rparr> else kv)"
  by (simp add: enc_inv_def)

lemma encoder_kv_drive_ok:
  assumes "config_ok cfg" "gpu_total gpu" "int (length sig) < 2 ^ 62" "enc_inv cfg sig kv"
  shows "\<exists>kv1. encoder_kv_drive cfg gpu final kv = (True, kv1) \<and> enc_inv cfg sig kv1 \<and>
     ek_reusable kv1 = ek_reusable kv \<and>
     next_drive_step cfg (ek_reusable kv) final (ek_emitted kv1) (enc_frames_realizable (int (length sig))) = Stop"
  using assms
proof (induction cfg gpu final kv rule: encoder_kv_drive.induct)
  case (1 cfg gpu final kv)
  let ?t = "enc_frames_realizable (int (length sig))"
  have f: "ek_stable_mel kv = int (length sig)" "0 \<le> ek_emitted kv"
    using "1.prems"(4) by (simp_all add: enc_inv_def)
  show ?case
  proof (cases "next_drive_step cfg (ek_reusable kv) final (ek_emitted kv) ?t")
    case Stop
    then show ?thesis using "1.prems"(4) f by (subst encoder_kv_drive.simps) simp
  next
    case Fail
    then show ?thesis using next_drive_step_ok(1) [OF "1.prems"(1) f(2)] by simp
  next
    case (Run n p w)
    let ?kv1 = "if w then kv \<lparr> ek_warmup_frames := 128 \<rparr> else kv"
    have ru: "ek_reusable ?kv1 = ek_reusable kv" by simp
    have n: "1 \<le> n \<and> n \<le> 128 \<and> ek_emitted kv + n \<le> ?t"
      using next_drive_step_ok(2) [OF "1.prems"(1) f(2) Run] .
    have em: "ek_emitted ?kv1 = ek_emitted kv" by simp
    obtain kv2 where r: "encoder_kv_run cfg gpu ?kv1 (ek_emitted kv) n final p = (True, kv2)" "enc_inv cfg sig kv2"
        "ek_reusable kv2 = ek_reusable kv"
      using encoder_kv_run_ok [OF warmup_inv [OF "1.prems"(4), of w] "1.prems"(2), of n final p] n "1.prems"(3)
      unfolding em ru by auto
    have "encoder_kv_drive cfg gpu final kv = encoder_kv_drive cfg gpu final kv2"
      using Run r(1) f(1) by (subst encoder_kv_drive.simps) simp
    then show ?thesis
      using "1.IH" [OF Run [folded f(1)] refl r(1) [symmetric] refl "1.prems"(1-3) r(2)] r(3) by simp
  qed
qed

section \<open>The graphs submitted do not depend on the feed plan\<close>

lemma enc_core_upd:
  "enc_core (kv \<lparr> ek_device := d, ek_out_ring := r \<rparr>) = (enc_core kv) \<lparr> ek_device := d, ek_out_ring := r \<rparr>"
  "enc_core (kv \<lparr> ek_warmup_frames := w \<rparr>) = (enc_core kv) \<lparr> ek_warmup_frames := w \<rparr>"
  "enc_core (kv \<lparr> ek_frames_before_finish := x \<rparr>) = (enc_core kv) \<lparr> ek_frames_before_finish := x \<rparr>"
  by (simp_all add: enc_core_def)

lemma steady_core:
  assumes "enc_core a = enc_core b" "steady_window a (ep_q_start plan) = steady_window b (ep_q_start plan)"
  shows "enc_core (snd (run_encoder_steady_batch gpu a plan)) = enc_core (snd (run_encoder_steady_batch gpu b plan))"
  using assms(1) unfolding run_encoder_steady_batch_def assms(2) enc_core_eqD(2) [OF assms(1)] Let_def
  by (simp add: enc_core_eqD(4) [OF assms(1)] enc_core_upd split: option.split prod.split)

lemma block_finish_core:
  assumes "enc_core a = enc_core b"
  shows "enc_core (snd (block_finish cfg gpu a plan p d outs m)) = enc_core (snd (block_finish cfg gpu b plan p d outs m))"
proof -
  note q = enc_core_eqD [OF assms]
  have d2h: "ek_enc_out_d2h_bytes kv = ek_enc_out_d2h_bytes (enc_core kv)" for kv :: "('a, 'b, 'c) enc_state"
    by (simp add: enc_core_def)
  let ?k1 = "\<lambda>kv. kv \<lparr> ek_device := d,
       ek_enc_accum := (if cfg_want_ring cfg then ek_enc_accum kv else ek_enc_accum kv @ take (nat (ep_n_new plan)) outs),
       ek_enc_out_d2h_bytes := (if cfg_want_ring cfg then ek_enc_out_d2h_bytes kv
                                else ek_enc_out_d2h_bytes kv + ep_n_new plan * 1280 * 4) \<rparr>"
  have k1: "enc_core (?k1 kv) = ?k1 (enc_core kv)" for kv :: "('a, 'b, 'c) enc_state" by (simp add: enc_core_def)
  let ?k3 = "\<lambda>kv. kv \<lparr> ek_kv_materialized := ek_kv_materialized kv + m,
       ek_padding_evaluated := ek_padding_evaluated kv + (p - ep_n_new plan),
       ek_peak_output := max (ek_peak_output kv) (int (length (ek_enc_accum kv))) \<rparr>"
  have k3: "enc_core (?k3 kv) = ?k3 (enc_core kv)" for kv :: "('a, 'b, 'c) enc_state" by (simp add: enc_core_def)
  have k2: "enc_core (kv \<lparr> ek_out_ring := r \<rparr>) = (enc_core kv) \<lparr> ek_out_ring := r \<rparr>"
    for r and kv :: "('a, 'b, 'c) enc_state" by (simp add: enc_core_def)
  have e1: "enc_core (?k1 a) = enc_core (?k1 b)" unfolding k1 assms ..
  have eq: "snd (block_finish cfg gpu kv plan p d outs m) =
     (case copy_chunk_to_enc_out_ring cfg gpu d (ek_out_ring kv) outs (ep_q_start plan) (ep_n_new plan) of
        None \<Rightarrow> ?k1 kv
      | Some ring \<Rightarrow> ?k3 (note_execution (?k1 kv \<lparr> ek_out_ring := ring \<rparr>) plan p))" for kv :: "('a, 'b, 'c) enc_state"
    by (simp add: block_finish_def Let_def split: option.split)
  show ?thesis unfolding eq q(4)
  proof (cases "copy_chunk_to_enc_out_ring cfg gpu d (ek_out_ring b) outs (ep_q_start plan) (ep_n_new plan)")
    case None
    then show "enc_core (case copy_chunk_to_enc_out_ring cfg gpu d (ek_out_ring b) outs (ep_q_start plan) (ep_n_new plan) of
        None \<Rightarrow> ?k1 a | Some ring \<Rightarrow> ?k3 (note_execution (?k1 a \<lparr> ek_out_ring := ring \<rparr>) plan p)) =
      enc_core (case copy_chunk_to_enc_out_ring cfg gpu d (ek_out_ring b) outs (ep_q_start plan) (ep_n_new plan) of
        None \<Rightarrow> ?k1 b | Some ring \<Rightarrow> ?k3 (note_execution (?k1 b \<lparr> ek_out_ring := ring \<rparr>) plan p))"
      using e1 by (simp only: option.case)
  next
    case (Some r)
    show "enc_core (case copy_chunk_to_enc_out_ring cfg gpu d (ek_out_ring b) outs (ep_q_start plan) (ep_n_new plan) of
        None \<Rightarrow> ?k1 a | Some ring \<Rightarrow> ?k3 (note_execution (?k1 a \<lparr> ek_out_ring := ring \<rparr>) plan p)) =
      enc_core (case copy_chunk_to_enc_out_ring cfg gpu d (ek_out_ring b) outs (ep_q_start plan) (ep_n_new plan) of
        None \<Rightarrow> ?k1 b | Some ring \<Rightarrow> ?k3 (note_execution (?k1 b \<lparr> ek_out_ring := ring \<rparr>) plan p))"
      unfolding Some option.case k3 enc_core_simps(1) k2 e1 ..
  qed
qed

lemma run_batch_core:
  assumes "enc_core a = enc_core b"
    and "steady_window a (ep_q_start plan) = steady_window b (ep_q_start plan)"
    and "\<And>p. block_input cfg a plan p = block_input cfg b plan p"
  shows "enc_core (snd (run_encoder_kv_batch cfg gpu a plan phys)) = enc_core (snd (run_encoder_kv_batch cfg gpu b plan phys))"
  using steady_core [OF assms(1,2), of gpu] block_finish_core [OF assms(1), of cfg gpu plan] assms(1)
  unfolding run_encoder_kv_batch_def Let_def assms(3) enc_core_eqD(2,3) [OF assms(1)]
  by (simp split: option.split prod.split)

lemma encoder_kv_run_core:
  assumes a: "enc_inv cfg sig a" and b: "enc_inv cfg (sig @ ys) b" and core: "enc_core a = enc_core b"
    and tot: "gpu_total gpu" and n: "1 \<le> n" "n \<le> 128"
    and le: "ek_emitted a + n \<le> enc_frames_realizable (int (length sig))" and bd: "int (length sig) < 2 ^ 62"
  shows "enc_core (snd (encoder_kv_run cfg gpu a (ek_emitted a) n False phys)) =
         enc_core (snd (encoder_kv_run cfg gpu b (ek_emitted a) n False phys))"
proof -
  let ?e = "ek_emitted a"
  have e: "0 \<le> ?e" and sta: "ek_stable_mel a = int (length sig)" and stb: "ek_stable_mel b = int (length (sig @ ys))"
    and eb: "ek_emitted b = ?e"
    using a b enc_core_eqD(1) [OF core] by (simp_all add: enc_inv_def)
  have mel: "2 * (?e + n) \<le> int (length sig)" by (rule realizable_mel) (use e n le in auto)
  then have melb: "2 * (ek_emitted b + n) \<le> int (length (sig @ ys))" using eb by simp
  have "?e < 2 ^ 62" using mel n e bd by simp
  then obtain plan where plan: "enc_kv_plan ?e n 878 750 = Some plan"
      "ep_q_start plan = ?e" "ep_n_new plan = n"
      "ep_conv_mel_start plan = max 0 (2 * (?e - 2))" "ep_conv_mel_end plan = 2 * (?e + n)"
      "ep_evicted plan = max 0 (?e + n - 750) - max 0 (?e - 750)"
    using plan_for [OF e n] by blast
  obtain ka where ka: "run_encoder_kv_batch cfg gpu a plan phys = (True, ka)"
    using run_batch_ok [OF a tot n(1) plan(2-6) mel] by blast
  obtain kb where kb: "run_encoder_kv_batch cfg gpu b plan phys = (True, kb)"
    using run_batch_ok [OF b tot n(1) plan(2-6) [folded eb] melb] by blast
  have bi: "block_input cfg a plan p = block_input cfg b plan p" for p
    unfolding block_input_ok [OF a plan(2,4,5) mel]
      block_input_ok [OF b plan(2) [folded eb] plan(4) [folded eb] plan(5) [folded eb] melb] eb
      block_window_append [OF mel] ..
  have "enc_core ka = enc_core kb"
  proof (cases "ek_reusable a \<and> cfg_want_ring cfg \<and> n = 4 \<and> (if 0 < phys then phys else sched_physical (cfg_schedule cfg)) = 4")
    case True
    then have m4: "2 * (?e + 4) \<le> int (length sig)" using mel by simp
    then have m4b: "2 * (ek_emitted b + 4) \<le> int (length (sig @ ys))" using eb by simp
    have "steady_window a ?e = steady_window b ?e"
      unfolding steady_window_ok [OF a m4] steady_window_ok [OF b m4b, unfolded eb] option.inject
    proof (rule map_cong [OF refl])
      fix i assume "i \<in> set [0..<12]"
      then have "nat (2 * (?e - 2) + int i) < length sig" using m4 e by auto
      then show "(let a = 2 * (?e - 2) + int i in if a < 0 then None else Some (sig ! nat a)) =
          (let a = 2 * (?e - 2) + int i in if a < 0 then None else Some ((sig @ ys) ! nat a))"
        by (simp add: Let_def nth_append)
    qed
    then show ?thesis using run_batch_core [OF core _ bi, of gpu phys] ka kb plan(2) by simp
  next
    case False
    then show ?thesis
      using ka kb block_finish_core [OF core, of cfg gpu plan] plan(3)
      unfolding run_encoder_kv_batch_def Let_def bi enc_core_eqD(2,3) [OF core]
      by (auto split: option.split_asm prod.split_asm) (metis snd_conv)+
  qed
  then have "enc_core (ka \<lparr> ek_frames_before_finish := ek_frames_before_finish ka + n \<rparr>) =
      enc_core (kb \<lparr> ek_frames_before_finish := ek_frames_before_finish kb + n \<rparr>)"
    unfolding enc_core_upd by (metis enc_core_def enc_state.select_convs(16) enc_state.surjective
        enc_state.update_convs)
  moreover have "\<not> ek_stable_mel a < ep_conv_mel_end plan" "\<not> ek_stable_mel b < ep_conv_mel_end plan"
    using sta stb mel plan(5) by simp_all
  ultimately show ?thesis unfolding encoder_kv_run_def plan(1) option.case ka kb
    by (simp add: Let_def)
qed

lemma next_drive_step_more:
  assumes "config_ok cfg" "next_drive_step cfg r False e t = Run n p w" "t \<le> t'"
  shows "next_drive_step cfg r False e t' = Run n p w"
proof -
  let ?l = "sched_logical (cfg_schedule cfg)" and ?p = "sched_physical (cfg_schedule cfg)"
  have "batch_rows ?p ?l e (t' - e) = batch_rows ?p ?l e (t - e)" if "?l \<le> t - e"
    using that assms(3) by (simp add: batch_rows_def Let_def min_def)
  then show ?thesis using assms(2,3) by (auto simp: next_drive_step_def Let_def split: if_splits)
qed

lemma encoder_kv_drive_Run:
  assumes "next_drive_step cfg (ek_reusable kv) final (ek_emitted kv) (enc_frames_realizable (ek_stable_mel kv)) = Run n p w"
    and "encoder_kv_run cfg gpu (if w then kv \<lparr> ek_warmup_frames := 128 \<rparr> else kv) (ek_emitted kv) n final p = (True, kv2)"
  shows "encoder_kv_drive cfg gpu final kv = encoder_kv_drive cfg gpu final kv2"
  using assms by (subst encoder_kv_drive.simps) simp

lemma encoder_kv_drive_prefix:
  assumes "config_ok cfg" "gpu_total gpu" "int (length (sig @ ys)) < 2 ^ 62"
    and "enc_inv cfg sig a" "enc_inv cfg (sig @ ys) b" "enc_core a = enc_core b"
  shows "\<exists>kw. encoder_kv_drive cfg gpu False b = encoder_kv_drive cfg gpu False kw \<and>
     enc_inv cfg (sig @ ys) kw \<and> enc_core kw = enc_core (snd (encoder_kv_drive cfg gpu False a))"
  using assms
proof (induction cfg gpu False a arbitrary: b rule: encoder_kv_drive.induct)
  case (1 cfg gpu a)
  let ?t = "enc_frames_realizable (int (length sig))" and ?t' = "enc_frames_realizable (int (length (sig @ ys)))"
  note core = "1.prems"(6)
  have fa: "ek_reusable b = ek_reusable a" "ek_stable_mel a = int (length sig)" "0 \<le> ek_emitted a"
    and fb: "ek_reusable b = ek_reusable a" "ek_stable_mel b = int (length (sig @ ys))"
    and eb: "ek_emitted b = ek_emitted a"
    using "1.prems"(4,5) enc_core_eqD(1,3) [OF core] by (simp_all add: enc_inv_def)
  have bd: "int (length sig) < 2 ^ 62" using "1.prems"(3) by simp
  show ?case
  proof (cases "next_drive_step cfg (ek_reusable a) False (ek_emitted a) ?t")
    case Stop
    then have "encoder_kv_drive cfg gpu False a = (True, a)" using fa by (subst encoder_kv_drive.simps) simp
    then show ?thesis using "1.prems"(5) core by auto
  next
    case Fail
    then show ?thesis using next_drive_step_ok(1) [OF "1.prems"(1) fa(3)] by simp
  next
    case (Run n p w)
    let ?w = "\<lambda>kv. if w then kv \<lparr> ek_warmup_frames := 128 \<rparr> else kv"
    have n: "1 \<le> n" "n \<le> 128" "ek_emitted a + n \<le> ?t"
      using next_drive_step_ok(2) [OF "1.prems"(1) fa(3) Run] by simp_all
    have tt: "?t \<le> ?t'" by (rule realizable_mono) simp
    have Runb: "next_drive_step cfg (ek_reusable b) False (ek_emitted b) ?t' = Run n p w"
      using next_drive_step_more [OF "1.prems"(1) Run tt] fa fb eb by simp
    have iv: "enc_inv cfg sig (?w a)" "enc_inv cfg (sig @ ys) (?w b)"
      using warmup_inv "1.prems"(4,5) by blast+
    have ce: "enc_core (?w a) = enc_core (?w b)" using core by (simp add: enc_core_upd)
    have em: "ek_emitted (?w a) = ek_emitted a" "ek_emitted (?w b) = ek_emitted a" using eb by simp_all
    obtain a2 where a2: "encoder_kv_run cfg gpu (?w a) (ek_emitted a) n False p = (True, a2)" "enc_inv cfg sig a2"
      using encoder_kv_run_ok [OF iv(1) "1.prems"(2) n(1,2) _ bd, of False p] n(3) em by auto
    obtain b2 where b2: "encoder_kv_run cfg gpu (?w b) (ek_emitted b) n False p = (True, b2)" "enc_inv cfg (sig @ ys) b2"
      using encoder_kv_run_ok [OF iv(2) "1.prems"(2) n(1,2) _ "1.prems"(3), of False p] n(3) em tt eb by auto
    have c2: "enc_core a2 = enc_core b2"
      using encoder_kv_run_core [OF iv ce "1.prems"(2) n(1,2) _ bd, of p] n(3) em a2(1) b2(1) eb by simp
    have da: "encoder_kv_drive cfg gpu False a = encoder_kv_drive cfg gpu False a2"
      using encoder_kv_drive_Run [OF Run [folded fa(2)] a2(1)] .
    have db: "encoder_kv_drive cfg gpu False b = encoder_kv_drive cfg gpu False b2"
      using encoder_kv_drive_Run [OF Runb [folded fb(2)] b2(1)] .
    show ?thesis unfolding da db
      by (rule "1.hyps" [OF Run [folded fa(2)] refl a2(1) [symmetric] refl "1.prems"(1-3) a2(2) b2(2) c2])
  qed
qed

section \<open>Pushes as chunks\<close>

text \<open>What one non-final drive over a whole Mel leaves.\<close>

definition enc_after ::
  "encoder_config \<Rightarrow> ('m, 'k, 'o) encoder_gpu \<Rightarrow> 'k \<Rightarrow> (int \<Rightarrow> 'o option) \<Rightarrow> 'm list \<Rightarrow> ('m, 'k, 'o) enc_state" where
  "enc_after cfg gpu dev ring sig = snd (encoder_kv_drive cfg gpu False
     ((encoder_kv_fresh dev ring) \<lparr> ek_reusable := cfg_want_ring cfg, ek_mel_tail := sig,
        ek_stable_mel := int (length sig) \<rparr>))"

definition as_pushed :: "encoder_config \<Rightarrow> ('m, 'k, 'o) enc_state \<Rightarrow> ('m, 'k, 'o) enc_state" where
  "as_pushed cfg kv = kv \<lparr> ek_reusable := cfg_want_ring cfg \<rparr>"

definition push_frames ::
  "encoder_config \<Rightarrow> ('m, 'k, 'o) encoder_gpu \<Rightarrow> ('m, 'k, 'o) enc_stream \<Rightarrow> 'm list \<Rightarrow> ('m, 'k, 'o) enc_stream option" where
  "push_frames cfg gpu es fs =
    (case encoder_stream_push_mel cfg gpu True es (Some fs) (es_stable_mel es) (int (length fs)) of
       (True, es') \<Rightarrow> Some es' | (False, es') \<Rightarrow> None)"

definition stream_good ::
  "encoder_config \<Rightarrow> ('m, 'k, 'o) encoder_gpu \<Rightarrow> 'k \<Rightarrow> (int \<Rightarrow> 'o option) \<Rightarrow> 'm list \<Rightarrow> ('m, 'k, 'o) enc_stream \<Rightarrow> bool" where
  "stream_good cfg gpu dev ring sig es \<longleftrightarrow>
     \<not> es_finalized es \<and> es_stable_mel es = int (length sig) \<and> es_mel_frames_received es = int (length sig) \<and>
     (sig \<noteq> [] \<longrightarrow> as_pushed cfg (es_kv es) = es_kv es) \<and>
     enc_inv cfg sig (as_pushed cfg (es_kv es)) \<and>
     enc_core (as_pushed cfg (es_kv es)) = enc_core (enc_after cfg gpu dev ring sig) \<and>
     next_drive_step cfg (cfg_want_ring cfg) False (ek_emitted (es_kv es))
       (enc_frames_realizable (int (length sig))) = Stop"

lemma enc_inv_append:
  assumes "enc_inv cfg sig kv"
  shows "enc_inv cfg (sig @ ys) (kv \<lparr> ek_mel_tail := ek_mel_tail kv @ ys,
           ek_stable_mel := ek_stable_mel kv + int (length ys) \<rparr>)"
proof -
  have e: "0 \<le> ek_emitted kv" and le: "ek_emitted kv \<le> enc_frames_realizable (int (length sig))"
    and tb: "ek_tail_base kv = max 0 (2 * (ek_emitted kv - 2))" using assms by (simp_all add: enc_inv_def)
  have "2 * ek_emitted kv \<le> int (length sig)" by (rule realizable_mel [OF e le]) simp
  then have "nat (ek_tail_base kv) - length sig = 0" using tb by auto
  moreover have "ek_emitted kv \<le> enc_frames_realizable (int (length sig) + int (length ys))"
    using le realizable_mono [of "int (length sig)" "int (length sig) + int (length ys)"] by simp
  ultimately show ?thesis using assms by (simp add: enc_inv_def)
qed

lemma enc_inv_initial:
  "enc_inv cfg sig ((encoder_kv_fresh dev ring) \<lparr> ek_reusable := cfg_want_ring cfg, ek_mel_tail := sig,
        ek_stable_mel := int (length sig) \<rparr>)"
  using realizable_nonneg [of "int (length sig)"] by (simp add: enc_inv_def encoder_kv_fresh_def)

lemma stream_good_create:
  "stream_good cfg gpu dev ring [] (encoder_stream_create dev ring)"
proof -
  have k: "as_pushed cfg (encoder_kv_fresh dev ring) = (encoder_kv_fresh dev ring)
      \<lparr> ek_reusable := cfg_want_ring cfg, ek_mel_tail := [], ek_stable_mel := int (length []) \<rparr>"
    by (simp add: as_pushed_def encoder_kv_fresh_def)
  have st: "next_drive_step cfg (cfg_want_ring cfg) False 0 (enc_frames_realizable 0) = Stop"
    by (simp add: next_drive_step_def enc_frames_realizable_def Let_def)
  then have "enc_after cfg gpu dev ring [] = as_pushed cfg (encoder_kv_fresh dev ring)"
    unfolding enc_after_def by (subst encoder_kv_drive.simps) (simp add: as_pushed_def encoder_kv_fresh_def)
  then show ?thesis using enc_inv_initial [of cfg "[]" dev ring] st
    by (simp add: stream_good_def encoder_stream_create_def as_pushed_def encoder_kv_fresh_def)
qed

lemma push_frames_good:
  assumes good: "stream_good cfg gpu dev ring sig es" and cfg: "config_ok cfg" and tot: "gpu_total gpu"
    and b: "int (length (sig @ ys)) < 2 ^ 62"
  shows "\<exists>es'. push_frames cfg gpu es ys = Some es' \<and> stream_good cfg gpu dev ring (sig @ ys) es'"
proof (cases "ys = []")
  case True
  then show ?thesis using good by (auto simp: push_frames_def encoder_stream_push_mel_def stream_good_def)
next
  case False
  let ?k = "as_pushed cfg (es_kv es)"
  let ?k' = "?k \<lparr> ek_mel_tail := ek_mel_tail ?k @ ys, ek_stable_mel := ek_stable_mel ?k + int (length ys) \<rparr>"
  let ?init = "\<lambda>s. (encoder_kv_fresh dev ring) \<lparr> ek_reusable := cfg_want_ring cfg, ek_mel_tail := s,
        ek_stable_mel := int (length s) \<rparr>"
  have iv: "enc_inv cfg sig ?k" and core: "enc_core ?k = enc_core (enc_after cfg gpu dev ring sig)"
    using good by (simp_all add: stream_good_def)
  have iv': "enc_inv cfg (sig @ ys) ?k'" by (rule enc_inv_append [OF iv])
  have rw: "ek_reusable ?k' = cfg_want_ring cfg" by (simp add: as_pushed_def)
  obtain k2 where k2: "encoder_kv_drive cfg gpu False ?k' = (True, k2)" "enc_inv cfg (sig @ ys) k2"
      "ek_reusable k2 = cfg_want_ring cfg"
      "next_drive_step cfg (cfg_want_ring cfg) False (ek_emitted k2)
         (enc_frames_realizable (int (length (sig @ ys)))) = Stop"
    using encoder_kv_drive_ok [OF cfg tot b iv', of False] unfolding rw by blast
  obtain kw where kw: "encoder_kv_drive cfg gpu False (?init (sig @ ys)) = encoder_kv_drive cfg gpu False kw"
      "enc_inv cfg (sig @ ys) kw" "enc_core kw = enc_core (enc_after cfg gpu dev ring sig)"
    using encoder_kv_drive_prefix [OF cfg tot b enc_inv_initial enc_inv_initial, of dev ring dev ring]
    by (auto simp: enc_after_def enc_core_def encoder_kv_fresh_def)
  have "enc_core ?k' = enc_core ?k" by (simp add: enc_core_def)
  then have cc: "enc_core kw = enc_core ?k'" using kw(3) core by simp
  have b0: "int (length ((sig @ ys) @ [])) < 2 ^ 62" using b by simp
  obtain kv where kv: "encoder_kv_drive cfg gpu False ?k' = encoder_kv_drive cfg gpu False kv"
      "enc_inv cfg (sig @ ys) kv" "enc_core kv = enc_core (snd (encoder_kv_drive cfg gpu False kw))"
    using encoder_kv_drive_prefix [OF cfg tot b0 kw(2), of ?k'] iv' cc by auto
  have rk: "ek_reusable kw = cfg_want_ring cfg" using enc_core_eqD(3) [OF cc] rw by simp
  obtain w2 where w2: "encoder_kv_drive cfg gpu False kw = (True, w2)"
      "next_drive_step cfg (cfg_want_ring cfg) False (ek_emitted w2)
         (enc_frames_realizable (int (length (sig @ ys)))) = Stop"
      "ek_reusable w2 = cfg_want_ring cfg"
    using encoder_kv_drive_ok [OF cfg tot b kw(2), of False] unfolding rk by blast
  have "ek_emitted kv = ek_emitted w2" "ek_reusable kv = cfg_want_ring cfg"
    using enc_core_eqD(1,3) [OF kv(3)] w2(1,3) by simp_all
  then have "encoder_kv_drive cfg gpu False kv = (True, kv)"
    using w2(2) kv(2) by (subst encoder_kv_drive.simps) (simp add: enc_inv_def)
  then have c2: "enc_core k2 = enc_core (enc_after cfg gpu dev ring (sig @ ys))"
    using k2(1) kv(1,3) kw(1) by (simp add: enc_after_def)
  have r2: "as_pushed cfg k2 = k2" using k2(3) by (simp add: as_pushed_def)
  have "encoder_stream_append cfg es ys = es \<lparr> es_kv := ?k', es_stable_mel := int (length (sig @ ys)),
      es_mel_frames_received := int (length (sig @ ys)) \<rparr>"
    using good by (simp add: encoder_stream_append_def as_pushed_def stream_good_def)
  then have "push_frames cfg gpu es ys = Some (es \<lparr> es_kv := k2, es_stable_mel := int (length (sig @ ys)),
      es_mel_frames_received := int (length (sig @ ys)) \<rparr>)"
    using good False k2(1)
    by (simp add: push_frames_def encoder_stream_push_mel_def stream_good_def encoder_stream_drive_kv_def)
  then show ?thesis using good k2 c2 r2 by (simp add: stream_good_def)
qed

interpretation enc: chunked "encoder_stream_create dev ring" "push_frames cfg gpu" "\<lambda>ys. ys"
  "\<lambda>sig. config_ok cfg \<and> gpu_total gpu \<and> int (length sig) < 2 ^ 62"
  "stream_good cfg gpu dev ring" "\<lambda>es. enc_core (as_pushed cfg (es_kv es))"
  "\<lambda>sig. enc_core (enc_after cfg gpu dev ring sig)"
  for cfg and gpu :: "('m, 'k, 'o) encoder_gpu" and dev ring
proof unfold_locales
  show "stream_good cfg gpu dev ring [] (encoder_stream_create dev ring)" by (rule stream_good_create)
next
  fix sig es ys
  assume "stream_good cfg gpu dev ring sig es"
    and "config_ok cfg \<and> gpu_total gpu \<and> int (length (sig @ ys)) < 2 ^ 62"
  then show "\<exists>es'. push_frames cfg gpu es ys = Some es' \<and> stream_good cfg gpu dev ring (sig @ ys) es'"
    by (intro push_frames_good) auto
qed (auto simp: stream_good_def)

section \<open>The host accumulation of the reference path\<close>

lemma note_execution_accum [simp]: "ek_enc_accum (note_execution kv plan p) = ek_enc_accum kv"
  by (simp add: note_execution_def Let_def)

lemma run_batch_accum:
  assumes "run_encoder_kv_batch cfg gpu kv plan phys = (True, kv1)" "gpu_rows gpu" "0 < ep_n_new plan"
  shows "int (length (ek_enc_accum kv1)) =
     int (length (ek_enc_accum kv)) + (if cfg_want_ring cfg then 0 else ep_n_new plan)"
proof (cases "ek_reusable kv \<and> cfg_want_ring cfg \<and> ep_n_new plan = 4 \<and>
    (if 0 < phys then phys else sched_physical (cfg_schedule cfg)) = 4")
  case True
  then show ?thesis using assms(1)
    by (auto simp: run_encoder_kv_batch_def run_encoder_steady_batch_def Let_def
        split: if_split_asm option.split_asm prod.split_asm)
next
  case False
  let ?p = "if 0 < phys then phys else sched_physical (cfg_schedule cfg)"
  obtain inp d outs m where x: "block_input cfg kv plan ?p = Some inp"
      "gpu_exec gpu (ek_device kv) inp = Some (d, outs, m)" "block_finish cfg gpu kv plan ?p d outs m = (True, kv1)"
    using assms(1) False unfolding run_encoder_kv_batch_def Let_def
    by (auto split: option.split_asm prod.split_asm)
  have "input_rows inp = ep_n_new plan" using x(1) by (auto simp: block_input_def Let_def split: if_splits)
  then have "int (length outs) = ep_n_new plan" using x(2) assms(2,3) unfolding gpu_rows_def
    by (metis less_imp_le max_absorb2)
  then show ?thesis using x(3) by (auto simp: block_finish_def Let_def split: option.splits)
qed

lemma trim_accum [simp]: "ek_enc_accum (encoder_kv_trim_tail kv) = ek_enc_accum kv"
  by (simp add: encoder_kv_trim_tail_def Let_def)

lemma encoder_kv_run_accum:
  assumes "encoder_kv_run cfg gpu kv q n final phys = (True, kv1)" "gpu_rows gpu"
  shows "int (length (ek_enc_accum kv1)) = int (length (ek_enc_accum kv)) + (if cfg_want_ring cfg then 0 else n)"
proof -
  obtain plan where p: "enc_kv_plan q n 878 750 = Some plan"
    using assms(1) by (auto simp: encoder_kv_run_def split: option.splits)
  obtain ok k where r: "run_encoder_kv_batch cfg gpu kv plan phys = (ok, k)" by fastforce
  have ok: "ok" using assms(1) p r by (auto simp: encoder_kv_run_def split: if_splits)
  then have "ek_enc_accum kv1 = ek_enc_accum k"
    using assms(1) p r by (auto simp: encoder_kv_run_def split: if_splits)
  then show ?thesis using run_batch_accum [of cfg gpu kv plan phys k] r ok enc_kv_plan_fields [OF p] assms(2) by simp
qed

lemma encoder_kv_drive_accum:
  assumes "encoder_kv_drive cfg gpu final kv = (True, kv1)" "gpu_rows gpu"
  shows "int (length (ek_enc_accum kv1)) = int (length (ek_enc_accum kv)) +
     (if cfg_want_ring cfg then 0 else ek_emitted kv1 - ek_emitted kv)"
  using assms
proof (induction cfg gpu final kv rule: encoder_kv_drive.induct)
  case (1 cfg gpu final kv)
  show ?case
  proof (cases "next_drive_step cfg (ek_reusable kv) final (ek_emitted kv) (enc_frames_realizable (ek_stable_mel kv))")
    case Stop
    then show ?thesis using "1.prems"(1) by (subst (asm) encoder_kv_drive.simps) simp
  next
    case Fail
    then show ?thesis using "1.prems"(1) by (subst (asm) encoder_kv_drive.simps) simp
  next
    case (Run n p w)
    let ?k = "if w then kv \<lparr> ek_warmup_frames := 128 \<rparr> else kv"
    obtain ok k2 where r: "encoder_kv_run cfg gpu ?k (ek_emitted kv) n final p = (ok, k2)" by fastforce
    have ok: "ok" using "1.prems"(1) Run r by (cases ok) (subst (asm) encoder_kv_drive.simps, simp)+
    have d: "encoder_kv_drive cfg gpu final k2 = (True, kv1)"
      using "1.prems"(1) encoder_kv_drive_Run [OF Run] r ok by simp
    have "int (length (ek_enc_accum k2)) = int (length (ek_enc_accum kv)) + (if cfg_want_ring cfg then 0 else n)"
      using encoder_kv_run_accum [of cfg gpu ?k "ek_emitted kv" n final p k2] r ok "1.prems"(2) by simp
    moreover have "ek_emitted k2 = ek_emitted kv + n" using encoder_kv_run_emitted [of cfg gpu ?k] r ok by simp
    ultimately show ?thesis using "1.IH" [OF Run refl r [symmetric] _ d "1.prems"(2)] ok by simp
  qed
qed

section \<open>Properties\<close>

text \<open>The device of the witnesses: it returns one unit output per requested row.\<close>

definition unit_gpu :: "(unit, unit, unit) encoder_gpu" where
  "unit_gpu = \<lparr> gpu_exec = (\<lambda>k inp. Some (k, replicate (nat (input_rows inp)) (), 0)), gpu_copy = (\<lambda>k. True) \<rparr>"

definition default_config :: "bool \<Rightarrow> encoder_config" where
  "default_config want = \<lparr> cfg_schedule = \<lparr> sched_logical = 4, sched_physical = 4 \<rparr>, cfg_finish_physical = 8,
     cfg_want_ring = want, cfg_segmented = (\<lambda>p. True) \<rparr>"

lemma unit_gpu_total [simp]: "gpu_total unit_gpu" by (simp add: gpu_total_def unit_gpu_def)

lemma unit_gpu_rows [simp]: "gpu_rows unit_gpu"
  by (simp add: gpu_rows_def unit_gpu_def)

lemma default_config_want [simp]: "cfg_want_ring (default_config want) = want"
  by (simp add: default_config_def)

lemma default_config_ok [simp]: "config_ok (default_config want)"
  by (simp add: config_ok_def default_config_def schedule_ok_def)

text \<open>C4: feed-plan invariance.  With a valid schedule and a device that does not fail, every push of
Mel frames is accepted, and the encoder state it leaves (device, rings, outputs and all work
counters; not the unused Mel tail and its peak) is that of a single push of all frames: the graphs
submitted and their inputs do not depend on how the stream was cut.\<close>

theorem encoder_feed_plan_invariant:
  assumes "config_ok cfg" "gpu_total gpu" "int (length (concat pushes)) < 2 ^ 62"
  shows "\<exists>es. feed_all (push_frames cfg gpu) (encoder_stream_create dev ring) pushes = Some es \<and>
     enc_core (as_pushed cfg (es_kv es)) = enc_core (enc_after cfg gpu dev ring (concat pushes))"
  using enc.observe_chunks [of cfg gpu pushes dev ring] assms by simp

lemma encoder_feed_plan_invariant_witness:
  "\<exists>es. feed_all (push_frames (default_config True) unit_gpu) (encoder_stream_create () (\<lambda>_. None))
       [replicate 255 (), [], replicate 20 ()] = Some es \<and>
     enc_core (as_pushed (default_config True) (es_kv es)) =
     enc_core (enc_after (default_config True) unit_gpu () (\<lambda>_. None) (replicate 275 ()))"
  using encoder_feed_plan_invariant [of "default_config True" unit_gpu "[replicate 255 (), [], replicate 20 ()]"
      "()" "\<lambda>_. None"] by (simp add: replicate_add [symmetric])

text \<open>C7: bounded, exactly-once work.  While Mel frames are pushed the retained Mel tail never exceeds
259 frames; finishing succeeds and leaves every realizable encoder frame emitted, each evaluated by
the transformer exactly once, with the cache evictions exactly those beyond the 750-frame window and
the frames before and at finish adding up.\<close>

theorem encoder_exactly_once:
  assumes "config_ok cfg" "gpu_total gpu" "int (length (concat pushes)) < 2 ^ 62"
    and "feed_all (push_frames cfg gpu) (encoder_stream_create dev ring) pushes = Some es" "concat pushes \<noteq> []"
  shows "length (ek_mel_tail (es_kv es)) \<le> 259 \<and>
     (\<exists>es'. encoder_stream_finish cfg gpu es = (True, es') \<and> es_finalized es' \<and>
        es_emitted es' = enc_frames_realizable (int (length (concat pushes))) \<and>
        ek_transformer_frames (es_kv es') = es_emitted es' \<and>
        ek_kv_appends (es_kv es') = es_emitted es' \<and>
        ek_kv_evictions (es_kv es') = max 0 (es_emitted es' - 750) \<and>
        ek_frames_before_finish (es_kv es') + ek_frames_at_finish (es_kv es') = es_emitted es')"
proof -
  let ?sig = "concat pushes" and ?kv = "es_kv es"
  let ?t = "enc_frames_realizable (int (length ?sig))"
  have "stream_good cfg gpu dev ring ?sig es"
    using enc.feed_all_good [OF enc.initial_good, of cfg gpu pushes dev ring] assms by auto
  then have g: "\<not> es_finalized es" "enc_inv cfg ?sig ?kv"
      "next_drive_step cfg (cfg_want_ring cfg) False (ek_emitted ?kv) ?t = Stop"
      "as_pushed cfg ?kv = ?kv"
    using assms(5) by (auto simp: stream_good_def)
  have e: "0 \<le> ek_emitted ?kv" using g(2) by (simp add: enc_inv_def)
  have "?t - ek_emitted ?kv < 128"
    using next_drive_step_ok(3) [OF assms(1) e] g(3) assms(1)
    by (auto simp: next_drive_step_def Let_def config_ok_def schedule_ok_def split: if_splits)
  moreover have "int (length ?sig) \<le> 2 * ?t + 1" by (auto simp: enc_frames_realizable_def)
  ultimately have tail: "length (ek_mel_tail ?kv) \<le> 259"
    using g(2) by (auto simp: enc_inv_def max_def)
  have rk: "ek_reusable ?kv = cfg_want_ring cfg" using g(4) by (metis as_pushed_def enc_state.select_convs(1)
        enc_state.update_convs(1) enc_state.surjective)
  obtain k2 where k2: "encoder_kv_drive cfg gpu True ?kv = (True, k2)" "enc_inv cfg ?sig k2"
      "next_drive_step cfg (cfg_want_ring cfg) True (ek_emitted k2) ?t = Stop"
    using encoder_kv_drive_ok [OF assms(1-3) g(2), of True] unfolding rk by blast
  have "0 \<le> ek_emitted k2" using k2(2) by (simp add: enc_inv_def)
  then have "\<not> ek_emitted k2 < ?t" using next_drive_step_ok(3) [OF assms(1), of "ek_emitted k2" True ?t] k2(3) by auto
  then have "ek_emitted k2 = ?t" using k2(2) by (auto simp: enc_inv_def)
  then show ?thesis using tail g(1) k2(1,2) by (simp add: encoder_stream_finish_def enc_inv_def)
qed

lemma encoder_exactly_once_witness:
  "\<exists>es es'. feed_all (push_frames (default_config True) unit_gpu) (encoder_stream_create () (\<lambda>_. None))
       [replicate 300 (), replicate 12 ()] = Some es \<and>
     encoder_stream_finish (default_config True) unit_gpu es = (True, es') \<and> es_emitted es' = 156"
proof -
  obtain es where es: "feed_all (push_frames (default_config True) unit_gpu) (encoder_stream_create () (\<lambda>_. None))
       [replicate 300 (), replicate 12 ()] = Some es"
    using encoder_feed_plan_invariant [of "default_config True" unit_gpu "[replicate 300 (), replicate 12 ()]" "()" "\<lambda>_. None"]
    by auto
  show ?thesis using encoder_exactly_once [OF default_config_ok unit_gpu_total _ es] es
    by (auto simp: enc_frames_realizable_def)
qed

text \<open>the device copy of new encoder frames into the 256-slot output ring keeps the ring a window
over the frames: a ring that holds the newest frames of the history holds, after the copy of up to
256 new frames, the newest frames of the extended history, across the wrap.\<close>

theorem copy_chunk_ring_window:
  assumes "ring_holds 256 ring hist" "0 < length outs" "length outs \<le> 256" "cfg_want_ring cfg" "gpu_total gpu"
  shows "\<exists>ring'. copy_chunk_to_enc_out_ring cfg gpu dev ring outs (int (length hist)) (int (length outs)) = Some ring' \<and>
     ring_holds 256 ring' (hist @ List.map Some outs)"
proof -
  have "ring_holds 256 (ring_write ring (enc_kv_ring_segments (int (length hist)) (int (length (List.map Some outs))) 256)
      (List.map Some outs)) (hist @ List.map Some outs)"
    by (rule enc_ring.write_holds [OF assms(1)]) (use assms(3) in auto)
  then show ?thesis using copy_rows_ring_write [of "int (length hist)" outs "int (length outs)" ring] assms
    by (simp add: copy_chunk_ok)
qed

lemma copy_chunk_ring_window_witness:
  "\<exists>ring'. copy_chunk_to_enc_out_ring (default_config True) unit_gpu () (\<lambda>_. None) [()] 0 1 = Some ring' \<and>
     ring_holds 256 ring' [Some ()]"
proof -
  have "ring_holds 256 (\<lambda>_. None) ([] :: unit option list)" by (auto simp: ring_holds_def)
  from copy_chunk_ring_window [OF this, of "[()]" "default_config True" unit_gpu "()"]
  show ?thesis by simp
qed

text \<open>The final drive of the batch encoder, for both settings of the output-ring flag.\<close>

lemma run_encoder_global_drive:
  assumes "config_ok cfg" "gpu_total gpu" "gpu_rows gpu" "int (length mel) < 2 ^ 31"
  shows "\<exists>kv1. encoder_kv_drive cfg gpu True ((encoder_kv_fresh dev ring)
       \<lparr> ek_mel_tail := mel, ek_stable_mel := int (length mel) \<rparr>) = (True, kv1) \<and>
     ek_emitted kv1 = enc_frames_realizable (int (length mel)) \<and>
     int (length (ek_enc_accum kv1)) = (if cfg_want_ring cfg then 0 else ek_emitted kv1)"
proof -
  let ?kv = "(encoder_kv_fresh dev ring) \<lparr> ek_mel_tail := mel, ek_stable_mel := int (length mel) \<rparr>"
  let ?t = "enc_frames_realizable (int (length mel))"
  have iv: "enc_inv cfg mel ?kv" using realizable_nonneg [of "int (length mel)"]
    by (simp add: enc_inv_def encoder_kv_fresh_def)
  have b: "int (length mel) < 2 ^ 62" using assms(4) by simp
  obtain kv1 where k: "encoder_kv_drive cfg gpu True ?kv = (True, kv1)" "enc_inv cfg mel kv1"
      "next_drive_step cfg (ek_reusable ?kv) True (ek_emitted kv1) ?t = Stop"
    using encoder_kv_drive_ok [OF assms(1,2) b iv, of True] by blast
  have "0 \<le> ek_emitted kv1" using k(2) by (simp add: enc_inv_def)
  then have "\<not> ek_emitted kv1 < ?t" using next_drive_step_ok(3) [OF assms(1), of "ek_emitted kv1" True ?t] k(3) by auto
  then have "ek_emitted kv1 = ?t" using k(2) by (auto simp: enc_inv_def)
  then show ?thesis using k(1) encoder_kv_drive_accum [OF k(1) assms(3)] by (simp add: encoder_kv_fresh_def)
qed

text \<open>the batch encoder uploads the largest multiple of four realizable frames, each with a row,
when the context does not mirror its output into the stream ring.\<close>

theorem run_encoder_global_rows:
  assumes "config_ok cfg" "gpu_total gpu" "gpu_rows gpu" "int (length mel) < 2 ^ 31" "8 \<le> length mel"
    and "\<not> cfg_want_ring cfg"
  shows "\<exists>used rows. run_encoder_global cfg gpu dev ring True True mel = EncodeDone used rows \<and>
     used = enc_frames_realizable (int (length mel)) div 4 * 4 \<and> int (length rows) = used"
proof -
  obtain kv1 where k: "encoder_kv_drive cfg gpu True ((encoder_kv_fresh dev ring)
       \<lparr> ek_mel_tail := mel, ek_stable_mel := int (length mel) \<rparr>) = (True, kv1)"
     "ek_emitted kv1 = enc_frames_realizable (int (length mel))"
     "int (length (ek_enc_accum kv1)) = (if cfg_want_ring cfg then 0 else ek_emitted kv1)"
    using run_encoder_global_drive [OF assms(1-4), of dev ring] by blast
  have r: "4 \<le> ek_emitted kv1" "ek_emitted kv1 < 2 ^ 31"
    unfolding k(2) using assms(4,5) by (auto simp: enc_frames_realizable_def)
  then have "i32 (ek_emitted kv1) = ek_emitted kv1" by simp
  moreover have "4 \<le> ek_emitted kv1 div 4 * 4" "ek_emitted kv1 div 4 * 4 \<le> ek_emitted kv1"
    using r by presburger+
  ultimately show ?thesis using k assms(5,6) by (auto simp: run_encoder_global_def Let_def)
qed

lemma run_encoder_global_rows_witness:
  "\<exists>used rows. run_encoder_global (default_config False) unit_gpu () (\<lambda>_. None) True True (replicate 312 ())
     = EncodeDone used rows \<and> used = 156 \<and> int (length rows) = used"
  using run_encoder_global_rows [of "default_config False" unit_gpu "replicate 312 ()" "()" "\<lambda>_. None"]
  by (simp add: enc_frames_realizable_def)

text \<open>C19: once a stream has switched the context's output ring on (nothing switches it off again), the
batch encoder on that context keeps no host rows but still uploads the used frames: the upload reads
an empty buffer.\<close>

theorem run_encoder_global_after_stream_undefined:
  assumes "config_ok cfg" "gpu_total gpu" "gpu_rows gpu" "int (length mel) < 2 ^ 31" "8 \<le> length mel"
    and "cfg_want_ring cfg"
  shows "run_encoder_global cfg gpu dev ring True True mel = EncodeUndefined"
proof -
  obtain kv1 where k: "encoder_kv_drive cfg gpu True ((encoder_kv_fresh dev ring)
       \<lparr> ek_mel_tail := mel, ek_stable_mel := int (length mel) \<rparr>) = (True, kv1)"
     "ek_emitted kv1 = enc_frames_realizable (int (length mel))"
     "int (length (ek_enc_accum kv1)) = (if cfg_want_ring cfg then 0 else ek_emitted kv1)"
    using run_encoder_global_drive [OF assms(1-4), of dev ring] by blast
  have r: "4 \<le> ek_emitted kv1" "ek_emitted kv1 < 2 ^ 31"
    unfolding k(2) using assms(4,5) by (auto simp: enc_frames_realizable_def)
  then have "i32 (ek_emitted kv1) = ek_emitted kv1" by simp
  moreover have "4 \<le> ek_emitted kv1 div 4 * 4" using r by presburger
  ultimately show ?thesis using k assms(5,6) by (auto simp: run_encoder_global_def Let_def)
qed

lemma run_encoder_global_after_stream_undefined_witness:
  "run_encoder_global (default_config True) unit_gpu () (\<lambda>_. None) True True (replicate 312 ()) = EncodeUndefined"
  by (rule run_encoder_global_after_stream_undefined) simp_all

end
