(* ===== verification/Tokens.thy ===== *)
theory Tokens
  imports Prelude
begin

text \<open>The detokenizer of \<open>src/src/voxtral.cpp\<close>: the base64 decoder of the vocabulary entries, the
memoised byte piece of a token, the batch detokenizer \<open>decode_tokens\<close> and the piece the
incremental detokenizer appends.  A \<open>std::string\<close> is a list of 8-bit characters.  Proved: the
decoder inverts base64 whatever line breaks the entry holds, and appending pieces one token at a
time is byte for byte \<open>decode_tokens\<close>, the cache never changing a result.\<close>

unbundle bit_operations_syntax

section \<open>Base64\<close>

definition base64_value :: "char \<Rightarrow> int" where
  "base64_value ch =
    (let c = of_char ch in
     if 65 \<le> c \<and> c \<le> 90 then c - 65
     else if 97 \<le> c \<and> c \<le> 122 then 26 + (c - 97)
     else if 48 \<le> c \<and> c \<le> 57 then 52 + (c - 48)
     else if c = 43 then 62
     else if c = 47 then 63
     else - 1)"

text \<open>\<open>acc\<close> is a 32-bit accumulator that is never cleared; only its low \<open>bits\<close> bits are pending.\<close>

fun base64_loop :: "string \<Rightarrow> int \<Rightarrow> nat \<Rightarrow> string" where
  "base64_loop [] acc bits = []"
| "base64_loop (ch # input) acc bits =
    (if ch = CHR ''='' then []
     else let val = base64_value ch in
          if val < 0 then base64_loop input acc bits
          else let acc1 = u32 (push_bit 6 acc) OR val;
                   bits1 = bits + 6
               in if 8 \<le> bits1
                  then char_of (drop_bit (bits1 - 8) acc1 AND 0xFF) # base64_loop input acc1 (bits1 - 8)
                  else base64_loop input acc1 bits1)"

definition base64_decode :: "string \<Rightarrow> string" where
  "base64_decode input = base64_loop input 0 0"

section \<open>Token pieces\<close>

record vocab =
  vb_num_special :: int
  vb_special_ranks :: "int list"
  vb_vocab_b64 :: "string list"
  vb_cache :: "int \<Rightarrow> string option"

text \<open>The bytes the cache is filled with on a miss.\<close>

definition token_bytes_uncached :: "vocab \<Rightarrow> int \<Rightarrow> string" where
  "token_bytes_uncached model token_id =
    (if 0 \<le> token_id \<and> vb_num_special model \<le> token_id \<and> token_id \<notin> set (vb_special_ranks model)
     then let vocab_id = token_id - vb_num_special model in
          if 0 \<le> vocab_id \<and> vocab_id < int (length (vb_vocab_b64 model))
          then base64_decode (vb_vocab_b64 model ! nat vocab_id) else []
     else [])"

definition token_bytes_for_id :: "vocab \<Rightarrow> int \<Rightarrow> string \<times> vocab" where
  "token_bytes_for_id model token_id =
    (case vb_cache model token_id of
       Some bytes \<Rightarrow> (bytes, model)
     | None \<Rightarrow> let decoded = token_bytes_uncached model token_id
               in (decoded, model \<lparr> vb_cache := (vb_cache model)(token_id \<mapsto> decoded) \<rparr>))"

fun decode_tokens_loop :: "vocab \<Rightarrow> int list \<Rightarrow> string \<Rightarrow> string \<times> vocab" where
  "decode_tokens_loop model [] out = (out, model)"
| "decode_tokens_loop model (token # tokens) out =
    (if token < vb_num_special model then decode_tokens_loop model tokens out
     else if token \<in> set (vb_special_ranks model) then decode_tokens_loop model tokens out
     else let (token_bytes, model1) = token_bytes_for_id model token
          in decode_tokens_loop model1 tokens (out @ token_bytes))"

definition decode_tokens :: "vocab \<Rightarrow> int list \<Rightarrow> string \<times> vocab" where
  "decode_tokens model tokens =
    (if vb_vocab_b64 model = [] then ([], model) else decode_tokens_loop model tokens [])"

definition token_piece :: "vocab option \<Rightarrow> int \<Rightarrow> string \<times> vocab option" where
  "token_piece model token_id =
    (case model of
       None \<Rightarrow> ([], None)
     | Some m \<Rightarrow> if vb_vocab_b64 m = [] then ([], Some m)
                 else let (bytes, m1) = token_bytes_for_id m token_id in (bytes, Some m1))"

section \<open>The cache\<close>

definition vocab_ok :: "vocab \<Rightarrow> bool" where
  "vocab_ok m \<longleftrightarrow> (\<forall>t bytes. vb_cache m t = Some bytes \<longrightarrow> bytes = token_bytes_uncached m t)"

text \<open>What a token contributes to the text.\<close>

definition token_text :: "vocab option \<Rightarrow> int \<Rightarrow> string" where
  "token_text model t = (case model of None \<Rightarrow> [] | Some m \<Rightarrow>
     if vb_vocab_b64 m = [] then [] else token_bytes_uncached m t)"

text \<open>Two vocabularies that differ in the cache only.\<close>

definition same_vocab :: "vocab \<Rightarrow> vocab \<Rightarrow> bool" where
  "same_vocab m n \<longleftrightarrow> vb_num_special n = vb_num_special m \<and> vb_special_ranks n = vb_special_ranks m \<and>
     vb_vocab_b64 n = vb_vocab_b64 m"

lemma same_vocab_refl [simp]: "same_vocab m m"
  by (simp add: same_vocab_def)

lemma same_vocab_trans: "same_vocab m n \<Longrightarrow> same_vocab n p \<Longrightarrow> same_vocab m p"
  by (simp add: same_vocab_def)

lemma same_vocab_bytes: "same_vocab m n \<Longrightarrow> token_bytes_uncached n t = token_bytes_uncached m t"
  by (simp add: same_vocab_def token_bytes_uncached_def Let_def)

lemma token_bytes_for_id_ok:
  assumes "vocab_ok m"
  shows "fst (token_bytes_for_id m t) = token_bytes_uncached m t"
    and "vocab_ok (snd (token_bytes_for_id m t))"
    and "same_vocab m (snd (token_bytes_for_id m t))"
  using assms
  by (auto simp: token_bytes_for_id_def vocab_ok_def same_vocab_def Let_def token_bytes_uncached_def
      split: option.splits if_splits)

lemma decode_tokens_loop_ok:
  assumes "vocab_ok m"
  shows "fst (decode_tokens_loop m ts out) = out @ concat (List.map (token_bytes_uncached m) ts) \<and>
    vocab_ok (snd (decode_tokens_loop m ts out)) \<and> same_vocab m (snd (decode_tokens_loop m ts out))"
  using assms
proof (induction ts arbitrary: m out)
  case Nil
  then show ?case by simp
next
  case (Cons t ts)
  show ?case
  proof (cases "t < vb_num_special m \<or> t \<in> set (vb_special_ranks m)")
    case True
    then have "token_bytes_uncached m t = []" by (auto simp: token_bytes_uncached_def)
    then show ?thesis using True Cons.IH [OF Cons.prems, of out] by auto
  next
    case False
    obtain b m1 where b: "token_bytes_for_id m t = (b, m1)" by force
    have f: "b = token_bytes_uncached m t" "vocab_ok m1" "same_vocab m m1"
      using token_bytes_for_id_ok [OF Cons.prems, of t] b by auto
    have "token_bytes_uncached m1 = token_bytes_uncached m" using same_vocab_bytes [OF f(3)] by blast
    then show ?thesis using False b f Cons.IH [OF f(2), of "out @ b"]
      by (auto intro: same_vocab_trans)
  qed
qed

lemma decode_tokens_text:
  assumes "vocab_ok m"
  shows "fst (decode_tokens m ts) = concat (List.map (token_text (Some m)) ts)"
    and "vocab_ok (snd (decode_tokens m ts))"
    and "same_vocab m (snd (decode_tokens m ts))"
proof -
  have t: "token_text (Some m) = (if vb_vocab_b64 m = [] then (\<lambda>t. []) else token_bytes_uncached m)"
    by (auto simp: token_text_def fun_eq_iff)
  show "fst (decode_tokens m ts) = concat (List.map (token_text (Some m)) ts)"
    "vocab_ok (snd (decode_tokens m ts))" "same_vocab m (snd (decode_tokens m ts))"
    using assms decode_tokens_loop_ok [OF assms, of ts "[]"]
    by (auto simp: decode_tokens_def t)
qed

definition model_ok :: "vocab option \<Rightarrow> bool" where
  "model_ok model \<longleftrightarrow> (\<forall>m. model = Some m \<longrightarrow> vocab_ok m)"

definition same_model :: "vocab option \<Rightarrow> vocab option \<Rightarrow> bool" where
  "same_model a b \<longleftrightarrow> (case a of None \<Rightarrow> b = None | Some m \<Rightarrow> (\<exists>n. b = Some n \<and> same_vocab m n))"

lemma same_model_refl [simp]: "same_model m m"
  by (cases m) (simp_all add: same_model_def)

lemma same_model_trans: "same_model a b \<Longrightarrow> same_model b c \<Longrightarrow> same_model a c"
  by (auto simp: same_model_def intro: same_vocab_trans split: option.splits)

lemma same_model_text: "same_model a b \<Longrightarrow> token_text b t = token_text a t"
  by (auto simp: same_model_def token_text_def same_vocab_bytes split: option.splits)
     (auto simp: same_vocab_def)

lemma token_piece_ok:
  assumes "model_ok model"
  shows "fst (token_piece model t) = token_text model t"
    and "model_ok (snd (token_piece model t))"
    and "same_model model (snd (token_piece model t))"
  using assms token_bytes_for_id_ok [of "the model" t]
  by (cases model; cases "token_bytes_for_id (the model) t";
      simp add: token_piece_def token_text_def model_ok_def same_model_def)+

text \<open>The incremental detokenizer: one piece per token, appended.\<close>

definition append_piece :: "string \<times> vocab option \<Rightarrow> int \<Rightarrow> string \<times> vocab option" where
  "append_piece st t = (let (piece, m1) = token_piece (snd st) t in (fst st @ piece, m1))"

lemma append_pieces_ok:
  assumes "model_ok model"
  shows "fst (fold (\<lambda>t st. append_piece st t) ts (out, model)) = out @ concat (List.map (token_text model) ts)"
  using assms
proof (induction ts arbitrary: out model)
  case (Cons t ts)
  obtain p m1 where p: "token_piece model t = (p, m1)" by force
  have f: "p = token_text model t" "model_ok m1" "same_model model m1"
    using token_piece_ok [OF Cons.prems, of t] p by auto
  have "token_text m1 = token_text model" using same_model_text [OF f(3)] by blast
  then show ?case using f Cons.IH [OF f(2)] by (simp add: append_piece_def p)
qed simp

section \<open>Base64 round trip\<close>

text \<open>The encoder of RFC 4648, the specification.\<close>

definition base64_alphabet :: string where
  "base64_alphabet = ''ABCDEFGHIJKLMNOPQRSTUVWXYZabcdefghijklmnopqrstuvwxyz0123456789+/''"

definition base64_char :: "int \<Rightarrow> char" where
  "base64_char v = base64_alphabet ! nat v"

fun base64_encode :: "string \<Rightarrow> string" where
  "base64_encode [] = []"
| "base64_encode [a] =
    [base64_char (of_char a div 4), base64_char (of_char a mod 4 * 16), CHR ''='', CHR ''='']"
| "base64_encode [a, b] =
    [base64_char (of_char a div 4), base64_char (of_char a mod 4 * 16 + of_char b div 16),
     base64_char (of_char b mod 16 * 4), CHR ''='']"
| "base64_encode (a # b # c # bs) =
    base64_char (of_char a div 4) # base64_char (of_char a mod 4 * 16 + of_char b div 16)
    # base64_char (of_char b mod 16 * 4 + of_char c div 64) # base64_char (of_char c mod 64)
    # base64_encode bs"

lemma base64_char_ok: "0 \<le> v \<Longrightarrow> v < 64 \<Longrightarrow> base64_value (base64_char v) = v \<and> base64_char v \<noteq> CHR ''=''"
proof -
  assume v: "0 \<le> v" "v < 64"
  have all: "\<forall>k < 64. base64_value (base64_alphabet ! k) = int k \<and> base64_alphabet ! k \<noteq> CHR ''=''"
    unfolding base64_alphabet_def base64_value_def Let_def by code_simp
  then show ?thesis using v by (simp add: base64_char_def nat_less_iff)
qed

lemma or_low: "0 \<le> v \<Longrightarrow> v < 64 \<Longrightarrow> u32 (push_bit 6 acc) OR v = u32 (64 * acc) + v"
proof -
  assume v: "0 \<le> v" "v < (64::int)"
  have low: "take_bit 6 v = v" using v by (simp add: take_bit_int_eq_self)
  have "u32 (push_bit 6 acc) AND v = 0"
  proof (rule bit_eqI)
    fix n
    have "bit v n \<Longrightarrow> n < 6" by (metis low bit_take_bit_iff)
    then show "bit (u32 (push_bit 6 acc) AND v) n = bit (0::int) n"
      by (auto simp: u32_def bit_and_iff bit_take_bit_iff bit_push_bit_iff)
  qed
  then have "u32 (push_bit 6 acc) + v = u32 (push_bit 6 acc) OR v" by (rule disjunctive_add_eq_or)
  then show ?thesis by (simp add: push_bit_eq_mult mult.commute)
qed

lemma and_255: "x AND 0xFF = x mod (256::int)"
proof -
  have "x AND mask 8 = x mod 2 ^ 8" by (simp only: take_bit_eq_mask [symmetric] take_bit_eq_mod)
  then show ?thesis by (simp add: mask_eq_exp_minus_1)
qed

text \<open>One decoded character: the accumulator modulo a power of two is what matters.\<close>

definition acc_step :: "int \<Rightarrow> int \<Rightarrow> int" where
  "acc_step acc v = u32 (64 * acc) + v"

lemma acc_step_mod: "k \<le> 32 \<Longrightarrow> acc_step acc v mod 2 ^ k = (64 * acc + v) mod 2 ^ k"
proof -
  assume k: "k \<le> 32"
  have "u32 (64 * acc) mod 2 ^ k = (64 * acc) mod 2 ^ k"
    using k by (simp add: u32_def take_bit_eq_mod mod_mod_cancel le_imp_power_dvd del: power_numeral)
  then show ?thesis by (metis acc_step_def mod_add_left_eq)
qed

lemma base64_loop_char:
  assumes "0 \<le> v" "v < 64"
  shows "base64_loop (base64_char v # input) acc bits =
    (if 2 \<le> bits
     then char_of (acc_step acc v div 2 ^ (bits - 2) mod 256) # base64_loop input (acc_step acc v) (bits - 2)
     else base64_loop input (acc_step acc v) (bits + 6))"
  using assms base64_char_ok [OF assms] or_low [OF assms, of acc]
  by (simp add: acc_step_def Let_def and_255 drop_bit_eq_div)

lemma base64_loop_pad: "base64_loop (CHR ''='' # input) acc bits = []"
  by simp

text \<open>The three bytes of a group.\<close>

lemma mod_div_mod: "x mod (m * 256) div m = x div m mod (256::int)" if "0 < m" for x m :: int
  using that by (simp add: zmod_zmult2_eq)

lemma group_byte:
  assumes "k \<le> 24" "2 ^ k = m" "m * 256 = n"
  shows "acc_step acc v div m mod 256 = (64 * acc + v) mod n div m"
proof -
  have "0 < m" using assms(2) by auto
  then have "acc_step acc v div m mod 256 = acc_step acc v mod (m * 256) div m"
    by (rule mod_div_mod [symmetric])
  also have "m * 256 = 2 ^ (k + 8)" using assms(2) by (simp add: power_add)
  also have "acc_step acc v mod 2 ^ (k + 8) = (64 * acc + v) mod 2 ^ (k + 8)"
    by (rule acc_step_mod) (use assms(1) in simp)
  also have "(2::int) ^ (k + 8) = n" using assms(2,3) by (simp add: power_add)
  finally show ?thesis .
qed

lemma char_range: "0 \<le> (of_char c :: int)" "(of_char c :: int) < 256"
proof -
  have "(of_char c :: int) = int (of_char c)" by (simp add: of_nat_of_char)
  then show "0 \<le> (of_char c :: int)" "(of_char c :: int) < 256" using nat_of_char_less_256 [of c] by simp_all
qed

lemma two_digits: "A mod m = p \<Longrightarrow> 0 \<le> w \<Longrightarrow> w < 64 \<Longrightarrow> 0 < m \<Longrightarrow> (64 * A + w) mod (64 * m) = 64 * p + w"
  for A m p w :: int
proof -
  assume a: "A mod m = p" "0 \<le> w" "w < 64" "0 < m"
  have p: "0 \<le> p" "p < m" using a by auto
  have "64 * A + w = (64 * p + w) + 64 * m * (A div m)"
    using a(1) mult_div_mod_eq [of m A] by (simp add: algebra_simps)
  then have "(64 * A + w) mod (64 * m) = (64 * p + w) mod (64 * m)" by (simp only: mod_mult_self2)
  also have "\<dots> = 64 * p + w" using a p by (intro mod_pos_pos_trivial) auto
  finally show ?thesis .
qed

lemma sextets:
  fixes a b :: int
  assumes "0 \<le> a" "a < 256" "0 \<le> b" "b < 256"
  shows "0 \<le> a div 4" "a div 4 < 64" "0 \<le> a mod 4 * 16 + b div 16" "a mod 4 * 16 + b div 16 < 64"
    "0 \<le> a mod 16 * 4 + b div 64" "a mod 16 * 4 + b div 64 < 64" "0 \<le> a mod 64" "a mod 64 < 64"
proof -
  have "b div 16 < 16" "b div 64 < 4" "0 \<le> b div 16" "0 \<le> b div 64" "a mod 4 < 4" "0 \<le> a mod 4"
    "a mod 16 < 16" "0 \<le> a mod 16" using assms by auto
  then show "0 \<le> a div 4" "a div 4 < 64" "0 \<le> a mod 4 * 16 + b div 16" "a mod 4 * 16 + b div 16 < 64"
    "0 \<le> a mod 16 * 4 + b div 64" "a mod 16 * 4 + b div 64 < 64" "0 \<le> a mod 64" "a mod 64 < 64"
    using assms by linarith+
qed

lemma byte1: "0 \<le> a \<Longrightarrow> a < 256 \<Longrightarrow> 0 \<le> b \<Longrightarrow> b < 256 \<Longrightarrow>
  acc_step (acc_step acc (a div 4)) (a mod 4 * 16 + b div 16) div 16 mod 256 = a"
proof -
  assume ab: "0 \<le> a" "a < 256" "0 \<le> b" "b < (256::int)"
  define A where "A = acc_step acc (a div 4)"
  note sx = sextets [OF ab]
  have "A mod 2 ^ 6 = (64 * acc + a div 4) mod 2 ^ 6" unfolding A_def by (rule acc_step_mod) simp
  also have "64 * acc + a div 4 = a div 4 + 2 ^ 6 * acc" by simp
  also have "(a div 4 + 2 ^ 6 * acc) mod 2 ^ 6 = a div 4 mod 2 ^ 6" by (rule mod_mult_self2)
  also have "a div 4 mod 2 ^ 6 = a div 4" by (rule mod_pos_pos_trivial) (use sx(1) sx(2) in simp_all)
  finally have A: "A mod 64 = a div 4" by simp
  have "acc_step A (a mod 4 * 16 + b div 16) div 16 mod 256
      = (64 * A + (a mod 4 * 16 + b div 16)) mod (64 * 64) div 16"
    by (rule group_byte [of 4]) simp_all
  also have "\<dots> = (64 * (a div 4) + (a mod 4 * 16 + b div 16)) div 16"
    by (subst two_digits [OF A sx(3) sx(4)]) (rule refl | simp)+
  also have "\<dots> = (16 * a + b div 16) div 16" (is "?l div _ = ?r div _")
  proof -
    have "?l = ?r" using mult_div_mod_eq [of 4 a] by linarith
    then show ?thesis by (rule arg_cong)
  qed
  also have "\<dots> = a" using ab by linarith
  finally show ?thesis by (simp add: A_def)
qed

lemma byte2: "0 \<le> b \<Longrightarrow> b < 256 \<Longrightarrow> 0 \<le> c \<Longrightarrow> c < 256 \<Longrightarrow>
  acc_step (acc_step acc (u * 16 + b div 16)) (b mod 16 * 4 + c div 64) div 4 mod 256 = b"
proof -
  assume ab: "0 \<le> b" "b < 256" "0 \<le> c" "c < (256::int)"
  define A where "A = acc_step acc (u * 16 + b div 16)"
  note sx = sextets [OF ab]
  have "A mod 2 ^ 4 = (64 * acc + (u * 16 + b div 16)) mod 2 ^ 4" unfolding A_def by (rule acc_step_mod) simp
  also have "64 * acc + (u * 16 + b div 16) = b div 16 + 2 ^ 4 * (4 * acc + u)" by simp
  also have "(b div 16 + 2 ^ 4 * (4 * acc + u)) mod 2 ^ 4 = b div 16 mod 2 ^ 4" by (rule mod_mult_self2)
  also have "b div 16 mod 2 ^ 4 = b div 16" by (rule mod_pos_pos_trivial) (use ab in simp_all)
  finally have A: "A mod 16 = b div 16" by simp
  have "acc_step A (b mod 16 * 4 + c div 64) div 4 mod 256
      = (64 * A + (b mod 16 * 4 + c div 64)) mod (64 * 16) div 4"
    by (rule group_byte [of 2]) simp_all
  also have "\<dots> = (64 * (b div 16) + (b mod 16 * 4 + c div 64)) div 4"
    by (subst two_digits [OF A sx(5) sx(6)]) (rule refl | simp)+
  also have "\<dots> = (4 * b + c div 64) div 4" (is "?l div _ = ?r div _")
  proof -
    have "?l = ?r" using mult_div_mod_eq [of 16 b] by linarith
    then show ?thesis by (rule arg_cong)
  qed
  also have "\<dots> = b" using ab by linarith
  finally show ?thesis by (simp add: A_def)
qed

lemma byte3: "0 \<le> c \<Longrightarrow> c < 256 \<Longrightarrow>
  acc_step (acc_step acc (u * 4 + c div 64)) (c mod 64) mod 256 = c"
proof -
  assume ab: "0 \<le> c" "c < (256::int)"
  define A where "A = acc_step acc (u * 4 + c div 64)"
  note sx = sextets [OF ab ab]
  have "A mod 2 ^ 2 = (64 * acc + (u * 4 + c div 64)) mod 2 ^ 2" unfolding A_def by (rule acc_step_mod) simp
  also have "64 * acc + (u * 4 + c div 64) = c div 64 + 2 ^ 2 * (16 * acc + u)" by simp
  also have "(c div 64 + 2 ^ 2 * (16 * acc + u)) mod 2 ^ 2 = c div 64 mod 2 ^ 2" by (rule mod_mult_self2)
  also have "c div 64 mod 2 ^ 2 = c div 64" by (rule mod_pos_pos_trivial) (use ab in simp_all)
  finally have A: "A mod 4 = c div 64" by simp
  have "acc_step A (c mod 64) mod 256 = (64 * A + c mod 64) mod (64 * 4)"
    using group_byte [of 0 1 256 A "c mod 64"] by simp
  also have "\<dots> = 64 * (c div 64) + c mod 64"
    by (subst two_digits [OF A sx(7) sx(8)]) (rule refl | simp)+
  also have "\<dots> = c" by (rule mult_div_mod_eq)
  finally show ?thesis by (simp add: A_def)
qed

text \<open>The four phases of a group.\<close>

lemma base64_phases:
  assumes "0 \<le> v" "v < 64"
  shows "base64_loop (base64_char v # input) acc 0 = base64_loop input (acc_step acc v) 6"
    and "base64_loop (base64_char v # input) acc 6
      = char_of (acc_step acc v div 16 mod 256) # base64_loop input (acc_step acc v) 4"
    and "base64_loop (base64_char v # input) acc 4
      = char_of (acc_step acc v div 4 mod 256) # base64_loop input (acc_step acc v) 2"
    and "base64_loop (base64_char v # input) acc 2
      = char_of (acc_step acc v mod 256) # base64_loop input (acc_step acc v) 0"
  by (simp_all add: base64_loop_char [OF assms] del: base64_loop.simps)

lemma encode1: "base64_loop (base64_encode [a]) acc 0 = [a]"
proof -
  note r = char_range [of a]
  note sx = sextets [OF r r]
  have z: "0 \<le> of_char a mod 4 * (16::int)" "of_char a mod 4 * 16 < (64::int)" by auto
  have b: "acc_step (acc_step acc (of_char a div 4)) (of_char a mod 4 * 16) div 16 mod 256 = (of_char a :: int)"
    using byte1 [OF r, of 0 acc, OF order_refl zero_less_numeral] unfolding div_0 add_0_right .
  show ?thesis
    by (simp only: base64_encode.simps base64_phases [OF sx(1,2)] base64_phases [OF z] b base64_loop_pad char_of_char)
qed

lemma encode2: "base64_loop (base64_encode [a, b]) acc 0 = [a, b]"
proof -
  note r = char_range [of a] and q = char_range [of b]
  note sx = sextets [OF r q]
  have z: "0 \<le> of_char b mod 16 * (4::int)" "of_char b mod 16 * 4 < (64::int)" by auto
  have c: "acc_step (acc_step (acc_step acc (of_char a div 4)) (of_char a mod 4 * 16 + of_char b div 16))
      (of_char b mod 16 * 4) div 4 mod 256 = (of_char b :: int)"
    using byte2 [OF q, of 0 "acc_step acc (of_char a div 4)" "of_char a mod 4", OF order_refl zero_less_numeral]
    unfolding div_0 add_0_right .
  show ?thesis
    by (simp only: base64_encode.simps base64_phases [OF sx(1,2)] base64_phases [OF sx(3,4)]
        base64_phases [OF z] byte1 [OF r q] c base64_loop_pad char_of_char)
qed

lemma encode3: "base64_loop (base64_encode (a # b # c # bs)) acc 0 =
  a # b # c # base64_loop (base64_encode bs)
    (acc_step (acc_step (acc_step (acc_step acc (of_char a div 4)) (of_char a mod 4 * 16 + of_char b div 16))
      (of_char b mod 16 * 4 + of_char c div 64)) (of_char c mod 64)) 0"
proof -
  note r = char_range [of a] and q = char_range [of b] and t = char_range [of c]
  note sx = sextets [OF r q] and sy = sextets [OF q t] and sz = sextets [OF t t]
  show ?thesis
    by (simp only: base64_encode.simps base64_phases [OF sx(1,2)] base64_phases [OF sx(3,4)]
        base64_phases [OF sy(5,6)] base64_phases [OF sz(7,8)] byte1 [OF r q] byte2 [OF q t] byte3 [OF t]
        char_of_char)
qed

lemma base64_loop_encode: "base64_loop (base64_encode bs) acc 0 = bs"
proof (induction bs arbitrary: acc rule: base64_encode.induct)
  case (2 a)
  show ?case by (rule encode1)
next
  case (3 a b)
  show ?case by (rule encode2)
next
  case (4 a b c bs)
  show ?case unfolding encode3 4 ..
qed simp

text \<open>Characters outside the alphabet are skipped.\<close>

definition base64_significant :: "char \<Rightarrow> bool" where
  "base64_significant ch \<longleftrightarrow> 0 \<le> base64_value ch \<or> ch = CHR ''=''"

lemma base64_loop_filter:
  "base64_loop (List.filter base64_significant input) acc bits = base64_loop input acc bits"
  by (induction input acc bits rule: base64_loop.induct) (auto simp: base64_significant_def Let_def)

text \<open>C20: Decoding a vocabulary entry gives back the bytes it encodes, whatever line breaks or other
characters outside the alphabet the entry contains: if the significant characters of \<open>input\<close> are the
RFC 4648 encoding of \<open>bytes\<close>, then \<open>base64_decode\<close> returns \<open>bytes\<close>, although its 32-bit accumulator
overflows and is never cleared.\<close>

theorem base64_decode_roundtrip:
  assumes "List.filter base64_significant input = base64_encode bytes"
  shows "base64_decode input = bytes"
  using base64_loop_filter [of input 0 0] assms by (simp add: base64_decode_def base64_loop_encode)

lemma base64_decode_roundtrip_witness:
  "base64_decode [CHR ''a'', CHR 0x0A, CHR ''G'', CHR ''k'', CHR ''=''] = ''hi''"
proof (rule base64_decode_roundtrip)
  show "List.filter base64_significant [CHR ''a'', CHR 0x0A, CHR ''G'', CHR ''k'', CHR ''=''] = base64_encode ''hi''"
    by code_simp
qed

section \<open>Detokenizing one token at a time\<close>

text \<open>Appending the piece of every token one at a time, which is how the streaming decoder builds
its text, gives byte for byte \<open>decode_tokens\<close> of the whole token list, for every vocabulary
including one without entries, for special and out-of-range ids, and whatever the piece cache already
holds.\<close>

theorem incremental_detokenizer_eq_batch:
  assumes "vocab_ok m"
  shows "fst (fold (\<lambda>t st. append_piece st t) tokens ([], Some m)) = fst (decode_tokens m tokens)"
  using append_pieces_ok [of "Some m" tokens "[]"] assms decode_tokens_text(1) [OF assms, of tokens]
  by (simp add: model_ok_def)

lemma incremental_detokenizer_eq_batch_witness:
  "fst (fold (\<lambda>t st. append_piece st t) [2, 3, 4, 9, 3]
     ([], Some \<lparr> vb_num_special = 2, vb_special_ranks = [2], vb_vocab_b64 = [''QQ=='', ''aGk='', ''LQ==''],
                vb_cache = [3 \<mapsto> ''hi''] \<rparr>)) = ''hi-hi''"
proof -
  let ?m = "\<lparr> vb_num_special = 2, vb_special_ranks = [2], vb_vocab_b64 = [''QQ=='', ''aGk='', ''LQ==''],
                vb_cache = [3 \<mapsto> ''hi''] \<rparr>"
  have h: "token_bytes_uncached ?m 3 = ''hi''" by code_simp
  have d: "token_bytes_uncached ?m 4 = ''-''" by code_simp
  have n: "token_bytes_uncached ?m 9 = []" by code_simp
  have "vocab_ok ?m" using h by (auto simp: vocab_ok_def split: if_splits)
  from incremental_detokenizer_eq_batch [OF this, of "[2, 3, 4, 9, 3]"] show ?thesis
    using decode_tokens_loop_ok [OF \<open>vocab_ok ?m\<close>, of "[2, 3, 4, 9, 3]" "[]"] h d n
    by (simp add: decode_tokens_def token_bytes_uncached_def)
qed

end
