(* ===== verification/DecoderRuntime.thy ===== *)
theory DecoderRuntime
  imports KvRing Tokens
begin

text \<open>The adapter and decoder entry points of the execution context (\<open>src/src/voxtral.cpp\<close>): the
256-slot audio-embedding ring the incremental adapter writes, the prefill and the single-token step
over the decoder cache, their incremental wrappers, and the batch tail
\<open>run_adapter_and_decode_realtime\<close>.  The ggml graphs are a parameter, one function per graph family,
over an opaque device memory for the attention cache; the code's guards, cache plans, slot
arithmetic and loops are definitions.  Logits, timings and the rollover statistics are not
modelled.\<close>

section \<open>The graphs, a parameter\<close>

text \<open>A row of a device ring that was never written is \<^term>\<open>None\<close>.  Building, allocating and running
a graph fail together: the result is then \<^term>\<open>None\<close>, with whatever the device memory is
afterwards.  \<open>dg_step_fixed\<close> is the reusable step graph (is the cache full, cache slot, valid rows,
token, position, audio row), \<open>dg_step_dynamic\<close> the one rebuilt per step from the plan.\<close>

record ('o, 'a, 'c) decoder_gpu =
  dg_adapter_ring :: "'o option list \<Rightarrow> 'a option list \<times> bool"
  dg_adapter_linear :: "'o list \<Rightarrow> 'a list option"
  dg_prefill :: "'c \<Rightarrow> decoder_plan \<Rightarrow> int list \<Rightarrow> int list \<Rightarrow> 'a option list \<Rightarrow> 'c \<times> bool"
  dg_step_fixed :: "'c \<Rightarrow> bool \<Rightarrow> int \<Rightarrow> int \<Rightarrow> int \<Rightarrow> int \<Rightarrow> 'a option \<Rightarrow> 'c \<times> int option"
  dg_step_dynamic :: "'c \<Rightarrow> decoder_plan \<Rightarrow> int \<Rightarrow> int \<Rightarrow> 'a option \<Rightarrow> 'c \<times> int option"

section \<open>The context\<close>

text \<open>\<open>cx_audio_cap\<close> is \<open>dec_audio_cap\<close>: 0 while the decoder reads the linear \<open>decoder_memory\<close>, the
ring capacity while it reads the ring (\<open>dec_audio_src\<close> is set together with it).\<close>

record ('a, 'c) dec_context =
  cx_aemb_ring :: "int \<Rightarrow> 'a option"
  cx_audio_cap :: int
  cx_decoder_memory :: "'a list"
  cx_kv :: decoder_kv_ring
  cx_kv_capacity :: int
  cx_device :: 'c
  cx_force_dynamic :: bool
  cx_want_ring :: bool

definition clear_kv_cache :: "('a, 'c) dec_context \<Rightarrow> ('a, 'c) dec_context" where
  "clear_kv_cache ctx = ctx \<lparr> cx_kv := decoder_ring_cleared (cx_kv_capacity ctx) \<rparr>"

section \<open>The incremental adapter\<close>

definition adapter_encoder_rows :: "int \<Rightarrow> int \<Rightarrow> int list" where
  "adapter_encoder_rows group_start run =
    concat (List.map (\<lambda>i. List.map (\<lambda>j. i32 (((group_start + i) * 4 + j) mod 256)) [0..3]) [0..run - 1])"

definition adapter_audio_rows :: "int \<Rightarrow> int \<Rightarrow> int list" where
  "adapter_audio_rows group_start run = List.map (\<lambda>i. i32 ((group_start + i) mod 256)) [0..run - 1]"

definition set_rows :: "(int \<Rightarrow> 'a option) \<Rightarrow> int list \<Rightarrow> 'a option list \<Rightarrow> (int \<Rightarrow> 'a option)" where
  "set_rows ring slots rows = fold (\<lambda>(k, v) r. r(k := v)) (zip slots rows) ring"

function adapter_commit_loop ::
  "('o, 'a, 'c) decoder_gpu \<Rightarrow> ('a, 'c) dec_context \<Rightarrow> (int \<Rightarrow> 'o option) \<Rightarrow> int \<Rightarrow> int \<Rightarrow> int
   \<Rightarrow> int \<times> ('a, 'c) dec_context" where
  "adapter_commit_loop gpu ctx enc_ring group_start n_groups groups_done =
    (if groups_done < n_groups
     then let run = (if 32 \<le> n_groups - groups_done then 32 else 1);
              start = group_start + groups_done;
              (rows, ok) = dg_adapter_ring gpu (List.map enc_ring (adapter_encoder_rows start run));
              ctx1 = ctx \<lparr> cx_aemb_ring := set_rows (cx_aemb_ring ctx) (adapter_audio_rows start run) rows \<rparr>
          in if \<not> ok then (- 1, ctx1)
             else adapter_commit_loop gpu ctx1 enc_ring group_start n_groups (groups_done + run)
     else (n_groups, ctx))"
  by auto
termination
  by (relation "measure (\<lambda>(gpu, ctx, enc_ring, g, n, d). nat (n - d))") (auto split: if_splits)

declare adapter_commit_loop.simps [simp del]

definition adapter_commit ::
  "('o, 'a, 'c) decoder_gpu \<Rightarrow> ('a, 'c) dec_context \<Rightarrow> (int \<Rightarrow> 'o option) \<Rightarrow> int \<Rightarrow> int
   \<Rightarrow> int \<times> ('a, 'c) dec_context" where
  "adapter_commit gpu ctx enc_ring group_start n_groups =
    (if n_groups \<le> 0 then (- 1, ctx)
     else adapter_commit_loop gpu ctx enc_ring group_start n_groups 0)"

section \<open>Prefill and step\<close>

text \<open>The column view both graphs take of the audio source: the ring, or the linear memory.\<close>

definition audio_column :: "('a, 'c) dec_context \<Rightarrow> int \<Rightarrow> 'a option" where
  "audio_column ctx col =
    (if 0 < cx_audio_cap ctx then cx_aemb_ring ctx col else vec_get (cx_decoder_memory ctx) col)"

definition run_decoder_prefill ::
  "('o, 'a, 'c) decoder_gpu \<Rightarrow> ('a, 'c) dec_context \<Rightarrow> int list \<Rightarrow> bool \<times> ('a, 'c) dec_context" where
  "run_decoder_prefill gpu ctx token_ids =
    (let n_tokens = int (length token_ids) in
     if 8192 < n_tokens then (False, ctx)
     else case decoder_kv_plan (cx_kv ctx) (rg_next (cx_kv ctx)) n_tokens of
       None \<Rightarrow> (False, ctx)
     | Some plan \<Rightarrow>
         let positions = List.map (\<lambda>i. i32 (dp_absolute_start plan + i)) [0..n_tokens - 1];
             audio = List.map (audio_column ctx) [0..n_tokens - 1];
             (dev, ok) = dg_prefill gpu (cx_device ctx) plan token_ids positions audio;
             ctx1 = ctx \<lparr> cx_device := dev \<rparr>
         in if \<not> ok then (False, ctx1)
            else (True, ctx1 \<lparr> cx_kv := decoder_kv_commit_plan (cx_kv ctx1) plan \<rparr>))"

definition run_decoder_step ::
  "('o, 'a, 'c) decoder_gpu \<Rightarrow> ('a, 'c) dec_context \<Rightarrow> int \<Rightarrow> int \<Rightarrow> int
   \<Rightarrow> int option \<times> ('a, 'c) dec_context" where
  "run_decoder_step gpu ctx token_id position audio_pos =
    (case decoder_kv_plan (cx_kv ctx) position 1 of
       None \<Rightarrow> (None, ctx)
     | Some plan \<Rightarrow>
         let (dev, token) =
               (if 0 < cx_audio_cap ctx \<and> \<not> cx_force_dynamic ctx
                then let full_cache = (dp_used_after plan = cx_kv_capacity ctx);
                         kv_slot = position mod cx_kv_capacity ctx;
                         audio_slot = audio_pos mod cx_audio_cap ctx
                     in dg_step_fixed gpu (cx_device ctx) full_cache kv_slot (i32 (dp_used_after plan))
                          token_id position (cx_aemb_ring ctx audio_slot)
                else let audio_col = (if 0 < cx_audio_cap ctx then audio_pos mod cx_audio_cap ctx else audio_pos)
                     in dg_step_dynamic gpu (cx_device ctx) plan token_id position (audio_column ctx audio_col));
             ctx1 = ctx \<lparr> cx_device := dev \<rparr>
         in case token of
              None \<Rightarrow> (None, ctx1)
            | Some tok \<Rightarrow> (Some tok, ctx1 \<lparr> cx_kv := decoder_kv_commit_plan (cx_kv ctx1) plan \<rparr>))"

definition decoder_begin_incremental :: "('a, 'c) dec_context \<Rightarrow> ('a, 'c) dec_context" where
  "decoder_begin_incremental ctx = (clear_kv_cache ctx) \<lparr> cx_audio_cap := 256 \<rparr>"

definition decoder_prefill_incremental ::
  "('o, 'a, 'c) decoder_gpu \<Rightarrow> ('a, 'c) dec_context \<Rightarrow> int list \<Rightarrow> bool \<times> ('a, 'c) dec_context" where
  "decoder_prefill_incremental gpu ctx token_ids =
    (if token_ids = [] then (False, ctx) else run_decoder_prefill gpu ctx token_ids)"

definition decoder_step_incremental ::
  "('o, 'a, 'c) decoder_gpu \<Rightarrow> ('a, 'c) dec_context \<Rightarrow> int \<Rightarrow> int \<Rightarrow> int option \<times> ('a, 'c) dec_context" where
  "decoder_step_incremental gpu ctx token_id position = run_decoder_step gpu ctx token_id position position"

definition decoder_reset_incremental :: "('a, 'c) dec_context \<Rightarrow> ('a, 'c) dec_context" where
  "decoder_reset_incremental ctx = clear_kv_cache (ctx \<lparr> cx_audio_cap := 0 \<rparr>)"

definition set_enc_out_ring_active :: "('a, 'c) dec_context \<Rightarrow> bool \<Rightarrow> ('a, 'c) dec_context" where
  "set_enc_out_ring_active ctx active = ctx \<lparr> cx_want_ring := active \<rparr>"

section \<open>The batch tail\<close>

definition prompt_tokens :: "int list" where
  "prompt_tokens = 1 # replicate (32 + 6) 32"

text \<open>\<open>run_adapter\<close>: the linear memory is allocated for \<open>enc_seq div 4\<close> embeddings.\<close>

definition run_adapter ::
  "('o, 'a, 'c) decoder_gpu \<Rightarrow> bool \<Rightarrow> ('a, 'c) dec_context \<Rightarrow> 'o list \<Rightarrow> (int \<times> ('a, 'c) dec_context) option" where
  "run_adapter gpu alloc_ok ctx encoder_output =
    (if \<not> alloc_ok then None
     else case dg_adapter_linear gpu encoder_output of
       None \<Rightarrow> None
     | Some embeddings \<Rightarrow> Some (int (length encoder_output) div 4, ctx \<lparr> cx_decoder_memory := embeddings \<rparr>))"

text \<open>The autoregressive loop: \<open>tokens\<close> is what was generated so far, the last one being \<open>token\<close>.\<close>

function decode_loop ::
  "('o, 'a, 'c) decoder_gpu \<Rightarrow> int \<Rightarrow> int \<Rightarrow> ('a, 'c) dec_context \<Rightarrow> int \<Rightarrow> int \<Rightarrow> int list
   \<Rightarrow> int list option \<times> ('a, 'c) dec_context" where
  "decode_loop gpu max_tokens n_audio ctx pos token tokens =
    (if pos < n_audio \<and> (max_tokens \<le> 0 \<or> int (length tokens) < max_tokens)
     then if token = 2 then (Some tokens, ctx)
          else case run_decoder_step gpu ctx token pos pos of
                 (None, ctx1) \<Rightarrow> (None, ctx1)
               | (Some tok, ctx1) \<Rightarrow> decode_loop gpu max_tokens n_audio ctx1 (pos + 1) tok (tokens @ [tok])
     else (Some tokens, ctx))"
  by auto
termination by (relation "measure (\<lambda>(gpu, m, n, ctx, pos, token, tokens). nat (n - pos))") auto

declare decode_loop.simps [simp del]

definition drop_trailing_eos :: "int list \<Rightarrow> int list" where
  "drop_trailing_eos tokens = (if tokens \<noteq> [] \<and> last tokens = 2 then butlast tokens else tokens)"

definition decode_realtime ::
  "('o, 'a, 'c) decoder_gpu \<Rightarrow> int \<Rightarrow> int \<Rightarrow> ('a, 'c) dec_context \<Rightarrow> int list option \<times> ('a, 'c) dec_context" where
  "decode_realtime gpu max_tokens n_audio ctx =
    (let L = int (length prompt_tokens) in
     if n_audio < L then (None, ctx)
     else case run_decoder_prefill gpu (clear_kv_cache ctx) (butlast prompt_tokens) of
       (False, ctx1) \<Rightarrow> (None, ctx1)
     | (True, ctx1) \<Rightarrow>
         (case run_decoder_step gpu ctx1 (last prompt_tokens) (L - 1) (L - 1) of
            (None, ctx2) \<Rightarrow> (None, ctx2)
          | (Some token, ctx2) \<Rightarrow>
              (case decode_loop gpu max_tokens n_audio ctx2 L token [token] of
                 (None, ctx3) \<Rightarrow> (None, ctx3)
               | (Some tokens, ctx3) \<Rightarrow> (Some (drop_trailing_eos tokens), ctx3))))"

record transcription =
  tr_text :: string
  tr_tokens :: "int list"

definition run_adapter_and_decode_realtime ::
  "('o, 'a, 'c) decoder_gpu \<Rightarrow> bool \<Rightarrow> int \<Rightarrow> vocab \<Rightarrow> ('a, 'c) dec_context \<Rightarrow> 'o list
   \<Rightarrow> transcription option \<times> vocab \<times> ('a, 'c) dec_context" where
  "run_adapter_and_decode_realtime gpu alloc_ok max_tokens model ctx encoder_output =
    (case run_adapter gpu alloc_ok ctx encoder_output of
       None \<Rightarrow> (None, model, ctx)
     | Some (n_audio, ctx1) \<Rightarrow>
         (case decode_realtime gpu max_tokens n_audio ctx1 of
            (None, ctx2) \<Rightarrow> (None, model, ctx2)
          | (Some tokens, ctx2) \<Rightarrow>
              let (text, model1) = decode_tokens model tokens
              in (Some \<lparr> tr_text = text, tr_tokens = tokens \<rparr>, model1, ctx2)))"

text \<open>\<open>voxtral_transcribe_encoder_output_internal\<close>: the host accumulation of a finish-only stream,
trimmed to whole groups.\<close>

definition transcribe_encoder_output ::
  "('o, 'a, 'c) decoder_gpu \<Rightarrow> bool \<Rightarrow> bool \<Rightarrow> int \<Rightarrow> vocab \<Rightarrow> ('a, 'c) dec_context \<Rightarrow> 'o list option \<Rightarrow> int
   \<Rightarrow> transcription option \<times> vocab \<times> ('a, 'c) dec_context" where
  "transcribe_encoder_output gpu is_offline alloc_ok max_tokens model ctx enc_output enc_frames =
    (case enc_output of
       None \<Rightarrow> (None, model, ctx)
     | Some rows \<Rightarrow>
         if is_offline \<or> enc_frames \<le> 0 then (None, model, ctx)
         else let used = enc_frames div 4 * 4
              in if used \<le> 0 \<or> \<not> alloc_ok then (None, model, ctx)
                 else run_adapter_and_decode_realtime gpu alloc_ok max_tokens model ctx (take (nat used) rows))"

end
