(* ===== verification/Sha256.thy ===== *)
theory Sha256
  imports Prelude
begin

text \<open>The incremental SHA-256 of \<open>src/src/voxtral-stream-diagnostics.h\<close>, word for word: the
compression function, \<open>update\<close> with its 64-byte buffer, and \<open>hex\<close>, which finalizes a copy.  Proved:
the digest is that of the padded whole message (FIPS 180-4), however the bytes were split over the
calls, so it satisfies the contract \<open>chunked\<close> of the prelude.  The bytes of \<open>buf\<close> beyond \<open>buf_len\<close>
are never read, so \<open>buf\<close> is the list of the valid ones.\<close>

unbundle bit_operations_syntax

type_synonym word32 = "32 word"
type_synonym byte = "8 word"

section \<open>The compression function\<close>

definition rotr :: "word32 \<Rightarrow> nat \<Rightarrow> word32" where
  "rotr x n = drop_bit n x OR push_bit (32 - n) x"

definition sha_init :: "word32 list" where
  "sha_init = [0x6a09e667, 0xbb67ae85, 0x3c6ef372, 0xa54ff53a, 0x510e527f, 0x9b05688c, 0x1f83d9ab, 0x5be0cd19]"

definition sha_k :: "word32 list" where
  "sha_k = [
    0x428a2f98,0x71374491,0xb5c0fbcf,0xe9b5dba5,0x3956c25b,0x59f111f1,0x923f82a4,0xab1c5ed5,
    0xd807aa98,0x12835b01,0x243185be,0x550c7dc3,0x72be5d74,0x80deb1fe,0x9bdc06a7,0xc19bf174,
    0xe49b69c1,0xefbe4786,0x0fc19dc6,0x240ca1cc,0x2de92c6f,0x4a7484aa,0x5cb0a9dc,0x76f988da,
    0x983e5152,0xa831c66d,0xb00327c8,0xbf597fc7,0xc6e00bf3,0xd5a79147,0x06ca6351,0x14292967,
    0x27b70a85,0x2e1b2138,0x4d2c6dfc,0x53380d13,0x650a7354,0x766a0abb,0x81c2c92e,0x92722c85,
    0xa2bfe8a1,0xa81a664b,0xc24b8b70,0xc76c51a3,0xd192e819,0xd6990624,0xf40e3585,0x106aa070,
    0x19a4c116,0x1e376c08,0x2748774c,0x34b0bcb5,0x391c0cb3,0x4ed8aa4a,0x5b9cca4f,0x682e6ff3,
    0x748f82ee,0x78a5636f,0x84c87814,0x8cc70208,0x90befffa,0xa4506ceb,0xbef9a3f7,0xc67178f2]"

definition be32 :: "byte \<Rightarrow> byte \<Rightarrow> byte \<Rightarrow> byte \<Rightarrow> word32" where
  "be32 b0 b1 b2 b3 = push_bit 24 (ucast b0) OR push_bit 16 (ucast b1) OR push_bit 8 (ucast b2) OR ucast b3"

text \<open>The message schedule: the first sixteen words, then each further word from the earlier ones.\<close>

definition schedule_first :: "byte list \<Rightarrow> word32 list" where
  "schedule_first p = List.map (\<lambda>i. be32 (p ! (i * 4)) (p ! (i * 4 + 1)) (p ! (i * 4 + 2)) (p ! (i * 4 + 3))) [0..<16]"

definition schedule_next :: "word32 list \<Rightarrow> nat \<Rightarrow> word32 list" where
  "schedule_next w i =
    (let s0 = rotr (w ! (i - 15)) 7 XOR rotr (w ! (i - 15)) 18 XOR drop_bit 3 (w ! (i - 15));
         s1 = rotr (w ! (i - 2)) 17 XOR rotr (w ! (i - 2)) 19 XOR drop_bit 10 (w ! (i - 2))
     in w @ [w ! (i - 16) + s0 + w ! (i - 7) + s1])"

definition schedule :: "byte list \<Rightarrow> word32 list" where
  "schedule p = fold (\<lambda>i w. schedule_next w i) [16..<64] (schedule_first p)"

fun sha_round :: "word32 \<times> word32 \<Rightarrow> word32 list \<Rightarrow> word32 list" where
  "sha_round (k, w) [a, b, c, d, e, f, g, hh] =
    (let S1 = rotr e 6 XOR rotr e 11 XOR rotr e 25;
         ch = (e AND f) XOR (NOT e AND g);
         t1 = hh + S1 + ch + k + w;
         S0 = rotr a 2 XOR rotr a 13 XOR rotr a 22;
         maj = (a AND b) XOR (a AND c) XOR (b AND c);
         t2 = S0 + maj
     in [t1 + t2, a, b, c, d + t1, e, f, g])"
| "sha_round _ other = other"

definition sha_block :: "word32 list \<Rightarrow> byte list \<Rightarrow> word32 list" where
  "sha_block h p =
    (let v = fold sha_round (zip sha_k (schedule p)) h
     in List.map (\<lambda>(x, y). x + y) (zip h v))"

section \<open>The incremental state\<close>

record sha_state =
  sh_h :: "word32 list"
  sh_len :: "64 word"
  sh_buf :: "byte list"

definition sha_reset :: sha_state where
  "sha_reset = \<lparr> sh_h = sha_init, sh_len = 0, sh_buf = [] \<rparr>"

function sha_update_loop :: "sha_state \<Rightarrow> byte list \<Rightarrow> sha_state" where
  "sha_update_loop s p =
    (if p = [] then s
     else let room = 64 - length (sh_buf s);
              count = min room (length p);
              buf = sh_buf s @ take count p;
              s1 = (if length buf = 64 then s \<lparr> sh_h := sha_block (sh_h s) buf, sh_buf := [] \<rparr>
                    else s \<lparr> sh_buf := buf \<rparr>)
          in if count = 0 then s else sha_update_loop s1 (drop count p))"
  by auto
termination by (relation "measure (\<lambda>(s, p). length p)") auto

declare sha_update_loop.simps [simp del]

definition sha_update :: "sha_state \<Rightarrow> byte list \<Rightarrow> sha_state" where
  "sha_update s data = sha_update_loop (s \<lparr> sh_len := sh_len s + of_nat (length data) \<rparr>) data"

text \<open>\<open>while (s.buf_len != 56) s.update(&zero, 1)\<close>.  Fewer than 64 zero bytes reach 56, so the loop is
given 64 rounds.\<close>

fun sha_pad_zero :: "nat \<Rightarrow> sha_state \<Rightarrow> sha_state" where
  "sha_pad_zero 0 s = s"
| "sha_pad_zero (Suc n) s = (if length (sh_buf s) = 56 then s else sha_pad_zero n (sha_update s [0]))"

definition bytes_be64 :: "64 word \<Rightarrow> byte list" where
  "bytes_be64 bits = List.map (\<lambda>i. ucast (drop_bit (56 - i * 8) bits)) [0..<8]"

definition hex_digit :: "word32 \<Rightarrow> char" where
  "hex_digit v = ''0123456789abcdef'' ! unat v"

definition hex_word :: "word32 \<Rightarrow> string" where
  "hex_word h = concat (List.map (\<lambda>j. let b = drop_bit (j * 8) h AND 0xff
                                    in [hex_digit (drop_bit 4 b), hex_digit (b AND 0xf)]) [3, 2, 1, 0])"

definition sha_finalize :: "sha_state \<Rightarrow> word32 list" where
  "sha_finalize s =
    (let bits = sh_len s * 8;
         s1 = sha_update s [0x80];
         s2 = sha_pad_zero 64 s1
     in sh_h (sha_update s2 (bytes_be64 bits)))"

definition sha_hex :: "sha_state \<Rightarrow> string" where
  "sha_hex s = concat (List.map hex_word (sha_finalize s))"

section \<open>The specification: the padded message in blocks\<close>

function blocks64 :: "byte list \<Rightarrow> byte list list" where
  "blocks64 m = (if length m < 64 then [] else take 64 m # blocks64 (drop 64 m))"
  by auto
termination by (relation "measure length") auto

declare blocks64.simps [simp del]

definition tail64 :: "byte list \<Rightarrow> byte list" where
  "tail64 m = drop (length m div 64 * 64) m"

definition sha_spec_state :: "byte list \<Rightarrow> word32 list" where
  "sha_spec_state m = fold (\<lambda>b h. sha_block h b) (blocks64 m) sha_init"

definition zeros_to_56 :: "nat \<Rightarrow> nat" where
  "zeros_to_56 n = (let r = n mod 64 in if r \<le> 56 then 56 - r else 120 - r)"

definition sha_padding :: "byte list \<Rightarrow> byte list" where
  "sha_padding m = 0x80 # replicate (zeros_to_56 (length m + 1)) 0 @ bytes_be64 (of_nat (length m) * 8)"

definition sha256_spec :: "byte list \<Rightarrow> string" where
  "sha256_spec m = concat (List.map hex_word (sha_spec_state (m @ sha_padding m)))"

section \<open>Correctness\<close>

lemma blocks64_append:
  assumes "length b = 64"
  shows "blocks64 (b @ m) = b # blocks64 m"
  using assms by (simp add: blocks64.simps [of "b @ m"])

lemma blocks64_short: "length m < 64 \<Longrightarrow> blocks64 m = []"
  by (simp add: blocks64.simps)

lemma tail64_short: "length m < 64 \<Longrightarrow> tail64 m = m"
  by (simp add: tail64_def)

lemma tail64_append: "length b = 64 \<Longrightarrow> tail64 (b @ m) = tail64 m"
  by (simp add: tail64_def div_add_self1)

lemma length_tail64: "length (tail64 m) = length m mod 64"
  by (simp add: tail64_def minus_div_mult_eq_mod)

text \<open>What has been absorbed: the whole blocks so far went through the compression function and the
rest is buffered.\<close>

definition absorbed :: "byte list \<Rightarrow> sha_state \<Rightarrow> bool" where
  "absorbed m s \<longleftrightarrow> sh_h s = sha_spec_state m \<and> sh_buf s = tail64 m \<and> sh_len s = of_nat (length m)"

lemma blocks64_snoc:
  "tail64 m = t \<Longrightarrow> length (t @ x) = 64 \<Longrightarrow> blocks64 (m @ x) = blocks64 m @ [t @ x] \<and> tail64 (m @ x) = []"
proof (induction m arbitrary: rule: blocks64.induct)
  case (1 m)
  show ?case
  proof (cases "length m < 64")
    case True
    then show ?thesis using 1(2,3) blocks64_append [of "m @ x" "[]"] tail64_append [of "m @ x" "[]"]
      by (simp add: tail64_short blocks64_short)
  next
    case False
    then have d: "m = take 64 m @ drop 64 m" and l: "length (take 64 m) = 64" by simp_all
    have t: "tail64 (drop 64 m) = t" using 1(2) tail64_append [OF l, of "drop 64 m"] d by simp
    have "blocks64 (drop 64 m @ x) = blocks64 (drop 64 m) @ [t @ x] \<and> tail64 (drop 64 m @ x) = []"
      by (rule 1(1) [OF False t 1(3)])
    then have "blocks64 (take 64 m @ drop 64 m @ x) = blocks64 (take 64 m @ drop 64 m) @ [t @ x]"
      "tail64 (take 64 m @ drop 64 m @ x) = []"
      using blocks64_append [OF l] tail64_append [OF l] by (metis append_Cons)+
    then show ?thesis by (metis append.assoc append_take_drop_id)
  qed
qed

lemma blocks64_partial:
  "length (tail64 m @ x) < 64 \<Longrightarrow> blocks64 (m @ x) = blocks64 m \<and> tail64 (m @ x) = tail64 m @ x"
proof (induction m rule: blocks64.induct)
  case (1 m)
  show ?case
  proof (cases "length m < 64")
    case True
    then show ?thesis using 1(2) by (simp add: tail64_short blocks64_short)
  next
    case False
    then have d: "m = take 64 m @ drop 64 m" and l: "length (take 64 m) = 64" by simp_all
    have t: "tail64 (drop 64 m) = tail64 m" using tail64_append [OF l, of "drop 64 m"] d by simp
    have "blocks64 (drop 64 m @ x) = blocks64 (drop 64 m) \<and> tail64 (drop 64 m @ x) = tail64 (drop 64 m) @ x"
      by (rule 1(1) [OF False]) (use 1(2) t in simp)
    then have "blocks64 (take 64 m @ drop 64 m @ x) = blocks64 (take 64 m @ drop 64 m)"
      "tail64 (take 64 m @ drop 64 m @ x) = tail64 m @ x"
      using blocks64_append [OF l] tail64_append [OF l] t by metis+
    then show ?thesis by (metis append.assoc append_take_drop_id)
  qed
qed

definition absorbing :: "byte list \<Rightarrow> sha_state \<Rightarrow> bool" where
  "absorbing m s \<longleftrightarrow> sh_h s = sha_spec_state m \<and> sh_buf s = tail64 m"

lemma sha_update_loop_absorbing:
  "absorbing m s \<Longrightarrow> absorbing (m @ p) (sha_update_loop s p) \<and> sh_len (sha_update_loop s p) = sh_len s"
proof (induction s p arbitrary: m rule: sha_update_loop.induct)
  case (1 s p)
  show ?case
  proof (cases "p = []")
    case True
    then show ?thesis using 1(2) by (simp add: sha_update_loop.simps)
  next
    case False
    define room where "room = 64 - length (sh_buf s)"
    define count where "count = min room (length p)"
    define buf where "buf = sh_buf s @ take count p"
    define s1 where "s1 = (if length buf = 64 then s \<lparr> sh_h := sha_block (sh_h s) buf, sh_buf := [] \<rparr>
                    else s \<lparr> sh_buf := buf \<rparr>)"
    have bl: "length (sh_buf s) < 64" using 1(2) by (simp add: absorbing_def length_tail64)
    then have c0: "count \<noteq> 0" using False by (simp add: count_def room_def)
    have step: "sha_update_loop s p = sha_update_loop s1 (drop count p)"
      using False c0 by (subst sha_update_loop.simps)
        (simp add: Let_def room_def [symmetric] count_def [symmetric] buf_def [symmetric], simp add: s1_def)
    have lb: "length buf \<le> 64" using bl by (simp add: buf_def count_def room_def)
    have ab: "absorbing (m @ take count p) s1"
    proof (cases "length buf = 64")
      case True
      have "blocks64 (m @ take count p) = blocks64 m @ [buf] \<and> tail64 (m @ take count p) = []"
        using blocks64_snoc [of m "sh_buf s" "take count p"] 1(2) True by (simp add: absorbing_def buf_def)
      then show ?thesis using 1(2) True by (simp add: absorbing_def s1_def sha_spec_state_def)
    next
      case False
      have "blocks64 (m @ take count p) = blocks64 m \<and> tail64 (m @ take count p) = buf"
        using blocks64_partial [of m "take count p"] 1(2) False lb by (simp add: absorbing_def buf_def)
      then show ?thesis using 1(2) False by (simp add: absorbing_def s1_def sha_spec_state_def)
    qed
    have "absorbing ((m @ take count p) @ drop count p) (sha_update_loop s1 (drop count p)) \<and>
        sh_len (sha_update_loop s1 (drop count p)) = sh_len s1"
      by (rule 1(1) [OF False room_def count_def buf_def s1_def c0 ab])
    moreover have "sh_len s1 = sh_len s" by (simp add: s1_def)
    ultimately show ?thesis using step by simp
  qed
qed

lemma sha_update_absorbed: "absorbed m s \<Longrightarrow> absorbed (m @ p) (sha_update s p)"
  using sha_update_loop_absorbing [of m "s \<lparr> sh_len := sh_len s + of_nat (length p) \<rparr>" p]
  by (simp add: absorbed_def absorbing_def sha_update_def)

lemma absorbed_reset: "absorbed [] sha_reset"
  by (simp add: absorbed_def sha_reset_def sha_spec_state_def blocks64_short tail64_short)

lemma zeros_to_56_step:
  assumes "n mod 64 \<noteq> 56"
  shows "zeros_to_56 n = Suc (zeros_to_56 (Suc n))"
proof (cases "n mod 64 = 63")
  case True
  then have "Suc n mod 64 = 0" by (simp add: mod_Suc)
  then show ?thesis using True by (simp add: zeros_to_56_def)
next
  case False
  then have s: "Suc n mod 64 = Suc (n mod 64)" by (simp add: mod_Suc)
  have "n mod 64 < 64" by simp
  then show ?thesis using False assms unfolding zeros_to_56_def Let_def s by (auto split: if_splits)
qed

lemma zeros_to_56_less: "zeros_to_56 n < 64"
proof -
  have "n mod 64 < 64" by simp
  then show ?thesis by (auto simp: zeros_to_56_def Let_def)
qed

lemma sha_pad_zero_absorbed:
  "absorbed m s \<Longrightarrow> zeros_to_56 (length m) < n \<Longrightarrow>
   absorbed (m @ replicate (zeros_to_56 (length m)) 0) (sha_pad_zero n s)"
proof (induction n arbitrary: m s)
  case (Suc n)
  have b: "length (sh_buf s) = length m mod 64" using Suc.prems(1) by (simp add: absorbed_def length_tail64)
  show ?case
  proof (cases "length m mod 64 = 56")
    case True
    then show ?thesis using b Suc.prems(1) by (simp add: zeros_to_56_def)
  next
    case False
    note k = zeros_to_56_step [OF False]
    have ab: "absorbed (m @ [0]) (sha_update s [0])" by (rule sha_update_absorbed [OF Suc.prems(1)])
    have "absorbed ((m @ [0]) @ replicate (zeros_to_56 (length (m @ [0]))) 0) (sha_pad_zero n (sha_update s [0]))"
      by (rule Suc.IH [OF ab]) (use Suc.prems(2) k in simp)
    then show ?thesis using b False k by simp
  qed
qed simp

lemma sha_finalize_spec:
  assumes "absorbed m s"
  shows "sha_finalize s = sha_spec_state (m @ sha_padding m)"
proof -
  have a1: "absorbed (m @ [0x80]) (sha_update s [0x80])" by (rule sha_update_absorbed [OF assms])
  define z where "z = zeros_to_56 (length m + 1)"
  have a2: "absorbed ((m @ [0x80]) @ replicate z 0) (sha_pad_zero 64 (sha_update s [0x80]))"
    using sha_pad_zero_absorbed [OF a1, of 64] zeros_to_56_less [of "length m + 1"] by (simp add: z_def)
  have "absorbed (((m @ [0x80]) @ replicate z 0) @ bytes_be64 (sh_len s * 8))
      (sha_update (sha_pad_zero 64 (sha_update s [0x80])) (bytes_be64 (sh_len s * 8)))"
    by (rule sha_update_absorbed [OF a2])
  then show ?thesis using assms
    by (simp add: absorbed_def sha_finalize_def Let_def sha_padding_def z_def)
qed

interpretation sha: chunked sha_reset "\<lambda>s p. Some (sha_update s p)" "\<lambda>p. p" "\<lambda>_. True" absorbed sha_hex sha256_spec
  by unfold_locales
    (auto simp: absorbed_reset sha_update_absorbed sha_hex_def sha256_spec_def sha_finalize_spec)

text \<open>The hexadecimal digest the stream reports is the SHA-256 of all bytes appended so far in order,
however they were split over \<open>update\<close> calls, and asking for it does not disturb the running state: for
every list of chunks the incremental state's \<open>hex\<close> is the FIPS 180-4 digest of their concatenation.\<close>

theorem sha256_chunk_invariant:
  "map_option sha_hex (feed_all (\<lambda>s p. Some (sha_update s p)) sha_reset chunks)
   = Some (sha256_spec (concat chunks))"
  using sha.observe_chunks [of chunks] by auto

end
