(* ===== verification/StreamState.thy ===== *)
theory StreamState
  imports Complex_Main MelFrontend EncoderKv DecoderRuntime Sha256
begin

text \<open>The stream object and its sub-structures (\<open>src/src/voxtral-stream.h\<close>,
\<open>src/src/voxtral-stream-internal.h\<close>): status codes, lifecycle states, events, parameters, and the
small helpers every streaming module uses.  A double that holds a time derived from a sample count
is a rational: \<open>samples * 1000 / 16000\<close> is exact in a double below \<open>2 ^ 43\<close> samples.  Clock readings
(latency markers, emission times, backlog series) influence no result and are not modelled.\<close>

section \<open>Status codes, states and events\<close>

datatype status =
    St_ok | St_invalid_argument | St_invalid_state | St_unsupported_audio_format | St_cancelled
  | St_backend_error | St_out_of_memory | St_limit_exceeded | St_busy | St_internal_error

datatype stream_state = Created | Running | Finishing | Completed | Cancelled | Failed

datatype event_type = Ev_token | Ev_partial_text | Ev_final_text | Ev_error | Ev_completed | Ev_cancelled

text \<open>The value of a status in an error event: \<open>static_cast<int32_t>\<close> of the enumerator.\<close>

fun status_code :: "status \<Rightarrow> int" where
  "status_code St_ok = 0"
| "status_code St_invalid_argument = 1"
| "status_code St_invalid_state = 2"
| "status_code St_unsupported_audio_format = 3"
| "status_code St_cancelled = 4"
| "status_code St_backend_error = 5"
| "status_code St_out_of_memory = 6"
| "status_code St_limit_exceeded = 7"
| "status_code St_busy = 8"
| "status_code St_internal_error = 9"

fun stream_state_name :: "stream_state \<Rightarrow> string" where
  "stream_state_name Created = ''created''"
| "stream_state_name Running = ''running''"
| "stream_state_name Finishing = ''finishing''"
| "stream_state_name Completed = ''completed''"
| "stream_state_name Cancelled = ''cancelled''"
| "stream_state_name Failed = ''failed''"

fun stream_status_name :: "status \<Rightarrow> string" where
  "stream_status_name St_ok = ''ok''"
| "stream_status_name St_invalid_argument = ''invalid_argument''"
| "stream_status_name St_invalid_state = ''invalid_state''"
| "stream_status_name St_unsupported_audio_format = ''unsupported_audio_format''"
| "stream_status_name St_cancelled = ''cancelled''"
| "stream_status_name St_backend_error = ''backend_error''"
| "stream_status_name St_out_of_memory = ''out_of_memory''"
| "stream_status_name St_limit_exceeded = ''limit_exceeded''"
| "stream_status_name St_busy = ''busy''"
| "stream_status_name St_internal_error = ''internal_error''"

fun stream_event_name :: "event_type \<Rightarrow> string" where
  "stream_event_name Ev_token = ''token''"
| "stream_event_name Ev_partial_text = ''partial_text''"
| "stream_event_name Ev_final_text = ''final_text''"
| "stream_event_name Ev_error = ''error''"
| "stream_event_name Ev_completed = ''completed''"
| "stream_event_name Ev_cancelled = ''cancelled''"

record stream_event =
  ev_type :: event_type
  ev_token :: int
  ev_text :: string
  ev_t_audio_ms :: rat
  ev_error_code :: int
  ev_sequence :: int
  ev_decoder_position :: int
  ev_audio_end_sample :: int
  ev_special :: bool
  ev_revision :: int
  ev_stable_prefix_bytes :: int

text \<open>A default-constructed event of the given type.\<close>

definition blank_event :: "event_type \<Rightarrow> stream_event" where
  "blank_event t =
    \<lparr> ev_type = t, ev_token = 0, ev_text = [], ev_t_audio_ms = 0, ev_error_code = 0, ev_sequence = 0,
      ev_decoder_position = 0, ev_audio_end_sample = 0, ev_special = False, ev_revision = 0,
      ev_stable_prefix_bytes = 0 \<rparr>"

record stream_params =
  sp_sample_rate :: int
  sp_channels :: int
  sp_max_tokens :: int
  sp_max_total_samples :: int
  sp_retain_mel_history :: bool

section \<open>The stream\<close>

record lifecycle_part =
  lc_state :: stream_state
  lc_last_status :: status
  lc_last_error :: string
  lc_in_operation :: bool
  lc_cancel_requested :: bool
  lc_cancelled_emitted :: bool
  lc_warmup_complete :: bool
  lc_total_samples_received :: int
  lc_total_samples_consumed :: int
  lc_feed_calls :: int
  lc_inference_runs :: int

record ('f, 'k, 'o) frontend_part =
  fr_pcm :: "'f list"
  fr_mel_fe :: "'f frontend option"
  fr_left_pad_injected :: bool
  fr_full_pcm_buffered_at_finish :: bool
  fr_enc :: "('f list, 'k, 'o) enc_stream option"
  fr_enc_pushed_frames :: int
  fr_mel_even :: "'f list"
  fr_mel_even_frames :: int

record pending_token =
  pt_valid :: bool
  pt_token :: int
  pt_position :: int
  pt_special :: bool

record decoder_part =
  de_incremental :: bool
  de_prompt_ids :: "int list"
  de_adapter_groups_committed :: int
  de_adapter_commit_calls :: int
  de_prefill_done :: bool
  de_prev_token :: int
  de_position :: int
  de_steps :: int
  de_tokens_emitted :: int
  de_tokens_before_finish :: int
  de_eos :: bool
  de_token_sequence :: int
  de_partial_revision :: int
  de_partial_text :: string
  de_partial_stable_bytes :: int
  de_pending :: pending_token
  de_tokens :: "int list"
  de_transcript :: string

record event_part =
  ev_queue :: "stream_event list"
  ev_max_events :: int
  ev_overflowed :: bool
  ev_emitted :: int
  ev_token_events :: int
  ev_partial_events :: int
  ev_partial_events_coalesced :: int
  ev_queue_high_watermark :: int
  ev_queue_overflow_attempts :: int
  ev_dropped :: int
  ev_public_poll_sequence :: int
  ev_decoder_backpressured :: bool
  ev_finalizing_flush :: bool
  ev_aggressive_partial_coalescing :: bool

record diagnostics_part =
  dg_pcm_sha :: sha_state
  dg_capture_output_sha :: bool
  dg_encoder_output_sha :: sha_state
  dg_adapter_output_sha :: sha_state
  dg_encoder_sha_rows :: int
  dg_adapter_sha_rows :: int
  dg_output_sha_d2h_bytes :: int

text \<open>The execution context as the stream uses it: the decoder side, the host tables of the Mel
frontend, and the device memory and output ring the encoder runtime works on (held by the encoder
stream once there is one).\<close>

record ('f, 'k, 'o, 'a, 'c) stream_context =
  sx_dec :: "('a, 'c) dec_context"
  sx_hann :: "'f list option"
  sx_filters :: "'f list option"
  sx_enc_device :: 'k
  sx_enc_ring :: "int \<Rightarrow> 'o option"

record ('f, 'k, 'o, 'a, 'c) stream =
  st_ctx :: "('f, 'k, 'o, 'a, 'c) stream_context option"
  st_model :: "vocab option"
  st_owns_context :: bool
  st_params :: stream_params
  st_life :: lifecycle_part
  st_front :: "('f, 'k, 'o) frontend_part"
  st_dec :: decoder_part
  st_ev :: event_part
  st_diag :: diagnostics_part

text \<open>What the stream calls and does not own the code of: the graphs, float arithmetic, the outcome
of allocations, and the environment.  \<open>rt_chunk_graph\<close> is the whole-chunk encoder graph: its Mel
frames, the number of convolution outputs it skips, the positions, and the mask (none when the model
is offline).\<close>

record ('f, 'k, 'o, 'a, 'c) runtime =
  rt_ops :: "'f float_ops"
  rt_float_bytes :: "'f \<Rightarrow> byte list"
  rt_is_finite :: "'f \<Rightarrow> bool"
  rt_enc_gpu :: "('f list, 'k, 'o) encoder_gpu"
  rt_enc_config :: encoder_config
  rt_dec_gpu :: "('o, 'a, 'c) decoder_gpu"
  rt_enc_row_bytes :: "'o option \<Rightarrow> byte list"
  rt_aemb_row_bytes :: "'a option \<Rightarrow> byte list"
  rt_frontend_alloc :: bool
  rt_encoder_alloc :: bool
  rt_ring_alloc :: bool
  rt_result_alloc :: bool
  rt_reserve :: "nat \<Rightarrow> bool"
  rt_append_alloc :: bool
  rt_chunk_graph :: "'f list list \<Rightarrow> int \<Rightarrow> int list \<Rightarrow> bool list list option \<Rightarrow> 'o list option"
  rt_strategy_env :: "string option"
  rt_is_offline :: bool

section \<open>Bounds and helpers\<close>

definition max_feed_samples :: int where
  "max_feed_samples = 64 * 1024 * 1024"

definition max_events_default :: int where
  "max_events_default = 4096"

definition terminal_event_headroom :: int where
  "terminal_event_headroom = 64"

definition stream_left_pad :: int where
  "stream_left_pad = 32 * 1280"

definition set_error ::
  "('f, 'k, 'o, 'a, 'c) stream \<Rightarrow> status \<Rightarrow> string \<Rightarrow> ('f, 'k, 'o, 'a, 'c) stream" where
  "set_error s code msg = s \<lparr> st_life := (st_life s) \<lparr> lc_last_status := code, lc_last_error := msg \<rparr> \<rparr>"

definition clear_error :: "('f, 'k, 'o, 'a, 'c) stream \<Rightarrow> ('f, 'k, 'o, 'a, 'c) stream" where
  "clear_error s = s \<lparr> st_life := (st_life s) \<lparr> lc_last_status := St_ok, lc_last_error := [] \<rparr> \<rparr>"

definition samples_to_ms :: "int \<Rightarrow> int \<Rightarrow> rat" where
  "samples_to_ms samples sample_rate =
    (if sample_rate \<le> 0 then 0 else of_int samples * 1000 / of_int sample_rate)"

text \<open>\<open>std::to_string\<close> of a natural number.\<close>

fun decimal :: "nat \<Rightarrow> string" where
  "decimal n = (if n < 10 then [char_of (48 + n)] else decimal (n div 10) @ [char_of (48 + n mod 10)])"

declare decimal.simps [simp del]

definition int_to_string :: "int \<Rightarrow> string" where
  "int_to_string n = (if n < 0 then CHR ''-'' # decimal (nat (- n)) else decimal (nat n))"

text \<open>\<open>checked_sample_count_add\<close>: the sum, unless it does not fit the 64-bit counter.\<close>

definition checked_sample_count_add :: "int \<Rightarrow> int \<Rightarrow> int option" where
  "checked_sample_count_add received count =
    (if 2 ^ 64 - 1 - received < count then None else Some (received + count))"

text \<open>A default-constructed \<open>voxtral_stream\<close>.\<close>

definition new_lifecycle :: lifecycle_part where
  "new_lifecycle =
    \<lparr> lc_state = Created, lc_last_status = St_ok, lc_last_error = [], lc_in_operation = False,
      lc_cancel_requested = False, lc_cancelled_emitted = False, lc_warmup_complete = False,
      lc_total_samples_received = 0, lc_total_samples_consumed = 0, lc_feed_calls = 0, lc_inference_runs = 0 \<rparr>"

definition new_frontend :: "('f, 'k, 'o) frontend_part" where
  "new_frontend =
    \<lparr> fr_pcm = [], fr_mel_fe = None, fr_left_pad_injected = False, fr_full_pcm_buffered_at_finish = False,
      fr_enc = None, fr_enc_pushed_frames = 0, fr_mel_even = [], fr_mel_even_frames = 0 \<rparr>"

definition no_pending :: pending_token where
  "no_pending = \<lparr> pt_valid = False, pt_token = 0, pt_position = 0, pt_special = False \<rparr>"

definition new_decoder :: decoder_part where
  "new_decoder =
    \<lparr> de_incremental = False, de_prompt_ids = [], de_adapter_groups_committed = 0, de_adapter_commit_calls = 0,
      de_prefill_done = False, de_prev_token = 0, de_position = 0, de_steps = 0, de_tokens_emitted = 0,
      de_tokens_before_finish = 0, de_eos = False, de_token_sequence = 0, de_partial_revision = 0,
      de_partial_text = [], de_partial_stable_bytes = 0, de_pending = no_pending, de_tokens = [],
      de_transcript = [] \<rparr>"

definition new_events :: event_part where
  "new_events =
    \<lparr> ev_queue = [], ev_max_events = max_events_default, ev_overflowed = False, ev_emitted = 0,
      ev_token_events = 0, ev_partial_events = 0, ev_partial_events_coalesced = 0,
      ev_queue_high_watermark = 0, ev_queue_overflow_attempts = 0, ev_dropped = 0,
      ev_public_poll_sequence = 0, ev_decoder_backpressured = False, ev_finalizing_flush = False,
      ev_aggressive_partial_coalescing = False \<rparr>"

definition new_diagnostics :: diagnostics_part where
  "new_diagnostics =
    \<lparr> dg_pcm_sha = sha_reset, dg_capture_output_sha = False, dg_encoder_output_sha = sha_reset,
      dg_adapter_output_sha = sha_reset, dg_encoder_sha_rows = 0, dg_adapter_sha_rows = 0,
      dg_output_sha_d2h_bytes = 0 \<rparr>"

definition new_stream :: "vocab option \<Rightarrow> stream_params \<Rightarrow> ('f, 'k, 'o, 'a, 'c) stream" where
  "new_stream model params =
    \<lparr> st_ctx = None, st_model = model, st_owns_context = False, st_params = params,
      st_life = new_lifecycle, st_front = new_frontend, st_dec = new_decoder, st_ev = new_events,
      st_diag = new_diagnostics \<rparr>"

definition default_params :: stream_params where
  "default_params =
    \<lparr> sp_sample_rate = 16000, sp_channels = 1, sp_max_tokens = 0, sp_max_total_samples = 2 ^ 64 - 1,
      sp_retain_mel_history = False \<rparr>"

lemmas stream_defs = set_error_def clear_error_def
lemmas new_defs = new_stream_def new_lifecycle_def new_frontend_def new_decoder_def new_events_def
  new_diagnostics_def no_pending_def default_params_def

lemma set_error_simps [simp]:
  "st_ctx (set_error s c m) = st_ctx s" "st_model (set_error s c m) = st_model s"
  "st_params (set_error s c m) = st_params s" "st_front (set_error s c m) = st_front s"
  "st_dec (set_error s c m) = st_dec s" "st_ev (set_error s c m) = st_ev s"
  "st_diag (set_error s c m) = st_diag s" "st_owns_context (set_error s c m) = st_owns_context s"
  "lc_state (st_life (set_error s c m)) = lc_state (st_life s)"
  "lc_last_status (st_life (set_error s c m)) = c"
  "lc_in_operation (st_life (set_error s c m)) = lc_in_operation (st_life s)"
  "lc_total_samples_received (st_life (set_error s c m)) = lc_total_samples_received (st_life s)"
  by (simp_all add: set_error_def)

lemma clear_error_simps [simp]:
  "st_ctx (clear_error s) = st_ctx s" "st_model (clear_error s) = st_model s"
  "st_params (clear_error s) = st_params s" "st_front (clear_error s) = st_front s"
  "st_dec (clear_error s) = st_dec s" "st_ev (clear_error s) = st_ev s"
  "st_diag (clear_error s) = st_diag s" "st_owns_context (clear_error s) = st_owns_context s"
  "lc_state (st_life (clear_error s)) = lc_state (st_life s)"
  "lc_last_status (st_life (clear_error s)) = St_ok"
  "lc_in_operation (st_life (clear_error s)) = lc_in_operation (st_life s)"
  "lc_total_samples_received (st_life (clear_error s)) = lc_total_samples_received (st_life s)"
  by (simp_all add: clear_error_def)

end
