(* ===== verification/Transcribe.thy ===== *)
theory Transcribe
  imports StreamState "HOL-Library.Signed_Division"
begin

text \<open>Batch transcription in \<open>src/src/voxtral.cpp\<close>: the dimensions of the causal convolutions, the
overlapping-chunk encoder and the offline encoder, the choice of the batch encoder, the realtime path
from audio to text and the offline path in windows of 30 seconds.  Graphs are parameters (the fields of
\<open>runtime\<close> and \<open>offline_model\<close>); the float arithmetic of the convolution lengths is exact for
fewer than \<open>2 ^ 23\<close> frames and written over the rationals.  An outer \<^term>\<open>None\<close> is undefined
behaviour in the source.\<close>

section \<open>Convolution lengths\<close>

record causal_conv1d_dims =
  cd_pad_left :: int
  cd_pad_right :: int
  cd_padded_len :: int
  cd_out_len :: int

definition compute_causal_conv1d_dims :: "int \<Rightarrow> int \<Rightarrow> int \<Rightarrow> causal_conv1d_dims" where
  "compute_causal_conv1d_dims in_len kernel_size stride =
    (if in_len \<le> 0 \<or> kernel_size \<le> 0 \<or> stride \<le> 0
     then \<lparr> cd_pad_left = 0, cd_pad_right = 0, cd_padded_len = 0, cd_out_len = 0 \<rparr>
     else let padding_total = kernel_size - stride;
              n_frames = rat_of_int (in_len - kernel_size + padding_total) / rat_of_int stride + 1;
              target_length = (\<lceil>n_frames\<rceil> - 1) * stride + (kernel_size - padding_total);
              extra_padding = target_length - in_len;
              pad_right = max 0 extra_padding;
              padded_len = in_len + padding_total + pad_right
          in \<lparr> cd_pad_left = padding_total, cd_pad_right = pad_right, cd_padded_len = padded_len,
               cd_out_len = (padded_len - kernel_size) sdiv stride + 1 \<rparr>)"

definition mel_frames_to_enc_tokens :: "int \<Rightarrow> int" where
  "mel_frames_to_enc_tokens n_frames =
    (let d0 = compute_causal_conv1d_dims n_frames 3 1;
         d1 = compute_causal_conv1d_dims (cd_out_len d0) 3 2;
         trunc = cd_out_len d1 smod 4
     in cd_out_len d1 - trunc)"

definition enc_frames_for_mel :: "int \<Rightarrow> int" where
  "enc_frames_for_mel mel_frames = (if 0 < mel_frames then mel_frames_to_enc_tokens mel_frames else 0)"

definition mel_frames_to_enc_tokens_sym :: "int \<Rightarrow> int" where
  "mel_frames_to_enc_tokens_sym n_frames =
    (let c1 = (n_frames - 1) sdiv 2 + 1 in c1 - c1 smod 4)"

text \<open>The convolution part of \<open>build_encoder_graph\<close>: outputs of the second convolution and how many of
them are skipped; nothing when a convolution has no output.\<close>

definition conv_lengths :: "bool \<Rightarrow> int \<Rightarrow> (int \<times> int) option" where
  "conv_lengths offline n_frames =
    (let sym_len = (\<lambda>in_len stride. (in_len + 2 - 3) sdiv stride + 1);
         len = (\<lambda>in_len stride. if in_len \<le> 0 then 0
                  else if offline then sym_len in_len stride
                  else cd_out_len (compute_causal_conv1d_dims in_len 3 stride));
         conv0_len = len n_frames 1;
         conv_out_len = len conv0_len 2
     in if conv0_len \<le> 0 \<or> conv_out_len \<le> 0 then None else Some (conv_out_len, conv_out_len smod 4))"

section \<open>The encoder over whole chunks\<close>

definition sliding_causal_mask :: "int \<Rightarrow> bool list list" where
  "sliding_causal_mask n =
    List.map (\<lambda>q. List.map (\<lambda>kv. kv \<le> q \<and> max 0 (q - (750 - 1)) \<le> kv) [0..n - 1]) [0..n - 1]"

text \<open>The output rows of one chunk (\<open>chunk_seq_len\<close> of them), \<^term>\<open>None\<close> when the graph was not
allocated.\<close>

definition run_encoder_chunk ::
  "('f, 'k, 'o, 'a, 'c) runtime \<Rightarrow> 'f list list \<Rightarrow> int \<Rightarrow> 'o list option" where
  "run_encoder_chunk rt chunk_mel rope_pos_offset =
    (case conv_lengths (rt_is_offline rt) (int (length chunk_mel)) of
       None \<Rightarrow> Some []
     | Some (conv_out_len, trunc) \<Rightarrow>
         let chunk_seq_len = conv_out_len - trunc
         in rt_chunk_graph rt chunk_mel trunc
              [rope_pos_offset..rope_pos_offset + chunk_seq_len - 1]
              (if rt_is_offline rt then None else Some (sliding_causal_mask chunk_seq_len)))"

function total_enc_tokens_loop :: "int \<Rightarrow> int \<Rightarrow> bool \<Rightarrow> int \<Rightarrow> int" where
  "total_enc_tokens_loop total_mel_frames mel_offset first n_tokens =
    (if mel_offset < total_mel_frames
     then let chunk_mel = min 3000 (total_mel_frames - mel_offset);
              stride = mel_frames_to_enc_tokens chunk_mel - (if first then 0 else 750)
          in if stride \<le> 0 then n_tokens
             else total_enc_tokens_loop total_mel_frames (mel_offset + 1500) False (n_tokens + stride)
     else n_tokens)"
  by auto
termination by (relation "measure (\<lambda>(n, off, f, k). nat (n - off))") auto

declare total_enc_tokens_loop.simps [simp del]

definition compute_total_enc_tokens :: "int \<Rightarrow> int" where
  "compute_total_enc_tokens total_mel_frames = total_enc_tokens_loop total_mel_frames 0 True 0"

text \<open>The chunk loop: the rows written so far are the device buffer up to \<open>enc_write_offset\<close>.\<close>

function encoder_chunks ::
  "('f, 'k, 'o, 'a, 'c) runtime \<Rightarrow> 'f list list \<Rightarrow> int \<Rightarrow> int \<Rightarrow> int \<Rightarrow> 'o list \<Rightarrow> 'o list option" where
  "encoder_chunks rt mel alloc_total mel_offset chunk_idx written =
    (if mel_offset < int (length mel)
     then let chunk_mel_frames = min 3000 (int (length mel) - mel_offset);
              skip = (if 0 < chunk_idx then 750 else 0)
          in if mel_frames_to_enc_tokens chunk_mel_frames - skip \<le> 0 then Some written
             else case run_encoder_chunk rt (take (nat chunk_mel_frames) (drop (nat mel_offset) mel))
                         (int (length written) - skip) of
                    None \<Rightarrow> None
                  | Some rows \<Rightarrow>
                      let stride = int (length rows) - skip;
                          room = alloc_total - int (length written);
                          clamped = (if room < stride then room else stride)
                      in if stride \<le> 0 \<or> clamped \<le> 0 then Some written
                         else encoder_chunks rt mel alloc_total (mel_offset + 1500) (chunk_idx + 1)
                                (written @ take (nat clamped) (drop (nat skip) rows))
     else Some written)"
  by auto
termination by (relation "measure (\<lambda>(rt, mel, a, off, c, w). nat (int (length mel) - off))") auto

declare encoder_chunks.simps [simp del]

definition run_encoder_chunked ::
  "('f, 'k, 'o, 'a, 'c) runtime \<Rightarrow> 'f list list \<Rightarrow> 'o list option" where
  "run_encoder_chunked rt mel =
    (let alloc_total = compute_total_enc_tokens (int (length mel))
     in if alloc_total \<le> 0 \<or> \<not> rt_result_alloc rt then None
        else map_option (\<lambda>rows. take (length rows div 4 * 4) rows)
               (encoder_chunks rt mel alloc_total 0 0 []))"

definition run_encoder_offline ::
  "('f, 'k, 'o, 'a, 'c) runtime \<Rightarrow> 'f list list \<Rightarrow> 'o list option" where
  "run_encoder_offline rt mel =
    (let est0 = mel_frames_to_enc_tokens_sym (int (length mel));
         est = (if 2000 < est0 then 2000 else est0)
     in if est0 \<le> 0 \<or> \<not> rt_result_alloc rt then None
        else case run_encoder_chunk rt mel 0 of
          None \<Rightarrow> None
        | Some rows \<Rightarrow> let seq = take (nat est) rows in Some (take (length seq div 4 * 4) seq))"

section \<open>Batch encoder\<close>

definition legacy_batch_encoder :: "string option \<Rightarrow> bool" where
  "legacy_batch_encoder env =
    (case env of
       None \<Rightarrow> False
     | Some s \<Rightarrow> s = ''reference'' \<or> s = ''ref'' \<or> s = ''chunked'' \<or> s = ''bounded'' \<or>
                 s = ''bounded-window-recompute'')"

text \<open>The strategy of an encoder stream reads the same variable and does not know \<open>chunked\<close>.\<close>

definition reference_stream_encoder :: "string option \<Rightarrow> bool" where
  "reference_stream_encoder env =
    (case env of
       None \<Rightarrow> False
     | Some s \<Rightarrow> s = ''reference'' \<or> s = ''ref'' \<or> s = ''bounded'' \<or> s = ''bounded-window-recompute'')"

definition run_encoder_batch ::
  "('f, 'k, 'o, 'a, 'c) runtime \<Rightarrow> ('f, 'k, 'o, 'a, 'c) stream_context \<Rightarrow> 'f list list \<Rightarrow> 'o global_result" where
  "run_encoder_batch rt ctx mel =
    (if legacy_batch_encoder (rt_strategy_env rt)
     then case run_encoder_chunked rt mel of
            None \<Rightarrow> EncodeFailed
          | Some rows \<Rightarrow> EncodeDone (int (length rows)) rows
     else run_encoder_global ((rt_enc_config rt) \<lparr> cfg_want_ring := cx_want_ring (sx_dec ctx) \<rparr>)
            (rt_enc_gpu rt) (sx_enc_device ctx) (sx_enc_ring ctx) (rt_ring_alloc rt) (rt_result_alloc rt) mel)"

text \<open>The columns of a channel-major matrix of \<open>n_frames\<close> frames.\<close>

definition mel_columns :: "'f list \<Rightarrow> int \<Rightarrow> 'f list list option" where
  "mel_columns mel n_frames =
    read_all (\<lambda>f. read_all (\<lambda>m. vec_get mel (int m * n_frames + int f)) [0..<128]) [0..<nat n_frames]"

section \<open>Realtime transcription\<close>

type_synonym ('f, 'k, 'o, 'a, 'c) transcribed =
  "transcription option \<times> vocab \<times> ('f, 'k, 'o, 'a, 'c) stream_context"

definition transcribe_mel ::
  "('f, 'k, 'o, 'a, 'c) runtime \<Rightarrow> vocab \<Rightarrow> ('f, 'k, 'o, 'a, 'c) stream_context \<Rightarrow> 'f list option \<Rightarrow> int \<Rightarrow> int
   \<Rightarrow> ('f, 'k, 'o, 'a, 'c) transcribed option" where
  "transcribe_mel rt model ctx mel n_frames max_tokens =
    (case mel of
       None \<Rightarrow> Some (None, model, ctx)
     | Some matrix \<Rightarrow>
         if rt_is_offline rt \<or> n_frames \<le> 0 then Some (None, model, ctx)
         else case mel_columns matrix n_frames of
           None \<Rightarrow> None
         | Some columns \<Rightarrow>
             (case run_encoder_batch rt ctx columns of
                EncodeFailed \<Rightarrow> Some (None, model, ctx)
              | EncodeUndefined \<Rightarrow> None
              | EncodeDone used rows \<Rightarrow>
                  let (result, model1, dctx) = run_adapter_and_decode_realtime (rt_dec_gpu rt) (rt_result_alloc rt)
                                                 max_tokens model (sx_dec ctx) rows
                  in Some (result, model1, ctx \<lparr> sx_dec := dctx \<rparr>)))"

text \<open>\<open>voxtral_encode_mel_batch_internal\<close>.\<close>

definition encode_mel_batch ::
  "('f, 'k, 'o, 'a, 'c) runtime \<Rightarrow> ('f, 'k, 'o, 'a, 'c) stream_context \<Rightarrow> 'f list option \<Rightarrow> int
   \<Rightarrow> 'o list option option" where
  "encode_mel_batch rt ctx mel n_frames =
    (case mel of
       None \<Rightarrow> Some None
     | Some matrix \<Rightarrow>
         if rt_is_offline rt \<or> n_frames \<le> 0 then Some None
         else case mel_columns matrix n_frames of
           None \<Rightarrow> None
         | Some columns \<Rightarrow>
             (case run_encoder_batch rt ctx columns of
                EncodeFailed \<Rightarrow> Some None
              | EncodeUndefined \<Rightarrow> None
              | EncodeDone used rows \<Rightarrow> if used \<le> 0 then Some None else Some (Some rows)))"

definition align_padding :: "int \<Rightarrow> int" where
  "align_padding n = (1280 - n smod 1280) smod 1280"

definition pad_audio_streaming :: "'f \<Rightarrow> 'f list \<Rightarrow> 'f list" where
  "pad_audio_streaming zero audio =
    replicate (32 * 1280) zero @ audio @ replicate (nat (align_padding (int (length audio)) + 17 * 1280)) zero"

definition transcribe_realtime ::
  "('f, 'k, 'o, 'a, 'c) runtime \<Rightarrow> vocab \<Rightarrow> ('f, 'k, 'o, 'a, 'c) stream_context \<Rightarrow> 'f list \<Rightarrow> 'f list \<Rightarrow> 'f list
   \<Rightarrow> int \<Rightarrow> ('f, 'k, 'o, 'a, 'c) transcribed option" where
  "transcribe_realtime rt model ctx hann filters audio max_tokens =
    (let padded = pad_audio_streaming (f_lit (rt_ops rt) 0 0) audio
     in case compute_mel_even (rt_ops rt) hann filters padded (int (length padded)) of
          None \<Rightarrow> None
        | Some (mel_data, n_frames) \<Rightarrow> transcribe_mel rt model ctx (Some mel_data) n_frames max_tokens)"

section \<open>Offline transcription\<close>

text \<open>The offline decoder graphs and the token ids of the prompt.\<close>

record ('a, 'c) offline_model =
  om_prefill :: "'c \<Rightarrow> decoder_plan \<Rightarrow> int list \<Rightarrow> 'a list \<Rightarrow> int list \<Rightarrow> int list \<Rightarrow> 'c \<times> int option"
  om_step :: "'c \<Rightarrow> decoder_plan \<Rightarrow> int \<Rightarrow> int \<Rightarrow> 'c \<times> int option"
  om_tok_bos :: int
  om_tok_inst :: int
  om_tok_begin_audio :: int
  om_tok_inst_end :: int
  om_tok_transcribe :: int

definition run_offline_prefill ::
  "('a, 'c) offline_model \<Rightarrow> ('a, 'c) dec_context \<Rightarrow> int list \<Rightarrow> int \<Rightarrow> int list \<Rightarrow> int option \<times> ('a, 'c) dec_context" where
  "run_offline_prefill om ctx prefix n_audio suffix =
    (let n_tokens = int (length prefix) + n_audio + int (length suffix)
     in case decoder_kv_plan (cx_kv ctx) (rg_next (cx_kv ctx)) n_tokens of
          None \<Rightarrow> (None, ctx)
        | Some plan \<Rightarrow>
            let positions = List.map (\<lambda>i. i32 (dp_absolute_start plan + i)) [0..n_tokens - 1];
                (dev, token) = om_prefill om (cx_device ctx) plan prefix (take (nat n_audio) (cx_decoder_memory ctx))
                                 suffix positions;
                ctx1 = ctx \<lparr> cx_device := dev \<rparr>
            in case token of
                 None \<Rightarrow> (None, ctx1)
               | Some tok \<Rightarrow> (Some tok, ctx1 \<lparr> cx_kv := decoder_kv_commit_plan (cx_kv ctx1) plan \<rparr>))"

definition run_offline_step ::
  "('a, 'c) offline_model \<Rightarrow> ('a, 'c) dec_context \<Rightarrow> int \<Rightarrow> int \<Rightarrow> int option \<times> ('a, 'c) dec_context" where
  "run_offline_step om ctx token_id position =
    (case decoder_kv_plan (cx_kv ctx) position 1 of
       None \<Rightarrow> (None, ctx)
     | Some plan \<Rightarrow>
         let (dev, token) = om_step om (cx_device ctx) plan token_id position;
             ctx1 = ctx \<lparr> cx_device := dev \<rparr>
         in case token of
              None \<Rightarrow> (None, ctx1)
            | Some tok \<Rightarrow> (Some tok, ctx1 \<lparr> cx_kv := decoder_kv_commit_plan (cx_kv ctx1) plan \<rparr>))"

fun offline_decode ::
  "('a, 'c) offline_model \<Rightarrow> int \<Rightarrow> nat \<Rightarrow> ('a, 'c) dec_context \<Rightarrow> int \<Rightarrow> int list
   \<Rightarrow> int list option \<times> ('a, 'c) dec_context" where
  "offline_decode om position 0 ctx token tokens = (Some tokens, ctx)"
| "offline_decode om position (Suc n) ctx token tokens =
    (if token = 2 then (Some tokens, ctx)
     else case run_offline_step om ctx token position of
       (None, ctx1) \<Rightarrow> (None, ctx1)
     | (Some tok, ctx1) \<Rightarrow>
         if tok = 2 then (Some tokens, ctx1)
         else offline_decode om (position + 1) n ctx1 tok (tokens @ [tok]))"

definition offline_window_samples :: int where
  "offline_window_samples = 30 * 16000"

definition transcribe_offline_window ::
  "('f, 'k, 'o, 'a, 'c) runtime \<Rightarrow> ('a, 'c) offline_model \<Rightarrow> ('a, 'c) dec_context \<Rightarrow> 'f list \<Rightarrow> 'f list \<Rightarrow> 'f list
   \<Rightarrow> int \<Rightarrow> (int list option \<times> ('a, 'c) dec_context) option" where
  "transcribe_offline_window rt om ctx hann filters wav max_tokens =
    (let win = nat offline_window_samples;
         padded = take win wav @ replicate (win - length wav) (f_lit (rt_ops rt) 0 0)
     in case compute_mel_even (rt_ops rt) hann filters padded (int win) of
          None \<Rightarrow> None
        | Some (mel_data, n_frames) \<Rightarrow>
            (case mel_columns mel_data n_frames of
               None \<Rightarrow> None
             | Some columns \<Rightarrow>
                 Some (case run_encoder_offline rt columns of
                   None \<Rightarrow> (None, ctx)
                 | Some rows \<Rightarrow>
                     (case run_adapter (rt_dec_gpu rt) (rt_result_alloc rt) ctx rows of
                        None \<Rightarrow> (None, ctx)
                      | Some (n_audio, ctx1) \<Rightarrow>
                          let prefix = [om_tok_bos om, om_tok_inst om, om_tok_begin_audio om];
                              suffix = [om_tok_inst_end om, 9909, 1058, 1262, om_tok_transcribe om];
                              L = 3 + n_audio + 5
                          in case run_offline_prefill om (clear_kv_cache ctx1) prefix n_audio suffix of
                               (None, ctx2) \<Rightarrow> (None, ctx2)
                             | (Some token, ctx2) \<Rightarrow>
                                 offline_decode om L (nat (if 0 < max_tokens then max_tokens else 448)) ctx2 token
                                   (if token \<noteq> 2 then [token] else [])))))"

definition is_blank :: "char \<Rightarrow> bool" where
  "is_blank c \<longleftrightarrow> c = CHR '' '' \<or> c = CHR 0x09 \<or> c = CHR 0x0D \<or> c = CHR 0x0A"

definition trim_copy :: "string \<Rightarrow> string" where
  "trim_copy s = rev (dropWhile is_blank (rev (dropWhile is_blank s)))"

definition join_text :: "string \<Rightarrow> string \<Rightarrow> string" where
  "join_text full wtext =
    (if wtext = [] then full else if full = [] then wtext else full @ '' '' @ wtext)"

fun offline_windows ::
  "('f, 'k, 'o, 'a, 'c) runtime \<Rightarrow> ('a, 'c) offline_model \<Rightarrow> 'f list \<Rightarrow> 'f list \<Rightarrow> 'f list \<Rightarrow> int \<Rightarrow> nat
   \<Rightarrow> vocab \<Rightarrow> ('a, 'c) dec_context \<Rightarrow> transcription
   \<Rightarrow> (transcription option \<times> vocab \<times> ('a, 'c) dec_context) option" where
  "offline_windows rt om hann filters audio max_tokens 0 model ctx acc = Some (Some acc, model, ctx)"
| "offline_windows rt om hann filters audio max_tokens (Suc n) model ctx acc =
    (if audio = [] then Some (Some acc, model, ctx)
     else case transcribe_offline_window rt om ctx hann filters
                 (take (nat offline_window_samples) audio) max_tokens of
       None \<Rightarrow> None
     | Some (None, ctx1) \<Rightarrow> Some (None, model, ctx1)
     | Some (Some wtoks, ctx1) \<Rightarrow>
         let (text, model1) = decode_tokens model wtoks
         in offline_windows rt om hann filters (drop (nat offline_window_samples) audio) max_tokens n model1 ctx1
              \<lparr> tr_text = join_text (tr_text acc) (trim_copy text), tr_tokens = tr_tokens acc @ wtoks \<rparr>)"

definition transcribe_offline ::
  "('f, 'k, 'o, 'a, 'c) runtime \<Rightarrow> ('a, 'c) offline_model \<Rightarrow> vocab \<Rightarrow> ('a, 'c) dec_context \<Rightarrow> 'f list \<Rightarrow> 'f list
   \<Rightarrow> 'f list \<Rightarrow> int \<Rightarrow> (transcription option \<times> vocab \<times> ('a, 'c) dec_context) option" where
  "transcribe_offline rt om model ctx hann filters audio max_tokens =
    (let win = offline_window_samples;
         n_windows = (int (length audio) + win - 1) sdiv win
     in offline_windows rt om hann filters audio max_tokens (nat (max 1 n_windows)) model ctx
          \<lparr> tr_text = [], tr_tokens = [] \<rparr>)"

section \<open>The entry point\<close>

definition transcribe_from_audio ::
  "('f, 'k, 'o, 'a, 'c) runtime \<Rightarrow> ('a, 'c) offline_model \<Rightarrow> vocab \<Rightarrow> ('f, 'k, 'o, 'a, 'c) stream_context
   \<Rightarrow> 'f list \<Rightarrow> 'f list \<Rightarrow> 'f list \<Rightarrow> int \<Rightarrow> ('f, 'k, 'o, 'a, 'c) transcribed option" where
  "transcribe_from_audio rt om model ctx hann filters audio max_tokens =
    (if audio = [] then Some (None, model, ctx)
     else if rt_is_offline rt
     then map_option (\<lambda>(r, model1, dctx). (r, model1, ctx \<lparr> sx_dec := dctx \<rparr>))
            (transcribe_offline rt om model (sx_dec ctx) hann filters audio max_tokens)
     else transcribe_realtime rt model ctx hann filters audio max_tokens)"

end
