(* ===== verification/ReferenceEncoder.thy ===== *)
theory ReferenceEncoder
  imports Transcribe
begin

text \<open>The reference strategy of an encoder stream (\<open>src/src/voxtral.cpp\<close>): the chunk schedule of the batch encoder
replayed over a bounded window of Mel frames.  A frame is a column of the window; the transposed copy of a chunk that
is handed to the graph is the chunk itself here.\<close>

section \<open>State\<close>

record ('f, 'o) ref_stream =
  rw_mel_window :: "'f list list"
  rw_window_base :: int
  rw_stable_mel :: int
  rw_cur_chunk :: int
  rw_emitted :: int
  rw_last_run_mel_end :: int
  rw_finalized :: bool
  rw_enc_accum :: "'o list"
  rw_mel_frames_received :: int
  rw_encoder_executions :: int
  rw_encoder_input_frames :: int
  rw_encoder_new_frames :: int
  rw_encoder_max_window :: int
  rw_encoder_peak_context :: int
  rw_frames_before_finish :: int
  rw_frames_at_finish :: int

definition ref_stream_fresh :: "('f, 'o) ref_stream" where
  "ref_stream_fresh =
    \<lparr> rw_mel_window = [], rw_window_base = 0, rw_stable_mel = 0, rw_cur_chunk = 0, rw_emitted = 0,
      rw_last_run_mel_end = 0, rw_finalized = False, rw_enc_accum = [], rw_mel_frames_received = 0,
      rw_encoder_executions = 0, rw_encoder_input_frames = 0, rw_encoder_new_frames = 0, rw_encoder_max_window = 0,
      rw_encoder_peak_context = 0, rw_frames_before_finish = 0, rw_frames_at_finish = 0 \<rparr>"

definition ref_stream_reset :: "('f, 'o) ref_stream \<Rightarrow> ('f, 'o) ref_stream" where
  "ref_stream_reset es = es
    \<lparr> rw_mel_window := [], rw_window_base := 0, rw_stable_mel := 0, rw_cur_chunk := 0, rw_emitted := 0,
      rw_last_run_mel_end := 0, rw_finalized := False, rw_enc_accum := [], rw_mel_frames_received := 0,
      rw_encoder_executions := 0, rw_encoder_input_frames := 0, rw_encoder_new_frames := 0, rw_encoder_max_window := 0,
      rw_encoder_peak_context := 0, rw_frames_before_finish := 0, rw_frames_at_finish := 0 \<rparr>"

lemma ref_stream_reset_eq: "ref_stream_reset es = ref_stream_fresh"
  by (simp add: ref_stream_reset_def ref_stream_fresh_def)

definition update_peak :: "('f, 'o) ref_stream \<Rightarrow> ('f, 'o) ref_stream" where
  "update_peak es =
    (let frames = int (length (rw_mel_window es))
     in if rw_encoder_peak_context es < frames then es \<lparr> rw_encoder_peak_context := frames \<rparr> else es)"

section \<open>One chunk\<close>

text \<open>The rows a run adds to the accumulation: those the stream has not emitted yet, past the overlap.\<close>

definition take_new_rows :: "('f, 'o) ref_stream \<Rightarrow> 'o list \<Rightarrow> bool \<Rightarrow> ('f, 'o) ref_stream" where
  "take_new_rows es rows at_finish =
    (let seq_len = int (length rows);
         skip = (if rw_cur_chunk es = 0 then 0 else 750);
         start0 = rw_emitted es - rw_cur_chunk es * 750;
         src_local_start = (if start0 < skip then skip else start0)
     in if src_local_start < seq_len
        then let n_new = i32 (seq_len - src_local_start);
                 emitted = rw_cur_chunk es * 750 + seq_len;
                 es1 = es \<lparr> rw_enc_accum := rw_enc_accum es @ take (nat n_new) (drop (nat src_local_start) rows),
                            rw_emitted := emitted, rw_encoder_new_frames := emitted \<rparr>
             in if at_finish then es1 \<lparr> rw_frames_at_finish := rw_frames_at_finish es1 + n_new \<rparr>
                else es1 \<lparr> rw_frames_before_finish := rw_frames_before_finish es1 + n_new \<rparr>
        else es)"

definition encoder_stream_run_chunk ::
  "('f, 'k, 'o, 'a, 'c) runtime \<Rightarrow> ('f, 'o) ref_stream \<Rightarrow> int \<Rightarrow> bool \<Rightarrow> bool \<times> ('f, 'o) ref_stream" where
  "encoder_stream_run_chunk rt es run_len at_finish =
    (let Lc = rw_cur_chunk es * 1500;
         r0 = Lc - rw_window_base es
     in if r0 < 0 \<or> int (length (rw_mel_window es)) < r0 + run_len then (False, es)
        else case run_encoder_chunk rt (take (nat run_len) (drop (nat r0) (rw_mel_window es)))
                    (i32 (rw_cur_chunk es * 750)) of
          None \<Rightarrow> (False, es)
        | Some rows \<Rightarrow>
            (True, take_new_rows
              (es \<lparr> rw_encoder_executions := rw_encoder_executions es + 1,
                    rw_encoder_input_frames := rw_encoder_input_frames es + run_len,
                    rw_encoder_max_window := max (rw_encoder_max_window es) run_len,
                    rw_last_run_mel_end := Lc + run_len \<rparr>) rows at_finish))"

lemma take_new_rows_fields [simp]:
  "rw_stable_mel (take_new_rows es rows f) = rw_stable_mel es" "rw_cur_chunk (take_new_rows es rows f) = rw_cur_chunk es"
  "rw_mel_window (take_new_rows es rows f) = rw_mel_window es" "rw_window_base (take_new_rows es rows f) = rw_window_base es"
  "rw_last_run_mel_end (take_new_rows es rows f) = rw_last_run_mel_end es"
  "rw_finalized (take_new_rows es rows f) = rw_finalized es"
  "rw_mel_frames_received (take_new_rows es rows f) = rw_mel_frames_received es"
  by (simp_all add: take_new_rows_def Let_def)

lemma run_chunk_kept:
  assumes "encoder_stream_run_chunk rt es n f = (ok, es')"
  shows "rw_stable_mel es' = rw_stable_mel es" "rw_cur_chunk es' = rw_cur_chunk es"
  using assms by (auto simp: encoder_stream_run_chunk_def Let_def split: if_splits option.splits)

section \<open>The chunk loop\<close>

text \<open>What one turn does: end the loop, or run a chunk of some length and go on to the next chunk or not.\<close>

datatype chunk_turn = Stop_turn | Run_turn int bool

definition next_turn :: "bool \<Rightarrow> ('f, 'o) ref_stream \<Rightarrow> chunk_turn" where
  "next_turn final es =
    (let Lc = rw_cur_chunk es * 1500;
         avail = rw_stable_mel es - Lc;
         skip = (if rw_cur_chunk es = 0 then 0 else 750);
         checked = (\<lambda>run_len advance. if mel_frames_to_enc_tokens run_len - skip \<le> 0 then Stop_turn
                                      else Run_turn run_len advance)
     in if rw_stable_mel es \<le> Lc then Stop_turn
        else if 3000 \<le> avail then checked 3000 True
        else if final then checked avail False
        else if rw_cur_chunk es \<noteq> 0 then Stop_turn
        else let m8 = avail sdiv 8 * 8;
                 need = max 256 (rw_last_run_mel_end es sdiv 2)
             in if m8 \<le> 0 then Stop_turn
                else if m8 - rw_last_run_mel_end es < need then Stop_turn
                else checked m8 False)"

text \<open>The frames before the next chunk leave the window.\<close>

definition advance_chunk :: "('f, 'o) ref_stream \<Rightarrow> ('f, 'o) ref_stream" where
  "advance_chunk es =
    (let es1 = es \<lparr> rw_cur_chunk := rw_cur_chunk es + 1 \<rparr>;
         new_base = rw_cur_chunk es1 * 1500
     in if rw_window_base es1 < new_base
        then es1 \<lparr> rw_mel_window := drop (nat (new_base - rw_window_base es1)) (rw_mel_window es1),
                   rw_window_base := new_base \<rparr>
        else es1)"

lemma next_turn_Run: "next_turn final es = Run_turn n a \<Longrightarrow> rw_cur_chunk es * 1500 < rw_stable_mel es"
  by (auto simp: next_turn_def Let_def split: if_splits)

function encoder_stream_drive ::
  "('f, 'k, 'o, 'a, 'c) runtime \<Rightarrow> bool \<Rightarrow> ('f, 'o) ref_stream \<Rightarrow> bool \<times> ('f, 'o) ref_stream" where
  "encoder_stream_drive rt final es =
    (case next_turn final es of
       Stop_turn \<Rightarrow> (True, es)
     | Run_turn run_len advance \<Rightarrow>
         (case encoder_stream_run_chunk rt es run_len final of
            (False, es1) \<Rightarrow> (False, es1)
          | (True, es1) \<Rightarrow> if advance then encoder_stream_drive rt final (advance_chunk es1) else (True, es1)))"
  by auto
termination
proof (relation "measure (\<lambda>(rt, final, es). nat (rw_stable_mel es - rw_cur_chunk es * 1500))", goal_cases)
  case (2 rt final es n a ok es1)
  then have "rw_stable_mel es1 = rw_stable_mel es" "rw_cur_chunk es1 = rw_cur_chunk es"
    using run_chunk_kept [of rt es n final True es1] by auto
  then show ?case using next_turn_Run [OF 2(1)] by (simp add: advance_chunk_def Let_def)
qed simp

declare encoder_stream_drive.simps [simp del]

section \<open>The stream operations\<close>

definition ref_stream_append :: "('f, 'o) ref_stream \<Rightarrow> 'f list list \<Rightarrow> ('f, 'o) ref_stream" where
  "ref_stream_append es frames =
    update_peak (es \<lparr> rw_mel_window := rw_mel_window es @ frames,
                      rw_stable_mel := rw_stable_mel es + int (length frames),
                      rw_mel_frames_received := rw_mel_frames_received es + int (length frames) \<rparr>)"

definition ref_drive_update ::
  "('f, 'k, 'o, 'a, 'c) runtime \<Rightarrow> bool \<Rightarrow> ('f, 'o) ref_stream \<Rightarrow> bool \<times> ('f, 'o) ref_stream" where
  "ref_drive_update rt final es = (let (ok, es1) = encoder_stream_drive rt final es in (ok, update_peak es1))"

definition ref_stream_push_mel ::
  "('f, 'k, 'o, 'a, 'c) runtime \<Rightarrow> ('f, 'o) ref_stream \<Rightarrow> 'f list list option \<Rightarrow> int \<Rightarrow> int
   \<Rightarrow> bool \<times> ('f, 'o) ref_stream" where
  "ref_stream_push_mel rt es frames base_frame n =
    (if rw_finalized es then (False, es)
     else if n \<le> 0 then (True, es)
     else case frames of
       None \<Rightarrow> (False, es)
     | Some fs \<Rightarrow> if base_frame \<noteq> rw_stable_mel es then (False, es)
                  else ref_drive_update rt False (ref_stream_append es (take (nat n) fs)))"

definition ref_stream_push_mel_final ::
  "('f, 'k, 'o, 'a, 'c) runtime \<Rightarrow> ('f, 'o) ref_stream \<Rightarrow> 'f list list option \<Rightarrow> int \<Rightarrow> int
   \<Rightarrow> bool \<times> ('f, 'o) ref_stream" where
  "ref_stream_push_mel_final rt es frames base_frame n =
    (if rw_finalized es then (False, es)
     else if n \<le> 0 then (True, es)
     else case frames of
       None \<Rightarrow> (False, es)
     | Some fs \<Rightarrow> if base_frame \<noteq> rw_stable_mel es then (False, es)
                  else ref_drive_update rt True (ref_stream_append es (take (nat n) fs)))"

definition ref_stream_finish ::
  "('f, 'k, 'o, 'a, 'c) runtime \<Rightarrow> ('f, 'o) ref_stream \<Rightarrow> bool \<times> ('f, 'o) ref_stream" where
  "ref_stream_finish rt es =
    (if rw_finalized es then (True, es)
     else let (ok, es1) = encoder_stream_drive rt True es
          in (ok, es1 \<lparr> rw_finalized := True, rw_encoder_new_frames := rw_emitted es1, rw_mel_window := [],
                        rw_window_base := rw_stable_mel es1 \<rparr>))"

definition ref_stream_output :: "('f, 'o) ref_stream \<Rightarrow> 'o list option" where
  "ref_stream_output es = (if rw_enc_accum es = [] then None else Some (rw_enc_accum es))"

definition ref_stream_output_frames :: "('f, 'o) ref_stream \<Rightarrow> int" where
  "ref_stream_output_frames es = i32 (rw_emitted es)"

section \<open>Metrics\<close>

text \<open>The counters a stream reports, for both strategies; host and device byte sizes that depend on an allocator and
the timings are left out.  A Mel frame is 128 floats and an encoder row 1280.\<close>

record encoder_metrics =
  em_melFramesReceived :: int
  em_encoderExecutions :: int
  em_encoderInputFramesProcessed :: int
  em_encoderNewFramesProduced :: int
  em_encoderFramesRecomputed :: int
  em_encoderMaxWindowFrames :: int
  em_encoderContextFramesRetained :: int
  em_encoderPeakContextFrames :: int
  em_encoderFramesBeforeFinish :: int
  em_encoderFramesFlushedAtFinish :: int
  em_encoderOutputFrames :: int
  em_encoderOutputAccumulatedBytes :: int
  em_encoderOutputD2hBytes :: int
  em_curChunk :: int
  em_finalized :: bool
  em_strategy :: string
  em_encoderUniqueFrames :: int
  em_encoderTransformerFramesComputed :: int
  em_encoderFrameLayerEvaluations :: int
  em_encoderKvAppends :: int
  em_encoderKvEvictions :: int
  em_encoderKvWraps :: int
  em_encoderKvMaterializedFrames :: int
  em_encoderGraphExecutions :: int
  em_encoderMaxNewFramesPerExecution :: int
  em_encoderFramesComputedDuringFinish :: int
  em_encoderKvLogicalFrames :: int
  em_encoderKvPeakLogicalFrames :: int
  em_encoderKvCapacityFrames :: int
  em_encoderMelRetainedBytes :: int
  em_encoderMelRetainedFrames :: int
  em_encoderMelPeakRetainedFrames :: int
  em_encoderOutputQueuedFrames :: int
  em_encoderOutputPeakQueuedFrames :: int
  em_encoderLogicalBatchFrames :: int
  em_encoderPhysicalQueryRows :: int
  em_encoderLogicalFramesSubmitted :: int
  em_encoderPhysicalQueryRowsEvaluated :: int
  em_encoderPaddingRowsEvaluated :: int
  em_encoderWarmupFrames :: int

definition metrics_zero :: encoder_metrics where
  "metrics_zero =
    \<lparr> em_melFramesReceived = 0, em_encoderExecutions = 0, em_encoderInputFramesProcessed = 0,
      em_encoderNewFramesProduced = 0, em_encoderFramesRecomputed = 0, em_encoderMaxWindowFrames = 0,
      em_encoderContextFramesRetained = 0, em_encoderPeakContextFrames = 0, em_encoderFramesBeforeFinish = 0,
      em_encoderFramesFlushedAtFinish = 0, em_encoderOutputFrames = 0, em_encoderOutputAccumulatedBytes = 0,
      em_encoderOutputD2hBytes = 0, em_curChunk = 0, em_finalized = False, em_strategy = ''per-layer-kv'',
      em_encoderUniqueFrames = 0, em_encoderTransformerFramesComputed = 0, em_encoderFrameLayerEvaluations = 0,
      em_encoderKvAppends = 0, em_encoderKvEvictions = 0, em_encoderKvWraps = 0, em_encoderKvMaterializedFrames = 0,
      em_encoderGraphExecutions = 0, em_encoderMaxNewFramesPerExecution = 0,
      em_encoderFramesComputedDuringFinish = 0, em_encoderKvLogicalFrames = 0, em_encoderKvPeakLogicalFrames = 0,
      em_encoderKvCapacityFrames = 0, em_encoderMelRetainedBytes = 0, em_encoderMelRetainedFrames = 0,
      em_encoderMelPeakRetainedFrames = 0, em_encoderOutputQueuedFrames = 0, em_encoderOutputPeakQueuedFrames = 0,
      em_encoderLogicalBatchFrames = 4, em_encoderPhysicalQueryRows = 32, em_encoderLogicalFramesSubmitted = 0,
      em_encoderPhysicalQueryRowsEvaluated = 0, em_encoderPaddingRowsEvaluated = 0, em_encoderWarmupFrames = 0 \<rparr>"

text \<open>\<open>enc_layers\<close> is the number of layers of the model.\<close>

definition kv_stream_metrics :: "encoder_config \<Rightarrow> int \<Rightarrow> ('m, 'k, 'o) enc_stream \<Rightarrow> encoder_metrics" where
  "kv_stream_metrics cfg enc_layers es =
    (let kv = es_kv es;
         schedule = cfg_schedule cfg
     in metrics_zero
    \<lparr> em_melFramesReceived := es_mel_frames_received es, em_encoderExecutions := ek_graph_execs kv,
      em_encoderInputFramesProcessed := ek_transformer_frames kv, em_encoderNewFramesProduced := ek_emitted kv,
      em_encoderFramesRecomputed := ek_transformer_frames kv - ek_emitted kv,
      em_encoderMaxWindowFrames := ek_max_new_per_exec kv,
      em_encoderContextFramesRetained := int (length (ek_mel_tail kv)),
      em_encoderPeakContextFrames := ek_peak_mel_tail kv, em_encoderFramesBeforeFinish := ek_frames_before_finish kv,
      em_encoderFramesFlushedAtFinish := ek_frames_at_finish kv, em_encoderOutputFrames := ek_emitted kv,
      em_encoderOutputAccumulatedBytes := int (length (ek_enc_accum kv)) * (1280 * 4),
      em_encoderOutputD2hBytes := ek_enc_out_d2h_bytes kv, em_finalized := ek_finalized kv,
      em_encoderUniqueFrames := ek_emitted kv, em_encoderTransformerFramesComputed := ek_transformer_frames kv,
      em_encoderFrameLayerEvaluations := ek_transformer_frames kv * enc_layers,
      em_encoderKvAppends := ek_kv_appends kv, em_encoderKvEvictions := ek_kv_evictions kv,
      em_encoderKvWraps := ek_kv_wraps kv, em_encoderKvMaterializedFrames := ek_kv_materialized kv,
      em_encoderGraphExecutions := ek_graph_execs kv, em_encoderMaxNewFramesPerExecution := ek_max_new_per_exec kv,
      em_encoderFramesComputedDuringFinish := ek_frames_at_finish_exec kv,
      em_encoderKvLogicalFrames := ek_emitted kv - max 0 (ek_emitted kv - 750),
      em_encoderKvPeakLogicalFrames := ek_peak_logical kv, em_encoderKvCapacityFrames := 878,
      em_encoderMelRetainedBytes := int (length (ek_mel_tail kv)) * (128 * 4),
      em_encoderMelRetainedFrames := int (length (ek_mel_tail kv)),
      em_encoderMelPeakRetainedFrames := ek_peak_mel_tail kv, em_encoderOutputQueuedFrames := ek_emitted kv,
      em_encoderOutputPeakQueuedFrames := ek_peak_output kv, em_encoderLogicalBatchFrames := sched_logical schedule,
      em_encoderPhysicalQueryRows := sched_physical schedule,
      em_encoderLogicalFramesSubmitted := ek_logical_submitted kv,
      em_encoderPhysicalQueryRowsEvaluated := ek_physical_evaluated kv,
      em_encoderPaddingRowsEvaluated := ek_padding_evaluated kv, em_encoderWarmupFrames := ek_warmup_frames kv \<rparr>)"

definition ref_stream_metrics :: "('f, 'o) ref_stream \<Rightarrow> encoder_metrics" where
  "ref_stream_metrics es = metrics_zero
    \<lparr> em_melFramesReceived := rw_mel_frames_received es, em_encoderExecutions := rw_encoder_executions es,
      em_encoderInputFramesProcessed := rw_encoder_input_frames es, em_encoderNewFramesProduced := rw_emitted es,
      em_encoderFramesRecomputed := rw_encoder_input_frames es - rw_mel_frames_received es,
      em_encoderMaxWindowFrames := rw_encoder_max_window es,
      em_encoderContextFramesRetained := int (length (rw_mel_window es)),
      em_encoderPeakContextFrames := rw_encoder_peak_context es,
      em_encoderFramesBeforeFinish := rw_frames_before_finish es,
      em_encoderFramesFlushedAtFinish := rw_frames_at_finish es, em_encoderOutputFrames := rw_emitted es,
      em_encoderOutputAccumulatedBytes := int (length (rw_enc_accum es)) * (1280 * 4),
      em_encoderOutputD2hBytes := int (length (rw_enc_accum es)) * (1280 * 4), em_curChunk := rw_cur_chunk es,
      em_finalized := rw_finalized es, em_strategy := ''bounded-window-recompute'',
      em_encoderUniqueFrames := rw_emitted es, em_encoderTransformerFramesComputed := rw_encoder_input_frames es,
      em_encoderKvCapacityFrames := 0 \<rparr>"

end
