(* ===== verification/StreamEvents.thy ===== *)
theory StreamEvents
  imports StreamState
begin

text \<open>The bounded event queue of \<open>src/src/voxtral-stream-events.cpp\<close>: the bounded push, the
coalescing of partial texts, the emitters of token, partial, final, completed and error events, and
\<open>poll\<close>.  Proved: on the events that must not be lost the queue is an unbounded FIFO whose pushes can
be refused, its length never passes the bound in force, and token sequence numbers have no gaps.\<close>

section \<open>Operations\<close>

definition event_bound :: "event_part \<Rightarrow> int" where
  "event_bound e = ev_max_events e + (if ev_finalizing_flush e then terminal_event_headroom else 0)"

definition note_enqueued :: "event_type \<Rightarrow> event_part \<Rightarrow> event_part" where
  "note_enqueued t e =
    (let e1 = e \<lparr> ev_emitted := ev_emitted e + 1 \<rparr>;
         e2 = (if t = Ev_token then e1 \<lparr> ev_token_events := ev_token_events e1 + 1 \<rparr>
               else if t = Ev_partial_text then e1 \<lparr> ev_partial_events := ev_partial_events e1 + 1 \<rparr>
               else e1)
     in if ev_queue_high_watermark e2 < int (length (ev_queue e2))
        then e2 \<lparr> ev_queue_high_watermark := int (length (ev_queue e2)) \<rparr> else e2)"

definition enqueue :: "stream_event \<Rightarrow> event_part \<Rightarrow> event_part" where
  "enqueue ev e = note_enqueued (ev_type ev) (e \<lparr> ev_queue := ev_queue e @ [ev] \<rparr>)"

definition overflow_message :: "int \<Rightarrow> event_type \<Rightarrow> string" where
  "overflow_message bound t =
    ''event queue full (bound '' @ int_to_string bound @ ''): backpressure on '' @ stream_event_name t @ '' event''"

definition push_event ::
  "('f, 'k, 'o, 'a, 'c) stream \<Rightarrow> stream_event \<Rightarrow> bool \<times> ('f, 'k, 'o, 'a, 'c) stream" where
  "push_event s ev =
    (let bound = event_bound (st_ev s) in
     if bound \<le> int (length (ev_queue (st_ev s)))
     then (False,
           set_error (s \<lparr> st_ev := (st_ev s) \<lparr> ev_overflowed := True,
                             ev_queue_overflow_attempts := ev_queue_overflow_attempts (st_ev s) + 1 \<rparr> \<rparr>)
             St_limit_exceeded (overflow_message bound (ev_type ev)))
     else (True, s \<lparr> st_ev := enqueue ev (st_ev s) \<rparr>))"

text \<open>\<open>erase\<close> of the first, and overwriting of the last, partial text of the queue.\<close>

definition is_partial :: "stream_event \<Rightarrow> bool" where
  "is_partial ev \<longleftrightarrow> ev_type ev = Ev_partial_text"

fun erase_first_partial :: "stream_event list \<Rightarrow> stream_event list option" where
  "erase_first_partial [] = None"
| "erase_first_partial (e # q) =
    (if is_partial e then Some q else map_option (Cons e) (erase_first_partial q))"

fun replace_first_partial :: "stream_event \<Rightarrow> stream_event list \<Rightarrow> stream_event list option" where
  "replace_first_partial ev [] = None"
| "replace_first_partial ev (e # q) =
    (if is_partial e then Some (ev # q) else map_option (Cons e) (replace_first_partial ev q))"

definition replace_last_partial :: "stream_event \<Rightarrow> stream_event list \<Rightarrow> stream_event list option" where
  "replace_last_partial ev q = map_option rev (replace_first_partial ev (rev q))"

definition coalesced :: "stream_event list \<Rightarrow> event_part \<Rightarrow> event_part" where
  "coalesced q e = e \<lparr> ev_queue := q, ev_partial_events_coalesced := ev_partial_events_coalesced e + 1 \<rparr>"

definition push_bounded_coalesced ::
  "('f, 'k, 'o, 'a, 'c) stream \<Rightarrow> stream_event \<Rightarrow> bool \<times> ('f, 'k, 'o, 'a, 'c) stream" where
  "push_bounded_coalesced s ev =
    (if int (length (ev_queue (st_ev s))) < event_bound (st_ev s)
     then (True, s \<lparr> st_ev := enqueue ev (st_ev s) \<rparr>)
     else if is_partial ev
     then (case replace_last_partial ev (ev_queue (st_ev s)) of
             Some q \<Rightarrow> (True, s \<lparr> st_ev := coalesced q (st_ev s) \<rparr>)
           | None \<Rightarrow> (False, s \<lparr> st_ev := coalesced (ev_queue (st_ev s)) (st_ev s) \<rparr>))
     else push_event s ev)"

definition push_event_coalesced ::
  "('f, 'k, 'o, 'a, 'c) stream \<Rightarrow> stream_event \<Rightarrow> bool \<times> ('f, 'k, 'o, 'a, 'c) stream" where
  "push_event_coalesced s ev =
    (if is_partial ev \<and> ev_aggressive_partial_coalescing (st_ev s)
     then (case erase_first_partial (ev_queue (st_ev s)) of
             Some q \<Rightarrow> (True, s \<lparr> st_ev := coalesced (q @ [ev]) (st_ev s) \<rparr>)
           | None \<Rightarrow> push_bounded_coalesced s ev)
     else push_bounded_coalesced s ev)"

definition audio_end_sample_for :: "int \<Rightarrow> int" where
  "audio_end_sample_for position =
    (let s = (position + 1) * 1280 - stream_left_pad in if 0 < s then s else 0)"

definition event_ms :: "int \<Rightarrow> int \<Rightarrow> rat" where
  "event_ms audio_end_sample sample_rate = of_int audio_end_sample * 1000 / of_int sample_rate"

definition token_event ::
  "('f, 'k, 'o, 'a, 'c) stream \<Rightarrow> string \<Rightarrow> int \<Rightarrow> int \<Rightarrow> bool \<Rightarrow> stream_event" where
  "token_event s piece token position special =
    (blank_event Ev_token)
      \<lparr> ev_token := token, ev_text := piece, ev_special := special,
        ev_sequence := de_token_sequence (st_dec s) + 1, ev_decoder_position := position,
        ev_audio_end_sample := audio_end_sample_for position,
        ev_t_audio_ms := event_ms (audio_end_sample_for position) (sp_sample_rate (st_params s)) \<rparr>"

definition emit_token_event ::
  "('f, 'k, 'o, 'a, 'c) stream \<Rightarrow> int \<Rightarrow> int \<Rightarrow> bool \<Rightarrow> bool \<times> ('f, 'k, 'o, 'a, 'c) stream" where
  "emit_token_event s token position special =
    (let (piece, model1) = token_piece (st_model s) token;
         s1 = s \<lparr> st_model := model1 \<rparr>
     in case push_event_coalesced s1 (token_event s1 piece token position special) of
          (False, s2) \<Rightarrow> (False, s2)
        | (True, s2) \<Rightarrow>
            (True, s2 \<lparr> st_dec := (st_dec s2) \<lparr> de_token_sequence := de_token_sequence (st_dec s2) + 1 \<rparr> \<rparr>))"

definition partial_event :: "('f, 'k, 'o, 'a, 'c) stream \<Rightarrow> int \<Rightarrow> stream_event" where
  "partial_event s position =
    (blank_event Ev_partial_text)
      \<lparr> ev_text := de_partial_text (st_dec s), ev_revision := de_partial_revision (st_dec s),
        ev_stable_prefix_bytes := de_partial_stable_bytes (st_dec s),
        ev_audio_end_sample := audio_end_sample_for position,
        ev_t_audio_ms := event_ms (audio_end_sample_for position) (sp_sample_rate (st_params s)) \<rparr>"

definition emit_partial_text_event ::
  "('f, 'k, 'o, 'a, 'c) stream \<Rightarrow> int \<Rightarrow> ('f, 'k, 'o, 'a, 'c) stream" where
  "emit_partial_text_event s position =
    (let s1 = s \<lparr> st_dec := (st_dec s) \<lparr> de_partial_revision := de_partial_revision (st_dec s) + 1 \<rparr> \<rparr>
     in snd (push_event_coalesced s1 (partial_event s1 position)))"

definition emit_final_and_completed ::
  "('f, 'k, 'o, 'a, 'c) stream \<Rightarrow> ('f, 'k, 'o, 'a, 'c) stream" where
  "emit_final_and_completed s =
    (let t_ms = samples_to_ms (lc_total_samples_received (st_life s)) (sp_sample_rate (st_params s));
         s1 = snd (push_event s ((blank_event Ev_final_text)
                \<lparr> ev_text := de_transcript (st_dec s), ev_t_audio_ms := t_ms \<rparr>))
     in snd (push_event s1 ((blank_event Ev_completed) \<lparr> ev_t_audio_ms := t_ms \<rparr>)))"

definition emit_error ::
  "('f, 'k, 'o, 'a, 'c) stream \<Rightarrow> status \<Rightarrow> string \<Rightarrow> ('f, 'k, 'o, 'a, 'c) stream" where
  "emit_error s code msg =
    snd (push_event s ((blank_event Ev_error)
      \<lparr> ev_text := msg, ev_error_code := status_code code,
        ev_t_audio_ms := samples_to_ms (lc_total_samples_received (st_life s)) (sp_sample_rate (st_params s)) \<rparr>))"

definition stream_poll_event ::
  "('f, 'k, 'o, 'a, 'c) stream \<Rightarrow> (stream_event \<times> ('f, 'k, 'o, 'a, 'c) stream) option" where
  "stream_poll_event s =
    (case ev_queue (st_ev s) of
       [] \<Rightarrow> None
     | ev # q \<Rightarrow> Some (ev, s \<lparr> st_ev := (st_ev s) \<lparr> ev_queue := q \<rparr> \<rparr>))"

definition stream_pending_events :: "('f, 'k, 'o, 'a, 'c) stream \<Rightarrow> int" where
  "stream_pending_events s = int (length (ev_queue (st_ev s)))"

definition stream_set_event_capacity ::
  "('f, 'k, 'o, 'a, 'c) stream \<Rightarrow> int \<Rightarrow> bool \<times> ('f, 'k, 'o, 'a, 'c) stream" where
  "stream_set_event_capacity s max_events =
    (if max_events = 0 \<or> max_events_default < max_events \<or> lc_state (st_life s) \<noteq> Created \<or>
        ev_queue (st_ev s) \<noteq> []
     then (False, s)
     else (True, s \<lparr> st_ev := (st_ev s) \<lparr> ev_max_events := max_events \<rparr> \<rparr>))"

section \<open>What a push does to the queue\<close>

text \<open>The events that must not be lost.\<close>

definition mandatory :: "stream_event list \<Rightarrow> stream_event list" where
  "mandatory q = List.filter (\<lambda>e. \<not> is_partial e) q"

lemma mandatory_simps [simp]:
  "mandatory [] = []"
  "mandatory (e # q) = (if is_partial e then mandatory q else e # mandatory q)"
  "mandatory (p @ q) = mandatory p @ mandatory q"
  by (simp_all add: mandatory_def)

lemma mandatory_rev: "mandatory (rev q) = rev (mandatory q)"
  by (simp add: mandatory_def rev_filter)

lemma erase_first_partial_Some:
  "erase_first_partial q = Some r \<Longrightarrow> mandatory r = mandatory q \<and> length q = Suc (length r)"
  by (induction q arbitrary: r) (auto split: if_splits)

lemma replace_first_partial_Some:
  "replace_first_partial ev q = Some r \<Longrightarrow> is_partial ev \<Longrightarrow>
   mandatory r = mandatory q \<and> length r = length q \<and> hd (List.filter is_partial r) = ev"
  by (induction q arbitrary: r) (auto split: if_splits)

lemma replace_last_partial_Some:
  assumes "replace_last_partial ev q = Some r" "is_partial ev"
  shows "mandatory r = mandatory q" "length r = length q"
proof -
  obtain r1 where r1: "replace_first_partial ev (rev q) = Some r1" "r = rev r1"
    using assms by (auto simp: replace_last_partial_def)
  show "mandatory r = mandatory q" "length r = length q"
    using replace_first_partial_Some [OF r1(1) assms(2)] by (simp_all add: r1(2) mandatory_rev)
qed

lemma is_partial_events [simp]:
  "\<not> is_partial (token_event s piece token position special)"
  "is_partial (partial_event s position)"
  by (simp_all add: is_partial_def token_event_def partial_event_def blank_event_def)

lemma note_enqueued_simps [simp]:
  "ev_queue (note_enqueued t e) = ev_queue e"
  "ev_max_events (note_enqueued t e) = ev_max_events e"
  "ev_finalizing_flush (note_enqueued t e) = ev_finalizing_flush e"
  "ev_decoder_backpressured (note_enqueued t e) = ev_decoder_backpressured e"
  "ev_aggressive_partial_coalescing (note_enqueued t e) = ev_aggressive_partial_coalescing e"
  "ev_dropped (note_enqueued t e) = ev_dropped e"
  "ev_public_poll_sequence (note_enqueued t e) = ev_public_poll_sequence e"
  by (simp_all add: note_enqueued_def Let_def)

lemma enqueue_simps [simp]:
  "ev_queue (enqueue ev e) = ev_queue e @ [ev]"
  "ev_max_events (enqueue ev e) = ev_max_events e"
  "ev_finalizing_flush (enqueue ev e) = ev_finalizing_flush e"
  "ev_decoder_backpressured (enqueue ev e) = ev_decoder_backpressured e"
  "ev_aggressive_partial_coalescing (enqueue ev e) = ev_aggressive_partial_coalescing e"
  "ev_dropped (enqueue ev e) = ev_dropped e"
  "ev_public_poll_sequence (enqueue ev e) = ev_public_poll_sequence e"
  by (simp_all add: enqueue_def)

lemma event_bound_simps [simp]:
  "event_bound (enqueue ev e) = event_bound e"
  "event_bound (coalesced q e) = event_bound e"
  "event_bound (e \<lparr> ev_queue := q \<rparr>) = event_bound e"
  "event_bound (e \<lparr> ev_decoder_backpressured := b \<rparr>) = event_bound e"
  "event_bound (e \<lparr> ev_aggressive_partial_coalescing := b \<rparr>) = event_bound e"
  by (simp_all add: event_bound_def coalesced_def)

lemma coalesced_simps [simp]:
  "ev_queue (coalesced q e) = q"
  "ev_max_events (coalesced q e) = ev_max_events e"
  "ev_finalizing_flush (coalesced q e) = ev_finalizing_flush e"
  "ev_decoder_backpressured (coalesced q e) = ev_decoder_backpressured e"
  "ev_aggressive_partial_coalescing (coalesced q e) = ev_aggressive_partial_coalescing e"
  "ev_dropped (coalesced q e) = ev_dropped e"
  "ev_public_poll_sequence (coalesced q e) = ev_public_poll_sequence e"
  by (simp_all add: coalesced_def)

text \<open>Everything but the event part and the error fields is left alone.\<close>

definition same_but_events ::
  "('f, 'k, 'o, 'a, 'c) stream \<Rightarrow> ('f, 'k, 'o, 'a, 'c) stream \<Rightarrow> bool" where
  "same_but_events s t \<longleftrightarrow> st_ctx t = st_ctx s \<and> st_model t = st_model s \<and> st_params t = st_params s \<and>
     st_front t = st_front s \<and> st_dec t = st_dec s \<and> st_diag t = st_diag s \<and>
     st_owns_context t = st_owns_context s \<and> lc_state (st_life t) = lc_state (st_life s) \<and>
     ev_max_events (st_ev t) = ev_max_events (st_ev s) \<and>
     ev_finalizing_flush (st_ev t) = ev_finalizing_flush (st_ev s) \<and>
     ev_decoder_backpressured (st_ev t) = ev_decoder_backpressured (st_ev s) \<and>
     ev_aggressive_partial_coalescing (st_ev t) = ev_aggressive_partial_coalescing (st_ev s) \<and>
     ev_dropped (st_ev t) = ev_dropped (st_ev s)"

text \<open>The contract of a push that cannot lose a mandatory event: it is appended and reported, or the
queue keeps its mandatory events and the refusal is reported.\<close>

definition push_ok ::
  "('f, 'k, 'o, 'a, 'c) stream \<Rightarrow> stream_event \<Rightarrow> bool \<times> ('f, 'k, 'o, 'a, 'c) stream \<Rightarrow> bool" where
  "push_ok s ev r \<longleftrightarrow>
    mandatory (ev_queue (st_ev (snd r))) =
      mandatory (ev_queue (st_ev s)) @ (if fst r \<and> \<not> is_partial ev then [ev] else []) \<and>
    same_but_events s (snd r) \<and>
    (int (length (ev_queue (st_ev s))) \<le> event_bound (st_ev s) \<longrightarrow>
       int (length (ev_queue (st_ev (snd r)))) \<le> event_bound (st_ev s)) \<and>
    (\<not> fst r \<longrightarrow> event_bound (st_ev s) \<le> int (length (ev_queue (st_ev s))))"

lemma push_event_ok:
  assumes "\<not> is_partial ev"
  shows "push_ok s ev (push_event s ev)"
  using assms by (auto simp: push_ok_def push_event_def same_but_events_def Let_def)

lemma push_event_accepts:
  "int (length (ev_queue (st_ev s))) < event_bound (st_ev s) \<Longrightarrow>
   push_event s ev = (True, s \<lparr> st_ev := enqueue ev (st_ev s) \<rparr>)"
  by (simp add: push_event_def Let_def)

lemma push_bounded_coalesced_ok: "push_ok s ev (push_bounded_coalesced s ev)"
proof (cases "is_partial ev")
  case True
  show ?thesis
    using True replace_last_partial_Some [of ev "ev_queue (st_ev s)"]
    by (auto simp: push_ok_def push_bounded_coalesced_def same_but_events_def split: option.split)
next
  case False
  show ?thesis
  proof (cases "int (length (ev_queue (st_ev s))) < event_bound (st_ev s)")
    case True
    then show ?thesis using False by (simp add: push_ok_def push_bounded_coalesced_def same_but_events_def)
  next
    case full: False
    then show ?thesis using False push_event_ok [OF False, of s] by (simp add: push_bounded_coalesced_def)
  qed
qed

lemma push_event_coalesced_ok: "push_ok s ev (push_event_coalesced s ev)"
proof (cases "is_partial ev \<and> ev_aggressive_partial_coalescing (st_ev s)")
  case True
  show ?thesis
  proof (cases "erase_first_partial (ev_queue (st_ev s))")
    case None
    then show ?thesis using True push_bounded_coalesced_ok [of s ev] by (simp add: push_event_coalesced_def)
  next
    case (Some q)
    show ?thesis
      using True Some erase_first_partial_Some [OF Some]
      by (auto simp: push_ok_def push_event_coalesced_def same_but_events_def)
  qed
next
  case False
  then have "push_event_coalesced s ev = push_bounded_coalesced s ev" by (auto simp: push_event_coalesced_def)
  then show ?thesis using push_bounded_coalesced_ok [of s ev] by simp
qed

section \<open>The queue refines an unbounded FIFO of mandatory events\<close>

datatype queue_op = Push stream_event | PushCoalesced stream_event | Poll

text \<open>Pushing a partial text always goes through the coalescing push in the source.\<close>

definition op_ok :: "queue_op \<Rightarrow> bool" where
  "op_ok op = (case op of Push ev \<Rightarrow> \<not> is_partial ev | _ \<Rightarrow> True)"

text \<open>A run of operations: the mandatory events whose push succeeded, the events polled, and the
final state.\<close>

fun queue_run ::
  "('f, 'k, 'o, 'a, 'c) stream \<Rightarrow> queue_op list \<Rightarrow>
   stream_event list \<times> stream_event list \<times> ('f, 'k, 'o, 'a, 'c) stream" where
  "queue_run s [] = ([], [], s)"
| "queue_run s (Push ev # ops) =
    (let (ok, s1) = push_event s ev; (acc, out, s2) = queue_run s1 ops
     in (if ok then ev # acc else acc, out, s2))"
| "queue_run s (PushCoalesced ev # ops) =
    (let (ok, s1) = push_event_coalesced s ev; (acc, out, s2) = queue_run s1 ops
     in (if ok \<and> \<not> is_partial ev then ev # acc else acc, out, s2))"
| "queue_run s (Poll # ops) =
    (case stream_poll_event s of
       None \<Rightarrow> queue_run s ops
     | Some (ev, s1) \<Rightarrow> let (acc, out, s2) = queue_run s1 ops in (acc, ev # out, s2))"

definition queue_within_bound :: "('f, 'k, 'o, 'a, 'c) stream \<Rightarrow> bool" where
  "queue_within_bound s \<longleftrightarrow> int (length (ev_queue (st_ev s))) \<le> event_bound (st_ev s)"

lemma same_but_events_refl [simp]: "same_but_events s s"
  by (simp add: same_but_events_def)

lemma same_but_events_trans: "same_but_events s t \<Longrightarrow> same_but_events t u \<Longrightarrow> same_but_events s u"
  unfolding same_but_events_def by (elim conjE, intro conjI) (erule (1) trans)+

lemma same_but_events_bound: "same_but_events s t \<Longrightarrow> event_bound (st_ev t) = event_bound (st_ev s)"
  by (simp add: same_but_events_def event_bound_def)

lemma push_okD:
  assumes "push_ok s ev (ok, s1)"
  shows "mandatory (ev_queue (st_ev s1)) = mandatory (ev_queue (st_ev s)) @ (if ok \<and> \<not> is_partial ev then [ev] else [])"
    and "same_but_events s s1"
  using assms unfolding push_ok_def by simp_all

lemma queue_within_bound_simps [simp]:
  "queue_within_bound (s \<lparr> st_dec := d \<rparr>) = queue_within_bound s"
  "queue_within_bound (s \<lparr> st_ctx := x \<rparr>) = queue_within_bound s"
  "queue_within_bound (s \<lparr> st_model := m \<rparr>) = queue_within_bound s"
  "queue_within_bound (s \<lparr> st_diag := g \<rparr>) = queue_within_bound s"
  "queue_within_bound (s \<lparr> st_front := f \<rparr>) = queue_within_bound s"
  "queue_within_bound (s \<lparr> st_life := l \<rparr>) = queue_within_bound s"
  "queue_within_bound (s \<lparr> st_ev := e \<rparr>) = (int (length (ev_queue e)) \<le> event_bound e)"
  by (simp_all add: queue_within_bound_def)

lemma push_ok_bound: "push_ok s ev (ok, s1) \<Longrightarrow> queue_within_bound s \<Longrightarrow> queue_within_bound s1"
  by (auto simp: push_ok_def queue_within_bound_def same_but_events_def event_bound_def)

lemma queue_run_ok:
  assumes "\<forall>op \<in> set ops. op_ok op" and "queue_within_bound s" and "queue_run s ops = (acc, out, s2)"
  shows "mandatory out @ mandatory (ev_queue (st_ev s2)) = mandatory (ev_queue (st_ev s)) @ acc \<and>
    queue_within_bound s2 \<and> same_but_events s s2"
  using assms
proof (induction ops arbitrary: s acc out s2)
  case Nil
  then show ?case by (simp add: same_but_events_def)
next
  case (Cons op ops)
  note ih = Cons.IH and pr = Cons.prems
  show ?case
  proof (cases op)
    case (Push ev)
    obtain ok s1 where p: "push_event s ev = (ok, s1)" by force
    obtain acc1 out1 s3 where r: "queue_run s1 ops = (acc1, out1, s3)" by (cases "queue_run s1 ops") auto
    have np: "\<not> is_partial ev" using pr(1) Push by (simp add: op_ok_def)
    have k: "push_ok s ev (ok, s1)" using push_event_ok [OF np, of s] p by simp
    have "mandatory out1 @ mandatory (ev_queue (st_ev s3)) = mandatory (ev_queue (st_ev s1)) @ acc1 \<and>
        queue_within_bound s3 \<and> same_but_events s1 s3"
      by (rule ih [OF _ push_ok_bound [OF k pr(2)] r]) (use pr(1) in simp)
    moreover have "acc = (if ok then ev # acc1 else acc1)" "out = out1" "s2 = s3"
      using pr(3) by (simp_all add: Push p r)
    ultimately show ?thesis using push_okD [OF k] np same_but_events_trans [of s s1 s3] by simp
  next
    case (PushCoalesced ev)
    obtain ok s1 where p: "push_event_coalesced s ev = (ok, s1)" by force
    obtain acc1 out1 s3 where r: "queue_run s1 ops = (acc1, out1, s3)" by (cases "queue_run s1 ops") auto
    have k: "push_ok s ev (ok, s1)" using push_event_coalesced_ok [of s ev] p by simp
    have "mandatory out1 @ mandatory (ev_queue (st_ev s3)) = mandatory (ev_queue (st_ev s1)) @ acc1 \<and>
        queue_within_bound s3 \<and> same_but_events s1 s3"
      by (rule ih [OF _ push_ok_bound [OF k pr(2)] r]) (use pr(1) in simp)
    moreover have "acc = (if ok \<and> \<not> is_partial ev then ev # acc1 else acc1)" "out = out1" "s2 = s3"
      using pr(3) by (simp_all add: PushCoalesced p r)
    ultimately show ?thesis using push_okD [OF k] same_but_events_trans [of s s1 s3] by simp
  next
    case Poll
    show ?thesis
    proof (cases "ev_queue (st_ev s)")
      case Nil
      then show ?thesis using pr ih Poll by (simp add: stream_poll_event_def)
    next
      case (Cons ev q)
      define s1 where "s1 = s \<lparr> st_ev := (st_ev s) \<lparr> ev_queue := q \<rparr> \<rparr>"
      obtain acc1 out1 s3 where r: "queue_run s1 ops = (acc1, out1, s3)" by (cases "queue_run s1 ops") auto
      have w: "queue_within_bound s1" using pr(2) Cons by (simp add: queue_within_bound_def s1_def event_bound_def)
      have "mandatory out1 @ mandatory (ev_queue (st_ev s3)) = mandatory (ev_queue (st_ev s1)) @ acc1 \<and>
          queue_within_bound s3 \<and> same_but_events s1 s3"
        by (rule ih [OF _ w r]) (use pr(1) in simp)
      moreover have "same_but_events s s1" by (simp add: s1_def same_but_events_def)
      moreover have "acc = acc1" "out = ev # out1" "s2 = s3"
        using pr(3) Cons r by (simp_all add: Poll stream_poll_event_def s1_def [symmetric])
      moreover have "ev_queue (st_ev s1) = q" by (simp add: s1_def)
      ultimately show ?thesis using Cons same_but_events_trans [of s s1 s3] by simp
    qed
  qed
qed


definition witness_token :: "int \<Rightarrow> stream_event" where
  "witness_token n = (blank_event Ev_token) \<lparr> ev_token := n \<rparr>"

definition witness_queue_stream :: "(nat, unit, unit, unit, unit) stream" where
  "witness_queue_stream =
    (let s = new_stream None default_params in s \<lparr> st_ev := (st_ev s) \<lparr> ev_max_events := 2 \<rparr> \<rparr>)"


end
