(* ===== verification/StreamDecoder.thy ===== *)
theory StreamDecoder
  imports StreamEvents
begin

text \<open>The adapter and decoder scheduler of \<open>src/src/voxtral-stream-decoder.cpp\<close> and the opt-in output
hashing of \<open>src/src/voxtral-stream-diagnostics.cpp\<close>: one pass commits the ready adapter groups into
the audio-embedding ring, prefills the decoder once, delivers a token stashed under backpressure, and
runs every ready decoder step.  Latency markers are not modelled.\<close>

unbundle bit_operations_syntax

section \<open>Diagnostic output hashing\<close>

text \<open>\<open>read_realtime_ring_rows\<close>: the rows of at most two contiguous reads, \<^term>\<open>None\<close> when refused.\<close>

function read_ring_loop :: "(int \<Rightarrow> 'v) \<Rightarrow> int \<Rightarrow> int \<Rightarrow> int \<Rightarrow> 'v list" where
  "read_ring_loop ring absolute_start rows rows_done =
    (if rows_done < rows
     then let slot = i32 ((absolute_start + rows_done) mod 256);
              count = min (rows - rows_done) (256 - slot)
          in if count \<le> 0 then []
             else List.map ring [slot..slot + count - 1] @ read_ring_loop ring absolute_start rows (rows_done + count)
     else [])"
  by auto
termination by (relation "measure (\<lambda>(ring, a, n, d). nat (n - d))") auto

declare read_ring_loop.simps [simp del]

definition read_realtime_ring_rows :: "(int \<Rightarrow> 'v) \<Rightarrow> int \<Rightarrow> int \<Rightarrow> 'v list option" where
  "read_realtime_ring_rows ring absolute_start rows =
    (if absolute_start < 0 \<or> rows \<le> 0 \<or> 256 < rows then None
     else Some (read_ring_loop ring absolute_start rows 0))"

text \<open>\<open>voxtral_encoder_stream_output_frames\<close> of the KV encoder.\<close>

definition encoder_output_frames :: "('m, 'k, 'o) enc_stream \<Rightarrow> int" where
  "encoder_output_frames enc = i32 (ek_emitted (es_kv enc))"

definition capture_new_encoder_output_sha ::
  "('f, 'k, 'o, 'a, 'c) runtime \<Rightarrow> ('f, 'k, 'o, 'a, 'c) stream \<Rightarrow> bool \<times> ('f, 'k, 'o, 'a, 'c) stream" where
  "capture_new_encoder_output_sha rt s =
    (if \<not> dg_capture_output_sha (st_diag s) \<or> \<not> de_incremental (st_dec s) \<or> st_ctx s = None then (True, s)
     else case fr_enc (st_front s) of
       None \<Rightarrow> (True, s)
     | Some enc \<Rightarrow>
         let available = encoder_output_frames enc;
             count = available - dg_encoder_sha_rows (st_diag s)
         in if count \<le> 0 then (True, s)
            else if 256 < count
            then (False, set_error s St_backend_error ''encoder SHA capture fell behind bounded output ring'')
            else case read_realtime_ring_rows (ek_out_ring (es_kv enc)) (dg_encoder_sha_rows (st_diag s)) count of
              None \<Rightarrow> (False, set_error s St_backend_error ''encoder SHA diagnostic readback failed'')
            | Some rows \<Rightarrow>
                let bytes = concat (List.map (rt_enc_row_bytes rt) rows)
                in (True, s \<lparr> st_diag := (st_diag s)
                      \<lparr> dg_encoder_output_sha := sha_update (dg_encoder_output_sha (st_diag s)) bytes,
                        dg_output_sha_d2h_bytes := dg_output_sha_d2h_bytes (st_diag s) + int (length bytes),
                        dg_encoder_sha_rows := available \<rparr> \<rparr>))"

definition capture_new_adapter_output_sha ::
  "('f, 'k, 'o, 'a, 'c) runtime \<Rightarrow> ('f, 'k, 'o, 'a, 'c) stream \<Rightarrow> int \<Rightarrow> int
   \<Rightarrow> bool \<times> ('f, 'k, 'o, 'a, 'c) stream" where
  "capture_new_adapter_output_sha rt s start count =
    (if \<not> dg_capture_output_sha (st_diag s) \<or> \<not> de_incremental (st_dec s) \<or> count \<le> 0 then (True, s)
     else case st_ctx s of
       None \<Rightarrow> (True, s)
     | Some ctx \<Rightarrow>
         if 256 < count \<or> start \<noteq> dg_adapter_sha_rows (st_diag s)
         then (False, set_error s St_backend_error ''adapter SHA capture lost monotonic ring position'')
         else case read_realtime_ring_rows (cx_aemb_ring (sx_dec ctx)) start count of
           None \<Rightarrow> (False, set_error s St_backend_error ''adapter SHA diagnostic readback failed'')
         | Some rows \<Rightarrow>
             let bytes = concat (List.map (rt_aemb_row_bytes rt) rows)
             in (True, s \<lparr> st_diag := (st_diag s)
                   \<lparr> dg_adapter_output_sha := sha_update (dg_adapter_output_sha (st_diag s)) bytes,
                     dg_output_sha_d2h_bytes := dg_output_sha_d2h_bytes (st_diag s) + int (length bytes),
                     dg_adapter_sha_rows := dg_adapter_sha_rows (st_diag s) + count \<rparr> \<rparr>))"

section \<open>Prompt and detokenizer\<close>

definition build_prompt_ids :: "('f, 'k, 'o, 'a, 'c) stream \<Rightarrow> ('f, 'k, 'o, 'a, 'c) stream" where
  "build_prompt_ids s =
    (if de_prompt_ids (st_dec s) \<noteq> [] then s
     else s \<lparr> st_dec := (st_dec s) \<lparr> de_prompt_ids := 1 # replicate (32 + 6) 32 \<rparr> \<rparr>)"

definition byte_at :: "string \<Rightarrow> nat \<Rightarrow> int" where
  "byte_at text i = of_char (text ! i)"

fun skip_continuations :: "string \<Rightarrow> nat \<Rightarrow> nat" where
  "skip_continuations text 0 = 0"
| "skip_continuations text (Suc i) =
    (if byte_at text i AND 0xC0 = 0x80 then skip_continuations text i else Suc i)"

definition lead_need :: "int \<Rightarrow> nat" where
  "lead_need lead =
    (if lead AND 0x80 = 0x00 then 1
     else if lead AND 0xE0 = 0xC0 then 2
     else if lead AND 0xF0 = 0xE0 then 3
     else if lead AND 0xF8 = 0xF0 then 4
     else 1)"

definition utf8_stable_prefix :: "string \<Rightarrow> nat" where
  "utf8_stable_prefix text =
    (let i = skip_continuations text (length text) in
     if i = 0 then length text
     else let need = lead_need (byte_at text (i - 1))
          in if (i - 1) + need \<le> length text then length text else i - 1)"

definition append_token_to_partial ::
  "('f, 'k, 'o, 'a, 'c) stream \<Rightarrow> int \<Rightarrow> ('f, 'k, 'o, 'a, 'c) stream" where
  "append_token_to_partial s token =
    (let (piece, model1) = token_piece (st_model s) token;
         text = de_partial_text (st_dec s) @ piece
     in s \<lparr> st_model := model1,
            st_dec := (st_dec s) \<lparr> de_partial_text := text,
                                  de_partial_stable_bytes := int (utf8_stable_prefix text) \<rparr> \<rparr>)"

section \<open>One scheduler pass\<close>

definition is_special_token :: "int \<Rightarrow> bool" where
  "is_special_token tok \<longleftrightarrow> tok = 2 \<or> tok = 1 \<or> tok = 32"

text \<open>Delivery of a token whose decoder step already ran.\<close>

definition commit_pending ::
  "('f, 'k, 'o, 'a, 'c) stream \<Rightarrow> bool \<times> ('f, 'k, 'o, 'a, 'c) stream" where
  "commit_pending s =
    (let pending = de_pending (st_dec s) in
     if \<not> pt_valid pending then (True, s)
     else case emit_token_event s (pt_token pending) (pt_position pending) (pt_special pending) of
       (False, s1) \<Rightarrow> (False, s1 \<lparr> st_ev := (st_ev s1) \<lparr> ev_decoder_backpressured := True \<rparr> \<rparr>)
     | (True, s1) \<Rightarrow>
         let tok = pt_token pending;
             s2 = s1 \<lparr> st_dec := (st_dec s1) \<lparr> de_pending := (de_pending (st_dec s1)) \<lparr> pt_valid := False \<rparr> \<rparr> \<rparr>
         in if tok = 2 then (True, s2 \<lparr> st_dec := (st_dec s2) \<lparr> de_eos := True \<rparr> \<rparr>)
            else let s3 = s2 \<lparr> st_dec := (st_dec s2) \<lparr> de_tokens := de_tokens (st_dec s2) @ [tok] \<rparr> \<rparr>;
                     s4 = append_token_to_partial s3 tok;
                     s5 = emit_partial_text_event s4 (pt_position pending)
                 in (True, s5 \<lparr> st_dec := (st_dec s5)
                       \<lparr> de_tokens_emitted := de_tokens_emitted (st_dec s5) + 1,
                         de_prev_token := tok,
                         de_position := de_position (st_dec s5) + 1 \<rparr> \<rparr>))"

definition stash_token :: "('f, 'k, 'o, 'a, 'c) stream \<Rightarrow> int \<Rightarrow> ('f, 'k, 'o, 'a, 'c) stream" where
  "stash_token s tok =
    s \<lparr> st_dec := (st_dec s)
          \<lparr> de_pending := \<lparr> pt_valid = True, pt_token = tok, pt_position = de_position (st_dec s),
                           pt_special = is_special_token tok \<rparr> \<rparr> \<rparr>"

text \<open>What the emitters change outside the event queue.\<close>

lemma emit_token_event_result:
  assumes "emit_token_event s tok pos special = (ok, s1)"
  shows "st_dec s1 = (if ok then (st_dec s) \<lparr> de_token_sequence := de_token_sequence (st_dec s) + 1 \<rparr> else st_dec s)"
    and "st_model s1 = snd (token_piece (st_model s) tok)"
    and "st_ctx s1 = st_ctx s" "st_front s1 = st_front s" "st_params s1 = st_params s" "st_diag s1 = st_diag s"
    and "lc_state (st_life s1) = lc_state (st_life s)"
    and "event_bound (st_ev s1) = event_bound (st_ev s)"
    and "ev_decoder_backpressured (st_ev s1) = ev_decoder_backpressured (st_ev s)"
    and "queue_within_bound s \<Longrightarrow> queue_within_bound s1"
    and "\<not> ok \<Longrightarrow> event_bound (st_ev s) \<le> int (length (ev_queue (st_ev s)))"
proof -
  obtain piece model1 where p: "token_piece (st_model s) tok = (piece, model1)" by force
  define s0 where "s0 = s \<lparr> st_model := model1 \<rparr>"
  define ev where "ev = token_event s0 piece tok pos special"
  obtain ok2 s2 where r: "push_event_coalesced s0 ev = (ok2, s2)" by force
  have ok: "push_ok s0 ev (ok2, s2)" using push_event_coalesced_ok [of s0 ev] r by simp
  note sb = push_okD(2) [OF ok]
  have e: "ok = ok2" "s1 = (if ok2 then s2 \<lparr> st_dec := (st_dec s2) \<lparr> de_token_sequence := de_token_sequence (st_dec s2) + 1 \<rparr> \<rparr> else s2)"
    using assms p r by (auto simp: emit_token_event_def Let_def s0_def [symmetric] ev_def [symmetric] split: bool.splits)
  show "st_dec s1 = (if ok then (st_dec s) \<lparr> de_token_sequence := de_token_sequence (st_dec s) + 1 \<rparr> else st_dec s)"
    "st_model s1 = snd (token_piece (st_model s) tok)"
    "st_ctx s1 = st_ctx s" "st_front s1 = st_front s" "st_params s1 = st_params s" "st_diag s1 = st_diag s"
    "lc_state (st_life s1) = lc_state (st_life s)"
    "ev_decoder_backpressured (st_ev s1) = ev_decoder_backpressured (st_ev s)"
    using sb by (simp_all add: e same_but_events_def s0_def p)
  show b: "event_bound (st_ev s1) = event_bound (st_ev s)"
    using same_but_events_bound [OF sb] by (simp add: e s0_def)
  show "queue_within_bound s \<Longrightarrow> queue_within_bound s1"
    using push_ok_bound [OF ok] by (simp add: e s0_def queue_within_bound_def)
  show "\<not> ok \<Longrightarrow> event_bound (st_ev s) \<le> int (length (ev_queue (st_ev s)))"
    using ok by (simp add: push_ok_def e s0_def)
qed

lemma emit_partial_text_event_result:
  shows "st_dec (emit_partial_text_event s pos) = (st_dec s) \<lparr> de_partial_revision := de_partial_revision (st_dec s) + 1 \<rparr>"
    and "st_model (emit_partial_text_event s pos) = st_model s"
    and "st_ctx (emit_partial_text_event s pos) = st_ctx s"
    and "st_front (emit_partial_text_event s pos) = st_front s"
    and "st_params (emit_partial_text_event s pos) = st_params s"
    and "st_diag (emit_partial_text_event s pos) = st_diag s"
    and "lc_state (st_life (emit_partial_text_event s pos)) = lc_state (st_life s)"
    and "event_bound (st_ev (emit_partial_text_event s pos)) = event_bound (st_ev s)"
    and "ev_decoder_backpressured (st_ev (emit_partial_text_event s pos)) = ev_decoder_backpressured (st_ev s)"
    and "queue_within_bound s \<Longrightarrow> queue_within_bound (emit_partial_text_event s pos)"
    and "mandatory (ev_queue (st_ev (emit_partial_text_event s pos))) = mandatory (ev_queue (st_ev s))"
proof -
  define s0 where "s0 = s \<lparr> st_dec := (st_dec s) \<lparr> de_partial_revision := de_partial_revision (st_dec s) + 1 \<rparr> \<rparr>"
  define ev where "ev = partial_event s0 pos"
  obtain ok2 s2 where r: "push_event_coalesced s0 ev = (ok2, s2)" by force
  have ok: "push_ok s0 ev (ok2, s2)" using push_event_coalesced_ok [of s0 ev] r by simp
  note sb = push_okD(2) [OF ok]
  have e: "emit_partial_text_event s pos = s2"
    using r by (simp add: emit_partial_text_event_def Let_def s0_def [symmetric] ev_def [symmetric])
  have pa: "is_partial ev" by (simp add: ev_def)
  show "st_dec (emit_partial_text_event s pos) = (st_dec s) \<lparr> de_partial_revision := de_partial_revision (st_dec s) + 1 \<rparr>"
    "st_model (emit_partial_text_event s pos) = st_model s"
    "st_ctx (emit_partial_text_event s pos) = st_ctx s"
    "st_front (emit_partial_text_event s pos) = st_front s"
    "st_params (emit_partial_text_event s pos) = st_params s"
    "st_diag (emit_partial_text_event s pos) = st_diag s"
    "lc_state (st_life (emit_partial_text_event s pos)) = lc_state (st_life s)"
    "ev_decoder_backpressured (st_ev (emit_partial_text_event s pos)) = ev_decoder_backpressured (st_ev s)"
    using sb by (simp_all add: e same_but_events_def s0_def)
  show "event_bound (st_ev (emit_partial_text_event s pos)) = event_bound (st_ev s)"
    using same_but_events_bound [OF sb] by (simp add: e s0_def)
  show "queue_within_bound s \<Longrightarrow> queue_within_bound (emit_partial_text_event s pos)"
    using push_ok_bound [OF ok] by (simp add: e s0_def queue_within_bound_def)
  show "mandatory (ev_queue (st_ev (emit_partial_text_event s pos))) = mandatory (ev_queue (st_ev s))"
    using push_okD(1) [OF ok] pa by (simp add: e s0_def)
qed

lemma append_token_to_partial_result:
  "append_token_to_partial s tok = s \<lparr> st_model := snd (token_piece (st_model s) tok),
     st_dec := (st_dec s)
       \<lparr> de_partial_text := de_partial_text (st_dec s) @ fst (token_piece (st_model s) tok),
         de_partial_stable_bytes :=
           int (utf8_stable_prefix (de_partial_text (st_dec s) @ fst (token_piece (st_model s) tok))) \<rparr> \<rparr>"
  by (simp add: append_token_to_partial_def Let_def split: prod.split)

text \<open>The decoder part after a delivered token that is not the end of the stream.\<close>

definition advanced :: "decoder_part \<Rightarrow> int \<Rightarrow> string \<Rightarrow> decoder_part" where
  "advanced d tok piece = d
    \<lparr> de_token_sequence := de_token_sequence d + 1, de_pending := (de_pending d) \<lparr> pt_valid := False \<rparr>,
      de_tokens := de_tokens d @ [tok], de_partial_text := de_partial_text d @ piece,
      de_partial_stable_bytes := int (utf8_stable_prefix (de_partial_text d @ piece)),
      de_partial_revision := de_partial_revision d + 1, de_tokens_emitted := de_tokens_emitted d + 1,
      de_prev_token := tok, de_position := de_position d + 1 \<rparr>"

lemma commit_pending_result:
  assumes "commit_pending s = (ok, s1)" "pt_valid (de_pending (st_dec s))"
  defines "tok \<equiv> pt_token (de_pending (st_dec s))"
  defines "m1 \<equiv> snd (token_piece (st_model s) tok)"
  shows "\<not> ok \<Longrightarrow> st_dec s1 = st_dec s"
    and "ok \<Longrightarrow> tok = 2 \<Longrightarrow> st_dec s1 = (st_dec s) \<lparr> de_token_sequence := de_token_sequence (st_dec s) + 1,
           de_pending := (de_pending (st_dec s)) \<lparr> pt_valid := False \<rparr>, de_eos := True \<rparr>"
    and "ok \<Longrightarrow> tok \<noteq> 2 \<Longrightarrow> st_dec s1 = advanced (st_dec s) tok (fst (token_piece m1 tok))"
    and "st_model s1 = (if ok \<and> tok \<noteq> 2 then snd (token_piece m1 tok) else m1)"
    and "st_ctx s1 = st_ctx s" "st_front s1 = st_front s" "st_params s1 = st_params s" "st_diag s1 = st_diag s"
    and "lc_state (st_life s1) = lc_state (st_life s)"
    and "event_bound (st_ev s1) = event_bound (st_ev s)"
    and "ev_decoder_backpressured (st_ev s1) = (if ok then ev_decoder_backpressured (st_ev s) else True)"
    and "queue_within_bound s \<Longrightarrow> queue_within_bound s1"
    and "\<not> ok \<Longrightarrow> event_bound (st_ev s) \<le> int (length (ev_queue (st_ev s)))"
proof -
  let ?p = "de_pending (st_dec s)"
  obtain ok2 s2 where e: "emit_token_event s tok (pt_position ?p) (pt_special ?p) = (ok2, s2)" by force
  note r = emit_token_event_result [OF e]
  define s3 where "s3 = s2 \<lparr> st_dec := (st_dec s2) \<lparr> de_pending := (de_pending (st_dec s2)) \<lparr> pt_valid := False \<rparr> \<rparr> \<rparr>"
  define s4 where "s4 = append_token_to_partial (s3 \<lparr> st_dec := (st_dec s3) \<lparr> de_tokens := de_tokens (st_dec s3) @ [tok] \<rparr> \<rparr>) tok"
  define s5 where "s5 = emit_partial_text_event s4 (pt_position ?p)"
  have k: "ok = ok2" using assms(1,2) e by (auto simp: commit_pending_def Let_def tok_def split: bool.splits if_splits)
  have f: "s1 = (if \<not> ok2 then s2 \<lparr> st_ev := (st_ev s2) \<lparr> ev_decoder_backpressured := True \<rparr> \<rparr>
      else if tok = 2 then s3 \<lparr> st_dec := (st_dec s3) \<lparr> de_eos := True \<rparr> \<rparr>
      else s5 \<lparr> st_dec := (st_dec s5) \<lparr> de_tokens_emitted := de_tokens_emitted (st_dec s5) + 1, de_prev_token := tok,
                         de_position := de_position (st_dec s5) + 1 \<rparr> \<rparr>)"
    using assms(1,2) e
    by (auto simp: commit_pending_def Let_def tok_def s3_def s4_def s5_def split: bool.splits if_splits)
  note p5 = emit_partial_text_event_result [of s4 "pt_position ?p", folded s5_def]
  have m4: "st_model s4 = snd (token_piece m1 tok)" "st_ctx s4 = st_ctx s" "st_front s4 = st_front s"
      "st_params s4 = st_params s" "st_diag s4 = st_diag s" "lc_state (st_life s4) = lc_state (st_life s)"
      "st_ev s4 = st_ev s2"
    using r by (simp_all add: s4_def s3_def append_token_to_partial_result m1_def)
  show "\<not> ok \<Longrightarrow> st_dec s1 = st_dec s" using f k r by simp
  show "ok \<Longrightarrow> tok = 2 \<Longrightarrow> st_dec s1 = (st_dec s) \<lparr> de_token_sequence := de_token_sequence (st_dec s) + 1,
           de_pending := (de_pending (st_dec s)) \<lparr> pt_valid := False \<rparr>, de_eos := True \<rparr>"
    using f k r by (simp add: s3_def)
  show "ok \<Longrightarrow> tok \<noteq> 2 \<Longrightarrow> st_dec s1 = advanced (st_dec s) tok (fst (token_piece m1 tok))"
    using f k r p5 by (simp add: s4_def s3_def append_token_to_partial_result advanced_def m1_def)
  show "st_model s1 = (if ok \<and> tok \<noteq> 2 then snd (token_piece m1 tok) else m1)"
    using f k r p5 m4 by (simp add: s3_def m1_def)
  show "st_ctx s1 = st_ctx s" "st_front s1 = st_front s" "st_params s1 = st_params s" "st_diag s1 = st_diag s"
    "lc_state (st_life s1) = lc_state (st_life s)"
    using f r p5 m4 by (simp_all add: s3_def)
  show "event_bound (st_ev s1) = event_bound (st_ev s)"
    using f r p5 m4 by (simp add: s3_def)
  show "ev_decoder_backpressured (st_ev s1) = (if ok then ev_decoder_backpressured (st_ev s) else True)"
    using f k r p5 m4 by (simp add: s3_def)
  show "queue_within_bound s1" if w: "queue_within_bound s"
  proof -
    have w2: "queue_within_bound s2" by (rule r(10) [OF w])
    then have "queue_within_bound s4" using m4(7) by (simp add: queue_within_bound_def)
    then have w5: "queue_within_bound s5" by (rule p5(10))
    show ?thesis using f w2 w5 by (simp add: s3_def) (simp add: queue_within_bound_def)
  qed
  show "\<not> ok \<Longrightarrow> event_bound (st_ev s) \<le> int (length (ev_queue (st_ev s)))"
    using r k by simp
qed

lemma commit_pending_progress:
  assumes "commit_pending s = (True, s1)" "pt_valid (de_pending (st_dec s))"
  shows "de_eos (st_dec s1) \<or> de_position (st_dec s1) = de_position (st_dec s) + 1"
  using commit_pending_result(2,3) [OF assms]
  by (cases "pt_token (de_pending (st_dec s)) = 2") (simp_all add: advanced_def)

section \<open>The pass\<close>

text \<open>Stage 1, the adapter: how many groups may be committed, and the commit.\<close>

definition committable_groups :: "int \<Rightarrow> decoder_part \<Rightarrow> int" where
  "committable_groups enc_frames d =
    (let avail_groups = enc_frames div 4;
         consumed_floor = (if de_prefill_done d then de_position d else 0)
     in min avail_groups (consumed_floor + 256))"

definition pump_adapter ::
  "('f, 'k, 'o, 'a, 'c) runtime \<Rightarrow> ('f, 'k, 'o, 'a, 'c) stream_context \<Rightarrow> ('f list, 'k, 'o) enc_stream
   \<Rightarrow> ('f, 'k, 'o, 'a, 'c) stream \<Rightarrow> bool \<times> ('f, 'k, 'o, 'a, 'c) stream" where
  "pump_adapter rt ctx enc s =
    (let committed = de_adapter_groups_committed (st_dec s);
         committable = committable_groups (encoder_output_frames enc) (st_dec s)
     in if committed < committable
        then let n = i32 (committable - committed);
                 (result, dctx) = adapter_commit (rt_dec_gpu rt) (sx_dec ctx) (ek_out_ring (es_kv enc)) committed n;
                 s1 = s \<lparr> st_ctx := Some (ctx \<lparr> sx_dec := dctx \<rparr>) \<rparr>
             in if result < 0
                then (False, set_error s1 St_backend_error ''incremental adapter commit failed'')
                else case capture_new_adapter_output_sha rt s1 committed n of
                  (False, s2) \<Rightarrow> (False, s2)
                | (True, s2) \<Rightarrow>
                    (True, s2 \<lparr> st_dec := (st_dec s2)
                       \<lparr> de_adapter_groups_committed := committable,
                         de_adapter_commit_calls := de_adapter_commit_calls (st_dec s2) + 1 \<rparr> \<rparr>)
        else (True, s))"

text \<open>Stage 2, the one prefill over the prompt without its last token.\<close>

definition pump_prefill ::
  "('f, 'k, 'o, 'a, 'c) runtime \<Rightarrow> ('f, 'k, 'o, 'a, 'c) stream_context
   \<Rightarrow> ('f, 'k, 'o, 'a, 'c) stream \<Rightarrow> bool \<times> ('f, 'k, 'o, 'a, 'c) stream" where
  "pump_prefill rt ctx s =
    (let ids = de_prompt_ids (st_dec s);
         L = int (length ids)
     in if \<not> de_prefill_done (st_dec s) \<and> L - 1 \<le> de_adapter_groups_committed (st_dec s)
        then let (ok, dctx) = decoder_prefill_incremental (rt_dec_gpu rt)
                                (decoder_begin_incremental (sx_dec ctx)) (take (nat (L - 1)) ids);
                 s1 = s \<lparr> st_ctx := Some (ctx \<lparr> sx_dec := dctx \<rparr>) \<rparr>
             in if \<not> ok then (False, set_error s1 St_backend_error ''incremental decoder prefill failed'')
                else (True, s1 \<lparr> st_dec := (st_dec s1)
                        \<lparr> de_prefill_done := True, de_position := L - 1, de_prev_token := ids ! nat (L - 1) \<rparr> \<rparr>)
        else (True, s))"

text \<open>One decoder step: the graph, then the token is stashed.  \<^term>\<open>None\<close> when the graph failed.\<close>

definition run_step ::
  "('f, 'k, 'o, 'a, 'c) runtime \<Rightarrow> ('f, 'k, 'o, 'a, 'c) stream_context
   \<Rightarrow> ('f, 'k, 'o, 'a, 'c) stream \<Rightarrow> bool \<times> ('f, 'k, 'o, 'a, 'c) stream" where
  "run_step rt ctx s =
    (let (tok, dctx) = decoder_step_incremental (rt_dec_gpu rt) (sx_dec ctx) (de_prev_token (st_dec s))
                         (i32 (de_position (st_dec s)));
         s1 = s \<lparr> st_ctx := Some (ctx \<lparr> sx_dec := dctx \<rparr>) \<rparr>
     in case tok of
          None \<Rightarrow> (False, set_error s1 St_backend_error ''incremental decoder step failed'')
        | Some t \<Rightarrow> (True, stash_token (s1 \<lparr> st_dec := (st_dec s1) \<lparr> de_steps := de_steps (st_dec s1) + 1 \<rparr> \<rparr>) t))"

lemma run_step_decreases:
  assumes "run_step rt ctx s = (True, s1)" "commit_pending s1 = (True, s2)"
  shows "de_eos (st_dec s2) \<or> de_position (st_dec s2) = de_position (st_dec s) + 1"
proof -
  have "pt_valid (de_pending (st_dec s1)) \<and> de_position (st_dec s1) = de_position (st_dec s)"
    using assms(1) by (auto simp: run_step_def Let_def stash_token_def split: prod.splits option.splits)
  then show ?thesis using commit_pending_progress [OF assms(2)] by auto
qed

function pump_steps ::
  "('f, 'k, 'o, 'a, 'c) runtime \<Rightarrow> int \<Rightarrow> ('f, 'k, 'o, 'a, 'c) stream \<Rightarrow> status \<times> ('f, 'k, 'o, 'a, 'c) stream" where
  "pump_steps rt last_pos s =
    (let max_tokens = sp_max_tokens (st_params s) in
     if de_position (st_dec s) \<le> last_pos \<and> \<not> de_eos (st_dec s) \<and>
        (max_tokens \<le> 0 \<or> de_tokens_emitted (st_dec s) < max_tokens)
     then case st_ctx s of
            None \<Rightarrow> (St_ok, s)
          | Some ctx \<Rightarrow>
              (case run_step rt ctx s of
                 (False, s1) \<Rightarrow> (St_backend_error, s1)
               | (True, s1) \<Rightarrow>
                   (case commit_pending s1 of
                      (False, s2) \<Rightarrow> (St_limit_exceeded, s2)
                    | (True, s2) \<Rightarrow> pump_steps rt last_pos s2))
     else (St_ok, s))"
  by auto

termination
proof (relation "measure (\<lambda>(rt, last_pos, s). if de_eos (st_dec s) then 0 else nat (last_pos + 1 - de_position (st_dec s)))",
    goal_cases)
  case (2 rt last_pos s x ctx a s1 b s2)
  have "de_eos (st_dec s2) \<or> de_position (st_dec s2) = de_position (st_dec s) + 1"
    by (rule run_step_decreases [of rt ctx s s1]) (use 2 in simp_all)
  then show ?case using 2 by auto
qed simp

declare pump_steps.simps [simp del]

definition pump_incremental ::
  "('f, 'k, 'o, 'a, 'c) runtime \<Rightarrow> ('f, 'k, 'o, 'a, 'c) stream \<Rightarrow> status \<times> ('f, 'k, 'o, 'a, 'c) stream" where
  "pump_incremental rt s0 =
    (if \<not> de_incremental (st_dec s0) then (St_ok, s0)
     else case (fr_enc (st_front s0), st_ctx s0) of
       (Some enc, Some ctx) \<Rightarrow>
         (case pump_adapter rt ctx enc (build_prompt_ids s0) of
            (False, s1) \<Rightarrow> (St_backend_error, s1)
          | (True, s1) \<Rightarrow>
              (case pump_prefill rt (the (st_ctx s1)) s1 of
                 (False, s2) \<Rightarrow> (St_backend_error, s2)
               | (True, s2) \<Rightarrow>
                   if \<not> de_prefill_done (st_dec s2) then (St_ok, s2)
                   else (case commit_pending s2 of
                           (False, s3) \<Rightarrow> (St_limit_exceeded, s3)
                         | (True, s3) \<Rightarrow>
                             let s4 = s3 \<lparr> st_ev := (st_ev s3) \<lparr> ev_decoder_backpressured := False \<rparr> \<rparr>
                             in if de_eos (st_dec s4) then (St_ok, s4)
                                else pump_steps rt (de_adapter_groups_committed (st_dec s4) - 1) s4)))
     | _ \<Rightarrow> (St_ok, s0))"

end
