(* ===== verification/DecoderCorrect.thy ===== *)
theory DecoderCorrect
  imports DecoderRuntime KvCorrect
begin

text \<open>The adapter and the decoder steps over the device rings compute what the batch tail computes over
linear memory: one abstract autoregressive loop (\<open>core_loop\<close>) over the audio embeddings is what both
the batch loop and the single steps of the incremental decoder unfold.\<close>

section \<open>Audio embeddings of encoder frames\<close>

definition frame_group :: "'o list \<Rightarrow> nat \<Rightarrow> 'o list" where
  "frame_group frames g = take 4 (drop (4 * g) frames)"

definition frame_groups :: "'o list \<Rightarrow> 'o list list" where
  "frame_groups frames = List.map (frame_group frames) [0..<length frames div 4]"

text \<open>The embedding at an audio position.\<close>

definition embedding :: "('o list \<Rightarrow> 'a) \<Rightarrow> 'o list \<Rightarrow> int \<Rightarrow> 'a option" where
  "embedding adapter frames g =
    (if 0 \<le> g \<and> g < int (length frames div 4) then Some (adapter (frame_group frames (nat g))) else None)"

text \<open>What the development relies on of the graphs.  The source builds the batch and the incremental
graphs from the same layers: the adapter works group by group, whichever of its graphs runs, and the
reusable step graph, given the slot of the position and the number of valid rows, computes what the
step graph rebuilt from the cache plan computes.\<close>

definition adapter_graphs_agree :: "('o, 'a, 'c) decoder_gpu \<Rightarrow> ('o list \<Rightarrow> 'a) \<Rightarrow> bool" where
  "adapter_graphs_agree gpu adapter \<longleftrightarrow>
    (\<forall>rows. dg_adapter_ring gpu (List.map Some rows) = (List.map (\<lambda>g. Some (adapter g)) (frame_groups rows), True)) \<and>
    (\<forall>rows. dg_adapter_linear gpu rows = Some (List.map adapter (frame_groups rows)))"

definition step_graphs_agree :: "('o, 'a, 'c) decoder_gpu \<Rightarrow> int \<Rightarrow> bool" where
  "step_graphs_agree gpu cap \<longleftrightarrow>
    (\<forall>dev kv pos plan tok a. decoder_kv_plan kv pos 1 = Some plan \<and> rg_capacity kv = cap \<longrightarrow>
       dg_step_fixed gpu dev (dp_used_after plan = cap) (pos mod cap) (i32 (dp_used_after plan)) tok pos (Some a)
       = dg_step_dynamic gpu dev plan tok pos (Some a))"

lemma frame_group_prefix:
  "4 * g + 4 \<le> length frames \<Longrightarrow> frame_group (frames @ later) g = frame_group frames g"
  by (simp add: frame_group_def)

lemma embedding_prefix:
  assumes "0 \<le> g" "g < int (length frames div 4)"
  shows "embedding adapter (frames @ later) g = embedding adapter frames g"
proof -
  have n: "nat g < length frames div 4" using assms by (simp add: nat_less_iff)
  then have l: "4 * nat g + 4 \<le> length frames" by linarith
  have "length frames div 4 \<le> length (frames @ later) div 4" by (intro div_le_mono) simp
  then have "nat g < length (frames @ later) div 4" using n by linarith
  then show ?thesis using assms frame_group_prefix [OF l] by (simp add: embedding_def)
qed

section \<open>Adapter commits\<close>

lemma i32_mod256 [simp]: "i32 (x mod 256) = x mod 256"
proof -
  have "0 \<le> x mod 256" "x mod 256 < 256" by simp_all
  then show ?thesis by (intro i32_id) auto
qed

lemma upto_from: "[start..start + run - 1] = List.map (\<lambda>i. start + i) [0..run - (1::int)]"
proof -
  have "List.map (\<lambda>i. i + start) [0..run - 1] = [0 + start..run - 1 + start]" by (rule upto_shift)
  also have "0 + start = start" by simp
  also have "run - 1 + start = start + run - 1" by simp
  finally show ?thesis by (simp only: add.commute)
qed

lemma le_div4: "4 * x \<le> int n \<Longrightarrow> x \<le> int (n div 4)"
  by (simp add: zdiv_int)

text \<open>The audio ring holds the embeddings of the groups from \<open>lo\<close> up to \<open>hi\<close>.\<close>

definition aemb_holds :: "(int \<Rightarrow> 'a option) \<Rightarrow> (int \<Rightarrow> 'a option) \<Rightarrow> int \<Rightarrow> int \<Rightarrow> bool" where
  "aemb_holds emb ring lo hi \<longleftrightarrow> (\<forall>g. lo \<le> g \<and> g < hi \<longrightarrow> ring (g mod 256) = emb g)"

lemma set_rows_notin: "k \<notin> set slots \<Longrightarrow> set_rows ring slots rows k = ring k"
  unfolding set_rows_def by (rule fold_upd_notin)

lemma set_rows_nth:
  "distinct slots \<Longrightarrow> length slots = length rows \<Longrightarrow> i < length slots \<Longrightarrow> set_rows ring slots rows (slots ! i) = rows ! i"
  unfolding set_rows_def by (rule fold_upd_nth)

lemma adapter_audio_rows_eq:
  assumes "0 \<le> run"
  shows "adapter_audio_rows start run = List.map (\<lambda>g. g mod 256) [start..start + run - 1]"
proof -
  show ?thesis unfolding upto_from adapter_audio_rows_def by (simp add: o_def)
qed

lemma distinct_mod_window:
  assumes "n \<le> 256"
  shows "distinct (List.map (\<lambda>g. g mod 256) [start..start + n - (1::int)])"
  unfolding distinct_map
proof (intro conjI inj_onI)
  fix a b assume "a \<in> set [start..start + n - 1]" "b \<in> set [start..start + n - 1]" and eq: "a mod 256 = b mod (256::int)"
  then have "a - b < 256" "b - a < 256" using assms by auto
  then show "a = b" using eq mod_distinct [of a b 256] mod_distinct [of b a 256] by force
qed simp

lemma set_rows_window:
  assumes "aemb_holds emb ring lo start" "0 \<le> n" "n \<le> 256" "start + n - 256 \<le> lo"
    and "length rows = nat n" "\<forall>i < nat n. rows ! i = emb (start + int i)"
  shows "aemb_holds emb (set_rows ring (adapter_audio_rows start n) rows) lo (start + n)"
  unfolding aemb_holds_def
proof (intro allI impI)
  fix g assume g: "lo \<le> g \<and> g < start + n"
  let ?slots = "List.map (\<lambda>g. g mod 256) [start..start + n - 1]"
  show "set_rows ring (adapter_audio_rows start n) rows (g mod 256) = emb g"
    unfolding adapter_audio_rows_eq [OF assms(2)]
  proof (cases "g < start")
    case True
    have "g mod 256 \<notin> set ?slots"
    proof
      assume "g mod 256 \<in> set ?slots"
      then obtain q where "start \<le> q" "q < start + n" "g mod 256 = q mod 256" by auto
      then show False using mod_distinct [of g q 256] True g assms(4) by auto
    qed
    then show "set_rows ring ?slots rows (g mod 256) = emb g"
      using assms(1) True g by (simp add: set_rows_notin aemb_holds_def)
  next
    case False
    define i where "i = nat (g - start)"
    have i: "i < nat n" "start + int i = g" using g False by (auto simp: i_def)
    have "?slots ! i = g mod 256" using i by simp
    moreover have "set_rows ring ?slots rows (?slots ! i) = rows ! i"
      by (rule set_rows_nth) (use distinct_mod_window [OF assms(3)] assms(5) i in auto)
    ultimately show "set_rows ring ?slots rows (g mod 256) = emb g" using assms(6) i by auto
  qed
qed

text \<open>The rows gathered for a run of groups are the frames of those groups.\<close>

lemma map_concat_upto4:
  assumes "0 \<le> n"
  shows "concat (List.map (\<lambda>i. List.map (\<lambda>j. f (i * 4 + j)) [0..3]) [a..a + n - 1]) = List.map f [4 * a..4 * a + 4 * n - (1::int)]"
  using assms
proof (induction "nat n" arbitrary: n)
  case 0
  then show ?case by simp
next
  case (Suc k)
  then have n: "k = nat (n - 1)" "0 \<le> n - 1" by auto
  note ih = Suc.hyps(1) [OF n]
  have u4: "[0..3] = [0, 1, 2, 3::int]" by (simp add: upto.simps)
  have s1: "[a..a + n - 1] = [a..a + (n - 1) - 1] @ [a + n - 1]"
    using upto_rec2 [of a "a + n - 1"] n by simp
  have e: "4 * a + 4 * n - 1 - 3 = 4 * a + 4 * (n - 1)" by simp
  have "[4 * a..4 * a + 4 * n - 1] = [4 * a..4 * a + 4 * (n - 1) - 1] @ [4 * a + 4 * (n - 1)..4 * a + 4 * n - 1]"
    using upto_split1 [of "4 * a" "4 * a + 4 * (n - 1)" "4 * a + 4 * n - 1"] n by simp
  moreover have "[4 * a + 4 * (n - 1)..4 * a + 4 * n - 1]
      = List.map (\<lambda>j. j + (4 * a + 4 * (n - 1))) [0..3]"
    using upto_shift [of "4 * a + 4 * (n - 1)" 0 3] e by (simp add: algebra_simps)
  ultimately show ?case using ih s1 unfolding u4 by (simp add: algebra_simps)
qed

lemma gathered_rows:
  assumes "ring_holds 256 ring (List.map Some frames)"
    and "0 \<le> start" "0 \<le> run" "4 * (start + run) \<le> int (length frames)" "int (length frames) - 256 \<le> 4 * start"
  shows "List.map ring (adapter_encoder_rows start run)
    = List.map Some (take (nat (4 * run)) (drop (nat (4 * start)) frames))"
proof -
  have "adapter_encoder_rows start run
      = concat (List.map (\<lambda>i. List.map (\<lambda>j. (i * 4 + j) mod 256) [0..3]) [start..start + run - 1])"
    unfolding adapter_encoder_rows_def upto_from by (simp add: o_def)
  also have "\<dots> = List.map (\<lambda>p. p mod 256) [4 * start..4 * start + 4 * run - 1]"
    by (rule map_concat_upto4 [OF assms(3)])
  finally have a: "adapter_encoder_rows start run = List.map (\<lambda>p. p mod 256) [4 * start..4 * start + 4 * run - 1]" .
  have h: "p \<in> set [4 * start..4 * start + 4 * run - 1] \<Longrightarrow> ring (p mod 256) = Some (frames ! nat p)" for p
  proof -
    assume "p \<in> set [4 * start..4 * start + 4 * run - 1]"
    then have p: "4 * start \<le> p" "p < 4 * start + 4 * run" by auto
    have "0 \<le> p" "int (length frames) - 256 \<le> p" using p assms(2,5) by linarith+
    moreover have "p < int (length frames)" using p assms(4) by (simp add: distrib_left)
    moreover have "nat p < length frames" using calculation by linarith
    ultimately show "ring (p mod 256) = Some (frames ! nat p)"
      using assms(1) by (auto simp: ring_holds_def)
  qed
  have "List.map ring (adapter_encoder_rows start run)
      = List.map (\<lambda>p. Some (frames ! nat p)) [4 * start..4 * start + 4 * run - 1]"
    unfolding a by (simp add: h)
  also have "\<dots> = List.map Some (take (nat (4 * run)) (drop (nat (4 * start)) frames))"
  proof (rule nth_equalityI)
    show "length (List.map (\<lambda>p. Some (frames ! nat p)) [4 * start..4 * start + 4 * run - 1])
        = length (List.map Some (take (nat (4 * run)) (drop (nat (4 * start)) frames)))"
      using assms by (simp add: nat_le_iff min_absorb2 le_diff_conv)
    fix i assume "i < length (List.map (\<lambda>p. Some (frames ! nat p)) [4 * start..4 * start + 4 * run - 1])"
    then have i: "int i < 4 * run" by simp
    have e: "nat (4 * start + int i) = nat (4 * start) + i" using assms(2) by (simp add: nat_add_distrib)
    have b: "4 * start + int i < int (length frames)" using assms(4) i by (simp add: distrib_left)
    have c: "nat (4 * start) + i < length frames" using b assms(2) by linarith
    show "List.map (\<lambda>p. Some (frames ! nat p)) [4 * start..4 * start + 4 * run - 1] ! i
        = List.map Some (take (nat (4 * run)) (drop (nat (4 * start)) frames)) ! i"
    proof -
      have "i < length (take (nat (4 * run)) (drop (nat (4 * start)) frames))"
        using i c by (simp, linarith)
      then show ?thesis using i e c nth_upto [of "4 * start" i "4 * start + 4 * run - 1"] by simp
    qed
  qed
  finally show ?thesis .
qed

lemma frame_groups_slice:
  assumes "0 \<le> start" "0 \<le> run" "4 * (start + run) \<le> int (length frames)"
  shows "frame_groups (take (nat (4 * run)) (drop (nat (4 * start)) frames))
    = List.map (\<lambda>i. frame_group frames (nat start + i)) [0..<nat run]"
proof -
  have l: "length (take (nat (4 * run)) (drop (nat (4 * start)) frames)) div 4 = nat run"
    using assms by (simp add: nat_le_iff min_absorb2 le_diff_conv nat_mult_distrib)
  have "frame_group (take (nat (4 * run)) (drop (nat (4 * start)) frames)) i = frame_group frames (nat start + i)"
    if "i < nat run" for i
  proof -
    have a: "4 * i + 4 \<le> nat (4 * run)" using that by linarith
    have "4 * (nat start + i) = nat (4 * start) + 4 * i" using assms(1) by (simp add: nat_mult_distrib)
    then show ?thesis using a by (simp add: frame_group_def drop_take min_absorb1 add.commute)
  qed
  then show ?thesis unfolding frame_groups_def l by simp
qed

lemma adapter_commit_loop_ok:
  assumes "adapter_graphs_agree gpu adapter" "ring_holds 256 ring (List.map Some frames)"
    and "0 \<le> start" "4 * (start + n) \<le> int (length frames)" "int (length frames) - 256 \<le> 4 * start"
  shows "0 \<le> d \<Longrightarrow> d \<le> n \<Longrightarrow> start + n - 256 \<le> lo \<Longrightarrow>
    aemb_holds (embedding adapter frames) (cx_aemb_ring ctx) lo (start + d) \<Longrightarrow>
    \<exists>r. adapter_commit_loop gpu ctx ring start n d = (n, ctx \<lparr> cx_aemb_ring := r \<rparr>) \<and>
        aemb_holds (embedding adapter frames) r lo (start + n)"
proof (induction "nat (n - d)" arbitrary: d ctx rule: less_induct)
  case less
  show ?case
  proof (cases "d < n")
    case False
    then have "d = n" using less.prems by simp
    then have "adapter_commit_loop gpu ctx ring start n d = (n, ctx \<lparr> cx_aemb_ring := cx_aemb_ring ctx \<rparr>)"
      by (subst adapter_commit_loop.simps) simp
    then show ?thesis using less.prems(4) \<open>d = n\<close> by blast
  next
    case True
    define run where "run = (if 32 \<le> n - d then 32 else (1::int))"
    have run: "0 \<le> run" "0 < run" "run \<le> 32" "d + run \<le> n" using True by (auto simp: run_def)
    define rows where "rows = take (nat (4 * run)) (drop (nat (4 * (start + d))) frames)"
    have g: "List.map ring (adapter_encoder_rows (start + d) run) = List.map Some rows"
      unfolding rows_def by (rule gathered_rows [OF assms(2)]) (use assms less.prems run in auto)
    have fs: "frame_groups rows = List.map (\<lambda>i. frame_group frames (nat (start + d) + i)) [0..<nat run]"
      unfolding rows_def by (rule frame_groups_slice) (use assms less.prems run in auto)
    define out where "out = List.map (\<lambda>g. Some (adapter g)) (frame_groups rows)"
    have ro: "dg_adapter_ring gpu (List.map Some rows) = (out, True)"
      using assms(1) by (simp add: adapter_graphs_agree_def out_def)
    define ctx1 where "ctx1 = ctx \<lparr> cx_aemb_ring := set_rows (cx_aemb_ring ctx) (adapter_audio_rows (start + d) run) out \<rparr>"
    have step: "adapter_commit_loop gpu ctx ring start n d = adapter_commit_loop gpu ctx1 ring start n (d + run)"
      using True by (subst adapter_commit_loop.simps) (simp add: Let_def run_def [symmetric] g ro ctx1_def)
    have em: "\<forall>i < nat run. out ! i = embedding adapter frames (start + d + int i)"
    proof (intro allI impI)
      fix i assume i: "i < nat run"
      have q: "start + d + int i < int (length frames div 4)"
        using i run(1,4) le_div4 [OF assms(4)] by linarith
      have "nat (start + d + int i) = nat (start + d) + i" using assms(3) less.prems by (simp add: nat_add_distrib)
      then show "out ! i = embedding adapter frames (start + d + int i)"
        using i q assms(3) less.prems by (simp add: out_def fs embedding_def)
    qed
    have "aemb_holds (embedding adapter frames) (set_rows (cx_aemb_ring ctx) (adapter_audio_rows (start + d) run) out)
        lo (start + d + run)"
      by (rule set_rows_window [OF less.prems(4)]) (use run em less.prems in \<open>auto simp: out_def fs\<close>)
    then have hold: "aemb_holds (embedding adapter frames) (cx_aemb_ring ctx1) lo (start + (d + run))"
      by (simp add: ctx1_def add.assoc)
    have "\<exists>r. adapter_commit_loop gpu ctx1 ring start n (d + run) = (n, ctx1 \<lparr> cx_aemb_ring := r \<rparr>) \<and>
        aemb_holds (embedding adapter frames) r lo (start + n)"
      by (rule less.hyps) (use run less.prems hold True in auto)
    then show ?thesis using step by (auto simp: ctx1_def)
  qed
qed

lemma adapter_commit_ok:
  assumes "adapter_graphs_agree gpu adapter" "ring_holds 256 ring (List.map Some frames)"
    and "0 \<le> start" "0 < n" "4 * (start + n) \<le> int (length frames)" "int (length frames) - 256 \<le> 4 * start"
    and "start + n - 256 \<le> lo" "aemb_holds (embedding adapter frames) (cx_aemb_ring ctx) lo start"
  shows "\<exists>r. adapter_commit gpu ctx ring start n = (n, ctx \<lparr> cx_aemb_ring := r \<rparr>) \<and>
    aemb_holds (embedding adapter frames) r lo (start + n)"
proof -
  have "\<exists>r. adapter_commit_loop gpu ctx ring start n 0 = (n, ctx \<lparr> cx_aemb_ring := r \<rparr>) \<and>
    aemb_holds (embedding adapter frames) r lo (start + n)"
    by (rule adapter_commit_loop_ok [OF assms(1-3,5,6), of 0 lo ctx]) (use assms in auto)
  then show ?thesis using assms(4) by (simp add: adapter_commit_def)
qed

section \<open>The autoregressive loop\<close>

text \<open>A decoder step on the device memory and the cache bookkeeping alone.\<close>

definition core_step ::
  "('o, 'a, 'c) decoder_gpu \<Rightarrow> 'c \<times> decoder_kv_ring \<Rightarrow> int \<Rightarrow> int \<Rightarrow> 'a option
   \<Rightarrow> int option \<times> 'c \<times> decoder_kv_ring" where
  "core_step gpu st tok pos a =
    (case decoder_kv_plan (snd st) pos 1 of
       None \<Rightarrow> (None, st)
     | Some plan \<Rightarrow>
         let (dev, t) = dg_step_dynamic gpu (fst st) plan tok pos a
         in case t of None \<Rightarrow> (None, dev, snd st)
                    | Some t \<Rightarrow> (Some t, dev, decoder_kv_commit_plan (snd st) plan))"

definition core_state :: "('a, 'c) dec_context \<Rightarrow> 'c \<times> decoder_kv_ring" where
  "core_state ctx = (cx_device ctx, cx_kv ctx)"

definition set_core :: "'c \<times> decoder_kv_ring \<Rightarrow> ('a, 'c) dec_context \<Rightarrow> ('a, 'c) dec_context" where
  "set_core st ctx = ctx \<lparr> cx_device := fst st, cx_kv := snd st \<rparr>"

lemma set_core_simps [simp]:
  "cx_aemb_ring (set_core st ctx) = cx_aemb_ring ctx" "cx_audio_cap (set_core st ctx) = cx_audio_cap ctx"
  "cx_decoder_memory (set_core st ctx) = cx_decoder_memory ctx" "cx_kv_capacity (set_core st ctx) = cx_kv_capacity ctx"
  "cx_force_dynamic (set_core st ctx) = cx_force_dynamic ctx" "cx_want_ring (set_core st ctx) = cx_want_ring ctx"
  "core_state (set_core st ctx) = st" "cx_device (set_core st ctx) = fst st" "cx_kv (set_core st ctx) = snd st"
  "set_core st (set_core st' ctx) = set_core st ctx"
  by (simp_all add: set_core_def core_state_def)

lemma run_decoder_step_linear:
  assumes "cx_audio_cap ctx = 0"
  shows "run_decoder_step gpu ctx tok pos audio_pos =
    (let (t, st) = core_step gpu (core_state ctx) tok pos (vec_get (cx_decoder_memory ctx) audio_pos)
     in (t, set_core st ctx))"
  using assms
  by (simp add: run_decoder_step_def core_step_def core_state_def set_core_def audio_column_def Let_def
      split: option.split prod.split)

lemma run_decoder_step_ring:
  assumes "cx_audio_cap ctx = 256" "step_graphs_agree gpu (cx_kv_capacity ctx)"
    and "rg_capacity (cx_kv ctx) = cx_kv_capacity ctx" "cx_aemb_ring ctx (pos mod 256) = Some a"
  shows "run_decoder_step gpu ctx tok pos pos =
    (let (t, st) = core_step gpu (core_state ctx) tok pos (Some a) in (t, set_core st ctx))"
proof (cases "decoder_kv_plan (cx_kv ctx) pos 1")
  case None
  then show ?thesis by (simp add: run_decoder_step_def core_step_def core_state_def set_core_def)
next
  case (Some plan)
  have "dg_step_fixed gpu (cx_device ctx) (dp_used_after plan = cx_kv_capacity ctx) (pos mod cx_kv_capacity ctx)
        (i32 (dp_used_after plan)) tok pos (Some a) = dg_step_dynamic gpu (cx_device ctx) plan tok pos (Some a)"
    using assms(2,3) Some by (auto simp: step_graphs_agree_def)
  then show ?thesis using Some assms(1,4)
    by (simp add: run_decoder_step_def core_step_def core_state_def set_core_def audio_column_def Let_def
        split: option.split prod.split)
qed

text \<open>The generated tokens from a position on; \<open>tokens\<close> holds what was generated before it.  The end
marker is generated but not appended.\<close>

function core_loop ::
  "('o, 'a, 'c) decoder_gpu \<Rightarrow> int \<Rightarrow> int \<Rightarrow> (int \<Rightarrow> 'a option) \<Rightarrow> 'c \<times> decoder_kv_ring \<Rightarrow> int \<Rightarrow> int \<Rightarrow> int list
   \<Rightarrow> int list option" where
  "core_loop gpu max_tokens n emb st pos tok tokens =
    (if pos < n \<and> (max_tokens \<le> 0 \<or> int (length tokens) < max_tokens)
     then (case core_step gpu st tok pos (emb pos) of
             (None, st1) \<Rightarrow> None
           | (Some t, st1) \<Rightarrow> if t = 2 then Some tokens
                             else core_loop gpu max_tokens n emb st1 (pos + 1) t (tokens @ [t]))
     else Some tokens)"
  by auto
termination by (relation "measure (\<lambda>(gpu, m, n, emb, st, pos, tok, tokens). nat (n - pos))") auto

declare core_loop.simps [simp del]

lemma core_loop_extends:
  "core_loop gpu max_tokens n emb st pos tok tokens = Some out \<Longrightarrow> \<exists>rest. out = tokens @ rest"
proof (induction gpu max_tokens n emb st pos tok tokens rule: core_loop.induct)
  case (1 gpu max_tokens n emb st pos tok tokens)
  then show ?case
    by (subst (asm) (2) core_loop.simps) (fastforce split: if_splits prod.splits option.splits)
qed

lemma core_loop_no_eos:
  "core_loop gpu max_tokens n emb st pos tok tokens = Some out \<Longrightarrow> 2 \<notin> set tokens \<Longrightarrow> 2 \<notin> set out"
proof (induction gpu max_tokens n emb st pos tok tokens rule: core_loop.induct)
  case (1 gpu max_tokens n emb st pos tok tokens)
  then show ?case
    by (subst (asm) (2) core_loop.simps) (fastforce split: if_splits prod.splits option.splits)
qed

text \<open>The batch loop.\<close>

lemma decode_loop_core:
  assumes "cx_audio_cap ctx = 0" "tok \<noteq> 2" "2 \<notin> set tokens"
    and "\<forall>p. 0 \<le> p \<and> p < n \<longrightarrow> vec_get (cx_decoder_memory ctx) p = emb p" "0 \<le> pos"
  shows "map_option drop_trailing_eos (fst (decode_loop gpu max_tokens n ctx pos tok tokens))
    = core_loop gpu max_tokens n emb (core_state ctx) pos tok tokens"
  using assms
proof (induction gpu max_tokens n ctx pos tok tokens rule: decode_loop.induct)
  case (1 gpu max_tokens n ctx pos tok tokens)
  have keep: "drop_trailing_eos tokens = tokens"
    using 1(4) by (metis drop_trailing_eos_def last_in_set)
  show ?case
  proof (cases "pos < n \<and> (max_tokens \<le> 0 \<or> int (length tokens) < max_tokens)")
    case False
    then show ?thesis by (subst decode_loop.simps, subst core_loop.simps) (auto simp: keep)
  next
    case True
    obtain t st where c: "core_step gpu (core_state ctx) tok pos (emb pos) = (t, st)"
      using prod.exhaust by blast
    have r: "run_decoder_step gpu ctx tok pos pos = (t, set_core st ctx)"
      using run_decoder_step_linear [OF 1(2), of gpu tok pos pos] 1(5,6) True c by simp
    have d: "decode_loop gpu max_tokens n ctx pos tok tokens = (case t of None \<Rightarrow> (None, set_core st ctx)
        | Some t1 \<Rightarrow> decode_loop gpu max_tokens n (set_core st ctx) (pos + 1) t1 (tokens @ [t1]))"
      using True 1(3) r by (subst decode_loop.simps) (auto split: option.split)
    have k: "core_loop gpu max_tokens n emb (core_state ctx) pos tok tokens = (case t of None \<Rightarrow> None
        | Some t1 \<Rightarrow> if t1 = 2 then Some tokens else core_loop gpu max_tokens n emb st (pos + 1) t1 (tokens @ [t1]))"
      using True c by (subst core_loop.simps) (auto split: option.split)
    show ?thesis
    proof (cases t)
      case None
      then show ?thesis by (simp add: d k)
    next
      case (Some t1)
      show ?thesis
      proof (cases "t1 = 2")
        case True
        have "fst (decode_loop gpu max_tokens n (set_core st ctx) (pos + 1) 2 (tokens @ [2])) = Some (tokens @ [2])"
          by (subst decode_loop.simps) simp
        then show ?thesis using Some True by (simp add: d k drop_trailing_eos_def)
      next
        case False
        have "map_option drop_trailing_eos (fst (decode_loop gpu max_tokens n (set_core st ctx) (pos + 1) t1 (tokens @ [t1])))
            = core_loop gpu max_tokens n emb (core_state (set_core st ctx)) (pos + 1) t1 (tokens @ [t1])"
          by (rule 1(1) [OF True 1(3) r [unfolded Some, symmetric] refl]) (use 1 False in auto)
        then show ?thesis using Some False by (simp add: d k)
      qed
    qed
  qed
qed

end
