(* ===== verification/PumpCorrect.thy ===== *)
theory PumpCorrect
  imports StreamDecoder DecoderCorrect
begin

text \<open>The scheduler pass against the batch decoder: whatever the encoder has produced at each pass,
however often the caller polls and however often the event queue is full, the tokens delivered are
those of the batch loop over the same frames, each decoder step runs once, and each token has exactly
one event.\<close>

section \<open>The batch result\<close>

text \<open>What the batch tail decodes from encoder frames, in a context of its own.\<close>

definition batch_tokens ::
  "('o, 'a, 'c) decoder_gpu \<Rightarrow> ('o list \<Rightarrow> 'a) \<Rightarrow> int \<Rightarrow> ('a, 'c) dec_context \<Rightarrow> 'o list \<Rightarrow> int list option" where
  "batch_tokens gpu adapter max_tokens ctx frames =
    fst (decode_realtime gpu max_tokens (int (length frames div 4))
      (ctx \<lparr> cx_audio_cap := 0, cx_decoder_memory := List.map adapter (frame_groups frames) \<rparr>))"

definition core_prefill ::
  "('o, 'a, 'c) decoder_gpu \<Rightarrow> int \<Rightarrow> 'c \<Rightarrow> (int \<Rightarrow> 'a option) \<Rightarrow> ('c \<times> decoder_kv_ring) option" where
  "core_prefill gpu cap dev emb =
    (let kv = decoder_ring_cleared cap in
     case decoder_kv_plan kv 0 38 of
       None \<Rightarrow> None
     | Some plan \<Rightarrow>
         let (dev1, ok) = dg_prefill gpu dev plan (butlast prompt_tokens) [0..37] (List.map emb [0..37])
         in if ok then Some (dev1, decoder_kv_commit_plan kv plan) else None)"

definition core_decode ::
  "('o, 'a, 'c) decoder_gpu \<Rightarrow> int \<Rightarrow> int \<Rightarrow> 'c \<Rightarrow> int \<Rightarrow> (int \<Rightarrow> 'a option) \<Rightarrow> int list option" where
  "core_decode gpu cap max_tokens dev n emb =
    (case core_prefill gpu cap dev emb of
       None \<Rightarrow> None
     | Some st \<Rightarrow> core_loop gpu max_tokens n emb st 38 32 [])"

lemma prompt_tokens_facts:
  "length prompt_tokens = 39" "last prompt_tokens = 32" "prompt_tokens ! 38 = 32"
  "take 38 prompt_tokens = butlast prompt_tokens" "length (butlast prompt_tokens) = 38" "prompt_tokens \<noteq> []"
  "butlast prompt_tokens \<noteq> []"
  by (simp_all add: prompt_tokens_def butlast_conv_take nth_Cons' last_replicate)

lemma plan_start: "decoder_kv_plan kv pos n = Some plan \<Longrightarrow> dp_absolute_start plan = pos"
  by (auto simp: decoder_kv_plan_def Let_def split: if_splits)

lemma map_positions: "List.map i32 [0..37] = [0..37]"
  by (rule map_idI) (auto intro: i32_id)

lemma cleared_next: "rg_next (decoder_ring_cleared cap) = 0"
  by (simp add: decoder_ring_cleared_def)

lemma run_decoder_prefill_core:
  assumes "cx_kv ctx = decoder_ring_cleared (cx_kv_capacity ctx)"
    and "\<forall>g. 0 \<le> g \<and> g < 38 \<longrightarrow> audio_column ctx g = emb g"
  shows "run_decoder_prefill gpu ctx (butlast prompt_tokens) = (True, ctx1) \<Longrightarrow>
      core_prefill gpu (cx_kv_capacity ctx) (cx_device ctx) emb = Some (core_state ctx1) \<and> ctx1 = set_core (core_state ctx1) ctx"
    and "core_prefill gpu (cx_kv_capacity ctx) (cx_device ctx) emb = Some st \<Longrightarrow>
      run_decoder_prefill gpu ctx (butlast prompt_tokens) = (True, set_core st ctx)"
proof -
  have au: "List.map (audio_column ctx) [0..37] = List.map emb [0..37]"
    using assms(2) by (intro map_cong) auto
  have e: "run_decoder_prefill gpu ctx (butlast prompt_tokens) =
    (case decoder_kv_plan (decoder_ring_cleared (cx_kv_capacity ctx)) 0 38 of
       None \<Rightarrow> (False, ctx)
     | Some plan \<Rightarrow>
         let (dev, ok) = dg_prefill gpu (cx_device ctx) plan (butlast prompt_tokens) [0..37] (List.map emb [0..37])
         in if \<not> ok then (False, ctx \<lparr> cx_device := dev \<rparr>)
            else (True, ctx \<lparr> cx_device := dev, cx_kv := decoder_kv_commit_plan (decoder_ring_cleared (cx_kv_capacity ctx)) plan \<rparr>))"
    using plan_start [of "decoder_ring_cleared (cx_kv_capacity ctx)" 0 38]
    unfolding run_decoder_prefill_def prompt_tokens_facts Let_def
    by (auto simp: assms(1) cleared_next au map_positions split: option.split prod.split)
  show "run_decoder_prefill gpu ctx (butlast prompt_tokens) = (True, ctx1) \<Longrightarrow>
      core_prefill gpu (cx_kv_capacity ctx) (cx_device ctx) emb = Some (core_state ctx1) \<and> ctx1 = set_core (core_state ctx1) ctx"
    unfolding e by (auto simp: core_prefill_def Let_def core_state_def set_core_def split: option.splits prod.splits if_splits)
  show "core_prefill gpu (cx_kv_capacity ctx) (cx_device ctx) emb = Some st \<Longrightarrow>
      run_decoder_prefill gpu ctx (butlast prompt_tokens) = (True, set_core st ctx)"
    unfolding e by (auto simp: core_prefill_def Let_def set_core_def split: option.splits prod.splits if_splits)
qed

lemma vec_get_groups: "vec_get (List.map adapter (frame_groups frames)) g = embedding adapter frames g"
  by (auto simp: vec_get_def embedding_def frame_groups_def nat_less_iff)

text \<open>The batch tail is the abstract loop.\<close>

lemma batch_tokens_core:
  assumes "39 \<le> length frames div 4"
  shows "batch_tokens gpu adapter max_tokens ctx frames =
    core_decode gpu (cx_kv_capacity ctx) max_tokens (cx_device ctx) (int (length frames div 4)) (embedding adapter frames)"
proof -
  let ?n = "int (length frames div 4)"
  let ?emb = "embedding adapter frames"
  define lin where "lin = clear_kv_cache (ctx \<lparr> cx_audio_cap := 0, cx_decoder_memory := List.map adapter (frame_groups frames) \<rparr>)"
  have lin: "cx_audio_cap lin = 0" "cx_kv lin = decoder_ring_cleared (cx_kv_capacity lin)" "cx_device lin = cx_device ctx"
    "cx_kv_capacity lin = cx_kv_capacity ctx" "cx_decoder_memory lin = List.map adapter (frame_groups frames)"
    by (simp_all add: lin_def clear_kv_cache_def)
  have col: "\<forall>g. 0 \<le> g \<and> g < 38 \<longrightarrow> audio_column lin g = ?emb g"
    by (simp add: audio_column_def lin vec_get_groups)
  have n: "\<not> ?n < 39" using assms by simp
  show ?thesis
  proof (cases "core_prefill gpu (cx_kv_capacity lin) (cx_device lin) ?emb")
    case None
    obtain ok ctx1 where r: "run_decoder_prefill gpu lin (butlast prompt_tokens) = (ok, ctx1)"
      using prod.exhaust by blast
    have "\<not> ok" using run_decoder_prefill_core(1) [OF lin(2) col, of gpu ctx1] None r by auto
    then have "run_decoder_prefill gpu lin (butlast prompt_tokens) = (False, ctx1)" using r by simp
    then show ?thesis using None n
      by (simp add: batch_tokens_def decode_realtime_def prompt_tokens_facts lin_def [symmetric] core_decode_def lin(3,4) [symmetric])
  next
    case (Some st)
    note pf = run_decoder_prefill_core(2) [OF lin(2) col Some]
    let ?c = "set_core st lin"
    have sc: "cx_audio_cap ?c = 0" using lin by simp
    have mem: "\<forall>p. 0 \<le> p \<and> p < ?n \<longrightarrow> vec_get (cx_decoder_memory ?c) p = ?emb p"
      by (simp add: lin vec_get_groups)
    have loop: "map_option drop_trailing_eos (fst (decode_loop gpu max_tokens ?n ?c 38 32 []))
        = core_loop gpu max_tokens ?n ?emb (core_state ?c) 38 32 []"
      by (rule decode_loop_core [OF sc _ _ mem]) auto
    have first: "decode_loop gpu max_tokens ?n ?c 38 32 [] =
        (case run_decoder_step gpu ?c 32 38 38 of (None, ctx2) \<Rightarrow> (None, ctx2)
         | (Some token, ctx2) \<Rightarrow> decode_loop gpu max_tokens ?n ctx2 39 token [token])"
      using n linorder_not_less [of 0 max_tokens] by (subst decode_loop.simps) (auto split: option.split prod.split)
    have "fst (decode_realtime gpu max_tokens ?n (ctx \<lparr> cx_audio_cap := 0,
          cx_decoder_memory := List.map adapter (frame_groups frames) \<rparr>))
        = map_option drop_trailing_eos (fst (decode_loop gpu max_tokens ?n ?c 38 32 []))"
      unfolding first using n pf
      by (auto simp: decode_realtime_def prompt_tokens_facts lin_def [symmetric] Let_def split: option.split prod.split)
    then show ?thesis using loop Some lin(3,4)
      by (simp add: batch_tokens_def core_decode_def)
  qed
qed

lemma batch_tokens_short:
  "length frames div 4 < 39 \<Longrightarrow> batch_tokens gpu adapter max_tokens ctx frames = None"
  by (simp add: batch_tokens_def decode_realtime_def prompt_tokens_facts)

section \<open>The invariant of a decoding stream\<close>

text \<open>What the device and the counters hold: the audio ring has the embeddings between the decoder and the
last committed group, and the decoder state is one from which the batch loop still gives the batch
result.  \<open>frames\<close> are all the frames the encoder will have produced.\<close>

definition consumed_floor :: "decoder_part \<Rightarrow> int" where
  "consumed_floor d = (if de_prefill_done d then de_position d else 0)"

definition adapter_inv :: "('o list \<Rightarrow> 'a) \<Rightarrow> 'o list \<Rightarrow> ('a, 'c) dec_context \<Rightarrow> decoder_part \<Rightarrow> bool" where
  "adapter_inv adapter frames ctx d \<longleftrightarrow>
    0 \<le> de_adapter_groups_committed d \<and> 4 * de_adapter_groups_committed d \<le> int (length frames) \<and>
    aemb_holds (embedding adapter frames) (cx_aemb_ring ctx) (consumed_floor d) (de_adapter_groups_committed d)"

definition remaining ::
  "('o, 'a, 'c) decoder_gpu \<Rightarrow> int \<Rightarrow> int \<Rightarrow> (int \<Rightarrow> 'a option) \<Rightarrow> 'c \<times> decoder_kv_ring \<Rightarrow> decoder_part
   \<Rightarrow> int list option" where
  "remaining gpu max_tokens n emb st d =
    (if de_eos d then Some (de_tokens d)
     else if \<not> pt_valid (de_pending d)
     then core_loop gpu max_tokens n emb st (de_position d) (de_prev_token d) (de_tokens d)
     else if pt_token (de_pending d) = 2 then Some (de_tokens d)
     else core_loop gpu max_tokens n emb st (de_position d + 1) (pt_token (de_pending d))
            (de_tokens d @ [pt_token (de_pending d)]))"

definition counters_inv :: "decoder_part \<Rightarrow> bool" where
  "counters_inv d \<longleftrightarrow>
    de_incremental d \<and> de_prompt_ids d \<in> {[], prompt_tokens} \<and> 2 \<notin> set (de_tokens d) \<and>
    de_tokens_emitted d = int (length (de_tokens d)) \<and>
    (pt_valid (de_pending d) \<longrightarrow> de_prefill_done d \<and> \<not> de_eos d \<and> pt_position (de_pending d) = de_position d \<and>
       pt_special (de_pending d) = is_special_token (pt_token (de_pending d))) \<and>
    (if de_prefill_done d then de_position d = 38 + int (length (de_tokens d))
     else de_tokens d = [] \<and> \<not> de_eos d \<and> de_position d = 0)"

definition decoder_inv ::
  "('o, 'a, 'c) decoder_gpu \<Rightarrow> int \<Rightarrow> 'c \<Rightarrow> int \<Rightarrow> int \<Rightarrow> (int \<Rightarrow> 'a option) \<Rightarrow> ('a, 'c) dec_context \<Rightarrow> decoder_part
   \<Rightarrow> bool" where
  "decoder_inv gpu cap dev max_tokens n emb ctx d \<longleftrightarrow>
    counters_inv d \<and> cx_kv_capacity ctx = cap \<and>
    (if de_prefill_done d
     then cx_audio_cap ctx = 256 \<and> rg_capacity (cx_kv ctx) = cap \<and>
       remaining gpu max_tokens n emb (core_state ctx) d = core_decode gpu cap max_tokens dev n emb
     else cx_device ctx = dev)"

text \<open>What the caller has seen or will see: every delivered token has exactly one event, numbered without
gaps, at its decoder position; the text is that of the tokens.\<close>

definition delivered :: "decoder_part \<Rightarrow> int list" where
  "delivered d = de_tokens d @ (if de_eos d then [2] else [])"

definition transcript_event :: "vocab option \<Rightarrow> int \<Rightarrow> nat \<Rightarrow> int \<Rightarrow> stream_event" where
  "transcript_event model rate i tok =
    (blank_event Ev_token)
      \<lparr> ev_token := tok, ev_text := token_text model tok, ev_special := is_special_token tok,
        ev_sequence := int i + 1, ev_decoder_position := 38 + int i,
        ev_audio_end_sample := audio_end_sample_for (38 + int i),
        ev_t_audio_ms := event_ms (audio_end_sample_for (38 + int i)) rate \<rparr>"

definition transcript_events :: "vocab option \<Rightarrow> int \<Rightarrow> int list \<Rightarrow> stream_event list" where
  "transcript_events model rate tokens =
    List.map (\<lambda>i. transcript_event model rate i (tokens ! i)) [0..<length tokens]"

definition events_inv ::
  "vocab option \<Rightarrow> int \<Rightarrow> stream_event list \<Rightarrow> ('f, 'k, 'o, 'a, 'c) stream \<Rightarrow> bool" where
  "events_inv model rate seen s \<longleftrightarrow>
    mandatory (seen @ ev_queue (st_ev s)) = transcript_events model rate (delivered (st_dec s)) \<and>
    de_token_sequence (st_dec s) = int (length (delivered (st_dec s))) \<and>
    de_partial_text (st_dec s) = concat (List.map (token_text model) (de_tokens (st_dec s))) \<and>
    model_ok (st_model s) \<and> same_model model (st_model s) \<and> sp_sample_rate (st_params s) = rate"

lemma transcript_events_snoc:
  "transcript_events model rate (tokens @ [tok])
   = transcript_events model rate tokens @ [transcript_event model rate (length tokens) tok]"
  by (simp add: transcript_events_def nth_append)

section \<open>Delivering a token\<close>

lemma emit_token_event_queue:
  assumes "emit_token_event s tok pos special = (ok, s1)"
  shows "mandatory (ev_queue (st_ev s1)) = mandatory (ev_queue (st_ev s)) @
    (if ok then [token_event s (fst (token_piece (st_model s) tok)) tok pos special] else [])"
proof -
  obtain piece model1 where p: "token_piece (st_model s) tok = (piece, model1)" by force
  define s0 where "s0 = s \<lparr> st_model := model1 \<rparr>"
  define ev where "ev = token_event s0 piece tok pos special"
  obtain ok2 s2 where r: "push_event_coalesced s0 ev = (ok2, s2)" by force
  have k: "push_ok s0 ev (ok2, s2)" using push_event_coalesced_ok [of s0 ev] r by simp
  have "ok = ok2" "st_ev s1 = st_ev s2"
    using assms p r by (auto simp: emit_token_event_def Let_def s0_def [symmetric] ev_def [symmetric] split: bool.splits)
  moreover have "ev = token_event s piece tok pos special" by (simp add: ev_def s0_def token_event_def)
  ultimately show ?thesis using push_okD(1) [OF k] p by (simp add: s0_def ev_def)
qed

lemma commit_pending_queue:
  assumes "commit_pending s = (ok, s1)" "pt_valid (de_pending (st_dec s))"
  defines "p \<equiv> de_pending (st_dec s)"
  shows "mandatory (ev_queue (st_ev s1)) = mandatory (ev_queue (st_ev s)) @
    (if ok then [token_event s (fst (token_piece (st_model s) (pt_token p))) (pt_token p) (pt_position p) (pt_special p)]
     else [])"
proof -
  obtain ok2 s2 where e: "emit_token_event s (pt_token p) (pt_position p) (pt_special p) = (ok2, s2)" by force
  have q: "ok = ok2 \<and> mandatory (ev_queue (st_ev s1)) = mandatory (ev_queue (st_ev s2))"
    using assms(1,2) e
    by (auto simp: commit_pending_def Let_def p_def append_token_to_partial_result emit_partial_text_event_result
        split: bool.splits if_splits)
  show ?thesis using emit_token_event_queue [OF e] q by simp
qed

lemma commit_pending_cases:
  assumes "commit_pending s = (ok, s1)"
  shows "st_dec s1 = st_dec s \<and> (ok \<longrightarrow> s1 = s \<and> \<not> pt_valid (de_pending (st_dec s))) \<or>
    ok \<and> pt_valid (de_pending (st_dec s)) \<and>
    (if pt_token (de_pending (st_dec s)) = 2
     then st_dec s1 = (st_dec s) \<lparr> de_token_sequence := de_token_sequence (st_dec s) + 1,
            de_pending := (de_pending (st_dec s)) \<lparr> pt_valid := False \<rparr>, de_eos := True \<rparr>
     else \<exists>piece. st_dec s1 = advanced (st_dec s) (pt_token (de_pending (st_dec s))) piece)"
proof (cases "pt_valid (de_pending (st_dec s))")
  case False
  then show ?thesis using assms by (simp add: commit_pending_def)
next
  case True
  show ?thesis using commit_pending_result(1-3) [OF assms True] True by (cases ok) auto
qed

lemma commit_pending_counters:
  assumes "commit_pending s = (ok, s1)" "counters_inv (st_dec s)"
  shows "counters_inv (st_dec s1) \<and> (ok \<longrightarrow> \<not> pt_valid (de_pending (st_dec s1))) \<and>
    consumed_floor (st_dec s) \<le> consumed_floor (st_dec s1) \<and>
    de_prefill_done (st_dec s1) = de_prefill_done (st_dec s) \<and>
    de_adapter_groups_committed (st_dec s1) = de_adapter_groups_committed (st_dec s)"
  using commit_pending_cases [OF assms(1)] assms(2)
  by (elim disjE conjE) (auto simp: counters_inv_def consumed_floor_def advanced_def split: if_splits)

lemma commit_pending_remaining:
  assumes "commit_pending s = (ok, s1)" "counters_inv (st_dec s)"
  shows "remaining gpu m n emb st (st_dec s1) = remaining gpu m n emb st (st_dec s)"
  using commit_pending_cases [OF assms(1)] assms(2)
  by (elim disjE conjE) (auto simp: counters_inv_def remaining_def advanced_def split: if_splits)

lemma commit_pending_events:
  assumes "commit_pending s = (ok, s1)" "counters_inv (st_dec s)" "events_inv model rate seen s"
  shows "events_inv model rate seen s1"
proof (cases "pt_valid (de_pending (st_dec s))")
  case False
  then show ?thesis using assms by (simp add: commit_pending_def)
next
  case True
  let ?d = "st_dec s"
  let ?p = "de_pending (st_dec s)"
  note r = commit_pending_result [OF assms(1) True]
  note q = commit_pending_queue [OF assms(1) True]
  have m: "model_ok (st_model s)" "same_model model (st_model s)" using assms(3) by (simp_all add: events_inv_def)
  note tp = token_piece_ok [OF m(1), of "pt_token ?p"]
  note tq = token_piece_ok [OF tp(2), of "pt_token ?p"]
  have sm: "same_model model (snd (token_piece (st_model s) (pt_token ?p)))" by (rule same_model_trans [OF m(2) tp(3)])
  have sm2: "same_model model (snd (token_piece (snd (token_piece (st_model s) (pt_token ?p))) (pt_token ?p)))"
    by (rule same_model_trans [OF sm tq(3)])
  have model1: "model_ok (st_model s1) \<and> same_model model (st_model s1)"
    using r(4) tp(2) tq(2) sm sm2 by simp
  have t1: "token_text (st_model s) = token_text model" using same_model_text [OF m(2)] by blast
  have t2: "token_text (snd (token_piece (st_model s) (pt_token ?p))) = token_text model"
    using same_model_text [OF sm] by blast
  have e: "\<not> de_eos ?d" "pt_position ?p = 38 + int (length (de_tokens ?d))"
    "pt_special ?p = is_special_token (pt_token ?p)"
    using assms(2) True by (auto simp: counters_inv_def)
  have ev: "token_event s (fst (token_piece (st_model s) (pt_token ?p))) (pt_token ?p) (pt_position ?p) (pt_special ?p)
      = transcript_event model rate (length (de_tokens ?d)) (pt_token ?p)"
    using assms(3) e tp(1) t1 by (simp add: token_event_def transcript_event_def events_inv_def delivered_def)
  show ?thesis
  proof (cases ok)
    case False
    then show ?thesis using assms(3) r(1,7) q model1 by (simp add: events_inv_def)
  next
    case True
    have q1: "mandatory (seen @ ev_queue (st_ev s1)) = transcript_events model rate (de_tokens ?d @ [pt_token ?p])"
      using q True ev assms(3) e(1) by (simp add: events_inv_def delivered_def transcript_events_snoc)
    show ?thesis
      using r(2,3,7) True q1 model1 assms(3) e(1) tq(1) t2
      by (cases "pt_token ?p = 2") (auto simp: events_inv_def delivered_def advanced_def)
  qed
qed

section \<open>A decoder step\<close>

lemma run_step_result:
  assumes "run_step rt ctx s = (True, s1)" "st_ctx s = Some ctx"
  shows "\<exists>t dctx. decoder_step_incremental (rt_dec_gpu rt) (sx_dec ctx) (de_prev_token (st_dec s)) (i32 (de_position (st_dec s)))
      = (Some t, dctx) \<and> st_ctx s1 = Some (ctx \<lparr> sx_dec := dctx \<rparr>) \<and>
    st_dec s1 = (st_dec s) \<lparr> de_steps := de_steps (st_dec s) + 1,
      de_pending := \<lparr> pt_valid = True, pt_token = t, pt_position = de_position (st_dec s), pt_special = is_special_token t \<rparr> \<rparr> \<and>
    st_ev s1 = st_ev s \<and> st_model s1 = st_model s \<and> st_params s1 = st_params s \<and> st_front s1 = st_front s"
  using assms by (auto simp: run_step_def Let_def stash_token_def split: prod.splits option.splits)

lemma run_step_ok:
  assumes "run_step rt ctx s = (ok, s1)" "core_step (rt_dec_gpu rt) (core_state (sx_dec ctx)) (de_prev_token (st_dec s))
      (de_position (st_dec s)) (Some a) = (t, st)"
    and "run_decoder_step (rt_dec_gpu rt) (sx_dec ctx) (de_prev_token (st_dec s)) (de_position (st_dec s))
      (de_position (st_dec s)) = (t, dctx)" "i32 (de_position (st_dec s)) = de_position (st_dec s)"
  shows "ok = (t \<noteq> None)"
  using assms by (auto simp: run_step_def decoder_step_incremental_def Let_def split: option.splits)

lemma run_step_inv:
  assumes "run_step rt ctx s = (ok, s1)" "st_ctx s = Some ctx"
    and "decoder_inv (rt_dec_gpu rt) cap dev m n emb (sx_dec ctx) (st_dec s)"
    and "de_prefill_done (st_dec s)" "\<not> pt_valid (de_pending (st_dec s))" "\<not> de_eos (st_dec s)"
    and "de_position (st_dec s) < n" "n < 2 ^ 31" "m \<le> 0 \<or> de_tokens_emitted (st_dec s) < m"
    and "step_graphs_agree (rt_dec_gpu rt) cap"
    and "cx_aemb_ring (sx_dec ctx) (de_position (st_dec s) mod 256) = emb (de_position (st_dec s))"
    and "emb (de_position (st_dec s)) = Some a"
  shows "(core_decode (rt_dec_gpu rt) cap m dev n emb \<noteq> None \<longrightarrow> ok) \<and> (ok \<longrightarrow> (\<exists>dctx. st_ctx s1 = Some (ctx \<lparr> sx_dec := dctx \<rparr>) \<and> cx_aemb_ring dctx = cx_aemb_ring (sx_dec ctx) \<and>
    decoder_inv (rt_dec_gpu rt) cap dev m n emb dctx (st_dec s1)))"
proof -
  let ?d = "st_dec s"
  let ?gpu = "rt_dec_gpu rt"
  have ci: "counters_inv ?d" "cx_kv_capacity (sx_dec ctx) = cap" "cx_audio_cap (sx_dec ctx) = 256"
    "rg_capacity (cx_kv (sx_dec ctx)) = cap"
    "core_loop ?gpu m n emb (core_state (sx_dec ctx)) (de_position ?d) (de_prev_token ?d) (de_tokens ?d)
       = core_decode ?gpu cap m dev n emb"
    using assms(3-6) by (auto simp: decoder_inv_def remaining_def)
  have p0: "0 \<le> de_position ?d" "de_tokens_emitted ?d = int (length (de_tokens ?d))"
    using ci(1) assms(4) by (auto simp: counters_inv_def)
  have ip: "i32 (de_position ?d) = de_position ?d" using p0 assms(7,8) by (intro i32_id) auto
  obtain t2 st where cs: "core_step ?gpu (core_state (sx_dec ctx)) (de_prev_token ?d) (de_position ?d) (Some a) = (t2, st)"
    using prod.exhaust by blast
  have ring: "cx_aemb_ring (sx_dec ctx) (de_position ?d mod 256) = Some a" using assms(11,12) by simp
  have rs: "run_decoder_step ?gpu (sx_dec ctx) (de_prev_token ?d) (de_position ?d) (de_position ?d) = (t2, set_core st (sx_dec ctx))"
    using run_decoder_step_ring [OF ci(3) _ _ ring, of ?gpu "de_prev_token ?d"] assms(10) ci(2,4) cs by simp
  have okt: "ok = (t2 \<noteq> None)" by (rule run_step_ok [OF assms(1) cs rs ip])
  have unfold: "core_loop ?gpu m n emb (core_state (sx_dec ctx)) (de_position ?d) (de_prev_token ?d) (de_tokens ?d)
      = (case t2 of None \<Rightarrow> None | Some t \<Rightarrow>
           if t = 2 then Some (de_tokens ?d) else core_loop ?gpu m n emb st (de_position ?d + 1) t (de_tokens ?d @ [t]))"
    using assms(7,9,12) p0(2) cs by (subst core_loop.simps) simp
  have succeeds: "core_decode ?gpu cap m dev n emb \<noteq> None \<longrightarrow> ok"
    using okt unfold ci(5) by (cases t2) auto
  have "\<exists>dctx. st_ctx s1 = Some (ctx \<lparr> sx_dec := dctx \<rparr>) \<and> cx_aemb_ring dctx = cx_aemb_ring (sx_dec ctx) \<and>
    decoder_inv ?gpu cap dev m n emb dctx (st_dec s1)" if ok
  proof -
  obtain t dctx where r: "decoder_step_incremental ?gpu (sx_dec ctx) (de_prev_token ?d) (de_position ?d) = (Some t, dctx)"
    and c1: "st_ctx s1 = Some (ctx \<lparr> sx_dec := dctx \<rparr>)"
    and d1: "st_dec s1 = ?d \<lparr> de_steps := de_steps ?d + 1,
      de_pending := \<lparr> pt_valid = True, pt_token = t, pt_position = de_position ?d, pt_special = is_special_token t \<rparr> \<rparr>"
    using run_step_result [OF _ assms(2), of rt s1] assms(1) \<open>ok\<close> ip by auto
  have tt: "t2 = Some t" "dctx = set_core st (sx_dec ctx)" using r rs by (simp_all add: decoder_step_incremental_def)
  have rg: "rg_capacity (snd st) = cap"
    using cs ci(4) unfolding tt
    by (auto simp: core_step_def core_state_def decoder_kv_commit_plan_def Let_def split: option.splits prod.splits)
  have "decoder_inv ?gpu cap dev m n emb dctx (st_dec s1)"
    using ci rg assms(4,6) unfold tt(1) by (auto simp: decoder_inv_def d1 tt(2) remaining_def counters_inv_def)
  then show ?thesis using c1 tt(2) by auto
  qed
  then show ?thesis using succeeds by blast
qed

section \<open>The stages of a pass\<close>

text \<open>The encoder's output ring holds the frames produced so far, a prefix of all of them.\<close>

definition encoder_produced :: "'o list \<Rightarrow> ('m, 'k, 'o) enc_stream \<Rightarrow> bool" where
  "encoder_produced frames enc \<longleftrightarrow>
    0 \<le> ek_emitted (es_kv enc) \<and> ek_emitted (es_kv enc) \<le> int (length frames) \<and> int (length frames) < 2 ^ 31 \<and>
    ring_holds 256 (ek_out_ring (es_kv enc)) (List.map Some (take (nat (ek_emitted (es_kv enc))) frames))"

text \<open>A pass touches the decoder part, the model cache, the context and the event part.\<close>

definition same_rest :: "('f, 'k, 'o, 'a, 'c) stream \<Rightarrow> ('f, 'k, 'o, 'a, 'c) stream \<Rightarrow> bool" where
  "same_rest s t \<longleftrightarrow> st_ev t = st_ev s \<and> st_model t = st_model s \<and> st_params t = st_params s \<and> st_front t = st_front s"

lemma same_rest_refl [simp]: "same_rest s s"
  by (simp add: same_rest_def)

lemma capture_adapter_same:
  assumes "capture_new_adapter_output_sha rt s a n = (ok, s1)"
  shows "same_rest s s1 \<and> st_dec s1 = st_dec s \<and> st_ctx s1 = st_ctx s"
  using assms by (auto simp: capture_new_adapter_output_sha_def Let_def same_rest_def split: if_splits option.splits)

lemma aemb_holds_cong:
  "(\<And>g. lo \<le> g \<Longrightarrow> g < hi \<Longrightarrow> emb g = emb' g) \<Longrightarrow> aemb_holds emb ring lo hi = aemb_holds emb' ring lo hi"
  by (auto simp: aemb_holds_def)

lemma embedding_take:
  assumes "0 \<le> g" "4 * g + 4 \<le> int m" "m \<le> length frames"
  shows "embedding adapter (take m frames) g = embedding adapter frames g"
proof -
  have l: "length (take m frames) = m" using assms(3) by simp
  have "4 * (g + 1) \<le> int m" using assms(2) by simp
  then have "g < int (length (take m frames) div 4)" unfolding l using le_div4 [of "g + 1" m] by simp
  then show ?thesis using embedding_prefix [OF assms(1), of "take m frames" adapter "drop m frames"] by simp
qed

lemma pump_adapter_inv:
  assumes "pump_adapter rt ctx enc s = (ok, s1)" "st_ctx s = Some ctx"
    and "adapter_graphs_agree (rt_dec_gpu rt) adapter" "encoder_produced frames enc"
    and "ek_emitted (es_kv enc) - 256 \<le> 4 * de_adapter_groups_committed (st_dec s)"
    and "adapter_inv adapter frames (sx_dec ctx) (st_dec s)" "0 \<le> consumed_floor (st_dec s)"
  shows "(\<not> dg_capture_output_sha (st_diag s) \<longrightarrow> ok) \<and> (ok \<longrightarrow> (\<exists>r c k. st_ctx s1 = Some (ctx \<lparr> sx_dec := (sx_dec ctx) \<lparr> cx_aemb_ring := r \<rparr> \<rparr>) \<and>
    st_dec s1 = (st_dec s) \<lparr> de_adapter_groups_committed := c, de_adapter_commit_calls := k \<rparr> \<and>
    adapter_inv adapter frames ((sx_dec ctx) \<lparr> cx_aemb_ring := r \<rparr>) (st_dec s1) \<and> same_rest s s1 \<and>
    committable_groups (ek_emitted (es_kv enc)) (st_dec s) \<le> c))"
proof -
  let ?d = "st_dec s"
  let ?m = "ek_emitted (es_kv enc)"
  define c0 where "c0 = de_adapter_groups_committed ?d"
  have pr: "0 \<le> ?m" "?m \<le> int (length frames)" "int (length frames) < 2 ^ 31"
    "ring_holds 256 (ek_out_ring (es_kv enc)) (List.map Some (take (nat ?m) frames))"
    using assms(4) by (simp_all add: encoder_produced_def)
  have out: "encoder_output_frames enc = ?m" using pr by (simp add: encoder_output_frames_def i32_id)
  define c where "c = committable_groups ?m ?d"
  have ai: "0 \<le> c0" "4 * c0 \<le> int (length frames)"
    "aemb_holds (embedding adapter frames) (cx_aemb_ring (sx_dec ctx)) (consumed_floor ?d) c0"
    using assms(6) by (simp_all add: adapter_inv_def c0_def)
  have cc: "c \<le> ?m div 4" "c \<le> consumed_floor ?d + 256"
    by (simp_all add: c_def committable_groups_def consumed_floor_def Let_def)
  have c4: "4 * c \<le> ?m" using cc(1) by linarith
  show ?thesis
  proof (cases "c0 < c")
    case False
    then have "ok \<and> s1 = s" using assms(1) by (simp add: pump_adapter_def Let_def out c_def c0_def)
    then have "\<not> dg_capture_output_sha (st_diag s) \<longrightarrow> ok" by simp
    show ?thesis
      by (rule conjI, fact, rule impI, rule exI [of _ "cx_aemb_ring (sx_dec ctx)"], rule exI [of _ c0], rule exI [of _ "de_adapter_commit_calls ?d"])
        (use \<open>ok \<and> s1 = s\<close> assms(2,6) False in \<open>simp add: c0_def c_def\<close>)
  next
    case True
    have n: "i32 (c - c0) = c - c0" using True ai(1) c4 pr(2,3) by (intro i32_id) auto
    have l: "length (take (nat ?m) frames) = nat ?m" using pr by simp
    have em: "embedding adapter (take (nat ?m) frames) g = embedding adapter frames g" if "0 \<le> g" "g < c" for g
      by (rule embedding_take) (use that c4 pr in auto)
    have a1: "c0 + (c - c0) = c" by simp
    have hold: "aemb_holds (embedding adapter (take (nat ?m) frames)) (cx_aemb_ring (sx_dec ctx)) (consumed_floor ?d) c0"
      using ai(3) aemb_holds_cong [of "consumed_floor ?d" c0 "embedding adapter (take (nat ?m) frames)" "embedding adapter frames"]
        em True assms(7) by auto
    have "\<exists>r. adapter_commit (rt_dec_gpu rt) (sx_dec ctx) (ek_out_ring (es_kv enc)) c0 (c - c0)
        = (c - c0, (sx_dec ctx) \<lparr> cx_aemb_ring := r \<rparr>) \<and>
        aemb_holds (embedding adapter (take (nat ?m) frames)) r (consumed_floor ?d) (c0 + (c - c0))"
      by (rule adapter_commit_ok [OF assms(3) pr(4) ai(1)]) (use True c4 l assms(5) cc(2) hold pr(1) in \<open>auto simp: c0_def\<close>)
    then obtain r where r: "adapter_commit (rt_dec_gpu rt) (sx_dec ctx) (ek_out_ring (es_kv enc)) c0 (c - c0)
        = (c - c0, (sx_dec ctx) \<lparr> cx_aemb_ring := r \<rparr>)"
      "aemb_holds (embedding adapter (take (nat ?m) frames)) r (consumed_floor ?d) c"
      unfolding a1 by blast
    have r2: "aemb_holds (embedding adapter frames) r (consumed_floor ?d) c"
      using r(2) aemb_holds_cong [of "consumed_floor ?d" c "embedding adapter (take (nat ?m) frames)" "embedding adapter frames"]
        em assms(7) by auto
    define sa where "sa = s \<lparr> st_ctx := Some (ctx \<lparr> sx_dec := (sx_dec ctx) \<lparr> cx_aemb_ring := r \<rparr> \<rparr>) \<rparr>"
    obtain ok2 s2 where cp: "capture_new_adapter_output_sha rt sa c0 (c - c0) = (ok2, s2)" by force
    have "\<not> dg_capture_output_sha (st_diag s) \<Longrightarrow> ok2"
      using cp by (simp add: capture_new_adapter_output_sha_def sa_def)
    moreover have oks: "ok = ok2"
      using assms(1) True r(1) cp unfolding pump_adapter_def out c_def [symmetric] c0_def [symmetric] n Let_def
      by (simp add: sa_def [symmetric] split: bool.splits)
    ultimately have succeeds: "\<not> dg_capture_output_sha (st_diag s) \<longrightarrow> ok" by simp
    have s1: "ok \<longrightarrow> s1 = s2 \<lparr> st_dec := (st_dec s2) \<lparr> de_adapter_groups_committed := c,
        de_adapter_commit_calls := de_adapter_commit_calls (st_dec s2) + 1 \<rparr> \<rparr>"
      using assms(1) True r(1) cp unfolding pump_adapter_def out c_def [symmetric] c0_def [symmetric] n Let_def
      by (simp add: sa_def [symmetric] split: bool.splits)
    have s2: "same_rest sa s2 \<and> st_dec s2 = ?d \<and> st_ctx s2 = st_ctx sa"
      using capture_adapter_same [OF cp] by (simp add: sa_def)
    have c4l: "4 * c \<le> int (length frames)" using c4 pr(2) by linarith
    show ?thesis
      by (rule conjI [OF succeeds], rule impI, rule exI [of _ r], rule exI [of _ c], rule exI [of _ "de_adapter_commit_calls ?d + 1"])
        (use s1 s2 r2 True ai(1) c4l c_def in \<open>auto simp: sa_def same_rest_def adapter_inv_def consumed_floor_def split: if_splits\<close>)
  qed
qed

lemma commit_plan_capacity: "rg_capacity (decoder_kv_commit_plan kv plan) = rg_capacity kv"
  by (simp add: decoder_kv_commit_plan_def Let_def)

lemma core_prefill_capacity:
  "core_prefill gpu cap dev emb = Some st \<Longrightarrow> rg_capacity (snd st) = cap"
  by (auto simp: core_prefill_def Let_def commit_plan_capacity decoder_ring_cleared_def split: option.splits prod.splits if_splits)

lemma pump_prefill_inv:
  assumes "pump_prefill rt ctx s = (ok, s1)" "st_ctx s = Some ctx"
    and "decoder_inv (rt_dec_gpu rt) cap dev m n (embedding adapter frames) (sx_dec ctx) (st_dec s)"
    and "adapter_inv adapter frames (sx_dec ctx) (st_dec s)" "de_prompt_ids (st_dec s) = prompt_tokens"
  shows "(core_decode (rt_dec_gpu rt) cap m dev n (embedding adapter frames) \<noteq> None \<longrightarrow> ok) \<and>
   (ok \<longrightarrow> (\<exists>dctx p v b. st_ctx s1 = Some (ctx \<lparr> sx_dec := dctx \<rparr>) \<and>
    st_dec s1 = (st_dec s) \<lparr> de_prefill_done := b, de_position := p, de_prev_token := v \<rparr> \<and>
    decoder_inv (rt_dec_gpu rt) cap dev m n (embedding adapter frames) dctx (st_dec s1) \<and>
    adapter_inv adapter frames dctx (st_dec s1) \<and> same_rest s s1 \<and>
    (38 \<le> de_adapter_groups_committed (st_dec s) \<longrightarrow> de_prefill_done (st_dec s1))))"
proof (cases "\<not> de_prefill_done (st_dec s) \<and> 38 \<le> de_adapter_groups_committed (st_dec s)")
  case False
  then have s: "ok \<and> s1 = s" using assms(1,5) by (auto simp: pump_prefill_def Let_def prompt_tokens_facts)
  then have "core_decode (rt_dec_gpu rt) cap m dev n (embedding adapter frames) \<noteq> None \<longrightarrow> ok" by simp
  show ?thesis
    by (rule conjI, fact, rule impI, rule exI [of _ "sx_dec ctx"], rule exI [of _ "de_position (st_dec s)"],
        rule exI [of _ "de_prev_token (st_dec s)"], rule exI [of _ "de_prefill_done (st_dec s)"])
      (use s assms(2-4) False in auto)
next
  case True
  let ?d = "st_dec s"
  let ?gpu = "rt_dec_gpu rt"
  let ?emb = "embedding adapter frames"
  define lin where "lin = decoder_begin_incremental (sx_dec ctx)"
  have di: "counters_inv ?d" "cx_kv_capacity (sx_dec ctx) = cap" "cx_device (sx_dec ctx) = dev"
    using assms(3) True by (simp_all add: decoder_inv_def)
  have ct: "de_tokens ?d = []" "\<not> de_eos ?d" "de_position ?d = 0" "\<not> pt_valid (de_pending ?d)" "de_incremental ?d"
    "de_tokens_emitted ?d = 0"
    using di(1) True by (auto simp: counters_inv_def)
  have lin: "cx_kv lin = decoder_ring_cleared (cx_kv_capacity lin)" "cx_kv_capacity lin = cap" "cx_device lin = dev"
    "cx_audio_cap lin = 256" "cx_aemb_ring lin = cx_aemb_ring (sx_dec ctx)"
    using di by (simp_all add: lin_def decoder_begin_incremental_def clear_kv_cache_def)
  have hold: "aemb_holds ?emb (cx_aemb_ring (sx_dec ctx)) 0 (de_adapter_groups_committed ?d)"
    using assms(4) True by (simp add: adapter_inv_def consumed_floor_def)
  have col: "\<forall>g. 0 \<le> g \<and> g < 38 \<longrightarrow> audio_column lin g = ?emb g"
  proof (intro allI impI)
    fix g :: int assume g: "0 \<le> g \<and> g < 38"
    then have "g < de_adapter_groups_committed ?d" using True by linarith
    then have "cx_aemb_ring (sx_dec ctx) (g mod 256) = ?emb g" using hold g unfolding aemb_holds_def by blast
    moreover have "g mod 256 = g" using g by (intro mod_pos_pos_trivial) auto
    ultimately show "audio_column lin g = ?emb g" by (simp add: audio_column_def lin)
  qed
  have nn: "nat (int (length prompt_tokens) - 1) = 38" "int (length prompt_tokens) - 1 = 38" by (simp_all add: prompt_tokens_facts)
  obtain ok2 dctx where r: "run_decoder_prefill ?gpu lin (butlast prompt_tokens) = (ok2, dctx)" using prod.exhaust by blast
  define sa where "sa = s \<lparr> st_ctx := Some (ctx \<lparr> sx_dec := dctx \<rparr>) \<rparr>"
  have s1: "ok = ok2 \<and> (ok2 \<longrightarrow> s1 = sa \<lparr> st_dec := (st_dec sa) \<lparr> de_prefill_done := True, de_position := 38, de_prev_token := 32 \<rparr> \<rparr>)"
    using assms(1) True r
    unfolding pump_prefill_def Let_def assms(5) nn prompt_tokens_facts decoder_prefill_incremental_def
      lin_def [symmetric]
    by (auto simp: prompt_tokens_facts sa_def split: if_splits)
  have succeeds: "core_decode ?gpu cap m dev n ?emb \<noteq> None \<longrightarrow> ok"
  proof
    assume "core_decode ?gpu cap m dev n ?emb \<noteq> None"
    then obtain st where "core_prefill ?gpu cap dev ?emb = Some st" by (auto simp: core_decode_def split: option.splits)
    then show ok using run_decoder_prefill_core(2) [OF lin(1) col, of ?gpu st] lin(2,3) r s1 by simp
  qed
  show ?thesis
  proof (rule conjI [OF succeeds], rule impI)
  assume ok
  have "core_prefill ?gpu cap dev ?emb = Some (core_state dctx) \<and> dctx = set_core (core_state dctx) lin"
    using run_decoder_prefill_core(1) [OF lin(1) col, of ?gpu dctx] r s1 lin(2,3) \<open>ok\<close> by simp
  then have pf: "core_prefill ?gpu cap dev ?emb = Some (core_state dctx)" and dl: "dctx = set_core (core_state dctx) lin" by auto
  have cd: "core_decode ?gpu cap m dev n ?emb = core_loop ?gpu m n ?emb (core_state dctx) 38 32 []"
    by (simp add: core_decode_def pf)
  have cap: "rg_capacity (cx_kv dctx) = cap" using core_prefill_capacity [OF pf] by (simp add: core_state_def)
  have dx: "cx_audio_cap dctx = 256" "cx_kv_capacity dctx = cap" "cx_aemb_ring dctx = cx_aemb_ring (sx_dec ctx)"
    by (subst dl, simp add: lin)+
  have "decoder_inv ?gpu cap dev m n ?emb dctx (st_dec s1)"
    using s1 \<open>ok\<close> ct cap dx cd assms(5) by (simp add: decoder_inv_def counters_inv_def remaining_def sa_def)
  moreover have "adapter_inv adapter frames dctx (st_dec s1)"
    using assms(4) s1 \<open>ok\<close> dx(3) True by (auto simp: adapter_inv_def consumed_floor_def sa_def aemb_holds_def)
  note invs = calculation this
  show "\<exists>dctx p v b. st_ctx s1 = Some (ctx \<lparr> sx_dec := dctx \<rparr>) \<and>
    st_dec s1 = (st_dec s) \<lparr> de_prefill_done := b, de_position := p, de_prev_token := v \<rparr> \<and>
    decoder_inv ?gpu cap dev m n ?emb dctx (st_dec s1) \<and>
    adapter_inv adapter frames dctx (st_dec s1) \<and> same_rest s s1 \<and>
    (38 \<le> de_adapter_groups_committed (st_dec s) \<longrightarrow> de_prefill_done (st_dec s1))"
    by (rule exI [of _ dctx], rule exI [of _ 38], rule exI [of _ 32], rule exI [of _ True])
      (use s1 \<open>ok\<close> invs in \<open>simp add: sa_def same_rest_def\<close>)
qed
qed

section \<open>A whole pass\<close>

abbreviation batch_result ::
  "('f, 'k, 'o, 'a, 'c) runtime \<Rightarrow> ('o list \<Rightarrow> 'a) \<Rightarrow> int \<Rightarrow> 'c \<Rightarrow> stream_params \<Rightarrow> 'o list \<Rightarrow> int list option" where
  "batch_result rt adapter cap dev params frames \<equiv>
    core_decode (rt_dec_gpu rt) cap (sp_max_tokens params) dev (int (length frames div 4)) (embedding adapter frames)"

definition pump_inv ::
  "('f, 'k, 'o, 'a, 'c) runtime \<Rightarrow> ('o list \<Rightarrow> 'a) \<Rightarrow> int \<Rightarrow> 'c \<Rightarrow> vocab option \<Rightarrow> stream_params \<Rightarrow> 'o list
   \<Rightarrow> stream_event list \<Rightarrow> ('f, 'k, 'o, 'a, 'c) stream \<Rightarrow> bool" where
  "pump_inv rt adapter cap dev model params frames seen s \<longleftrightarrow>
    st_params s = params \<and> events_inv model (sp_sample_rate params) seen s \<and>
    (\<exists>ctx. st_ctx s = Some ctx \<and> adapter_inv adapter frames (sx_dec ctx) (st_dec s) \<and>
       decoder_inv (rt_dec_gpu rt) cap dev (sp_max_tokens params) (int (length frames div 4)) (embedding adapter frames)
         (sx_dec ctx) (st_dec s))"

lemma commit_pending_rest:
  assumes "commit_pending s = (ok, s1)"
  shows "st_ctx s1 = st_ctx s \<and> st_front s1 = st_front s \<and> st_params s1 = st_params s"
proof (cases "pt_valid (de_pending (st_dec s))")
  case False
  then show ?thesis using assms by (simp add: commit_pending_def)
next
  case True
  show ?thesis using commit_pending_result(5-7) [OF assms True] by simp
qed

lemma commit_pending_inv:
  assumes "commit_pending s = (ok, s1)" "pump_inv rt adapter cap dev model params frames seen s"
  shows "pump_inv rt adapter cap dev model params frames seen s1"
proof -
  obtain ctx where c: "st_ctx s = Some ctx" "adapter_inv adapter frames (sx_dec ctx) (st_dec s)"
    "decoder_inv (rt_dec_gpu rt) cap dev (sp_max_tokens params) (int (length frames div 4)) (embedding adapter frames)
       (sx_dec ctx) (st_dec s)"
    and e: "events_inv model (sp_sample_rate params) seen s" and p: "st_params s = params"
    using assms(2) by (auto simp: pump_inv_def)
  have ci: "counters_inv (st_dec s)" using c(3) by (simp add: decoder_inv_def)
  note cc = commit_pending_counters [OF assms(1) ci]
  have "adapter_inv adapter frames (sx_dec ctx) (st_dec s1)"
    using c(2) cc by (auto simp: adapter_inv_def aemb_holds_def)
  moreover have "decoder_inv (rt_dec_gpu rt) cap dev (sp_max_tokens params) (int (length frames div 4))
      (embedding adapter frames) (sx_dec ctx) (st_dec s1)"
    using c(3) cc by (simp add: decoder_inv_def commit_pending_remaining [OF assms(1) ci])
  ultimately show ?thesis
    using commit_pending_events [OF assms(1) ci e] commit_pending_rest [OF assms(1)] c(1) p by (simp add: pump_inv_def)
qed

lemma events_inv_same:
  assumes "events_inv model rate seen s" "st_ev t = st_ev s" "st_model t = st_model s" "st_params t = st_params s"
    and "delivered (st_dec t) = delivered (st_dec s)" "de_token_sequence (st_dec t) = de_token_sequence (st_dec s)"
    and "de_partial_text (st_dec t) = de_partial_text (st_dec s)" "de_tokens (st_dec t) = de_tokens (st_dec s)"
  shows "events_inv model rate seen t"
  using assms by (simp add: events_inv_def)

lemma run_step_pump_inv:
  assumes "run_step rt ctx s = (ok, s1)" "st_ctx s = Some ctx" "pump_inv rt adapter cap dev model params frames seen s"
    and "de_prefill_done (st_dec s)" "\<not> pt_valid (de_pending (st_dec s))" "\<not> de_eos (st_dec s)"
    and "de_position (st_dec s) < de_adapter_groups_committed (st_dec s)"
    and "sp_max_tokens params \<le> 0 \<or> de_tokens_emitted (st_dec s) < sp_max_tokens params"
    and "step_graphs_agree (rt_dec_gpu rt) cap" "int (length frames) < 2 ^ 31"
  shows "(batch_result rt adapter cap dev params frames \<noteq> None \<longrightarrow> ok) \<and>
    (ok \<longrightarrow> pump_inv rt adapter cap dev model params frames seen s1)"
proof -
  let ?d = "st_dec s"
  let ?n = "int (length frames div 4)"
  have i: "adapter_inv adapter frames (sx_dec ctx) ?d"
    "decoder_inv (rt_dec_gpu rt) cap dev (sp_max_tokens params) ?n (embedding adapter frames) (sx_dec ctx) ?d"
    "events_inv model (sp_sample_rate params) seen s" "st_params s = params"
    using assms(2,3) by (auto simp: pump_inv_def)
  have p0: "0 \<le> de_position ?d" using i(2) assms(4) by (auto simp: decoder_inv_def counters_inv_def)
  have cn: "de_adapter_groups_committed ?d \<le> ?n" using i(1) le_div4 [of "de_adapter_groups_committed ?d" "length frames"]
    by (simp add: adapter_inv_def)
  have pn: "de_position ?d < ?n" using assms(7) cn by linarith
  have n31: "?n < 2 ^ 31" using assms(10) by linarith
  obtain a where a: "embedding adapter frames (de_position ?d) = Some a" using p0 pn by (simp add: embedding_def)
  have ring: "cx_aemb_ring (sx_dec ctx) (de_position ?d mod 256) = embedding adapter frames (de_position ?d)"
    using i(1) assms(4,7) by (simp add: adapter_inv_def aemb_holds_def consumed_floor_def)
  note step = run_step_inv [OF assms(1,2) i(2) assms(4-6) pn n31 assms(8,9) ring a]
  have "pump_inv rt adapter cap dev model params frames seen s1" if ok
  proof -
  obtain dctx where r: "st_ctx s1 = Some (ctx \<lparr> sx_dec := dctx \<rparr>)" "cx_aemb_ring dctx = cx_aemb_ring (sx_dec ctx)"
    "decoder_inv (rt_dec_gpu rt) cap dev (sp_max_tokens params) ?n (embedding adapter frames) dctx (st_dec s1)"
    using step \<open>ok\<close> by auto
  obtain t where t: "st_dec s1 = ?d \<lparr> de_steps := de_steps ?d + 1, de_pending := \<lparr> pt_valid = True, pt_token = t,
      pt_position = de_position ?d, pt_special = is_special_token t \<rparr> \<rparr>"
    and o: "st_ev s1 = st_ev s" "st_model s1 = st_model s" "st_params s1 = st_params s"
    using run_step_result [OF _ assms(2), of rt s1] assms(1) \<open>ok\<close> by auto
  have "adapter_inv adapter frames dctx (st_dec s1)"
    using i(1) r(2) by (auto simp: adapter_inv_def t consumed_floor_def)
  moreover have "events_inv model (sp_sample_rate params) seen s1"
    by (rule events_inv_same [OF i(3) o]) (simp_all add: t delivered_def)
  ultimately show ?thesis using r i(4) o(3) by (simp add: pump_inv_def)
  qed
  then show ?thesis using step by blast
qed

definition generation_over :: "stream_params \<Rightarrow> decoder_part \<Rightarrow> bool" where
  "generation_over params d \<longleftrightarrow>
    de_eos d \<or> (0 < sp_max_tokens params \<and> sp_max_tokens params \<le> de_tokens_emitted d)"

lemma run_step_kept:
  assumes "run_step rt ctx s = (True, s1)" "st_ctx s = Some ctx" "commit_pending s1 = (ok, s2)" "counters_inv (st_dec s1)"
  shows "de_adapter_groups_committed (st_dec s2) = de_adapter_groups_committed (st_dec s) \<and>
    de_prefill_done (st_dec s2) = de_prefill_done (st_dec s) \<and> st_front s2 = st_front s"
  using run_step_result [OF assms(1,2)] commit_pending_counters [OF assms(3,4)] commit_pending_rest [OF assms(3)] by auto

lemma pump_steps_inv:
  assumes "step_graphs_agree (rt_dec_gpu rt) cap" "int (length frames) < 2 ^ 31"
  shows "pump_steps rt last_pos s = (st, t) \<Longrightarrow>
    pump_inv rt adapter cap dev model params frames seen s \<Longrightarrow> de_prefill_done (st_dec s) \<Longrightarrow>
    \<not> pt_valid (de_pending (st_dec s)) \<Longrightarrow> last_pos < de_adapter_groups_committed (st_dec s) \<Longrightarrow>
    (batch_result rt adapter cap dev params frames \<noteq> None \<longrightarrow> st \<in> {St_ok, St_limit_exceeded}) \<and>
    (st \<in> {St_ok, St_limit_exceeded} \<longrightarrow>
      pump_inv rt adapter cap dev model params frames seen t \<and> st_front t = st_front s \<and>
      de_adapter_groups_committed (st_dec t) = de_adapter_groups_committed (st_dec s) \<and>
      (st = St_ok \<longrightarrow> \<not> pt_valid (de_pending (st_dec t)) \<and> de_prefill_done (st_dec t) \<and>
         (last_pos < de_position (st_dec t) \<or> generation_over params (st_dec t))))"
  using assms
proof (induction rt last_pos s rule: pump_steps.induct)
  case (1 rt last_pos s)
  note inv = "1.prems"(2)
  have sp: "st_params s = params" using inv by (simp add: pump_inv_def)
  obtain ctx where c: "st_ctx s = Some ctx" using inv by (auto simp: pump_inv_def)
  let ?go = "de_position (st_dec s) \<le> last_pos \<and> \<not> de_eos (st_dec s) \<and>
        (sp_max_tokens params \<le> 0 \<or> de_tokens_emitted (st_dec s) < sp_max_tokens params)"
  show ?case
  proof (cases ?go)
    case False
    then have "st = St_ok \<and> t = s" using "1.prems"(1) sp by (subst (asm) pump_steps.simps) (auto simp: Let_def)
    then show ?thesis using 1 False inv by (auto simp: generation_over_def)
  next
    case True
    obtain ok s1 where r: "run_step rt ctx s = (ok, s1)" by force
    obtain ok2 s2 where k: "commit_pending s1 = (ok2, s2)" by force
    have unf: "pump_steps rt last_pos s = (if \<not> ok then (St_backend_error, s1) else
        if \<not> ok2 then (St_limit_exceeded, s2) else pump_steps rt last_pos s2)"
      using True c r k sp by (subst pump_steps.simps) (simp add: Let_def)
    have lt: "de_position (st_dec s) < de_adapter_groups_committed (st_dec s)" using True "1.prems"(5) by linarith
    have i0: "(batch_result rt adapter cap dev params frames \<noteq> None \<longrightarrow> ok) \<and>
        (ok \<longrightarrow> pump_inv rt adapter cap dev model params frames seen s1)"
      by (rule run_step_pump_inv [OF r c inv "1.prems"(3,4) _ lt _ "1.prems"(6,7)]) (use True in auto)
    show ?thesis
    proof (cases ok)
      case False
      then show ?thesis using i0 unf "1.prems"(1) by simp
    next
      case ok: True
      then have i1: "pump_inv rt adapter cap dev model params frames seen s1" using i0 by simp
    then have ci: "counters_inv (st_dec s1)" by (auto simp: pump_inv_def decoder_inv_def)
    have i2: "pump_inv rt adapter cap dev model params frames seen s2" by (rule commit_pending_inv [OF k i1])
    note kept = run_step_kept [OF r [unfolded eqTrueI [OF ok]] c k ci]
      show ?thesis
      proof (cases ok2)
      case False
      then show ?thesis using unf ok "1.prems"(1) i2 kept by simp
    next
      case ok2: True
      have np: "\<not> pt_valid (de_pending (st_dec s2))" using commit_pending_counters [OF k ci] ok2 by simp
      have "(batch_result rt adapter cap dev params frames \<noteq> None \<longrightarrow> st \<in> {St_ok, St_limit_exceeded}) \<and>
        (st \<in> {St_ok, St_limit_exceeded} \<longrightarrow>
        pump_inv rt adapter cap dev model params frames seen t \<and> st_front t = st_front s2 \<and>
        de_adapter_groups_committed (st_dec t) = de_adapter_groups_committed (st_dec s2) \<and>
        (st = St_ok \<longrightarrow> \<not> pt_valid (de_pending (st_dec t)) \<and> de_prefill_done (st_dec t) \<and>
           (last_pos < de_position (st_dec t) \<or> generation_over params (st_dec t))))"
        by (rule "1.IH" [OF refl _ c r [symmetric] _ k [symmetric]])
          (use True c r k ok ok2 sp unf "1.prems" i2 kept np in auto)
      then show ?thesis using kept by simp
    qed
    qed
  qed
qed

lemma prompt_kept:
  "remaining gpu m n emb st (d \<lparr> de_prompt_ids := p \<rparr>) = remaining gpu m n emb st d"
  "adapter_inv adapter frames ctx (d \<lparr> de_prompt_ids := p \<rparr>) = adapter_inv adapter frames ctx d"
  "counters_inv d \<Longrightarrow> counters_inv (d \<lparr> de_prompt_ids := prompt_tokens \<rparr>)"
  by (simp_all add: remaining_def counters_inv_def adapter_inv_def consumed_floor_def)

lemma build_prompt_inv:
  assumes "pump_inv rt adapter cap dev model params frames seen s"
  shows "pump_inv rt adapter cap dev model params frames seen (build_prompt_ids s)"
    and "de_prompt_ids (st_dec (build_prompt_ids s)) = prompt_tokens"
    and "st_ctx (build_prompt_ids s) = st_ctx s" "st_front (build_prompt_ids s) = st_front s"
    and "st_diag (build_prompt_ids s) = st_diag s" "de_incremental (st_dec (build_prompt_ids s)) = de_incremental (st_dec s)"
    and "committable_groups k (st_dec (build_prompt_ids s)) = committable_groups k (st_dec s)"
    and "de_adapter_groups_committed (st_dec (build_prompt_ids s)) = de_adapter_groups_committed (st_dec s)"
proof -
  have p: "de_prompt_ids (st_dec s) \<in> {[], prompt_tokens}"
    using assms by (auto simp: pump_inv_def decoder_inv_def counters_inv_def)
  have b: "build_prompt_ids s = s \<lparr> st_dec := (st_dec s) \<lparr> de_prompt_ids := prompt_tokens \<rparr> \<rparr>"
    using p prompt_tokens_facts(6) by (auto simp: build_prompt_ids_def prompt_tokens_def)
  show "pump_inv rt adapter cap dev model params frames seen (build_prompt_ids s)"
    using assms
    by (auto simp: b pump_inv_def decoder_inv_def prompt_kept events_inv_def delivered_def split: if_splits)
  show "de_prompt_ids (st_dec (build_prompt_ids s)) = prompt_tokens"
    "st_ctx (build_prompt_ids s) = st_ctx s" "st_front (build_prompt_ids s) = st_front s"
    "st_diag (build_prompt_ids s) = st_diag s" "de_incremental (st_dec (build_prompt_ids s)) = de_incremental (st_dec s)"
    "committable_groups k (st_dec (build_prompt_ids s)) = committable_groups k (st_dec s)"
    "de_adapter_groups_committed (st_dec (build_prompt_ids s)) = de_adapter_groups_committed (st_dec s)"
    by (simp_all add: b committable_groups_def)
qed

lemma pump_inv_keep:
  assumes "pump_inv rt adapter cap dev model params frames seen s" "same_rest s t" "st_ctx t = Some ctx"
    and "adapter_inv adapter frames (sx_dec ctx) (st_dec t)"
    and "decoder_inv (rt_dec_gpu rt) cap dev (sp_max_tokens params) (int (length frames div 4)) (embedding adapter frames)
      (sx_dec ctx) (st_dec t)"
    and "st_dec t = (st_dec s) \<lparr> de_adapter_groups_committed := c, de_adapter_commit_calls := k,
      de_prefill_done := b, de_position := p, de_prev_token := v \<rparr>"
  shows "pump_inv rt adapter cap dev model params frames seen t"
  using assms by (auto simp: pump_inv_def same_rest_def events_inv_def delivered_def)

lemma adapter_counters_kept:
  "remaining gpu m n emb st (d \<lparr> de_adapter_groups_committed := c, de_adapter_commit_calls := k \<rparr>)
   = remaining gpu m n emb st d"
  "counters_inv (d \<lparr> de_adapter_groups_committed := c, de_adapter_commit_calls := k \<rparr>) = counters_inv d"
  "core_state (ctx \<lparr> cx_aemb_ring := r \<rparr>) = core_state ctx"
  by (simp_all add: remaining_def counters_inv_def core_state_def)

lemma pump_adapter_pump_inv:
  assumes "pump_adapter rt ctx enc s = (ok, s1)" "st_ctx s = Some ctx"
    and "pump_inv rt adapter cap dev model params frames seen s"
    and "adapter_graphs_agree (rt_dec_gpu rt) adapter" "encoder_produced frames enc"
    and "ek_emitted (es_kv enc) - 256 \<le> 4 * de_adapter_groups_committed (st_dec s)"
  shows "(\<not> dg_capture_output_sha (st_diag s) \<longrightarrow> ok) \<and>
    (ok \<longrightarrow> pump_inv rt adapter cap dev model params frames seen s1 \<and> st_front s1 = st_front s \<and>
      de_prompt_ids (st_dec s1) = de_prompt_ids (st_dec s) \<and>
      committable_groups (ek_emitted (es_kv enc)) (st_dec s) \<le> de_adapter_groups_committed (st_dec s1))"
proof -
  let ?d = "st_dec s"
  have i: "adapter_inv adapter frames (sx_dec ctx) ?d"
    "decoder_inv (rt_dec_gpu rt) cap dev (sp_max_tokens params) (int (length frames div 4)) (embedding adapter frames)
      (sx_dec ctx) ?d"
    using assms(2,3) by (auto simp: pump_inv_def)
  have "0 \<le> consumed_floor ?d" using i(2) by (auto simp: decoder_inv_def counters_inv_def consumed_floor_def)
  note a = pump_adapter_inv [OF assms(1,2,4-6) i(1) this]
  show ?thesis
  proof (rule conjI, use a in simp, rule impI)
    assume ok
    then obtain r c k where r: "st_ctx s1 = Some (ctx \<lparr> sx_dec := (sx_dec ctx) \<lparr> cx_aemb_ring := r \<rparr> \<rparr>)"
      "st_dec s1 = ?d \<lparr> de_adapter_groups_committed := c, de_adapter_commit_calls := k \<rparr>"
      "adapter_inv adapter frames ((sx_dec ctx) \<lparr> cx_aemb_ring := r \<rparr>) (st_dec s1)" "same_rest s s1"
      "committable_groups (ek_emitted (es_kv enc)) ?d \<le> c"
      using a by blast
    have d: "decoder_inv (rt_dec_gpu rt) cap dev (sp_max_tokens params) (int (length frames div 4)) (embedding adapter frames)
        ((sx_dec ctx) \<lparr> cx_aemb_ring := r \<rparr>) (st_dec s1)"
      using i(2) by (simp add: r(2) decoder_inv_def adapter_counters_kept)
    have "pump_inv rt adapter cap dev model params frames seen s1"
      by (rule pump_inv_keep [OF assms(3) r(4) r(1), where c = c and k = k and b = "de_prefill_done ?d" and p = "de_position ?d"
          and v = "de_prev_token ?d"])
        (use r d in simp_all)
    then show "pump_inv rt adapter cap dev model params frames seen s1 \<and> st_front s1 = st_front s \<and>
      de_prompt_ids (st_dec s1) = de_prompt_ids (st_dec s) \<and>
      committable_groups (ek_emitted (es_kv enc)) (st_dec s) \<le> de_adapter_groups_committed (st_dec s1)"
      using r(2,4,5) by (simp add: same_rest_def)
  qed
qed

lemma pump_prefill_pump_inv:
  assumes "pump_prefill rt ctx s = (ok, s1)" "st_ctx s = Some ctx"
    and "pump_inv rt adapter cap dev model params frames seen s" "de_prompt_ids (st_dec s) = prompt_tokens"
  shows "(batch_result rt adapter cap dev params frames \<noteq> None \<longrightarrow> ok) \<and>
    (ok \<longrightarrow> pump_inv rt adapter cap dev model params frames seen s1 \<and> st_front s1 = st_front s \<and>
      de_adapter_groups_committed (st_dec s1) = de_adapter_groups_committed (st_dec s) \<and>
      (38 \<le> de_adapter_groups_committed (st_dec s) \<longrightarrow> de_prefill_done (st_dec s1)))"
proof -
  let ?d = "st_dec s"
  have i: "adapter_inv adapter frames (sx_dec ctx) ?d"
    "decoder_inv (rt_dec_gpu rt) cap dev (sp_max_tokens params) (int (length frames div 4)) (embedding adapter frames)
      (sx_dec ctx) ?d"
    using assms(2,3) by (auto simp: pump_inv_def)
  note a = pump_prefill_inv [OF assms(1,2) i(2,1) assms(4)]
  show ?thesis
  proof (rule conjI, use a in blast, rule impI)
    assume ok
    then obtain dctx p v b where r: "st_ctx s1 = Some (ctx \<lparr> sx_dec := dctx \<rparr>)"
      "st_dec s1 = ?d \<lparr> de_prefill_done := b, de_position := p, de_prev_token := v \<rparr>"
      "decoder_inv (rt_dec_gpu rt) cap dev (sp_max_tokens params) (int (length frames div 4)) (embedding adapter frames)
         dctx (st_dec s1)"
      "adapter_inv adapter frames dctx (st_dec s1)" "same_rest s s1"
      "38 \<le> de_adapter_groups_committed ?d \<longrightarrow> de_prefill_done (st_dec s1)"
      using a by blast
    have "pump_inv rt adapter cap dev model params frames seen s1"
      by (rule pump_inv_keep [OF assms(3) r(5) r(1), where c = "de_adapter_groups_committed ?d"
          and k = "de_adapter_commit_calls ?d" and b = b and p = p and v = v])
        (use r in simp_all)
    then show "pump_inv rt adapter cap dev model params frames seen s1 \<and> st_front s1 = st_front s \<and>
      de_adapter_groups_committed (st_dec s1) = de_adapter_groups_committed (st_dec s) \<and>
      (38 \<le> de_adapter_groups_committed (st_dec s) \<longrightarrow> de_prefill_done (st_dec s1))"
      using r(2,5,6) by (simp add: same_rest_def)
  qed
qed

lemma not_backpressured_inv:
  "pump_inv rt adapter cap dev model params frames seen (s \<lparr> st_ev := (st_ev s) \<lparr> ev_decoder_backpressured := b \<rparr> \<rparr>)
   = pump_inv rt adapter cap dev model params frames seen s"
  by (simp add: pump_inv_def events_inv_def)

definition pass_over :: "stream_params \<Rightarrow> decoder_part \<Rightarrow> bool" where
  "pass_over params d \<longleftrightarrow>
    (\<not> de_prefill_done d \<and> de_adapter_groups_committed d < 38) \<or>
    (de_prefill_done d \<and> de_adapter_groups_committed d \<le> de_position d) \<or> generation_over params d"

lemma pump_incremental_inv:
  assumes "pump_incremental rt s = (st, t)" "pump_inv rt adapter cap dev model params frames seen s"
    and "adapter_graphs_agree (rt_dec_gpu rt) adapter" "step_graphs_agree (rt_dec_gpu rt) cap"
    and "fr_enc (st_front s) = Some enc" "encoder_produced frames enc"
    and "ek_emitted (es_kv enc) - 256 \<le> 4 * de_adapter_groups_committed (st_dec s)"
  shows "(batch_result rt adapter cap dev params frames \<noteq> None \<and> \<not> dg_capture_output_sha (st_diag s) \<longrightarrow>
       st \<in> {St_ok, St_limit_exceeded}) \<and>
    (st \<in> {St_ok, St_limit_exceeded} \<longrightarrow>
       pump_inv rt adapter cap dev model params frames seen t \<and> st_front t = st_front s \<and>
       (st = St_ok \<longrightarrow> \<not> pt_valid (de_pending (st_dec t)) \<and> pass_over params (st_dec t) \<and>
          committable_groups (ek_emitted (es_kv enc)) (st_dec s) \<le> de_adapter_groups_committed (st_dec t)))"
proof -
  let ?I = "pump_inv rt adapter cap dev model params frames seen"
  let ?b = "batch_result rt adapter cap dev params frames \<noteq> None"
  note bp = build_prompt_inv [OF assms(2)]
  have n31: "int (length frames) < 2 ^ 31" using assms(6) by (simp add: encoder_produced_def)
  obtain ctx where c: "st_ctx s = Some ctx" using assms(2) by (auto simp: pump_inv_def)
  have inc: "de_incremental (st_dec s)" using assms(2) by (auto simp: pump_inv_def decoder_inv_def counters_inv_def)
  obtain ok1 s1 where a: "pump_adapter rt ctx enc (build_prompt_ids s) = (ok1, s1)" by force
  note ai = pump_adapter_pump_inv [OF a bp(3) [unfolded c] bp(1) assms(3,6) assms(7) [folded bp(8)]]
  obtain ok2 s2 where p: "pump_prefill rt (the (st_ctx s1)) s1 = (ok2, s2)" by force
  obtain ok3 s3 where k: "commit_pending s2 = (ok3, s3)" by force
  define s4 where "s4 = s3 \<lparr> st_ev := (st_ev s3) \<lparr> ev_decoder_backpressured := False \<rparr> \<rparr>"
  have unf: "pump_incremental rt s = (if \<not> ok1 then (St_backend_error, s1) else if \<not> ok2 then (St_backend_error, s2)
      else if \<not> de_prefill_done (st_dec s2) then (St_ok, s2) else if \<not> ok3 then (St_limit_exceeded, s3)
      else if de_eos (st_dec s4) then (St_ok, s4) else pump_steps rt (de_adapter_groups_committed (st_dec s4) - 1) s4)"
    using inc assms(5) c a p k by (simp add: pump_incremental_def s4_def Let_def)
  show ?thesis
  proof (cases ok1)
    case False
    then show ?thesis using unf assms(1) ai bp(5) by simp
  next
    case ok1: True
    have i1: "?I s1" "st_front s1 = st_front s" "de_prompt_ids (st_dec s1) = prompt_tokens"
      "committable_groups (ek_emitted (es_kv enc)) (st_dec s) \<le> de_adapter_groups_committed (st_dec s1)"
      using ai ok1 bp by auto
    obtain ctx1 where c1: "st_ctx s1 = Some ctx1" using i1(1) by (auto simp: pump_inv_def)
    have p1: "pump_prefill rt ctx1 s1 = (ok2, s2)" using p c1 by simp
    note pi = pump_prefill_pump_inv [OF p1 c1 i1(1,3)]
    show ?thesis
    proof (cases ok2)
      case False
      then show ?thesis using unf assms(1) pi ok1 by simp
    next
      case ok2: True
      have i2: "?I s2" "st_front s2 = st_front s"
        "de_adapter_groups_committed (st_dec s2) = de_adapter_groups_committed (st_dec s1)"
        "38 \<le> de_adapter_groups_committed (st_dec s1) \<longrightarrow> de_prefill_done (st_dec s2)"
        using pi ok2 i1(2) by auto
      have ci: "counters_inv (st_dec s2)" using i2(1) by (auto simp: pump_inv_def decoder_inv_def)
      show ?thesis
      proof (cases "de_prefill_done (st_dec s2)")
        case False
        then have "\<not> pt_valid (de_pending (st_dec s2))" using ci by (auto simp: counters_inv_def)
        then show ?thesis using unf assms(1) ok1 ok2 False i1(4) i2 by (auto simp: pass_over_def)
      next
        case pd: True
        have i3: "?I s3" by (rule commit_pending_inv [OF k i2(1)])
        note kc = commit_pending_counters [OF k ci] and kr = commit_pending_rest [OF k]
        have i4: "?I s4" "st_front s4 = st_front s" "st_dec s4 = st_dec s3"
          using i3 kr i2(2) by (simp_all add: s4_def not_backpressured_inv)
        show ?thesis
        proof (cases "ok3 \<and> \<not> de_eos (st_dec s4)")
          case False
          have u: "(st, t) = (if \<not> ok3 then (St_limit_exceeded, s3) else (St_ok, s4))"
            using unf assms(1) ok1 ok2 pd False by simp
          show ?thesis
          proof (cases ok3)
            case False
            then show ?thesis using u i3 kr i2(2) by simp
          next
            case ok3: True
            then have "de_eos (st_dec s4)" using False by simp
            then have "pass_over params (st_dec s4)" by (simp add: pass_over_def generation_over_def)
            then show ?thesis using u ok3 i4 kc i1(4) i2(3) by simp
          qed
        next
          case True
          have r: "pump_steps rt (de_adapter_groups_committed (st_dec s4) - 1) s4 = (st, t)"
            using unf assms(1) ok1 ok2 pd True by simp
          have "(?b \<longrightarrow> st \<in> {St_ok, St_limit_exceeded}) \<and>
            (st \<in> {St_ok, St_limit_exceeded} \<longrightarrow>
              ?I t \<and> st_front t = st_front s4 \<and>
              de_adapter_groups_committed (st_dec t) = de_adapter_groups_committed (st_dec s4) \<and>
              (st = St_ok \<longrightarrow> \<not> pt_valid (de_pending (st_dec t)) \<and> de_prefill_done (st_dec t) \<and>
                 (de_adapter_groups_committed (st_dec s4) - 1 < de_position (st_dec t) \<or> generation_over params (st_dec t))))"
            by (rule pump_steps_inv [OF assms(4) n31 r i4(1)]) (use i4(3) kc True pd in auto)
          then show ?thesis using i4(2,3) kc i1(4) i2(3) by (auto simp: pass_over_def)
        qed
      qed
    qed
  qed
qed

section \<open>Streaming runs\<close>

text \<open>What may happen to a stream between passes without touching the decoder: the encoder produces more
frames, counters, flags, hashes and error fields change.\<close>

definition outside_decoder ::
  "('f, 'k, 'o, 'a, 'c) stream \<Rightarrow> ('f, 'k, 'o, 'a, 'c) stream \<Rightarrow> bool" where
  "outside_decoder s t \<longleftrightarrow>
    st_dec t = st_dec s \<and> st_model t = st_model s \<and> st_params t = st_params s \<and>
    ev_queue (st_ev t) = ev_queue (st_ev s) \<and>
    dg_capture_output_sha (st_diag t) = dg_capture_output_sha (st_diag s) \<and>
    (\<forall>ctx. st_ctx s = Some ctx \<longrightarrow> (\<exists>ctx1. st_ctx t = Some ctx1 \<and>
       sx_dec ctx1 = (sx_dec ctx) \<lparr> cx_want_ring := cx_want_ring (sx_dec ctx1) \<rparr>))"

text \<open>The encoder has not lapped the adapter: no frame the adapter has not consumed was overwritten.\<close>

definition encoder_not_lapped :: "('f, 'k, 'o, 'a, 'c) stream \<Rightarrow> bool" where
  "encoder_not_lapped s \<longleftrightarrow>
    (\<forall>enc. fr_enc (st_front s) = Some enc \<longrightarrow>
       ek_emitted (es_kv enc) - 256 \<le> 4 * de_adapter_groups_committed (st_dec s))"

definition encoder_within :: "'o list \<Rightarrow> ('f, 'k, 'o, 'a, 'c) stream \<Rightarrow> bool" where
  "encoder_within frames s \<longleftrightarrow>
    (\<forall>enc. fr_enc (st_front s) = Some enc \<longrightarrow> encoder_produced frames enc)"

text \<open>A run from \<open>s0\<close>: passes in any number and order with encoder work and polls; the list is what was
polled.  \<open>frames\<close> are the frames the encoder produces in the whole run.\<close>

inductive decoding ::
  "('f, 'k, 'o, 'a, 'c) runtime \<Rightarrow> 'o list \<Rightarrow> ('f, 'k, 'o, 'a, 'c) stream \<Rightarrow> stream_event list
   \<Rightarrow> ('f, 'k, 'o, 'a, 'c) stream \<Rightarrow> bool"
  for rt frames s0 where
  start: "encoder_within frames s0 \<Longrightarrow> decoding rt frames s0 [] s0"
| elsewhere: "decoding rt frames s0 seen s \<Longrightarrow> outside_decoder s t \<Longrightarrow> encoder_within frames t \<Longrightarrow>
    decoding rt frames s0 seen t"
| pass: "decoding rt frames s0 seen s \<Longrightarrow> encoder_not_lapped s \<Longrightarrow> pump_incremental rt s = (st, t) \<Longrightarrow>
    st \<in> {St_ok, St_limit_exceeded} \<Longrightarrow> decoding rt frames s0 seen t"
| poll: "decoding rt frames s0 seen s \<Longrightarrow> stream_poll_event s = Some (ev, t) \<Longrightarrow>
    decoding rt frames s0 (seen @ [ev]) t"

text \<open>A stream whose incremental decoder has not started: what creation and reset leave.\<close>

definition decoder_unstarted :: "('f, 'k, 'o, 'a, 'c) stream \<Rightarrow> bool" where
  "decoder_unstarted s \<longleftrightarrow>
    st_dec s = new_decoder \<lparr> de_incremental := True, de_prompt_ids := de_prompt_ids (st_dec s) \<rparr> \<and>
    de_prompt_ids (st_dec s) \<in> {[], prompt_tokens} \<and> ev_queue (st_ev s) = [] \<and> model_ok (st_model s)"

lemma unstarted_inv:
  assumes "decoder_unstarted s" "st_ctx s = Some ctx"
  shows "pump_inv rt adapter (cx_kv_capacity (sx_dec ctx)) (cx_device (sx_dec ctx)) (st_model s) (st_params s) frames [] s"
proof -
  define p where "p = de_prompt_ids (st_dec s)"
  have e: "st_dec s = new_decoder \<lparr> de_incremental := True, de_prompt_ids := p \<rparr>" "p \<in> {[], prompt_tokens}"
    using assms(1) unfolding decoder_unstarted_def p_def by simp_all
  have d: "\<not> de_prefill_done (st_dec s)" "de_tokens (st_dec s) = []" "\<not> de_eos (st_dec s)" "de_incremental (st_dec s)"
    "de_tokens_emitted (st_dec s) = 0" "de_position (st_dec s) = 0" "de_adapter_groups_committed (st_dec s) = 0"
    "\<not> pt_valid (de_pending (st_dec s))" "de_token_sequence (st_dec s) = 0" "de_partial_text (st_dec s) = []"
    "de_prompt_ids (st_dec s) \<in> {[], prompt_tokens}"
    using e(2) by (simp_all add: e(1) new_decoder_def no_pending_def)
  show ?thesis
    using assms d
    by (auto simp: pump_inv_def decoder_inv_def counters_inv_def adapter_inv_def aemb_holds_def consumed_floor_def
        events_inv_def delivered_def transcript_events_def decoder_unstarted_def)
qed

lemma outside_decoder_inv:
  assumes "outside_decoder s t" "pump_inv rt adapter cap dev model params frames seen s"
  shows "pump_inv rt adapter cap dev model params frames seen t"
proof -
  obtain ctx where c: "st_ctx s = Some ctx" "adapter_inv adapter frames (sx_dec ctx) (st_dec s)"
    "decoder_inv (rt_dec_gpu rt) cap dev (sp_max_tokens params) (int (length frames div 4)) (embedding adapter frames)
       (sx_dec ctx) (st_dec s)"
    using assms(2) by (auto simp: pump_inv_def)
  obtain ctx1 b where c1: "st_ctx t = Some ctx1" "sx_dec ctx1 = (sx_dec ctx) \<lparr> cx_want_ring := b \<rparr>"
    using assms(1) c(1) by (auto simp: outside_decoder_def)
  have "core_state ((sx_dec ctx) \<lparr> cx_want_ring := b \<rparr>) = core_state (sx_dec ctx)" by (simp add: core_state_def)
  then have "adapter_inv adapter frames (sx_dec ctx1) (st_dec s) \<and>
    decoder_inv (rt_dec_gpu rt) cap dev (sp_max_tokens params) (int (length frames div 4)) (embedding adapter frames)
       (sx_dec ctx1) (st_dec s)"
    using c c1 by (simp add: adapter_inv_def decoder_inv_def)
  then show ?thesis using assms c1(1) by (simp add: pump_inv_def outside_decoder_def events_inv_def)
qed

lemma poll_inv:
  assumes "stream_poll_event s = Some (ev, t)" "pump_inv rt adapter cap dev model params frames seen s"
  shows "pump_inv rt adapter cap dev model params frames (seen @ [ev]) t \<and> st_front t = st_front s \<and> st_diag t = st_diag s"
  using assms by (auto simp: stream_poll_event_def pump_inv_def events_inv_def split: list.splits)

lemma pump_no_encoder: "fr_enc (st_front s) = None \<Longrightarrow> pump_incremental rt s = (St_ok, s)"
  by (simp add: pump_incremental_def)

lemma decoding_inv:
  assumes "adapter_graphs_agree (rt_dec_gpu rt) adapter" "step_graphs_agree (rt_dec_gpu rt) (cx_kv_capacity (sx_dec ctx))"
    and "decoder_unstarted s0" "st_ctx s0 = Some ctx"
  shows "decoding rt frames s0 seen s \<Longrightarrow>
    pump_inv rt adapter (cx_kv_capacity (sx_dec ctx)) (cx_device (sx_dec ctx)) (st_model s0) (st_params s0) frames seen s \<and>
    encoder_within frames s"
proof (induction rule: decoding.induct)
  case start
  then show ?case using unstarted_inv [OF assms(3,4)] by simp
next
  case (elsewhere seen s t)
  then show ?case using outside_decoder_inv [OF elsewhere(2)] by simp
next
  case (pass seen s st t)
  show ?case
  proof (cases "fr_enc (st_front s)")
    case None
    then show ?thesis using pass pump_no_encoder [OF None, of rt] by simp
  next
    case (Some enc)
    have e: "encoder_produced frames enc" "ek_emitted (es_kv enc) - 256 \<le> 4 * de_adapter_groups_committed (st_dec s)"
      using pass Some by (simp_all add: encoder_within_def encoder_not_lapped_def)
    show ?thesis
      using pump_incremental_inv [OF pass(3) _ assms(1,2) Some e] pass(4,5) by (auto simp: encoder_within_def)
  qed
next
  case (poll seen s ev t)
  then show ?case using poll_inv [OF poll(2)] by (auto simp: encoder_within_def)
qed

lemma remaining_extends:
  "remaining gpu m n emb st d = Some out \<Longrightarrow> \<exists>rest. out = de_tokens d @ rest"
  unfolding remaining_def by (auto split: if_splits dest!: core_loop_extends)

lemma batch_long:
  assumes "batch_tokens gpu adapter m ctx frames = Some out"
  shows "core_decode gpu (cx_kv_capacity ctx) m (cx_device ctx) (int (length frames div 4)) (embedding adapter frames) = Some out"
  using assms batch_tokens_short [of frames gpu adapter m ctx] batch_tokens_core [of frames gpu adapter m ctx]
  by (cases "length frames div 4 < 39") auto

section \<open>An example runtime\<close>

text \<open>The device of the witnesses: the token of a step is its position plus three, and the end marker from
position 40 on; the encoder has produced 256 frames.\<close>

definition unit_ops :: "unit float_ops" where
  "unit_ops = \<lparr> f_add = \<lambda>_ _. (), f_sub = \<lambda>_ _. (), f_mul = \<lambda>_ _. (), f_div = \<lambda>_ _. (), f_neg = \<lambda>_. (),
     f_lt = \<lambda>_ _. False, f_le = \<lambda>_ _. True, f_of_int = \<lambda>_. (), f_lit = \<lambda>_ _. (), f_log = \<lambda>_. (), f_log10 = \<lambda>_. (),
     f_exp = \<lambda>_. (), f_cos = \<lambda>_. (), f_sin = \<lambda>_. () \<rparr>"

definition echo_decoder :: "(unit, unit, int) decoder_gpu" where
  "echo_decoder =
    \<lparr> dg_adapter_ring = \<lambda>rows. (replicate (length rows div 4) (Some ()), True),
      dg_adapter_linear = \<lambda>rows. Some (replicate (length rows div 4) ()),
      dg_prefill = \<lambda>dev plan ids pos audio. (dev + int (length ids), True),
      dg_step_fixed = \<lambda>dev full slot used tok pos a. (dev + 1, Some (if pos < 40 then pos + 3 else 2)),
      dg_step_dynamic = \<lambda>dev plan tok pos a. (dev + 1, Some (if pos < 40 then pos + 3 else 2)) \<rparr>"

definition echo_runtime :: "(unit, unit, unit, unit, int) runtime" where
  "echo_runtime =
    \<lparr> rt_ops = unit_ops, rt_float_bytes = \<lambda>_. [], rt_is_finite = \<lambda>_. True,
      rt_enc_gpu = \<lparr> gpu_exec = \<lambda>k i. None, gpu_copy = \<lambda>_. True \<rparr>,
      rt_enc_config = \<lparr> cfg_schedule = encoder_kv_schedule_from_env (\<lambda>_. None), cfg_finish_physical = 8, cfg_want_ring = True,
                        cfg_segmented = \<lambda>_. False \<rparr>,
      rt_dec_gpu = echo_decoder, rt_enc_row_bytes = \<lambda>_. [], rt_aemb_row_bytes = \<lambda>_. [], rt_frontend_alloc = True,
      rt_encoder_alloc = True, rt_ring_alloc = True, rt_result_alloc = True, rt_reserve = \<lambda>_. True, rt_append_alloc = True,
      rt_chunk_graph = \<lambda>mel skip pos mask. None, rt_strategy_env = None, rt_is_offline = False \<rparr>"

definition echo_encoder :: "(unit list, unit, unit) enc_stream" where
  "echo_encoder = (let new = encoder_stream_create () (\<lambda>_. Some ()) in new \<lparr> es_kv := (es_kv new) \<lparr> ek_emitted := 256 \<rparr> \<rparr>)"

definition echo_context :: "(unit, unit, unit, unit, int) stream_context" where
  "echo_context =
    \<lparr> sx_dec = \<lparr> cx_aemb_ring = \<lambda>_. None, cx_audio_cap = 0, cx_decoder_memory = [], cx_kv = decoder_ring_cleared 64,
                 cx_kv_capacity = 64, cx_device = 0, cx_force_dynamic = False, cx_want_ring = True \<rparr>,
      sx_hann = None, sx_filters = None, sx_enc_device = (), sx_enc_ring = \<lambda>_. None \<rparr>"

definition echo_stream :: "(unit, unit, unit, unit, int) stream" where
  "echo_stream =
    (let s = new_stream (Some \<lparr> vb_num_special = 3, vb_special_ranks = [], vb_vocab_b64 = [], vb_cache = (\<lambda>_. None) \<rparr>) default_params in
     s \<lparr> st_ctx := Some echo_context, st_front := (st_front s) \<lparr> fr_enc := Some echo_encoder \<rparr>,
         st_dec := (st_dec s) \<lparr> de_incremental := True \<rparr> \<rparr>)"

lemma echo_batch: "batch_tokens echo_decoder (\<lambda>_. ()) 0 (sx_dec echo_context) (replicate 256 ()) = Some [41, 42]"
  by code_simp

lemma echo_pass: "(case pump_incremental echo_runtime echo_stream of (st, t) \<Rightarrow>
    (st, de_tokens (st_dec t), de_eos (st_dec t))) = (St_ok, [41, 42], True)"
  by code_simp

lemma echo_graphs: "adapter_graphs_agree echo_decoder (\<lambda>_. ())" "step_graphs_agree echo_decoder cap"
  by (simp_all add: adapter_graphs_agree_def step_graphs_agree_def echo_decoder_def frame_groups_def map_replicate_const)

lemma echo_unstarted: "decoder_unstarted echo_stream" "st_ctx echo_stream = Some echo_context"
  by (simp_all add: decoder_unstarted_def echo_stream_def Let_def new_stream_def new_decoder_def new_events_def model_ok_def
      vocab_ok_def)

lemma echo_start: "decoding echo_runtime (replicate 256 ()) echo_stream [] echo_stream"
  by (rule decoding.start)
    (auto simp: encoder_within_def echo_stream_def echo_encoder_def Let_def encoder_produced_def encoder_stream_create_def
      encoder_kv_fresh_def ring_holds_def nat_less_iff)

lemma echo_not_lapped: "encoder_not_lapped echo_stream"
  by (simp add: encoder_not_lapped_def echo_stream_def echo_encoder_def Let_def new_stream_def new_decoder_def)





end
