(* ===== verification/ReferenceEncoderCorrect.thy ===== *)
theory ReferenceEncoderCorrect
  imports ReferenceEncoder PumpCorrect "HOL-Library.Sublist"
begin

text \<open>The reference encoder of a stream computes what the chunked batch encoder computes, however the Mel frames
arrive, over a window of fewer than 3000 frames.\<close>

section \<open>Lengths\<close>

lemma conv_dims_stride1: "1 \<le> n \<Longrightarrow> cd_out_len (compute_causal_conv1d_dims n 3 1) = n"
  by (simp add: compute_causal_conv1d_dims_def Let_def signed_divide_int_def sgn_if)

lemma ceiling_half: "\<lceil>rat_of_int n / 2\<rceil> = (n + 1) div 2"
proof -
  have "rat_of_int n / 2 \<le> rat_of_int ((n + 1) div 2)"
    using iffD2 [OF of_int_le_iff [where 'a = rat], of n "2 * ((n + 1) div 2)"] by simp
  moreover have "rat_of_int ((n + 1) div 2) - 1 < rat_of_int n / 2"
    using iffD2 [OF of_int_less_iff [where 'a = rat], of "2 * ((n + 1) div 2) - 2" n] by simp
  ultimately show ?thesis by (intro ceiling_unique) auto
qed

lemma conv_dims_stride2:
  assumes "1 \<le> n"
  shows "cd_out_len (compute_causal_conv1d_dims n 3 2) = (n + 1) div 2"
proof -
  obtain h where h: "h = (n + 1) div 2" by simp
  have c: "\<lceil>rat_of_int (n - 3 + (3 - 2)) / rat_of_int 2 + 1\<rceil> = h"
    unfolding h using ceiling_half [of "n - 2"] by simp
  have x: "n \<le> 2 * h" "2 * h \<le> n + 1" "1 \<le> h" unfolding h using assms by presburger+
  then have m: "max 0 ((h - 1) * 2 + (3 - (3 - 2)) - n) = 2 * h - n" by simp
  have "cd_out_len (compute_causal_conv1d_dims n 3 2) = (n + (3 - 2) + (2 * h - n) - 3) sdiv 2 + 1"
    using assms unfolding compute_causal_conv1d_dims_def Let_def c m by simp
  also have "\<dots> = h" using x(3) by (simp add: signed_divide_int_def sgn_if)
  finally show ?thesis by (simp add: h)
qed

lemma smod_nonneg: "0 \<le> (a :: int) \<Longrightarrow> 0 < b \<Longrightarrow> a smod b = a mod b"
  by (simp add: signed_modulo_int_def sgn_if)

lemma enc_tokens: "1 \<le> n \<Longrightarrow> mel_frames_to_enc_tokens n = (n + 1) div 2 - (n + 1) div 2 mod 4"
  by (simp add: mel_frames_to_enc_tokens_def Let_def conv_dims_stride1 conv_dims_stride2 smod_nonneg)

lemma enc_tokens_bounds:
  assumes "1 \<le> n"
  shows "0 \<le> mel_frames_to_enc_tokens n" "2 * mel_frames_to_enc_tokens n \<le> n + 1"
  unfolding enc_tokens [OF assms] using assms by presburger+

lemma enc_tokens_short: "1 \<le> n \<Longrightarrow> n < 1501 \<Longrightarrow> mel_frames_to_enc_tokens n < 750"
  unfolding enc_tokens by presburger

lemma enc_tokens_3000 [simp]: "mel_frames_to_enc_tokens 3000 = 1500"
  by (simp add: enc_tokens)

lemma enc_tokens_8: "0 < m \<Longrightarrow> mel_frames_to_enc_tokens (8 * m) = 4 * m"
  by (simp add: enc_tokens)

section \<open>The graph of a chunk\<close>

text \<open>What is asked of the graph: it returns one row per position, and where no row is skipped the rows of a prefix
are the prefix of the rows (the convolutions and the mask are causal).\<close>

definition chunk_graph_total :: "('f, 'k, 'o, 'a, 'c) runtime \<Rightarrow> bool" where
  "chunk_graph_total rt \<longleftrightarrow> \<not> rt_is_offline rt \<and>
    (\<forall>mel trunc pos mask. map_option length (rt_chunk_graph rt mel trunc pos mask) = Some (length pos))"

definition chunk_graph_causal :: "('f, 'k, 'o, 'a, 'c) runtime \<Rightarrow> bool" where
  "chunk_graph_causal rt \<longleftrightarrow>
    (\<forall>mel m k. length mel = 8 * m \<and> k \<le> m \<longrightarrow>
       rt_chunk_graph rt (take (8 * k) mel) 0 [0..int (4 * k) - 1] (Some (sliding_causal_mask (int (4 * k)))) =
       map_option (take (4 * k))
         (rt_chunk_graph rt mel 0 [0..int (4 * m) - 1] (Some (sliding_causal_mask (int (4 * m))))))"

definition graph_rows :: "('f, 'k, 'o, 'a, 'c) runtime \<Rightarrow> 'f list list \<Rightarrow> int \<Rightarrow> 'o list" where
  "graph_rows rt mel rope = the (run_encoder_chunk rt mel rope)"

lemma conv_lengths_stream:
  "1 \<le> n \<Longrightarrow> conv_lengths False n = Some ((n + 1) div 2, (n + 1) div 2 mod 4)"
  by (simp add: conv_lengths_def Let_def conv_dims_stride1 conv_dims_stride2 smod_nonneg)

lemma run_chunk_graph:
  assumes "\<not> rt_is_offline rt" "conv_lengths False (int (length mel)) = Some (n, t)"
  shows "run_encoder_chunk rt mel rope =
    rt_chunk_graph rt mel t [rope..rope + (n - t) - 1] (Some (sliding_causal_mask (n - t)))"
  using assms by (simp add: run_encoder_chunk_def Let_def)

lemma run_chunk_rows:
  assumes "chunk_graph_total rt" "mel \<noteq> []"
  shows "run_encoder_chunk rt mel rope = Some (graph_rows rt mel rope)"
    "int (length (graph_rows rt mel rope)) = mel_frames_to_enc_tokens (int (length mel))"
proof -
  have n: "1 \<le> int (length mel)" using assms(2) by (cases mel) auto
  let ?c = "(int (length mel) + 1) div 2"
  let ?s = "?c - ?c mod 4"
  have off: "\<not> rt_is_offline rt" using assms(1) by (simp add: chunk_graph_total_def)
  have e: "run_encoder_chunk rt mel rope =
      rt_chunk_graph rt mel (?c mod 4) [rope..rope + ?s - 1] (Some (sliding_causal_mask ?s))"
    by (rule run_chunk_graph [OF off conv_lengths_stream [OF n]])
  have "map_option length (run_encoder_chunk rt mel rope) = Some (length [rope..rope + ?s - 1])"
    unfolding e using assms(1) unfolding chunk_graph_total_def by (simp only:)
  then obtain rows where r: "run_encoder_chunk rt mel rope = Some rows" "length rows = length [rope..rope + ?s - 1]"
    unfolding map_option_eq_Some by blast
  then show "run_encoder_chunk rt mel rope = Some (graph_rows rt mel rope)" by (simp add: graph_rows_def)
  have "0 \<le> ?s" using n by presburger
  then show "int (length (graph_rows rt mel rope)) = mel_frames_to_enc_tokens (int (length mel))"
    using r by (simp add: graph_rows_def enc_tokens [OF n])
qed

lemma graph_rows_prefix:
  assumes "chunk_graph_total rt" "chunk_graph_causal rt" "length mel = 8 * m" "0 < k" "k \<le> m"
  shows "graph_rows rt (take (8 * k) mel) 0 = take (4 * k) (graph_rows rt mel 0)"
proof -
  have run: "run_encoder_chunk rt ys 0 =
      rt_chunk_graph rt ys 0 [0..int (4 * j) - 1] (Some (sliding_causal_mask (int (4 * j))))"
    if "length ys = 8 * j" "0 < j" for ys j
  proof -
    have "1 \<le> int (length ys)" "(int (length ys) + 1) div 2 = 4 * int j" using that by auto
    then have "conv_lengths False (int (length ys)) = Some (4 * int j, 0)"
      using conv_lengths_stream [of "int (length ys)"] by simp
    moreover have "\<not> rt_is_offline rt" using assms(1) by (simp add: chunk_graph_total_def)
    ultimately show ?thesis using run_chunk_graph [of rt ys "4 * int j" 0 0] by simp
  qed
  have "mel \<noteq> []" using assms(3-5) by auto
  then have "run_encoder_chunk rt mel 0 = Some (graph_rows rt mel 0)" by (rule run_chunk_rows [OF assms(1)])
  then have "run_encoder_chunk rt (take (8 * k) mel) 0 = Some (take (4 * k) (graph_rows rt mel 0))"
    using assms(2-5) run [of mel m] run [of "take (8 * k) mel" k] by (simp add: chunk_graph_causal_def)
  then show ?thesis by (simp add: graph_rows_def)
qed

section \<open>Whole chunks\<close>

text \<open>The rows of the first \<open>c\<close> whole chunks, each without its overlap.\<close>

primrec stitched :: "('f, 'k, 'o, 'a, 'c) runtime \<Rightarrow> 'f list list \<Rightarrow> nat \<Rightarrow> 'o list" where
  "stitched rt sig 0 = []"
| "stitched rt sig (Suc c) =
    stitched rt sig c @
    drop (if c = 0 then 0 else 750) (graph_rows rt (take 3000 (drop (1500 * c) sig)) (750 * int c))"

lemma stitched_append: "1500 * c + 1500 \<le> length sig \<Longrightarrow> stitched rt (sig @ ys) c = stitched rt sig c"
  by (induction c) auto

lemma whole_chunk:
  assumes "chunk_graph_total rt" "1500 * c + 3000 \<le> length sig"
  shows "run_encoder_chunk rt (take 3000 (drop (1500 * c) sig)) rope =
      Some (graph_rows rt (take 3000 (drop (1500 * c) sig)) rope)"
    "length (graph_rows rt (take 3000 (drop (1500 * c) sig)) rope) = 1500"
proof -
  have l: "length (take 3000 (drop (1500 * c) sig)) = 3000" using assms(2) by simp
  then have ne: "take 3000 (drop (1500 * c) sig) \<noteq> []" by auto
  show "run_encoder_chunk rt (take 3000 (drop (1500 * c) sig)) rope =
      Some (graph_rows rt (take 3000 (drop (1500 * c) sig)) rope)" by (rule run_chunk_rows(1) [OF assms(1) ne])
  show "length (graph_rows rt (take 3000 (drop (1500 * c) sig)) rope) = 1500"
    using run_chunk_rows(2) [OF assms(1) ne, of rope] unfolding l by simp
qed

lemma length_stitched:
  assumes "chunk_graph_total rt" "c = 0 \<or> 1500 * c + 1500 \<le> length sig"
  shows "length (stitched rt sig c) = (if c = 0 then 0 else 750 * c + 750)"
  using assms(2)
proof (induction c)
  case (Suc c)
  then show ?case using whole_chunk(2) [OF assms(1), of c sig "750 * int c"] by auto
qed simp

section \<open>One run\<close>

lemma take_new_rows_appends:
  assumes "rw_cur_chunk es = int c" "rw_emitted es = int (length (rw_enc_accum es))"
    and "length (rw_enc_accum es) = 750 * c + s" "c \<noteq> 0 \<Longrightarrow> 750 \<le> s" "length rows < 2 ^ 31"
  shows "rw_enc_accum (take_new_rows es rows f) = rw_enc_accum es @ drop s rows"
    and "rw_emitted (take_new_rows es rows f) = int (length (rw_enc_accum es @ drop s rows))"
    and "rw_frames_before_finish (take_new_rows es rows f) + rw_frames_at_finish (take_new_rows es rows f) =
      rw_frames_before_finish es + rw_frames_at_finish es + int (length (drop s rows))"
proof -
  have st: "rw_emitted es - rw_cur_chunk es * 750 = int s" using assms(1-3) by simp
  have src: "(if int s < (if rw_cur_chunk es = 0 then 0 else 750) then if rw_cur_chunk es = 0 then 0 else 750 else int s) = int s"
    using assms(1,4) by auto
  have n: "i32 (int (length rows) - int s) = int (length rows) - int s" if "s < length rows"
    using that assms(5) by (intro i32_id) auto
  have d: "take (nat (int (length rows) - int s)) (drop s rows) = drop s rows" if "s < length rows"
    using that by (intro take_all) simp
  note u = take_new_rows_def Let_def st src
  show "rw_enc_accum (take_new_rows es rows f) = rw_enc_accum es @ drop s rows"
    unfolding u using n d by simp
  show "rw_emitted (take_new_rows es rows f) = int (length (rw_enc_accum es @ drop s rows))"
    unfolding u using assms(1-3) by simp
  show "rw_frames_before_finish (take_new_rows es rows f) + rw_frames_at_finish (take_new_rows es rows f) =
      rw_frames_before_finish es + rw_frames_at_finish es + int (length (drop s rows))"
    unfolding u using n by simp
qed

text \<open>The part of the state the arguments below follow.\<close>

definition counted :: "('f, 'o) ref_stream \<Rightarrow> bool" where
  "counted es \<longleftrightarrow> rw_emitted es = int (length (rw_enc_accum es)) \<and>
     rw_frames_before_finish es + rw_frames_at_finish es = rw_emitted es \<and> \<not> rw_finalized es"

definition at_chunk :: "'f list list \<Rightarrow> nat \<Rightarrow> ('f, 'o) ref_stream \<Rightarrow> bool" where
  "at_chunk sig c es \<longleftrightarrow> rw_cur_chunk es = int c \<and> rw_stable_mel es = int (length sig) \<and>
     rw_window_base es = 1500 * int c \<and> rw_mel_window es = drop (1500 * c) sig \<and> 1500 * c \<le> length sig \<and>
     length sig < 2 ^ 31 \<and> counted es"

lemma run_chunk_appends:
  assumes at: "at_chunk sig c es" and n: "1500 * c + n \<le> length sig"
    and len: "length (rw_enc_accum es) = 750 * c + s" "c \<noteq> 0 \<Longrightarrow> 750 \<le> s"
    and rows: "run_encoder_chunk rt (take n (drop (1500 * c) sig)) (750 * int c) = Some rows" "length rows < 2 ^ 31"
  obtains es1 where "encoder_stream_run_chunk rt es (int n) f = (True, es1)" "at_chunk sig c es1"
    "rw_enc_accum es1 = rw_enc_accum es @ drop s rows" "rw_last_run_mel_end es1 = 1500 * int c + int n"
proof -
  let ?e = "es \<lparr> rw_encoder_executions := rw_encoder_executions es + 1,
      rw_encoder_input_frames := rw_encoder_input_frames es + int n,
      rw_encoder_max_window := max (rw_encoder_max_window es) (int n),
      rw_last_run_mel_end := rw_cur_chunk es * 1500 + int n \<rparr>"
  have a: "rw_cur_chunk es = int c" "rw_window_base es = 1500 * int c" "rw_mel_window es = drop (1500 * c) sig"
      "1500 * c \<le> length sig" "length sig < 2 ^ 31" "counted es"
    using at by (auto simp: at_chunk_def)
  have i: "i32 (750 * int c) = 750 * int c" using a(4,5) by (intro i32_id) auto
  have g: "\<not> int (length (rw_mel_window es)) < int n" using n a(3) by simp
  have r: "encoder_stream_run_chunk rt es (int n) f = (True, take_new_rows ?e rows f)"
    using rows(1) g a(1-3) i by (simp add: encoder_stream_run_chunk_def mult.commute)
  have e: "rw_cur_chunk ?e = int c" "rw_emitted ?e = int (length (rw_enc_accum ?e))"
      "length (rw_enc_accum ?e) = 750 * c + s"
    using a len by (simp_all add: counted_def)
  note t = take_new_rows_appends [OF e len(2) rows(2), of f]
  show thesis
  proof (rule that [OF r])
    show "at_chunk sig c (take_new_rows ?e rows f)" using at t by (simp add: at_chunk_def counted_def)
  qed (use t(1) a(1) in simp_all)
qed

section \<open>The invariant of feeding\<close>

text \<open>In the first chunk the accumulation is what the last prefix run gave, later it is the whole chunks so far.\<close>

definition feeding :: "('f, 'k, 'o, 'a, 'c) runtime \<Rightarrow> 'f list list \<Rightarrow> nat \<Rightarrow> ('f, 'o) ref_stream \<Rightarrow> bool" where
  "feeding rt sig c es \<longleftrightarrow> at_chunk sig c es \<and>
    (if c = 0
     then \<exists>k. 8 * k \<le> length sig \<and> k \<le> 375 \<and> rw_last_run_mel_end es = 8 * int k \<and>
            rw_enc_accum es = (if k = 0 then [] else graph_rows rt (take (8 * k) sig) 0)
     else 1500 * c + 1500 \<le> length sig \<and> rw_enc_accum es = stitched rt sig c)"

lemma prefix_rows:
  assumes "chunk_graph_total rt" "0 < k" "8 * k \<le> length sig"
  shows "length (graph_rows rt (take (8 * k) sig) rope) = 4 * k"
    "run_encoder_chunk rt (take (8 * k) sig) rope = Some (graph_rows rt (take (8 * k) sig) rope)"
proof -
  have ne: "take (8 * k) sig \<noteq> []" using assms(2,3) by auto
  show "run_encoder_chunk rt (take (8 * k) sig) rope = Some (graph_rows rt (take (8 * k) sig) rope)"
    by (rule run_chunk_rows(1) [OF assms(1) ne])
  show "length (graph_rows rt (take (8 * k) sig) rope) = 4 * k"
    using run_chunk_rows(2) [OF assms(1) ne, of rope] enc_tokens_8 [of "int k"] assms(2,3) by (simp add: min_absorb2)
qed

text \<open>A longer run of the first chunk extends a shorter one.\<close>

lemma extend_prefix:
  assumes "chunk_graph_total rt" "chunk_graph_causal rt" "k \<le> m" "0 < m" "8 * m \<le> length sig"
    and "accum = (if k = 0 then [] else graph_rows rt (take (8 * k) sig) 0)"
  shows "accum @ drop (4 * k) (graph_rows rt (take (8 * m) sig) 0) = graph_rows rt (take (8 * m) sig) 0"
    "length accum = 4 * k"
proof -
  have m: "length (take (8 * m) sig) = 8 * m" using assms(5) by simp
  have "accum = take (4 * k) (graph_rows rt (take (8 * m) sig) 0)"
  proof (cases "k = 0")
    case False
    then show ?thesis using graph_rows_prefix [OF assms(1,2) m _ assms(3)] assms(3,6) by (simp add: min_def)
  qed (use assms(6) in simp)
  then show "accum @ drop (4 * k) (graph_rows rt (take (8 * m) sig) 0) = graph_rows rt (take (8 * m) sig) 0"
    "length accum = 4 * k"
    using prefix_rows(1) [OF assms(1,4,5), of 0] assms(3) by simp_all
qed

lemma advance_at:
  assumes "at_chunk sig c es" "1500 * Suc c \<le> length sig"
  shows "at_chunk sig (Suc c) (advance_chunk es)" "rw_enc_accum (advance_chunk es) = rw_enc_accum es"
  using assms by (auto simp: at_chunk_def advance_chunk_def counted_def Let_def nat_add_distrib)

lemma next_turn_whole:
  "at_chunk sig c es \<Longrightarrow> 1500 * c + 3000 \<le> length sig \<Longrightarrow> next_turn final es = Run_turn 3000 True"
  by (auto simp: next_turn_def at_chunk_def Let_def)

lemma run_whole_chunk:
  assumes rt: "chunk_graph_total rt" "chunk_graph_causal rt" and fd: "feeding rt sig c es"
    and w: "1500 * c + 3000 \<le> length sig"
  shows "\<exists>es1. encoder_stream_run_chunk rt es 3000 f = (True, es1) \<and> feeding rt sig (Suc c) (advance_chunk es1)"
proof -
  let ?rows = "graph_rows rt (take 3000 (drop (1500 * c) sig)) (750 * int c)"
  have at: "at_chunk sig c es" using fd by (simp add: feeding_def)
  have n: "1500 * c + 3000 \<le> length sig" using w .
  obtain s where s: "length (rw_enc_accum es) = 750 * c + s" "c \<noteq> 0 \<Longrightarrow> 750 \<le> s"
      "rw_enc_accum es @ drop s ?rows = stitched rt sig (Suc c)"
  proof (cases "c = 0")
    case True
    then obtain k where k: "8 * k \<le> length sig" "k \<le> 375"
        "rw_enc_accum es = (if k = 0 then [] else graph_rows rt (take (8 * k) sig) 0)"
      using fd by (auto simp: feeding_def)
    have x: "8 * 375 \<le> length sig" using w True by simp
    show thesis using that [of "4 * k"] extend_prefix [OF rt k(2) _ x k(3)] True by simp
  next
    case False
    then have a: "rw_enc_accum es = stitched rt sig c" "1500 * c + 1500 \<le> length sig"
      using fd by (simp_all add: feeding_def)
    then have l: "length (rw_enc_accum es) = 750 * c + 750" using length_stitched [OF rt(1), of c sig] False by simp
    show thesis using that [OF l] a(1) False by simp
  qed
  have rows: "run_encoder_chunk rt (take 3000 (drop (1500 * c) sig)) (750 * int c) = Some ?rows" "length ?rows < 2 ^ 31"
    using whole_chunk [OF rt(1) w] by simp_all
  obtain es1 where e: "encoder_stream_run_chunk rt es (int 3000) f = (True, es1)" "at_chunk sig c es1"
      "rw_enc_accum es1 = rw_enc_accum es @ drop s ?rows"
    using run_chunk_appends [OF at n s(1,2) rows] by blast
  have "1500 * Suc c \<le> length sig" using w by simp
  then have "feeding rt sig (Suc c) (advance_chunk es1)"
    using advance_at [OF e(2)] e(3) s(3) w by (simp add: feeding_def del: stitched.simps)
  then show ?thesis using e(1) by auto
qed

lemma drive_whole_chunk:
  assumes "chunk_graph_total rt" "chunk_graph_causal rt" "feeding rt sig c es" "1500 * c + 3000 \<le> length sig"
  obtains es1 where "encoder_stream_drive rt final es = encoder_stream_drive rt final es1" "feeding rt sig (Suc c) es1"
proof -
  obtain es1 where e: "encoder_stream_run_chunk rt es 3000 final = (True, es1)" "feeding rt sig (Suc c) (advance_chunk es1)"
    using run_whole_chunk [OF assms] by blast
  have "next_turn final es = Run_turn 3000 True" using next_turn_whole assms(3,4) by (auto simp: feeding_def)
  then have "encoder_stream_drive rt final es = encoder_stream_drive rt final (advance_chunk es1)"
    using e(1) by (subst encoder_stream_drive.simps) simp
  then show thesis using that e(2) by blast
qed

text \<open>A prefix run of the first chunk, while Mel frames arrive.\<close>

lemma run_prefix:
  assumes rt: "chunk_graph_total rt" "chunk_graph_causal rt" and fd: "feeding rt sig 0 es"
    and m: "0 < m" "m \<le> 375" "8 * m \<le> length sig" "rw_last_run_mel_end es \<le> 8 * int m"
  shows "\<exists>es1. encoder_stream_run_chunk rt es (8 * int m) f = (True, es1) \<and> feeding rt sig 0 es1 \<and>
    rw_enc_accum es1 = graph_rows rt (take (8 * m) sig) 0"
proof -
  let ?rows = "graph_rows rt (take (8 * m) sig) 0"
  obtain k where k: "8 * k \<le> length sig" "rw_last_run_mel_end es = 8 * int k" "at_chunk sig 0 es"
      "rw_enc_accum es = (if k = 0 then [] else graph_rows rt (take (8 * k) sig) 0)"
    using fd by (auto simp: feeding_def)
  have "k \<le> m" using k(2) m(4) by simp
  note x = extend_prefix [OF rt this m(1,3) k(4)]
  have rows: "run_encoder_chunk rt (take (8 * m) (drop (1500 * 0) sig)) (750 * int 0) = Some ?rows" "length ?rows < 2 ^ 31"
    using prefix_rows [OF rt(1) m(1,3), of 0] m(2) by simp_all
  have n: "1500 * 0 + 8 * m \<le> length sig" using m(3) by simp
  have s: "length (rw_enc_accum es) = 750 * 0 + 4 * k" "(0::nat) \<noteq> 0 \<Longrightarrow> 750 \<le> 4 * k" using x(2) by simp_all
  obtain es1 where e: "encoder_stream_run_chunk rt es (int (8 * m)) f = (True, es1)" "at_chunk sig 0 es1"
      "rw_enc_accum es1 = rw_enc_accum es @ drop (4 * k) ?rows" "rw_last_run_mel_end es1 = 1500 * int 0 + int (8 * m)"
    using run_chunk_appends [OF k(3) n s rows] by blast
  then have "feeding rt sig 0 es1" using m x(1) by (auto simp: feeding_def intro!: exI [of _ m])
  then show ?thesis using e(1,3) x(1) by simp
qed

lemma drive_feeding:
  assumes rt: "chunk_graph_total rt" "chunk_graph_causal rt" and fd: "feeding rt sig c es"
  shows "\<exists>es' c'. encoder_stream_drive rt False es = (True, es') \<and> feeding rt sig c' es' \<and> length sig < 1500 * c' + 3000"
  using fd
proof (induction "length sig - 1500 * c" arbitrary: c es rule: less_induct)
  case less
  have at: "at_chunk sig c es" using less.prems by (simp add: feeding_def)
  show ?case
  proof (cases "1500 * c + 3000 \<le> length sig")
    case True
    then obtain es1 where "encoder_stream_drive rt False es = encoder_stream_drive rt False es1" "feeding rt sig (Suc c) es1"
      using drive_whole_chunk [OF rt less.prems] by blast
    then show ?thesis using less.hyps [of "Suc c" es1] True by simp
  next
    case False
    show ?thesis
    proof (cases "next_turn False es")
      case Stop_turn
      then have "encoder_stream_drive rt False es = (True, es)" by (subst encoder_stream_drive.simps) simp
      then show ?thesis using less.prems False by (metis not_le)
    next
      case (Run_turn n a)
      let ?m = "(length sig) div 8"
      have c0: "c = 0" "n = int (length sig) sdiv 8 * 8" "\<not> a" "0 < n" "rw_last_run_mel_end es \<le> n"
        using Run_turn False at by (auto simp: next_turn_def Let_def at_chunk_def split: if_splits)
      have n: "n = 8 * int ?m" using c0(2) by (simp add: signed_divide_int_def sgn_if zdiv_int)
      have m: "0 < ?m" "?m \<le> 375" "8 * ?m \<le> length sig" using n c0(1,4) False by auto
      obtain es1 where "encoder_stream_run_chunk rt es n False = (True, es1)" "feeding rt sig 0 es1"
        using run_prefix [OF rt _ m, of es False] less.prems c0(1,5) unfolding n by blast
      then have "encoder_stream_drive rt False es = (True, es1) \<and> feeding rt sig 0 es1"
        using Run_turn c0(3) by (subst encoder_stream_drive.simps) simp
      then show ?thesis using False c0(1) by (metis not_le)
    qed
  qed
qed

section \<open>The batch encoder\<close>

lemma total_tokens_ge: "t \<le> total_enc_tokens_loop n off first t"
proof (induction n off first t rule: total_enc_tokens_loop.induct)
  case (1 n off first t)
  let ?d = "mel_frames_to_enc_tokens (min 3000 (n - off)) - (if first then 0 else 750)"
  show ?case
  proof (cases "off < n \<and> \<not> ?d \<le> 0")
    case True
    then have "t + ?d \<le> total_enc_tokens_loop n (off + 1500) False (t + ?d)" by (intro "1.IH") auto
    moreover have "total_enc_tokens_loop n off first t = total_enc_tokens_loop n (off + 1500) False (t + ?d)"
      using True by (subst total_enc_tokens_loop.simps) (simp only: Let_def if_True if_False simp_thms)
    ultimately show ?thesis using True by linarith
  next
    case False
    then show ?thesis by (subst total_enc_tokens_loop.simps) (auto simp: Let_def)
  qed
qed

text \<open>The batch loop from chunk \<open>c\<close>, with the room the size computation gives it.\<close>

definition batch_from :: "('f, 'k, 'o, 'a, 'c) runtime \<Rightarrow> 'f list list \<Rightarrow> nat \<Rightarrow> 'o list \<Rightarrow> 'o list option" where
  "batch_from rt sig c written =
    encoder_chunks rt sig (total_enc_tokens_loop (int (length sig)) (1500 * int c) (c = 0) (int (length written)))
      (1500 * int c) (int c) written"

lemma batch_stop:
  assumes "length sig \<le> 1500 * c \<or>
    mel_frames_to_enc_tokens (min 3000 (int (length sig) - 1500 * int c)) \<le> (if c = 0 then 0 else 750)"
  shows "batch_from rt sig c written = Some written"
  using assms unfolding batch_from_def by (subst encoder_chunks.simps) (auto simp: Let_def)

lemma batch_chunk:
  assumes rt: "chunk_graph_total rt" and off: "1500 * c < length sig"
    and n: "n = min 3000 (length sig - 1500 * c)"
    and more: "(if c = 0 then 0 else 750) < mel_frames_to_enc_tokens (int n)"
    and len: "length written = (if c = 0 then 0 else 750 * c + 750)"
  shows "batch_from rt sig c written = batch_from rt sig (Suc c)
    (written @ drop (if c = 0 then 0 else 750) (graph_rows rt (take n (drop (1500 * c) sig)) (750 * int c)))"
proof -
  let ?ys = "take n (drop (1500 * c) sig)" and ?skip = "if c = 0 then 0 else 750 :: int"
  let ?rows = "graph_rows rt ?ys (750 * int c)"
  have ly: "length ?ys = n" "?ys \<noteq> []" using off n by (auto simp: min_def)
  note r = run_chunk_rows [OF rt ly(2), of "750 * int c", unfolded ly(1)]
  have ni: "min 3000 (int (length sig) - 1500 * int c) = int n" using off n by auto
  have rope: "int (length written) - ?skip = 750 * int c" using len by simp
  let ?t = "int (length written) + (mel_frames_to_enc_tokens (int n) - ?skip)"
  have tot: "total_enc_tokens_loop (int (length sig)) (1500 * int c) (c = 0) (int (length written)) =
      total_enc_tokens_loop (int (length sig)) (1500 * int (Suc c)) False ?t"
    using off more ni by (subst total_enc_tokens_loop.simps) (auto simp: Let_def algebra_simps)
  have len2: "int (length (written @ drop (nat ?skip) ?rows)) = ?t" using r(2) more by (auto split: if_splits)
  have room: "\<not> total_enc_tokens_loop (int (length sig)) (1500 * int (Suc c)) False ?t - int (length written)
      < mel_frames_to_enc_tokens (int n) - ?skip"
    using total_tokens_ge [of ?t "int (length sig)" "1500 * int (Suc c)" False] by simp
  have tk: "take (nat (mel_frames_to_enc_tokens (int n) - ?skip)) (drop (nat ?skip) ?rows) = drop (nat ?skip) ?rows"
    using r(2) by (intro take_all) (auto simp: nat_le_iff)
  have sk: "(if 0 < int c then 750 else 0) = ?skip" by simp
  have "batch_from rt sig c written =
      encoder_chunks rt sig (total_enc_tokens_loop (int (length sig)) (1500 * int (Suc c)) False ?t)
        (1500 * int c + 1500) (int c + 1) (written @ drop (nat ?skip) ?rows)"
    unfolding batch_from_def tot using off more r rope room tk
    by (subst encoder_chunks.simps) (simp only: Let_def ni sk rope nat_int, simp add: nat_mult_distrib)
  also have "\<dots> = batch_from rt sig (Suc c) (written @ drop (nat ?skip) ?rows)"
    unfolding batch_from_def len2 by (simp add: algebra_simps)
  finally show ?thesis by (simp split: if_splits)
qed

lemma batch_whole_chunk:
  assumes "chunk_graph_total rt" "1500 * c + 3000 \<le> length sig"
  shows "batch_from rt sig c (stitched rt sig c) = batch_from rt sig (Suc c) (stitched rt sig (Suc c))"
  using batch_chunk [where n = 3000, OF assms(1) _ _ _ length_stitched [OF assms(1)]] assms(2) by auto

lemma batch_from_start:
  assumes "chunk_graph_total rt" "c = 0 \<or> 1500 * c + 1500 \<le> length sig"
  shows "batch_from rt sig 0 [] = batch_from rt sig c (stitched rt sig c)"
  using assms(2)
proof (induction c)
  case (Suc c)
  then show ?case using batch_whole_chunk [OF assms(1), of c sig] by (simp del: stitched.simps)
qed simp

lemma total_tokens_pos: "8 \<le> n \<Longrightarrow> 0 < compute_total_enc_tokens n"
proof -
  assume n: "8 \<le> n"
  let ?t = "mel_frames_to_enc_tokens (min 3000 n)"
  have "1 \<le> min 3000 n" using n by simp
  moreover have "(min 3000 n + 1) div 2 mod 4 < 4" "4 \<le> (min 3000 n + 1) div 2" using n by auto
  ultimately have t: "0 < ?t" using enc_tokens [of "min 3000 n"] by linarith
  then have "compute_total_enc_tokens n = total_enc_tokens_loop n 1500 False ?t"
    using n unfolding compute_total_enc_tokens_def by (subst total_enc_tokens_loop.simps) (simp add: Let_def)
  then show ?thesis using total_tokens_ge [of ?t n 1500 False] t by simp
qed

section \<open>The final drive\<close>

text \<open>The last chunk of a recording, shorter than 3000 frames: run when it gives a row past its overlap.\<close>

lemma next_turn_last:
  assumes "at_chunk sig c es" "length sig < 1500 * c + 3000"
  shows "next_turn True es =
    (if length sig \<le> 1500 * c \<or>
        mel_frames_to_enc_tokens (int (length sig - 1500 * c)) \<le> (if c = 0 then 0 else 750) then Stop_turn
     else Run_turn (int (length sig - 1500 * c)) False)"
  using assms by (auto simp: next_turn_def at_chunk_def Let_def mult.commute [of "int c" 1500])

lemma run_last_chunk:
  assumes rt: "chunk_graph_total rt" "chunk_graph_causal rt" and fd: "feeding rt sig c es"
    and dv: "8 dvd length sig" and sh: "length sig < 1500 * c + 3000" "1500 * c < length sig"
  obtains es1 where "encoder_stream_run_chunk rt es (int (length sig - 1500 * c)) True = (True, es1)"
    "at_chunk sig c es1" "rw_enc_accum es1 = stitched rt sig c @
      drop (if c = 0 then 0 else 750) (graph_rows rt (drop (1500 * c) sig) (750 * int c))"
proof (cases "c = 0")
  case True
  obtain m where m: "length sig = 8 * m" using dv by blast
  have "0 < m" "m \<le> 375" "8 * m \<le> length sig" "rw_last_run_mel_end es \<le> 8 * int m"
    using fd m sh True by (auto simp: feeding_def)
  then obtain es1 where "encoder_stream_run_chunk rt es (8 * int m) True = (True, es1)" "feeding rt sig 0 es1"
      "rw_enc_accum es1 = graph_rows rt (take (8 * m) sig) 0"
    using run_prefix [OF rt, of sig es m True] fd True by blast
  then show ?thesis using that [of es1] True m by (simp add: feeding_def)
next
  case False
  let ?n = "length sig - 1500 * c"
  let ?rows = "graph_rows rt (drop (1500 * c) sig) (750 * int c)"
  have at: "at_chunk sig c es" and a: "rw_enc_accum es = stitched rt sig c" "1500 * c + 1500 \<le> length sig"
    using fd False by (simp_all add: feeding_def)
  have l: "length (rw_enc_accum es) = 750 * c + 750" using a length_stitched [OF rt(1), of c sig] False by simp
  have ne: "drop (1500 * c) sig \<noteq> []" using sh(2) by simp
  have "2 * int (length ?rows) \<le> int ?n + 1"
    using run_chunk_rows(2) [OF rt(1) ne, of "750 * int c"] enc_tokens_bounds(2) [of "int ?n"] sh(2) by simp
  then have rows: "run_encoder_chunk rt (take ?n (drop (1500 * c) sig)) (750 * int c) = Some ?rows" "length ?rows < 2 ^ 31"
    using run_chunk_rows(1) [OF rt(1) ne] sh(1) by simp_all
  have n: "1500 * c + ?n \<le> length sig" using sh(2) by simp
  obtain es1 where "encoder_stream_run_chunk rt es (int ?n) True = (True, es1)" "at_chunk sig c es1"
      "rw_enc_accum es1 = rw_enc_accum es @ drop 750 ?rows"
    using run_chunk_appends [OF at n l _ rows] by blast
  then show ?thesis using that [of es1] a(1) False by simp
qed

lemma drive_final:
  assumes rt: "chunk_graph_total rt" "chunk_graph_causal rt" and fd: "feeding rt sig c es" and dv: "8 dvd length sig"
  shows "\<exists>es' c'. encoder_stream_drive rt True es = (True, es') \<and> at_chunk sig c' es' \<and>
     batch_from rt sig c (stitched rt sig c) = Some (rw_enc_accum es')"
  using fd
proof (induction "length sig - 1500 * c" arbitrary: c es rule: less_induct)
  case less
  let ?skip = "if c = 0 then 0 else 750 :: nat"
  have at: "at_chunk sig c es" using less.prems by (simp add: feeding_def)
  have len: "length (stitched rt sig c) = (if c = 0 then 0 else 750 * c + 750)"
    using length_stitched [OF rt(1)] less.prems by (auto simp: feeding_def)
  show ?case
  proof (cases "1500 * c + 3000 \<le> length sig")
    case True
    then obtain es1 where d: "encoder_stream_drive rt True es = encoder_stream_drive rt True es1" "feeding rt sig (Suc c) es1"
      using drive_whole_chunk [OF rt less.prems] by blast
    have "batch_from rt sig c (stitched rt sig c) = batch_from rt sig (Suc c) (stitched rt sig (Suc c))"
      by (rule batch_whole_chunk [OF rt(1) True])
    then show ?thesis using less.hyps [OF _ d(2)] d(1) True by (auto simp del: stitched.simps)
  next
    case False
    let ?n = "length sig - 1500 * c"
    show ?thesis
    proof (cases "length sig \<le> 1500 * c \<or> mel_frames_to_enc_tokens (int ?n) \<le> (if c = 0 then 0 else 750)")
      case True
      have "next_turn True es = Stop_turn" using next_turn_last [OF at] False True by simp
      then have d: "encoder_stream_drive rt True es = (True, es)" by (subst encoder_stream_drive.simps) simp
      have b: "batch_from rt sig c (stitched rt sig c) = Some (stitched rt sig c)"
        using True False by (intro batch_stop) (cases "length sig \<le> 1500 * c", auto simp: of_nat_diff)
      have "rw_enc_accum es = stitched rt sig c"
      proof (cases "c = 0")
        case c: True
        obtain m where "length sig = 8 * m" using dv by blast
        then have "m = 0" using True c enc_tokens_8 [of "int m"] by (cases "m = 0") auto
        then have "sig = []" using \<open>length sig = 8 * m\<close> by simp
        then show ?thesis using less.prems c by (auto simp: feeding_def)
      qed (use less.prems in \<open>simp add: feeding_def\<close>)
      then show ?thesis using d b at by auto
    next
      case more: False
      then have lt: "1500 * c < length sig" and mt: "(if c = 0 then 0 else 750) < mel_frames_to_enc_tokens (int ?n)"
        by (simp_all only: de_Morgan_disj not_le)
      have nn: "?n = min 3000 ?n" using False by simp
      obtain es1 where e: "encoder_stream_run_chunk rt es (int ?n) True = (True, es1)" "at_chunk sig c es1"
          "rw_enc_accum es1 = stitched rt sig c @ drop ?skip (graph_rows rt (drop (1500 * c) sig) (750 * int c))"
        using run_last_chunk [OF rt less.prems dv _ lt] False by auto
      have "next_turn True es = Run_turn (int ?n) False" using next_turn_last [OF at] False more by simp
      then have d: "encoder_stream_drive rt True es = (True, es1)" using e(1) by (subst encoder_stream_drive.simps) simp
      have "batch_from rt sig c (stitched rt sig c) = batch_from rt sig (Suc c) (rw_enc_accum es1)"
        using batch_chunk [OF rt(1) lt nn mt len] e(3) by simp
      also have "\<dots> = Some (rw_enc_accum es1)"
      proof (rule batch_stop)
        have "1500 * Suc c < length sig \<Longrightarrow> mel_frames_to_enc_tokens (int (length sig) - 1500 * int (Suc c)) < 750"
          using False by (intro enc_tokens_short) auto
        then show "length sig \<le> 1500 * Suc c \<or>
            mel_frames_to_enc_tokens (min 3000 (int (length sig) - 1500 * int (Suc c))) \<le> (if Suc c = 0 then 0 else 750)"
          using False by (cases "1500 * Suc c < length sig") (auto simp: min_def)
      qed
      finally show ?thesis using d e(2) by auto
    qed
  qed
qed

section \<open>The stream operations\<close>

lemma update_peak_kept [simp]:
  "at_chunk sig c (update_peak es) = at_chunk sig c es" "rw_enc_accum (update_peak es) = rw_enc_accum es"
  "rw_last_run_mel_end (update_peak es) = rw_last_run_mel_end es" "rw_mel_window (update_peak es) = rw_mel_window es"
  by (auto simp: update_peak_def at_chunk_def counted_def Let_def)

lemma feeding_update_peak [simp]: "feeding rt sig c (update_peak es) = feeding rt sig c es"
  by (simp add: feeding_def)

lemma append_fields:
  "at_chunk sig c es \<Longrightarrow> length (sig @ ys) < 2 ^ 31 \<Longrightarrow> at_chunk (sig @ ys) c (ref_stream_append es ys)"
  "rw_enc_accum (ref_stream_append es ys) = rw_enc_accum es"
  "rw_last_run_mel_end (ref_stream_append es ys) = rw_last_run_mel_end es"
  unfolding ref_stream_append_def update_peak_kept by (auto simp: at_chunk_def counted_def)

lemma feeding_append:
  assumes "feeding rt sig c es" "length (sig @ ys) < 2 ^ 31"
  shows "feeding rt (sig @ ys) c (ref_stream_append es ys)"
proof -
  have at: "at_chunk (sig @ ys) c (ref_stream_append es ys)"
    using append_fields(1) assms by (auto simp: feeding_def)
  show ?thesis
  proof (cases "c = 0")
    case True
    then obtain k where "8 * k \<le> length sig" "k \<le> 375" "rw_last_run_mel_end es = 8 * int k"
        "rw_enc_accum es = (if k = 0 then [] else graph_rows rt (take (8 * k) sig) 0)"
      using assms(1) by (auto simp: feeding_def)
    then show ?thesis using at True by (auto simp: feeding_def append_fields(2,3) intro!: exI [of _ k])
  next
    case False
    then show ?thesis using assms(1) at by (simp add: feeding_def append_fields(2) stitched_append)
  qed
qed

lemma feeding_fresh: "feeding rt [] 0 ref_stream_fresh"
  by (auto simp: feeding_def at_chunk_def counted_def ref_stream_fresh_def)

definition ref_push ::
  "('f, 'k, 'o, 'a, 'c) runtime \<Rightarrow> ('f, 'o) ref_stream \<Rightarrow> 'f list list \<Rightarrow> ('f, 'o) ref_stream option" where
  "ref_push rt es ys =
    (case ref_stream_push_mel rt es (Some ys) (rw_stable_mel es) (int (length ys)) of
       (True, es1) \<Rightarrow> Some es1
     | (False, es1) \<Rightarrow> None)"

definition ref_fits :: "('f, 'k, 'o, 'a, 'c) runtime \<Rightarrow> 'f list list \<Rightarrow> bool" where
  "ref_fits rt sig \<longleftrightarrow> chunk_graph_total rt \<and> chunk_graph_causal rt \<and> length sig < 2 ^ 31"

definition ref_good :: "('f, 'k, 'o, 'a, 'c) runtime \<Rightarrow> 'f list list \<Rightarrow> ('f, 'o) ref_stream \<Rightarrow> bool" where
  "ref_good rt sig es \<longleftrightarrow> (\<exists>c. feeding rt sig c es \<and> length sig < 1500 * c + 3000)"

lemma ref_push_good:
  assumes "ref_good rt sig es" "ref_fits rt (sig @ ys)"
  shows "\<exists>es'. ref_push rt es ys = Some es' \<and> ref_good rt (sig @ ys) es'"
proof (cases "ys = []")
  case True
  have "\<not> rw_finalized es" using assms(1) by (auto simp: ref_good_def feeding_def at_chunk_def counted_def)
  then show ?thesis using assms(1) True by (simp add: ref_push_def ref_stream_push_mel_def)
next
  case False
  have rt: "chunk_graph_total rt" "chunk_graph_causal rt" "length (sig @ ys) < 2 ^ 31"
    using assms(2) by (simp_all add: ref_fits_def)
  obtain c where c: "feeding rt sig c es" using assms(1) by (auto simp: ref_good_def)
  then have f: "\<not> rw_finalized es" by (simp add: feeding_def at_chunk_def counted_def)
  obtain es1 c' where "encoder_stream_drive rt False (ref_stream_append es ys) = (True, es1)"
      "feeding rt (sig @ ys) c' es1" "length (sig @ ys) < 1500 * c' + 3000"
    using drive_feeding [OF rt(1,2) feeding_append [OF c rt(3)]] by blast
  then show ?thesis using f False
    by (auto simp: ref_push_def ref_stream_push_mel_def ref_drive_update_def ref_good_def intro!: exI [of _ c'])
qed

text \<open>The chunk being filled and the window kept depend on the frames alone.\<close>

lemma ref_good_window:
  assumes "ref_good rt sig es"
  shows "(rw_cur_chunk es, rw_mel_window es) =
    (int ((length sig - 1500) div 1500), drop (1500 * ((length sig - 1500) div 1500)) sig)"
proof -
  obtain c where c: "feeding rt sig c es" "length sig < 1500 * c + 3000" using assms by (auto simp: ref_good_def)
  have "c = 0 \<or> 1500 * c + 1500 \<le> length sig" using c(1) by (auto simp: feeding_def split: if_splits)
  then have "(length sig - 1500) div 1500 = c" using c(2) by (intro div_nat_eqI) auto
  then show ?thesis using c(1) by (simp add: feeding_def at_chunk_def)
qed

interpretation ref: chunked ref_stream_fresh "ref_push rt" "\<lambda>ys. ys" "ref_fits rt" "ref_good rt"
  "\<lambda>es. (rw_cur_chunk es, rw_mel_window es)"
  "\<lambda>sig. (int ((length sig - 1500) div 1500), drop (1500 * ((length sig - 1500) div 1500)) sig)"
  for rt :: "('f, 'k, 'o, 'a, 'c) runtime"
proof unfold_locales
  show "ref_good rt [] ref_stream_fresh" using feeding_fresh [of rt] by (auto simp: ref_good_def)
next
  fix sig es ys
  assume "ref_good rt sig es" "ref_fits rt (sig @ ys)"
  then show "\<exists>es'. ref_push rt es ys = Some es' \<and> ref_good rt (sig @ ys) es'" by (rule ref_push_good)
next
  fix sig es
  assume "ref_good rt sig es"
  then show "(rw_cur_chunk es, rw_mel_window es) =
      (int ((length sig - 1500) div 1500), drop (1500 * ((length sig - 1500) div 1500)) sig)" by (rule ref_good_window)
qed (simp add: ref_fits_def)

lemma take_new_rows_prefix: "prefix (rw_enc_accum es) (rw_enc_accum (take_new_rows es rows f))"
  by (simp add: take_new_rows_def Let_def)

lemma run_chunk_prefix:
  "encoder_stream_run_chunk rt es n f = (ok, es1) \<Longrightarrow> prefix (rw_enc_accum es) (rw_enc_accum es1)"
  unfolding encoder_stream_run_chunk_def Let_def
  by (auto split: if_splits option.splits intro: prefix_order.trans [OF _ take_new_rows_prefix])

lemma drive_prefix:
  "encoder_stream_drive rt final es = (ok, es') \<Longrightarrow> prefix (rw_enc_accum es) (rw_enc_accum es')"
proof (induction rt final es rule: encoder_stream_drive.induct)
  case (1 rt final es)
  show ?case
  proof (cases "next_turn final es")
    case Stop_turn
    then show ?thesis using "1.prems" by (subst (asm) encoder_stream_drive.simps) simp
  next
    case (Run_turn n a)
    obtain ok1 es1 where r: "encoder_stream_run_chunk rt es n final = (ok1, es1)" by fastforce
    have p: "prefix (rw_enc_accum es) (rw_enc_accum es1)" by (rule run_chunk_prefix [OF r])
    have adv: "rw_enc_accum (advance_chunk es1) = rw_enc_accum es1" by (simp add: advance_chunk_def Let_def)
    show ?thesis
    proof (cases "ok1 \<and> a")
      case True
      then have "encoder_stream_drive rt final (advance_chunk es1) = (ok, es')"
        using "1.prems" Run_turn r by (subst (asm) encoder_stream_drive.simps) simp
      then have "prefix (rw_enc_accum (advance_chunk es1)) (rw_enc_accum es')"
        using "1.IH" [OF Run_turn r [symmetric]] True by simp
      then show ?thesis using p adv by simp
    next
      case False
      then have "es' = es1" using "1.prems" Run_turn r
        by (subst (asm) encoder_stream_drive.simps) (auto split: bool.splits)
      then show ?thesis using p by simp
    qed
  qed
qed

section \<open>Properties\<close>

text \<open>C8: The reference encoder of a stream, fed Mel frames in any pieces and finished, has accumulated exactly the rows
of the chunked batch encoder (which keeps the largest multiple of four): the prefix runs of the first chunk, the whole
chunks and the last one fit together without a gap or a repeated row.  It never keeps 3000 Mel frames or more between
pushes, finishing only appends rows, and its counters before and at finish add up to the rows emitted.\<close>

theorem reference_encoder_eq_batch:
  assumes "chunk_graph_total rt" "chunk_graph_causal rt" "rt_result_alloc rt"
    and "length (concat pushes) < 2 ^ 31" "8 dvd length (concat pushes)" "concat pushes \<noteq> []"
  shows "\<exists>es es'. feed_all (ref_push rt) ref_stream_fresh pushes = Some es \<and> length (rw_mel_window es) < 3000 \<and>
    ref_stream_finish rt es = (True, es') \<and> prefix (rw_enc_accum es) (rw_enc_accum es') \<and>
    run_encoder_chunked rt (concat pushes) = Some (take (length (rw_enc_accum es') div 4 * 4) (rw_enc_accum es')) \<and>
    rw_emitted es' = int (length (rw_enc_accum es')) \<and>
    rw_frames_before_finish es' + rw_frames_at_finish es' = rw_emitted es'"
proof -
  let ?sig = "concat pushes"
  have "ref_fits rt ?sig" using assms(1,2,4) by (simp add: ref_fits_def)
  then obtain es where es: "feed_all (ref_push rt) ref_stream_fresh pushes = Some es" "ref_good rt ?sig es"
    using ref.feed_all_good [OF ref.initial_good, of rt pushes] by auto
  then obtain c where c: "feeding rt ?sig c es" "length ?sig < 1500 * c + 3000" by (auto simp: ref_good_def)
  have st: "rw_mel_window es = drop (1500 * c) ?sig" "\<not> rw_finalized es"
    using c(1) by (auto simp: feeding_def at_chunk_def counted_def)
  obtain es1 c' where d: "encoder_stream_drive rt True es = (True, es1)" "at_chunk ?sig c' es1"
      "batch_from rt ?sig c (stitched rt ?sig c) = Some (rw_enc_accum es1)"
    using drive_final [OF assms(1,2) c(1) assms(5)] by blast
  have "c = 0 \<or> 1500 * c + 1500 \<le> length ?sig" using c(1) by (auto simp: feeding_def split: if_splits)
  then have all: "encoder_chunks rt ?sig (compute_total_enc_tokens (int (length ?sig))) 0 0 [] = Some (rw_enc_accum es1)"
    using batch_from_start [OF assms(1), of c ?sig] d(3) by (simp add: batch_from_def compute_total_enc_tokens_def)
  have "8 \<le> length ?sig" using assms(5,6) by (metis dvd_imp_le length_greater_0_conv)
  then have "0 < compute_total_enc_tokens (int (length ?sig))" by (intro total_tokens_pos) simp
  then have b: "run_encoder_chunked rt ?sig = Some (take (length (rw_enc_accum es1) div 4 * 4) (rw_enc_accum es1))"
    using all assms(3) by (simp add: run_encoder_chunked_def Let_def)
  show ?thesis
    using es(1) st c(2) d b drive_prefix [OF d(1)] by (auto simp: ref_stream_finish_def at_chunk_def counted_def)
qed

text \<open>The runtime of the witness: the chunk graph returns the position of each row.\<close>

definition position_runtime :: "(unit, unit, int, unit, unit) runtime" where
  "position_runtime =
    \<lparr> rt_ops = unit_ops, rt_float_bytes = \<lambda>_. [], rt_is_finite = \<lambda>_. True,
      rt_enc_gpu = \<lparr> gpu_exec = \<lambda>k i. None, gpu_copy = \<lambda>_. True \<rparr>,
      rt_enc_config = \<lparr> cfg_schedule = encoder_kv_schedule_from_env (\<lambda>_. None), cfg_finish_physical = 8, cfg_want_ring = True,
                        cfg_segmented = \<lambda>_. False \<rparr>,
      rt_dec_gpu = \<lparr> dg_adapter_ring = \<lambda>rows. ([], True), dg_adapter_linear = \<lambda>rows. Some [],
                     dg_prefill = \<lambda>dev plan ids pos audio. (dev, True),
                     dg_step_fixed = \<lambda>dev full slot used tok pos a. (dev, None),
                     dg_step_dynamic = \<lambda>dev plan tok pos a. (dev, None) \<rparr>,
      rt_enc_row_bytes = \<lambda>_. [], rt_aemb_row_bytes = \<lambda>_. [], rt_frontend_alloc = True,
      rt_encoder_alloc = True, rt_ring_alloc = True, rt_result_alloc = True, rt_reserve = \<lambda>_. True, rt_append_alloc = True,
      rt_chunk_graph = \<lambda>mel skip pos mask. Some pos, rt_strategy_env = Some ''reference'', rt_is_offline = False \<rparr>"

lemma position_graphs: "chunk_graph_total position_runtime" "chunk_graph_causal position_runtime"
proof -
  show "chunk_graph_total position_runtime" by (simp add: chunk_graph_total_def position_runtime_def)
  have "take (4 * k) [0..int (4 * m) - 1] = [0..int (4 * k) - 1]" if "k \<le> m" for k m
    using that by (intro nth_equalityI) (auto simp: nth_upto)
  then show "chunk_graph_causal position_runtime" by (simp add: chunk_graph_causal_def position_runtime_def)
qed

lemma reference_encoder_eq_batch_witness:
  "\<exists>es es'. feed_all (ref_push position_runtime) ref_stream_fresh [replicate 300 [()], [], replicate 2900 [()]] = Some es \<and>
    ref_stream_finish position_runtime es = (True, es') \<and>
    run_encoder_chunked position_runtime (replicate 3200 [()]) =
      Some (take (length (rw_enc_accum es') div 4 * 4) (rw_enc_accum es'))"
  using reference_encoder_eq_batch [of position_runtime "[replicate 300 [()], [], replicate 2900 [()]]"] position_graphs
  by (auto simp: replicate_add [symmetric] position_runtime_def)

text \<open>Where the last chunk starts at an odd multiple of 1500 frames, the skipped convolution outputs are two encoder
frames of the recording: a recording of 30 to 45 seconds gets two frames fewer from the chunked encoder than it has.\<close>

theorem chunked_encoder_drops_two:
  assumes "8 dvd n" "3008 \<le> n" "n < 4500"
  shows "compute_total_enc_tokens n = enc_frames_realizable n - 2"
proof -
  obtain m where m: "n = 8 * m" using assms(1) by blast
  have o: "mel_frames_to_enc_tokens (n - 1500) = 4 * m - 752"
  proof -
    have "1 \<le> n - 1500" "(n - 1500 + 1) div 2 = 4 * m - 750" using assms(2) m by auto
    moreover have "(4 * m - 750) mod 4 = 2" by presburger
    ultimately show ?thesis using enc_tokens [of "n - 1500"] by simp
  qed
  have "compute_total_enc_tokens n = total_enc_tokens_loop n 1500 False 1500"
    using assms unfolding compute_total_enc_tokens_def by (subst total_enc_tokens_loop.simps) (simp add: Let_def)
  also have "\<dots> = total_enc_tokens_loop n 3000 False (4 * m - 2)"
    using assms m o by (subst total_enc_tokens_loop.simps) (simp add: Let_def)
  also have "\<dots> = 4 * m - 2"
    using assms enc_tokens_short [of "n - 3000"] by (subst total_enc_tokens_loop.simps) (simp add: Let_def)
  finally show ?thesis using assms(2) m by (simp add: enc_frames_realizable_def)
qed

end
