(* ===== verification/StreamFrontend.thy ===== *)
theory StreamFrontend
  imports StreamDecoder
begin

text \<open>The audio frontend of a stream (\<open>src/src/voxtral-stream-frontend.cpp\<close>): lazy creation of the Mel
frontend and of the encoder, the left zero padding injected once, and the drain that hands stable Mel
frames to the encoder.  An outer \<^term>\<open>None\<close> is a read outside a buffer (undefined behaviour in the
source; see \<open>MelCorrect\<close> for when it cannot happen).  The stream is modelled for the default encoder
strategy, the KV encoder.\<close>

section \<open>Lazy bring-up\<close>

definition ensure_frontend ::
  "('f, 'k, 'o, 'a, 'c) runtime \<Rightarrow> ('f, 'k, 'o, 'a, 'c) stream \<Rightarrow> bool \<times> ('f, 'k, 'o, 'a, 'c) stream" where
  "ensure_frontend rt s =
    (if fr_mel_fe (st_front s) \<noteq> None then (True, s)
     else case st_ctx s of
       None \<Rightarrow> (True, s)
     | Some ctx \<Rightarrow>
         if sx_hann ctx = None \<or> sx_filters ctx = None then (True, s)
         else case mel_frontend_create (sx_hann ctx) (sx_filters ctx) (rt_frontend_alloc rt) of
           None \<Rightarrow> (False, set_error s St_out_of_memory ''failed to create incremental Mel frontend'')
         | Some fe \<Rightarrow>
             (True, s \<lparr> st_front := (st_front s)
                \<lparr> fr_mel_fe := Some (mel_frontend_set_retain_history fe (sp_retain_mel_history (st_params s))) \<rparr> \<rparr>))"

definition ensure_left_pad ::
  "('f, 'k, 'o, 'a, 'c) runtime \<Rightarrow> ('f, 'k, 'o, 'a, 'c) stream \<Rightarrow> ('f, 'k, 'o, 'a, 'c) stream option" where
  "ensure_left_pad rt s =
    (case fr_mel_fe (st_front s) of
       None \<Rightarrow> Some s
     | Some fe \<Rightarrow>
         if fr_left_pad_injected (st_front s) then Some s
         else map_option
           (\<lambda>(_, fe1). s \<lparr> st_front := (st_front s) \<lparr> fr_left_pad_injected := True, fr_mel_fe := Some fe1 \<rparr> \<rparr>)
           (mel_frontend_feed_silence (rt_ops rt) fe (nat stream_left_pad)))"

text \<open>\<open>voxtral_encoder_stream_uses_kv\<close>: the encoder streams of this model are those of the KV strategy.\<close>

definition encoder_stream_uses_kv :: "('m, 'k, 'o) enc_stream \<Rightarrow> bool" where
  "encoder_stream_uses_kv enc = True"

definition ensure_encoder ::
  "('f, 'k, 'o, 'a, 'c) runtime \<Rightarrow> ('f, 'k, 'o, 'a, 'c) stream \<Rightarrow> bool \<times> ('f, 'k, 'o, 'a, 'c) stream" where
  "ensure_encoder rt s =
    (if fr_enc (st_front s) \<noteq> None then (True, s)
     else case (fr_mel_fe (st_front s), st_ctx s) of
       (Some fe, Some ctx) \<Rightarrow>
         if \<not> rt_encoder_alloc rt
         then (False, set_error s St_out_of_memory ''failed to create incremental encoder'')
         else let enc = encoder_stream_create (sx_enc_device ctx) (sx_enc_ring ctx);
                  s1 = s \<lparr> st_front := (st_front s) \<lparr> fr_enc := Some enc \<rparr> \<rparr>;
                  s2 = (if de_incremental (st_dec s1) \<and> \<not> encoder_stream_uses_kv enc
                        then s1 \<lparr> st_dec := (st_dec s1) \<lparr> de_incremental := False \<rparr> \<rparr> else s1);
                  s3 = (if de_incremental (st_dec s2)
                        then s2 \<lparr> st_ctx := Some (ctx \<lparr> sx_dec := set_enc_out_ring_active (sx_dec ctx) True \<rparr>) \<rparr>
                        else s2)
              in (True, s3)
     | _ \<Rightarrow> (True, s))"

section \<open>Handing Mel frames to the encoder\<close>

text \<open>The context the encoder stream works in: the schedule of the process and the context's ring flag.\<close>

definition stream_encoder_config ::
  "('f, 'k, 'o, 'a, 'c) runtime \<Rightarrow> ('f, 'k, 'o, 'a, 'c) stream_context \<Rightarrow> encoder_config" where
  "stream_encoder_config rt ctx = (rt_enc_config rt) \<lparr> cfg_want_ring := cx_want_ring (sx_dec ctx) \<rparr>"

text \<open>The \<open>n\<close> frames behind a borrowed frame pointer: \<^term>\<open>Some None\<close> for a null pointer,
\<^term>\<open>None\<close> when the frames end before \<open>n\<close> were read.\<close>

definition borrow_frames :: "'f frontend \<Rightarrow> int \<Rightarrow> int \<Rightarrow> 'f list list option option" where
  "borrow_frames fe base n =
    (if mel_frontend_frame_data fe base = None then Some None
     else map_option Some (read_all (\<lambda>i. mel_frontend_frame_data fe (base + int i)) [0..<nat n]))"

definition after_push ::
  "'f frontend \<Rightarrow> int \<Rightarrow> ('f, 'k, 'o, 'a, 'c) stream \<Rightarrow> ('f, 'k, 'o, 'a, 'c) stream" where
  "after_push fe pushed s =
    s \<lparr> st_front := (st_front s) \<lparr> fr_enc_pushed_frames := pushed,
                                  fr_mel_fe := Some (mel_frontend_discard_before fe pushed) \<rparr> \<rparr>"

definition set_enc ::
  "('f list, 'k, 'o) enc_stream \<Rightarrow> ('f, 'k, 'o, 'a, 'c) stream \<Rightarrow> ('f, 'k, 'o, 'a, 'c) stream" where
  "set_enc enc s = s \<lparr> st_front := (st_front s) \<lparr> fr_enc := Some enc \<rparr> \<rparr>"

text \<open>One slice of at most eight frames.\<close>

definition drain_slice ::
  "('f, 'k, 'o, 'a, 'c) runtime \<Rightarrow> ('f, 'k, 'o, 'a, 'c) stream_context \<Rightarrow> ('f list, 'k, 'o) enc_stream
   \<Rightarrow> 'f frontend \<Rightarrow> int \<Rightarrow> int \<Rightarrow> ('f, 'k, 'o, 'a, 'c) stream
   \<Rightarrow> (bool \<times> ('f, 'k, 'o, 'a, 'c) stream) option" where
  "drain_slice rt ctx enc fe base n s =
    (case borrow_frames fe base n of
       None \<Rightarrow> None
     | Some None \<Rightarrow>
         Some (False, set_error s St_backend_error ''incremental Mel frame is outside retained window'')
     | Some (Some frames) \<Rightarrow>
         (case encoder_stream_push_mel (stream_encoder_config rt ctx) (rt_enc_gpu rt) (rt_ring_alloc rt) enc
                 (Some frames) base n of
            (False, enc1) \<Rightarrow>
              Some (False, set_error (set_enc enc1 s) St_backend_error ''incremental encoder rejected Mel frames'')
          | (True, enc1) \<Rightarrow>
              (case capture_new_encoder_output_sha rt (set_enc enc1 s) of
                 (False, s1) \<Rightarrow> Some (False, s1)
               | (True, s1) \<Rightarrow> Some (True, after_push fe (base + n) s1))))"

function drain_loop ::
  "('f, 'k, 'o, 'a, 'c) runtime \<Rightarrow> int \<Rightarrow> int \<Rightarrow> ('f, 'k, 'o, 'a, 'c) stream
   \<Rightarrow> (bool \<times> ('f, 'k, 'o, 'a, 'c) stream) option" where
  "drain_loop rt n_total base s =
    (if base < n_total
     then case (fr_enc (st_front s), fr_mel_fe (st_front s), st_ctx s) of
            (Some enc, Some fe, Some ctx) \<Rightarrow>
              (case drain_slice rt ctx enc fe base (min 8 (n_total - base)) s of
                 None \<Rightarrow> None
               | Some (False, s1) \<Rightarrow> Some (False, s1)
               | Some (True, s1) \<Rightarrow> drain_loop rt n_total (base + min 8 (n_total - base)) s1)
          | _ \<Rightarrow> None
     else Some (True, s))"
  by auto
termination by (relation "measure (\<lambda>(rt, n_total, base, s). nat (n_total - base))") auto

declare drain_loop.simps [simp del]

text \<open>The terminal flush keeps its frames in one push.\<close>

definition drain_final ::
  "('f, 'k, 'o, 'a, 'c) runtime \<Rightarrow> ('f, 'k, 'o, 'a, 'c) stream_context \<Rightarrow> ('f list, 'k, 'o) enc_stream
   \<Rightarrow> 'f frontend \<Rightarrow> int \<Rightarrow> int \<Rightarrow> ('f, 'k, 'o, 'a, 'c) stream
   \<Rightarrow> (bool \<times> ('f, 'k, 'o, 'a, 'c) stream) option" where
  "drain_final rt ctx enc fe base n_total s =
    (case borrow_frames fe base (n_total - base) of
       None \<Rightarrow> None
     | Some frames \<Rightarrow>
         let rejected = (\<lambda>s. set_error s St_backend_error ''incremental encoder rejected terminal Mel frames'')
         in if frames = None \<or> 2 ^ 31 - 1 < n_total - base then Some (False, rejected s)
            else (case encoder_stream_push_mel_final (stream_encoder_config rt ctx) (rt_enc_gpu rt)
                         (rt_ring_alloc rt) enc frames base (n_total - base) of
                    (False, enc1) \<Rightarrow> Some (False, rejected (set_enc enc1 s))
                  | (True, enc1) \<Rightarrow>
                      Some (capture_new_encoder_output_sha rt (after_push fe n_total (set_enc enc1 s)))))"

definition drain_mel_to_encoder ::
  "('f, 'k, 'o, 'a, 'c) runtime \<Rightarrow> bool \<Rightarrow> ('f, 'k, 'o, 'a, 'c) stream
   \<Rightarrow> (bool \<times> ('f, 'k, 'o, 'a, 'c) stream) option" where
  "drain_mel_to_encoder rt final s =
    (case (fr_enc (st_front s), fr_mel_fe (st_front s), st_ctx s) of
       (Some enc, Some fe, Some ctx) \<Rightarrow>
         let n_total = fe_next_frame fe;
             base = fr_enc_pushed_frames (st_front s)
         in if n_total \<le> base then Some (True, s)
            else if base < fe_mel_base_frame fe \<or> n_total < base
            then Some (False, set_error s St_backend_error
                   ''incremental Mel history base advanced past encoder cursor'')
            else if final then drain_final rt ctx enc fe base n_total s
            else drain_loop rt n_total base s
     | _ \<Rightarrow> Some (True, s))"

end
