(* ===== verification/StreamLifecycle.thy ===== *)
theory StreamLifecycle
  imports StreamFrontend Transcribe
begin

text \<open>The lifecycle entry points of \<open>src/src/voxtral-stream.cpp\<close>: parameter check, creation, warmup,
the two feeds with their common core, finish, reset, cancel, and the projection of the last status on
the feed contract.  An outer \<^term>\<open>None\<close> is undefined behaviour in the source.  The test seams
(context factory, finishing hook) are left out; the context a factory returns is an argument.\<close>

section \<open>Parameters and creation\<close>

definition stream_params_check :: "stream_params \<Rightarrow> status" where
  "stream_params_check p =
    (if sp_sample_rate p \<noteq> 16000 \<or> sp_channels p \<noteq> 1 then St_unsupported_audio_format
     else if sp_max_total_samples p = 0 then St_invalid_argument
     else St_ok)"

definition reference_decoder_mode :: "string option \<Rightarrow> bool" where
  "reference_decoder_mode env =
    (case env of
       None \<Rightarrow> False
     | Some m \<Rightarrow> m = ''reference'' \<or> m = ''finish-only'' \<or> m = ''finish_only'' \<or> m = ''oracle'')"

definition capture_requested :: "string option \<Rightarrow> bool" where
  "capture_requested env =
    (case env of None \<Rightarrow> False | Some v \<Rightarrow> v = ''1'' \<or> v = ''true'' \<or> v = ''yes'')"

record stream_env =
  en_decoder :: "string option"
  en_capture :: "string option"
  en_stream_alloc :: bool

definition allocate_stream_state ::
  "stream_env \<Rightarrow> vocab option \<Rightarrow> stream_params \<Rightarrow> ('f, 'k, 'o, 'a, 'c) stream option" where
  "allocate_stream_state env model params =
    (if stream_params_check params \<noteq> St_ok \<or> \<not> en_stream_alloc env then None
     else let s = new_stream model params
          in Some (s \<lparr> st_dec := (st_dec s) \<lparr> de_incremental := \<not> reference_decoder_mode (en_decoder env) \<rparr>,
                       st_diag := (st_diag s) \<lparr> dg_capture_output_sha := capture_requested (en_capture env) \<rparr> \<rparr>))"

text \<open>\<open>made\<close> is what the context factory returns for the model.\<close>

definition stream_create ::
  "stream_env \<Rightarrow> vocab option \<Rightarrow> ('f, 'k, 'o, 'a, 'c) stream_context option \<Rightarrow> stream_params
   \<Rightarrow> ('f, 'k, 'o, 'a, 'c) stream option" where
  "stream_create env model made params =
    (case allocate_stream_state env model params of
       None \<Rightarrow> None
     | Some s \<Rightarrow>
         if model = None then Some s
         else case made of
           None \<Rightarrow> Some (set_error (s \<lparr> st_life := (st_life s) \<lparr> lc_state := Failed \<rparr> \<rparr>) St_backend_error
                    ''failed to create per-stream execution context from model'')
         | Some ctx \<Rightarrow> Some (s \<lparr> st_ctx := Some ctx, st_owns_context := True \<rparr>))"

text \<open>Whether destroying the stream frees its context.\<close>

definition destroy_frees_context :: "('f, 'k, 'o, 'a, 'c) stream \<Rightarrow> bool" where
  "destroy_frees_context s \<longleftrightarrow> st_owns_context s \<and> st_ctx s \<noteq> None"

section \<open>The reentrancy guard\<close>

definition set_in_operation :: "bool \<Rightarrow> ('f, 'k, 'o, 'a, 'c) stream \<Rightarrow> ('f, 'k, 'o, 'a, 'c) stream" where
  "set_in_operation b s = s \<lparr> st_life := (st_life s) \<lparr> lc_in_operation := b \<rparr> \<rparr>"

definition set_state :: "stream_state \<Rightarrow> ('f, 'k, 'o, 'a, 'c) stream \<Rightarrow> ('f, 'k, 'o, 'a, 'c) stream" where
  "set_state st s = s \<lparr> st_life := (st_life s) \<lparr> lc_state := st \<rparr> \<rparr>"

definition guarded ::
  "(('f, 'k, 'o, 'a, 'c) stream \<Rightarrow> (status \<times> ('f, 'k, 'o, 'a, 'c) stream) option)
   \<Rightarrow> ('f, 'k, 'o, 'a, 'c) stream \<Rightarrow> (status \<times> ('f, 'k, 'o, 'a, 'c) stream) option" where
  "guarded body s =
    (if lc_in_operation (st_life s) then Some (St_busy, s)
     else map_option (\<lambda>(st, s1). (st, set_in_operation False s1)) (body (set_in_operation True s)))"

section \<open>Warmup\<close>

text \<open>\<open>voxtral_encoder_stream_warmup\<close>: 312 frames of zeros through the encoder, 39 groups through the
adapter, one prefill and one step, then every counter is reset.  \<open>want\<close> is the context's ring flag.\<close>

definition warmup_enc_state ::
  "'m \<Rightarrow> ('m, 'k, 'o) enc_stream \<Rightarrow> ('m, 'k, 'o) enc_stream" where
  "warmup_enc_state silent es =
    es \<lparr> es_kv := (es_kv es) \<lparr> ek_mel_tail := replicate 312 silent, ek_tail_base := 0, ek_stable_mel := 312 \<rparr>,
         es_stable_mel := 312, es_mel_frames_received := 312 \<rparr>"

definition warmup_decoder ::
  "('o, 'a, 'c) decoder_gpu \<Rightarrow> ('a, 'c) dec_context \<Rightarrow> bool \<times> ('a, 'c) dec_context" where
  "warmup_decoder gpu ctx =
    (let prompt = 1 # replicate 38 32;
         (ok, ctx1) = decoder_prefill_incremental gpu (decoder_begin_incremental ctx) (butlast prompt)
     in if \<not> ok then (False, decoder_reset_incremental ctx1)
        else let (tok, ctx2) = decoder_step_incremental gpu ctx1 (last prompt) 38
             in (tok \<noteq> None, decoder_reset_incremental ctx2))"

definition encoder_stream_warmup ::
  "('f, 'k, 'o, 'a, 'c) runtime \<Rightarrow> ('f, 'k, 'o, 'a, 'c) stream_context \<Rightarrow> ('f list, 'k, 'o) enc_stream
   \<Rightarrow> bool \<times> ('f list, 'k, 'o) enc_stream \<times> ('a, 'c) dec_context" where
  "encoder_stream_warmup rt ctx es =
    (if \<not> cx_want_ring (sx_dec ctx) then (False, es, sx_dec ctx)
     else let es1 = encoder_stream_reset es;
              es2 = es1 \<lparr> es_kv := (es_kv es1) \<lparr> ek_reusable := True \<rparr> \<rparr>
          in if \<not> rt_ring_alloc rt then (False, es2, sx_dec ctx)
             else let silent = replicate 128 (f_lit (rt_ops rt) 0 0);
                      es3 = warmup_enc_state silent es2;
                      (driven, kv) = encoder_kv_drive (stream_encoder_config rt ctx) (rt_enc_gpu rt) False (es_kv es3);
                      es4 = es3 \<lparr> es_kv := kv \<rparr>;
                      ok1 = (driven \<and> ek_emitted kv = 156);
                      (committed, dctx1) = (if ok1 then adapter_commit (rt_dec_gpu rt) (sx_dec ctx) (ek_out_ring kv) 0 39
                                            else (0, sx_dec ctx));
                      ok2 = (ok1 \<and> committed = 39);
                      (ok3, dctx2) = (if ok2 then warmup_decoder (rt_dec_gpu rt) dctx1 else (False, dctx1))
                  in (ok3, encoder_stream_reset es4, dctx2))"

definition warmup_body ::
  "('f, 'k, 'o, 'a, 'c) runtime \<Rightarrow> ('f, 'k, 'o, 'a, 'c) stream \<Rightarrow> status \<times> ('f, 'k, 'o, 'a, 'c) stream" where
  "warmup_body rt s =
    (if lc_warmup_complete (st_life s) then (St_ok, s)
     else if lc_state (st_life s) \<noteq> Created \<or> lc_total_samples_received (st_life s) \<noteq> 0 \<or> st_ctx s = None \<or>
             \<not> de_incremental (st_dec s)
     then (St_invalid_state, set_error s St_invalid_state ''warmup requires a fresh production incremental stream'')
     else let (ok1, s1) = ensure_frontend rt s;
              (ok2, s2) = (if ok1 then ensure_encoder rt s1 else (False, s1))
          in case (ok1 \<and> ok2, fr_enc (st_front s2), st_ctx s2) of
               (True, Some enc, Some ctx) \<Rightarrow>
                 let (ok, enc1, dctx) = encoder_stream_warmup rt ctx enc;
                     s3 = set_enc enc1 (s2 \<lparr> st_ctx := Some (ctx \<lparr> sx_dec := dctx \<rparr>) \<rparr>)
                 in if \<not> ok then (St_backend_error, set_error s3 St_backend_error ''production graph warmup failed'')
                    else (St_ok, clear_error (s3 \<lparr> st_front := (st_front s3) \<lparr> fr_enc_pushed_frames := 0 \<rparr>,
                                                   st_life := (st_life s3) \<lparr> lc_warmup_complete := True \<rparr> \<rparr>))
             | _ \<Rightarrow>
                 let s3 = (if lc_last_status (st_life s2) = St_ok
                           then set_error s2 St_backend_error ''failed to initialize production warmup state''
                           else s2)
                 in (lc_last_status (st_life s3), s3))"

definition stream_warmup ::
  "('f, 'k, 'o, 'a, 'c) runtime \<Rightarrow> ('f, 'k, 'o, 'a, 'c) stream \<Rightarrow> (status \<times> ('f, 'k, 'o, 'a, 'c) stream) option" where
  "stream_warmup rt s = guarded (\<lambda>s. Some (warmup_body rt s)) s"

section \<open>Feeding\<close>

definition feed_allowed :: "stream_state \<Rightarrow> bool" where
  "feed_allowed st \<longleftrightarrow> st = Created \<or> st = Running"

text \<open>The slices of one accepted feed: the status of an early return, or whether the event queue filled
and stopped the decoder.\<close>

function feed_slices ::
  "('f, 'k, 'o, 'a, 'c) runtime \<Rightarrow> 'f list \<Rightarrow> bool \<Rightarrow> ('f, 'k, 'o, 'a, 'c) stream
   \<Rightarrow> ((status + bool) \<times> ('f, 'k, 'o, 'a, 'c) stream) option" where
  "feed_slices rt samples backpressured s =
    (if samples = [] then Some (Inr backpressured, s)
     else case fr_mel_fe (st_front s) of
       None \<Rightarrow> None
     | Some fe \<Rightarrow>
         (case mel_frontend_feed (rt_ops rt) fe (Some (take 16000 samples)) (min 16000 (length samples)) of
            None \<Rightarrow> None
          | Some (mel_ok, fe1) \<Rightarrow>
              let s1 = s \<lparr> st_front := (st_front s) \<lparr> fr_mel_fe := Some fe1 \<rparr> \<rparr>
              in if \<not> mel_ok
                 then Some (Inl St_backend_error,
                        set_error s1 St_backend_error ''incremental Mel frontend rejected feed'')
                 else (case drain_mel_to_encoder rt False s1 of
                         None \<Rightarrow> None
                       | Some (False, s2) \<Rightarrow> Some (Inl St_backend_error, s2)
                       | Some (True, s2) \<Rightarrow>
                           if de_incremental (st_dec s2) \<and> \<not> backpressured
                           then let (ps, s3) = pump_incremental rt s2
                                in if ps = St_limit_exceeded then feed_slices rt (drop 16000 samples) True s3
                                   else if ps \<noteq> St_ok then Some (Inl ps, s3)
                                   else feed_slices rt (drop 16000 samples) backpressured s3
                           else feed_slices rt (drop 16000 samples) backpressured s2)))"
  by auto
termination by (relation "measure (\<lambda>(rt, samples, b, s). length samples)") auto

declare feed_slices.simps [simp del]

text \<open>The guards on the size of a feed: an error, or the new total.\<close>

definition feed_admission :: "stream_params \<Rightarrow> int \<Rightarrow> int \<Rightarrow> (status \<times> string) + int" where
  "feed_admission params received count =
    (if max_feed_samples < count then Inl (St_invalid_argument, ''feed exceeds per-call sample limit'')
     else case checked_sample_count_add received count of
       None \<Rightarrow> Inl (St_invalid_argument, ''feed would overflow cumulative sample counter'')
     | Some admitted \<Rightarrow>
         if 2 ^ 63 - 1 < admitted
         then Inl (St_invalid_argument, ''stream sample position exceeds internal counter range'')
         else if sp_max_total_samples params < admitted
         then Inl (St_limit_exceeded, ''stream duration exceeds max_total_samples admission limit'')
         else Inr admitted)"

definition aggressive_mode :: "event_part \<Rightarrow> int \<Rightarrow> bool" where
  "aggressive_mode e count =
    (let queued = int (length (ev_queue e));
         estimated = (count + 1280 - 1) div 1280 + 17 + 2
     in ev_max_events e < queued + 2 * estimated \<and> queued + estimated + 1 \<le> ev_max_events e)"

definition set_aggressive :: "bool \<Rightarrow> ('f, 'k, 'o, 'a, 'c) stream \<Rightarrow> ('f, 'k, 'o, 'a, 'c) stream" where
  "set_aggressive b s = s \<lparr> st_ev := (st_ev s) \<lparr> ev_aggressive_partial_coalescing := b \<rparr> \<rparr>"

text \<open>What an accepted feed does once its samples are converted, up to its counters.\<close>

definition consume_samples ::
  "('f, 'k, 'o, 'a, 'c) runtime \<Rightarrow> 'f list \<Rightarrow> ('f, 'k, 'o, 'a, 'c) stream
   \<Rightarrow> ((status + bool) \<times> ('f, 'k, 'o, 'a, 'c) stream) option" where
  "consume_samples rt samples s =
    (if fr_mel_fe (st_front s) \<noteq> None
     then case ensure_left_pad rt s of
            None \<Rightarrow> None
          | Some s1 \<Rightarrow>
              (case ensure_encoder rt s1 of
                 (False, s2) \<Rightarrow> Some (Inl (lc_last_status (st_life s2)), s2)
               | (True, s2) \<Rightarrow> feed_slices rt samples False s2)
     else if rt_append_alloc rt
     then Some (Inr False, s \<lparr> st_front := (st_front s) \<lparr> fr_pcm := fr_pcm (st_front s) @ samples \<rparr> \<rparr>)
     else Some (Inl St_out_of_memory, set_error s St_out_of_memory ''pcm append failed: std::bad_alloc''))"

definition complete_feed ::
  "int \<Rightarrow> bool \<Rightarrow> ('f, 'k, 'o, 'a, 'c) stream \<Rightarrow> status \<times> ('f, 'k, 'o, 'a, 'c) stream" where
  "complete_feed admitted backpressured s =
    (let s1 = s \<lparr> st_life := (st_life s)
            \<lparr> lc_total_samples_received := admitted, lc_feed_calls := lc_feed_calls (st_life s) + 1,
              lc_state := (if lc_state (st_life s) = Created then Running else lc_state (st_life s)) \<rparr> \<rparr>
     in if backpressured then (St_limit_exceeded, s1) else (St_ok, clear_error s1))"

text \<open>A conversion gives the canonical samples, or records its error.\<close>

type_synonym ('x, 'f, 'k, 'o, 'a, 'c) converter =
  "'x list \<Rightarrow> ('f, 'k, 'o, 'a, 'c) stream \<Rightarrow> 'f list option \<times> ('f, 'k, 'o, 'a, 'c) stream"

definition feed_accepted ::
  "('f, 'k, 'o, 'a, 'c) runtime \<Rightarrow> ('x, 'f, 'k, 'o, 'a, 'c) converter \<Rightarrow> 'x list \<Rightarrow> int
   \<Rightarrow> ('f, 'k, 'o, 'a, 'c) stream \<Rightarrow> (status \<times> ('f, 'k, 'o, 'a, 'c) stream) option" where
  "feed_accepted rt convert input admitted s =
    (case ensure_frontend rt s of
       (False, s1) \<Rightarrow> Some (St_out_of_memory, s1)
     | (True, s1) \<Rightarrow>
         if \<not> rt_reserve rt (length input)
         then Some (St_out_of_memory, set_error s1 St_out_of_memory ''pcm reserve failed: std::bad_alloc'')
         else case convert input s1 of
           (None, s2) \<Rightarrow> Some (lc_last_status (st_life s2), s2)
         | (Some samples, s2) \<Rightarrow>
             let s3 = s2 \<lparr> st_diag := (st_diag s2)
                   \<lparr> dg_pcm_sha := sha_update (dg_pcm_sha (st_diag s2)) (concat (List.map (rt_float_bytes rt) samples)) \<rparr> \<rparr>
             in map_option (\<lambda>(r, s4). case r of Inl st \<Rightarrow> (st, s4) | Inr bp \<Rightarrow> complete_feed admitted bp s4)
                  (consume_samples rt samples s3))"

text \<open>\<open>input\<close> is the caller's buffer (\<^term>\<open>None\<close> for a null pointer) of \<open>count\<close> samples.\<close>

definition feed_input ::
  "('f, 'k, 'o, 'a, 'c) runtime \<Rightarrow> ('x, 'f, 'k, 'o, 'a, 'c) converter \<Rightarrow> 'x list option \<Rightarrow> nat
   \<Rightarrow> ('f, 'k, 'o, 'a, 'c) stream \<Rightarrow> (status \<times> ('f, 'k, 'o, 'a, 'c) stream) option" where
  "feed_input rt convert input count s =
    (if input = None \<and> count \<noteq> 0
     then Some (St_invalid_argument, set_error s St_invalid_argument ''null samples with non-zero count'')
     else if count = 0
     then Some (St_ok, (clear_error s) \<lparr> st_life := (st_life (clear_error s))
                          \<lparr> lc_feed_calls := lc_feed_calls (st_life s) + 1 \<rparr> \<rparr>)
     else case feed_admission (st_params s) (lc_total_samples_received (st_life s)) (int count) of
       Inl (st, msg) \<Rightarrow> Some (st, set_error s st msg)
     | Inr admitted \<Rightarrow>
         if length (the input) < count then None
         else map_option (\<lambda>(st, s1). (st, set_aggressive (ev_aggressive_partial_coalescing (st_ev s)) s1))
                (feed_accepted rt convert (take count (the input)) admitted
                   (set_aggressive (aggressive_mode (st_ev s) (int count)) s)))"

definition feed_body ::
  "('f, 'k, 'o, 'a, 'c) runtime \<Rightarrow> ('x, 'f, 'k, 'o, 'a, 'c) converter \<Rightarrow> 'x list option \<Rightarrow> nat
   \<Rightarrow> ('f, 'k, 'o, 'a, 'c) stream \<Rightarrow> (status \<times> ('f, 'k, 'o, 'a, 'c) stream) option" where
  "feed_body rt convert input count s =
    (if \<not> feed_allowed (lc_state (st_life s))
     then Some (St_invalid_state, set_error s St_invalid_state
            (''feed not allowed in state '' @ stream_state_name (lc_state (st_life s))))
     else if de_incremental (st_dec s) \<and> ev_decoder_backpressured (st_ev s)
     then let (rp, s1) = pump_incremental rt s
          in if rp = St_limit_exceeded
             then Some (St_limit_exceeded,
                    s1 \<lparr> st_life := (st_life s1) \<lparr> lc_feed_calls := lc_feed_calls (st_life s1) + 1 \<rparr> \<rparr>)
             else if rp \<noteq> St_ok then Some (rp, s1)
             else feed_input rt convert input count s1
     else feed_input rt convert input count s)"

definition feed_common ::
  "('f, 'k, 'o, 'a, 'c) runtime \<Rightarrow> ('x, 'f, 'k, 'o, 'a, 'c) converter \<Rightarrow> 'x list option \<Rightarrow> nat
   \<Rightarrow> ('f, 'k, 'o, 'a, 'c) stream \<Rightarrow> (status \<times> ('f, 'k, 'o, 'a, 'c) stream) option" where
  "feed_common rt convert input count s = guarded (feed_body rt convert input count) s"

definition convert_pcm16 ::
  "('f, 'k, 'o, 'a, 'c) runtime \<Rightarrow> (int, 'f, 'k, 'o, 'a, 'c) converter" where
  "convert_pcm16 rt samples s =
    (Some (List.map (\<lambda>x. f_div (rt_ops rt) (f_of_int (rt_ops rt) x) (f_lit (rt_ops rt) 32768 0)) samples), s)"

definition convert_f32 ::
  "('f, 'k, 'o, 'a, 'c) runtime \<Rightarrow> ('f, 'f, 'k, 'o, 'a, 'c) converter" where
  "convert_f32 rt samples s =
    (if list_all (rt_is_finite rt) samples then (Some samples, s)
     else (None, set_error s St_invalid_argument ''float32 feed contains a non-finite sample''))"

definition stream_feed_pcm16 ::
  "('f, 'k, 'o, 'a, 'c) runtime \<Rightarrow> int list option \<Rightarrow> nat \<Rightarrow> ('f, 'k, 'o, 'a, 'c) stream
   \<Rightarrow> (status \<times> ('f, 'k, 'o, 'a, 'c) stream) option" where
  "stream_feed_pcm16 rt = feed_common rt (convert_pcm16 rt)"

definition stream_feed_f32 ::
  "('f, 'k, 'o, 'a, 'c) runtime \<Rightarrow> 'f list option \<Rightarrow> nat \<Rightarrow> ('f, 'k, 'o, 'a, 'c) stream
   \<Rightarrow> (status \<times> ('f, 'k, 'o, 'a, 'c) stream) option" where
  "stream_feed_f32 rt = feed_common rt (convert_f32 rt)"

section \<open>Finishing\<close>

definition fail_with ::
  "status \<Rightarrow> string \<Rightarrow> ('f, 'k, 'o, 'a, 'c) stream \<Rightarrow> status \<times> ('f, 'k, 'o, 'a, 'c) stream" where
  "fail_with st msg s = (st, set_state Failed (emit_error (set_error s st msg) st msg))"

definition finish_frontend ::
  "('f, 'k, 'o, 'a, 'c) runtime \<Rightarrow> ('f, 'k, 'o, 'a, 'c) stream \<Rightarrow> ('f, 'k, 'o, 'a, 'c) stream option" where
  "finish_frontend rt s =
    (case ensure_left_pad rt s of
       None \<Rightarrow> None
     | Some s1 \<Rightarrow>
         (case fr_mel_fe (st_front s1) of
            None \<Rightarrow> Some s1
          | Some fe \<Rightarrow>
              let right_pad = align_padding (lc_total_samples_received (st_life s1)) + 17 * 1280
              in case mel_frontend_feed_silence (rt_ops rt) fe (nat right_pad) of
                   None \<Rightarrow> None
                 | Some (_, fe1) \<Rightarrow>
                     (case mel_frontend_finish (rt_ops rt) fe1 of
                        None \<Rightarrow> None
                      | Some fe2 \<Rightarrow>
                          map_option (\<lambda>(even, frames). s1 \<lparr> st_front := (st_front s1)
                              \<lparr> fr_mel_fe := Some fe2, fr_mel_even := even, fr_mel_even_frames := frames,
                                fr_full_pcm_buffered_at_finish := False \<rparr> \<rparr>)
                            (mel_frontend_assemble_even fe2))))"

text \<open>An exception thrown on the way, or the outcome of the inference.\<close>

datatype finish_outcome = Threw string | Inferred bool transcription

definition empty_result :: transcription where
  "empty_result = \<lparr> tr_text = [], tr_tokens = [] \<rparr>"

definition finish_encoder ::
  "('f, 'k, 'o, 'a, 'c) runtime \<Rightarrow> ('f, 'k, 'o, 'a, 'c) stream
   \<Rightarrow> (string option \<times> ('f, 'k, 'o, 'a, 'c) stream) option" where
  "finish_encoder rt s =
    (case drain_mel_to_encoder rt True s of
       None \<Rightarrow> None
     | Some (False, s1) \<Rightarrow> Some (Some (lc_last_error (st_life s1)), s1)
     | Some (True, s1) \<Rightarrow>
         (case (fr_enc (st_front s1), st_ctx s1) of
            (Some enc, Some ctx) \<Rightarrow>
              let (ok, enc1) = encoder_stream_finish (stream_encoder_config rt ctx) (rt_enc_gpu rt) enc
              in Some (if ok then None else Some ''incremental encoder finish failed'', set_enc enc1 s1)
          | _ \<Rightarrow> None))"

definition of_transcription :: "transcription option \<Rightarrow> finish_outcome" where
  "of_transcription r = (case r of None \<Rightarrow> Inferred False empty_result | Some t \<Rightarrow> Inferred True t)"

definition finish_decoder ::
  "('f, 'k, 'o, 'a, 'c) runtime \<Rightarrow> ('f, 'k, 'o, 'a, 'c) stream
   \<Rightarrow> (finish_outcome \<times> ('f, 'k, 'o, 'a, 'c) stream) option" where
  "finish_decoder rt s =
    (if de_incremental (st_dec s)
     then let (ps, s1) = pump_incremental rt
                (s \<lparr> st_dec := (st_dec s) \<lparr> de_tokens_before_finish := de_tokens_emitted (st_dec s) \<rparr> \<rparr>)
          in Some (if ps = St_ok then Inferred True empty_result else Threw (lc_last_error (st_life s1)), s1)
     else case (fr_enc (st_front s), st_ctx s, st_model s) of
       (Some enc, Some ctx, Some model) \<Rightarrow>
         let accum = ek_enc_accum (es_kv enc);
             (result, model1, dctx) = transcribe_encoder_output (rt_dec_gpu rt) (rt_is_offline rt) (rt_result_alloc rt)
               (sp_max_tokens (st_params s)) model (sx_dec ctx)
               (if accum = [] then None else Some accum) (encoder_output_frames enc)
         in Some (of_transcription result, s \<lparr> st_model := Some model1, st_ctx := Some (ctx \<lparr> sx_dec := dctx \<rparr>) \<rparr>)
     | _ \<Rightarrow> None)"

text \<open>The defensive path without an encoder stream.\<close>

definition finish_from_mel ::
  "('f, 'k, 'o, 'a, 'c) runtime \<Rightarrow> ('f, 'k, 'o, 'a, 'c) stream
   \<Rightarrow> (finish_outcome \<times> ('f, 'k, 'o, 'a, 'c) stream) option" where
  "finish_from_mel rt s =
    (case (st_ctx s, st_model s) of
       (Some ctx, Some model) \<Rightarrow>
         map_option (\<lambda>(result, model1, ctx1). (of_transcription result, s \<lparr> st_model := Some model1, st_ctx := Some ctx1 \<rparr>))
           (transcribe_mel rt model ctx (Some (fr_mel_even (st_front s))) (fr_mel_even_frames (st_front s))
              (sp_max_tokens (st_params s)))
     | _ \<Rightarrow> None)"

definition note_inference_run :: "('f, 'k, 'o, 'a, 'c) stream \<Rightarrow> ('f, 'k, 'o, 'a, 'c) stream" where
  "note_inference_run s = s \<lparr> st_life := (st_life s) \<lparr> lc_inference_runs := lc_inference_runs (st_life s) + 1 \<rparr> \<rparr>"

definition finish_inference ::
  "('f, 'k, 'o, 'a, 'c) runtime \<Rightarrow> ('f, 'k, 'o, 'a, 'c) stream
   \<Rightarrow> (finish_outcome \<times> ('f, 'k, 'o, 'a, 'c) stream) option" where
  "finish_inference rt s =
    (case finish_frontend rt s of
       None \<Rightarrow> None
     | Some s1 \<Rightarrow>
         (case ensure_encoder rt s1 of
            (False, s2) \<Rightarrow> Some (Threw (lc_last_error (st_life s2)), s2)
          | (True, s2) \<Rightarrow>
              if fr_enc (st_front s2) = None then finish_from_mel rt s2
              else (case finish_encoder rt s2 of
                      None \<Rightarrow> None
                    | Some (Some msg, s3) \<Rightarrow> Some (Threw msg, s3)
                    | Some (None, s3) \<Rightarrow> finish_decoder rt s3)))"

definition conclude_finish ::
  "finish_outcome \<Rightarrow> ('f, 'k, 'o, 'a, 'c) stream \<Rightarrow> status \<times> ('f, 'k, 'o, 'a, 'c) stream" where
  "conclude_finish outcome s =
    (case outcome of
       Threw msg \<Rightarrow> fail_with St_backend_error (''inference threw: '' @ msg) s
     | Inferred ok result \<Rightarrow>
         let s0 = note_inference_run s
         in if \<not> ok then fail_with St_backend_error ''incremental Mel inference reported failure'' s0
            else let d = st_dec s0;
                     s1 = s0 \<lparr> st_dec := (if de_incremental d then d \<lparr> de_transcript := de_partial_text d \<rparr>
                                          else d \<lparr> de_transcript := tr_text result, de_tokens := tr_tokens result \<rparr>),
                               st_life := (st_life s0)
                                 \<lparr> lc_total_samples_consumed := lc_total_samples_received (st_life s0) \<rparr> \<rparr>
                 in (St_ok, clear_error (set_state Completed (emit_final_and_completed s1))))"

definition finish_ready ::
  "('f, 'k, 'o, 'a, 'c) runtime \<Rightarrow> ('f, 'k, 'o, 'a, 'c) stream \<Rightarrow> (status \<times> ('f, 'k, 'o, 'a, 'c) stream) option" where
  "finish_ready rt s =
    (if lc_total_samples_received (st_life s) = 0
     then let s1 = s \<lparr> st_dec := (st_dec s) \<lparr> de_transcript := [], de_tokens := [] \<rparr>,
                       st_life := (st_life s) \<lparr> lc_total_samples_consumed := 0 \<rparr> \<rparr>
          in Some (St_ok, clear_error (set_state Completed (emit_final_and_completed s1)))
     else if st_ctx s = None \<or> fr_mel_fe (st_front s) = None
     then Some (fail_with St_backend_error ''no execution context / Mel frontend: cannot transcribe audio'' s)
     else map_option (\<lambda>(outcome, s1). conclude_finish outcome s1) (finish_inference rt s))"

definition finish_active ::
  "('f, 'k, 'o, 'a, 'c) runtime \<Rightarrow> ('f, 'k, 'o, 'a, 'c) stream \<Rightarrow> (status \<times> ('f, 'k, 'o, 'a, 'c) stream) option" where
  "finish_active rt s =
    (let (pending, s1) = (if de_incremental (st_dec s) \<and> ev_decoder_backpressured (st_ev s)
                          then pump_incremental rt s else (St_ok, s));
         s2 = s1 \<lparr> st_ev := (st_ev s1) \<lparr> ev_finalizing_flush := True \<rparr> \<rparr>
     in if pending = St_limit_exceeded then Some (pending, s1)
        else if pending \<noteq> St_ok
        then Some (pending, set_state Failed (emit_error s2 pending (lc_last_error (st_life s2))))
        else finish_ready rt (set_state Finishing s2))"

definition finish_body ::
  "('f, 'k, 'o, 'a, 'c) runtime \<Rightarrow> ('f, 'k, 'o, 'a, 'c) stream \<Rightarrow> (status \<times> ('f, 'k, 'o, 'a, 'c) stream) option" where
  "finish_body rt s =
    (case lc_state (st_life s) of
       Completed \<Rightarrow> Some (St_ok, s)
     | Cancelled \<Rightarrow> Some (St_ok, s)
     | Failed \<Rightarrow> Some (St_invalid_state, set_error s St_invalid_state ''finish not allowed after failure'')
     | Finishing \<Rightarrow> Some (St_busy, s)
     | Created \<Rightarrow> finish_active rt s
     | Running \<Rightarrow> finish_active rt s)"

definition stream_finish ::
  "('f, 'k, 'o, 'a, 'c) runtime \<Rightarrow> ('f, 'k, 'o, 'a, 'c) stream \<Rightarrow> (status \<times> ('f, 'k, 'o, 'a, 'c) stream) option" where
  "stream_finish rt s = guarded (finish_body rt) s"

section \<open>Reset and cancel\<close>

definition reset_lifecycle :: "lifecycle_part \<Rightarrow> lifecycle_part" where
  "reset_lifecycle l = l
    \<lparr> lc_total_samples_received := 0, lc_total_samples_consumed := 0, lc_feed_calls := 0, lc_inference_runs := 0,
      lc_cancel_requested := False, lc_cancelled_emitted := False, lc_state := Created \<rparr>"

definition reset_frontend :: "('f, 'k, 'o) frontend_part \<Rightarrow> ('f, 'k, 'o) frontend_part" where
  "reset_frontend f = f
    \<lparr> fr_pcm := [], fr_mel_fe := map_option mel_frontend_reset (fr_mel_fe f),
      fr_enc := map_option encoder_stream_reset (fr_enc f), fr_enc_pushed_frames := 0,
      fr_left_pad_injected := False, fr_full_pcm_buffered_at_finish := False, fr_mel_even := [],
      fr_mel_even_frames := 0 \<rparr>"

definition reset_decoder :: "decoder_part \<Rightarrow> decoder_part" where
  "reset_decoder d = d
    \<lparr> de_adapter_groups_committed := 0, de_adapter_commit_calls := 0, de_prefill_done := False, de_prev_token := 0,
      de_position := 0, de_steps := 0, de_tokens_emitted := 0, de_tokens_before_finish := 0, de_eos := False,
      de_token_sequence := 0, de_partial_revision := 0, de_partial_text := [], de_partial_stable_bytes := 0,
      de_pending := no_pending, de_tokens := [], de_transcript := [] \<rparr>"

definition reset_events :: "event_part \<Rightarrow> event_part" where
  "reset_events e = e
    \<lparr> ev_decoder_backpressured := False, ev_finalizing_flush := False, ev_aggressive_partial_coalescing := False,
      ev_queue := [], ev_overflowed := False, ev_emitted := 0, ev_token_events := 0, ev_partial_events := 0,
      ev_partial_events_coalesced := 0, ev_queue_high_watermark := 0, ev_queue_overflow_attempts := 0,
      ev_dropped := 0, ev_public_poll_sequence := 0 \<rparr>"

definition reset_diagnostics :: "diagnostics_part \<Rightarrow> diagnostics_part" where
  "reset_diagnostics g = g
    \<lparr> dg_pcm_sha := sha_reset, dg_encoder_output_sha := sha_reset, dg_adapter_output_sha := sha_reset,
      dg_encoder_sha_rows := 0, dg_adapter_sha_rows := 0, dg_output_sha_d2h_bytes := 0 \<rparr>"

definition reset_body :: "('f, 'k, 'o, 'a, 'c) stream \<Rightarrow> ('f, 'k, 'o, 'a, 'c) stream" where
  "reset_body s = clear_error (s
    \<lparr> st_ctx := map_option (\<lambda>ctx. ctx \<lparr> sx_dec := decoder_reset_incremental (sx_dec ctx) \<rparr>) (st_ctx s),
      st_life := reset_lifecycle (st_life s), st_front := reset_frontend (st_front s),
      st_dec := reset_decoder (st_dec s), st_ev := reset_events (st_ev s),
      st_diag := reset_diagnostics (st_diag s) \<rparr>)"

definition stream_reset ::
  "('f, 'k, 'o, 'a, 'c) stream \<Rightarrow> (status \<times> ('f, 'k, 'o, 'a, 'c) stream) option" where
  "stream_reset s = guarded (\<lambda>s. Some (St_ok, reset_body s)) s"

text \<open>A borrowed context: \<open>model\<close> is the context's model.\<close>

definition stream_create_from_context ::
  "stream_env \<Rightarrow> vocab option \<Rightarrow> ('f, 'k, 'o, 'a, 'c) stream_context option \<Rightarrow> stream_params
   \<Rightarrow> ('f, 'k, 'o, 'a, 'c) stream option" where
  "stream_create_from_context env model ctx params =
    (if ctx = None \<or> model = None then None
     else case allocate_stream_state env model params of
       None \<Rightarrow> None
     | Some s \<Rightarrow>
         (case stream_reset (s \<lparr> st_ctx := ctx, st_owns_context := False \<rparr>) of
            Some (St_ok, s1) \<Rightarrow> Some s1
          | _ \<Rightarrow> None))"

definition emit_cancelled :: "('f, 'k, 'o, 'a, 'c) stream \<Rightarrow> ('f, 'k, 'o, 'a, 'c) stream" where
  "emit_cancelled s =
    (if lc_cancelled_emitted (st_life s) then s
     else let s1 = snd (push_event (s \<lparr> st_ev := (st_ev s) \<lparr> ev_finalizing_flush := True \<rparr> \<rparr>)
                    ((blank_event Ev_cancelled)
                       \<lparr> ev_t_audio_ms := samples_to_ms (lc_total_samples_received (st_life s))
                                           (sp_sample_rate (st_params s)) \<rparr>))
          in s1 \<lparr> st_life := (st_life s1) \<lparr> lc_cancelled_emitted := True \<rparr> \<rparr>)"

definition cancel_body ::
  "('f, 'k, 'o, 'a, 'c) stream \<Rightarrow> status \<times> ('f, 'k, 'o, 'a, 'c) stream" where
  "cancel_body s =
    (case lc_state (st_life s) of
       Completed \<Rightarrow> (St_invalid_state, set_error s St_invalid_state ''cannot cancel a completed stream'')
     | Cancelled \<Rightarrow> (St_ok, s)
     | Failed \<Rightarrow> (St_ok, s)
     | Finishing \<Rightarrow> (St_invalid_state, set_error s St_invalid_state ''cannot cancel during finish'')
     | _ \<Rightarrow> (St_ok, clear_error (set_state Cancelled
              (emit_cancelled (s \<lparr> st_life := (st_life s) \<lparr> lc_cancel_requested := True \<rparr> \<rparr>)))))"

definition stream_cancel ::
  "('f, 'k, 'o, 'a, 'c) stream \<Rightarrow> (status \<times> ('f, 'k, 'o, 'a, 'c) stream) option" where
  "stream_cancel s = guarded (\<lambda>s. Some (cancel_body s)) s"

section \<open>Null pointers and introspection\<close>

text \<open>Every mutating entry point rejects a null stream first.\<close>

definition on_stream ::
  "(('f, 'k, 'o, 'a, 'c) stream \<Rightarrow> (status \<times> ('f, 'k, 'o, 'a, 'c) stream) option)
   \<Rightarrow> ('f, 'k, 'o, 'a, 'c) stream option \<Rightarrow> (status \<times> ('f, 'k, 'o, 'a, 'c) stream option) option" where
  "on_stream entry p =
    (case p of
       None \<Rightarrow> Some (St_invalid_argument, None)
     | Some s \<Rightarrow> map_option (\<lambda>(st, s1). (st, Some s1)) (entry s))"

definition stream_get_state :: "('f, 'k, 'o, 'a, 'c) stream option \<Rightarrow> stream_state" where
  "stream_get_state p = (case p of None \<Rightarrow> Failed | Some s \<Rightarrow> lc_state (st_life s))"

definition stream_last_status :: "('f, 'k, 'o, 'a, 'c) stream option \<Rightarrow> status" where
  "stream_last_status p = (case p of None \<Rightarrow> St_invalid_argument | Some s \<Rightarrow> lc_last_status (st_life s))"

definition stream_audio_ms :: "('f, 'k, 'o, 'a, 'c) stream option \<Rightarrow> rat" where
  "stream_audio_ms p = (case p of None \<Rightarrow> 0
     | Some s \<Rightarrow> samples_to_ms (lc_total_samples_received (st_life s)) (sp_sample_rate (st_params s)))"

datatype feed_status = Feed_ok | Would_block | Queue_full | Feed_cancelled | Feed_failed

definition stream_last_feed_status :: "('f, 'k, 'o, 'a, 'c) stream option \<Rightarrow> feed_status" where
  "stream_last_feed_status p =
    (case p of
       None \<Rightarrow> Feed_failed
     | Some s \<Rightarrow>
         (case lc_last_status (st_life s) of
            St_ok \<Rightarrow> Feed_ok
          | St_limit_exceeded \<Rightarrow> if ev_decoder_backpressured (st_ev s) then Queue_full else Feed_failed
          | St_busy \<Rightarrow> Would_block
          | St_cancelled \<Rightarrow> Feed_cancelled
          | _ \<Rightarrow> Feed_failed))"

end
