(* ===== verification/StreamSafety.thy ===== *)
theory StreamSafety
  imports StreamLifecycle
begin

text \<open>The lifecycle as a state machine: the public operations as steps, the transition table of
\<open>voxtral-stream.h\<close>, and the invariant of every reachable stream (the guard is released, the queue is
within its bound, the terminal reserve is only in force in a terminal state).\<close>

section \<open>What the internal operations leave alone\<close>

text \<open>Internal work changes the pipeline and the error fields, never the lifecycle.  A new status is
never \<open>busy\<close> or \<open>cancelled\<close>.\<close>

definition worked ::
  "('f, 'k, 'o, 'a, 'c) stream \<Rightarrow> ('f, 'k, 'o, 'a, 'c) stream \<Rightarrow> bool" where
  "worked s t \<longleftrightarrow>
    lc_state (st_life t) = lc_state (st_life s) \<and>
    lc_in_operation (st_life t) = lc_in_operation (st_life s) \<and>
    lc_total_samples_received (st_life t) = lc_total_samples_received (st_life s) \<and>
    lc_cancelled_emitted (st_life t) = lc_cancelled_emitted (st_life s) \<and>
    (lc_last_status (st_life t) = lc_last_status (st_life s) \<or> lc_last_status (st_life t) \<notin> {St_busy, St_cancelled}) \<and>
    st_params t = st_params s \<and>
    ev_max_events (st_ev t) = ev_max_events (st_ev s) \<and>
    ev_finalizing_flush (st_ev t) = ev_finalizing_flush (st_ev s) \<and>
    ev_dropped (st_ev t) = ev_dropped (st_ev s) \<and>
    ev_public_poll_sequence (st_ev t) = ev_public_poll_sequence (st_ev s) \<and>
    (queue_within_bound s \<longrightarrow> queue_within_bound t)"

lemma worked_refl [simp, intro]: "worked s s"
  by (simp add: worked_def)

lemma worked_trans: "worked s t \<Longrightarrow> worked t u \<Longrightarrow> worked s u"
  unfolding worked_def by (elim conjE, intro conjI) auto

lemma worked_set_error [intro]: "worked s t \<Longrightarrow> st \<notin> {St_busy, St_cancelled} \<Longrightarrow> worked s (set_error t st msg)"
  by (auto simp: worked_def set_error_def)

lemma worked_clear_error [intro]: "worked s t \<Longrightarrow> worked s (clear_error t)"
  by (auto simp: worked_def clear_error_def)

lemma worked_updates [simp]:
  "worked s (t \<lparr> st_dec := d \<rparr>) = worked s t"
  "worked s (t \<lparr> st_ctx := c \<rparr>) = worked s t"
  "worked s (t \<lparr> st_model := m \<rparr>) = worked s t"
  "worked s (t \<lparr> st_front := f \<rparr>) = worked s t"
  "worked s (t \<lparr> st_diag := g \<rparr>) = worked s t"
  "worked (s \<lparr> st_dec := d \<rparr>) t = worked s t"
  "worked (s \<lparr> st_ctx := c \<rparr>) t = worked s t"
  "worked (s \<lparr> st_model := m \<rparr>) t = worked s t"
  "worked (s \<lparr> st_front := f \<rparr>) t = worked s t"
  "worked (s \<lparr> st_diag := g \<rparr>) t = worked s t"
  by (simp_all add: worked_def)

lemma worked_backpressured [simp]:
  "worked s (t \<lparr> st_ev := (st_ev t) \<lparr> ev_decoder_backpressured := b \<rparr> \<rparr>) = worked s t"
  by (simp add: worked_def queue_within_bound_def event_bound_def)

lemma worked_aggressive [simp]:
  "worked s (set_aggressive b t) = worked s t" "worked (set_aggressive b s) t = worked s t"
  by (simp_all add: worked_def set_aggressive_def queue_within_bound_def event_bound_def)

lemma worked_enqueue:
  "int (length (ev_queue (st_ev s))) < event_bound (st_ev s) \<Longrightarrow> worked s (s \<lparr> st_ev := enqueue ev (st_ev s) \<rparr>)"
  by (simp add: worked_def queue_within_bound_def)

lemma worked_coalesced:
  "length q \<le> length (ev_queue (st_ev s)) \<Longrightarrow> worked s (s \<lparr> st_ev := coalesced q (st_ev s) \<rparr>)"
  by (simp add: worked_def queue_within_bound_def)

lemma push_event_worked: "worked s (snd (push_event s ev))"
proof (cases "event_bound (st_ev s) \<le> int (length (ev_queue (st_ev s)))")
  case True
  define t where "t = s \<lparr> st_ev := (st_ev s) \<lparr> ev_overflowed := True,
      ev_queue_overflow_attempts := ev_queue_overflow_attempts (st_ev s) + 1 \<rparr> \<rparr>"
  have "worked s t" by (simp add: t_def worked_def queue_within_bound_def event_bound_def)
  then have "worked s (set_error t St_limit_exceeded (overflow_message (event_bound (st_ev s)) (ev_type ev)))" by auto
  then show ?thesis using True by (simp add: push_event_def Let_def t_def)
next
  case False
  then show ?thesis by (simp add: push_event_accepts worked_enqueue)
qed

lemma push_bounded_coalesced_worked: "worked s (snd (push_bounded_coalesced s ev))"
proof -
  have "worked s (s \<lparr> st_ev := coalesced q (st_ev s) \<rparr>)"
    if "replace_last_partial ev (ev_queue (st_ev s)) = Some q" "is_partial ev" for q
    using replace_last_partial_Some(2) [OF that] by (simp add: worked_coalesced)
  then show ?thesis
    using push_event_worked [of s ev] worked_coalesced [of "ev_queue (st_ev s)" s]
    by (auto simp: push_bounded_coalesced_def worked_enqueue split: option.split)
qed

lemma push_event_coalesced_worked: "worked s (snd (push_event_coalesced s ev))"
proof -
  have "worked s (s \<lparr> st_ev := coalesced (q @ [ev]) (st_ev s) \<rparr>)"
    if "erase_first_partial (ev_queue (st_ev s)) = Some q" for q
    using erase_first_partial_Some [OF that] by (simp add: worked_coalesced)
  then show ?thesis
    using push_bounded_coalesced_worked [of s ev]
    by (auto simp: push_event_coalesced_def split: option.split)
qed

lemma emit_token_event_worked: "worked s (snd (emit_token_event s tok pos special))"
proof -
  obtain piece m where p: "token_piece (st_model s) tok = (piece, m)" by force
  define s1 where "s1 = s \<lparr> st_model := m \<rparr>"
  obtain ok s2 where r: "push_event_coalesced s1 (token_event s1 piece tok pos special) = (ok, s2)" by force
  have "worked s s2"
    using push_event_coalesced_worked [of s1 "token_event s1 piece tok pos special"] r by (simp add: s1_def)
  then show ?thesis using p r by (simp add: emit_token_event_def Let_def s1_def [symmetric] split: bool.split)
qed

lemma emit_partial_worked: "worked s (emit_partial_text_event s pos)"
  using push_event_coalesced_worked [of "s \<lparr> st_dec := (st_dec s) \<lparr> de_partial_revision := de_partial_revision (st_dec s) + 1 \<rparr> \<rparr>"]
  by (simp add: emit_partial_text_event_def Let_def)

lemma append_token_worked: "worked s (append_token_to_partial s tok)"
  by (simp add: append_token_to_partial_result)

lemma commit_pending_worked: "worked s (snd (commit_pending s))"
proof (cases "pt_valid (de_pending (st_dec s))")
  case True
  let ?p = "de_pending (st_dec s)"
  obtain ok s1 where e: "emit_token_event s (pt_token ?p) (pt_position ?p) (pt_special ?p) = (ok, s1)" by force
  have w: "worked s s1" using emit_token_event_worked [of s] e by (metis snd_conv)
  show ?thesis
    using True e w emit_partial_worked append_token_worked
    by (auto simp: commit_pending_def Let_def split: bool.split intro!: worked_trans [OF w] worked_trans [OF _ emit_partial_worked] worked_trans [OF _ append_token_worked])
qed (simp add: commit_pending_def)

lemma capture_encoder_worked: "worked s (snd (capture_new_encoder_output_sha rt s))"
  by (auto simp: capture_new_encoder_output_sha_def Let_def split: option.split)

lemma capture_adapter_worked: "worked s (snd (capture_new_adapter_output_sha rt s a n))"
  by (auto simp: capture_new_adapter_output_sha_def Let_def split: option.split)

lemma build_prompt_worked: "worked s (build_prompt_ids s)"
  by (simp add: build_prompt_ids_def)

lemma pump_adapter_worked: "worked s (snd (pump_adapter rt ctx enc s))"
proof -
  have "worked s t" if "capture_new_adapter_output_sha rt (s \<lparr> st_ctx := c \<rparr>) a n = (ok, t)" for c a n ok t
    using capture_adapter_worked [of "s \<lparr> st_ctx := c \<rparr>" rt a n] that by simp
  then show ?thesis
    by (auto simp: pump_adapter_def Let_def split: prod.split bool.split)
qed

lemma pump_prefill_worked: "worked s (snd (pump_prefill rt ctx s))"
  by (auto simp: pump_prefill_def Let_def split: prod.split)

lemma run_step_worked: "worked s (snd (run_step rt ctx s))"
  by (auto simp: run_step_def Let_def stash_token_def split: prod.split option.split)

lemma pump_steps_worked: "worked s (snd (pump_steps rt last_pos s))"
proof (induction rt last_pos s rule: pump_steps.induct)
  case (1 rt last_pos s)
  show ?case
  proof (cases "de_position (st_dec s) \<le> last_pos \<and> \<not> de_eos (st_dec s) \<and>
      (sp_max_tokens (st_params s) \<le> 0 \<or> de_tokens_emitted (st_dec s) < sp_max_tokens (st_params s))")
    case True
    show ?thesis
    proof (cases "st_ctx s")
      case None
      then show ?thesis using True by (subst pump_steps.simps) (simp add: Let_def)
    next
      case (Some ctx)
      obtain ok s1 where r: "run_step rt ctx s = (ok, s1)" by force
      obtain ok2 s2 where c: "commit_pending s1 = (ok2, s2)" by force
      have w: "worked s s1" "worked s1 s2"
        using run_step_worked [of s rt ctx] commit_pending_worked [of s1] r c by simp_all
      then have w2: "worked s s2" by (rule worked_trans)
      have "worked s2 (snd (pump_steps rt last_pos s2))" if "ok" "ok2"
        using "1.IH" [OF refl True Some] r c that by auto
      then show ?thesis
        using True Some r c w w2 by (subst pump_steps.simps) (auto simp: Let_def split: bool.split intro: worked_trans)
    qed
  next
    case False
    then show ?thesis by (subst pump_steps.simps) (auto simp: Let_def)
  qed
qed

lemma pump_steps_status: "fst (pump_steps rt last_pos s) \<in> {St_ok, St_backend_error, St_limit_exceeded}"
proof (induction rt last_pos s rule: pump_steps.induct)
  case (1 rt last_pos s)
  show ?case
    by (subst pump_steps.simps) (use 1 in \<open>auto simp: Let_def split: option.split prod.split bool.split\<close>)
qed

lemma pump_incremental_worked: "worked s (snd (pump_incremental rt s))"
proof -
  have "worked s t"
    if "pump_adapter rt ctx enc (build_prompt_ids s) = (ok, t)" for ctx enc ok t
    using worked_trans [OF build_prompt_worked pump_adapter_worked [of "build_prompt_ids s" rt ctx enc]] that by simp
  moreover have "worked t u" if "pump_prefill rt ctx t = (ok, u)" for ctx t u ok
    using pump_prefill_worked [of t rt ctx] that by simp
  moreover have "worked t u" if "commit_pending t = (ok, u)" for t u ok
    using commit_pending_worked [of t] that by simp
  moreover have "worked t (snd (pump_steps rt k (t \<lparr> st_ev := (st_ev t) \<lparr> ev_decoder_backpressured := False \<rparr> \<rparr>)))" for t k
    by (rule worked_trans [OF _ pump_steps_worked]) simp
  ultimately show ?thesis
    by (auto simp: pump_incremental_def Let_def split: option.split prod.split bool.split) (blast intro: worked_trans)+
qed

lemma pump_incremental_status: "fst (pump_incremental rt s) \<in> {St_ok, St_backend_error, St_limit_exceeded}"
  using pump_steps_status [of rt]
  by (auto simp: pump_incremental_def Let_def split: option.split prod.split bool.split)

lemma ensure_frontend_worked: "worked s (snd (ensure_frontend rt s))"
  by (auto simp: ensure_frontend_def split: option.split)

lemma ensure_left_pad_worked: "ensure_left_pad rt s = Some t \<Longrightarrow> worked s t"
  by (auto simp: ensure_left_pad_def split: option.splits if_splits)

lemma ensure_encoder_worked: "worked s (snd (ensure_encoder rt s))"
  by (auto simp: ensure_encoder_def Let_def split: option.split)

lemma drain_slice_worked: "drain_slice rt ctx enc fe base n s = Some (ok, t) \<Longrightarrow> worked s t"
proof -
  have c: "worked s u" if "capture_new_encoder_output_sha rt (set_enc e s) = (b, u)" for e b u
    using capture_encoder_worked [of "set_enc e s" rt] that by (simp add: set_enc_def)
  show "drain_slice rt ctx enc fe base n s = Some (ok, t) \<Longrightarrow> worked s t"
    by (auto simp: drain_slice_def after_push_def set_enc_def [symmetric] split: option.splits prod.splits bool.splits
        dest: c) (auto simp: set_enc_def)
qed

lemma drain_loop_worked: "drain_loop rt k base s = Some (ok, t) \<Longrightarrow> worked s t"
proof (induction rt k base s arbitrary: ok t rule: drain_loop.induct)
  case (1 rt k base s)
  show ?case
  proof (cases "base < k")
    case True
    then obtain enc fe ctx where e: "fr_enc (st_front s) = Some enc" "fr_mel_fe (st_front s) = Some fe" "st_ctx s = Some ctx"
      using "1.prems" by (subst (asm) drain_loop.simps) (auto split: option.splits)
    obtain ok1 s1 where d: "drain_slice rt ctx enc fe base (min 8 (k - base)) s = Some (ok1, s1)"
      using "1.prems" True e by (subst (asm) drain_loop.simps) (auto split: option.splits)
    have w: "worked s s1" by (rule drain_slice_worked [OF d])
    show ?thesis
    proof (cases ok1)
      case True
      have "drain_loop rt k (base + min 8 (k - base)) s1 = Some (ok, t)"
        using "1.prems" \<open>base < k\<close> e d True by (subst (asm) drain_loop.simps) simp
      then have "worked s1 t" using "1.IH" \<open>base < k\<close> e d True by auto
      then show ?thesis using w worked_trans by blast
    next
      case False
      then show ?thesis using "1.prems" \<open>base < k\<close> e d w by (subst (asm) drain_loop.simps) simp
    qed
  next
    case False
    then show ?thesis using "1.prems" by (subst (asm) drain_loop.simps) simp
  qed
qed

lemma drain_final_worked: "drain_final rt ctx enc fe base k s = Some (ok, t) \<Longrightarrow> worked s t"
proof -
  have c: "worked s u" if "capture_new_encoder_output_sha rt (after_push fe k (set_enc e s)) = (b, u)" for e b u
    using capture_encoder_worked [of "after_push fe k (set_enc e s)" rt] that by (simp add: set_enc_def after_push_def)
  show "drain_final rt ctx enc fe base k s = Some (ok, t) \<Longrightarrow> worked s t"
    by (auto simp: drain_final_def Let_def split: option.splits prod.splits bool.splits if_splits dest: c)
      (auto simp: set_enc_def)
qed

lemma drain_worked: "drain_mel_to_encoder rt final s = Some (ok, t) \<Longrightarrow> worked s t"
  by (auto simp: drain_mel_to_encoder_def Let_def split: option.splits if_splits
      dest: drain_loop_worked drain_final_worked)

lemma feed_slices_worked: "feed_slices rt xs bp s = Some (r, t) \<Longrightarrow> worked s t"
proof (induction rt xs bp s arbitrary: r t rule: feed_slices.induct)
  case (1 rt xs bp s)
  note pr = "1.prems" [unfolded feed_slices.simps [of rt xs bp s]]
  show ?case
  proof (cases "xs = []")
    case True
    then show ?thesis using pr by simp
  next
    case ne: False
    obtain fe where fe: "fr_mel_fe (st_front s) = Some fe" using pr ne by (auto split: option.splits)
    obtain ok fe1 where f: "mel_frontend_feed (rt_ops rt) fe (Some (take 16000 xs)) (min 16000 (length xs)) = Some (ok, fe1)"
      using pr ne fe by (auto split: option.splits)
    define s1 where "s1 = s \<lparr> st_front := (st_front s) \<lparr> fr_mel_fe := Some fe1 \<rparr> \<rparr>"
    have w1: "worked s s1" by (simp add: s1_def)
    show ?thesis
    proof (cases ok)
      case False
      then show ?thesis using pr ne fe f w1 by (auto simp: s1_def)
    next
      case ok: True
      obtain d s2 where d: "drain_mel_to_encoder rt False s1 = Some (d, s2)"
        using pr ne fe f ok by (auto simp: s1_def [symmetric] split: option.splits)
      have w2: "worked s s2" using w1 drain_worked [OF d] worked_trans by blast
      show ?thesis
      proof (cases d)
        case False
        then show ?thesis using pr ne fe f ok d w2 by (simp add: s1_def [symmetric])
      next
        case dt: True
        obtain ps s3 where p: "pump_incremental rt s2 = (ps, s3)" by force
        have w3: "worked s s3" using w2 pump_incremental_worked [of s2 rt] p worked_trans by fastforce
        note ih = "1.IH" [OF ne fe f refl s1_def _ d [unfolded dt] refl]
        show ?thesis
        proof (cases "de_incremental (st_dec s2) \<and> \<not> bp")
          case True
          consider "ps = St_limit_exceeded" | "ps \<noteq> St_limit_exceeded" "ps \<noteq> St_ok" | "ps = St_ok" by blast
          then show ?thesis
          proof cases
            case 1
            then have "feed_slices rt (drop 16000 xs) True s3 = Some (r, t)"
              using pr ne fe f ok d dt True p by (simp add: s1_def [symmetric])
            then have "worked s3 t" using ih(1) ok dt True p 1 by auto
            then show ?thesis using w3 worked_trans by blast
          next
            case 2
            then show ?thesis using pr ne fe f ok d dt True p w3 by (simp add: s1_def [symmetric])
          next
            case 3
            then have "feed_slices rt (drop 16000 xs) bp s3 = Some (r, t)"
              using pr ne fe f ok d dt True p by (simp add: s1_def [symmetric])
            then have "worked s3 t" using ih(2) ok dt True p 3 by auto
            then show ?thesis using w3 worked_trans by blast
          qed
        next
          case False
          then have "feed_slices rt (drop 16000 xs) bp s2 = Some (r, t)"
            using pr ne fe f ok d dt by (auto simp: s1_def [symmetric] split: if_splits)
          then have "worked s2 t" using ih(3) ok dt False by auto
          then show ?thesis using w2 worked_trans by blast
        qed
      qed
    qed
  qed
qed

lemma consume_samples_worked: "consume_samples rt xs s = Some (r, t) \<Longrightarrow> worked s t"
proof -
  have "worked s t" if "ensure_left_pad rt s = Some u" "ensure_encoder rt u = (b, v)" "t = v" for u b v t
    using worked_trans [OF ensure_left_pad_worked [OF that(1)] ensure_encoder_worked [of u rt]] that by simp
  moreover have "worked s t" if "ensure_left_pad rt s = Some u" "ensure_encoder rt u = (b, v)"
      "feed_slices rt xs False v = Some (r, t)" for u b v r t
    using worked_trans [OF worked_trans [OF ensure_left_pad_worked [OF that(1)]] feed_slices_worked [OF that(3)]]
      ensure_encoder_worked [of u rt] that(2) by simp
  ultimately show "consume_samples rt xs s = Some (r, t) \<Longrightarrow> worked s t"
    by (auto simp: consume_samples_def split: option.splits prod.splits bool.splits if_splits)
qed

section \<open>The operations as steps\<close>

datatype 'f stream_op =
    FeedPcm16 "int list option" nat
  | FeedF32 "'f list option" nat
  | Finish
  | Reset
  | Cancel
  | Warmup
  | PollEvent
  | SetCapacity nat

fun apply_op ::
  "('f, 'k, 'o, 'a, 'c) runtime \<Rightarrow> 'f stream_op \<Rightarrow> ('f, 'k, 'o, 'a, 'c) stream
   \<Rightarrow> (status \<times> ('f, 'k, 'o, 'a, 'c) stream) option" where
  "apply_op rt (FeedPcm16 input n) s = stream_feed_pcm16 rt input n s"
| "apply_op rt (FeedF32 input n) s = stream_feed_f32 rt input n s"
| "apply_op rt Finish s = stream_finish rt s"
| "apply_op rt Reset s = stream_reset s"
| "apply_op rt Cancel s = stream_cancel s"
| "apply_op rt Warmup s = stream_warmup rt s"
| "apply_op rt PollEvent s = Some (St_ok, case stream_poll_event s of None \<Rightarrow> s | Some (_, s1) \<Rightarrow> s1)"
| "apply_op rt (SetCapacity n) s = Some (St_ok, snd (stream_set_event_capacity s (int n)))"

definition terminal :: "stream_state \<Rightarrow> bool" where
  "terminal st \<longleftrightarrow> st = Completed \<or> st = Cancelled \<or> st = Failed"

text \<open>The documented transitions: the states an operation may leave the stream in.\<close>

fun next_states :: "'f stream_op \<Rightarrow> stream_state \<Rightarrow> stream_state set" where
  "next_states (FeedPcm16 _ _) st = (if st = Created then {Created, Running} else {st})"
| "next_states (FeedF32 _ _) st = (if st = Created then {Created, Running} else {st})"
| "next_states Finish st = (if terminal st then {st} else {st, Completed, Failed})"
| "next_states Reset st = {Created}"
| "next_states Cancel st = (if terminal st then {st} else {Cancelled})"
| "next_states _ st = {st}"

text \<open>The invariant of a stream between operations.\<close>

definition stream_inv :: "('f, 'k, 'o, 'a, 'c) stream \<Rightarrow> bool" where
  "stream_inv s \<longleftrightarrow>
    \<not> lc_in_operation (st_life s) \<and>
    lc_state (st_life s) \<noteq> Finishing \<and>
    lc_last_status (st_life s) \<notin> {St_busy, St_cancelled} \<and>
    (lc_cancelled_emitted (st_life s) \<longleftrightarrow> lc_state (st_life s) = Cancelled) \<and>
    queue_within_bound s \<and>
    0 < ev_max_events (st_ev s) \<and>
    (ev_finalizing_flush (st_ev s) \<longrightarrow> terminal (lc_state (st_life s))) \<and>
    ev_dropped (st_ev s) = 0"

text \<open>What an operation keeps while the guard is held.\<close>

definition during :: "('f, 'k, 'o, 'a, 'c) stream \<Rightarrow> bool" where
  "during s \<longleftrightarrow> stream_inv (set_in_operation False s) \<and> lc_in_operation (st_life s)"

lemma during_enter: "stream_inv s \<Longrightarrow> during (set_in_operation True s)"
  by (simp add: during_def stream_inv_def set_in_operation_def)

lemma during_worked:
  assumes "during s" "worked s t"
  shows "during t"
  using assms
  unfolding during_def stream_inv_def worked_def set_in_operation_def by auto

lemma worked_life: "worked s t \<Longrightarrow> lc_state (st_life t) = lc_state (st_life s)"
  by (simp add: worked_def)

lemma set_in_operation_simps [simp]:
  "lc_state (st_life (set_in_operation b s)) = lc_state (st_life s)"
  "lc_in_operation (st_life (set_in_operation b s)) = b"
  "st_ev (set_in_operation b s) = st_ev s" "st_dec (set_in_operation b s) = st_dec s"
  "st_front (set_in_operation b s) = st_front s" "st_ctx (set_in_operation b s) = st_ctx s"
  "st_diag (set_in_operation b s) = st_diag s" "st_params (set_in_operation b s) = st_params s"
  "st_model (set_in_operation b s) = st_model s"
  "lc_total_samples_received (st_life (set_in_operation b s)) = lc_total_samples_received (st_life s)"
  "lc_last_status (st_life (set_in_operation b s)) = lc_last_status (st_life s)"
  by (simp_all add: set_in_operation_def)

text \<open>The step rule all guarded entry points share.\<close>

lemma guarded_step:
  assumes g: "guarded body s = Some (st, t)" and i: "stream_inv s"
    and b: "\<And>u st1. body (set_in_operation True s) = Some (st1, u) \<Longrightarrow> during u \<and> lc_state (st_life u) \<in> A"
  shows "stream_inv t \<and> lc_state (st_life t) \<in> A"
proof -
  have n: "\<not> lc_in_operation (st_life s)" using i by (simp add: stream_inv_def)
  then obtain u where u: "body (set_in_operation True s) = Some (st, u)" "t = set_in_operation False u"
    using g by (auto simp: guarded_def)
  show ?thesis using b [OF u(1)] u(2) by (simp add: during_def)
qed

section \<open>Feeding\<close>

definition converter_ok :: "('x, 'f, 'k, 'o, 'a, 'c) converter \<Rightarrow> bool" where
  "converter_ok conv \<longleftrightarrow> (\<forall>xs s. worked s (snd (conv xs s)))"

lemma converters_ok [simp]: "converter_ok (convert_pcm16 rt)" "converter_ok (convert_f32 rt)"
  by (auto simp: converter_ok_def convert_pcm16_def convert_f32_def)

lemma complete_feed_during:
  assumes "during s" "feed_allowed (lc_state (st_life s))"
  shows "during (snd (complete_feed n bp s)) \<and> lc_state (st_life (snd (complete_feed n bp s))) = Running"
  using assms
  by (auto simp: complete_feed_def Let_def during_def stream_inv_def set_in_operation_def feed_allowed_def
      terminal_def clear_error_def queue_within_bound_def)

lemma feed_accepted_during:
  assumes "feed_accepted rt conv xs n s = Some (st, t)" "during s" "feed_allowed (lc_state (st_life s))"
    "converter_ok conv"
  shows "during t \<and> lc_state (st_life t) \<in> {lc_state (st_life s), Running}"
proof -
  obtain b s1 where f: "ensure_frontend rt s = (b, s1)" by force
  have w1: "worked s s1" using ensure_frontend_worked [of s rt] f by simp
  obtain r s2 where c: "conv xs s1 = (r, s2)" by force
  have w2: "worked s s2" using w1 assms(4) c worked_trans unfolding converter_ok_def by (metis snd_conv)
  define s3 where "s3 = s2 \<lparr> st_diag := (st_diag s2)
      \<lparr> dg_pcm_sha := sha_update (dg_pcm_sha (st_diag s2)) (concat (List.map (rt_float_bytes rt) (the r))) \<rparr> \<rparr>"
  have w3: "worked s s3" using w2 by (simp add: s3_def)
  have stays: "during u \<and> lc_state (st_life u) \<in> {lc_state (st_life s), Running}" if "worked s u" for u
    using during_worked [OF assms(2) that] worked_life [OF that] by simp
  consider "\<not> b" "t = s1" | "b" "\<not> rt_reserve rt (length xs)"
      "t = set_error s1 St_out_of_memory ''pcm reserve failed: std::bad_alloc''"
    | "b" "rt_reserve rt (length xs)" "r = None" "t = s2"
    | q u where "b" "rt_reserve rt (length xs)" "r \<noteq> None" "consume_samples rt (the r) s3 = Some (q, u)"
        "(st, t) = (case q of Inl e \<Rightarrow> (e, u) | Inr bp \<Rightarrow> complete_feed n bp u)"
    using assms(1) f c
    by (auto simp: feed_accepted_def s3_def split: bool.splits if_splits option.splits)
  then show ?thesis
  proof cases
    case 1
    then show ?thesis using stays [OF w1] by simp
  next
    case 2
    then show ?thesis using stays [OF worked_set_error [OF w1, of St_out_of_memory]] by auto
  next
    case 3
    then show ?thesis using stays [OF w2] by simp
  next
    case (4 q u)
    have wu: "worked s u" using w3 consume_samples_worked [OF 4(4)] worked_trans by blast
    show ?thesis
    proof (cases q)
      case (Inl e)
      then show ?thesis using 4(5) stays [OF wu] by simp
    next
      case (Inr bp)
      have "t = snd (complete_feed n bp u)" using 4(5) Inr by (metis snd_conv sum.case(2))
      then show ?thesis
        using complete_feed_during [OF during_worked [OF assms(2) wu], of n bp] assms(3) worked_life [OF wu] by simp
    qed
  qed
qed

lemma during_aggressive [simp]: "during (set_aggressive b s) = during s"
  by (simp add: during_def stream_inv_def set_aggressive_def set_in_operation_def queue_within_bound_def)

lemma set_aggressive_state [simp]: "st_life (set_aggressive b s) = st_life s"
  by (simp add: set_aggressive_def)

lemma feed_input_during:
  assumes "feed_input rt conv input n s = Some (st, t)" "during s" "feed_allowed (lc_state (st_life s))"
    "converter_ok conv"
  shows "during t \<and> lc_state (st_life t) \<in> {lc_state (st_life s), Running}"
proof -
  have stays: "during u \<and> lc_state (st_life u) \<in> {lc_state (st_life s), Running}" if "worked s u" for u
    using during_worked [OF assms(2) that] worked_life [OF that] by simp
  have adm: "st1 \<notin> {St_busy, St_cancelled}"
    if "feed_admission p r k = Inl (st1, msg)" for p r k st1 msg
    using that by (auto simp: feed_admission_def split: if_splits option.splits)
  consider "t = set_error s St_invalid_argument ''null samples with non-zero count''"
    | "t = (clear_error s) \<lparr> st_life := (st_life (clear_error s)) \<lparr> lc_feed_calls := lc_feed_calls (st_life s) + 1 \<rparr> \<rparr>"
    | msg st1 where "t = set_error s st1 msg" "st1 \<notin> {St_busy, St_cancelled}"
    | u k where "t = set_aggressive (ev_aggressive_partial_coalescing (st_ev s)) u"
        "feed_accepted rt conv (take n (the input)) k (set_aggressive (aggressive_mode (st_ev s) (int n)) s) = Some (st, u)"
    using assms(1) adm [of "st_params s" "lc_total_samples_received (st_life s)" "int n"]
    by (auto simp: feed_input_def split: if_splits sum.splits prod.splits)
  then show ?thesis
  proof cases
    case 1
    then show ?thesis using stays [OF worked_set_error [OF worked_refl, of St_invalid_argument]] by auto
  next
    case 2
    then show ?thesis
      using assms(2,3) by (auto simp: during_def stream_inv_def set_in_operation_def clear_error_def queue_within_bound_def)
  next
    case (3 msg st1)
    then show ?thesis using stays [OF worked_set_error [OF worked_refl, of st1]] by auto
  next
    case (4 u k)
    show ?thesis using feed_accepted_during [OF 4(2) _ _ assms(4)] assms(2,3) 4(1) by simp
  qed
qed

lemma feed_step:
  assumes "feed_common rt conv input n s = Some (st, t)" "stream_inv s" "converter_ok conv"
  shows "stream_inv t \<and> lc_state (st_life t) \<in>
    (if lc_state (st_life s) = Created then {Created, Running} else {lc_state (st_life s)})"
proof (rule guarded_step [OF assms(1) [unfolded feed_common_def] assms(2)])
  fix u st1
  let ?s = "set_in_operation True s"
  assume b: "feed_body rt conv input n ?s = Some (st1, u)"
  have d: "during ?s" by (rule during_enter [OF assms(2)])
  obtain rp s1 where p: "pump_incremental rt ?s = (rp, s1)" by force
  have w: "worked ?s s1" using pump_incremental_worked [of ?s rt] p by simp
  note d1 = during_worked [OF d w]
  have goal: "during u \<and> lc_state (st_life u) \<in> {lc_state (st_life s), Running}"
    if "feed_allowed (lc_state (st_life s))"
    using b that p d1 worked_life [OF w] feed_input_during [of rt conv input n ?s st1 u, OF _ d _ assms(3)]
      feed_input_during [of rt conv input n s1 st1 u, OF _ d1 _ assms(3)]
    by (auto simp: feed_body_def during_def stream_inv_def set_in_operation_def queue_within_bound_def split: if_splits)
  show "during u \<and> lc_state (st_life u) \<in>
    (if lc_state (st_life s) = Created then {Created, Running} else {lc_state (st_life s)})"
  proof (cases "feed_allowed (lc_state (st_life s))")
    case True
    then show ?thesis using goal by (auto simp: feed_allowed_def)
  next
    case False
    then have "worked ?s u" using b by (auto simp: feed_body_def)
    then show ?thesis using during_worked [OF d] worked_life False by (fastforce simp: feed_allowed_def)
  qed
qed

section \<open>Warmup, reset and cancel\<close>

lemma warmup_step:
  assumes "stream_warmup rt s = Some (st, t)" "stream_inv s"
  shows "stream_inv t \<and> lc_state (st_life t) \<in> {lc_state (st_life s)}"
proof (rule guarded_step [OF assms(1) [unfolded stream_warmup_def] assms(2)])
  fix u st1
  let ?s = "set_in_operation True s"
  assume b: "Some (warmup_body rt ?s) = Some (st1, u)"
  have d: "during ?s" by (rule during_enter [OF assms(2)])
  obtain b1 s1 where f: "ensure_frontend rt ?s = (b1, s1)" by force
  obtain b2 s2 where e: "(if b1 then ensure_encoder rt s1 else (False, s1)) = (b2, s2)" by force
  have w1: "worked ?s s1" using ensure_frontend_worked [of ?s rt] f by simp
  have w2: "worked ?s s2"
    using w1 e worked_trans [OF w1 ensure_encoder_worked [of s1 rt]] by (auto split: if_splits)
  have stays: "during v \<and> lc_state (st_life v) \<in> {lc_state (st_life s)}" if "worked ?s v" for v
    using during_worked [OF d that] worked_life [OF that] by simp
  have warm: "during (clear_error (v \<lparr> st_life := (st_life v) \<lparr> lc_warmup_complete := True \<rparr> \<rparr>)) \<and>
      lc_state (st_life v) \<in> {lc_state (st_life s)}" if "worked ?s v" for v
    using stays [OF that]
    by (auto simp: during_def stream_inv_def set_in_operation_def clear_error_def queue_within_bound_def)
  show "during u \<and> lc_state (st_life u) \<in> {lc_state (st_life s)}"
  proof (cases "lc_warmup_complete (st_life ?s) \<or> lc_state (st_life ?s) \<noteq> Created \<or>
      lc_total_samples_received (st_life ?s) \<noteq> 0 \<or> st_ctx ?s = None \<or> \<not> de_incremental (st_dec ?s)")
    case True
    then have "u = ?s \<or> u = set_error ?s St_invalid_state ''warmup requires a fresh production incremental stream''"
      using b by (auto simp: warmup_body_def split: if_splits)
    then show ?thesis using stays [OF worked_refl] stays [OF worked_set_error [OF worked_refl, of St_invalid_state]] by auto
  next
    case fresh: False
    show ?thesis
    proof (cases "b1 \<and> b2 \<and> fr_enc (st_front s2) \<noteq> None \<and> st_ctx s2 \<noteq> None")
      case True
      then obtain enc ctx where x: "fr_enc (st_front s2) = Some enc" "st_ctx s2 = Some ctx" by auto
      obtain ok enc1 dctx where wu: "encoder_stream_warmup rt ctx enc = (ok, enc1, dctx)"
        by (cases "encoder_stream_warmup rt ctx enc") auto
      define s3 where "s3 = set_enc enc1 (s2 \<lparr> st_ctx := Some (ctx \<lparr> sx_dec := dctx \<rparr>) \<rparr>)"
      have w3: "worked ?s s3" "worked ?s (s3 \<lparr> st_front := (st_front s3) \<lparr> fr_enc_pushed_frames := 0 \<rparr> \<rparr>)"
        using w2 by (simp_all add: s3_def set_enc_def)
      have "u = set_error s3 St_backend_error ''production graph warmup failed'' \<or>
          u = clear_error (s3 \<lparr> st_front := (st_front s3) \<lparr> fr_enc_pushed_frames := 0 \<rparr>,
                                st_life := (st_life s3) \<lparr> lc_warmup_complete := True \<rparr> \<rparr>)"
        using b fresh True x wu f e
        by (auto simp: warmup_body_def Let_def s3_def [symmetric] split: if_splits)
      then show ?thesis
        using stays [OF worked_set_error [OF w3(1), of St_backend_error]] warm [OF w3(2)] by auto
    next
      case False
      define s3 where "s3 = (if lc_last_status (st_life s2) = St_ok
          then set_error s2 St_backend_error ''failed to initialize production warmup state'' else s2)"
      have "u = s3"
        using b fresh False f e
        by (auto simp: warmup_body_def Let_def s3_def split: if_splits option.splits bool.splits)
      moreover have "worked ?s s3" using w2 by (auto simp: s3_def)
      ultimately show ?thesis using stays by simp
    qed
  qed
qed

lemma reset_body_simps [simp]:
  "lc_state (st_life (reset_body s)) = Created"
  "lc_in_operation (st_life (reset_body s)) = lc_in_operation (st_life s)"
  "lc_last_status (st_life (reset_body s)) = St_ok"
  "lc_cancelled_emitted (st_life (reset_body s)) = False"
  "lc_total_samples_received (st_life (reset_body s)) = 0"
  "st_ev (reset_body s) = reset_events (st_ev s)"
  "st_dec (reset_body s) = reset_decoder (st_dec s)"
  "st_front (reset_body s) = reset_frontend (st_front s)"
  "st_diag (reset_body s) = reset_diagnostics (st_diag s)"
  "st_params (reset_body s) = st_params s"
  "st_model (reset_body s) = st_model s"
  by (simp_all add: reset_body_def reset_lifecycle_def clear_error_def)

lemma reset_events_simps [simp]:
  "ev_queue (reset_events e) = []"
  "ev_max_events (reset_events e) = ev_max_events e"
  "ev_finalizing_flush (reset_events e) = False"
  "ev_dropped (reset_events e) = 0"
  "event_bound (reset_events e) = ev_max_events e"
  by (simp_all add: reset_events_def event_bound_def)

lemma reset_step:
  assumes "stream_reset s = Some (st, t)" "stream_inv s"
  shows "stream_inv t \<and> lc_state (st_life t) \<in> {Created}"
proof (rule guarded_step [OF assms(1) [unfolded stream_reset_def] assms(2)])
  fix u st1
  let ?s = "set_in_operation True s"
  assume "Some (St_ok, reset_body ?s) = Some (st1, u)"
  then have u: "u = reset_body ?s" by simp
  have "0 < ev_max_events (st_ev s)" using assms(2) by (simp add: stream_inv_def)
  then have "stream_inv (set_in_operation False (reset_body ?s))"
    by (simp add: stream_inv_def queue_within_bound_def) (simp add: set_in_operation_def)
  then show "during u \<and> lc_state (st_life u) \<in> {Created}" by (simp add: u during_def)
qed

lemma emit_cancelled_worked:
  assumes "during s" "\<not> terminal (lc_state (st_life s))"
  shows "\<exists>v. emit_cancelled s = v \<lparr> st_life := (st_life v) \<lparr> lc_cancelled_emitted := True \<rparr> \<rparr> \<and>
    worked (s \<lparr> st_ev := (st_ev s) \<lparr> ev_finalizing_flush := True \<rparr> \<rparr>) v"
proof -
  have "\<not> lc_cancelled_emitted (st_life s)"
    using assms by (auto simp: during_def stream_inv_def set_in_operation_def terminal_def)
  then show ?thesis using push_event_worked by (auto simp: emit_cancelled_def Let_def)
qed

lemma cancel_step:
  assumes "stream_cancel s = Some (st, t)" "stream_inv s"
  shows "stream_inv t \<and> lc_state (st_life t) \<in> (if terminal (lc_state (st_life s)) then {lc_state (st_life s)} else {Cancelled})"
proof (rule guarded_step [OF assms(1) [unfolded stream_cancel_def] assms(2)])
  fix u st1
  let ?s = "set_in_operation True s"
  assume b: "Some (cancel_body ?s) = Some (st1, u)"
  have d: "during ?s" by (rule during_enter [OF assms(2)])
  have nf: "lc_state (st_life s) \<noteq> Finishing" using assms(2) by (simp add: stream_inv_def)
  show "during u \<and> lc_state (st_life u) \<in> (if terminal (lc_state (st_life s)) then {lc_state (st_life s)} else {Cancelled})"
  proof (cases "terminal (lc_state (st_life s))")
    case True
    then have "worked ?s u" using b nf by (auto simp: cancel_body_def terminal_def split: stream_state.splits)
    then show ?thesis using during_worked [OF d] worked_life True by fastforce
  next
    case False
    define c where "c = ?s \<lparr> st_life := (st_life ?s) \<lparr> lc_cancel_requested := True \<rparr> \<rparr>"
    have dc: "during c" "lc_state (st_life c) = lc_state (st_life s)"
      using d by (simp_all add: c_def during_def stream_inv_def set_in_operation_def queue_within_bound_def)
    obtain v where v: "emit_cancelled c = v \<lparr> st_life := (st_life v) \<lparr> lc_cancelled_emitted := True \<rparr> \<rparr>"
        "worked (c \<lparr> st_ev := (st_ev c) \<lparr> ev_finalizing_flush := True \<rparr> \<rparr>) v"
      using emit_cancelled_worked [OF dc(1)] False dc(2) by auto
    have "u = clear_error (set_state Cancelled (emit_cancelled c))"
      using b False nf by (cases "lc_state (st_life s)") (auto simp: cancel_body_def c_def terminal_def)
    then show ?thesis
      using dc v False
      by (auto simp: during_def stream_inv_def set_in_operation_def set_state_def clear_error_def worked_def
          queue_within_bound_def event_bound_def terminal_event_headroom_def terminal_def split: if_splits)
  qed
qed

section \<open>Finishing\<close>

definition in_finish :: "('f, 'k, 'o, 'a, 'c) stream \<Rightarrow> bool" where
  "in_finish s \<longleftrightarrow> lc_in_operation (st_life s) \<and> \<not> lc_cancelled_emitted (st_life s) \<and>
    queue_within_bound s \<and> 0 < ev_max_events (st_ev s) \<and> ev_dropped (st_ev s) = 0"

lemma in_finish_worked: "in_finish s \<Longrightarrow> worked s t \<Longrightarrow> in_finish t"
  by (auto simp: in_finish_def worked_def)

lemma in_finish_updates [simp]:
  "in_finish (s \<lparr> st_dec := d \<rparr>) = in_finish s" "in_finish (note_inference_run s) = in_finish s"
  "in_finish (set_state st s) = in_finish s"
  by (simp_all add: in_finish_def note_inference_run_def set_state_def queue_within_bound_def)

lemma emit_error_worked: "worked s (emit_error s st msg)"
  by (simp add: emit_error_def push_event_worked)

lemma emit_final_worked: "worked s (emit_final_and_completed s)"
  by (simp add: emit_final_and_completed_def Let_def worked_trans [OF push_event_worked push_event_worked])

lemma concluded:
  assumes "in_finish s" "terminal st" "st \<noteq> Cancelled" "lc_last_status (st_life s) \<notin> {St_busy, St_cancelled}"
  shows "during (set_state st s)"
  using assms
  by (auto simp: in_finish_def during_def stream_inv_def set_state_def set_in_operation_def queue_within_bound_def terminal_def)

lemma fail_with_during:
  assumes "in_finish s" "st \<notin> {St_busy, St_cancelled}"
  shows "during (snd (fail_with st msg s)) \<and> lc_state (st_life (snd (fail_with st msg s))) = Failed"
proof -
  have w: "worked (set_error s st msg) (emit_error (set_error s st msg) st msg)" by (rule emit_error_worked)
  have f: "in_finish (set_error s st msg)" using assms(1) by (simp add: in_finish_def queue_within_bound_def set_error_def)
  have "lc_last_status (st_life (emit_error (set_error s st msg) st msg)) \<notin> {St_busy, St_cancelled}"
    using w assms(2) by (auto simp: worked_def)
  then show ?thesis
    using concluded [OF in_finish_worked [OF f w], of Failed] by (simp add: fail_with_def terminal_def set_state_def)
qed

lemma complete_during:
  assumes "in_finish s"
  shows "during (clear_error (set_state Completed (emit_final_and_completed s)))"
  using in_finish_worked [OF assms emit_final_worked]
  by (auto simp: in_finish_def during_def stream_inv_def set_state_def set_in_operation_def clear_error_def
      queue_within_bound_def terminal_def)

lemma finish_frontend_worked: "finish_frontend rt s = Some t \<Longrightarrow> worked s t"
  by (auto simp: finish_frontend_def Let_def split: option.splits prod.splits dest!: ensure_left_pad_worked)

lemma finish_encoder_worked: "finish_encoder rt s = Some (r, t) \<Longrightarrow> worked s t"
  by (auto simp: finish_encoder_def Let_def set_enc_def split: option.splits prod.splits bool.splits
      dest!: drain_worked)

lemma finish_decoder_worked: "finish_decoder rt s = Some (r, t) \<Longrightarrow> worked s t"
  using pump_incremental_worked [of "s \<lparr> st_dec := (st_dec s) \<lparr> de_tokens_before_finish := de_tokens_emitted (st_dec s) \<rparr> \<rparr>" rt]
  by (auto simp: finish_decoder_def Let_def split: option.splits prod.splits if_splits)

lemma finish_from_mel_worked: "finish_from_mel rt s = Some (r, t) \<Longrightarrow> worked s t"
  by (auto simp: finish_from_mel_def split: option.splits prod.splits)

lemma finish_inference_worked:
  assumes "finish_inference rt s = Some (r, t)"
  shows "worked s t"
proof -
  obtain s1 where s1: "finish_frontend rt s = Some s1" using assms by (auto simp: finish_inference_def split: option.splits)
  obtain b s2 where s2: "ensure_encoder rt s1 = (b, s2)" by force
  have w: "worked s s2"
    using finish_frontend_worked [OF s1] ensure_encoder_worked [of s1 rt] s2 worked_trans by (metis snd_conv)
  have "worked s2 t"
  proof (cases "b \<and> fr_enc (st_front s2) \<noteq> None")
    case True
    then obtain q s3 where s3: "finish_encoder rt s2 = Some (q, s3)"
      using assms s1 s2 by (auto simp: finish_inference_def split: option.splits)
    have "t = s3 \<or> finish_decoder rt s3 = Some (r, t)"
      using assms s1 s2 s3 True by (auto simp: finish_inference_def split: option.splits)
    then show ?thesis
      using finish_encoder_worked [OF s3] finish_decoder_worked [of rt s3 r t] worked_trans by blast
  next
    case False
    then have "t = s2 \<or> finish_from_mel rt s2 = Some (r, t)"
      using assms s1 s2 by (auto simp: finish_inference_def split: bool.splits if_splits)
    then show ?thesis using finish_from_mel_worked [of rt s2 r t] by auto
  qed
  then show ?thesis using w worked_trans by blast
qed

lemma conclude_finish_during:
  assumes "in_finish s"
  shows "during (snd (conclude_finish out s)) \<and> lc_state (st_life (snd (conclude_finish out s))) \<in> {Completed, Failed}"
proof (cases out)
  case (Threw msg)
  then show ?thesis using fail_with_during [OF assms] by (simp add: conclude_finish_def)
next
  case (Inferred ok result)
  define d where "d = st_dec s"
  define s1 where "s1 = (note_inference_run s)
      \<lparr> st_dec := (if de_incremental d then d \<lparr> de_transcript := de_partial_text d \<rparr>
                   else d \<lparr> de_transcript := tr_text result, de_tokens := tr_tokens result \<rparr>),
        st_life := (st_life (note_inference_run s)) \<lparr> lc_total_samples_consumed := lc_total_samples_received (st_life s) \<rparr> \<rparr>"
  have "in_finish s1" using assms by (simp add: s1_def in_finish_def note_inference_run_def queue_within_bound_def)
  moreover have "ok \<Longrightarrow> snd (conclude_finish out s) = clear_error (set_state Completed (emit_final_and_completed s1))"
    using Inferred by (simp add: conclude_finish_def Let_def s1_def d_def note_inference_run_def)
  moreover have "\<not> ok \<Longrightarrow> snd (conclude_finish out s) =
      snd (fail_with St_backend_error ''incremental Mel inference reported failure'' (note_inference_run s))"
    using Inferred by (simp add: conclude_finish_def Let_def)
  ultimately show ?thesis
    using complete_during [of s1] fail_with_during [of "note_inference_run s" St_backend_error] assms
    by (cases ok) (auto simp: set_state_def)
qed

lemma finish_step:
  assumes "stream_finish rt s = Some (st, t)" "stream_inv s"
  shows "stream_inv t \<and> lc_state (st_life t) \<in>
    (if terminal (lc_state (st_life s)) then {lc_state (st_life s)} else {lc_state (st_life s), Completed, Failed})"
proof (rule guarded_step [OF assms(1) [unfolded stream_finish_def] assms(2)])
  fix u st1
  let ?s = "set_in_operation True s"
  assume b: "finish_body rt ?s = Some (st1, u)"
  have d: "during ?s" by (rule during_enter [OF assms(2)])
  have nf: "lc_state (st_life s) \<noteq> Finishing" using assms(2) by (simp add: stream_inv_def)
  show "during u \<and> lc_state (st_life u) \<in>
    (if terminal (lc_state (st_life s)) then {lc_state (st_life s)} else {lc_state (st_life s), Completed, Failed})"
  proof (cases "terminal (lc_state (st_life s))")
    case True
    then have "worked ?s u" using b nf by (auto simp: finish_body_def terminal_def split: stream_state.splits)
    then show ?thesis using during_worked [OF d] worked_life True by fastforce
  next
    case False
    have a: "finish_active rt ?s = Some (st1, u)"
      using b False nf by (cases "lc_state (st_life s)") (auto simp: finish_body_def terminal_def)
    obtain pending s1 where p: "(if de_incremental (st_dec ?s) \<and> ev_decoder_backpressured (st_ev ?s)
        then pump_incremental rt ?s else (St_ok, ?s)) = (pending, s1)" by force
    have w: "worked ?s s1" using p pump_incremental_worked [of ?s rt] by (auto split: if_splits)
    have ps: "pending \<in> {St_ok, St_backend_error, St_limit_exceeded}"
      using p pump_incremental_status [of rt ?s] by (auto split: if_splits)
    have d1: "during s1" "lc_state (st_life s1) = lc_state (st_life s)"
      using during_worked [OF d w] worked_life [OF w] by simp_all
    define s2 where "s2 = s1 \<lparr> st_ev := (st_ev s1) \<lparr> ev_finalizing_flush := True \<rparr> \<rparr>"
    have f2: "in_finish s2" "lc_last_status (st_life s2) \<notin> {St_busy, St_cancelled}"
      using d1 False
      by (auto simp: s2_def in_finish_def during_def stream_inv_def set_in_operation_def queue_within_bound_def
          event_bound_def terminal_event_headroom_def terminal_def split: if_splits)
    consider "pending = St_limit_exceeded" "u = s1"
      | "u = set_state Failed (emit_error s2 pending (lc_last_error (st_life s2)))"
      | "finish_ready rt (set_state Finishing s2) = Some (st1, u)"
      using a p by (auto simp: finish_active_def Let_def s2_def [symmetric] split: if_splits)
    then show ?thesis
    proof cases
      case 1
      then show ?thesis using d1 by simp
    next
      case 2
      have "worked s2 (emit_error s2 pending (lc_last_error (st_life s2)))" by (rule emit_error_worked)
      then have "during u" unfolding 2
        by (intro concluded in_finish_worked [OF f2(1)]) (use f2 in \<open>auto simp: terminal_def worked_def\<close>)
      then show ?thesis using 2 False by (simp add: set_state_def)
    next
      case 3
      let ?f = "set_state Finishing s2"
      have ff: "in_finish ?f" using f2 by simp
      consider "u = clear_error (set_state Completed (emit_final_and_completed
            (?f \<lparr> st_dec := (st_dec ?f) \<lparr> de_transcript := [], de_tokens := [] \<rparr>,
                  st_life := (st_life ?f) \<lparr> lc_total_samples_consumed := 0 \<rparr> \<rparr>)))"
        | "u = snd (fail_with St_backend_error ''no execution context / Mel frontend: cannot transcribe audio'' ?f)"
        | out v where "finish_inference rt ?f = Some (out, v)" "u = snd (conclude_finish out v)"
        using 3 by (auto simp: finish_ready_def Let_def split: if_splits)
      then show ?thesis
      proof cases
        case 1
        have "in_finish (?f \<lparr> st_dec := (st_dec ?f) \<lparr> de_transcript := [], de_tokens := [] \<rparr>,
                  st_life := (st_life ?f) \<lparr> lc_total_samples_consumed := 0 \<rparr> \<rparr>)"
          using ff by (simp add: in_finish_def queue_within_bound_def)
        then show ?thesis using complete_during 1 False by (simp add: set_state_def)
      next
        case 2
        then show ?thesis using fail_with_during [OF ff, of St_backend_error] False by simp
      next
        case (3 out v)
        have "in_finish v" by (rule in_finish_worked [OF ff finish_inference_worked [OF 3(1)]])
        then show ?thesis using conclude_finish_during [of v out] 3(2) False by auto
      qed
    qed
  qed
qed

section \<open>Reachable streams\<close>

lemma poll_step:
  "stream_inv s \<Longrightarrow> stream_poll_event s = Some (ev, t) \<Longrightarrow> stream_inv t \<and> lc_state (st_life t) = lc_state (st_life s)"
  by (auto simp: stream_poll_event_def stream_inv_def queue_within_bound_def split: list.splits)

lemma set_capacity_step:
  "stream_inv s \<Longrightarrow> stream_inv (snd (stream_set_event_capacity s (int n))) \<and>
    lc_state (st_life (snd (stream_set_event_capacity s (int n)))) = lc_state (st_life s)"
  by (auto simp: stream_set_event_capacity_def stream_inv_def queue_within_bound_def event_bound_def
      max_events_default_def terminal_event_headroom_def)

lemma apply_op_step:
  assumes "apply_op rt op s = Some (st, t)" "stream_inv s"
  shows "stream_inv t \<and> lc_state (st_life t) \<in> next_states op (lc_state (st_life s))"
proof (cases op)
  case (FeedPcm16 input n)
  then show ?thesis
    using feed_step [of rt "convert_pcm16 rt" input n s st t] assms by (simp only: apply_op.simps stream_feed_pcm16_def next_states.simps converters_ok)
next
  case (FeedF32 input n)
  then show ?thesis
    using feed_step [of rt "convert_f32 rt" input n s st t] assms by (simp only: apply_op.simps stream_feed_f32_def next_states.simps converters_ok)
next
  case Finish
  then show ?thesis using finish_step [of rt s st t] assms by (simp only: apply_op.simps next_states.simps)
next
  case Reset
  then show ?thesis using reset_step [of s st t] assms by (simp only: apply_op.simps next_states.simps)
next
  case Cancel
  then show ?thesis using cancel_step [of s st t] assms by (simp only: apply_op.simps next_states.simps)
next
  case Warmup
  then show ?thesis using warmup_step [of rt s st t] assms by (simp only: apply_op.simps next_states.simps)
next
  case PollEvent
  then have "t = (case stream_poll_event s of None \<Rightarrow> s | Some (_, s1) \<Rightarrow> s1)" using assms(1) by simp
  then show ?thesis using PollEvent poll_step [OF assms(2)] assms(2) by (auto split: option.splits)
next
  case (SetCapacity n)
  then show ?thesis using set_capacity_step [OF assms(2), of n] assms(1) by auto
qed

inductive reachable :: "('f, 'k, 'o, 'a, 'c) runtime \<Rightarrow> ('f, 'k, 'o, 'a, 'c) stream \<Rightarrow> bool"
  for rt :: "('f, 'k, 'o, 'a, 'c) runtime" where
  created: "stream_create env model made params = Some s \<Longrightarrow> reachable rt s"
| borrowed: "stream_create_from_context env model ctx params = Some s \<Longrightarrow> reachable rt s"
| step: "reachable rt s \<Longrightarrow> apply_op rt op s = Some (st, t) \<Longrightarrow> reachable rt t"

declare reachable.intros [intro]

lemma allocated_inv:
  "allocate_stream_state env model params = Some s \<Longrightarrow> stream_inv s \<and> lc_state (st_life s) = Created"
  by (auto simp: allocate_stream_state_def Let_def new_defs stream_inv_def queue_within_bound_def event_bound_def
      max_events_default_def split: if_splits)

lemma stream_create_inv: "stream_create env model made params = Some s \<Longrightarrow> stream_inv s"
  by (auto simp: stream_create_def stream_inv_def set_error_def queue_within_bound_def terminal_def
      split: option.splits if_splits dest!: allocated_inv)

lemma stream_borrow_inv: "stream_create_from_context env model ctx params = Some s \<Longrightarrow> stream_inv s"
proof -
  assume a: "stream_create_from_context env model ctx params = Some s"
  then obtain s0 where s0: "allocate_stream_state env model params = Some s0"
      "stream_reset (s0 \<lparr> st_ctx := ctx, st_owns_context := False \<rparr>) = Some (St_ok, s)"
    by (auto simp: stream_create_from_context_def split: if_splits option.splits prod.splits status.splits)
  have "stream_inv (s0 \<lparr> st_ctx := ctx, st_owns_context := False \<rparr>)"
    using allocated_inv [OF s0(1)] by (auto simp: stream_inv_def queue_within_bound_def)
  from reset_step [OF s0(2) this] show "stream_inv s" by simp
qed

lemma reachable_inv: "reachable rt s \<Longrightarrow> stream_inv s"
  by (induction rule: reachable.induct) (auto intro: stream_create_inv stream_borrow_inv dest: apply_op_step)

text \<open>Inputs for the witnesses: a lifecycle-only stream, and the steps that need no context.\<close>

definition plain_env :: stream_env where
  "plain_env = \<lparr> en_decoder = None, en_capture = None, en_stream_alloc = True \<rparr>"

definition plain_stream :: "(int, unit, unit, unit, unit) stream" where
  "plain_stream = the (stream_create plain_env None None default_params)"

lemma plain_stream_created: "stream_create plain_env None None default_params = Some plain_stream"
  by (simp add: plain_stream_def stream_create_def allocate_stream_state_def plain_env_def stream_params_check_def
      default_params_def Let_def)

lemma plain_reachable: "reachable rt plain_stream"
  using plain_stream_created by auto

lemma plain_stream_simps [simp]:
  "lc_state (st_life plain_stream) = Created" "lc_in_operation (st_life plain_stream) = False"
  "ev_queue (st_ev plain_stream) = []" "ev_max_events (st_ev plain_stream) = 4096"
  "lc_cancelled_emitted (st_life plain_stream) = False" "ev_finalizing_flush (st_ev plain_stream) = False"
  "lc_total_samples_received (st_life plain_stream) = 0" "st_params plain_stream = default_params"
  "st_ctx plain_stream = None" "st_front plain_stream = new_frontend" "fr_mel_fe (st_front plain_stream) = None"
  "ev_decoder_backpressured (st_ev plain_stream) = False"
  by (simp_all add: plain_stream_def stream_create_def allocate_stream_state_def plain_env_def stream_params_check_def
      default_params_def Let_def new_defs max_events_default_def)



text \<open>C21: The documented transition table holds for every operation on every reachable stream: a feed moves
\<open>created\<close> at most to \<open>running\<close> and no other state anywhere, finish leaves \<open>created\<close> and
\<open>running\<close> for \<open>completed\<close> or \<open>failed\<close> or stays (backpressure), cancel always ends a live stream as
\<open>cancelled\<close>, terminal states are left only by reset, which always gives \<open>created\<close>.\<close>

theorem lifecycle_transitions:
  assumes "reachable rt s" and "apply_op rt op s = Some (st, t)"
  shows "lc_state (st_life t) \<in> next_states op (lc_state (st_life s))"
  using apply_op_step [OF assms(2) reachable_inv [OF assms(1)]] by simp

lemma plain_cancel:
  "\<exists>t. apply_op rt Cancel plain_stream = Some (St_ok, t) \<and> lc_state (st_life t) = Cancelled"
  by (simp add: stream_cancel_def guarded_def cancel_body_def set_state_def)

lemma lifecycle_transitions_witness:
  "\<exists>t. apply_op (undefined :: (int, unit, unit, unit, unit) runtime) Cancel plain_stream = Some (St_ok, t) \<and>
     lc_state (st_life t) \<in> next_states (Cancel :: int stream_op) Created"
proof -
  obtain t where t: "apply_op (undefined :: (int, unit, unit, unit, unit) runtime) Cancel plain_stream = Some (St_ok, t)"
    using plain_cancel by blast
  from lifecycle_transitions [OF plain_reachable t] t show ?thesis by auto
qed

text \<open>A call made while another operation of the same stream is in progress (a reentrant call out of finish)
returns \<open>busy\<close> and changes nothing at all, whichever of the six mutating entry points it is; in particular a
cancel cannot turn an in-flight finish into a cancelled stream.\<close>

theorem busy_is_inert:
  assumes "lc_in_operation (st_life s)"
  shows "stream_feed_pcm16 rt input16 n s = Some (St_busy, s) \<and> stream_feed_f32 rt input32 n s = Some (St_busy, s) \<and>
    stream_finish rt s = Some (St_busy, s) \<and> stream_reset s = Some (St_busy, s) \<and>
    stream_cancel s = Some (St_busy, s) \<and> stream_warmup rt s = Some (St_busy, s)"
  using assms
  by (simp_all add: stream_feed_pcm16_def stream_feed_f32_def feed_common_def stream_finish_def stream_reset_def
      stream_cancel_def stream_warmup_def guarded_def)

lemma busy_is_inert_witness:
  "stream_cancel (set_in_operation True plain_stream) = Some (St_busy, set_in_operation True plain_stream)"
  using busy_is_inert [of "set_in_operation True plain_stream"] by simp

text \<open>The documented feed statuses \<open>would_block\<close> and \<open>cancelled\<close> are never reported: on every reachable
stream the projection of the last status is ok, queue_full or failed (a rejected reentrant call records no status,
and a cancelled stream reports ok).\<close>

theorem feed_status_never_would_block:
  assumes "reachable rt s"
  shows "stream_last_feed_status (Some s) \<notin> {Would_block, Feed_cancelled}"
  using reachable_inv [OF assms]
  by (auto simp: stream_inv_def stream_last_feed_status_def split: status.splits if_splits)

lemma feed_status_never_would_block_witness:
  "\<exists>t. apply_op (undefined :: (int, unit, unit, unit, unit) runtime) Cancel plain_stream = Some (St_ok, t) \<and>
     lc_state (st_life t) = Cancelled \<and> stream_last_feed_status (Some t) \<notin> {Would_block, Feed_cancelled}"
proof -
  obtain t where t: "apply_op (undefined :: (int, unit, unit, unit, unit) runtime) Cancel plain_stream = Some (St_ok, t)"
      "lc_state (st_life t) = Cancelled"
    using plain_cancel by blast
  have "reachable (undefined :: (int, unit, unit, unit, unit) runtime) t"
    by (rule reachable.step [OF plain_reachable t(1)])
  from feed_status_never_would_block [OF this] t show ?thesis by auto
qed

section \<open>Cancel and reset\<close>

text \<open>C22: Cancelling a live reachable stream always succeeds and appends exactly one \<open>cancelled\<close> event to the queue,
behind everything already queued and even when the ordinary bound is reached; the stream is then \<open>cancelled\<close>, and
cancelling it again changes nothing.\<close>

theorem cancel_delivers_once:
  assumes "reachable rt s" and "\<not> terminal (lc_state (st_life s))"
  shows "\<exists>t ev. stream_cancel s = Some (St_ok, t) \<and> lc_state (st_life t) = Cancelled \<and>
    ev_type ev = Ev_cancelled \<and> ev_queue (st_ev t) = ev_queue (st_ev s) @ [ev] \<and>
    stream_cancel t = Some (St_ok, t)"
proof -
  have i: "stream_inv s" by (rule reachable_inv [OF assms(1)])
  have n: "\<not> lc_in_operation (st_life s)" "\<not> lc_cancelled_emitted (st_life s)" "lc_state (st_life s) \<noteq> Finishing"
    "int (length (ev_queue (st_ev s))) \<le> ev_max_events (st_ev s)"
    using i assms(2) by (auto simp: stream_inv_def terminal_def queue_within_bound_def event_bound_def split: if_splits)
  define c where "c = (set_in_operation True s) \<lparr> st_life := (st_life (set_in_operation True s)) \<lparr> lc_cancel_requested := True \<rparr> \<rparr>"
  define v where "v = c \<lparr> st_ev := (st_ev c) \<lparr> ev_finalizing_flush := True \<rparr> \<rparr>"
  define ev where "ev = (blank_event Ev_cancelled)
      \<lparr> ev_t_audio_ms := samples_to_ms (lc_total_samples_received (st_life c)) (sp_sample_rate (st_params c)) \<rparr>"
  have room: "int (length (ev_queue (st_ev v))) < event_bound (st_ev v)"
    using n(4) by (simp add: v_def c_def event_bound_def terminal_event_headroom_def)
  have "\<not> lc_cancelled_emitted (st_life c)" using n(2) by (simp add: c_def set_in_operation_def)
  then have e: "emit_cancelled c = (let s1 = v \<lparr> st_ev := enqueue ev (st_ev v) \<rparr>
      in s1 \<lparr> st_life := (st_life s1) \<lparr> lc_cancelled_emitted := True \<rparr> \<rparr>)"
    using push_event_accepts [OF room, of ev] by (simp add: emit_cancelled_def Let_def v_def ev_def)
  have b: "cancel_body (set_in_operation True s) = (St_ok, clear_error (set_state Cancelled (emit_cancelled c)))"
    using assms(2) n(3) by (cases "lc_state (st_life s)") (auto simp: cancel_body_def c_def terminal_def)
  define t where "t = set_in_operation False (clear_error (set_state Cancelled (emit_cancelled c)))"
  have t: "stream_cancel s = Some (St_ok, t)" using n(1) b by (simp add: stream_cancel_def guarded_def t_def)
  have st: "lc_state (st_life t) = Cancelled" "\<not> lc_in_operation (st_life t)"
    by (simp_all add: t_def set_state_def)
  have "ev_queue (st_ev (emit_cancelled c)) = ev_queue (st_ev s) @ [ev]"
    unfolding e by (simp add: Let_def v_def c_def)
  then have q: "ev_queue (st_ev t) = ev_queue (st_ev s) @ [ev]"
    by (simp add: t_def set_state_def)
  have "set_in_operation False (set_in_operation True t) = t"
    using st(2) by (simp add: set_in_operation_def)
  then have "stream_cancel t = Some (St_ok, t)"
    using st by (simp add: stream_cancel_def guarded_def cancel_body_def)
  moreover have "ev_type ev = Ev_cancelled" by (simp add: ev_def blank_event_def)
  ultimately show ?thesis using t st q by blast
qed

lemma cancel_delivers_once_witness:
  "\<exists>t ev. stream_cancel plain_stream = Some (St_ok, t) \<and> ev_type ev = Ev_cancelled \<and> ev_queue (st_ev t) = [ev]"
  using cancel_delivers_once [OF plain_reachable] by (force simp: terminal_def)

lemma reset_lifecycle_eq:
  "(reset_lifecycle (l \<lparr> lc_in_operation := True \<rparr>))
     \<lparr> lc_last_status := St_ok, lc_last_error := [], lc_in_operation := False \<rparr>
   = new_lifecycle \<lparr> lc_warmup_complete := lc_warmup_complete l \<rparr>"
  by (cases l) (simp add: reset_lifecycle_def new_lifecycle_def)

lemma mel_frontend_reset_eq:
  "mel_frontend_reset fe = (the (mel_frontend_create (Some (fe_hann fe)) (Some (fe_filters fe)) True))
     \<lparr> fe_retain_history := fe_retain_history fe \<rparr>"
  by (cases fe) (simp add: mel_frontend_reset_def mel_frontend_create_def)

definition fresh_encoder :: "('m, 'k, 'o) enc_stream \<Rightarrow> ('m, 'k, 'o) enc_stream" where
  "fresh_encoder enc =
    (let new = encoder_stream_create (ek_device (es_kv enc)) (ek_out_ring (es_kv enc))
     in new \<lparr> es_kv := (es_kv new) \<lparr> ek_reusable := ek_reusable (es_kv enc) \<rparr> \<rparr>)"

lemma encoder_kv_reset_eq:
  "encoder_kv_reset kv = (encoder_kv_fresh (ek_device kv) (ek_out_ring kv)) \<lparr> ek_reusable := ek_reusable kv \<rparr>"
  by (cases kv) (simp add: encoder_kv_reset_def encoder_kv_fresh_def)

lemma encoder_stream_reset_eq: "encoder_stream_reset enc = fresh_encoder enc"
  by (cases enc) (simp add: encoder_stream_reset_def encoder_stream_create_def fresh_encoder_def encoder_kv_reset_eq)

lemma reset_frontend_eq:
  "reset_frontend f = new_frontend
     \<lparr> fr_mel_fe := map_option mel_frontend_reset (fr_mel_fe f),
       fr_enc := map_option encoder_stream_reset (fr_enc f) \<rparr>"
  by (cases f) (simp add: reset_frontend_def new_frontend_def)

lemma reset_decoder_eq:
  "reset_decoder d = new_decoder \<lparr> de_incremental := de_incremental d, de_prompt_ids := de_prompt_ids d \<rparr>"
  by (cases d) (simp add: reset_decoder_def new_decoder_def)

lemma reset_events_eq: "reset_events e = new_events \<lparr> ev_max_events := ev_max_events e \<rparr>"
  by (cases e) (simp add: reset_events_def new_events_def)

lemma reset_diagnostics_eq:
  "reset_diagnostics g = new_diagnostics \<lparr> dg_capture_output_sha := dg_capture_output_sha g \<rparr>"
  by (cases g) (simp add: reset_diagnostics_def new_diagnostics_def)

lemma reset_shape:
  "set_in_operation False (reset_body (set_in_operation True s)) = s
    \<lparr> st_ctx := map_option (\<lambda>ctx. ctx \<lparr> sx_dec := decoder_reset_incremental (sx_dec ctx) \<rparr>) (st_ctx s),
      st_life := (reset_lifecycle ((st_life s) \<lparr> lc_in_operation := True \<rparr>))
        \<lparr> lc_last_status := St_ok, lc_last_error := [], lc_in_operation := False \<rparr>,
      st_front := reset_frontend (st_front s), st_dec := reset_decoder (st_dec s),
      st_ev := reset_events (st_ev s), st_diag := reset_diagnostics (st_diag s) \<rparr>"
  by (cases s) (simp add: reset_body_def clear_error_def set_in_operation_def)

text \<open>C23: Reset forgets nothing: the stream it leaves is, field by field, the one creation makes, except for what it
is documented to keep (context, model, parameters, the queue bound, the decoder and capture modes chosen at
creation, the cached prompt and warmup flag, and the lazily created frontend and encoder, themselves back in the
state of newly created ones over the same tables and device memory).\<close>

theorem reset_restores_creation:
  assumes "\<not> lc_in_operation (st_life s)"
  shows "stream_reset s = Some (St_ok,
    s \<lparr> st_ctx := map_option (\<lambda>ctx. ctx \<lparr> sx_dec := decoder_reset_incremental (sx_dec ctx) \<rparr>) (st_ctx s),
        st_life := new_lifecycle \<lparr> lc_warmup_complete := lc_warmup_complete (st_life s) \<rparr>,
        st_front := new_frontend
          \<lparr> fr_mel_fe := map_option (\<lambda>fe. (the (mel_frontend_create (Some (fe_hann fe)) (Some (fe_filters fe)) True))
                                       \<lparr> fe_retain_history := fe_retain_history fe \<rparr>) (fr_mel_fe (st_front s)),
            fr_enc := map_option fresh_encoder (fr_enc (st_front s)) \<rparr>,
        st_dec := new_decoder \<lparr> de_incremental := de_incremental (st_dec s), de_prompt_ids := de_prompt_ids (st_dec s) \<rparr>,
        st_ev := new_events \<lparr> ev_max_events := ev_max_events (st_ev s) \<rparr>,
        st_diag := new_diagnostics \<lparr> dg_capture_output_sha := dg_capture_output_sha (st_diag s) \<rparr> \<rparr>)"
proof -
  have fe: "mel_frontend_reset = (\<lambda>fe :: 'a frontend. (the (mel_frontend_create (Some (fe_hann fe)) (Some (fe_filters fe)) True))
      \<lparr> fe_retain_history := fe_retain_history fe \<rparr>)"
    by (rule ext) (rule mel_frontend_reset_eq)
  have enc: "encoder_stream_reset = (fresh_encoder :: ('a list, 'b, 'c) enc_stream \<Rightarrow> _)"
    by (rule ext) (rule encoder_stream_reset_eq)
  have r: "stream_reset s = Some (St_ok, set_in_operation False (reset_body (set_in_operation True s)))"
    using assms by (simp only: stream_reset_def guarded_def if_False option.map prod.case)
  show ?thesis
    unfolding r reset_shape reset_lifecycle_eq reset_frontend_eq reset_decoder_eq reset_events_eq
      reset_diagnostics_eq fe enc by (rule refl)
qed

lemma reset_restores_creation_witness: "\<exists>t. stream_reset plain_stream = Some (St_ok, t) \<and> st_front t = new_frontend"
proof -
  have n: "new_frontend \<lparr> fr_mel_fe := None, fr_enc := None \<rparr> = new_frontend" by (simp add: new_frontend_def)
  have e: "fr_enc new_frontend = None" "fr_mel_fe new_frontend = None" by (simp_all add: new_frontend_def)
  show ?thesis
    using reset_restores_creation [of plain_stream] by (simp add: n e)
qed

end
