(* ===== verification/Telemetry.thy ===== *)
theory Telemetry
  imports StreamFrontend
begin

text \<open>The backlog telemetry of \<open>src/src/voxtral-stream-telemetry.cpp\<close> and the bounded reservoir of
\<open>voxtral-stream-internal.h\<close>: the eligibility ring of audio groups, the per-stage backlog samples,
percentiles and the least-squares slope.  \<open>double\<close> values are exact rationals; the clock is a
parameter (the current audio availability is a field).  Proved: the reservoir keeps every sample up to
its capacity and counts exactly, percentiles are ordered and within the samples, the slope of samples on
a line is the slope of the line, the ring answers exactly for the groups of its window.\<close>

unbundle bit_operations_syntax

section \<open>The reservoir\<close>

definition backlog_samples :: nat where
  "backlog_samples = 32768"

record stage_series =
  sb_values :: "rat list"
  sb_audio_seconds :: "rat list"
  sb_seen :: nat
  sb_deadline_misses :: nat
  sb_final_ms :: rat

text \<open>\<open>stored\<close> is the length of the two lists.\<close>

definition series_reset :: stage_series where
  "series_reset = \<lparr> sb_values = [], sb_audio_seconds = [], sb_seen = 0, sb_deadline_misses = 0, sb_final_ms = 0 \<rparr>"

definition reservoir_slot :: "nat \<Rightarrow> nat" where
  "reservoir_slot seen =
    (let mixed = (of_nat seen :: 64 word) * 0x9e3779b97f4a7c15
     in unat (mixed XOR drop_bit 29 mixed) mod seen)"

definition series_add :: "stage_series \<Rightarrow> rat \<Rightarrow> rat \<Rightarrow> stage_series" where
  "series_add b audio_s backlog_ms =
    (let b1 = b \<lparr> sb_seen := sb_seen b + 1, sb_final_ms := backlog_ms,
                  sb_deadline_misses := sb_deadline_misses b + (if 0 < backlog_ms then 1 else 0) \<rparr>
     in if length (sb_values b1) < backlog_samples
        then b1 \<lparr> sb_values := sb_values b1 @ [backlog_ms], sb_audio_seconds := sb_audio_seconds b1 @ [audio_s] \<rparr>
        else let slot = reservoir_slot (sb_seen b1)
             in if slot < backlog_samples
                then b1 \<lparr> sb_values := (sb_values b1)[slot := backlog_ms],
                          sb_audio_seconds := (sb_audio_seconds b1)[slot := audio_s] \<rparr>
                else b1)"

section \<open>Percentiles and slope\<close>

definition percentile :: "rat list \<Rightarrow> rat \<Rightarrow> rat" where
  "percentile vs p =
    (let x = p * of_nat (length vs - 1);
         lo = nat \<lfloor>x\<rfloor>;
         hi = min (lo + 1) (length vs - 1)
     in vs ! lo + (vs ! hi - vs ! lo) * (x - of_nat lo))"

text \<open>The sums of the regression loop: of x, y, x squared and x times y.\<close>

fun regression_sums :: "(rat \<times> rat) list \<Rightarrow> rat \<times> rat \<times> rat \<times> rat \<Rightarrow> rat \<times> rat \<times> rat \<times> rat" where
  "regression_sums [] acc = acc"
| "regression_sums ((x, y) # points) (sx, sy, sxx, sxy) =
    regression_sums points (sx + x, sy + y, sxx + x * x, sxy + x * y)"

definition backlog_slope :: "stage_series \<Rightarrow> rat" where
  "backlog_slope b =
    (if length (sb_values b) \<le> 1 then 0
     else let (sx, sy, sxx, sxy) = regression_sums (zip (sb_audio_seconds b) (sb_values b)) (0, 0, 0, 0);
              n = of_nat (length (sb_values b));
              denominator = n * sxx - sx * sx
          in if 0 < denominator then (n * sxy - sx * sy) / denominator else 0)"

record backlog_metrics =
  bm_count :: nat
  bm_p50 :: rat
  bm_p95 :: rat
  bm_p99 :: rat
  bm_max :: rat
  bm_final :: rat
  bm_slope :: rat
  bm_deadline_misses :: nat
  bm_deadline_miss_rate :: rat

definition backlog_metrics_from :: "stage_series \<Rightarrow> backlog_metrics" where
  "backlog_metrics_from b =
    (let out = \<lparr> bm_count = sb_seen b, bm_p50 = 0, bm_p95 = 0, bm_p99 = 0, bm_max = 0, bm_final = sb_final_ms b,
                 bm_slope = 0, bm_deadline_misses = sb_deadline_misses b,
                 bm_deadline_miss_rate = (if sb_seen b \<noteq> 0 then of_nat (sb_deadline_misses b) / of_nat (sb_seen b) else 0) \<rparr>
     in if sb_values b = [] then out
        else let vs = sort (sb_values b)
             in out \<lparr> bm_p50 := percentile vs (50 / 100), bm_p95 := percentile vs (95 / 100),
                      bm_p99 := percentile vs (99 / 100), bm_max := last vs, bm_slope := backlog_slope b \<rparr>)"

section \<open>The eligibility ring and the samples\<close>

record telemetry =
  tm_encoder_backlog :: stage_series
  tm_adapter_backlog :: stage_series
  tm_decoder_backlog :: stage_series
  tm_availability_ms :: rat
  tm_absolute_group :: "int list"
  tm_arrival_ms :: "rat list"

definition note_group_eligibility :: "telemetry \<Rightarrow> int \<Rightarrow> int \<Rightarrow> int \<Rightarrow> telemetry" where
  "note_group_eligibility t start count capacity =
    (if capacity \<le> 0 \<or> count \<le> 0 then t
     else let t1 = (if int (length (tm_absolute_group t)) \<noteq> capacity
                    then t \<lparr> tm_absolute_group := replicate (nat capacity) (- 1),
                             tm_arrival_ms := replicate (nat capacity) 0 \<rparr>
                    else t)
          in fold (\<lambda>i t. let absolute = start + i;
                             slot = nat (absolute mod capacity)
                         in t \<lparr> tm_absolute_group := (tm_absolute_group t)[slot := absolute],
                                tm_arrival_ms := (tm_arrival_ms t)[slot := tm_availability_ms t] \<rparr>)
                  [0..count - 1] t1)"

definition group_eligibility_ms :: "telemetry \<Rightarrow> int \<Rightarrow> rat" where
  "group_eligibility_ms t absolute =
    (if absolute < 0 \<or> tm_absolute_group t = [] then - 1
     else let slot = nat (absolute mod int (length (tm_absolute_group t)))
          in if tm_absolute_group t ! slot = absolute then tm_arrival_ms t ! slot else - 1)"

text \<open>The groups queued before each stage.\<close>

definition encoder_queued_groups :: "int \<Rightarrow> int \<Rightarrow> int" where
  "encoder_queued_groups stable_mel output_frames =
    (let realizable_frames = (if stable_mel < 2 then 0 else (stable_mel - 2) div 2 + 1)
     in max 0 (realizable_frames div 4 - output_frames div 4))"

definition adapter_queued_groups :: "int \<Rightarrow> decoder_part \<Rightarrow> int" where
  "adapter_queued_groups output_frames d = max 0 (output_frames div 4 - de_adapter_groups_committed d)"

definition decoder_queued_groups :: "decoder_part \<Rightarrow> int" where
  "decoder_queued_groups d =
    (let prompt_prefix = int (length (de_prompt_ids d)) - 1;
         decoder_ready = (if prompt_prefix < de_adapter_groups_committed d
                          then de_adapter_groups_committed d - prompt_prefix else 0);
         decoder_done = (if de_prefill_done d then max 0 (de_position d - prompt_prefix) else 0)
     in max 0 (decoder_ready - decoder_done))"

definition sample_stage_backlogs :: "('f, 'k, 'o, 'a, 'c) stream \<Rightarrow> telemetry \<Rightarrow> telemetry" where
  "sample_stage_backlogs s t =
    (case (fr_enc (st_front s), fr_mel_fe (st_front s)) of
       (Some enc, Some fe) \<Rightarrow>
         if \<not> de_incremental (st_dec s) \<or> lc_total_samples_received (st_life s) = 0 then t
         else let group_ms = 1280 * 1000 / 16000;
                  audio_s = of_int (lc_total_samples_received (st_life s)) / 16000;
                  out = encoder_output_frames enc
              in t \<lparr> tm_encoder_backlog := series_add (tm_encoder_backlog t) audio_s
                       (of_int (encoder_queued_groups (fe_next_frame fe) out) * group_ms),
                     tm_adapter_backlog := series_add (tm_adapter_backlog t) audio_s
                       (of_int (adapter_queued_groups out (st_dec s)) * group_ms),
                     tm_decoder_backlog := series_add (tm_decoder_backlog t) audio_s
                       (of_int (decoder_queued_groups (st_dec s)) * group_ms) \<rparr>
     | _ \<Rightarrow> t)"

text \<open>The public metrics: the largest final backlog and slope of the three stages.\<close>

definition public_backlog :: "telemetry \<Rightarrow> rat \<times> rat" where
  "public_backlog t =
    (max (max (sb_final_ms (tm_encoder_backlog t)) (sb_final_ms (tm_adapter_backlog t)))
         (sb_final_ms (tm_decoder_backlog t)),
     max (max (backlog_slope (tm_encoder_backlog t)) (backlog_slope (tm_adapter_backlog t)))
         (backlog_slope (tm_decoder_backlog t)))"

section \<open>The reservoir keeps what it can\<close>

definition series_of :: "(rat \<times> rat) list \<Rightarrow> stage_series" where
  "series_of samples = fold (\<lambda>(audio_s, ms) b. series_add b audio_s ms) samples series_reset"

definition series_good :: "(rat \<times> rat) list \<Rightarrow> stage_series \<Rightarrow> bool" where
  "series_good samples b \<longleftrightarrow>
    sb_seen b = length samples \<and> sb_deadline_misses b = length (List.filter (\<lambda>(a, ms). 0 < ms) samples) \<and>
    length (sb_values b) = min (length samples) backlog_samples \<and>
    length (sb_audio_seconds b) = length (sb_values b) \<and>
    set (zip (sb_audio_seconds b) (sb_values b)) \<subseteq> set samples \<and>
    (length samples \<le> backlog_samples \<longrightarrow> zip (sb_audio_seconds b) (sb_values b) = samples)"

lemma series_add_good:
  assumes "series_good samples b"
  shows "series_good (samples @ [(a, ms)]) (series_add b a ms)"
proof (cases "length (sb_values b) < backlog_samples")
  case True
  then show ?thesis using assms by (auto simp: series_good_def series_add_def Let_def min_def split: if_splits)
next
  case False
  have e: "zip ((sb_audio_seconds b)[i := a]) ((sb_values b)[i := ms]) = (zip (sb_audio_seconds b) (sb_values b))[i := (a, ms)]"
    for i by (simp add: update_zip)
  have "set ((zip (sb_audio_seconds b) (sb_values b))[i := (a, ms)]) \<subseteq> insert (a, ms) (set samples)" for i
    using assms set_update_subset_insert [of "zip (sb_audio_seconds b) (sb_values b)" i "(a, ms)"]
    by (auto simp: series_good_def)
  then show ?thesis using assms False
    by (auto simp: series_good_def series_add_def Let_def min_def e split: if_splits)
qed

lemma series_of_good: "series_good samples (series_of samples)"
proof (induction samples rule: rev_induct)
  case Nil
  then show ?case by (simp add: series_of_def series_good_def series_reset_def)
next
  case (snoc p samples)
  then show ?case using series_add_good [OF snoc, of "fst p" "snd p"] by (simp add: series_of_def split_beta)
qed

section \<open>Percentiles\<close>

lemma percentile_parts:
  fixes p :: rat
  assumes "0 \<le> p" "p \<le> 1" "xs \<noteq> []"
  defines "x \<equiv> p * of_nat (length xs - 1)"
  shows "0 \<le> x - of_nat (nat \<lfloor>x\<rfloor>)" "x - of_nat (nat \<lfloor>x\<rfloor>) < 1" "nat \<lfloor>x\<rfloor> \<le> length xs - 1"
proof -
  have x: "0 \<le> x" "x \<le> of_nat (length xs - 1)"
    using assms(1,2) by (simp_all add: x_def mult_left_le_one_le)
  then have f: "rat_of_nat (nat \<lfloor>x\<rfloor>) = of_int \<lfloor>x\<rfloor>" by simp
  show "0 \<le> x - of_nat (nat \<lfloor>x\<rfloor>)" unfolding f by linarith
  show "x - of_nat (nat \<lfloor>x\<rfloor>) < 1" unfolding f by linarith
  show "nat \<lfloor>x\<rfloor> \<le> length xs - 1" using x(2) by (simp add: nat_le_iff floor_le_iff)
qed

lemma percentile_between:
  fixes xs :: "rat list"
  assumes "0 \<le> p" "p \<le> 1" "xs \<noteq> []" "sorted xs"
  defines "lo \<equiv> nat \<lfloor>p * of_nat (length xs - 1)\<rfloor>"
  shows "xs ! lo \<le> percentile xs p" "percentile xs p \<le> xs ! min (lo + 1) (length xs - 1)"
proof -
  note q = percentile_parts [OF assms(1-3), folded lo_def]
  have i: "lo < length xs" "min (lo + 1) (length xs - 1) < length xs" "lo \<le> min (lo + 1) (length xs - 1)"
    using q(3) length_greater_0_conv [of xs] assms(3) by linarith+
  let ?d = "xs ! min (lo + 1) (length xs - 1) - xs ! lo"
  have d: "0 \<le> ?d" using sorted_nth_mono [OF assms(4) i(3,2)] by simp
  have f: "percentile xs p = xs ! lo + ?d * (p * of_nat (length xs - 1) - of_nat lo)"
    by (simp add: percentile_def Let_def lo_def)
  show "xs ! lo \<le> percentile xs p" unfolding f using d q(1) by simp
  have "?d * (p * of_nat (length xs - 1) - of_nat lo) \<le> ?d * 1"
    by (rule mult_left_mono) (use d q(2) in simp_all)
  then show "percentile xs p \<le> xs ! min (lo + 1) (length xs - 1)" unfolding f by simp
qed

lemma percentile_mono:
  fixes xs :: "rat list"
  assumes "0 \<le> p" "p \<le> q" "q \<le> 1" "xs \<noteq> []" "sorted xs"
  shows "percentile xs p \<le> percentile xs q"
proof -
  define x y where "x = p * of_nat (length xs - 1)" and "y = q * of_nat (length xs - 1)"
  have xy: "x \<le> y" using assms(2) by (simp add: x_def y_def mult_right_mono)
  have p1: "p \<le> 1" and q0: "0 \<le> q" using assms by linarith+
  note bp = percentile_between [OF assms(1) p1 assms(4,5), folded x_def]
  note bq = percentile_between [OF q0 assms(3-5), folded y_def]
  have le: "nat \<lfloor>x\<rfloor> \<le> nat \<lfloor>y\<rfloor>" using xy by (simp add: floor_mono nat_mono)
  show ?thesis
  proof (cases "nat \<lfloor>x\<rfloor> = nat \<lfloor>y\<rfloor>")
    case True
    let ?lo = "nat \<lfloor>y\<rfloor>" and ?hi = "min (nat \<lfloor>y\<rfloor> + 1) (length xs - 1)"
    have "?lo \<le> length xs - 1" using percentile_parts(3) [OF q0 assms(3,4)] by (simp add: y_def)
    moreover have "0 < length xs" using assms(4) by simp
    ultimately have "?lo \<le> ?hi" "?hi < length xs" by linarith+
    then have "xs ! ?lo \<le> xs ! ?hi" by (rule sorted_nth_mono [OF assms(5)])
    then have "(xs ! ?hi - xs ! ?lo) * (x - of_nat ?lo) \<le> (xs ! ?hi - xs ! ?lo) * (y - of_nat ?lo)"
      using xy by (intro mult_left_mono) simp_all
    then show ?thesis using True unfolding percentile_def Let_def x_def [symmetric] y_def [symmetric] by simp
  next
    case False
    have l: "nat \<lfloor>y\<rfloor> \<le> length xs - 1" using percentile_parts(3) [OF q0 assms(3,4)] by (simp add: y_def)
    have "min (nat \<lfloor>x\<rfloor> + 1) (length xs - 1) \<le> nat \<lfloor>y\<rfloor>" using False le by simp
    moreover have "nat \<lfloor>y\<rfloor> < length xs" using l assms(4) by (cases xs) simp_all
    ultimately have "xs ! min (nat \<lfloor>x\<rfloor> + 1) (length xs - 1) \<le> xs ! nat \<lfloor>y\<rfloor>" by (rule sorted_nth_mono [OF assms(5)])
    then show ?thesis using bp(2) bq(1) by linarith
  qed
qed

lemma percentile_ends:
  assumes "xs \<noteq> []"
  shows "percentile xs 0 = hd xs" "percentile xs 1 = last xs"
  using assms by (simp_all add: percentile_def Let_def hd_conv_nth last_conv_nth)

section \<open>The slope\<close>

lemma regression_sums_eq:
  "regression_sums points (a, b, c, d) =
    (a + sum_list (List.map fst points), b + sum_list (List.map snd points),
     c + sum_list (List.map (\<lambda>(x, y). x * x) points), d + sum_list (List.map (\<lambda>(x, y). x * y) points))"
  by (induction points "(a, b, c, d)" arbitrary: a b c d rule: regression_sums.induct) (simp_all add: algebra_simps)

lemma sum_list_squares_pos:
  fixes f :: "'a \<Rightarrow> rat"
  assumes "x \<in> set xs" "f x \<noteq> 0"
  shows "0 < sum_list (List.map (\<lambda>x. f x * f x) xs)"
proof -
  have "0 < f x * f x" using assms(2) by (simp add: zero_less_mult_iff linorder_neq_iff disj_commute)
  moreover have "f x * f x \<le> sum_list (List.map (\<lambda>x. f x * f x) xs)"
    by (rule member_le_sum_list) (use assms(1) in auto)
  ultimately show ?thesis by simp
qed

lemma variance_identity:
  fixes xs :: "rat list"
  defines "S \<equiv> sum_list xs" and "n \<equiv> rat_of_nat (length xs)"
  shows "sum_list (List.map (\<lambda>x. (n * x - S) * (n * x - S)) xs) = n * (n * sum_list (List.map (\<lambda>x. x * x) xs) - S * S)"
proof -
  have e: "sum_list (List.map (\<lambda>x. (c * x - T) * (c * x - T)) xs)
      = c * c * sum_list (List.map (\<lambda>x. x * x) xs) - 2 * c * T * sum_list xs + of_nat (length xs) * (T * T)" for c T :: rat
    by (induction xs) (simp_all add: algebra_simps)
  show ?thesis unfolding e n_def [symmetric] S_def [symmetric] by (simp add: algebra_simps)
qed

lemma spread_positive:
  fixes xs :: "rat list"
  assumes "x \<in> set xs" "y \<in> set xs" "x \<noteq> y"
  shows "0 < of_nat (length xs) * sum_list (List.map (\<lambda>x. x * x) xs) - sum_list xs * sum_list xs"
proof -
  define n S where "n = rat_of_nat (length xs)" and "S = sum_list xs"
  have n: "0 < n" using assms(1) by (cases xs) (auto simp: n_def)
  have "n * x - S \<noteq> 0 \<or> n * y - S \<noteq> 0" using assms(3) n by auto
  then have "0 < sum_list (List.map (\<lambda>x. (n * x - S) * (n * x - S)) xs)"
    using sum_list_squares_pos [of _ xs "\<lambda>x. n * x - S"] assms(1,2) by blast
  then show ?thesis using n unfolding variance_identity [of xs, folded n_def S_def]
    by (simp add: zero_less_mult_iff n_def S_def)
qed

lemma line_sums:
  fixes points :: "(rat \<times> rat) list"
  assumes "\<forall>(x, y) \<in> set points. y = a * x + b"
  shows "sum_list (List.map snd points) = a * sum_list (List.map fst points) + b * of_nat (length points)"
    and "sum_list (List.map (\<lambda>(x, y). x * y) points) =
      a * sum_list (List.map (\<lambda>(x, y). x * x) points) + b * sum_list (List.map fst points)"
  using assms by (induction points) (auto simp: algebra_simps)

lemma slope_of_line:
  assumes "length (sb_audio_seconds b) = length (sb_values b)"
    and "\<forall>i < length (sb_values b). sb_values b ! i = a * sb_audio_seconds b ! i + c"
    and "x \<in> set (sb_audio_seconds b)" "y \<in> set (sb_audio_seconds b)" "x \<noteq> y"
  shows "backlog_slope b = a"
proof -
  let ?p = "zip (sb_audio_seconds b) (sb_values b)"
  let ?xs = "sb_audio_seconds b"
  have line: "\<forall>(x, y) \<in> set ?p. y = a * x + c" using assms(1,2) by (auto simp: set_zip)
  have fs: "List.map fst ?p = ?xs" using assms(1) by simp
  have sq: "sum_list (List.map (\<lambda>(x, y). x * x) ?p) = sum_list (List.map (\<lambda>x. x * x) ?xs)"
  proof -
    have "List.map (\<lambda>(x, y). x * x) ?p = List.map (\<lambda>x. x * x) (List.map fst ?p)" by (simp add: split_beta)
    then show ?thesis by (simp only: fs)
  qed
  have l: "length ?p = length ?xs" "length (sb_values b) = length ?xs" using assms(1) by simp_all
  have many: "1 < length ?xs"
  proof -
    have "card {x, y} \<le> card (set ?xs)" using assms(3,4) by (intro card_mono) auto
    then show ?thesis using assms(5) card_length [of ?xs] by simp
  qed
  define n S Q where "n = rat_of_nat (length ?xs)" and "S = sum_list ?xs" and "Q = sum_list (List.map (\<lambda>x. x * x) ?xs)"
  have pos: "0 < n * Q - S * S" using spread_positive [OF assms(3-5)] by (simp add: n_def S_def Q_def)
  have sums: "regression_sums ?p (0, 0, 0, 0) = (S, a * S + c * n, Q, a * Q + c * S)"
    unfolding regression_sums_eq line_sums [OF line] fs sq l by (simp add: n_def S_def Q_def)
  have "n * (a * Q + c * S) - S * (a * S + c * n) = a * (n * Q - S * S)" by (simp add: algebra_simps)
  then show ?thesis using many pos
    unfolding backlog_slope_def sums l by (simp add: Let_def n_def [symmetric])
qed

section \<open>The eligibility ring\<close>

definition note_one :: "int \<Rightarrow> int \<Rightarrow> telemetry \<Rightarrow> telemetry" where
  "note_one capacity absolute t =
    t \<lparr> tm_absolute_group := (tm_absolute_group t)[nat (absolute mod capacity) := absolute],
        tm_arrival_ms := (tm_arrival_ms t)[nat (absolute mod capacity) := tm_availability_ms t] \<rparr>"

definition ring_good :: "int \<Rightarrow> rat list \<Rightarrow> telemetry \<Rightarrow> bool" where
  "ring_good capacity arrivals t \<longleftrightarrow>
    int (length (tm_absolute_group t)) = capacity \<and> length (tm_arrival_ms t) = length (tm_absolute_group t) \<and>
    (\<forall>g \<ge> 0. (tm_absolute_group t ! nat (g mod capacity) = g \<longleftrightarrow>
        int (length arrivals) - capacity \<le> g \<and> g < int (length arrivals)) \<and>
      (int (length arrivals) - capacity \<le> g \<and> g < int (length arrivals) \<longrightarrow>
        tm_arrival_ms t ! nat (g mod capacity) = arrivals ! nat g))"

lemma note_one_good:
  assumes "ring_good capacity arrivals t" "0 < capacity"
  shows "ring_good capacity (arrivals @ [tm_availability_ms t]) (note_one capacity (int (length arrivals)) t)"
  unfolding ring_good_def
proof (intro conjI allI impI)
  let ?n = "int (length arrivals)"
  show "int (length (tm_absolute_group (note_one capacity ?n t))) = capacity"
    "length (tm_arrival_ms (note_one capacity ?n t)) = length (tm_absolute_group (note_one capacity ?n t))"
    using assms(1) by (simp_all add: ring_good_def note_one_def)
  fix g :: int assume g: "0 \<le> g"
  have r: "0 \<le> g mod capacity" "g mod capacity < capacity" "0 \<le> ?n mod capacity" "?n mod capacity < capacity"
    using assms(2) by simp_all
  have len: "int (length (tm_absolute_group t)) = capacity" "length (tm_arrival_ms t) = length (tm_absolute_group t)"
    using assms(1) by (simp_all add: ring_good_def)
  have old: "(tm_absolute_group t ! nat (g mod capacity) = g) = (?n - capacity \<le> g \<and> g < ?n)"
    "?n - capacity \<le> g \<and> g < ?n \<longrightarrow> tm_arrival_ms t ! nat (g mod capacity) = arrivals ! nat g"
    using assms(1) g by (simp_all add: ring_good_def)
  have ln: "length (arrivals @ [tm_availability_ms t]) = Suc (length arrivals)" by simp
  show "(tm_absolute_group (note_one capacity ?n t) ! nat (g mod capacity) = g) =
      (int (length (arrivals @ [tm_availability_ms t])) - capacity \<le> g \<and> g < int (length (arrivals @ [tm_availability_ms t])))"
  proof (cases "g mod capacity = ?n mod capacity")
    case True
    then have "tm_absolute_group (note_one capacity ?n t) ! nat (g mod capacity) = ?n"
      using len r by (simp add: note_one_def)
    moreover have "(?n = g) = (int (Suc (length arrivals)) - capacity \<le> g \<and> g < int (Suc (length arrivals)))"
    proof
      assume "int (Suc (length arrivals)) - capacity \<le> g \<and> g < int (Suc (length arrivals))"
      then show "?n = g" using mod_distinct [of g ?n capacity] True by force
    qed (use assms(2) in simp)
    ultimately show ?thesis unfolding ln by (simp only:)
  next
    case False
    then have "tm_absolute_group (note_one capacity ?n t) ! nat (g mod capacity) = tm_absolute_group t ! nat (g mod capacity)"
      using r by (simp add: note_one_def nat_eq_iff)
    moreover have "g \<noteq> ?n" "g \<noteq> ?n - capacity" using False by auto
    ultimately show ?thesis using old(1) unfolding ln by auto
  qed
  assume w: "int (length (arrivals @ [tm_availability_ms t])) - capacity \<le> g \<and> g < int (length (arrivals @ [tm_availability_ms t]))"
  show "tm_arrival_ms (note_one capacity ?n t) ! nat (g mod capacity) = (arrivals @ [tm_availability_ms t]) ! nat g"
  proof (cases "g = ?n")
    case True
    then show ?thesis using len r by (simp add: note_one_def)
  next
    case False
    then have d: "g mod capacity \<noteq> ?n mod capacity" using mod_distinct [of g ?n capacity] w by auto
    have "nat g < length arrivals" using False w g by auto
    then show ?thesis using d r old(2) w False by (simp add: note_one_def nat_eq_iff nth_append)
  qed
qed

lemma note_one_availability [simp]: "tm_availability_ms (note_one capacity g t) = tm_availability_ms t"
  by (simp add: note_one_def)

lemma note_many_good:
  assumes "ring_good capacity arrivals t" "0 < capacity"
  shows "ring_good capacity (arrivals @ replicate n (tm_availability_ms t))
      (fold (\<lambda>i. note_one capacity (int (length arrivals) + i)) [0..int n - 1] t) \<and>
    tm_availability_ms (fold (\<lambda>i. note_one capacity (int (length arrivals) + i)) [0..int n - 1] t) = tm_availability_ms t"
proof (induction n)
  case 0
  then show ?case using assms by simp
next
  case (Suc n)
  let ?t = "fold (\<lambda>i. note_one capacity (int (length arrivals) + i)) [0..int n - 1] t"
  have u: "[0..int (Suc n) - 1] = [0..int n - 1] @ [int n]" using upto_rec2 [of 0 "int n"] by simp
  have "ring_good capacity ((arrivals @ replicate n (tm_availability_ms t)) @ [tm_availability_ms ?t])
      (note_one capacity (int (length (arrivals @ replicate n (tm_availability_ms t)))) ?t)"
    by (rule note_one_good) (use Suc assms(2) in auto)
  then show ?case using Suc unfolding u by (simp add: replicate_append_same [symmetric])
qed

text \<open>Consecutive commits, each with the availability of its audio and its number of groups.\<close>

fun note_commits :: "int \<Rightarrow> (rat \<times> nat) list \<Rightarrow> int \<Rightarrow> telemetry \<Rightarrow> telemetry" where
  "note_commits capacity [] start t = t"
| "note_commits capacity ((ms, n) # commits) start t =
    note_commits capacity commits (start + int n)
      (note_group_eligibility (t \<lparr> tm_availability_ms := ms \<rparr>) start (int n) capacity)"

definition arrivals_of :: "(rat \<times> nat) list \<Rightarrow> rat list" where
  "arrivals_of commits = concat (List.map (\<lambda>(ms, n). replicate n ms) commits)"

definition ring_of :: "int \<Rightarrow> rat list \<Rightarrow> telemetry \<Rightarrow> bool" where
  "ring_of capacity arrivals t \<longleftrightarrow>
    (tm_absolute_group t = [] \<and> arrivals = []) \<or> ring_good capacity arrivals t"

lemma note_group_good:
  assumes "ring_of capacity arrivals t" "0 < capacity"
  shows "ring_of capacity (arrivals @ replicate n (tm_availability_ms t))
    (note_group_eligibility t (int (length arrivals)) (int n) capacity)"
proof (cases "n = 0")
  case True
  then show ?thesis using assms by (simp add: note_group_eligibility_def)
next
  case False
  define t1 where "t1 = (if int (length (tm_absolute_group t)) \<noteq> capacity
                    then t \<lparr> tm_absolute_group := replicate (nat capacity) (- 1),
                             tm_arrival_ms := replicate (nat capacity) 0 \<rparr> else t)"
  have e: "note_group_eligibility t (int (length arrivals)) (int n) capacity =
      fold (\<lambda>i. note_one capacity (int (length arrivals) + i)) [0..int n - 1] t1"
    using False assms(2) by (simp add: note_group_eligibility_def t1_def [symmetric] note_one_def [abs_def] Let_def)
  have "ring_good capacity arrivals t1 \<and> tm_availability_ms t1 = tm_availability_ms t"
  proof (cases "tm_absolute_group t = [] \<and> arrivals = []")
    case True
    have "0 \<le> g mod capacity \<and> g mod capacity < capacity" for g using assms(2) by simp
    then show ?thesis using True assms(2)
      by (auto simp: t1_def ring_good_def nat_less_iff)
  next
    case False
    then show ?thesis using assms by (auto simp: ring_of_def t1_def ring_good_def)
  qed
  then show ?thesis using note_many_good [of capacity arrivals t1 n] assms(2) by (simp add: ring_of_def e)
qed

lemma note_commits_good:
  assumes "0 < capacity"
  shows "ring_of capacity arrivals t \<Longrightarrow>
    ring_of capacity (arrivals @ arrivals_of commits) (note_commits capacity commits (int (length arrivals)) t)"
proof (induction commits arbitrary: arrivals t)
  case Nil
  then show ?case by (simp add: arrivals_of_def)
next
  case (Cons c commits)
  obtain ms n where c: "c = (ms, n)" by force
  have "ring_of capacity arrivals (t \<lparr> tm_availability_ms := ms \<rparr>)"
    using Cons.prems by (simp add: ring_of_def ring_good_def)
  from Cons.IH [OF note_group_good [OF this assms, of n]] show ?case
    by (simp add: c arrivals_of_def)
qed

section \<open>Properties\<close>

text \<open>The backlog reservoir is exact up to its capacity: after any samples, \<open>seen\<close> and the deadline misses count all
of them, min(count, 32768) are stored, each stored pair is one of the samples, and up to 32768 samples
(the documented half hour) the reservoir is the lossless sequence of all of them.\<close>

theorem backlog_reservoir_exact:
  "sb_seen (series_of samples) = length samples \<and>
   sb_deadline_misses (series_of samples) = length (List.filter (\<lambda>(a, ms). 0 < ms) samples) \<and>
   length (sb_values (series_of samples)) = min (length samples) 32768 \<and>
   set (zip (sb_audio_seconds (series_of samples)) (sb_values (series_of samples))) \<subseteq> set samples \<and>
   (length samples \<le> 32768 \<longrightarrow> zip (sb_audio_seconds (series_of samples)) (sb_values (series_of samples)) = samples)"
  using series_of_good [of samples] by (simp add: series_good_def backlog_samples_def)

lemma backlog_reservoir_exact_witness:
  "zip (sb_audio_seconds (series_of [(1, 80), (2, 0), (3, 160)])) (sb_values (series_of [(1, 80), (2, 0), (3, 160)]))
   = [(1, 80), (2, 0), (3, 160)]"
  using backlog_reservoir_exact [of "[(1, 80), (2, 0), (3, 160)]"] by simp

text \<open>The exported percentiles are ordered and bounded by the samples: the smallest stored sample is at most p50,
p50 at most p95, p95 at most p99, and p99 at most the exported maximum, which is the largest stored
sample; the interpolation never indexes outside the sorted samples.\<close>

theorem backlog_percentiles_ordered:
  assumes "sb_values b \<noteq> []"
  shows "Min (set (sb_values b)) \<le> bm_p50 (backlog_metrics_from b) \<and>
    bm_p50 (backlog_metrics_from b) \<le> bm_p95 (backlog_metrics_from b) \<and>
    bm_p95 (backlog_metrics_from b) \<le> bm_p99 (backlog_metrics_from b) \<and>
    bm_p99 (backlog_metrics_from b) \<le> bm_max (backlog_metrics_from b) \<and>
    bm_max (backlog_metrics_from b) = Max (set (sb_values b))"
proof -
  define vs where "vs = sort (sb_values b)"
  have vs: "vs \<noteq> []" "sorted vs" "set vs = set (sb_values b)"
    using assms by (simp_all add: vs_def) (metis set_empty set_sort)
  have m: "bm_p50 (backlog_metrics_from b) = percentile vs (50 / 100)" "bm_p95 (backlog_metrics_from b) = percentile vs (95 / 100)"
    "bm_p99 (backlog_metrics_from b) = percentile vs (99 / 100)" "bm_max (backlog_metrics_from b) = last vs"
    using assms by (simp_all add: backlog_metrics_from_def Let_def vs_def)
  have "hd vs \<in> set vs" using vs(1) by simp
  then have h: "Min (set vs) \<le> percentile vs 0" using percentile_ends(1) [OF vs(1)] by simp
  have "\<forall>v \<in> set vs. v \<le> last vs"
    using vs(1,2) sorted_append [of "butlast vs" "[last vs]"] by (metis append_butlast_last_id in_set_conv_decomp
        sorted_append list.set_intros(1) order_refl sorted_simps(2) last_appendR last_ConsR last_in_set list.distinct(1) last_ConsL)
  then have mx: "last vs = Max (set vs)" using vs(1) by (intro Max_eqI [symmetric]) auto
  show ?thesis unfolding m mx [symmetric] vs(3) [symmetric]
    using h percentile_mono [of 0 "50 / 100" vs] percentile_mono [of "50 / 100" "95 / 100" vs]
      percentile_mono [of "95 / 100" "99 / 100" vs] percentile_mono [of "99 / 100" 1 vs] percentile_ends(2) [OF vs(1)] vs(1,2) mx
    by auto
qed

lemma backlog_percentiles_ordered_witness:
  "bm_p50 (backlog_metrics_from (series_of [(1, 80), (2, 0)])) \<le> bm_max (backlog_metrics_from (series_of [(1, 80), (2, 0)])) \<and>
   bm_max (backlog_metrics_from (series_of [(1, 80), (2, 0)])) = 80"
proof -
  have v: "sb_values (series_of [(1, 80), (2, 0)]) = [80, 0]"
    by (simp add: series_of_def series_add_def series_reset_def Let_def backlog_samples_def)
  show ?thesis using backlog_percentiles_ordered [of "series_of [(1, 80), (2, 0)]"] v by auto
qed

text \<open>The backlog slope is exact on a growing backlog: for stored samples on a line over audio time (at least two
distinct times) the exported least-squares slope is the slope of that line.\<close>

theorem backlog_slope_exact:
  assumes "length (sb_audio_seconds b) = length (sb_values b)"
    and "\<forall>i < length (sb_values b). sb_values b ! i = a * sb_audio_seconds b ! i + c"
    and "x \<in> set (sb_audio_seconds b)" "y \<in> set (sb_audio_seconds b)" "x \<noteq> y"
  shows "backlog_slope b = a \<and> bm_slope (backlog_metrics_from b) = a"
proof -
  have "sb_values b \<noteq> []" using assms(1,3) by auto
  then show ?thesis using slope_of_line [OF assms] by (simp add: backlog_metrics_from_def Let_def)
qed

lemma backlog_slope_exact_witness: "backlog_slope (series_of [(1, 80), (2, 160), (3, 240)]) = 80"
proof -
  let ?b = "series_of [(1, 80), (2, 160), (3, 240)]"
  have v: "sb_values ?b = [80, 160, 240]" "sb_audio_seconds ?b = [1, 2, 3]"
    by (simp_all add: series_of_def series_add_def series_reset_def Let_def backlog_samples_def)
  show ?thesis using backlog_slope_exact [of ?b 80 0 1 2] v by (simp add: less_Suc_eq numeral_3_eq_3)
qed

text \<open>However the commits are batched, the eligibility ring answers for a group exactly the availability recorded
when it was committed, as long as at most \<open>capacity\<close> groups were committed since, and answers that it does
not know (-1) for any other group.\<close>

theorem eligibility_ring_window:
  assumes "0 < capacity" "tm_absolute_group t = []" "0 \<le> g"
  shows "group_eligibility_ms (note_commits capacity commits 0 t) g =
    (if int (length (arrivals_of commits)) - capacity \<le> g \<and> g < int (length (arrivals_of commits))
     then arrivals_of commits ! nat g else - 1)"
proof -
  let ?t = "note_commits capacity commits 0 t"
  have "ring_of capacity [] t" using assms(2) by (simp add: ring_of_def)
  then have r: "ring_of capacity (arrivals_of commits) ?t" using note_commits_good [OF assms(1), of "[]" t commits] by simp
  show ?thesis
  proof (cases "tm_absolute_group ?t = []")
    case True
    then have "arrivals_of commits = []" using r assms(1) by (auto simp: ring_of_def ring_good_def)
    then show ?thesis using True assms(3) by (simp add: group_eligibility_ms_def)
  next
    case False
    then have "ring_good capacity (arrivals_of commits) ?t" using r by (simp add: ring_of_def)
    then show ?thesis using assms(3) False by (simp add: group_eligibility_ms_def Let_def ring_good_def)
  qed
qed

definition empty_telemetry :: telemetry where
  "empty_telemetry =
    \<lparr> tm_encoder_backlog = series_reset, tm_adapter_backlog = series_reset, tm_decoder_backlog = series_reset,
      tm_availability_ms = 0, tm_absolute_group = [], tm_arrival_ms = [] \<rparr>"

lemma eligibility_ring_window_witness:
  "group_eligibility_ms (note_commits 4 [(80, 3), (160, 2)] 0 empty_telemetry) 1 = 80 \<and>
   group_eligibility_ms (note_commits 4 [(80, 3), (160, 2)] 0 empty_telemetry) 0 = - 1 \<and>
   group_eligibility_ms (note_commits 4 [(80, 3), (160, 2)] 0 empty_telemetry) 4 = 160"
proof -
  have e: "tm_absolute_group empty_telemetry = []" "(0::int) < 4" by (simp_all add: empty_telemetry_def)
  have a: "arrivals_of [(80, 3), (160, 2)] = [80, 80, 80, 160, 160]" by (simp add: arrivals_of_def numeral_eq_Suc)
  show ?thesis
    using eligibility_ring_window [OF e(2,1), of 1 "[(80, 3), (160, 2)]"] eligibility_ring_window [OF e(2,1), of 0 "[(80, 3), (160, 2)]"]
      eligibility_ring_window [OF e(2,1), of 4 "[(80, 3), (160, 2)]"] unfolding a
    by (simp add: numeral_eq_Suc)
qed

end
