(* ===== verification/Utf8.thy ===== *)
theory Utf8
  imports StreamDecoder
begin

text \<open>UTF-8 at the two places the program cuts text: the longest well-formed prefix that fits an event
buffer (\<open>utf8_prefix_at_most\<close> of \<open>src/src/voxtral-c-api.cpp\<close>) and the stable prefix of a text whose last
token may end inside a character (\<open>utf8_stable_prefix\<close>).  The specification is the encoding of Unicode
scalar values.  Proved: the first keeps the longest whole-character prefix within the limit and never
anything ill-formed whatever bytes come in; the second cuts exactly the unfinished last character.\<close>

unbundle bit_operations_syntax

section \<open>The prefix that fits\<close>

definition utf8_width :: "int \<Rightarrow> nat" where
  "utf8_width lead =
    (if lead \<le> 0x7f then 1
     else if 0xc2 \<le> lead \<and> lead \<le> 0xdf then 2
     else if 0xe0 \<le> lead \<and> lead \<le> 0xef then 3
     else if 0xf0 \<le> lead \<and> lead \<le> 0xf4 then 4
     else 0)"

definition utf8_tail_valid :: "string \<Rightarrow> nat \<Rightarrow> nat \<Rightarrow> bool" where
  "utf8_tail_valid text i width =
    (let lead = byte_at text i; second = byte_at text (i + 1) in
     list_all (\<lambda>j. byte_at text (i + j) AND 0xc0 = 0x80) [1..<width] \<and>
     \<not> (width = 3 \<and> ((lead = 0xe0 \<and> second < 0xa0) \<or> (lead = 0xed \<and> 0xa0 \<le> second))) \<and>
     \<not> (width = 4 \<and> ((lead = 0xf0 \<and> second < 0x90) \<or> (lead = 0xf4 \<and> 0x90 \<le> second))))"

function utf8_scan :: "string \<Rightarrow> nat \<Rightarrow> nat \<Rightarrow> nat" where
  "utf8_scan text stop i =
    (if i < stop
     then let width = utf8_width (byte_at text i)
          in if width = 0 \<or> stop < i + width \<or> length text < i + width \<or> \<not> utf8_tail_valid text i width
             then i else utf8_scan text stop (i + width)
     else i)"
  by auto
termination by (relation "measure (\<lambda>(text, stop, i). stop - i)") auto

declare utf8_scan.simps [simp del]

definition utf8_prefix_at_most :: "string \<Rightarrow> nat \<Rightarrow> nat" where
  "utf8_prefix_at_most text limit = utf8_scan text (min (length text) limit) 0"

section \<open>The encoding\<close>

definition scalar_value :: "int \<Rightarrow> bool" where
  "scalar_value c \<longleftrightarrow> 0 \<le> c \<and> c < 0x110000 \<and> \<not> (0xd800 \<le> c \<and> c < 0xe000)"

definition utf8_bytes :: "int \<Rightarrow> int list" where
  "utf8_bytes c =
    (if c < 0x80 then [c]
     else if c < 0x800 then [0xc0 + c div 64, 0x80 + c mod 64]
     else if c < 0x10000 then [0xe0 + c div 64 div 64, 0x80 + c div 64 mod 64, 0x80 + c mod 64]
     else [0xf0 + c div 64 div 64 div 64, 0x80 + c div 64 div 64 mod 64, 0x80 + c div 64 mod 64, 0x80 + c mod 64])"

definition utf8_encode :: "int \<Rightarrow> string" where
  "utf8_encode c = List.map char_of (utf8_bytes c)"

definition utf8_text :: "int list \<Rightarrow> string" where
  "utf8_text cs = concat (List.map utf8_encode cs)"

lemma byte_range: "0 \<le> byte_at text i" "byte_at text i < 256"
  by (simp_all add: byte_at_def char_range)

lemma mask_table:
  "list_all (\<lambda>b :: int. (b AND 0xc0 = 0x80) = (128 \<le> b \<and> b < 192) \<and>
     lead_need b = (if b < 128 then 1 else if b < 192 then 1 else if b < 224 then 2 else if b < 240 then 3
                    else if b < 248 then 4 else 1)) [0..255]"
  by code_simp

lemma masks:
  assumes "0 \<le> b" "b < 256"
  shows "(b AND 0xc0 = 0x80) = (128 \<le> b \<and> b < 192)"
    and "lead_need b = (if b < 128 then 1 else if b < 192 then 1 else if b < 224 then 2 else if b < 240 then 3
                    else if b < 248 then 4 else 1)"
  using mask_table assms unfolding list_all_iff by (auto simp del: split_paired_All)

lemma div64: "c = 64 * (c div 64) + c mod (64::int) \<and> 0 \<le> c mod 64 \<and> c mod 64 < 64"
  by simp

lemma utf8_shape:
  assumes "scalar_value c"
  obtains (one) "utf8_bytes c = [c]" "0 \<le> c" "c < 0x80"
  | (two) a r where "utf8_bytes c = [0xc0 + a, 0x80 + r]" "2 \<le> a" "a < 32" "0 \<le> r" "r < 64" "c = 64 * a + r"
  | (three) a q r where "utf8_bytes c = [0xe0 + a, 0x80 + q, 0x80 + r]" "0 \<le> a" "a < 16" "0 \<le> q" "q < 64" "0 \<le> r" "r < 64"
      "c = 64 * (64 * a + q) + r" "a = 0 \<longrightarrow> 32 \<le> q" "a = 13 \<longrightarrow> q < 32"
  | (four) a p q r where "utf8_bytes c = [0xf0 + a, 0x80 + p, 0x80 + q, 0x80 + r]" "0 \<le> a" "a \<le> 4" "0 \<le> p" "p < 64"
      "0 \<le> q" "q < 64" "0 \<le> r" "r < 64" "c = 64 * (64 * (64 * a + p) + q) + r" "a = 0 \<longrightarrow> 16 \<le> p" "a = 4 \<longrightarrow> p < 16"
proof -
  define k1 r1 where "k1 = c div 64" and "r1 = c mod 64"
  define k2 r2 where "k2 = k1 div 64" and "r2 = k1 mod 64"
  define k3 r3 where "k3 = k2 div 64" and "r3 = k2 mod 64"
  have e: "c = 64 * k1 + r1" "0 \<le> r1" "r1 < 64" "k1 = 64 * k2 + r2" "0 \<le> r2" "r2 < 64"
    "k2 = 64 * k3 + r3" "0 \<le> r3" "r3 < 64"
    using div64 [of c] div64 [of k1] div64 [of k2] unfolding k1_def r1_def k2_def r2_def k3_def r3_def by blast+
  have c: "0 \<le> c" "c < 0x110000" "\<not> (0xd800 \<le> c \<and> c < 0xe000)" using assms by (simp_all add: scalar_value_def)
  have b: "utf8_bytes c = (if c < 0x80 then [c] else if c < 0x800 then [0xc0 + k1, 0x80 + r1]
     else if c < 0x10000 then [0xe0 + k2, 0x80 + r2, 0x80 + r1] else [0xf0 + k3, 0x80 + r3, 0x80 + r2, 0x80 + r1])"
    by (simp add: utf8_bytes_def k1_def r1_def k2_def r2_def k3_def r3_def)
  show thesis
  proof (cases "c < 0x80")
    case True
    then show thesis using one b c by simp
  next
    case c1: False
    show thesis
    proof (cases "c < 0x800")
      case True
      show thesis by (rule two [of k1 r1]) (use b c1 True e c in simp_all)
    next
      case c2: False
      show thesis
      proof (cases "c < 0x10000")
        case True
        show thesis
        proof (rule three [of k2 r2 r1])
          show "utf8_bytes c = [0xe0 + k2, 0x80 + r2, 0x80 + r1]" using b c1 c2 True by simp
          show "k2 = 0 \<longrightarrow> 32 \<le> r2" "k2 = 13 \<longrightarrow> r2 < 32" "0 \<le> k2" "k2 < 16" "0 \<le> r2" "r2 < 64" "0 \<le> r1" "r1 < 64" using e c c1 c2 True by linarith+
          show "c = 64 * (64 * k2 + r2) + r1" using e(1,4) by simp
        qed
      next
        case c3: False
        show thesis
        proof (rule four [of k3 r3 r2 r1])
          show "utf8_bytes c = [0xf0 + k3, 0x80 + r3, 0x80 + r2, 0x80 + r1]" using b c1 c2 c3 by simp
          show "k3 = 0 \<longrightarrow> 16 \<le> r3" "k3 = 4 \<longrightarrow> r3 < 16" "0 \<le> k3" "k3 \<le> 4" "0 \<le> r3" "r3 < 64" "0 \<le> r2" "r2 < 64"
            "0 \<le> r1" "r1 < 64" using e c c1 c2 c3 by linarith+
          show "c = 64 * (64 * (64 * k3 + r3) + r2) + r1" using e(1,4,7) by simp
        qed
      qed
    qed
  qed
qed

lemma utf8_byte_range: "scalar_value c \<Longrightarrow> b \<in> set (utf8_bytes c) \<Longrightarrow> 0 \<le> b \<and> b < 256"
  by (erule utf8_shape) auto

lemma utf8_encode_length: "scalar_value c \<Longrightarrow> 0 < length (utf8_encode c) \<and> length (utf8_encode c) \<le> 4"
  by (auto simp: utf8_encode_def elim: utf8_shape)

lemma byte_at_encode:
  assumes "scalar_value c" "j < length (utf8_encode c)"
  shows "byte_at (pre @ utf8_encode c @ post) (length pre + j) = utf8_bytes c ! j"
proof -
  have j: "j < length (utf8_bytes c)" using assms(2) by (simp add: utf8_encode_def)
  have "(pre @ utf8_encode c @ post) ! (length pre + j) = utf8_encode c ! j" using assms(2) by (simp add: nth_append)
  also have "\<dots> = char_of (utf8_bytes c ! j)" using j by (simp add: utf8_encode_def)
  finally have "byte_at (pre @ utf8_encode c @ post) (length pre + j) = utf8_bytes c ! j mod 256"
    by (simp add: byte_at_def of_char_of)
  then show ?thesis using utf8_byte_range [OF assms(1), of "utf8_bytes c ! j"] j by simp
qed

lemma upt_small: "[1..<1] = []" "[1..<2] = [1]" "[1..<3] = [1, 2]" "[1..<4] = [1, 2, 3::nat]"
  by (simp_all add: numeral_eq_Suc)

lemma scan_step_valid:
  assumes "scalar_value c" "text = pre @ utf8_encode c @ post"
  shows "utf8_width (byte_at text (length pre)) = length (utf8_encode c)"
    and "utf8_tail_valid text (length pre) (length (utf8_encode c))"
proof -
  have b: "j < length (utf8_bytes c) \<Longrightarrow> byte_at text (length pre + j) = utf8_bytes c ! j" for j
    using byte_at_encode [OF assms(1), of j pre post] by (simp add: assms(2) utf8_encode_def)
  have b0: "0 < length (utf8_bytes c) \<Longrightarrow> byte_at text (length pre) = utf8_bytes c ! 0" using b [of 0] by simp
  have b1: "1 < length (utf8_bytes c) \<Longrightarrow> byte_at text (Suc (length pre)) = utf8_bytes c ! 1" using b [of 1] by simp
  have b2: "2 < length (utf8_bytes c) \<Longrightarrow> byte_at text (Suc (Suc (length pre))) = utf8_bytes c ! 2"
    using b [of 2] by (simp add: numeral_2_eq_2)
  have b3: "3 < length (utf8_bytes c) \<Longrightarrow> byte_at text (Suc (Suc (Suc (length pre)))) = utf8_bytes c ! 3"
    using b [of 3] by (simp add: numeral_3_eq_3)
  have l: "length (utf8_encode c) = length (utf8_bytes c)" by (simp add: utf8_encode_def)
  show "utf8_width (byte_at text (length pre)) = length (utf8_encode c)"
    using assms(1) unfolding l by (cases rule: utf8_shape) (simp_all add: b0 utf8_width_def)
  show "utf8_tail_valid text (length pre) (length (utf8_encode c))"
    using assms(1) unfolding l
    by (cases rule: utf8_shape)
      (auto simp: b0 b1 b2 b3 utf8_tail_valid_def Let_def masks upt_small numeral_2_eq_2 numeral_3_eq_3)
qed

lemma scalar_one: "0 \<le> a \<Longrightarrow> a \<le> 0x7f \<Longrightarrow> scalar_value a \<and> utf8_bytes a = [a]"
  by (simp add: scalar_value_def utf8_bytes_def)

lemma digits64: "0 \<le> r \<Longrightarrow> r < 64 \<Longrightarrow> (64 * k + r) div 64 = k \<and> (64 * k + r) mod 64 = (r::int)"
  by simp

lemma scalar_two:
  assumes "0xc2 \<le> a" "a \<le> 0xdf" "128 \<le> b" "b < 192"
  shows "\<exists>c. scalar_value c \<and> utf8_bytes c = [a, b]"
proof -
  let ?c = "64 * (a - 0xc0) + (b - 0x80)"
  note d = digits64 [of "b - 0x80" "a - 0xc0"]
  have "\<not> ?c < 0x80" "?c < 0x800" using assms by simp_all
  then show ?thesis using d assms by (intro exI [of _ ?c]) (simp add: scalar_value_def utf8_bytes_def)
qed

lemma scalar_three:
  assumes "0xe0 \<le> a" "a \<le> 0xef" "128 \<le> b" "b < 192" "128 \<le> d" "d < 192"
    and "\<not> (a = 0xe0 \<and> b < 0xa0)" "\<not> (a = 0xed \<and> 0xa0 \<le> b)"
  shows "\<exists>c. scalar_value c \<and> utf8_bytes c = [a, b, d]"
proof -
  let ?k = "64 * (a - 0xe0) + (b - 0x80)"
  let ?c = "64 * ?k + (d - 0x80)"
  note k = digits64 [of "b - 0x80" "a - 0xe0"] and c = digits64 [of "d - 0x80" ?k]
  have r: "\<not> ?c < 0x80" "\<not> ?c < 0x800" "?c < 0x10000" using assms by auto
  consider "a \<le> 0xec" | "a = 0xed" | "0xee \<le> a" by linarith
  then have "\<not> (0xd800 \<le> ?c \<and> ?c < 0xe000)" using assms by cases auto
  then have "scalar_value ?c" using r unfolding scalar_value_def by linarith
  moreover have "utf8_bytes ?c = [a, b, d]"
    using k c assms(3-6) r unfolding utf8_bytes_def by (simp only: if_False if_True) simp
  ultimately show ?thesis by blast
qed

lemma scalar_four:
  assumes "0xf0 \<le> a" "a \<le> 0xf4" "128 \<le> b" "b < 192" "128 \<le> d" "d < 192" "128 \<le> e" "e < 192"
    and "\<not> (a = 0xf0 \<and> b < 0x90)" "\<not> (a = 0xf4 \<and> 0x90 \<le> b)"
  shows "\<exists>c. scalar_value c \<and> utf8_bytes c = [a, b, d, e]"
proof -
  let ?j = "64 * (a - 0xf0) + (b - 0x80)"
  let ?k = "64 * ?j + (d - 0x80)"
  let ?c = "64 * ?k + (e - 0x80)"
  note j = digits64 [of "b - 0x80" "a - 0xf0"] and k = digits64 [of "d - 0x80" ?j] and c = digits64 [of "e - 0x80" ?k]
  have r: "\<not> ?c < 0x80" "\<not> ?c < 0x800" "\<not> ?c < 0x10000" "?c < 0x110000" using assms by auto
  have "scalar_value ?c" using r unfolding scalar_value_def by linarith
  moreover have "utf8_bytes ?c = [a, b, d, e]"
    using j k c assms(3-8) r unfolding utf8_bytes_def by (simp only: if_False if_True) simp
  ultimately show ?thesis by blast
qed

lemma take_bytes:
  assumes "i + w \<le> length text"
  shows "take w (drop i text) = List.map (\<lambda>j. char_of (byte_at text (i + j))) [0..<w]"
proof -
  have "take w (drop i text) = List.map (\<lambda>j. text ! (i + j)) [0..<w]"
    by (rule nth_equalityI) (use assms in auto)
  then show ?thesis by (simp add: byte_at_def)
qed

lemma scan_step_sound:
  assumes "w = utf8_width (byte_at text i)" "w \<noteq> 0" "i + w \<le> length text" "utf8_tail_valid text i w"
  shows "\<exists>c. scalar_value c \<and> take w (drop i text) = utf8_encode c"
proof -
  let ?a = "byte_at text i" and ?b = "byte_at text (i + 1)" and ?d = "byte_at text (i + 2)" and ?e = "byte_at text (i + 3)"
  have cont: "list_all (\<lambda>j. 128 \<le> byte_at text (i + j) \<and> byte_at text (i + j) < 192) [1..<w]"
    using assms(4) by (simp add: utf8_tail_valid_def Let_def masks byte_range list_all_iff)
  have t: "take w (drop i text) = List.map char_of (List.map (\<lambda>j. byte_at text (i + j)) [0..<w])"
    using take_bytes [OF assms(3)] by simp
  have "\<exists>c. scalar_value c \<and> utf8_bytes c = List.map (\<lambda>j. byte_at text (i + j)) [0..<w]"
  proof -
    consider "w = 1" "?a \<le> 0x7f" | "w = 2" "0xc2 \<le> ?a" "?a \<le> 0xdf" | "w = 3" "0xe0 \<le> ?a" "?a \<le> 0xef"
      | "w = 4" "0xf0 \<le> ?a" "?a \<le> 0xf4"
      using assms(1,2) by (auto simp: utf8_width_def split: if_splits)
    then show ?thesis
    proof cases
      case 1
      then show ?thesis using scalar_one [of ?a] byte_range [of "text" i] by (intro exI [of _ ?a]) simp
    next
      case 2
      then show ?thesis using scalar_two [of ?a ?b] cont by (simp add: numeral_eq_Suc)
    next
      case 3
      then show ?thesis using scalar_three [of ?a ?b ?d] cont assms(4)
        by (simp add: upt_small utf8_tail_valid_def Let_def) (simp add: numeral_eq_Suc)
    next
      case 4
      then show ?thesis using scalar_four [of ?a ?b ?d ?e] cont assms(4)
        by (simp add: upt_small utf8_tail_valid_def Let_def) (simp add: numeral_eq_Suc)
    qed
  qed
  then obtain c where "scalar_value c" "utf8_bytes c = List.map (\<lambda>j. byte_at text (i + j)) [0..<w]" by blast
  then show ?thesis unfolding t by (intro exI [of _ c]) (simp add: utf8_encode_def)
qed

lemma utf8_text_simps [simp]:
  "utf8_text [] = []" "utf8_text (c # cs) = utf8_encode c @ utf8_text cs" "utf8_text (cs @ ds) = utf8_text cs @ utf8_text ds"
  by (simp_all add: utf8_text_def)

lemma utf8_scan_sound:
  "stop \<le> length text \<Longrightarrow> i \<le> stop \<Longrightarrow>
   i \<le> utf8_scan text stop i \<and> utf8_scan text stop i \<le> stop \<and>
   (\<exists>cs. (\<forall>c \<in> set cs. scalar_value c) \<and> take (utf8_scan text stop i - i) (drop i text) = utf8_text cs)"
proof (induction "text" stop i rule: utf8_scan.induct)
  case (1 "text" stop i)
  let ?w = "utf8_width (byte_at text i)"
  show ?case
  proof (cases "i < stop \<and> \<not> (?w = 0 \<or> stop < i + ?w \<or> length text < i + ?w \<or> \<not> utf8_tail_valid text i ?w)")
    case False
    then have "utf8_scan text stop i = i" by (subst utf8_scan.simps) (auto simp: Let_def)
    then show ?thesis using 1(3) by (intro conjI exI [of _ "[]"]) simp_all
  next
    case True
    then have e: "utf8_scan text stop i = utf8_scan text stop (i + ?w)" by (subst utf8_scan.simps) (simp add: Let_def)
    have ih: "i + ?w \<le> utf8_scan text stop (i + ?w) \<and> utf8_scan text stop (i + ?w) \<le> stop \<and>
      (\<exists>cs. (\<forall>c \<in> set cs. scalar_value c) \<and>
         take (utf8_scan text stop (i + ?w) - (i + ?w)) (drop (i + ?w) text) = utf8_text cs)"
      by (rule 1(1) [OF _ refl]) (use True 1(2) in auto)
    obtain cs where cs: "\<forall>c \<in> set cs. scalar_value c"
      "take (utf8_scan text stop (i + ?w) - (i + ?w)) (drop (i + ?w) text) = utf8_text cs"
      using ih by blast
    obtain c where c: "scalar_value c" "take ?w (drop i text) = utf8_encode c"
      using scan_step_sound [of ?w "text" i] True by auto
    define k where "k = utf8_scan text stop (i + ?w)"
    have "take (k - i) (drop i text) = take ?w (drop i text) @ take (k - (i + ?w)) (drop ?w (drop i text))"
      using ih take_add [of ?w "k - (i + ?w)" "drop i text"] by (simp add: k_def)
    then have "take (k - i) (drop i text) = utf8_text (c # cs)" using c(2) cs(2) by (simp add: k_def add.commute)
    then show ?thesis using ih cs(1) c(1) unfolding e k_def by (intro conjI exI [of _ "c # cs"]) simp_all
  qed
qed

lemma utf8_scan_whole:
  "(\<forall>c \<in> set cs. scalar_value c) \<Longrightarrow> stop \<le> length (pre @ utf8_text cs) \<Longrightarrow> length pre \<le> stop \<Longrightarrow>
   \<exists>n \<le> length cs. utf8_scan (pre @ utf8_text cs) stop (length pre) = length (pre @ utf8_text (take n cs)) \<and>
     (n = length cs \<or> stop < length (pre @ utf8_text (take (Suc n) cs)))"
proof (induction cs arbitrary: pre)
  case Nil
  then have "utf8_scan pre stop (length pre) = length pre" by (subst utf8_scan.simps) simp
  then show ?case by simp
next
  case (Cons c cs)
  let ?t = "pre @ utf8_text (c # cs)"
  have sc: "scalar_value c" using Cons.prems(1) by simp
  note st = scan_step_valid [OF sc, of ?t pre "utf8_text cs"]
  have w: "utf8_width (byte_at ?t (length pre)) = length (utf8_encode c)" "utf8_tail_valid ?t (length pre) (length (utf8_encode c))"
    using st by simp_all
  have w0: "0 < length (utf8_encode c)" using utf8_encode_length [OF sc] by simp
  show ?case
  proof (cases "length pre + length (utf8_encode c) \<le> stop")
    case False
    then have "utf8_scan ?t stop (length pre) = length pre" using w by (subst utf8_scan.simps) (auto simp: Let_def)
    then show ?thesis using False by (intro exI [of _ 0]) simp
  next
    case True
    have "length pre + length (utf8_encode c) \<le> length ?t" by simp
    moreover have lt: "length pre < stop" using True w0 by linarith
    have "utf8_scan ?t stop (length pre) = utf8_scan ?t stop (length pre + length (utf8_encode c))"
      using True w w0 by (subst utf8_scan.simps) (simp add: Let_def lt)
    then have e: "utf8_scan ?t stop (length pre) = utf8_scan ?t stop (length (pre @ utf8_encode c))" by simp
    have t: "?t = (pre @ utf8_encode c) @ utf8_text cs" by simp
    obtain n where n: "n \<le> length cs"
      "utf8_scan ((pre @ utf8_encode c) @ utf8_text cs) stop (length (pre @ utf8_encode c))
         = length ((pre @ utf8_encode c) @ utf8_text (take n cs))"
      "n = length cs \<or> stop < length ((pre @ utf8_encode c) @ utf8_text (take (Suc n) cs))"
      using Cons.IH [of "pre @ utf8_encode c"] Cons.prems True by auto
    have "utf8_scan ?t stop (length pre) = length (pre @ utf8_text (take (Suc n) (c # cs)))"
      unfolding e unfolding t n(2) by simp
    then show ?thesis using n(1,3) by (intro exI [of _ "Suc n"]) auto
  qed
qed

section \<open>Properties of the prefix that fits\<close>

lemma prefix_well_formed:
  "utf8_prefix_at_most text limit \<le> limit \<and> utf8_prefix_at_most text limit \<le> length text \<and>
   (\<exists>cs. list_all scalar_value cs \<and> take (utf8_prefix_at_most text limit) text = utf8_text cs)"
  using utf8_scan_sound [of "min (length text) limit" "text" 0] by (auto simp: utf8_prefix_at_most_def list_all_iff)

lemma prefix_longest:
  assumes "list_all scalar_value cs"
  shows "\<exists>n \<le> length cs. utf8_prefix_at_most (utf8_text cs) limit = length (utf8_text (take n cs)) \<and>
    (n = length cs \<or> limit < length (utf8_text (take (Suc n) cs)))"
proof -
  let ?stop = "min (length (utf8_text cs)) limit"
  obtain n where n: "n \<le> length cs" "utf8_scan (utf8_text cs) ?stop 0 = length (utf8_text (take n cs))"
    "n = length cs \<or> ?stop < length (utf8_text (take (Suc n) cs))"
    using utf8_scan_whole [of cs ?stop "[]"] assms by (auto simp: list_all_iff)
  have "n = length cs \<or> limit < length (utf8_text (take (Suc n) cs))"
  proof (cases "n = length cs")
    case False
    have "utf8_text cs = utf8_text (take (Suc n) cs) @ utf8_text (drop (Suc n) cs)"
      using utf8_text_simps(3) [of "take (Suc n) cs" "drop (Suc n) cs"] by simp
    then have "length (utf8_text (take (Suc n) cs)) \<le> length (utf8_text cs)" by (metis length_append le_add1)
    then show ?thesis using n(3) False by linarith
  qed simp
  then show ?thesis using n(1,2) by (auto simp: utf8_prefix_at_most_def)
qed

text \<open>C24: Whatever bytes the text holds and whatever the limit, the kept prefix is within the limit and within the
text, and is well-formed UTF-8 (the encodings of Unicode scalar values, with no overlong form, surrogate or cut
character); and on well-formed text nothing more is cut than has to be: the kept prefix is the whole text, or one
more character would pass the limit.\<close>

theorem utf8_prefix_well_formed_and_longest:
  "utf8_prefix_at_most text limit \<le> limit \<and> utf8_prefix_at_most text limit \<le> length text \<and>
   (\<exists>cs. list_all scalar_value cs \<and> take (utf8_prefix_at_most text limit) text = utf8_text cs) \<and>
   (\<forall>cs. list_all scalar_value cs \<and> text = utf8_text cs \<longrightarrow>
     (\<exists>n \<le> length cs. utf8_prefix_at_most text limit = length (utf8_text (take n cs)) \<and>
       (n = length cs \<or> limit < length (utf8_text (take (Suc n) cs)))))"
  using prefix_well_formed [of "text" limit] prefix_longest [of _ limit] by blast

lemma utf8_prefix_well_formed_and_longest_witness:
  "\<exists>n \<le> 3. utf8_prefix_at_most (utf8_text [104, 0x20ac, 105]) 3 = length (utf8_text (take n [104, 0x20ac, 105]))"
proof -
  have "list_all scalar_value [104, 0x20ac, 105]" by (simp add: scalar_value_def)
  then have "\<exists>n \<le> length [104, 0x20ac, 105 :: int]. utf8_prefix_at_most (utf8_text [104, 0x20ac, 105]) 3 = length (utf8_text (take n [104, 0x20ac, 105]))"
    using utf8_prefix_well_formed_and_longest [of "utf8_text [104, 0x20ac, 105]" 3] by blast
  then show ?thesis by (auto simp: numeral_3_eq_3)
qed

section \<open>The stable prefix of a growing text\<close>

lemma skip_stop:
  "n < i \<Longrightarrow> \<not> (byte_at text n AND 0xc0 = 0x80) \<Longrightarrow> (\<forall>j. n < j \<and> j < i \<longrightarrow> byte_at text j AND 0xc0 = 0x80) \<Longrightarrow>
   skip_continuations text i = Suc n"
  by (induction "text" i rule: skip_continuations.induct) (auto simp: less_Suc_eq)

text \<open>The bytes of an encoding: one lead byte, which announces the length, then continuations.\<close>

lemma lead_facts:
  assumes "scalar_value c"
  shows "\<not> (utf8_bytes c ! 0 AND 0xc0 = 0x80)" "lead_need (utf8_bytes c ! 0) = length (utf8_encode c)"
    and "0 < j \<Longrightarrow> j < length (utf8_encode c) \<Longrightarrow> utf8_bytes c ! j AND 0xc0 = 0x80"
proof -
  have l: "length (utf8_encode c) = length (utf8_bytes c)" by (simp add: utf8_encode_def)
  show "\<not> (utf8_bytes c ! 0 AND 0xc0 = 0x80)" using assms by (cases rule: utf8_shape) (auto simp: masks)
  show "lead_need (utf8_bytes c ! 0) = length (utf8_encode c)"
    unfolding l using assms by (cases rule: utf8_shape) (auto simp: masks)
  show "0 < j \<Longrightarrow> j < length (utf8_encode c) \<Longrightarrow> utf8_bytes c ! j AND 0xc0 = 0x80"
    unfolding l using assms
    by (cases rule: utf8_shape) (auto simp: masks less_Suc_eq numeral_2_eq_2 numeral_3_eq_3)
qed

lemma stable_prefix_at:
  assumes "scalar_value c" "0 < k" "k \<le> length (utf8_encode c)" "text = pre @ take k (utf8_encode c)"
  shows "utf8_stable_prefix text = (if k = length (utf8_encode c) then length text else length pre)"
proof -
  have k: "length text = length pre + k" using assms(3,4) by (simp add: min_absorb2)
  have b: "byte_at text (length pre + j) = utf8_bytes c ! j" if "j < k" for j
  proof -
    have "text ! (length pre + j) = (pre @ utf8_encode c @ []) ! (length pre + j)"
      using that assms(3,4) by (simp add: nth_append)
    then show ?thesis using byte_at_encode [OF assms(1), of j pre "[]"] that assms(3) by (simp add: byte_at_def)
  qed
  have "skip_continuations text (length text) = Suc (length pre)"
  proof (rule skip_stop)
    show "length pre < length text" using k assms(2) by simp
    show "\<not> (byte_at text (length pre) AND 0xc0 = 0x80)" using b [of 0] assms(2) lead_facts(1) [OF assms(1)] by simp
    show "\<forall>j. length pre < j \<and> j < length text \<longrightarrow> byte_at text j AND 0xc0 = 0x80"
    proof (intro allI impI)
      fix j assume j: "length pre < j \<and> j < length text"
      then have "byte_at text (length pre + (j - length pre)) = utf8_bytes c ! (j - length pre)"
        using k by (intro b) linarith
      then have "byte_at text j = utf8_bytes c ! (j - length pre)" using j by simp
      moreover have "0 < j - length pre" "j - length pre < length (utf8_encode c)" using j k assms(3) by linarith+
      ultimately show "byte_at text j AND 0xc0 = 0x80" using lead_facts(3) [OF assms(1), of "j - length pre"] by simp
    qed
  qed
  then show ?thesis using b [of 0] assms(2,3) k lead_facts(2) [OF assms(1)]
    by (auto simp: utf8_stable_prefix_def Let_def)
qed

text \<open>When the tokens so far spell well-formed characters and the first bytes of one more, the stable prefix
announced to the caller is exactly the complete characters: it never cuts a character and never holds back a finished one.\<close>

theorem utf8_stable_prefix_exact:
  assumes "list_all scalar_value cs" "scalar_value c" "k < length (utf8_encode c)"
  shows "utf8_stable_prefix (utf8_text cs @ take k (utf8_encode c)) = length (utf8_text cs)"
proof (cases "k = 0")
  case False
  then show ?thesis using stable_prefix_at [OF assms(2), of k _ "utf8_text cs"] assms(3) by simp
next
  case k: True
  show ?thesis
  proof (cases cs rule: rev_cases)
    case Nil
    then show ?thesis using k by (simp add: utf8_stable_prefix_def)
  next
    case (snoc ds d)
    have "scalar_value d" using assms(1) snoc by simp
    then show ?thesis
      using stable_prefix_at [of d "length (utf8_encode d)" _ "utf8_text ds"] utf8_encode_length [of d] k snoc by simp
  qed
qed

lemma utf8_stable_prefix_exact_witness: "utf8_stable_prefix (utf8_text [104, 233] @ take 2 (utf8_encode 0x20ac)) = 3"
proof -
  have h: "list_all scalar_value [104, 233]" "scalar_value 0x20ac" "2 < length (utf8_encode 0x20ac)"
    by (simp_all add: scalar_value_def utf8_encode_def utf8_bytes_def)
  show ?thesis using utf8_stable_prefix_exact [OF h] by (simp add: utf8_encode_def utf8_bytes_def)
qed

end
