(* ===== verification/AbiStructs.thy ===== *)
theory AbiStructs
  imports Utf8 "HOL-Library.Monad_Syntax"
begin

text \<open>The versioned structures of the public C interface (\<open>src/src/voxtral-c-api.cpp\<close>,
\<open>src/include/voxtral.h\<close>, \<open>src/include/voxtral-stream.h\<close>): the size/version header, the field-wise reading of
parameter structures of any size, and the bounded write of output structures.  Caller memory is a list of
bytes; reading or writing past its end is undefined (an outer \<^term>\<open>None\<close>).  Layouts are those of the
64-bit little-endian targets.  Proved: a parameter structure written by an older or newer caller is read
field by field with defaults for what is missing, a single write stays inside the declared size, and
reusing an output structure that was declared shorter overruns it.\<close>

section \<open>Bytes\<close>

definition le_bytes :: "nat \<Rightarrow> int \<Rightarrow> byte list" where
  "le_bytes n v = List.map (\<lambda>i. word_of_int (v div 256 ^ i)) [0..<n]"

fun le_value :: "byte list \<Rightarrow> int" where
  "le_value [] = 0"
| "le_value (b # bs) = uint b + 256 * le_value bs"

section \<open>The header\<close>

definition api_version_current :: int where
  "api_version_current = 1 * 2 ^ 24"

definition api_version_compatible :: "int \<Rightarrow> bool" where
  "api_version_compatible version \<longleftrightarrow> version div 2 ^ 24 = 1"

text \<open>\<^term>\<open>Some None\<close>: rejected; otherwise the declared size.\<close>

definition read_header :: "byte list option \<Rightarrow> nat option option" where
  "read_header ptr =
    (case ptr of
       None \<Rightarrow> Some None
     | Some mem \<Rightarrow>
         if length mem < 8 then None
         else let struct_size = le_value (take 4 mem);
                  api_version = le_value (take 4 (drop 4 mem))
              in Some (if 8 \<le> struct_size \<and> struct_size \<le> 1024 * 1024 \<and> api_version_compatible api_version
                       then Some (nat struct_size) else None))"

definition field_available :: "nat \<Rightarrow> nat \<Rightarrow> nat \<Rightarrow> bool" where
  "field_available struct_size offset field_size \<longleftrightarrow> offset \<le> struct_size \<and> field_size \<le> struct_size - offset"

text \<open>\<open>read_field_if_available\<close>: the field, or the value it would leave in place.\<close>

definition read_field :: "byte list \<Rightarrow> nat \<Rightarrow> nat \<Rightarrow> nat \<Rightarrow> int \<Rightarrow> int option" where
  "read_field mem struct_size offset field_size destination =
    (if \<not> field_available struct_size offset field_size then Some destination
     else if length mem < offset + field_size then None
     else Some (le_value (take field_size (drop offset mem))))"

definition write_versioned_output :: "byte list option \<Rightarrow> byte list \<Rightarrow> nat \<Rightarrow> (bool \<times> byte list option) option" where
  "write_versioned_output ptr val minimum_size =
    do {
      header \<leftarrow> read_header ptr;
      (case (ptr, header) of
         (Some mem, Some struct_size) \<Rightarrow>
           if struct_size < minimum_size then Some (False, ptr)
           else let copy_size = min struct_size (length val)
                in if length mem < copy_size then None
                   else Some (True, Some (take copy_size val @ drop copy_size mem))
       | _ \<Rightarrow> Some (False, ptr))
    }"

section \<open>Parameter structures\<close>

text \<open>The headers of the normalized copies are always the current ones and are left out.\<close>

record model_params =
  mp_backend :: int
  mp_log_level :: int
  mp_flags :: int
  mp_reserved :: int

definition model_default_params :: model_params where
  "model_default_params = \<lparr> mp_backend = 1, mp_log_level = 0, mp_flags = 0, mp_reserved = 0 \<rparr>"

definition normalize_model_params :: "byte list option \<Rightarrow> (bool \<times> model_params) option" where
  "normalize_model_params input =
    (case input of
       None \<Rightarrow> Some (True, model_default_params)
     | Some mem \<Rightarrow>
         do {
           header \<leftarrow> read_header input;
           (case header of
              None \<Rightarrow> Some (False, model_default_params)
            | Some n \<Rightarrow>
                do {
                  backend \<leftarrow> read_field mem n 8 4 (mp_backend model_default_params);
                  log_level \<leftarrow> read_field mem n 12 4 (mp_log_level model_default_params);
                  flags \<leftarrow> read_field mem n 16 4 (mp_flags model_default_params);
                  reserved \<leftarrow> read_field mem n 20 4 (mp_reserved model_default_params);
                  Some (True, \<lparr> mp_backend = backend, mp_log_level = log_level, mp_flags = flags, mp_reserved = reserved \<rparr>)
                })
         })"

record context_config =
  cc_n_threads :: int
  cc_flags :: int

definition context_default_config :: context_config where
  "context_default_config = \<lparr> cc_n_threads = 0, cc_flags = 0 \<rparr>"

definition normalize_context_config :: "byte list option \<Rightarrow> (bool \<times> context_config) option" where
  "normalize_context_config input =
    (case input of
       None \<Rightarrow> Some (True, context_default_config)
     | Some mem \<Rightarrow>
         do {
           header \<leftarrow> read_header input;
           (case header of
              None \<Rightarrow> Some (False, context_default_config)
            | Some n \<Rightarrow>
                do {
                  n_threads \<leftarrow> read_field mem n 8 4 (cc_n_threads context_default_config);
                  flags \<leftarrow> read_field mem n 12 4 (cc_flags context_default_config);
                  Some (True, \<lparr> cc_n_threads = i32 n_threads, cc_flags = flags \<rparr>)
                })
         })"

record audio_config =
  au_sample_rate :: int
  au_channels :: int
  au_format :: int
  au_reserved :: int

definition audio_default_config :: audio_config where
  "audio_default_config = \<lparr> au_sample_rate = 16000, au_channels = 1, au_format = 1, au_reserved = 0 \<rparr>"

definition normalize_audio_config :: "byte list option \<Rightarrow> (bool \<times> audio_config) option" where
  "normalize_audio_config input =
    do {
      header \<leftarrow> read_header input;
      (case (input, header) of
         (Some mem, Some n) \<Rightarrow>
           do {
             rate \<leftarrow> read_field mem n 8 4 (au_sample_rate audio_default_config);
             channels \<leftarrow> read_field mem n 12 4 (au_channels audio_default_config);
             format \<leftarrow> read_field mem n 16 4 (au_format audio_default_config);
             reserved \<leftarrow> read_field mem n 20 4 (au_reserved audio_default_config);
             Some (True, \<lparr> au_sample_rate = rate, au_channels = channels, au_format = format, au_reserved = reserved \<rparr>)
           }
       | _ \<Rightarrow> Some (False, audio_default_config))
    }"

record public_params =
  pp_audio :: audio_config
  pp_event_queue_capacity :: int
  pp_flags :: int
  pp_reserved :: int

definition stream_default_params :: public_params where
  "stream_default_params =
    \<lparr> pp_audio = audio_default_config, pp_event_queue_capacity = 4096, pp_flags = 0, pp_reserved = 0 \<rparr>"

text \<open>The embedded audio configuration is copied to a local of 24 bytes and normalized as a structure of its own.\<close>

definition normalize_stream_audio :: "byte list \<Rightarrow> nat \<Rightarrow> (bool \<times> audio_config) option" where
  "normalize_stream_audio mem n =
    (if \<not> field_available n 8 24 then Some (True, audio_default_config)
     else if length mem < 32 then None
     else normalize_audio_config (Some (take 24 (drop 8 mem))))"

definition normalize_stream_params :: "byte list option \<Rightarrow> (bool \<times> public_params) option" where
  "normalize_stream_params input =
    do {
      header \<leftarrow> read_header input;
      (case (input, header) of
         (Some mem, Some n) \<Rightarrow>
           do {
             (ok, audio) \<leftarrow> normalize_stream_audio mem n;
             capacity \<leftarrow> read_field mem n 32 4 (pp_event_queue_capacity stream_default_params);
             flags \<leftarrow> read_field mem n 36 4 (pp_flags stream_default_params);
             reserved \<leftarrow> read_field mem n 40 8 (pp_reserved stream_default_params);
             Some (ok, \<lparr> pp_audio = audio, pp_event_queue_capacity = capacity, pp_flags = flags, pp_reserved = reserved \<rparr>)
           }
       | _ \<Rightarrow> Some (False, stream_default_params))
    }"

section \<open>Reading what a caller wrote\<close>

lemma length_le_bytes [simp]: "length (le_bytes n v) = n"
  by (simp add: le_bytes_def)

lemma le_bytes_Suc: "le_bytes (Suc n) v = word_of_int v # le_bytes n (v div 256)"
proof -
  have "[0..<Suc n] = 0 # List.map Suc [0..<n]" by (metis map_Suc_upt upt_conv_Cons zero_less_Suc)
  then show ?thesis by (simp add: le_bytes_def div_mult2_eq o_def zdiv_zmult2_eq)
qed

lemma le_value_le_bytes: "0 \<le> v \<Longrightarrow> v < 256 ^ n \<Longrightarrow> le_value (le_bytes n v) = v"
proof (induction n arbitrary: v)
  case 0
  then show ?case by (simp add: le_bytes_def)
next
  case (Suc n)
  have "v div 256 < 256 ^ n" using Suc.prems by (simp add: div_less_iff_less_mult mult.commute)
  then have "le_value (le_bytes n (v div 256)) = v div 256" using Suc by simp
  moreover have "uint (word_of_int v :: byte) = v mod 256" by (simp add: uint_word_of_int)
  ultimately show ?case by (simp add: le_bytes_Suc)
qed

text \<open>A structure as a caller lays it out.\<close>

definition audio_bytes :: "audio_config \<Rightarrow> byte list" where
  "audio_bytes a = le_bytes 4 24 @ le_bytes 4 api_version_current @ le_bytes 4 (au_sample_rate a) @
    le_bytes 4 (au_channels a) @ le_bytes 4 (au_format a) @ le_bytes 4 (au_reserved a)"

definition stream_params_bytes :: "nat \<Rightarrow> public_params \<Rightarrow> byte list" where
  "stream_params_bytes n p = le_bytes 4 (int n) @ le_bytes 4 api_version_current @ audio_bytes (pp_audio p) @
    le_bytes 4 (pp_event_queue_capacity p) @ le_bytes 4 (pp_flags p) @ le_bytes 8 (pp_reserved p)"

definition params_in_range :: "public_params \<Rightarrow> bool" where
  "params_in_range p \<longleftrightarrow>
    (\<forall>v \<in> {au_sample_rate (pp_audio p), au_channels (pp_audio p), au_format (pp_audio p), au_reserved (pp_audio p),
           pp_event_queue_capacity p, pp_flags p}. 0 \<le> v \<and> v < 2 ^ 32) \<and>
    0 \<le> pp_reserved p \<and> pp_reserved p < 2 ^ 64"

lemma read_field_at:
  assumes "length (take n raw) = n" "take k (drop offset raw) = le_bytes k v" "0 \<le> v" "v < 256 ^ k"
  shows "read_field (take n raw) n offset k d = Some (if offset + k \<le> n then v else d)"
proof (cases "offset + k \<le> n")
  case True
  have "take k (drop offset (take n raw)) = le_bytes k v"
    using assms(2) True by (simp add: drop_take min_absorb1)
  moreover have "k \<le> n - offset" using True by linarith
  ultimately show ?thesis using True assms(1) le_value_le_bytes [OF assms(3,4)] by (simp add: read_field_def field_available_def)
next
  case False
  then have "\<not> field_available n offset k" by (auto simp: field_available_def)
  then show ?thesis using False by (simp add: read_field_def)
qed

lemma read_header_at:
  assumes "mem = le_bytes 4 (int n) @ le_bytes 4 api_version_current @ post" "8 \<le> n" "n \<le> 1024 * 1024"
  shows "read_header (Some mem) = Some (Some n)"
proof -
  have "le_value (le_bytes 4 (int n)) = int n" "le_value (le_bytes 4 api_version_current) = api_version_current"
    using assms(3) by (auto intro!: le_value_le_bytes simp: api_version_current_def)
  then show ?thesis using assms
    by (simp add: read_header_def Let_def api_version_compatible_def api_version_current_def)
qed

lemma normalize_audio_bytes:
  assumes "params_in_range p"
  shows "normalize_audio_config (Some (audio_bytes (pp_audio p))) = Some (True, pp_audio p)"
proof -
  let ?a = "pp_audio p"
  let ?m = "audio_bytes ?a"
  have r: "0 \<le> v \<and> v < 256 ^ 4" if "v \<in> {au_sample_rate ?a, au_channels ?a, au_format ?a, au_reserved ?a}" for v
    using assms that by (auto simp: params_in_range_def)
  have h: "read_header (Some ?m) = Some (Some 24)" by (rule read_header_at) (simp_all add: audio_bytes_def)
  have l: "take 24 ?m = ?m" "length (take 24 ?m) = 24" by (simp_all add: audio_bytes_def)
  have t: "take 4 (drop 8 ?m) = le_bytes 4 (au_sample_rate ?a)" "take 4 (drop 12 ?m) = le_bytes 4 (au_channels ?a)"
    "take 4 (drop 16 ?m) = le_bytes 4 (au_format ?a)" "take 4 (drop 20 ?m) = le_bytes 4 (au_reserved ?a)"
    by (simp_all add: audio_bytes_def)
  have f: "read_field (take 24 ?m) 24 8 4 d = Some (au_sample_rate ?a)"
    "read_field (take 24 ?m) 24 12 4 d = Some (au_channels ?a)"
    "read_field (take 24 ?m) 24 16 4 d = Some (au_format ?a)" "read_field (take 24 ?m) 24 20 4 d = Some (au_reserved ?a)" for d
    using r [of "au_sample_rate ?a"] r [of "au_channels ?a"] r [of "au_format ?a"] r [of "au_reserved ?a"]
      read_field_at [OF l(2) t(1)] read_field_at [OF l(2) t(2)] read_field_at [OF l(2) t(3)] read_field_at [OF l(2) t(4)]
    by simp_all
  show ?thesis using f unfolding l(1) by (simp add: normalize_audio_config_def h)
qed

text \<open>Parameter structures are compatible both ways: whatever length of the v1 layout an older caller declares (at
least the header), or a newer caller extends by unknown trailing fields, the normalized copy holds the caller's
value of every field that lies completely within the declared size and the documented default of every other
field, and nothing is read past the declared size.\<close>

theorem stream_params_prefix_compatible:
  assumes "8 \<le> n" "n \<le> 1024 * 1024" "n \<le> 48 + length extra" "params_in_range p"
  shows "normalize_stream_params (Some (take n (stream_params_bytes n p @ extra))) =
    Some (True,
      \<lparr> pp_audio = (if 32 \<le> n then pp_audio p else pp_audio stream_default_params),
        pp_event_queue_capacity = (if 36 \<le> n then pp_event_queue_capacity p else pp_event_queue_capacity stream_default_params),
        pp_flags = (if 40 \<le> n then pp_flags p else pp_flags stream_default_params),
        pp_reserved = (if 48 \<le> n then pp_reserved p else pp_reserved stream_default_params) \<rparr>)"
proof -
  let ?raw = "stream_params_bytes n p @ extra"
  let ?mem = "take n ?raw"
  have la: "length (audio_bytes (pp_audio p)) = 24" by (simp add: audio_bytes_def)
  have "length ?raw = 48 + length extra" by (simp add: stream_params_bytes_def la)
  then have l: "length ?mem = n" using assms(3) by simp
  have pre: "?mem = le_bytes 4 (int n) @ le_bytes 4 api_version_current @ take (n - 8)
      (audio_bytes (pp_audio p) @ le_bytes 4 (pp_event_queue_capacity p) @ le_bytes 4 (pp_flags p) @ le_bytes 8 (pp_reserved p) @ extra)"
    using assms(1) by (simp add: stream_params_bytes_def la)
  have h: "read_header (Some ?mem) = Some (Some n)" unfolding pre by (rule read_header_at [OF refl assms(1,2)])
  have r: "0 \<le> pp_event_queue_capacity p" "pp_event_queue_capacity p < 256 ^ 4" "0 \<le> pp_flags p" "pp_flags p < 256 ^ 4"
    "0 \<le> pp_reserved p" "pp_reserved p < 256 ^ 8"
    using assms(4) by (simp_all add: params_in_range_def)
  have t: "take 4 (drop 32 ?raw) = le_bytes 4 (pp_event_queue_capacity p)" "take 4 (drop 36 ?raw) = le_bytes 4 (pp_flags p)"
    "take 8 (drop 40 ?raw) = le_bytes 8 (pp_reserved p)"
    by (simp_all add: stream_params_bytes_def la)
  have f: "read_field ?mem n 32 4 d = Some (if 36 \<le> n then pp_event_queue_capacity p else d)"
    "read_field ?mem n 36 4 d = Some (if 40 \<le> n then pp_flags p else d)"
    "read_field ?mem n 40 8 d = Some (if 48 \<le> n then pp_reserved p else d)" for d
    using read_field_at [OF l t(1) r(1,2)] read_field_at [OF l t(2) r(3,4)] read_field_at [OF l t(3) r(5,6)] by simp_all
  have a: "normalize_stream_audio ?mem n = Some (True, if 32 \<le> n then pp_audio p else pp_audio stream_default_params)"
  proof (cases "32 \<le> n")
    case True
    have "take 24 (drop 8 ?mem) = audio_bytes (pp_audio p)"
      using True unfolding pre by (simp add: la min_absorb2 take_Cons' drop_Cons')
    then show ?thesis using True l normalize_audio_bytes [OF assms(4)]
      by (simp add: normalize_stream_audio_def field_available_def)
  next
    case False
    then have "\<not> field_available n 8 24" by (auto simp: field_available_def)
    then show ?thesis using False by (simp add: normalize_stream_audio_def stream_default_params_def)
  qed
  show ?thesis by (simp add: normalize_stream_params_def h f a del: take_append)
qed

definition example_params :: public_params where
  "example_params =
    \<lparr> pp_audio = \<lparr> au_sample_rate = 8000, au_channels = 2, au_format = 1, au_reserved = 0 \<rparr>,
      pp_event_queue_capacity = 16, pp_flags = 7, pp_reserved = 0 \<rparr>"

text \<open>A caller that knows the structure up to the queue capacity only.\<close>

lemma stream_params_prefix_compatible_witness:
  "normalize_stream_params (Some (take 36 (stream_params_bytes 36 example_params))) =
    Some (True, \<lparr> pp_audio = pp_audio example_params, pp_event_queue_capacity = 16, pp_flags = 0, pp_reserved = 0 \<rparr>)"
proof -
  have "params_in_range example_params" by (simp add: params_in_range_def example_params_def)
  from stream_params_prefix_compatible [OF _ _ _ this, of 36 "[]"] show ?thesis
    by (simp add: example_params_def stream_default_params_def)
qed

section \<open>Writing output structures\<close>

text \<open>C25: One query never writes outside the caller's declared size, but it overwrites the declared size with the
library's own: a caller that declared a shorter structure (accepted, from the 8-byte header on) and reuses it for
a second query gets a copy of the full structure past the end of its buffer.\<close>

theorem output_struct_reuse_overruns:
  assumes "8 \<le> n" "n < length val" "length val \<le> 1024 * 1024" "length mem = n"
    and "read_header (Some mem) = Some (Some n)"
    and "val = le_bytes 4 (int (length val)) @ le_bytes 4 api_version_current @ payload"
  shows "write_versioned_output (Some mem) val 8 = Some (True, Some (take n val)) \<and>
    length (take n val) = n \<and> write_versioned_output (Some (take n val)) val 8 = None"
proof -
  have "take n val = le_bytes 4 (int (length val)) @ le_bytes 4 api_version_current @ take (n - 8) payload"
    using assms(1) by (subst assms(6)) simp
  then have h: "read_header (Some (take n val)) = Some (Some (length val))"
    using read_header_at [of _ "length val" "take (n - 8) payload"] assms(1-3) by simp
  show ?thesis using assms h by (simp add: write_versioned_output_def Let_def)
qed

text \<open>\<open>voxtral_capabilities\<close> is 32 bytes long; the caller knows its first 16.\<close>

lemma output_struct_reuse_overruns_witness:
  "\<exists>val first. length val = 32 \<and> length first = 16 \<and>
     write_versioned_output (Some (le_bytes 4 16 @ le_bytes 4 api_version_current @ replicate 8 0)) val 8 = Some (True, Some first) \<and>
     write_versioned_output (Some first) val 8 = None"
proof -
  let ?val = "le_bytes 4 32 @ le_bytes 4 api_version_current @ replicate 24 (1 :: byte)"
  let ?mem = "le_bytes 4 16 @ le_bytes 4 api_version_current @ replicate 8 (0 :: byte)"
  have h: "read_header (Some ?mem) = Some (Some 16)" using read_header_at [of ?mem 16 "replicate 8 0"] by simp
  have l: "length ?val = 32" by simp
  have r: "write_versioned_output (Some ?mem) ?val 8 = Some (True, Some (take 16 ?val)) \<and>
    length (take 16 ?val) = 16 \<and> write_versioned_output (Some (take 16 ?val)) ?val 8 = None"
    by (rule output_struct_reuse_overruns [OF _ _ _ _ h, where payload = "replicate 24 1"]) simp_all
  show ?thesis by (rule exI [of _ ?val], rule exI [of _ "take 16 ?val"]) (use r l in blast)
qed

end
