(* ===== verification/CApi.thy ===== *)
theory CApi
  imports AbiStructs StreamSafety
begin

text \<open>The entry points of the public C interface (\<open>src/src/voxtral-c-api.cpp\<close>) and the context lease of
\<open>src/src/voxtral.cpp\<close>: status and state maps, the event a poll hands out, feeding, finishing, cancelling,
resetting, the final text, the last error, model and context creation, stream creation and destruction.
Handles and memory are explicit: a null pointer is \<^term>\<open>None\<close>, caller memory is a list of bytes or
characters, an outer \<^term>\<open>None\<close> is undefined behaviour.  An internal call that throws is an argument
(the exception and the stream it leaves); the second-level handlers that only run when reporting an error
itself fails to allocate are left out.\<close>

unbundle bit_operations_syntax

section \<open>Status, states and enumerations\<close>

datatype public_status =
    PS_ok | PS_invalid_argument | PS_invalid_state | PS_out_of_memory | PS_queue_full | PS_not_ready
  | PS_cancelled | PS_unsupported_audio_format | PS_model_error | PS_backend_error | PS_internal_error
  | PS_buffer_too_small

fun public_status_code :: "public_status \<Rightarrow> int" where
  "public_status_code PS_ok = 0"
| "public_status_code PS_invalid_argument = 1"
| "public_status_code PS_invalid_state = 2"
| "public_status_code PS_out_of_memory = 3"
| "public_status_code PS_queue_full = 4"
| "public_status_code PS_not_ready = 5"
| "public_status_code PS_cancelled = 6"
| "public_status_code PS_unsupported_audio_format = 7"
| "public_status_code PS_model_error = 8"
| "public_status_code PS_backend_error = 9"
| "public_status_code PS_internal_error = 10"
| "public_status_code PS_buffer_too_small = 11"

fun public_status_string :: "public_status \<Rightarrow> string" where
  "public_status_string PS_ok = ''ok''"
| "public_status_string PS_invalid_argument = ''invalid_argument''"
| "public_status_string PS_invalid_state = ''invalid_state''"
| "public_status_string PS_out_of_memory = ''out_of_memory''"
| "public_status_string PS_queue_full = ''queue_full''"
| "public_status_string PS_not_ready = ''not_ready''"
| "public_status_string PS_cancelled = ''cancelled''"
| "public_status_string PS_unsupported_audio_format = ''unsupported_audio_format''"
| "public_status_string PS_model_error = ''model_error''"
| "public_status_string PS_backend_error = ''backend_error''"
| "public_status_string PS_internal_error = ''internal_error''"
| "public_status_string PS_buffer_too_small = ''buffer_too_small''"

fun map_status :: "status \<Rightarrow> public_status" where
  "map_status St_ok = PS_ok"
| "map_status St_invalid_argument = PS_invalid_argument"
| "map_status St_invalid_state = PS_invalid_state"
| "map_status St_busy = PS_invalid_state"
| "map_status St_unsupported_audio_format = PS_unsupported_audio_format"
| "map_status St_cancelled = PS_cancelled"
| "map_status St_backend_error = PS_backend_error"
| "map_status St_out_of_memory = PS_out_of_memory"
| "map_status St_limit_exceeded = PS_queue_full"
| "map_status St_internal_error = PS_internal_error"

definition map_feed_status :: "('f, 'k, 'o, 'a, 'c) stream option \<Rightarrow> status \<Rightarrow> public_status" where
  "map_feed_status stream st =
    (if st \<noteq> St_limit_exceeded then map_status st
     else if stream_last_feed_status stream = Queue_full then PS_queue_full else PS_invalid_argument)"

datatype public_state = Api_created | Api_active | Api_finishing | Api_completed | Api_cancelled | Api_error

fun map_state :: "stream_state \<Rightarrow> public_state" where
  "map_state Created = Api_created"
| "map_state Running = Api_active"
| "map_state Finishing = Api_finishing"
| "map_state Completed = Api_completed"
| "map_state Cancelled = Api_cancelled"
| "map_state Failed = Api_error"

definition public_get_state :: "('f, 'k, 'o, 'a, 'c) stream option \<Rightarrow> public_state" where
  "public_get_state p = (case p of None \<Rightarrow> Api_error | Some _ \<Rightarrow> map_state (stream_get_state p))"

datatype gpu_backend = Gpu_none | Gpu_auto | Gpu_cuda | Gpu_metal | Gpu_vulkan

definition map_backend :: "int \<Rightarrow> gpu_backend option" where
  "map_backend backend =
    (if backend = 0 then Some Gpu_none
     else if backend = 1 then Some Gpu_auto
     else if backend = 2 then Some Gpu_cuda
     else if backend = 3 then Some Gpu_metal
     else if backend = 4 then Some Gpu_vulkan
     else None)"

datatype log_level = Log_error | Log_warn | Log_info | Log_debug

definition map_log_level :: "int \<Rightarrow> log_level option" where
  "map_log_level level =
    (if level = 0 then Some Log_error
     else if level = 1 then Some Log_warn
     else if level = 2 then Some Log_info
     else if level = 3 then Some Log_debug
     else None)"

section \<open>Events\<close>

definition status_of_code :: "int \<Rightarrow> status" where
  "status_of_code code =
    (if code = 0 then St_ok else if code = 1 then St_invalid_argument else if code = 2 then St_invalid_state
     else if code = 3 then St_unsupported_audio_format else if code = 4 then St_cancelled
     else if code = 5 then St_backend_error else if code = 6 then St_out_of_memory
     else if code = 7 then St_limit_exceeded else if code = 8 then St_busy else St_internal_error)"

definition event_status :: "stream_event \<Rightarrow> public_status" where
  "event_status ev =
    (if ev_type ev = Ev_cancelled then PS_cancelled
     else if ev_type ev \<noteq> Ev_error then PS_ok
     else if ev_error_code ev < status_code St_ok \<or> status_code St_internal_error < ev_error_code ev
     then PS_internal_error
     else map_status (status_of_code (ev_error_code ev)))"

fun event_type_code :: "event_type \<Rightarrow> int" where
  "event_type_code Ev_token = 1"
| "event_type_code Ev_partial_text = 2"
| "event_type_code Ev_final_text = 3"
| "event_type_code Ev_error = 4"
| "event_type_code Ev_cancelled = 4"
| "event_type_code Ev_completed = 5"

record public_event =
  pe_type :: int
  pe_sequence :: int
  pe_token_id :: int
  pe_flags :: "32 word"
  pe_audio_start_ms :: int
  pe_audio_end_ms :: int
  pe_status :: public_status
  pe_text_length :: nat
  pe_text :: string

text \<open>\<open>pe_text\<close> holds the bytes copied to the front of the zeroed text array of 4096.\<close>

definition copy_event_text :: "public_event \<Rightarrow> string \<Rightarrow> nat \<Rightarrow> public_event" where
  "copy_event_text destination source stable_bytes =
    (let available = min stable_bytes (length source);
         limit = min available (4096 - 1);
         copy_bytes = utf8_prefix_at_most source limit
     in destination \<lparr> pe_text := take copy_bytes source, pe_text_length := copy_bytes,
          pe_flags := (if copy_bytes < available then pe_flags destination OR 4 else pe_flags destination) \<rparr>)"

definition end_ms :: "stream_event \<Rightarrow> int" where
  "end_ms ev = \<lfloor>max 0 (ev_t_audio_ms ev)\<rfloor>"

definition public_event_of :: "stream_event \<Rightarrow> int \<Rightarrow> public_event" where
  "public_event_of ev sequence =
    (let special = (if ev_special ev then 1 else 0);
         stable = (if ev_type ev = Ev_partial_text \<or> ev_type ev = Ev_final_text then 2 else 0);
         cancelled = (ev_type ev = Ev_cancelled \<and> ev_text ev = []);
         source = (if cancelled then ''cancelled'' else ev_text ev);
         stable_bytes = (if ev_type ev = Ev_partial_text then nat (ev_stable_prefix_bytes ev) else length source)
     in copy_event_text
          \<lparr> pe_type = event_type_code (ev_type ev), pe_sequence = sequence,
            pe_token_id = (if ev_type ev = Ev_token then ev_token ev else -1),
            pe_flags = special OR stable,
            pe_audio_start_ms = (if ev_type ev = Ev_token \<or> ev_type ev = Ev_partial_text
                                 then if 80 \<le> end_ms ev then end_ms ev - 80 else 0 else 0),
            pe_audio_end_ms = end_ms ev, pe_status = event_status ev, pe_text_length = 0, pe_text = [] \<rparr>
          source stable_bytes)"

text \<open>The layout of \<open>voxtral_event\<close>: 64 bytes of fields and the text array, 4160 bytes.\<close>

definition string_bytes :: "string \<Rightarrow> byte list" where
  "string_bytes t = List.map of_char t"

definition event_bytes :: "public_event \<Rightarrow> byte list" where
  "event_bytes v =
    le_bytes 4 4160 @ le_bytes 4 api_version_current @ le_bytes 4 (pe_type v) @ le_bytes 4 0 @
    le_bytes 8 (pe_sequence v) @ le_bytes 4 (pe_token_id v) @ le_bytes 4 (uint (pe_flags v)) @
    le_bytes 8 (pe_audio_start_ms v) @ le_bytes 8 (pe_audio_end_ms v) @
    le_bytes 4 (public_status_code (pe_status v)) @ le_bytes 4 0 @ le_bytes 8 (int (pe_text_length v)) @
    string_bytes (pe_text v) @ replicate (4096 - length (pe_text v)) 0"

definition poll_advance :: "('f, 'k, 'o, 'a, 'c) stream \<Rightarrow> ('f, 'k, 'o, 'a, 'c) stream" where
  "poll_advance s =
    s \<lparr> st_ev := (st_ev s) \<lparr> ev_public_poll_sequence := (ev_public_poll_sequence (st_ev s) + 1) mod 2 ^ 64 \<rparr> \<rparr>"

text \<open>A poll: the status, the caller's memory, the event written (if any) and the stream.\<close>

definition public_poll_event ::
  "('f, 'k, 'o, 'a, 'c) stream option \<Rightarrow> byte list option
   \<Rightarrow> (public_status \<times> byte list option \<times> public_event option \<times> ('f, 'k, 'o, 'a, 'c) stream option) option" where
  "public_poll_event p out =
    (case (p, out) of
       (Some s, Some mem) \<Rightarrow>
         do {
           header \<leftarrow> read_header out;
           (case header of
              None \<Rightarrow> Some (PS_invalid_argument, out, None, p)
            | Some n \<Rightarrow>
                if n < 4160 then Some (PS_invalid_argument, out, None, p)
                else (case stream_poll_event s of
                        None \<Rightarrow> Some (PS_not_ready, out, None, p)
                      | Some (ev, s1) \<Rightarrow>
                          let s2 = poll_advance s1;
                              val = public_event_of ev (ev_public_poll_sequence (st_ev s2));
                              size = min n 4160
                          in if length mem < size then None
                             else Some (PS_ok, Some (take size (event_bytes val) @ drop size mem), Some val, Some s2)))
         }
     | _ \<Rightarrow> Some (PS_invalid_argument, out, None, p))"

section \<open>Failing a stream\<close>

definition fail_stream ::
  "('f, 'k, 'o, 'a, 'c) stream \<Rightarrow> status \<Rightarrow> string \<Rightarrow> ('f, 'k, 'o, 'a, 'c) stream" where
  "fail_stream s st message =
    (let s1 = set_error (s \<lparr> st_ev := (st_ev s) \<lparr> ev_finalizing_flush := True \<rparr> \<rparr>) st message
     in set_state Failed (emit_error s1 st (lc_last_error (st_life s1))))"

datatype exn = Bad_alloc | Other_exception

text \<open>The two catch clauses of an entry point.\<close>

definition caught ::
  "string \<Rightarrow> string \<Rightarrow> exn \<Rightarrow> ('f, 'k, 'o, 'a, 'c) stream \<Rightarrow> public_status \<times> ('f, 'k, 'o, 'a, 'c) stream" where
  "caught allocating working e s =
    (case e of
       Bad_alloc \<Rightarrow> (PS_out_of_memory, fail_stream s St_out_of_memory (allocating @ '' allocation threw''))
     | Other_exception \<Rightarrow> (PS_internal_error, fail_stream s St_internal_error (working @ '' threw an internal exception'')))"

section \<open>Feeding\<close>

definition fatal_status :: "status \<Rightarrow> bool" where
  "fatal_status st \<longleftrightarrow> st = St_backend_error \<or> st = St_out_of_memory \<or> st = St_internal_error"

text \<open>The status, the accepted count and the stream.\<close>

definition public_feed_pcm16 ::
  "('f, 'k, 'o, 'a, 'c) runtime \<Rightarrow> (exn \<times> ('f, 'k, 'o, 'a, 'c) stream) option
   \<Rightarrow> ('f, 'k, 'o, 'a, 'c) stream option \<Rightarrow> int list option \<Rightarrow> nat
   \<Rightarrow> (public_status \<times> int \<times> ('f, 'k, 'o, 'a, 'c) stream option) option" where
  "public_feed_pcm16 rt thrown p samples sample_count =
    (case p of
       None \<Rightarrow> Some (PS_invalid_argument, 0, None)
     | Some s \<Rightarrow>
         let received_before = lc_total_samples_received (st_life s)
         in case thrown of
              Some (e, s1) \<Rightarrow> let (st, s2) = caught ''feed'' ''feed'' e s1 in Some (st, 0, Some s2)
            | None \<Rightarrow>
                map_option (\<lambda>(result, s1).
                    let after = lc_total_samples_received (st_life s1);
                        consumed = (if received_before \<le> after then after - received_before else 0);
                        s2 = (if fatal_status result then fail_stream s1 result (lc_last_error (st_life s1)) else s1)
                    in (map_feed_status (Some s2) result, consumed, Some s2))
                  (stream_feed_pcm16 rt samples sample_count s))"

section \<open>Finish, cancel and reset\<close>

definition public_call ::
  "string \<Rightarrow> (('f, 'k, 'o, 'a, 'c) stream \<Rightarrow> (status \<times> ('f, 'k, 'o, 'a, 'c) stream) option)
   \<Rightarrow> (exn \<times> ('f, 'k, 'o, 'a, 'c) stream) option \<Rightarrow> ('f, 'k, 'o, 'a, 'c) stream option
   \<Rightarrow> (public_status \<times> ('f, 'k, 'o, 'a, 'c) stream option) option" where
  "public_call what entry thrown p =
    (case p of
       None \<Rightarrow> Some (PS_invalid_argument, None)
     | Some s \<Rightarrow>
         (case thrown of
            Some (e, s1) \<Rightarrow> let (st, s2) = caught what what e s1 in Some (st, Some s2)
          | None \<Rightarrow> map_option (\<lambda>(st, s1). (map_status st, Some s1)) (entry s)))"

definition public_finish ::
  "('f, 'k, 'o, 'a, 'c) runtime \<Rightarrow> (exn \<times> ('f, 'k, 'o, 'a, 'c) stream) option \<Rightarrow> ('f, 'k, 'o, 'a, 'c) stream option
   \<Rightarrow> (public_status \<times> ('f, 'k, 'o, 'a, 'c) stream option) option" where
  "public_finish rt = public_call ''finish'' (stream_finish rt)"

definition public_cancel ::
  "(exn \<times> ('f, 'k, 'o, 'a, 'c) stream) option \<Rightarrow> ('f, 'k, 'o, 'a, 'c) stream option
   \<Rightarrow> (public_status \<times> ('f, 'k, 'o, 'a, 'c) stream option) option" where
  "public_cancel = public_call ''cancel'' stream_cancel"

definition public_reset ::
  "(exn \<times> ('f, 'k, 'o, 'a, 'c) stream) option \<Rightarrow> ('f, 'k, 'o, 'a, 'c) stream option
   \<Rightarrow> (public_status \<times> ('f, 'k, 'o, 'a, 'c) stream option) option" where
  "public_reset thrown p =
    (case p of
       Some s \<Rightarrow>
         if lc_state (st_life s) = Running \<or> lc_state (st_life s) = Finishing
         then Some (PS_invalid_state, Some (set_error s St_invalid_state ''reset requires a created or terminal stream''))
         else public_call ''reset'' stream_reset thrown p
     | None \<Rightarrow> Some (PS_invalid_argument, None))"

section \<open>Queries\<close>

definition error_bytes :: "public_status \<Rightarrow> int \<Rightarrow> string \<Rightarrow> byte list" where
  "error_bytes st backend_code message =
    (let copy_bytes = utf8_prefix_at_most message (256 - 1)
     in le_bytes 4 272 @ le_bytes 4 api_version_current @ le_bytes 4 (public_status_code st) @
        le_bytes 4 backend_code @ string_bytes (take copy_bytes message) @ replicate (256 - copy_bytes) 0)"

definition copy_out :: "byte list option \<Rightarrow> byte list \<Rightarrow> (public_status \<times> byte list option) option" where
  "copy_out out val =
    map_option (\<lambda>(ok, mem). (if ok then PS_ok else PS_invalid_argument, mem)) (write_versioned_output out val 8)"

definition public_stream_last_error ::
  "('f, 'k, 'o, 'a, 'c) stream option \<Rightarrow> byte list option \<Rightarrow> (public_status \<times> byte list option) option" where
  "public_stream_last_error p out =
    (case (p, out) of
       (Some s, Some _) \<Rightarrow>
         let stored = stream_last_status p;
             st = (if stored = St_limit_exceeded
                   then if stream_last_feed_status p = Queue_full then PS_queue_full else PS_invalid_argument
                   else map_status stored)
         in copy_out out (error_bytes st 0 (lc_last_error (st_life s)))
     | _ \<Rightarrow> Some (PS_invalid_argument, out))"

text \<open>The two-call protocol of the transcript: the status, the caller's buffer and \<open>*required\<close>.\<close>

definition public_get_final_text ::
  "('f, 'k, 'o, 'a, 'c) stream option \<Rightarrow> string option \<Rightarrow> nat \<Rightarrow> (public_status \<times> string option \<times> int) option" where
  "public_get_final_text p buffer capacity =
    (case p of
       None \<Rightarrow> Some (PS_invalid_argument, buffer, 0)
     | Some s \<Rightarrow>
         if buffer = None \<and> capacity \<noteq> 0 then Some (PS_invalid_argument, buffer, 0)
         else if public_get_state p \<in> {Api_created, Api_active, Api_finishing} then Some (PS_not_ready, buffer, 0)
         else if public_get_state p \<noteq> Api_completed then Some (PS_invalid_state, buffer, 0)
         else let t = de_transcript (st_dec s); needed = length t + 1
              in if int (length t) = 2 ^ 64 - 1 then Some (PS_internal_error, buffer, 0)
                 else case buffer of
                   None \<Rightarrow> Some (PS_ok, None, int needed)
                 | Some mem \<Rightarrow>
                     if capacity < needed
                     then if capacity = 0 then Some (PS_buffer_too_small, buffer, int needed)
                          else if mem = [] then None
                          else Some (PS_buffer_too_small, Some (mem [0 := CHR 0x00]), int needed)
                     else if length mem < needed then None
                     else Some (PS_ok, Some (t @ CHR 0x00 # drop needed mem), int needed))"

section \<open>Models and contexts\<close>

text \<open>\<open>load\<close> is the model loader: an exception, or a model (none when loading failed).\<close>

definition public_model_load ::
  "(string \<Rightarrow> log_level \<Rightarrow> gpu_backend \<Rightarrow> exn + 'm option) \<Rightarrow> string option \<Rightarrow> byte list option \<Rightarrow> bool
   \<Rightarrow> (public_status \<times> 'm option) option" where
  "public_model_load load path params has_out =
    (if path = None \<or> path = Some [] \<or> \<not> has_out then Some (PS_invalid_argument, None)
     else do {
       (ok, p) \<leftarrow> normalize_model_params params;
       if \<not> ok \<or> mp_flags p \<noteq> 0 \<or> mp_reserved p \<noteq> 0 then Some (PS_invalid_argument, None)
       else (case (map_backend (mp_backend p), map_log_level (mp_log_level p)) of
               (Some backend, Some threshold) \<Rightarrow>
                 (case load (the path) threshold backend of
                    Inr (Some model) \<Rightarrow> Some (PS_ok, Some model)
                  | Inr None \<Rightarrow> Some (PS_model_error, None)
                  | Inl Bad_alloc \<Rightarrow> Some (PS_out_of_memory, None)
                  | Inl Other_exception \<Rightarrow> Some (PS_model_error, None))
             | _ \<Rightarrow> Some (PS_invalid_argument, None))
     })"

text \<open>The context as the C interface sees it; the execution state a stream borrows is \<open>ap_exec\<close>.\<close>

record ('f, 'k, 'o, 'a, 'c) api_context =
  ap_vocab :: vocab
  ap_is_offline :: bool
  ap_exec :: "('f, 'k, 'o, 'a, 'c) stream_context"
  ap_stream_active :: bool
  ap_last_status :: public_status
  ap_backend_code :: int
  ap_last_error :: string

definition set_context_error ::
  "('f, 'k, 'o, 'a, 'c) api_context \<Rightarrow> public_status \<Rightarrow> string \<Rightarrow> ('f, 'k, 'o, 'a, 'c) api_context" where
  "set_context_error c st message = c \<lparr> ap_last_status := st, ap_backend_code := 0, ap_last_error := message \<rparr>"

definition supports_incremental :: "('f, 'k, 'o, 'a, 'c) api_context \<Rightarrow> bool" where
  "supports_incremental c \<longleftrightarrow> \<not> ap_is_offline c"

definition try_acquire_public_stream ::
  "('f, 'k, 'o, 'a, 'c) api_context \<Rightarrow> bool \<times> ('f, 'k, 'o, 'a, 'c) api_context" where
  "try_acquire_public_stream c = (if ap_stream_active c then (False, c) else (True, c \<lparr> ap_stream_active := True \<rparr>))"

definition release_public_stream :: "('f, 'k, 'o, 'a, 'c) api_context \<Rightarrow> ('f, 'k, 'o, 'a, 'c) api_context" where
  "release_public_stream c = c \<lparr> ap_stream_active := False \<rparr>"

text \<open>\<open>init\<close> initializes a context for a thread count.\<close>

definition public_context_create ::
  "(int \<Rightarrow> exn + ('f, 'k, 'o, 'a, 'c) api_context option) \<Rightarrow> bool \<Rightarrow> byte list option \<Rightarrow> bool
   \<Rightarrow> (public_status \<times> ('f, 'k, 'o, 'a, 'c) api_context option) option" where
  "public_context_create init has_model config has_out =
    (if \<not> has_model \<or> \<not> has_out then Some (PS_invalid_argument, None)
     else do {
       (ok, c) \<leftarrow> normalize_context_config config;
       if \<not> ok \<or> cc_n_threads c < 0 \<or> cc_flags c \<noteq> 0 then Some (PS_invalid_argument, None)
       else (case init (cc_n_threads c) of
               Inr (Some context) \<Rightarrow> Some (PS_ok, Some (set_context_error context PS_ok []))
             | Inr None \<Rightarrow> Some (PS_backend_error, None)
             | Inl Bad_alloc \<Rightarrow> Some (PS_out_of_memory, None)
             | Inl Other_exception \<Rightarrow> Some (PS_backend_error, None))
     })"

definition public_context_last_error ::
  "('f, 'k, 'o, 'a, 'c) api_context option \<Rightarrow> byte list option \<Rightarrow> (public_status \<times> byte list option) option" where
  "public_context_last_error p out =
    (case (p, out) of
       (Some c, Some _) \<Rightarrow> copy_out out (error_bytes (ap_last_status c) (ap_backend_code c) (ap_last_error c))
     | _ \<Rightarrow> Some (PS_invalid_argument, out))"

definition capabilities_bytes :: "int \<Rightarrow> byte list" where
  "capabilities_bytes streaming =
    le_bytes 4 32 @ le_bytes 4 api_version_current @ le_bytes 4 16000 @ le_bytes 4 1 @ le_bytes 4 1 @
    le_bytes 4 streaming @ le_bytes 4 streaming @ le_bytes 4 streaming"

definition public_capabilities ::
  "('f, 'k, 'o, 'a, 'c) api_context option \<Rightarrow> byte list option \<Rightarrow> (public_status \<times> byte list option) option" where
  "public_capabilities p out =
    (case (p, out) of
       (Some c, Some _) \<Rightarrow> copy_out out (capabilities_bytes (if supports_incremental c then 1 else 0))
     | _ \<Rightarrow> Some (PS_invalid_argument, out))"

section \<open>Stream creation and destruction\<close>

text \<open>The part of creation after the lease was taken: \<open>thrown\<close> is an exception of the internal creation.\<close>

definition create_leased ::
  "stream_env \<Rightarrow> exn option \<Rightarrow> ('f, 'k, 'o, 'a, 'c) api_context \<Rightarrow> public_params
   \<Rightarrow> public_status \<times> ('f, 'k, 'o, 'a, 'c) stream option \<times> ('f, 'k, 'o, 'a, 'c) api_context" where
  "create_leased env thrown c p =
    (case thrown of
       Some Bad_alloc \<Rightarrow>
         (PS_out_of_memory, None,
          set_context_error (release_public_stream c) PS_out_of_memory ''stream creation allocation failed'')
     | Some Other_exception \<Rightarrow>
         (PS_internal_error, None,
          set_context_error (release_public_stream c) PS_internal_error ''stream creation threw an internal exception'')
     | None \<Rightarrow>
         (case stream_create_from_context env (Some (ap_vocab c)) (Some (ap_exec c))
                 (default_params \<lparr> sp_sample_rate := i32 (au_sample_rate (pp_audio p)),
                                   sp_channels := i32 (au_channels (pp_audio p)) \<rparr>) of
            None \<Rightarrow>
              (PS_out_of_memory, None,
               set_context_error (release_public_stream c) PS_out_of_memory ''failed to allocate stream state'')
          | Some s \<Rightarrow>
              (case stream_set_event_capacity s (pp_event_queue_capacity p) of
                 (False, _) \<Rightarrow>
                   (PS_invalid_argument, None,
                    set_context_error (release_public_stream c) PS_invalid_argument ''invalid event queue capacity'')
               | (True, s1) \<Rightarrow> (PS_ok, Some s1, set_context_error c PS_ok []))))"

definition create_checked ::
  "stream_env \<Rightarrow> exn option \<Rightarrow> ('f, 'k, 'o, 'a, 'c) api_context \<Rightarrow> bool \<Rightarrow> public_params
   \<Rightarrow> public_status \<times> ('f, 'k, 'o, 'a, 'c) stream option \<times> ('f, 'k, 'o, 'a, 'c) api_context" where
  "create_checked env thrown c ok p =
    (if \<not> ok \<or> pp_flags p \<noteq> 0 \<or> pp_reserved p \<noteq> 0 \<or> au_reserved (pp_audio p) \<noteq> 0 \<or>
        pp_event_queue_capacity p = 0 \<or> 4096 < pp_event_queue_capacity p
     then (PS_invalid_argument, None,
           set_context_error c PS_invalid_argument ''invalid stream parameter structure or queue capacity'')
     else if au_sample_rate (pp_audio p) \<noteq> 16000 \<or> au_channels (pp_audio p) \<noteq> 1 \<or> au_format (pp_audio p) \<noteq> 1
     then (PS_unsupported_audio_format, None,
           set_context_error c PS_unsupported_audio_format ''only mono 16000 Hz signed PCM16LE is supported'')
     else if \<not> supports_incremental c
     then (PS_model_error, None,
           set_context_error c PS_model_error ''the loaded model does not support realtime incremental streaming'')
     else case try_acquire_public_stream c of
            (False, c1) \<Rightarrow>
              (PS_invalid_state, None,
               set_context_error c1 PS_invalid_state ''one live stream per context is supported in API v1'')
          | (True, c1) \<Rightarrow> create_leased env thrown c1 p)"

definition public_stream_create ::
  "stream_env \<Rightarrow> exn option \<Rightarrow> ('f, 'k, 'o, 'a, 'c) api_context option \<Rightarrow> byte list option \<Rightarrow> bool
   \<Rightarrow> (public_status \<times> ('f, 'k, 'o, 'a, 'c) stream option \<times> ('f, 'k, 'o, 'a, 'c) api_context option) option" where
  "public_stream_create env thrown context params has_out =
    (case context of
       None \<Rightarrow> Some (PS_invalid_argument, None, None)
     | Some c \<Rightarrow>
         if params = None \<or> \<not> has_out
         then Some (PS_invalid_argument, None, Some (set_context_error c PS_invalid_argument
                ''stream create requires context, params and out_stream''))
         else do {
           (ok, p) \<leftarrow> normalize_stream_params params;
           (let (st, made, c1) = create_checked env thrown c ok p in Some (st, made, Some c1))
         })"

text \<open>Destroying a stream hands its execution state back and releases the lease (the context pointer of a stream
made above is never null); a context with a live stream is not destroyed.\<close>

definition public_stream_destroy ::
  "('f, 'k, 'o, 'a, 'c) stream \<Rightarrow> ('f, 'k, 'o, 'a, 'c) api_context \<Rightarrow> ('f, 'k, 'o, 'a, 'c) api_context" where
  "public_stream_destroy s c =
    release_public_stream (case st_ctx s of None \<Rightarrow> c | Some exec \<Rightarrow> c \<lparr> ap_exec := exec \<rparr>)"

definition public_context_destroy ::
  "('f, 'k, 'o, 'a, 'c) api_context \<Rightarrow> bool \<times> ('f, 'k, 'o, 'a, 'c) api_context" where
  "public_context_destroy c =
    (if ap_stream_active c
     then (False, set_context_error c PS_invalid_state ''cannot destroy context while a stream is alive'')
     else (True, c))"

end
