(* ===== verification/CApiCorrect.thy ===== *)
theory CApiCorrect
  imports CApi PumpCorrect
begin

text \<open>The contracts of the public C interface over \<open>CApi\<close>: a feed accepts all of its samples or none and
reports which, a fatal failure always leaves the stream in the error state with its error event queued, the
events handed out are numbered without gaps, one context never has two live streams, and the transcript is
read by the two-call protocol without leaving the caller's buffer.\<close>

section \<open>A full queue is remembered\<close>

definition pressed :: "('f, 'k, 'o, 'a, 'c) stream \<Rightarrow> bool" where
  "pressed s \<longleftrightarrow> ev_decoder_backpressured (st_ev s) \<and> lc_last_status (st_life s) = St_limit_exceeded"

lemma pressed_updates [simp]:
  "pressed (s \<lparr> st_front := f \<rparr>) = pressed s" "pressed (s \<lparr> st_diag := g \<rparr>) = pressed s"
  "pressed (set_aggressive b s) = pressed s" "pressed (set_in_operation b s) = pressed s"
  by (simp_all add: pressed_def set_aggressive_def set_in_operation_def)

lemma emit_token_refused:
  assumes "emit_token_event s tok pos special = (False, t)"
  shows "lc_last_status (st_life t) = St_limit_exceeded"
proof -
  have r: "lc_last_status (st_life u) = St_limit_exceeded"
    if "push_event_coalesced s0 (token_event s1 piece tok pos special) = (False, u)" for s0 s1 piece u
    using that by (auto simp: push_event_coalesced_def push_bounded_coalesced_def push_event_def Let_def split: if_splits)
  show ?thesis using assms by (auto simp: emit_token_event_def Let_def split: prod.splits bool.splits dest: r)
qed

lemma commit_refused: "commit_pending s = (False, t) \<Longrightarrow> pressed t"
  by (auto simp: commit_pending_def Let_def pressed_def split: if_splits prod.splits bool.splits dest: emit_token_refused)

lemma pump_steps_pressed: "pump_steps rt k s = (St_limit_exceeded, t) \<Longrightarrow> pressed t"
proof (induction rt k s rule: pump_steps.induct)
  case (1 rt k s)
  note pr = "1.prems" [unfolded pump_steps.simps [of rt k s]]
  show ?case
  proof (cases "de_position (st_dec s) \<le> k \<and> \<not> de_eos (st_dec s) \<and>
      (sp_max_tokens (st_params s) \<le> 0 \<or> de_tokens_emitted (st_dec s) < sp_max_tokens (st_params s))")
    case True
    then obtain ctx where ctx: "st_ctx s = Some ctx"
      using pr by (auto simp: Let_def split: option.splits)
    obtain ok s1 where r: "run_step rt ctx s = (ok, s1)" by force
    obtain ok2 s2 where c: "commit_pending s1 = (ok2, s2)" by force
    show ?thesis
      using pr "1.IH" [OF refl True ctx r [symmetric] _ c [symmetric]] True ctx r c commit_refused [of s1 t]
      by (auto simp: Let_def split: bool.splits)
  next
    case False
    then show ?thesis using pr by (auto simp: Let_def)
  qed
qed

lemma pump_pressed: "pump_incremental rt s = (St_limit_exceeded, t) \<Longrightarrow> pressed t"
  by (auto simp: pump_incremental_def Let_def split: if_splits option.splits prod.splits bool.splits
      dest: commit_refused pump_steps_pressed)

text \<open>A successful drain does not touch the events or the error fields.\<close>

definition quiet :: "('f, 'k, 'o, 'a, 'c) stream \<Rightarrow> ('f, 'k, 'o, 'a, 'c) stream \<Rightarrow> bool" where
  "quiet s t \<longleftrightarrow> st_ev t = st_ev s \<and> st_life t = st_life s"

lemma quiet_pressed: "quiet s t \<Longrightarrow> pressed t = pressed s"
  by (simp add: quiet_def pressed_def)

lemma capture_quiet: "capture_new_encoder_output_sha rt s = (True, t) \<Longrightarrow> quiet s t"
  by (auto simp: capture_new_encoder_output_sha_def Let_def quiet_def split: if_splits option.splits)

lemma drain_slice_quiet: "drain_slice rt ctx enc fe base n s = Some (True, t) \<Longrightarrow> quiet s t"
  using capture_quiet [of rt "set_enc _ s"]
  by (fastforce simp: drain_slice_def after_push_def set_enc_def quiet_def split: option.splits prod.splits bool.splits)

lemma drain_loop_quiet: "drain_loop rt k base s = Some (True, t) \<Longrightarrow> quiet s t"
proof (induction rt k base s rule: drain_loop.induct)
  case (1 rt k base s)
  show ?case
  proof (cases "base < k")
    case True
    then obtain enc fe ctx where e: "fr_enc (st_front s) = Some enc" "fr_mel_fe (st_front s) = Some fe" "st_ctx s = Some ctx"
      using "1.prems" by (subst (asm) drain_loop.simps) (auto split: option.splits)
    then obtain s1 where s1: "drain_slice rt ctx enc fe base (min 8 (k - base)) s = Some (True, s1)"
        "drain_loop rt k (base + min 8 (k - base)) s1 = Some (True, t)"
      using "1.prems" True by (subst (asm) drain_loop.simps) (auto split: option.splits prod.splits bool.splits)
    have "quiet s1 t" using "1.IH" True e s1 by auto
    then show ?thesis using drain_slice_quiet [OF s1(1)] by (simp add: quiet_def)
  next
    case False
    then show ?thesis using "1.prems" by (subst (asm) drain_loop.simps) (simp add: quiet_def)
  qed
qed

lemma drain_quiet: "drain_mel_to_encoder rt False s = Some (True, t) \<Longrightarrow> quiet s t"
  by (auto simp: drain_mel_to_encoder_def Let_def split: option.splits if_splits dest: drain_loop_quiet)
    (simp_all add: quiet_def)

section \<open>The outcome of a feed\<close>

lemma feed_slices_outcome:
  "feed_slices rt xs bp s = Some (r, t) \<Longrightarrow> (bp \<Longrightarrow> pressed s) \<Longrightarrow>
   (case r of Inl st \<Rightarrow> st = St_backend_error | Inr b \<Rightarrow> b \<longrightarrow> pressed t)"
proof (induction rt xs bp s arbitrary: r t rule: feed_slices.induct)
  case (1 rt xs bp s)
  note pr = "1.prems"(1) [unfolded feed_slices.simps [of rt xs bp s]]
  show ?case
  proof (cases "xs = []")
    case True
    then show ?thesis using pr "1.prems"(2) by auto
  next
    case ne: False
    obtain fe where fe: "fr_mel_fe (st_front s) = Some fe" using pr ne by (auto split: option.splits)
    obtain ok fe1 where f: "mel_frontend_feed (rt_ops rt) fe (Some (take 16000 xs)) (min 16000 (length xs)) = Some (ok, fe1)"
      using pr ne fe by (auto split: option.splits)
    define s1 where "s1 = s \<lparr> st_front := (st_front s) \<lparr> fr_mel_fe := Some fe1 \<rparr> \<rparr>"
    show ?thesis
    proof (cases ok)
      case False
      then show ?thesis using pr ne fe f by (auto simp: s1_def)
    next
      case ok: True
      obtain d s2 where d: "drain_mel_to_encoder rt False s1 = Some (d, s2)"
        using pr ne fe f ok by (auto simp: s1_def [symmetric] split: option.splits)
      show ?thesis
      proof (cases d)
        case False
        then show ?thesis using pr ne fe f ok d by (auto simp: s1_def [symmetric])
      next
        case dt: True
        have p2: "bp \<Longrightarrow> pressed s2"
          using quiet_pressed [OF drain_quiet [of rt s1 s2]] d dt "1.prems"(2) by (simp add: s1_def)
        obtain ps s3 where p: "pump_incremental rt s2 = (ps, s3)" by force
        have ps: "ps \<in> {St_ok, St_backend_error, St_limit_exceeded}" using pump_incremental_status [of rt s2] p by simp
        note ih = "1.IH" [OF ne fe f refl s1_def _ d [unfolded dt] refl]
        show ?thesis
        proof (cases "de_incremental (st_dec s2) \<and> \<not> bp")
          case True
          consider "ps = St_limit_exceeded" | "ps = St_backend_error" | "ps = St_ok" using ps by blast
          then show ?thesis
          proof cases
            case 1
            then have "feed_slices rt (drop 16000 xs) True s3 = Some (r, t)"
              using pr ne fe f ok d dt True p by (simp add: s1_def [symmetric])
            then show ?thesis using ih(1) [OF _ _ True refl p [symmetric] 1] ok dt pump_pressed [of rt s2 s3] p 1 by blast
          next
            case 2
            then show ?thesis using pr ne fe f ok d dt True p by (auto simp: s1_def [symmetric])
          next
            case 3
            then have "feed_slices rt (drop 16000 xs) bp s3 = Some (r, t)"
              using pr ne fe f ok d dt True p by (simp add: s1_def [symmetric])
            then show ?thesis using ih(2) [OF _ _ True refl p [symmetric]] ok dt True 3 by auto
          qed
        next
          case False
          then have "feed_slices rt (drop 16000 xs) bp s2 = Some (r, t)"
            using pr ne fe f ok d dt by (auto simp: s1_def [symmetric] split: if_splits)
          then show ?thesis using ih(3) [OF _ _ False] ok dt p2 by blast
        qed
      qed
    qed
  qed
qed

lemma consume_samples_outcome:
  assumes "consume_samples rt xs s = Some (r, t)"
  shows "case r of Inl st \<Rightarrow> st \<in> {St_backend_error, St_out_of_memory} | Inr b \<Rightarrow> b \<longrightarrow> pressed t"
proof -
  have "lc_last_status (st_life v) = St_out_of_memory" if "ensure_encoder rt u = (False, v)" for u v
    using that by (auto simp: ensure_encoder_def Let_def split: if_splits option.splits)
  then show ?thesis
    using assms feed_slices_outcome [of rt xs False _ r t]
    by (auto simp: consume_samples_def split: option.splits prod.splits bool.splits if_splits sum.splits)
qed

text \<open>The outcome of one feed of \<open>n\<close> samples: refused with nothing accepted, or everything accepted and
reported as ok or as a full queue.\<close>

definition feed_outcome ::
  "('f, 'k, 'o, 'a, 'c) stream \<Rightarrow> int \<Rightarrow> status \<Rightarrow> ('f, 'k, 'o, 'a, 'c) stream \<Rightarrow> bool" where
  "feed_outcome s n st t \<longleftrightarrow>
    ev_public_poll_sequence (st_ev t) = ev_public_poll_sequence (st_ev s) \<and>
    (st \<noteq> St_ok \<and> lc_total_samples_received (st_life t) = lc_total_samples_received (st_life s) \<or>
     lc_total_samples_received (st_life t) = lc_total_samples_received (st_life s) + n \<and>
       (st = St_ok \<or> st = St_limit_exceeded \<and> pressed t))"

lemma worked_feed_outcome: "worked s t \<Longrightarrow> st \<noteq> St_ok \<Longrightarrow> feed_outcome s n st t"
  by (simp add: feed_outcome_def worked_def)

lemma feed_outcome_worked: "worked s s1 \<Longrightarrow> feed_outcome s1 n st t \<Longrightarrow> feed_outcome s n st t"
  by (auto simp: feed_outcome_def worked_def)

lemma feed_outcome_updates [simp]:
  "feed_outcome s n st (set_in_operation b t) = feed_outcome s n st t"
  "feed_outcome (set_in_operation b s) n st t = feed_outcome s n st t"
  "feed_outcome s n st (set_aggressive b t) = feed_outcome s n st t"
  "feed_outcome (set_aggressive b s) n st t = feed_outcome s n st t"
  by (simp_all add: feed_outcome_def) (simp_all add: set_in_operation_def set_aggressive_def)

lemma feed_accepted_outcome:
  assumes "feed_accepted rt (convert_pcm16 rt) xs (lc_total_samples_received (st_life s) + n) s = Some (st, t)"
  shows "feed_outcome s n st t"
proof -
  obtain b s1 where f: "ensure_frontend rt s = (b, s1)" by force
  have w1: "worked s s1" using ensure_frontend_worked [of s rt] f by simp
  define ys where "ys = List.map (\<lambda>x. f_div (rt_ops rt) (f_of_int (rt_ops rt) x) (f_lit (rt_ops rt) 32768 0)) xs"
  define s3 where "s3 = s1 \<lparr> st_diag := (st_diag s1)
      \<lparr> dg_pcm_sha := sha_update (dg_pcm_sha (st_diag s1)) (concat (List.map (rt_float_bytes rt) ys)) \<rparr> \<rparr>"
  have w3: "worked s s3" using w1 by (simp add: s3_def)
  have conv: "convert_pcm16 rt xs s1 = (Some ys, s1)" by (simp add: convert_pcm16_def ys_def)
  consider "st = St_out_of_memory" "t = s1"
    | "st = St_out_of_memory" "t = set_error s1 St_out_of_memory ''pcm reserve failed: std::bad_alloc''"
    | r u where "consume_samples rt ys s3 = Some (r, u)"
        "(st, t) = (case r of Inl e \<Rightarrow> (e, u) | Inr bp \<Rightarrow> complete_feed (lc_total_samples_received (st_life s) + n) bp u)"
  proof (cases "b \<and> rt_reserve rt (length xs)")
    case True
    then have "map_option (\<lambda>(r, s4). case r of Inl st \<Rightarrow> (st, s4)
        | Inr bp \<Rightarrow> complete_feed (lc_total_samples_received (st_life s) + n) bp s4) (consume_samples rt ys s3) = Some (st, t)"
      using assms f conv by (simp add: feed_accepted_def s3_def)
    then obtain r u where "consume_samples rt ys s3 = Some (r, u)"
        "(case r of Inl e \<Rightarrow> (e, u) | Inr bp \<Rightarrow> complete_feed (lc_total_samples_received (st_life s) + n) bp u) = (st, t)"
      unfolding map_option_eq_Some by auto
    then show thesis by (rule that(3) [OF _ sym])
  next
    case False
    show thesis
    proof (cases b)
      case True
      then have "\<not> rt_reserve rt (length xs)" using False by simp
      then have "st = St_out_of_memory" "t = set_error s1 St_out_of_memory ''pcm reserve failed: std::bad_alloc''"
        using assms f True by (simp_all add: feed_accepted_def)
      then show thesis by (rule that(2))
    next
      case False
      then have "st = St_out_of_memory" "t = s1" using assms f by (simp_all add: feed_accepted_def)
      then show thesis by (rule that(1))
    qed
  qed
  then show ?thesis
  proof cases
    case 1
    then show ?thesis using worked_feed_outcome [OF w1] by simp
  next
    case 2
    then show ?thesis using worked_feed_outcome [OF worked_set_error [OF w1, of St_out_of_memory]] by simp
  next
    case (3 r u)
    have wu: "worked s u" using w3 consume_samples_worked [OF 3(1)] worked_trans by blast
    show ?thesis
    proof (cases r)
      case (Inl e)
      then show ?thesis using 3 consume_samples_outcome [OF 3(1)] worked_feed_outcome [OF wu] by auto
    next
      case (Inr bp)
      then have bp: "bp \<longrightarrow> pressed u" using consume_samples_outcome [OF 3(1)] by simp
      have "ev_public_poll_sequence (st_ev u) = ev_public_poll_sequence (st_ev s)" using wu by (simp add: worked_def)
      moreover have "st = fst (complete_feed (lc_total_samples_received (st_life s) + n) bp u)"
          "t = snd (complete_feed (lc_total_samples_received (st_life s) + n) bp u)"
        using 3(2) Inr by (metis fst_conv sum.case(2)) (metis 3(2) Inr snd_conv sum.case(2))
      ultimately show ?thesis using bp by (cases bp) (simp_all add: complete_feed_def Let_def feed_outcome_def pressed_def)
    qed
  qed
qed

lemma feed_input_outcome:
  assumes "feed_input rt (convert_pcm16 rt) input n s = Some (st, t)"
  shows "feed_outcome s (int n) st t"
proof -
  have adm: "admitted = lc_total_samples_received (st_life s) + int n"
    if "feed_admission (st_params s) (lc_total_samples_received (st_life s)) (int n) = Inr admitted" for admitted
    using that by (auto simp: feed_admission_def checked_sample_count_add_def split: if_splits option.splits)
  have refused: "st1 \<noteq> St_ok" if "feed_admission p r k = Inl (st1, msg)" for p r k st1 msg
    using that by (auto simp: feed_admission_def split: if_splits option.splits)
  consider "t = set_error s St_invalid_argument ''null samples with non-zero count''" "st = St_invalid_argument"
    | "st = St_ok" "n = 0" "t = (clear_error s) \<lparr> st_life := (st_life (clear_error s)) \<lparr> lc_feed_calls := lc_feed_calls (st_life s) + 1 \<rparr> \<rparr>"
    | msg st1 where "feed_admission (st_params s) (lc_total_samples_received (st_life s)) (int n) = Inl (st1, msg)"
        "t = set_error s st1 msg" "st = st1"
    | u k where "feed_admission (st_params s) (lc_total_samples_received (st_life s)) (int n) = Inr k"
        "t = set_aggressive (ev_aggressive_partial_coalescing (st_ev s)) u"
        "feed_accepted rt (convert_pcm16 rt) (take n (the input)) k (set_aggressive (aggressive_mode (st_ev s) (int n)) s) = Some (st, u)"
  proof (cases "input = None \<and> n \<noteq> 0 \<or> n = 0")
    case True
    then show thesis using that(1,2) assms by (cases "n = 0") (simp_all add: feed_input_def)
  next
    case False
    then show thesis
      using that(3,4) assms
      by (cases "feed_admission (st_params s) (lc_total_samples_received (st_life s)) (int n)")
        (auto simp: feed_input_def split: if_splits)
  qed
  then show ?thesis
  proof cases
    case 1
    then show ?thesis by (simp add: feed_outcome_def)
  next
    case 2
    then show ?thesis by (simp add: feed_outcome_def)
  next
    case (3 msg st1)
    then show ?thesis using refused [OF 3(1)] by (simp add: feed_outcome_def)
  next
    case (4 u k)
    have k: "k = lc_total_samples_received (st_life (set_aggressive (aggressive_mode (st_ev s) (int n)) s)) + int n"
      using adm [OF 4(1)] by simp
    show ?thesis using feed_accepted_outcome [OF 4(3) [unfolded k]] 4(2) by simp
  qed
qed

lemma feed_outcome_pcm16:
  assumes "stream_feed_pcm16 rt input n s = Some (st, t)" "stream_inv s"
  shows "feed_outcome s (int n) st t \<and> (fatal_status st \<longrightarrow> feed_allowed (lc_state (st_life s)))"
proof -
  define s0 where "s0 = set_in_operation True s"
  have g: "\<not> lc_in_operation (st_life s)" using assms(2) by (simp add: stream_inv_def)
  obtain u where u: "feed_body rt (convert_pcm16 rt) input n s0 = Some (st, u)" "t = set_in_operation False u"
    using assms(1) g by (auto simp: stream_feed_pcm16_def feed_common_def guarded_def s0_def)
  obtain rp s1 where p: "pump_incremental rt s0 = (rp, s1)" by force
  have w: "worked s0 s1" using pump_incremental_worked [of s0 rt] p by simp
  have "feed_outcome s0 (int n) st u"
  proof (cases "feed_allowed (lc_state (st_life s0))")
    case False
    then show ?thesis using u(1) by (simp add: feed_body_def) (auto simp: feed_outcome_def)
  next
    case allowed: True
    show ?thesis
    proof (cases "de_incremental (st_dec s0) \<and> ev_decoder_backpressured (st_ev s0)")
      case False
      then show ?thesis using u(1) allowed feed_input_outcome [of rt input n s0 st u] by (auto simp: feed_body_def split: if_splits)
    next
      case True
      consider "rp = St_limit_exceeded" "st = St_limit_exceeded"
          "u = s1 \<lparr> st_life := (st_life s1) \<lparr> lc_feed_calls := lc_feed_calls (st_life s1) + 1 \<rparr> \<rparr>"
        | "rp \<noteq> St_ok" "st = rp" "u = s1" | "feed_input rt (convert_pcm16 rt) input n s1 = Some (st, u)"
        using u(1) allowed True p by (simp add: feed_body_def) (metis option.inject prod.inject)
      then show ?thesis
      proof cases
        case 1
        then show ?thesis using w by (simp add: feed_outcome_def worked_def)
      next
        case 2
        then show ?thesis using worked_feed_outcome [OF w, of rp "int n"] by simp
      next
        case 3
        then show ?thesis by (rule feed_outcome_worked [OF w feed_input_outcome])
      qed
    qed
  qed
  moreover have "fatal_status st \<longrightarrow> feed_allowed (lc_state (st_life s))"
    using u(1) by (cases "feed_allowed (lc_state (st_life s0))") (simp_all add: feed_body_def fatal_status_def, auto simp: s0_def)
  ultimately show ?thesis by (simp add: u(2) s0_def)
qed

section \<open>Failing a stream\<close>

definition error_event :: "('f, 'k, 'o, 'a, 'c) stream \<Rightarrow> status \<Rightarrow> string \<Rightarrow> stream_event" where
  "error_event s st msg = (blank_event Ev_error)
    \<lparr> ev_text := msg, ev_error_code := status_code st,
      ev_t_audio_ms := samples_to_ms (lc_total_samples_received (st_life s)) (sp_sample_rate (st_params s)) \<rparr>"

lemma fail_stream_inv:
  assumes "stream_inv s" "\<not> terminal (lc_state (st_life s))" "st \<notin> {St_busy, St_cancelled}"
  shows "stream_inv (fail_stream s st msg) \<and> lc_state (st_life (fail_stream s st msg)) = Failed \<and>
    ev_queue (st_ev (fail_stream s st msg)) = ev_queue (st_ev s) @ [error_event s st msg] \<and>
    lc_last_status (st_life (fail_stream s st msg)) = st \<and>
    lc_total_samples_received (st_life (fail_stream s st msg)) = lc_total_samples_received (st_life s) \<and>
    ev_public_poll_sequence (st_ev (fail_stream s st msg)) = ev_public_poll_sequence (st_ev s)"
proof -
  let ?s = "set_error (s \<lparr> st_ev := (st_ev s) \<lparr> ev_finalizing_flush := True \<rparr> \<rparr>) st msg"
  have q: "int (length (ev_queue (st_ev s))) \<le> ev_max_events (st_ev s)"
    using assms(1,2) by (auto simp: stream_inv_def queue_within_bound_def event_bound_def)
  then have b: "\<not> event_bound (st_ev ?s) \<le> int (length (ev_queue (st_ev ?s)))"
    by (simp add: event_bound_def terminal_event_headroom_def)
  have e: "emit_error ?s st msg = ?s \<lparr> st_ev := enqueue (error_event s st msg) (st_ev ?s) \<rparr>"
    using b by (simp add: emit_error_def push_event_def Let_def error_event_def)
  have f: "fail_stream s st msg = set_state Failed (?s \<lparr> st_ev := enqueue (error_event s st msg) (st_ev ?s) \<rparr>)"
    using e by (simp add: fail_stream_def Let_def) (simp add: set_error_def)
  have "\<not> lc_cancelled_emitted (st_life s)" using assms(1,2) by (auto simp: stream_inv_def terminal_def)
  then show ?thesis
    using assms q unfolding f
    by (auto simp: stream_inv_def set_state_def set_error_def queue_within_bound_def event_bound_def terminal_def
        terminal_event_headroom_def)
qed

lemma event_status_error_event: "event_status (error_event s st msg) = map_status st"
  by (cases st) (simp_all add: event_status_def error_event_def blank_event_def status_of_code_def)

section \<open>Only polls number events\<close>

abbreviation poll_seq :: "('f, 'k, 'o, 'a, 'c) stream \<Rightarrow> int" where
  "poll_seq s \<equiv> ev_public_poll_sequence (st_ev s)"

definition counters :: "('f, 'k, 'o, 'a, 'c) stream \<Rightarrow> int \<times> int" where
  "counters s = (poll_seq s, lc_total_samples_received (st_life s))"

lemma counters_update [simp]:
  "counters (s \<lparr> st_dec := d \<rparr>) = counters s" "counters (set_in_operation b s) = counters s"
  "counters (set_error s st msg) = counters s" "counters (clear_error s) = counters s"
  "ev_public_poll_sequence e = poll_seq s \<Longrightarrow> counters (s \<lparr> st_ev := e \<rparr>) = counters s"
  "lc_total_samples_received l = lc_total_samples_received (st_life s) \<Longrightarrow> counters (s \<lparr> st_life := l \<rparr>) = counters s"
  by (simp_all add: counters_def set_in_operation_def set_error_def clear_error_def)

lemma worked_counters: "worked s t \<Longrightarrow> counters t = counters s"
  by (simp add: worked_def counters_def)

lemma fail_with_counters: "counters (snd (fail_with st msg s)) = counters s"
  using worked_counters [OF emit_error_worked, of "set_error s st msg" st msg] by (simp add: fail_with_def set_state_def)

lemma set_state_counters [simp]: "counters (set_state st s) = counters s"
  by (simp add: set_state_def)

lemma conclude_finish_counters: "counters (snd (conclude_finish out s)) = counters s"
proof -
  have n: "counters (note_inference_run s) = counters s" by (simp add: note_inference_run_def)
  show ?thesis
    by (cases out) (simp_all add: conclude_finish_def Let_def n fail_with_counters worked_counters [OF emit_final_worked])
qed

lemma finish_ready_counters: "finish_ready rt s = Some (st, t) \<Longrightarrow> counters t = counters s"
  by (auto simp: finish_ready_def Let_def worked_counters [OF emit_final_worked] fail_with_counters split: if_splits
      dest!: worked_counters [OF finish_inference_worked] dest: arg_cong [of _ _ snd])
    (metis conclude_finish_counters fail_with_counters snd_conv)+

lemma finish_active_counters:
  assumes "finish_active rt s = Some (st, t)"
  shows "counters t = counters s"
proof -
  obtain pending s1 where p: "(if de_incremental (st_dec s) \<and> ev_decoder_backpressured (st_ev s)
      then pump_incremental rt s else (St_ok, s)) = (pending, s1)" by force
  have w: "counters s1 = counters s"
    using p pump_incremental_worked [of s rt] worked_counters [of s s1] by (auto split: if_splits)
  define s2 where "s2 = s1 \<lparr> st_ev := (st_ev s1) \<lparr> ev_finalizing_flush := True \<rparr> \<rparr>"
  have w2: "counters s2 = counters s" using w by (simp add: s2_def)
  consider "t = s1" | "t = set_state Failed (emit_error s2 pending (lc_last_error (st_life s2)))"
    | "finish_ready rt (set_state Finishing s2) = Some (st, t)"
    using assms p by (auto simp: finish_active_def Let_def s2_def [symmetric] split: if_splits)
  then show ?thesis
    using w w2 worked_counters [OF emit_error_worked, of s2 pending "lc_last_error (st_life s2)"] finish_ready_counters [of rt "set_state Finishing s2" st t]
    by cases simp_all
qed

lemma guarded_counters:
  assumes "guarded body s = Some (st, t)"
    and "\<And>u v st1. body u = Some (st1, v) \<Longrightarrow> counters v = counters u"
  shows "counters t = counters s"
proof (cases "lc_in_operation (st_life s)")
  case True
  then show ?thesis using assms(1) by (simp add: guarded_def)
next
  case False
  then obtain u where "body (set_in_operation True s) = Some (st, u)" "t = set_in_operation False u"
    using assms(1) by (auto simp: guarded_def)
  then show ?thesis using assms(2) [of "set_in_operation True s" st u] by simp
qed

lemma finish_counters: "stream_finish rt s = Some (st, t) \<Longrightarrow> counters t = counters s"
  unfolding stream_finish_def
  by (erule guarded_counters) (auto simp: finish_body_def dest: finish_active_counters split: stream_state.splits)

lemma cancel_counters: "stream_cancel (s :: ('a, 'b, 'c, 'd, 'e) stream) = Some (st, t) \<Longrightarrow> counters t = counters s"
proof -
  have e: "counters (emit_cancelled u) = counters u" for u :: "('a, 'b, 'c, 'd, 'e) stream"
    using worked_counters [OF push_event_worked, of "u \<lparr> st_ev := (st_ev u) \<lparr> ev_finalizing_flush := True \<rparr> \<rparr>"]
    by (simp add: emit_cancelled_def Let_def)
  show "stream_cancel s = Some (st, t) \<Longrightarrow> counters t = counters s"
    unfolding stream_cancel_def
    by (erule guarded_counters) (auto simp: cancel_body_def e split: stream_state.splits)
qed

lemma finish_seq: "stream_finish rt s = Some (st, t) \<Longrightarrow> poll_seq t = poll_seq s"
  using finish_counters by (fastforce simp: counters_def)

lemma cancel_seq: "stream_cancel s = Some (st, t) \<Longrightarrow> poll_seq t = poll_seq s"
  using cancel_counters by (fastforce simp: counters_def)

section \<open>Public runs\<close>

datatype api_op =
    Api_feed "int list option" nat
  | Api_finish
  | Api_cancel
  | Api_reset
  | Api_poll "byte list option"

fun api_apply ::
  "('f, 'k, 'o, 'a, 'c) runtime \<Rightarrow> api_op \<Rightarrow> ('f, 'k, 'o, 'a, 'c) stream
   \<Rightarrow> (public_status \<times> public_event option \<times> ('f, 'k, 'o, 'a, 'c) stream) option" where
  "api_apply rt (Api_feed input n) s =
    map_option (\<lambda>(st, _, p). (st, None, the p)) (public_feed_pcm16 rt None (Some s) input n)"
| "api_apply rt Api_finish s = map_option (\<lambda>(st, p). (st, None, the p)) (public_finish rt None (Some s))"
| "api_apply rt Api_cancel s = map_option (\<lambda>(st, p). (st, None, the p)) (public_cancel None (Some s))"
| "api_apply rt Api_reset s = map_option (\<lambda>(st, p). (st, None, the p)) (public_reset None (Some s))"
| "api_apply rt (Api_poll mem) s =
    map_option (\<lambda>(st, _, ev, p). (st, ev, the p)) (public_poll_event (Some s) mem)"

text \<open>A stream made by the public constructor and driven by public calls, with the events polled since it was
created or last reset.\<close>

inductive api_trace :: "('f, 'k, 'o, 'a, 'c) runtime \<Rightarrow> public_event list \<Rightarrow> ('f, 'k, 'o, 'a, 'c) stream \<Rightarrow> bool"
  for rt :: "('f, 'k, 'o, 'a, 'c) runtime" where
  made: "public_stream_create env thrown context params out = Some (PS_ok, Some s, c) \<Longrightarrow> api_trace rt [] s"
| call: "api_trace rt evs s \<Longrightarrow> api_apply rt op s = Some (st, ev, t) \<Longrightarrow> op \<noteq> Api_reset \<or> st \<noteq> PS_ok \<Longrightarrow>
    api_trace rt (evs @ (case ev of None \<Rightarrow> [] | Some e \<Rightarrow> [e])) t"
| restart: "api_trace rt evs s \<Longrightarrow> api_apply rt Api_reset s = Some (PS_ok, ev, t) \<Longrightarrow> api_trace rt [] t"

lemma le_value_nonneg: "0 \<le> le_value bs"
  by (induction bs) auto

lemma capacity_nonneg:
  assumes "normalize_stream_params params = Some (ok, p)"
  shows "0 \<le> pp_event_queue_capacity p"
proof -
  have r: "read_field mem n offset k 4096 = Some v \<Longrightarrow> 0 \<le> v" for mem n offset k v
    by (auto simp: read_field_def le_value_nonneg split: if_splits)
  show ?thesis using assms
    by (auto simp: normalize_stream_params_def stream_default_params_def split: Option.bind_splits option.splits) (erule r)
qed

lemma create_parts:
  assumes "public_stream_create env thrown context params has_out = Some (PS_ok, Some s, c1)"
  obtains ctx p s0 where "context = Some ctx" "normalize_stream_params params = Some (True, p)" "\<not> ap_stream_active ctx"
    "stream_create_from_context env (Some (ap_vocab ctx)) (Some (ap_exec ctx))
       (default_params \<lparr> sp_sample_rate := i32 (au_sample_rate (pp_audio p)), sp_channels := i32 (au_channels (pp_audio p)) \<rparr>) = Some s0"
    "stream_set_event_capacity s0 (pp_event_queue_capacity p) = (True, s)" "pp_event_queue_capacity p \<noteq> 0"
    "c1 = Some (set_context_error (ctx \<lparr> ap_stream_active := True \<rparr>) PS_ok [])"
proof -
  obtain ctx where ctx: "context = Some ctx" "params \<noteq> None" "has_out"
    using assms by (auto simp: public_stream_create_def split: option.splits if_splits)
  obtain ok p where p: "normalize_stream_params params = Some (ok, p)"
      "create_checked env thrown ctx ok p = (PS_ok, Some s, the c1)" "c1 \<noteq> None"
    using assms ctx by (auto simp: public_stream_create_def Let_def split: Option.bind_splits prod.splits)
  have c: "ok" "pp_event_queue_capacity p \<noteq> 0" "\<not> ap_stream_active ctx"
      "create_leased env thrown (ctx \<lparr> ap_stream_active := True \<rparr>) p = (PS_ok, Some s, the c1)"
    using p(2) by (auto simp: create_checked_def try_acquire_public_stream_def split: if_splits)
  obtain s0 where s0: "stream_create_from_context env (Some (ap_vocab ctx)) (Some (ap_exec ctx))
       (default_params \<lparr> sp_sample_rate := i32 (au_sample_rate (pp_audio p)), sp_channels := i32 (au_channels (pp_audio p)) \<rparr>) = Some s0"
    "stream_set_event_capacity s0 (pp_event_queue_capacity p) = (True, s)"
    "the c1 = set_context_error (ctx \<lparr> ap_stream_active := True \<rparr>) PS_ok []"
    using c(4) by (auto simp: create_leased_def split: option.splits exn.splits prod.splits bool.splits)
  show thesis using that [OF ctx(1) _ c(3) s0(1,2) c(2)] p c s0(3) by auto
qed

lemma create_inv:
  assumes "public_stream_create env thrown context params has_out = Some (PS_ok, Some s, c1)"
  shows "stream_inv s \<and> poll_seq s = 0 \<and> lc_state (st_life s) = Created"
proof (rule create_parts [OF assms])
  fix ctx p s0
  assume s0: "normalize_stream_params params = Some (True, p)"
    "stream_create_from_context env (Some (ap_vocab ctx)) (Some (ap_exec ctx))
       (default_params \<lparr> sp_sample_rate := i32 (au_sample_rate (pp_audio p)), sp_channels := i32 (au_channels (pp_audio p)) \<rparr>) = Some s0"
    "stream_set_event_capacity s0 (pp_event_queue_capacity p) = (True, s)"
  obtain b where b: "stream_reset b = Some (St_ok, s0)"
    using s0(2) by (auto simp: stream_create_from_context_def split: if_splits option.splits prod.splits status.splits)
  have "poll_seq s0 = 0" "lc_state (st_life s0) = Created"
    using b by (auto simp: stream_reset_def guarded_def reset_events_def split: if_splits)
  moreover have "s = snd (stream_set_event_capacity s0 (int (nat (pp_event_queue_capacity p))))"
    using s0(3) capacity_nonneg [OF s0(1)] by simp
  ultimately show ?thesis
    using set_capacity_step [OF stream_borrow_inv [OF s0(2)], of "nat (pp_event_queue_capacity p)"]
    by (auto simp: stream_set_event_capacity_def split: if_splits)
qed

text \<open>One public call.\<close>

lemma api_feed_step:
  assumes "public_feed_pcm16 rt None (Some s) input n = Some (st, consumed, p)" "stream_inv s"
  obtains t where "p = Some t" "stream_inv t" "poll_seq t = poll_seq s"
proof -
  obtain result s1 where f: "stream_feed_pcm16 rt input n s = Some (result, s1)"
    and p: "p = Some (if fatal_status result then fail_stream s1 result (lc_last_error (st_life s1)) else s1)"
    using assms(1) by (auto simp: public_feed_pcm16_def Let_def)
  have i: "stream_inv s1 \<and> lc_state (st_life s1) \<in> next_states (FeedPcm16 input n :: 'a stream_op) (lc_state (st_life s))"
    using apply_op_step [of rt "FeedPcm16 input n" s result s1] f assms(2) by simp
  note o = feed_outcome_pcm16 [OF f assms(2)]
  have "stream_inv (fail_stream s1 result msg) \<and> poll_seq (fail_stream s1 result msg) = poll_seq s1" if "fatal_status result" for msg
  proof -
    have "\<not> terminal (lc_state (st_life s1))" using o that i by (auto simp: feed_allowed_def terminal_def split: if_splits)
    moreover have "result \<notin> {St_busy, St_cancelled}" using that by (auto simp: fatal_status_def)
    ultimately show ?thesis using fail_stream_inv [of s1 result msg] i by blast
  qed
  then show thesis using that [OF p] i o by (auto simp: feed_outcome_def)
qed

lemma api_poll_step:
  assumes "public_poll_event (Some s) mem = Some (st, mem1, ev, p)"
  shows "(ev = None \<and> p = Some s \<and> st \<noteq> PS_ok) \<or>
    (\<exists>e q t. ev_queue (st_ev s) = e # q \<and> st = PS_ok \<and> ev = Some (public_event_of e (poll_seq t)) \<and> p = Some t \<and>
       poll_seq t = (poll_seq s + 1) mod 2 ^ 64 \<and> ev_queue (st_ev t) = q \<and> st_life t = st_life s \<and> (stream_inv s \<longrightarrow> stream_inv t))"
proof (cases "stream_poll_event s")
  case None
  then show ?thesis using assms
    by (auto simp: public_poll_event_def split: option.splits Option.bind_splits if_splits)
next
  case (Some r)
  obtain e s1 where r: "r = (e, s1)" by force
  have q: "ev_queue (st_ev s) = e # ev_queue (st_ev s1)" "poll_seq s1 = poll_seq s" "st_life s1 = st_life s"
    using Some r by (auto simp: stream_poll_event_def split: list.splits)
  have i: "stream_inv (poll_advance s1)" if "stream_inv s"
    using poll_step [OF that Some [unfolded r]] by (auto simp: poll_advance_def stream_inv_def queue_within_bound_def event_bound_def)
  show ?thesis using assms Some r q i
    by (auto simp: public_poll_event_def poll_advance_def Let_def split: option.splits Option.bind_splits if_splits)
qed

lemma api_reset_step:
  assumes "public_reset None (Some s) = Some (st, p)" "stream_inv s"
  shows "\<exists>t. p = Some t \<and> stream_inv t \<and> (st \<noteq> PS_ok \<longrightarrow> poll_seq t = poll_seq s) \<and> (st = PS_ok \<longrightarrow> poll_seq t = 0)"
proof (cases "lc_state (st_life s) = Running \<or> lc_state (st_life s) = Finishing")
  case True
  then show ?thesis using assms
    by (auto simp: public_reset_def stream_inv_def set_error_def queue_within_bound_def)
next
  case False
  obtain t where t: "stream_reset s = Some (St_ok, t)" "poll_seq t = 0"
    using assms(2) by (auto simp: stream_reset_def guarded_def stream_inv_def reset_events_def)
  then show ?thesis using assms False reset_step [OF t(1) assms(2)]
    by (auto simp: public_reset_def public_call_def)
qed

text \<open>What a polled event holds: at most 4095 bytes of well-formed text, which is the beginning of the source text.\<close>

definition event_text_ok :: "public_event \<Rightarrow> bool" where
  "event_text_ok e \<longleftrightarrow> pe_text_length e = length (pe_text e) \<and> length (pe_text e) \<le> 4095 \<and>
    (\<exists>cs. list_all scalar_value cs \<and> pe_text e = utf8_text cs)"

lemma event_text_ok_public: "event_text_ok (public_event_of ev n)"
proof -
  have "event_text_ok (copy_event_text d source k)" for d source k
  proof -
    let ?n = "utf8_prefix_at_most source (min (min k (length source)) 4095)"
    have p: "?n \<le> 4095" "?n \<le> length source" "\<exists>cs. list_all scalar_value cs \<and> take ?n source = utf8_text cs"
      using prefix_well_formed [of source "min (min k (length source)) 4095"] by auto
    then show ?thesis by (simp add: copy_event_text_def Let_def event_text_ok_def min_absorb2)
  qed
  then show ?thesis by (simp add: public_event_of_def Let_def)
qed

lemma api_trace_inv:
  "api_trace rt evs s \<Longrightarrow>
   stream_inv s \<and> poll_seq s = int (length evs) mod 2 ^ 64 \<and>
   List.map pe_sequence evs = List.map (\<lambda>i. (int i + 1) mod 2 ^ 64) [0..<length evs] \<and> list_all event_text_ok evs"
proof (induction rule: api_trace.induct)
  case (made env thrown ctx params has_out s c)
  then show ?case using create_inv [OF made(1)] by simp
next
  case (restart evs s ev t)
  then show ?case using api_reset_step [of s PS_ok] by fastforce
next
  case (call evs s op st ev t)
  have i: "stream_inv s" using call.IH by simp
  have silent: ?case if "ev = None" "stream_inv t" "poll_seq t = poll_seq s" using that call.IH by simp
  show ?case
  proof (cases op)
    case (Api_feed input n)
    then obtain c p where f: "public_feed_pcm16 rt None (Some s) input n = Some (st, c, p)" "ev = None" "t = the p"
      using call.hyps by auto
    show ?thesis by (rule api_feed_step [OF f(1) i]) (use silent f in auto)
  next
    case Api_finish
    then obtain r where f: "stream_finish rt s = Some (r, t)" "ev = None"
      using call.hyps by (auto simp: public_finish_def public_call_def)
    show ?thesis using silent f(2) finish_step [OF f(1) i] finish_seq [OF f(1)] by blast
  next
    case Api_cancel
    then obtain r where f: "stream_cancel s = Some (r, t)" "ev = None"
      using call.hyps by (auto simp: public_cancel_def public_call_def)
    show ?thesis using silent f(2) cancel_step [OF f(1) i] cancel_seq [OF f(1)] by blast
  next
    case Api_reset
    then obtain p where p: "public_reset None (Some s) = Some (st, p)" "ev = None" "t = the p" "st \<noteq> PS_ok"
      using call.hyps by auto
    show ?thesis using silent p api_reset_step [OF p(1) i] by auto
  next
    case (Api_poll mem)
    then obtain mem1 p where p: "public_poll_event (Some s) mem = Some (st, mem1, ev, p)" "t = the p"
      using call.hyps by auto
    from api_poll_step [OF p(1)] show ?thesis
    proof (elim disjE exE conjE)
      assume "ev = None" "p = Some s"
      then show ?thesis using silent p(2) i by simp
    next
      fix e q u
      assume e: "ev = Some (public_event_of e (poll_seq u))" "p = Some u" "poll_seq u = (poll_seq s + 1) mod 2 ^ 64"
        "stream_inv s \<longrightarrow> stream_inv u"
      have "pe_sequence (public_event_of e k) = k" for k by (simp add: public_event_of_def copy_event_text_def Let_def)
      moreover have "poll_seq u = (int (length evs) + 1) mod 2 ^ 64" using e(3) call.IH by (simp add: mod_add_left_eq)
      ultimately show ?thesis using e p(2) i call.IH event_text_ok_public [of e] by (simp add: algebra_simps)
    qed
  qed
qed

section \<open>Examples\<close>

definition example_api_context :: "(unit, unit, unit, unit, int) api_context" where
  "example_api_context =
    \<lparr> ap_vocab = \<lparr> vb_num_special = 3, vb_special_ranks = [], vb_vocab_b64 = [], vb_cache = (\<lambda>_. None) \<rparr>,
      ap_is_offline = False, ap_exec = echo_context, ap_stream_active = False, ap_last_status = PS_ok,
      ap_backend_code = 0, ap_last_error = [] \<rparr>"

definition example_event_buffer :: "byte list" where
  "example_event_buffer = le_bytes 4 4160 @ le_bytes 4 api_version_current @ replicate 4152 0"

definition example_stream_bytes :: "byte list" where
  "example_stream_bytes = stream_params_bytes 48 stream_default_params"

lemma example_params_read: "normalize_stream_params (Some example_stream_bytes) = Some (True, stream_default_params)"
  by code_simp

definition example_api_stream :: "(unit, unit, unit, unit, int) stream" where
  "example_api_stream =
    the (stream_create_from_context plain_env (Some (ap_vocab example_api_context)) (Some echo_context) default_params)"

lemma example_created:
  "stream_create_from_context plain_env (Some (ap_vocab example_api_context)) (Some echo_context) default_params = Some example_api_stream"
  by (simp add: example_api_stream_def stream_create_from_context_def allocate_stream_state_def plain_env_def
      stream_params_check_def default_params_def Let_def stream_reset_def guarded_def new_stream_def new_lifecycle_def)

lemma example_stream_simps [simp]:
  "lc_state (st_life example_api_stream) = Created" "ev_queue (st_ev example_api_stream) = []"
  "ev_max_events (st_ev example_api_stream) = 4096" "lc_in_operation (st_life example_api_stream) = False"
  "lc_total_samples_received (st_life example_api_stream) = 0" "st_ctx example_api_stream \<noteq> None"
  "lc_cancelled_emitted (st_life example_api_stream) = False"
  by (simp_all add: example_api_stream_def stream_create_from_context_def allocate_stream_state_def plain_env_def
      stream_params_check_def default_params_def Let_def stream_reset_def guarded_def new_defs reset_body_def
      reset_lifecycle_def reset_events_def clear_error_def max_events_default_def set_in_operation_def)

lemma example_api_create:
  "\<exists>c. public_stream_create plain_env None (Some example_api_context) (Some example_stream_bytes) True =
     Some (PS_ok, Some example_api_stream, Some c)"
proof -
  have "default_params \<lparr> sp_sample_rate := i32 16000, sp_channels := i32 1 \<rparr> = default_params"
    by (simp add: default_params_def i32_def)
  moreover have "ap_exec example_api_context = echo_context" "\<not> ap_stream_active example_api_context"
    "supports_incremental example_api_context"
    by (simp_all add: example_api_context_def supports_incremental_def)
  ultimately show ?thesis
    using example_created
    by (simp add: public_stream_create_def example_params_read create_checked_def stream_default_params_def
        audio_default_config_def try_acquire_public_stream_def supports_incremental_def
        create_leased_def stream_set_event_capacity_def max_events_default_def)
qed

lemma example_api_trace: "api_trace rt [] example_api_stream"
  using example_api_create api_trace.made by fastforce

section \<open>Properties\<close>

text \<open>What a public feed did.\<close>

lemma feed_contract:
  assumes "api_trace rt evs s" "public_feed_pcm16 rt None (Some s) input n = Some (st, consumed, Some t)"
  shows "consumed \<in> {0, int n} \<and>
    lc_total_samples_received (st_life t) = lc_total_samples_received (st_life s) + consumed \<and>
    (st = PS_ok \<longrightarrow> consumed = int n) \<and> (consumed \<noteq> 0 \<longrightarrow> st \<in> {PS_ok, PS_queue_full}) \<and>
    (if st \<in> {PS_backend_error, PS_out_of_memory, PS_internal_error}
     then public_get_state (Some t) = Api_error \<and> (\<exists>q e. ev_queue (st_ev t) = q @ [e] \<and> event_status e = st)
     else lc_state (st_life t) \<in> {lc_state (st_life s), Running})"
proof -
  have i: "stream_inv s" using api_trace_inv [OF assms(1)] by simp
  obtain result s1 where f: "stream_feed_pcm16 rt input n s = Some (result, s1)"
    and t: "t = (if fatal_status result then fail_stream s1 result (lc_last_error (st_life s1)) else s1)"
    and st: "st = map_feed_status (Some t) result"
    and c: "consumed = (if lc_total_samples_received (st_life s) \<le> lc_total_samples_received (st_life s1)
        then lc_total_samples_received (st_life s1) - lc_total_samples_received (st_life s) else 0)"
    using assms(2) by (auto simp: public_feed_pcm16_def Let_def)
  have i1: "stream_inv s1 \<and> lc_state (st_life s1) \<in> next_states (FeedPcm16 input n :: 'a stream_op) (lc_state (st_life s))"
    using apply_op_step [of rt "FeedPcm16 input n" s result s1] f i by simp
  note o = feed_outcome_pcm16 [OF f i]
  show ?thesis
  proof (cases "fatal_status result")
    case True
    have "\<not> terminal (lc_state (st_life s1))" using o True i1 by (auto simp: feed_allowed_def terminal_def split: if_splits)
    moreover have "result \<notin> {St_busy, St_cancelled}" using True by (auto simp: fatal_status_def)
    moreover have "t = fail_stream s1 result (lc_last_error (st_life s1))" using t True by simp
    ultimately have t1: "lc_state (st_life t) = Failed \<and>
        ev_queue (st_ev t) = ev_queue (st_ev s1) @ [error_event s1 result (lc_last_error (st_life s1))] \<and>
        lc_total_samples_received (st_life t) = lc_total_samples_received (st_life s1)"
      using fail_stream_inv [of s1 result "lc_last_error (st_life s1)"] i1 by auto
    have "lc_total_samples_received (st_life s1) = lc_total_samples_received (st_life s)"
      using o True by (auto simp: feed_outcome_def fatal_status_def)
    moreover have "st = map_status result \<and> st \<in> {PS_backend_error, PS_out_of_memory, PS_internal_error}"
      using st True by (auto simp: map_feed_status_def fatal_status_def)
    ultimately show ?thesis using t1 c event_status_error_event [of s1 result "lc_last_error (st_life s1)"]
      by (auto simp: public_get_state_def stream_get_state_def)
  next
    case False
    then have t1: "t = s1" using t by simp
    have "st \<notin> {PS_backend_error, PS_out_of_memory, PS_internal_error}"
      using st False by (cases result) (auto simp: map_feed_status_def fatal_status_def)
    moreover have "lc_state (st_life t) \<in> {lc_state (st_life s), Running}" using i1 t1 by (auto split: if_splits)
    moreover have "st = PS_ok \<longrightarrow> result = St_ok" using st by (cases result) (auto simp: map_feed_status_def split: if_splits)
    moreover have "result = St_limit_exceeded \<and> pressed t \<longrightarrow> st = PS_queue_full"
      using st by (auto simp: map_feed_status_def stream_last_feed_status_def pressed_def)
    moreover have "result = St_ok \<longrightarrow> st = PS_ok" using st by (simp add: map_feed_status_def)
    ultimately have q: "st \<notin> {PS_backend_error, PS_out_of_memory, PS_internal_error}"
        "lc_state (st_life t) \<in> {lc_state (st_life s), Running}" "st = PS_ok \<longrightarrow> result = St_ok"
        "result = St_limit_exceeded \<and> pressed t \<longrightarrow> st = PS_queue_full" "result = St_ok \<longrightarrow> st = PS_ok" by blast+
    have d: "result \<noteq> St_ok \<and> lc_total_samples_received (st_life t) = lc_total_samples_received (st_life s) \<or>
        lc_total_samples_received (st_life t) = lc_total_samples_received (st_life s) + int n \<and>
        (result = St_ok \<or> result = St_limit_exceeded \<and> pressed t)"
      using o unfolding t1 feed_outcome_def by blast
    have k: "lc_total_samples_received (st_life t) = lc_total_samples_received (st_life s) \<Longrightarrow> consumed = 0"
        "lc_total_samples_received (st_life t) = lc_total_samples_received (st_life s) + int n \<Longrightarrow> consumed = int n"
      unfolding c t1 by simp_all
    from d show ?thesis
    proof (elim disjE conjE)
      assume "result \<noteq> St_ok" and r: "lc_total_samples_received (st_life t) = lc_total_samples_received (st_life s)"
      then have "st \<noteq> PS_ok" using q(3) by blast
      then show ?thesis using q(1,2) k(1) [OF r] r by simp
    next
      assume r: "lc_total_samples_received (st_life t) = lc_total_samples_received (st_life s) + int n" and "result = St_ok"
      then have "st = PS_ok" using q(5) by blast
      then show ?thesis using q(1,2) k(2) [OF r] r by simp
    next
      assume r: "lc_total_samples_received (st_life t) = lc_total_samples_received (st_life s) + int n"
        and "result = St_limit_exceeded" "pressed t"
      then have "st = PS_queue_full" using q(4) by blast
      then show ?thesis using q(1,2) k(2) [OF r] r by simp
    qed
  qed
qed

text \<open>C26: A public feed is all or nothing and says which: the accepted count is 0 or the whole call and is exactly the
growth of the stream's sample counter, ok means everything was accepted, accepted audio is only ever reported as ok
or (when the event queue filled up while it was processed) as queue_full, and a backend, memory or internal failure
always leaves the stream in the error state with an error event of that very status as the last queued event; every
other outcome leaves the state or moves created to active.\<close>

theorem public_feed_contract:
  assumes "api_trace rt evs s" "public_feed_pcm16 rt None (Some s) input n = Some (st, consumed, Some t)"
  shows "consumed \<in> {0, int n} \<and>
    lc_total_samples_received (st_life t) = lc_total_samples_received (st_life s) + consumed \<and>
    (st = PS_ok \<longrightarrow> consumed = int n) \<and> (consumed \<noteq> 0 \<longrightarrow> st \<in> {PS_ok, PS_queue_full}) \<and>
    (if st \<in> {PS_backend_error, PS_out_of_memory, PS_internal_error}
     then public_get_state (Some t) = Api_error \<and> (\<exists>q e. ev_queue (st_ev t) = q @ [e] \<and> event_status e = st)
     else lc_state (st_life t) \<in> {lc_state (st_life s), Running})"
  by (rule feed_contract [OF assms])

lemma public_feed_contract_witness:
  "\<exists>t. public_feed_pcm16 echo_runtime None (Some example_api_stream) (Some [1, -2, 3]) 3 = Some (PS_ok, 3, Some t) \<and>
     lc_total_samples_received (st_life t) = 3"
proof -
  have "map_option (\<lambda>(st, c, p). (st, c, p = None))
      (public_feed_pcm16 echo_runtime None (Some example_api_stream) (Some [1, -2, 3]) 3) = Some (PS_ok, 3, False)"
    by code_simp
  then obtain t where t: "public_feed_pcm16 echo_runtime None (Some example_api_stream) (Some [1, -2, 3]) 3 = Some (PS_ok, 3, Some t)"
    by auto
  from public_feed_contract [OF example_api_trace t] t show ?thesis by auto
qed

text \<open>C27: Whatever a client calls in whatever order, the events polled since the stream was created or last reset are
numbered 1, 2, 3, ... without gap or repetition, and each carries at most 4095 bytes of well-formed UTF-8 text of
the announced length.\<close>

theorem public_events_numbered:
  assumes "api_trace rt evs s" "length evs < 2 ^ 64"
  shows "List.map pe_sequence evs = [1..int (length evs)] \<and> list_all event_text_ok evs"
proof -
  have "List.map pe_sequence evs = List.map (\<lambda>i. int i + 1) [0..<length evs]"
    using api_trace_inv [OF assms(1)] assms(2) by (auto intro!: map_cong)
  also have "\<dots> = [1..int (length evs)]" by (rule nth_equalityI) auto
  finally show ?thesis using api_trace_inv [OF assms(1)] by simp
qed

lemma poll_ok:
  assumes "stream_poll_event s = Some (ev, s1)" "read_header (Some mem) = Some (Some n)" "4160 \<le> n" "4160 \<le> length mem"
  shows "api_apply rt (Api_poll (Some mem)) s =
    Some (PS_ok, Some (public_event_of ev (poll_seq (poll_advance s1))), poll_advance s1)"
  using assms by (simp add: public_poll_event_def Let_def)

lemma public_events_numbered_witness:
  "\<exists>s e. api_trace echo_runtime [e] s \<and> pe_sequence e = 1 \<and> pe_text e = ''cancelled'' \<and> pe_status e = PS_cancelled"
proof -
  obtain t where t: "api_apply echo_runtime Api_cancel example_api_stream = Some (PS_ok, None, t)"
      "List.map (\<lambda>ev. (ev_type ev, ev_text ev)) (ev_queue (st_ev t)) = [(Ev_cancelled, [])]"
    by (simp add: public_cancel_def public_call_def stream_cancel_def guarded_def cancel_body_def set_state_def
        emit_cancelled_def push_event_def event_bound_def terminal_event_headroom_def Let_def clear_error_def blank_event_def
        set_in_operation_def)
  have tr: "api_trace echo_runtime [] t" using api_trace.call [OF example_api_trace t(1)] by simp
  obtain ev where ev: "ev_queue (st_ev t) = [ev]" "ev_type ev = Ev_cancelled" "ev_text ev = []" using t(2) by auto
  have h: "read_header (Some example_event_buffer) = Some (Some 4160)"
    unfolding example_event_buffer_def by (rule read_header_at [of _ 4160 "replicate 4152 0"]) auto
  have l: "4160 \<le> length example_event_buffer" by (simp add: example_event_buffer_def)
  obtain s1 where "stream_poll_event t = Some (ev, s1)" using ev(1) by (simp add: stream_poll_event_def)
  note p = poll_ok [OF this h order_refl l, of echo_runtime]
  let ?e = "public_event_of ev (poll_seq (poll_advance s1))"
  have "api_trace echo_runtime [?e] (poll_advance s1)" using api_trace.call [OF tr p] by simp
  moreover have "utf8_prefix_at_most ''cancelled'' (min (min (length ''cancelled'') (length ''cancelled'')) (4096 - 1)) = length ''cancelled''"
    by code_simp
  then have "pe_text ?e = ''cancelled''" using ev unfolding public_event_of_def copy_event_text_def Let_def
    by (simp only: simp_thms if_True if_False event_type.distinct public_event.simps public_event.update_convs) simp
  moreover have "pe_status ?e = PS_cancelled" using ev by (simp add: public_event_of_def copy_event_text_def Let_def event_status_def)
  ultimately show ?thesis using public_events_numbered [of echo_runtime "[?e]"] by auto
qed

section \<open>One live stream per context\<close>

record ('f, 'k, 'o, 'a, 'c) api_world =
  wd_context :: "('f, 'k, 'o, 'a, 'c) api_context"
  wd_streams :: "('f, 'k, 'o, 'a, 'c) stream list"
  wd_freed :: bool

text \<open>What a client does with one context: it creates streams from any parameters, calls and destroys the live
ones, and asks for the context to be destroyed, in any order.\<close>

inductive world_step :: "('f, 'k, 'o, 'a, 'c) runtime \<Rightarrow> ('f, 'k, 'o, 'a, 'c) api_world \<Rightarrow> ('f, 'k, 'o, 'a, 'c) api_world \<Rightarrow> bool"
  for rt :: "('f, 'k, 'o, 'a, 'c) runtime" where
  create: "\<not> wd_freed w \<Longrightarrow> public_stream_create env thrown (Some (wd_context w)) params has_out = Some (st, made, Some c) \<Longrightarrow>
    world_step rt w (w \<lparr> wd_context := c,
      wd_streams := wd_streams w @ (case made of None \<Rightarrow> [] | Some s \<Rightarrow> [s]) \<rparr>)"
| call: "i < length (wd_streams w) \<Longrightarrow> api_apply rt op (wd_streams w ! i) = Some (st, ev, t) \<Longrightarrow>
    world_step rt w (w \<lparr> wd_streams := (wd_streams w) [i := t] \<rparr>)"
| destroy: "i < length (wd_streams w) \<Longrightarrow>
    world_step rt w (w \<lparr> wd_context := public_stream_destroy (wd_streams w ! i) (wd_context w),
      wd_streams := take i (wd_streams w) @ drop (Suc i) (wd_streams w) \<rparr>)"
| free: "\<not> wd_freed w \<Longrightarrow> public_context_destroy (wd_context w) = (freed, c) \<Longrightarrow>
    world_step rt w (w \<lparr> wd_context := c, wd_freed := freed \<rparr>)"

definition lease_inv :: "('f, 'k, 'o, 'a, 'c) api_world \<Rightarrow> bool" where
  "lease_inv w \<longleftrightarrow> length (wd_streams w) = (if ap_stream_active (wd_context w) then 1 else 0) \<and>
    (wd_freed w \<longrightarrow> wd_streams w = [])"

lemma set_context_error_lease [simp]: "ap_stream_active (set_context_error c st msg) = ap_stream_active c"
  by (simp add: set_context_error_def)

lemma create_lease:
  assumes "public_stream_create env thrown (Some c0) params has_out = Some (st, made, Some c)"
  shows "(made = None \<and> st \<noteq> PS_ok \<and> ap_stream_active c = ap_stream_active c0) \<or>
    (made \<noteq> None \<and> st = PS_ok \<and> \<not> ap_stream_active c0 \<and> ap_stream_active c)"
proof (cases "params = None \<or> \<not> has_out")
  case True
  then show ?thesis using assms by (auto simp: public_stream_create_def)
next
  case False
  then obtain ok p where "create_checked env thrown c0 ok p = (st, made, c)"
    using assms by (auto simp: public_stream_create_def Let_def split: Option.bind_splits prod.splits)
  moreover have "(made = None \<and> st \<noteq> PS_ok \<and> \<not> ap_stream_active c) \<or> (made \<noteq> None \<and> st = PS_ok \<and> ap_stream_active c)"
    if "create_leased env thrown (c0 \<lparr> ap_stream_active := True \<rparr>) p = (st, made, c)"
    using that by (auto simp: create_leased_def release_public_stream_def split: option.splits exn.splits prod.splits bool.splits)
  ultimately show ?thesis
    by (auto simp: create_checked_def try_acquire_public_stream_def split: if_splits)
qed

lemma world_step_lease: "world_step rt w v \<Longrightarrow> lease_inv w \<Longrightarrow> lease_inv v"
proof (induction rule: world_step.induct)
  case (create w env thrown params has_out st made c)
  then show ?case using create_lease [OF create(2)] by (auto simp: lease_inv_def split: option.splits)
next
  case (call i w op st ev t)
  then show ?case by (auto simp: lease_inv_def)
next
  case (destroy i w)
  then show ?case
    by (auto simp: lease_inv_def public_stream_destroy_def release_public_stream_def split: if_splits option.splits)
next
  case (free w freed c)
  then show ?case by (auto simp: lease_inv_def public_context_destroy_def split: if_splits)
qed

text \<open>C28: Whatever sequence of creations, stream calls, destructions and context destructions a client issues on a
context that started without a stream: at no time are there two live streams, a stream is live exactly when the
context's lease is taken (so no failed creation leaks the lease and no destruction forgets it), and the context is
never freed under a live stream.\<close>

theorem one_live_stream_per_context:
  assumes "(world_step rt)\<^sup>*\<^sup>* w v" "wd_streams w = []" "\<not> wd_freed w" "\<not> ap_stream_active (wd_context w)"
  shows "length (wd_streams v) \<le> 1 \<and> (ap_stream_active (wd_context v) \<longleftrightarrow> wd_streams v \<noteq> []) \<and>
    (wd_freed v \<longrightarrow> wd_streams v = [])"
proof -
  have "lease_inv w" using assms(2-4) by (simp add: lease_inv_def)
  with assms(1) have "lease_inv v" by (induction rule: rtranclp_induct) (auto intro: world_step_lease)
  then show ?thesis by (auto simp: lease_inv_def split: if_splits)
qed

text \<open>A creation, then a refused context destruction.\<close>

lemma one_live_stream_per_context_witness:
  "\<exists>v. (world_step echo_runtime)\<^sup>*\<^sup>* \<lparr> wd_context = example_api_context, wd_streams = [], wd_freed = False \<rparr> v \<and>
     wd_streams v = [example_api_stream] \<and> ap_stream_active (wd_context v) \<and> \<not> wd_freed v \<and>
     ap_last_status (wd_context v) = PS_invalid_state"
proof -
  let ?w = "\<lparr> wd_context = example_api_context, wd_streams = [], wd_freed = False \<rparr>"
  obtain c where c: "public_stream_create plain_env None (Some (wd_context ?w)) (Some example_stream_bytes) True =
      Some (PS_ok, Some example_api_stream, Some c)" using example_api_create by auto
  have s: "world_step echo_runtime ?w \<lparr> wd_context = c, wd_streams = [example_api_stream], wd_freed = False \<rparr>"
    using world_step.create [of ?w, OF _ c, of echo_runtime] by simp
  then have r: "(world_step echo_runtime)\<^sup>*\<^sup>* ?w \<lparr> wd_context = c, wd_streams = [example_api_stream], wd_freed = False \<rparr>"
    by (rule r_into_rtranclp)
  have w: "\<not> ap_stream_active (wd_context ?w)" by (simp add: example_api_context_def)
  have "ap_stream_active c" using one_live_stream_per_context [OF r _ _ w] by simp
  let ?v = "\<lparr> wd_context = set_context_error c PS_invalid_state ''cannot destroy context while a stream is alive'',
        wd_streams = [example_api_stream], wd_freed = False \<rparr>"
  have "world_step echo_runtime \<lparr> wd_context = c, wd_streams = [example_api_stream], wd_freed = False \<rparr> ?v"
    using world_step.free [of "\<lparr> wd_context = c, wd_streams = [example_api_stream], wd_freed = False \<rparr>", where freed = False and rt = echo_runtime]
      \<open>ap_stream_active c\<close>
    by (simp add: public_context_destroy_def)
  with r have "(world_step echo_runtime)\<^sup>*\<^sup>* ?w ?v" by (rule rtranclp.rtrancl_into_rtrancl)
  moreover have "ap_stream_active (wd_context ?v)" "ap_last_status (wd_context ?v) = PS_invalid_state"
    using \<open>ap_stream_active c\<close> by (simp_all add: set_context_error_def)
  ultimately show ?thesis by (intro exI [of _ ?v]) simp
qed

section \<open>The final text\<close>

text \<open>The two-call protocol of the transcript: on a completed stream the size query returns the length with the
terminating NUL; with any buffer of the capacity given the call stays inside it and keeps its length, it
succeeds exactly when the capacity is at least that size and then the buffer starts with the transcript and its NUL
and is otherwise unchanged, and a short buffer has at most its first byte cleared; on a stream that is not completed
the buffer is untouched and the status is not_ready before, invalid_state after a cancellation or failure.\<close>

theorem final_text_two_calls:
  assumes "int (length (de_transcript (st_dec s))) < 2 ^ 64 - 1" "length mem = capacity" "needed = length (de_transcript (st_dec s)) + 1"
  shows "if lc_state (st_life s) = Completed
    then public_get_final_text (Some s) None 0 = Some (PS_ok, None, int needed) \<and>
      (if needed \<le> capacity
       then public_get_final_text (Some s) (Some mem) capacity =
         Some (PS_ok, Some (de_transcript (st_dec s) @ CHR 0x00 # drop needed mem), int needed) \<and>
         length (de_transcript (st_dec s) @ CHR 0x00 # drop needed mem) = capacity
       else public_get_final_text (Some s) (Some mem) capacity =
         Some (PS_buffer_too_small, Some (mem [0 := CHR 0x00]), int needed))
    else public_get_final_text (Some s) (Some mem) capacity =
      Some (if lc_state (st_life s) \<in> {Cancelled, Failed} then PS_invalid_state else PS_not_ready, Some mem, 0)"
proof (cases "lc_state (st_life s) = Completed")
  case True
  have "int (length (de_transcript (st_dec s))) \<noteq> 2 ^ 64 - 1" using assms(1) by linarith
  then show ?thesis using assms True
    by (auto simp: public_get_final_text_def public_get_state_def stream_get_state_def Let_def)
next
  case False
  then show ?thesis
    by (cases "lc_state (st_life s)") (simp_all add: public_get_final_text_def public_get_state_def stream_get_state_def)
qed

lemma final_text_two_calls_witness:
  "\<exists>s. public_get_final_text (Some (s :: (unit, unit, unit, unit, int) stream)) None 0 = Some (PS_ok, None, 3) \<and>
     public_get_final_text (Some s) (Some ''xyz12'') 5 = Some (PS_ok, Some (''hi'' @ [CHR 0x00] @ ''12''), 3) \<and>
     public_get_final_text (Some s) (Some ''xy'') 2 = Some (PS_buffer_too_small, Some [CHR 0x00, CHR ''y''], 3)"
proof -
  define s :: "(unit, unit, unit, unit, int) stream" where
    "s = example_api_stream \<lparr> st_life := (st_life example_api_stream) \<lparr> lc_state := Completed \<rparr>,
       st_dec := (st_dec example_api_stream) \<lparr> de_transcript := ''hi'' \<rparr> \<rparr>"
  have a: "int (length (de_transcript (st_dec s))) < 2 ^ 64 - 1" "lc_state (st_life s) = Completed" "de_transcript (st_dec s) = ''hi''"
    by (simp_all add: s_def)
  show ?thesis
    using final_text_two_calls [OF a(1), of "''xyz12''" 5 3] final_text_two_calls [OF a(1), of "''xy''" 2 3] a
    by (intro exI [of _ s]) simp
qed

end
