(* ===== verification/ServerQueue.thy ===== *)
theory ServerQueue
  imports Complex_Main Prelude
begin

text \<open>The two synchronisation objects of the server: the bounded PCM queue between the network thread and the
inference worker (\<open>server/bounded-queue.h\<close>) and the process-global GPU lease with its cancellation flag
(\<open>server/gpu-lease.h\<close>, \<open>server/gpu-lease.cpp\<close>).  Every method runs under its object's mutex, so the operations
are atomic steps; a wait is the outer \<^term>\<open>None\<close> of \<open>pop\<close>.  Proved: the queue is a bounded FIFO of samples
that loses nothing until it is cancelled, and at most one lease is ever live.\<close>

section \<open>The PCM queue\<close>

record pcm_queue =
  pq_capacity :: nat
  pq_chunks :: "int list list"
  pq_queued :: nat
  pq_finishing :: bool
  pq_cancelled :: bool

definition new_queue :: "nat \<Rightarrow> pcm_queue" where
  "new_queue capacity =
    \<lparr> pq_capacity = capacity, pq_chunks = [], pq_queued = 0, pq_finishing = False, pq_cancelled = False \<rparr>"

function worker_chunks :: "int list \<Rightarrow> int list list" where
  "worker_chunks samples = (if samples = [] then [] else take 1280 samples # worker_chunks (drop 1280 samples))"
  by auto
termination by (relation "measure length") auto

declare worker_chunks.simps [simp del]

definition push_some :: "pcm_queue \<Rightarrow> int list \<Rightarrow> nat \<times> pcm_queue" where
  "push_some q samples =
    (if pq_cancelled q \<or> pq_finishing q \<or> samples = [] then (0, q)
     else let available = (if pq_queued q < pq_capacity q then pq_capacity q - pq_queued q else 0);
              accepted = min available (length samples)
          in if accepted = 0 then (0, q)
             else (accepted, q \<lparr> pq_chunks := pq_chunks q @ worker_chunks (take accepted samples),
                                 pq_queued := pq_queued q + accepted \<rparr>))"

datatype pop_result = Pop_audio "int list" | Pop_finish | Pop_cancel

definition queue_pop :: "pcm_queue \<Rightarrow> (pop_result \<times> pcm_queue) option" where
  "queue_pop q =
    (if \<not> pq_cancelled q \<and> pq_chunks q = [] \<and> \<not> pq_finishing q then None
     else if pq_cancelled q then Some (Pop_cancel, q)
     else case pq_chunks q of
            chunk # rest \<Rightarrow>
              Some (Pop_audio chunk, q \<lparr> pq_chunks := rest, pq_queued := pq_queued q - length chunk \<rparr>)
          | [] \<Rightarrow> Some (Pop_finish, q))"

definition queue_finish :: "pcm_queue \<Rightarrow> pcm_queue" where
  "queue_finish q = q \<lparr> pq_finishing := True \<rparr>"

definition queue_cancel :: "pcm_queue \<Rightarrow> pcm_queue" where
  "queue_cancel q = q \<lparr> pq_cancelled := True, pq_chunks := [], pq_queued := 0 \<rparr>"

text \<open>What a bounded sample queue promises, whatever its representation.\<close>

locale sample_queue =
  fixes push :: "'q \<Rightarrow> int list \<Rightarrow> nat \<times> 'q"
    and pop :: "'q \<Rightarrow> (int list \<times> 'q) option"
    and content :: "'q \<Rightarrow> int list"
    and ok :: "'q \<Rightarrow> bool"
    and bound :: nat
  assumes push_law: "ok q \<Longrightarrow> push q xs = (n, r) \<Longrightarrow> ok r \<and> n \<le> length xs \<and> content r = content q @ take n xs"
    and pop_law: "ok q \<Longrightarrow> pop q = Some (xs, r) \<Longrightarrow> ok r \<and> xs \<noteq> [] \<and> content q = xs @ content r"
    and bounded: "ok q \<Longrightarrow> length (content q) \<le> bound"
begin

text \<open>A producer and a consumer in any interleaving: offers and removals.\<close>

fun run :: "int list option list \<Rightarrow> 'q \<Rightarrow> int list \<times> int list \<times> 'q" where
  "run [] q = ([], [], q)"
| "run (Some xs # ops) q = (case push q xs of (n, r) \<Rightarrow> case run ops r of (a, b, s) \<Rightarrow> (take n xs @ a, b, s))"
| "run (None # ops) q =
    (case pop q of None \<Rightarrow> run ops q | Some (xs, r) \<Rightarrow> (case run ops r of (a, b, s) \<Rightarrow> (a, xs @ b, s)))"

lemma run_fifo: "ok q \<Longrightarrow> run ops q = (accepted, removed, s) \<Longrightarrow> ok s \<and> content q @ accepted = removed @ content s"
proof (induction ops q arbitrary: accepted removed s rule: run.induct)
  case (1 q)
  then show ?case by simp
next
  case (2 xs ops q)
  obtain n r where p: "push q xs = (n, r)" by force
  obtain a b s' where r: "run ops r = (a, b, s')" by (metis prod_cases3)
  show ?case using 2 p r push_law [OF "2.prems"(1) p] by auto
next
  case (3 ops q)
  show ?case
  proof (cases "pop q")
    case None
    then show ?thesis using 3 by simp
  next
    case (Some p)
    obtain xs r where xr: "p = (xs, r)" by force
    obtain a b s' where r: "run ops r = (a, b, s')" by (metis prod_cases3)
    show ?thesis using 3 Some xr r pop_law [OF "3.prems"(1), of xs r] by auto
  qed
qed

end

text \<open>The representation invariant.\<close>

definition queue_ok :: "pcm_queue \<Rightarrow> bool" where
  "queue_ok q \<longleftrightarrow> pq_queued q = length (concat (pq_chunks q)) \<and> pq_queued q \<le> pq_capacity q \<and>
    list_all (\<lambda>c. c \<noteq> [] \<and> length c \<le> 1280) (pq_chunks q)"

definition queue_content :: "pcm_queue \<Rightarrow> int list" where
  "queue_content q = concat (pq_chunks q)"

definition pop_audio :: "pcm_queue \<Rightarrow> (int list \<times> pcm_queue) option" where
  "pop_audio q = (case queue_pop q of Some (Pop_audio xs, r) \<Rightarrow> Some (xs, r) | _ \<Rightarrow> None)"

lemma worker_chunks_concat [simp]: "concat (worker_chunks xs) = xs"
proof (induction xs rule: worker_chunks.induct)
  case (1 xs)
  then show ?case by (subst worker_chunks.simps) simp
qed

lemma worker_chunks_sizes: "list_all (\<lambda>c. c \<noteq> [] \<and> length c \<le> 1280) (worker_chunks xs)"
proof (induction xs rule: worker_chunks.induct)
  case (1 xs)
  then show ?case by (subst worker_chunks.simps) auto
qed

lemma new_queue_ok [simp]: "queue_ok (new_queue n)" "queue_content (new_queue n) = []"
  by (simp_all add: new_queue_def queue_ok_def queue_content_def)

lemma push_some_law:
  assumes "queue_ok q" "push_some q xs = (n, r)"
  shows "queue_ok r \<and> n \<le> length xs \<and> queue_content r = queue_content q @ take n xs \<and>
    pq_capacity r = pq_capacity q \<and> pq_finishing r = pq_finishing q \<and> pq_cancelled r = pq_cancelled q"
  using assms worker_chunks_sizes [of "take n xs"]
  by (auto simp: push_some_def Let_def queue_ok_def queue_content_def min_def split: if_splits)

lemma queue_pop_audio:
  assumes "queue_ok q" "queue_pop q = Some (Pop_audio xs, r)"
  shows "queue_ok r \<and> xs \<noteq> [] \<and> queue_content q = xs @ queue_content r \<and> length xs \<le> 1280 \<and>
    pq_capacity r = pq_capacity q \<and> pq_finishing r = pq_finishing q \<and> \<not> pq_cancelled q \<and> \<not> pq_cancelled r"
  using assms by (auto simp: queue_pop_def queue_ok_def queue_content_def split: if_splits list.splits)

lemma queue_pop_other:
  assumes "queue_pop q = Some (p, r)" "\<forall>xs. p \<noteq> Pop_audio xs"
  shows "r = q \<and> (p = Pop_finish \<longrightarrow> queue_content q = [] \<and> pq_finishing q \<and> \<not> pq_cancelled q) \<and> (p = Pop_cancel \<longrightarrow> pq_cancelled q)"
  using assms by (auto simp: queue_pop_def queue_content_def split: if_splits list.splits)

definition queue_within :: "nat \<Rightarrow> pcm_queue \<Rightarrow> bool" where
  "queue_within capacity q \<longleftrightarrow> queue_ok q \<and> pq_capacity q = capacity"

interpretation pcm: sample_queue push_some pop_audio queue_content "queue_within capacity" capacity for capacity
proof
  show "queue_within capacity q \<Longrightarrow> push_some q xs = (n, r) \<Longrightarrow>
      queue_within capacity r \<and> n \<le> length xs \<and> queue_content r = queue_content q @ take n xs" for q xs n r
    using push_some_law [of q xs n r] by (simp add: queue_within_def)
  show "queue_within capacity q \<Longrightarrow> pop_audio q = Some (xs, r) \<Longrightarrow>
      queue_within capacity r \<and> xs \<noteq> [] \<and> queue_content q = xs @ queue_content r" for q xs r
    using queue_pop_audio [of q xs r] by (auto simp: pop_audio_def queue_within_def split: option.splits prod.splits pop_result.splits)
  show "queue_within capacity q \<Longrightarrow> length (queue_content q) \<le> capacity" for q
    by (simp add: queue_within_def queue_ok_def queue_content_def)
qed

text \<open>C29: Between a producer that offers any blocks and a consumer that takes chunks, in any interleaving, the PCM
queue is a FIFO of samples that holds at most its capacity: what was accepted is, in order, what was taken followed
by what is still queued; nothing is lost, repeated or reordered.\<close>

theorem pcm_queue_bounded_fifo:
  assumes "pcm.run ops (new_queue capacity) = (accepted, removed, q)"
  shows "accepted = removed @ queue_content q \<and> length (queue_content q) \<le> capacity \<and> pq_queued q = length (queue_content q)"
proof -
  have "queue_within capacity (new_queue capacity)" by (simp add: queue_within_def) (simp add: new_queue_def)
  from pcm.run_fifo [OF this assms] pcm.bounded [of capacity q] show ?thesis
    by (simp add: queue_within_def queue_ok_def queue_content_def) (simp add: new_queue_def)
qed

text \<open>A queue of four samples: the second block is accepted in part, and again after a removal.\<close>

lemma pcm_queue_bounded_fifo_witness:
  "\<exists>q. pcm.run [Some [1, 2, 3], Some [4, 5, 6], None, Some [5, 6]] (new_queue 4) = ([1, 2, 3, 4, 5, 6], [1, 2, 3], q) \<and>
     queue_content q = [4, 5, 6]"
proof -
  have "\<exists>q. pcm.run [Some [1, 2, 3], Some [4, 5, 6], None, Some [5, 6]] (new_queue 4) = ([1, 2, 3, 4, 5, 6], [1, 2, 3], q)"
    by (simp add: push_some_def new_queue_def worker_chunks.simps pop_audio_def queue_pop_def)
  then obtain q where q: "pcm.run [Some [1, 2, 3], Some [4, 5, 6], None, Some [5, 6]] (new_queue 4) = ([1, 2, 3, 4, 5, 6], [1, 2, 3], q)" ..
  from pcm_queue_bounded_fifo [OF q] q show ?thesis by auto
qed

section \<open>Cancellation and the GPU lease\<close>

datatype gpu_mode = Gpu_free | Gpu_batch | Gpu_realtime | Gpu_shutting_down

datatype cancel_reason = No_reason | By_client | By_disconnect | By_shutdown | By_capacity | By_protocol

text \<open>\<open>compare_exchange\<close> from none: the first reason stays.\<close>

definition request_cancel :: "cancel_reason \<Rightarrow> cancel_reason \<Rightarrow> cancel_reason" where
  "request_cancel reason current =
    (if reason = No_reason then current else if current = No_reason then reason else current)"

definition cancel_requested :: "cancel_reason \<Rightarrow> bool" where
  "cancel_requested r \<longleftrightarrow> r \<noteq> No_reason"

text \<open>The manager, and the cancellation objects of the process: a shared pointer is an index into \<open>lm_cells\<close>.\<close>

record lease_manager =
  lm_mode :: gpu_mode
  lm_active :: "nat option"
  lm_cells :: "cancel_reason list"

definition new_manager :: lease_manager where
  "new_manager = \<lparr> lm_mode = Gpu_free, lm_active = None, lm_cells = [] \<rparr>"

text \<open>A lease object; it is live while it has a manager.\<close>

record gpu_lease =
  gl_live :: bool
  gl_mode :: gpu_mode
  gl_cancellation :: "nat option"

definition empty_lease :: gpu_lease where
  "empty_lease = \<lparr> gl_live = False, gl_mode = Gpu_free, gl_cancellation = None \<rparr>"

definition try_acquire :: "gpu_mode \<Rightarrow> lease_manager \<Rightarrow> gpu_lease \<times> lease_manager" where
  "try_acquire mode m =
    (if mode \<noteq> Gpu_batch \<and> mode \<noteq> Gpu_realtime then (empty_lease, m)
     else if lm_mode m \<noteq> Gpu_free then (empty_lease, m)
     else let cell = length (lm_cells m)
          in (\<lparr> gl_live = True, gl_mode = mode, gl_cancellation = Some cell \<rparr>,
              m \<lparr> lm_mode := mode, lm_active := Some cell, lm_cells := lm_cells m @ [No_reason] \<rparr>))"

definition request_at :: "cancel_reason \<Rightarrow> nat option \<Rightarrow> lease_manager \<Rightarrow> lease_manager" where
  "request_at reason cell m =
    (case cell of None \<Rightarrow> m
     | Some i \<Rightarrow> m \<lparr> lm_cells := (lm_cells m) [i := request_cancel reason (lm_cells m ! i)] \<rparr>)"

definition begin_shutdown :: "lease_manager \<Rightarrow> lease_manager" where
  "begin_shutdown m = (request_at By_shutdown (lm_active m) m) \<lparr> lm_mode := Gpu_shutting_down \<rparr>"

definition manager_release :: "gpu_mode \<Rightarrow> lease_manager \<Rightarrow> lease_manager" where
  "manager_release mode m = m \<lparr> lm_mode := (if lm_mode m = mode then Gpu_free else lm_mode m), lm_active := None \<rparr>"

definition lease_reset :: "gpu_lease \<Rightarrow> lease_manager \<Rightarrow> gpu_lease \<times> lease_manager" where
  "lease_reset l m = (if gl_live l then (empty_lease, manager_release (gl_mode l) m) else (l, m))"

text \<open>Move assignment: the target lets its own lease go, then takes over the source, which is left empty.\<close>

definition lease_move :: "gpu_lease \<Rightarrow> gpu_lease \<Rightarrow> lease_manager \<Rightarrow> gpu_lease \<times> gpu_lease \<times> lease_manager" where
  "lease_move target source m =
    (let (_, m1) = lease_reset target m
     in (source, source \<lparr> gl_live := False, gl_mode := Gpu_free, gl_cancellation := None \<rparr>, m1))"

definition manager_busy :: "lease_manager \<Rightarrow> bool" where
  "manager_busy m \<longleftrightarrow> lm_mode m = Gpu_batch \<or> lm_mode m = Gpu_realtime"

definition busy_mode_name :: "lease_manager \<Rightarrow> string" where
  "busy_mode_name m = (if lm_mode m = Gpu_batch then ''batch'' else if lm_mode m = Gpu_realtime then ''realtime'' else [])"

text \<open>The process: the manager and every lease object there is.  A move assignment is between two objects.\<close>

datatype lease_op = Acquire gpu_mode | ResetLease nat | MoveLease nat nat | CancelVia nat cancel_reason | BeginShutdown

fun lease_step :: "lease_op \<Rightarrow> gpu_lease list \<times> lease_manager \<Rightarrow> gpu_lease list \<times> lease_manager" where
  "lease_step (Acquire mode) (ls, m) = (let (l, m1) = try_acquire mode m in (ls @ [l], m1))"
| "lease_step (ResetLease i) (ls, m) =
    (if i < length ls then let (l, m1) = lease_reset (ls ! i) m in (ls [i := l], m1) else (ls, m))"
| "lease_step (MoveLease i j) (ls, m) =
    (if i < length ls \<and> j < length ls \<and> i \<noteq> j
     then let (t, s, m1) = lease_move (ls ! i) (ls ! j) m in (ls [i := t, j := s], m1) else (ls, m))"
| "lease_step (CancelVia i reason) (ls, m) =
    (if i < length ls then (ls, request_at reason (gl_cancellation (ls ! i)) m) else (ls, m))"
| "lease_step BeginShutdown (ls, m) = (ls, begin_shutdown m)"

definition lease_run :: "lease_op list \<Rightarrow> gpu_lease list \<times> lease_manager" where
  "lease_run ops = fold lease_step ops ([], new_manager)"

definition live_leases :: "gpu_lease list \<Rightarrow> gpu_lease list" where
  "live_leases ls = filter gl_live ls"

text \<open>Who owns the engine: the index of the one live lease object, and what the manager then says.\<close>

definition owned :: "nat option \<Rightarrow> gpu_lease list \<Rightarrow> lease_manager \<Rightarrow> bool" where
  "owned owner ls m \<longleftrightarrow>
    (\<forall>i < length ls. gl_live (ls ! i) \<longleftrightarrow> owner = Some i) \<and>
    (case owner of
       None \<Rightarrow> \<not> manager_busy m
     | Some k \<Rightarrow> k < length ls \<and> gl_mode (ls ! k) \<in> {Gpu_batch, Gpu_realtime} \<and>
         lm_mode m \<in> {gl_mode (ls ! k), Gpu_shutting_down})"

definition lease_inv :: "gpu_lease list \<times> lease_manager \<Rightarrow> bool" where
  "lease_inv w \<longleftrightarrow> (\<exists>owner. owned owner (fst w) (snd w))"

lemma request_at_mode [simp]: "lm_mode (request_at reason cell m) = lm_mode m"
  by (simp add: request_at_def split: option.split)

lemma manager_busy_request [simp]: "manager_busy (request_at reason cell m) = manager_busy m"
  by (simp add: manager_busy_def)

lemma acquire_owned:
  assumes "owned owner ls m" "try_acquire mode m = (l, m1)"
  shows "owned (if gl_live l then Some (length ls) else owner) (ls @ [l]) m1"
proof (cases "(mode = Gpu_batch \<or> mode = Gpu_realtime) \<and> lm_mode m = Gpu_free")
  case True
  then have "owner = None" using assms(1) by (auto simp: owned_def split: option.splits)
  then show ?thesis using True assms by (auto simp: try_acquire_def Let_def owned_def nth_append less_Suc_eq)
next
  case False
  then have "l = empty_lease" "m1 = m" using assms(2) by (auto simp: try_acquire_def split: if_splits)
  then show ?thesis using assms(1) by (auto simp: owned_def nth_append less_Suc_eq empty_lease_def split: option.splits)
qed

lemma reset_owned:
  assumes "owned owner ls m" "i < length ls" "lease_reset (ls ! i) m = (l, m1)"
  shows "owned (if owner = Some i then None else owner) (ls [i := l]) m1"
proof (cases "owner = Some i")
  case True
  then have "gl_live (ls ! i)" "gl_mode (ls ! i) \<in> {Gpu_batch, Gpu_realtime}" "lm_mode m \<in> {gl_mode (ls ! i), Gpu_shutting_down}"
    using assms(1,2) by (auto simp: owned_def)
  then have "l = empty_lease" "\<not> manager_busy m1"
    using assms(3) by (auto simp: lease_reset_def manager_release_def manager_busy_def)
  then show ?thesis using assms(1) True by (auto simp: owned_def empty_lease_def nth_list_update)
next
  case False
  then have "l = ls ! i" "m1 = m" using assms by (auto simp: owned_def lease_reset_def)
  then show ?thesis using assms(1) False by simp
qed

lemma hand_over_owned:
  assumes "owned owner ls m" "i < length ls" "j < length ls" "i \<noteq> j" "owner \<noteq> Some i"
  shows "owned (if owner = Some j then Some i else owner)
    (ls [i := ls ! j, j := (ls ! j) \<lparr> gl_live := False, gl_mode := Gpu_free, gl_cancellation := None \<rparr>]) m"
  using assms by (auto simp: owned_def nth_list_update split: option.splits)

lemma lease_step_inv: "lease_inv w \<Longrightarrow> lease_inv (lease_step op w)"
proof (induction op w rule: lease_step.induct)
  case (1 mode ls m)
  then show ?case using acquire_owned [of _ ls m mode] by (fastforce simp: lease_inv_def Let_def split: prod.split)
next
  case (2 i ls m)
  then show ?case using reset_owned [of _ ls m i] by (fastforce simp: lease_inv_def Let_def split: prod.split)
next
  case (3 i j ls m)
  then obtain owner where o: "owned owner ls m" by (auto simp: lease_inv_def)
  show ?case
  proof (cases "i < length ls \<and> j < length ls \<and> i \<noteq> j")
    case True
    obtain l m1 where r: "lease_reset (ls ! i) m = (l, m1)" by force
    have "owned (if owner = Some i then None else owner) (ls [i := l]) m1" using reset_owned [OF o _ r] True by simp
    moreover have "(if owner = Some i then None else owner) \<noteq> Some i" by simp
    ultimately have "\<exists>owner. owned owner
        (ls [i := ls ! j, j := (ls ! j) \<lparr> gl_live := False, gl_mode := Gpu_free, gl_cancellation := None \<rparr>]) m1"
      using hand_over_owned [of _ "ls [i := l]" m1 i j] True by fastforce
    then show ?thesis using True r by (simp add: lease_inv_def lease_move_def Let_def)
  next
    case False
    then have "lease_step (MoveLease i j) (ls, m) = (ls, m)" by auto
    then show ?thesis using 3 by (simp only:)
  qed
next
  case (4 i reason ls m)
  then show ?case by (auto simp: lease_inv_def owned_def split: option.splits)
next
  case (5 ls m)
  then obtain owner where "owned owner ls m" by (auto simp: lease_inv_def)
  then have "owned owner ls (begin_shutdown m)"
    by (auto simp: owned_def begin_shutdown_def manager_busy_def split: option.splits)
  then show ?case by (auto simp: lease_inv_def)
qed

lemma lease_run_inv: "lease_inv (lease_run ops)"
proof -
  have "lease_inv w \<Longrightarrow> lease_inv (fold lease_step ops w)" for w
    by (induction ops arbitrary: w) (auto simp: lease_step_inv)
  moreover have "lease_inv ([], new_manager)"
    by (auto simp: lease_inv_def owned_def new_manager_def manager_busy_def intro: exI [of _ None])
  ultimately show ?thesis by (simp add: lease_run_def)
qed

text \<open>Releases of leases of a working mode, the only ones there are, do not end a shutdown.\<close>

lemma lease_step_shutdown:
  assumes "lease_inv w" "lm_mode (snd w) = Gpu_shutting_down"
  shows "lm_mode (snd (lease_step op w)) = Gpu_shutting_down"
proof -
  obtain ls m owner where w: "w = (ls, m)" "owned owner ls m" using assms(1) by (cases w) (auto simp: lease_inv_def)
  have "Gpu_shutting_down \<noteq> gl_mode (ls ! i)" if "i < length ls" "gl_live (ls ! i)" for i
    using w(2) that by (auto simp: owned_def)
  then have "lm_mode m1 = Gpu_shutting_down" if "i < length ls" "lease_reset (ls ! i) m = (l, m1)" for i l m1
    using assms(2) that by (auto simp: w lease_reset_def manager_release_def split: if_splits)
  then show ?thesis using assms(2) w(1)
    by (cases op) (auto simp: try_acquire_def Let_def lease_move_def begin_shutdown_def split: prod.splits)
qed

lemma lease_run_shutdown:
  assumes "BeginShutdown \<in> set ops"
  shows "lm_mode (snd (lease_run ops)) = Gpu_shutting_down"
proof -
  obtain xs ys where ops: "ops = xs @ BeginShutdown # ys" using assms by (meson split_list)
  have stays: "lease_inv w \<Longrightarrow> lm_mode (snd w) = Gpu_shutting_down \<Longrightarrow> lm_mode (snd (fold lease_step zs w)) = Gpu_shutting_down" for zs w
    by (induction zs arbitrary: w) (auto simp: lease_step_shutdown lease_step_inv)
  obtain ls m where x: "lease_run xs = (ls, m)" by force
  have "lease_inv (ls, begin_shutdown m)" using lease_step_inv [OF lease_run_inv [of xs], of BeginShutdown] x by simp
  moreover have "lm_mode (begin_shutdown m) = Gpu_shutting_down" by (simp add: begin_shutdown_def)
  ultimately show ?thesis using x stays [of "(ls, begin_shutdown m)" ys] by (simp add: lease_run_def ops)
qed

text \<open>C30: Whatever sequence of acquisitions, releases, moves, cancellations and shutdown runs in the process: at most
one lease object is live; until shutdown the manager is busy exactly while one is; and from the start of a shutdown
on the mode stays shutting_down and no lease is ever granted again.\<close>

theorem gpu_lease_exclusive:
  assumes "lease_run ops = (ls, m)"
  shows "length (live_leases ls) \<le> 1 \<and>
    (lm_mode m \<noteq> Gpu_shutting_down \<longrightarrow> (manager_busy m \<longleftrightarrow> live_leases ls \<noteq> [])) \<and>
    (BeginShutdown \<in> set ops \<longrightarrow> lm_mode m = Gpu_shutting_down \<and> \<not> gl_live (fst (try_acquire mode m)))"
proof -
  obtain owner where o: "owned owner ls m" using lease_run_inv [of ops] assms by (auto simp: lease_inv_def)
  have "live_leases ls = (case owner of None \<Rightarrow> [] | Some k \<Rightarrow> [ls ! k])"
  proof (cases owner)
    case None
    then show ?thesis using o by (auto simp: owned_def live_leases_def filter_empty_conv in_set_conv_nth)
  next
    case (Some k)
    then have k: "k < length ls" "gl_live (ls ! k)" "\<And>i. i < length ls \<Longrightarrow> gl_live (ls ! i) \<Longrightarrow> i = k" using o by (auto simp: owned_def)
    have t: "\<not> gl_live x" if x: "x \<in> set (take k ls)" for x
    proof -
      obtain i where "i < k" "i < length ls" "x = ls ! i" using x by (auto simp: in_set_conv_nth)
      then show ?thesis using k(3) [of i] by auto
    qed
    have d: "\<not> gl_live x" if x: "x \<in> set (drop (Suc k) ls)" for x
    proof -
      obtain i where "i < length ls - Suc k" "x = ls ! (Suc k + i)" using x by (auto simp: in_set_conv_nth)
      then have "Suc k + i < length ls" "x = ls ! (Suc k + i)" by simp_all
      then show ?thesis using k(3) [of "Suc k + i"] by auto
    qed
    have "filter gl_live (take k ls) = []" "filter gl_live (drop (Suc k) ls) = []"
      using t d by (simp_all add: filter_empty_conv)
    then have "filter gl_live ls = [ls ! k]"
      using k id_take_nth_drop [OF k(1)] filter_append by (metis append_Nil filter.simps(2))
    then show ?thesis using Some by (simp add: live_leases_def)
  qed
  then have "length (live_leases ls) \<le> 1" "lm_mode m \<noteq> Gpu_shutting_down \<longrightarrow> (manager_busy m \<longleftrightarrow> live_leases ls \<noteq> [])"
    using o by (auto simp: owned_def manager_busy_def split: option.splits)
  moreover have "lm_mode m = Gpu_shutting_down \<and> \<not> gl_live (fst (try_acquire mode m))" if "BeginShutdown \<in> set ops"
    using lease_run_shutdown [OF that] assms by (simp add: try_acquire_def empty_lease_def)
  ultimately show ?thesis by blast
qed

text \<open>A realtime lease moved into a worker's holder; a batch request meanwhile is turned away.\<close>

lemma gpu_lease_exclusive_witness:
  "\<exists>ls m. lease_run [Acquire Gpu_realtime, Acquire Gpu_batch, MoveLease 1 0, BeginShutdown] = (ls, m) \<and>
     length (live_leases ls) = 1 \<and> lm_mode m = Gpu_shutting_down \<and> \<not> gl_live (fst (try_acquire Gpu_batch m))"
proof -
  obtain ls m where r: "lease_run [Acquire Gpu_realtime, Acquire Gpu_batch, MoveLease 1 0, BeginShutdown] = (ls, m)" by force
  then have "length (live_leases ls) = 1"
    by (auto simp: lease_run_def new_manager_def try_acquire_def empty_lease_def lease_move_def lease_reset_def
        begin_shutdown_def request_at_def live_leases_def)
  then show ?thesis using gpu_lease_exclusive [OF r, of Gpu_batch] r by auto
qed

end
