(* ===== verification/ServerHttpCorrect.thy ===== *)
theory ServerHttpCorrect
  imports ServerHttp
begin

text \<open>Properties of the HTTP side over \<open>ServerHttp\<close>: authentication, the WAV reader, and admission to the
engine.\<close>

unbundle bit_operations_syntax

section \<open>Authentication\<close>

lemma fold_or_zero:
  "fold (\<lambda>i difference. difference OR f i) xs (a :: int) = 0 \<longleftrightarrow> a = 0 \<and> (\<forall>i \<in> set xs. f i = 0)"
  by (induction xs arbitrary: a) (auto simp: or_eq_0_iff)

lemma xor_zero: "(a :: int) XOR b = 0 \<longleftrightarrow> a = b"
  by (metis xor.assoc xor.left_neutral xor.right_neutral xor_self_eq)

lemma constant_time_equal_iff: "constant_time_equal left right \<longleftrightarrow> left = right"
proof
  assume "constant_time_equal left right"
  then have c: "length left = length right"
      "\<forall>i \<in> set [0..<max (length left) (length right)]. padded_byte left i XOR padded_byte right i = 0"
    unfolding constant_time_equal_def fold_or_zero xor_zero by simp_all
  have "left ! i = right ! i" if "i < length left" for i
  proof -
    have "of_char (left ! i) = (of_char (right ! i) :: int)"
      using c that by (simp add: xor_zero padded_byte_def)
    then show ?thesis by simp
  qed
  then show "left = right" using c(1) by (rule nth_equalityI [rotated])
next
  assume "left = right"
  then show "constant_time_equal left right" unfolding constant_time_equal_def fold_or_zero by simp
qed

lemma length_bearer_prefix [simp]: "length bearer_prefix = 7"
  by (simp add: bearer_prefix_def)


section \<open>Reading bytes\<close>

lemma or_shift: "0 \<le> a \<Longrightarrow> a < 2 ^ n \<Longrightarrow> a OR push_bit n b = a + 2 ^ n * (b :: int)"
  using concat_bit_eq [of n a b] concat_bit_def [of n a b]
  by (simp add: take_bit_int_eq_self push_bit_eq_mult mult.commute)

lemma byte_uint: "0 \<le> uint (b :: byte)" "uint (b :: byte) < 256"
  using uint_range_size [of b] by (auto simp: word_size)

lemma read_u16le_value:
  "i + 2 \<le> length body \<Longrightarrow> read_u16le body i = Some (le_value (take 2 (drop i body)))"
proof -
  assume i: "i + 2 \<le> length body"
  then have "drop i body = body ! i # body ! (i + 1) # drop (i + 2) body"
    by (metis Cons_nth_drop_Suc Suc_eq_plus1 add_2_eq_Suc' less_eq_Suc_le Suc_lessD)
  then show ?thesis using i byte_uint [of "body ! i"]
    by (simp add: read_u16le_def byte_read_def numeral_2_eq_2 or_shift)
qed

lemma read_u32le_value:
  "i + 4 \<le> length body \<Longrightarrow> read_u32le body i = Some (le_value (take 4 (drop i body)))"
proof -
  assume i: "i + 4 \<le> length body"
  then have "drop i body = body ! i # body ! (i + 1) # body ! (i + 2) # body ! (i + 3) # drop (i + 4) body"
    by (simp add: Cons_nth_drop_Suc numeral_eq_Suc)
  then have d: "take 4 (drop i body) = [body ! i, body ! (i + 1), body ! (i + 2), body ! (i + 3)]" by simp
  define a b c e where "a = uint (body ! i)" and "b = uint (body ! (i + 1))" and "c = uint (body ! (i + 2))"
    and "e = uint (body ! (i + 3))"
  have r: "0 \<le> a" "a < 256" "0 \<le> b" "b < 256" "0 \<le> c" "c < 256" "0 \<le> e" "e < 256"
    unfolding a_def b_def c_def e_def by (rule byte_uint)+
  have "a OR push_bit 8 b = a + 256 * b" using r or_shift [of a 8 b] by simp
  moreover have "(a + 256 * b) OR push_bit 16 c = a + 256 * b + 65536 * c" using r or_shift [of "a + 256 * b" 16 c] by simp
  moreover have "(a + 256 * b + 65536 * c) OR push_bit 24 e = a + 256 * b + 65536 * c + 16777216 * e"
    using r or_shift [of "a + 256 * b + 65536 * c" 24 e] by simp
  ultimately have "a OR push_bit 8 b OR push_bit 16 c OR push_bit 24 e = a + 256 * b + 65536 * c + 16777216 * e"
    by (simp only: or.assoc [symmetric])
  then show ?thesis using i unfolding d a_def b_def c_def e_def by (simp add: read_u32le_def byte_read_def)
qed

text \<open>Reads of a slice are reads of the body.\<close>

lemma read_u16le_slice:
  "i + 2 \<le> length p \<Longrightarrow> read_u16le (x @ p @ y) (length x + i) = Some (le_value (take 2 (drop i p)))"
  by (subst read_u16le_value) simp_all

lemma read_u32le_slice:
  "i + 4 \<le> length p \<Longrightarrow> read_u32le (x @ p @ y) (length x + i) = Some (le_value (take 4 (drop i p)))"
  by (subst read_u32le_value) simp_all

text \<open>The samples of a byte string, two bytes each, the low one first.\<close>

fun pcm16_samples :: "byte list \<Rightarrow> int list" where
  "pcm16_samples (a # b # rest) = signed_take_bit 15 (le_value [a, b]) # pcm16_samples rest"
| "pcm16_samples _ = []"

lemma read_samples_value:
  "i + 2 * n \<le> length body \<Longrightarrow> read_samples body i n = Some (pcm16_samples (take (2 * n) (drop i body)))"
proof (induction n arbitrary: i)
  case 0
  then show ?case by simp
next
  case (Suc n)
  then have d: "drop i body = body ! i # body ! (i + 1) # drop (i + 2) body"
    by (simp add: Cons_nth_drop_Suc)
  have "read_samples body (i + 2) n = Some (pcm16_samples (take (2 * n) (drop (i + 2) body)))"
    using Suc.prems by (intro Suc.IH) simp
  moreover have "read_u16le body i = Some (le_value [body ! i, body ! (i + 1)])"
    using Suc.prems by (subst read_u16le_value) (simp_all add: d numeral_2_eq_2)
  ultimately show ?case by (simp add: d)
qed

lemma length_pcm16_samples: "length (pcm16_samples bs) = length bs div 2"
  by (induction bs rule: pcm16_samples.induct) auto

text \<open>What \<open>make_audio\<close> makes of a slice of the body.\<close>

definition audio_of :: "byte list \<Rightarrow> audio_result" where
  "audio_of payload =
    (if payload = [] \<or> odd (length payload)
     then Inl (''invalid_argument'', ''PCM audio must contain a non-zero even number of bytes.'')
     else Inr \<lparr> ad_samples = pcm16_samples payload, ad_duration_ms = int (length payload div 2) * 1000 div 16000 \<rparr>)"

lemma make_audio_slice:
  assumes "start + n \<le> length body" "int n < 2 ^ 54"
  shows "make_audio body start n = Some (audio_of (take n (drop start body)))"
proof (cases "n = 0 \<or> odd n")
  case True
  then show ?thesis using assms(1) by (auto simp: make_audio_def audio_of_def)
next
  case False
  then have n: "2 * (n div 2) = n" by simp
  have "int (n div 2) \<le> int n" by simp
  then have "int (n div 2) < 2 ^ 54" using assms(2) by (rule le_less_trans)
  moreover have "int (n div 2) * 1000 mod 2 ^ 64 = int (n div 2) * 1000" using calculation by simp
  ultimately show ?thesis using False assms(1) n read_samples_value [of start "n div 2" body]
    by (simp add: make_audio_def audio_of_def length_pcm16_samples min_absorb2)
qed

section \<open>WAV files\<close>

text \<open>A chunk as a writer lays it out, and a file of chunks, with any bytes behind the end RIFF declares.\<close>

definition chunk_bytes :: "string \<times> byte list \<Rightarrow> byte list" where
  "chunk_bytes c = List.map of_char (fst c) @ le_bytes 4 (int (length (snd c))) @ snd c @
    (if odd (length (snd c)) then [0] else [])"

definition wav_file :: "(string \<times> byte list) list \<Rightarrow> byte list \<Rightarrow> byte list" where
  "wav_file chunks trailing =
    List.map of_char ''RIFF'' @ le_bytes 4 (4 + int (length (concat (List.map chunk_bytes chunks)))) @
    List.map of_char ''WAVE'' @ concat (List.map chunk_bytes chunks) @ trailing"

text \<open>What a reader should make of it: the first \<open>fmt \<close> and the first \<open>data\<close> chunk count, all others are
skipped.\<close>

definition format_of :: "byte list \<Rightarrow> wav_format" where
  "format_of p = \<lparr> wf_audio_format = le_value (take 2 p), wf_channels = le_value (take 2 (drop 2 p)),
     wf_sample_rate = le_value (take 4 (drop 4 p)), wf_byte_rate = le_value (take 4 (drop 8 p)),
     wf_block_align = le_value (take 2 (drop 12 p)), wf_bits_per_sample = le_value (take 2 (drop 14 p)) \<rparr>"

definition pcm16_mono_16k :: wav_format where
  "pcm16_mono_16k = \<lparr> wf_audio_format = 1, wf_channels = 1, wf_sample_rate = 16000, wf_byte_rate = 32000,
     wf_block_align = 2, wf_bits_per_sample = 16 \<rparr>"

definition wav_reference :: "(string \<times> byte list) list \<Rightarrow> audio_result" where
  "wav_reference chunks =
    (case (map_of chunks ''fmt '', map_of chunks ''data'') of
       (Some fmt, d) \<Rightarrow>
         if length fmt < 16 then Inl (''invalid_argument'', ''The WAV fmt chunk is too small.'')
         else (case d of
           None \<Rightarrow> Inl (''invalid_argument'', ''The WAV file must contain fmt and data chunks.'')
         | Some payload \<Rightarrow>
             if wf_audio_format (format_of fmt) \<noteq> 1
             then Inl (''unsupported_audio_format'', ''Only uncompressed integer PCM WAV is supported.'')
             else if format_of fmt \<noteq> pcm16_mono_16k
             then Inl (''unsupported_audio_format'', ''WAV audio must be signed PCM16 little-endian, mono, 16000 Hz.'')
             else audio_of payload)
     | _ \<Rightarrow> Inl (''invalid_argument'', ''The WAV file must contain fmt and data chunks.''))"

definition writable_chunk :: "string \<times> byte list \<Rightarrow> bool" where
  "writable_chunk c \<longleftrightarrow> length (fst c) = 4 \<and> int (length (snd c)) < 2 ^ 32"

lemma length_chunk_bytes:
  "writable_chunk c \<Longrightarrow> length (chunk_bytes c) = 8 + length (snd c) + (if odd (length (snd c)) then 1 else 0)"
  by (simp add: chunk_bytes_def writable_chunk_def)

lemma of_char_byte_inj: "of_char (a :: char) = (of_char b :: byte) \<Longrightarrow> a = b"
proof -
  have u: "unat (of_char c :: byte) = of_char c" for c :: char
  proof -
    have "unat (of_nat n :: byte) = n" if "n < 256" for n using that by (simp add: unat_of_nat)
    from this [OF nat_of_char_less_256 [of c]] show ?thesis by (simp only: of_nat_of_char)
  qed
  assume "of_char a = (of_char b :: byte)"
  then have "unat (of_char a :: byte) = unat (of_char b :: byte)" by (rule arg_cong)
  then have "(of_char a :: nat) = of_char b" unfolding u .
  then show "a = b" by (rule of_char_eqI)
qed

lemma tag_bytes_eq: "List.map of_char t = (List.map of_char u :: byte list) \<longleftrightarrow> t = u"
  by (rule inj_map_eq_map) (rule injI, erule of_char_byte_inj)

text \<open>The first data chunk found so far: a slice of the body that holds its payload.\<close>

definition found_slice :: "byte list \<Rightarrow> (nat \<times> nat) option \<Rightarrow> byte list option \<Rightarrow> bool" where
  "found_slice body d payload \<longleftrightarrow>
    (case d of None \<Rightarrow> payload = None
     | Some (start, n) \<Rightarrow> start + n \<le> length body \<and> payload = Some (take n (drop start body)))"

lemma read_format_slice:
  assumes "16 \<le> length p"
  shows "read_format (x @ p @ y) (length x) = Some (format_of p)"
  using assms read_u16le_slice [of 0 p x y] read_u16le_slice [of 2 p x y] read_u32le_slice [of 4 p x y]
    read_u32le_slice [of 8 p x y] read_u16le_slice [of 12 p x y] read_u16le_slice [of 14 p x y]
  by (simp add: read_format_def format_of_def)

lemma wav_chunk_step:
  assumes c: "writable_chunk (tag, payload)" and body: "body = before @ chunk_bytes (tag, payload) @ after"
    and e: "length before + length (chunk_bytes (tag, payload)) \<le> riff_end"
  shows "wav_chunk body riff_end (length before) (f, d) =
    (let next = length before + length (chunk_bytes (tag, payload)) in
     if tag = ''fmt '' \<and> f = None
     then if length payload < 16 then Some (Inl (''invalid_argument'', ''The WAV fmt chunk is too small.''))
          else Some (Inr ((Some (format_of payload), d), next))
     else if tag = ''data'' \<and> d = None then Some (Inr ((f, Some (length before + 8, length payload)), next))
     else Some (Inr ((f, d), next)))"
proof -
  let ?n = "length payload" and ?t = "List.map of_char tag :: byte list"
  let ?pad = "(if odd ?n then [0] else []) @ after"
  have l: "length tag = 4" "int ?n < 2 ^ 32" using c by (simp_all add: writable_chunk_def)
  have len: "length (chunk_bytes (tag, payload)) = 8 + ?n + (if odd ?n then 1 else 0)" using length_chunk_bytes [OF c] by simp
  have b: "body = before @ ?t @ le_bytes 4 (int ?n) @ payload @ ?pad" by (simp add: body chunk_bytes_def)
  have v: "le_value (le_bytes 4 (int ?n)) = int ?n" using l(2) by (intro le_value_le_bytes) simp_all
  have size: "read_u32le body (length before + 4) = Some (int ?n)"
    using read_u32le_slice [of 0 "le_bytes 4 (int ?n)" "before @ ?t" "payload @ ?pad"] l(1) v by (simp add: b)
  have tag: "tag_at body (length before) u = Some (tag = u)" if "length u = 4" for u
    using l(1) that tag_bytes_eq [of tag u] by (auto simp: tag_at_def b)
  have fmt: "read_format body (length before + 8) = Some (format_of payload)" if "16 \<le> ?n"
    using read_format_slice [OF that, of "before @ ?t @ le_bytes 4 (int ?n)" ?pad] l(1) by (simp add: b)
  have r: "\<not> riff_end - length before < 8" "\<not> int (riff_end - (length before + 8)) < int ?n"
      "\<not> (odd ?n \<and> length before + 8 + ?n = riff_end)"
    using e len by (auto split: if_splits)
  show ?thesis
    using r fmt tag [of "''fmt ''"] tag [of "''data''"] len
    by (simp add: wav_chunk_def size Let_def add.assoc) auto
qed

text \<open>The whole loop.\<close>

lemma wav_chunks_value:
  assumes "\<forall>c \<in> set chunks. writable_chunk c" "body = before @ concat (List.map chunk_bytes chunks) @ after"
    "riff_end = length before + length (concat (List.map chunk_bytes chunks))" "found_slice body d payload"
  shows "(f = None \<and> (\<exists>p. map_of chunks ''fmt '' = Some p \<and> length p < 16) \<longrightarrow>
        wav_chunks body riff_end (length before) (f, d) = Some (Inl (''invalid_argument'', ''The WAV fmt chunk is too small.''))) \<and>
      (\<not> (f = None \<and> (\<exists>p. map_of chunks ''fmt '' = Some p \<and> length p < 16)) \<longrightarrow>
        (\<exists>d'. wav_chunks body riff_end (length before) (f, d) =
            Some (Inr (if f = None then map_option format_of (map_of chunks ''fmt '') else f, d')) \<and>
          found_slice body d' (if d = None then map_of chunks ''data'' else payload)))"
  using assms
proof (induction chunks arbitrary: before f d payload)
  case Nil
  then have "wav_chunks body riff_end (length before) (f, d) = Some (Inr (f, d))" by (subst wav_chunks.simps) simp
  moreover have "d = None \<Longrightarrow> payload = None" using Nil.prems(4) by (simp add: found_slice_def)
  ultimately show ?case using Nil.prems(4) by (cases "d = None"; cases f) auto
next
  case (Cons c chunks)
  obtain tag p where c: "c = (tag, p)" by force
  let ?next = "length before + length (chunk_bytes (tag, p))"
  let ?before = "before @ chunk_bytes (tag, p)"
  have w: "writable_chunk (tag, p)" using Cons.prems(1) c by simp
  have body: "body = before @ chunk_bytes (tag, p) @ concat (List.map chunk_bytes chunks) @ after" using Cons.prems(2) c by simp
  have e: "?next \<le> riff_end" using Cons.prems(3) c by simp
  have lt: "length before < riff_end" using e length_chunk_bytes [OF w] by simp
  note step = wav_chunk_step [OF w body e]
  have rest: "\<forall>c \<in> set chunks. writable_chunk c" "body = ?before @ concat (List.map chunk_bytes chunks) @ after"
      "riff_end = length ?before + length (concat (List.map chunk_bytes chunks))"
    using Cons.prems c by simp_all
  note IH = Cons.IH [OF rest]
  have pslice: "found_slice body (Some (length before + 8, length p)) (Some p)"
    using w by (simp add: found_slice_def body chunk_bytes_def writable_chunk_def)
  consider (small) "tag = ''fmt ''" "f = None" "length p < 16" | (fmt) "tag = ''fmt ''" "f = None" "16 \<le> length p"
    | (data) "tag = ''data''" "d = None" | (other) "\<not> (tag = ''fmt '' \<and> f = None)" "\<not> (tag = ''data'' \<and> d = None)"
    by linarith
  then show ?case
  proof cases
    case small
    then show ?thesis using lt step by (simp add: wav_chunks.simps [of body riff_end "length before"] c Let_def)
  next
    case fmt
    then have "wav_chunks body riff_end (length before) (f, d) = wav_chunks body riff_end (length ?before) (Some (format_of p), d)"
      using lt step by (simp add: wav_chunks.simps [of body riff_end "length before"] Let_def)
    then show ?thesis using IH [of d payload "Some (format_of p)"] Cons.prems(4) fmt by (cases d) (simp_all add: c)
  next
    case data
    then have "wav_chunks body riff_end (length before) (f, d) =
        wav_chunks body riff_end (length ?before) (f, Some (length before + 8, length p))"
      using lt step by (simp add: wav_chunks.simps [of body riff_end "length before"] Let_def)
    then show ?thesis using IH [of "Some (length before + 8, length p)" "Some p" f] pslice data by (cases f) (simp_all add: c)
  next
    case other
    then have "wav_chunk body riff_end (length before) (f, d) = Some (Inr ((f, d), ?next))"
      unfolding step Let_def by (simp only: if_False)
    then have "wav_chunks body riff_end (length before) (f, d) = wav_chunks body riff_end (length ?before) (f, d)"
      using lt by (simp add: wav_chunks.simps [of body riff_end "length before"])
    then show ?thesis using IH [of d payload f] Cons.prems(4) other by (cases f; cases d) (simp_all add: c)
  qed
qed

text \<open>C32: A WAV body of any chunks in any order, with any bytes behind the declared end, is read as the reference
says: the first fmt and the first data chunk decide, every other chunk is skipped with its padding, a wrong format
is refused with its own error, and the samples are the little-endian 16-bit values of the data chunk, all of them
and in order.\<close>

theorem wav_container_exact:
  assumes "\<forall>c \<in> set chunks. writable_chunk c" "int (length (wav_file chunks [])) < 2 ^ 32 + 8"
  shows "parse_pcm16_wav (wav_file chunks trailing) = Some (wav_reference chunks)"
proof -
  let ?cs = "concat (List.map chunk_bytes chunks)"
  let ?head = "List.map of_char ''RIFF'' @ le_bytes 4 (4 + int (length ?cs)) @ List.map of_char ''WAVE'' :: byte list"
  define body where "body = wav_file chunks trailing"
  have b: "body = ?head @ ?cs @ trailing" by (simp add: body_def wav_file_def)
  have h: "length ?head = 12" by simp
  have small: "4 + int (length ?cs) < 2 ^ 32" using assms(2) by (simp add: wav_file_def)
  have riff: "read_u32le body 4 = Some (4 + int (length ?cs))"
    using small by (subst read_u32le_value) (simp_all add: b le_value_le_bytes)
  have magic: "wav_magic body = Some True" by (simp add: wav_magic_def tag_at_def b)
  have e: "nat (4 + int (length ?cs) + 8) = length ?head + length ?cs" using h by simp
  have scan: "wav_chunks body (nat (4 + int (length ?cs) + 8)) (length ?head) (None, None) =
        Some (Inl (''invalid_argument'', ''The WAV fmt chunk is too small.''))"
      if "map_of chunks ''fmt '' = Some p" "length p < 16" for p
    using wav_chunks_value [OF assms(1) b e, of None None None] that unfolding e by (simp add: found_slice_def)
  have scan': "\<exists>d. wav_chunks body (nat (4 + int (length ?cs) + 8)) (length ?head) (None, None) =
        Some (Inr (map_option format_of (map_of chunks ''fmt ''), d)) \<and> found_slice body d (map_of chunks ''data'')"
      if "\<nexists>p. map_of chunks ''fmt '' = Some p \<and> length p < 16"
  proof -
    have "found_slice body None None" by (simp add: found_slice_def)
    then show ?thesis using wav_chunks_value [OF assms(1) b e, of None None None] that by auto
  qed
  have unfold: "parse_pcm16_wav body =
      (case wav_chunks body (nat (4 + int (length ?cs) + 8)) (length ?head) (None, None) of
         None \<Rightarrow> None | Some (Inl x) \<Rightarrow> Some (Inl x) | Some (Inr found) \<Rightarrow> wav_audio body found)"
  proof -
    have "int (length body) = 12 + int (length ?cs) + int (length trailing)" by (simp add: b)
    then show ?thesis using small h by (simp add: parse_pcm16_wav_def magic riff Let_def)
  qed
  show ?thesis
  proof (cases "\<exists>p. map_of chunks ''fmt '' = Some p \<and> length p < 16")
    case True
    then show ?thesis using scan unfold by (auto simp: body_def wav_reference_def)
  next
    case False
    then obtain d where d: "wav_chunks body (nat (4 + int (length ?cs) + 8)) (length ?head) (None, None) =
        Some (Inr (map_option format_of (map_of chunks ''fmt ''), d))" "found_slice body d (map_of chunks ''data'')"
      using scan' [OF False] by blast
    have "wav_audio body (map_option format_of (map_of chunks ''fmt ''), d) = Some (wav_reference chunks)"
    proof (cases "map_of chunks ''fmt ''")
      case None
      then show ?thesis by (simp add: wav_audio_def wav_reference_def)
    next
      case (Some fmt)
      then have l: "\<not> length fmt < 16" using False by simp
      show ?thesis
      proof (cases d)
        case None
        then show ?thesis using d(2) Some l by (simp add: wav_audio_def wav_reference_def found_slice_def)
      next
        case (Some slice)
        obtain start n where s: "d = Some (start, n)" using Some by (cases slice) simp
        then have f: "start + n \<le> length body" "map_of chunks ''data'' = Some (take n (drop start body))"
          using d(2) by (simp_all add: found_slice_def)
        have "(''data'', take n (drop start body)) \<in> set chunks" using f(2) by (rule map_of_SomeD)
        then have "int (length (take n (drop start body))) < 2 ^ 32" using assms(1) by (fastforce simp: writable_chunk_def)
        then have "int n < 2 ^ 54" using f(1) by simp
        then show ?thesis using make_audio_slice [OF f(1)] \<open>map_of chunks ''fmt '' = Some fmt\<close> l f(2)
          by (simp add: wav_audio_def wav_reference_def s pcm16_mono_16k_def wav_format.equality)
      qed
    qed
    then show ?thesis using unfold d(1) by (simp add: body_def)
  qed
qed

text \<open>The reader stays inside whatever body it is given.\<close>

definition found_inside :: "byte list \<Rightarrow> wav_found \<Rightarrow> bool" where
  "found_inside body found \<longleftrightarrow> (\<forall>start n. snd found = Some (start, n) \<longrightarrow> start + n \<le> length body)"

lemma wav_chunk_total:
  assumes "offset < riff_end" "riff_end \<le> length body" "found_inside body found"
  shows "\<exists>r. wav_chunk body riff_end offset found = Some r \<and> (\<forall>f next. r = Inr (f, next) \<longrightarrow> found_inside body f)"
proof (cases "riff_end - offset < 8")
  case True
  then show ?thesis by (simp add: wav_chunk_def)
next
  case False
  then have o: "offset + 8 \<le> length body" using assms by simp
  obtain v where v: "read_u32le body (offset + 4) = Some v" using o by (simp add: read_u32le_value)
  obtain is_fmt is_data where t: "tag_at body offset ''fmt '' = Some is_fmt" "tag_at body offset ''data'' = Some is_data"
    using o by (simp add: tag_at_def)
  show ?thesis
  proof (cases "int (riff_end - (offset + 8)) < v")
    case True
    then show ?thesis using False by (simp add: wav_chunk_def v)
  next
    case size: False
    then have n: "offset + 8 + nat v \<le> length body" using assms False by linarith
    consider (fmt) "is_fmt" "fst found = None" | (data) "\<not> (is_fmt \<and> fst found = None)" "is_data" "snd found = None"
      | (other) "\<not> (is_fmt \<and> fst found = None)" "\<not> (is_data \<and> snd found = None)"
      by (cases "is_fmt \<and> fst found = None"; cases "is_data \<and> snd found = None") simp_all
    then show ?thesis
    proof cases
      case fmt
      have "\<exists>fmt. read_format body (offset + 8) = Some fmt" if "16 \<le> nat v"
        using that n by (simp add: read_format_def read_u16le_value read_u32le_value)
      then show ?thesis using fmt False size assms(3)
        by (cases "nat v < 16") (auto simp: wav_chunk_def v t Let_def found_inside_def)
    next
      case data
      then show ?thesis using False size n by (auto simp: wav_chunk_def v t Let_def found_inside_def)
    next
      case other
      then have "wav_chunk body riff_end offset found = Some (if odd (nat v) \<and> offset + 8 + nat v = riff_end
          then Inl (''invalid_argument'', ''The WAV chunk padding byte is missing.'')
          else Inr (found, if odd (nat v) then offset + 8 + nat v + 1 else offset + 8 + nat v))"
        using False size unfolding wav_chunk_def v t Let_def
        by (cases is_fmt; cases is_data; cases "fst found"; cases "snd found") simp_all
      then show ?thesis using assms(3) by (cases found) simp
    qed
  qed
qed

lemma wav_chunks_total:
  "riff_end \<le> length body \<Longrightarrow> found_inside body found \<Longrightarrow>
    \<exists>r. wav_chunks body riff_end offset found = Some r \<and> (\<forall>f. r = Inr f \<longrightarrow> found_inside body f)"
proof (induction body riff_end offset found rule: wav_chunks.induct)
  case (1 body riff_end offset found)
  show ?case
  proof (cases "offset < riff_end")
    case True
    then obtain r where r: "wav_chunk body riff_end offset found = Some r"
        "\<forall>f next. r = Inr (f, next) \<longrightarrow> found_inside body f"
      using wav_chunk_total "1.prems" by blast
    show ?thesis
    proof (cases r)
      case (Inl e)
      then show ?thesis using r True by (simp add: wav_chunks.simps [of body riff_end offset])
    next
      case (Inr p)
      obtain f k where p: "p = (f, k)" by (metis surj_pair)
      then show ?thesis using "1.IH" [OF True r(1) Inr p [symmetric]] "1.prems"(1) r Inr True
        by (simp add: wav_chunks.simps [of body riff_end offset])
    qed
  next
    case False
    then show ?thesis using "1.prems" by (cases found) (simp add: wav_chunks.simps [of body riff_end offset])
  qed
qed

lemma parse_pcm16_wav_total:
  assumes "int (length body) < 2 ^ 54"
  shows "\<exists>r. parse_pcm16_wav body = Some r"
proof (cases "wav_magic body = Some True")
  case False
  have "wav_magic body \<noteq> None" by (auto simp: wav_magic_def tag_at_def)
  then have "wav_magic body = Some False" using False by auto
  then show ?thesis by (simp add: parse_pcm16_wav_def)
next
  case True
  then have "12 \<le> length body" by (auto simp: wav_magic_def split: if_splits)
  then obtain n where n: "read_u32le body 4 = Some n" by (simp add: read_u32le_value)
  show ?thesis
  proof (cases "n + 8 < 12 \<or> int (length body) < n + 8 \<or> 2 ^ 64 - 1 < n + 8")
    case True
    then show ?thesis using \<open>wav_magic body = Some True\<close> n by (auto simp: parse_pcm16_wav_def)
  next
    case False
    then have "nat (n + 8) \<le> length body" by linarith
    from wav_chunks_total [OF this, of "(None, None)" 12] obtain r where r: "wav_chunks body (nat (n + 8)) 12 (None, None) = Some r"
        "\<forall>f. r = Inr f \<longrightarrow> found_inside body f" by (auto simp: found_inside_def)
    have w: "\<exists>r. wav_audio body f = Some r" if "found_inside body f" for f
    proof -
      have "\<exists>r. make_audio body start k = Some r" if "start + k \<le> length body" for start k
        using make_audio_slice [OF that] that assms by auto
      then show ?thesis using that by (auto simp: wav_audio_def found_inside_def split: option.split prod.split)
    qed
    show ?thesis using \<open>wav_magic body = Some True\<close> n False r w by (cases r) (auto simp: parse_pcm16_wav_def Let_def)
  qed
qed

section \<open>Admission to the engine\<close>

definition batch_path :: string where
  "batch_path = ''/v1/audio/transcriptions''"

definition realtime_path :: string where
  "realtime_path = ''/v1/realtime/transcription''"

text \<open>What a batch request must be, and whether it asks for text.\<close>

definition batch_request :: "http_settings \<Rightarrow> http_request \<Rightarrow> audio_data \<Rightarrow> bool \<Rightarrow> bool" where
  "batch_request c r audio text_response \<longleftrightarrow>
    fst (split_target (hr_target r)) = batch_path \<and> hr_method r = Post \<and> http_authorized c r \<and>
    valid_http_body_size (length (hr_body r)) (hs_max_upload c) \<and>
    parse_response_format (snd (split_target (hr_target r))) = Some text_response \<and>
    parse_body r = Some (Some (Inr audio))"

definition realtime_request :: "http_settings \<Rightarrow> http_request \<Rightarrow> bool" where
  "realtime_request c r \<longleftrightarrow>
    fst (split_target (hr_target r)) = realtime_path \<and> hr_upgrade r \<and> http_authorized c r"

lemma parse_body_total:
  assumes "int (length (hr_body r)) < 2 ^ 54"
  shows "\<exists>b. parse_body r = Some b"
  using parse_pcm16_wav_total [OF assms] make_audio_slice [of 0 "length (hr_body r)" "hr_body r"] assms
  by (auto simp: parse_body_def Let_def parse_raw_pcm16_def)

lemma try_acquire_free:
  "mode \<in> {Gpu_batch, Gpu_realtime} \<Longrightarrow> try_acquire mode m = (l, m1) \<Longrightarrow>
    (gl_live l \<longleftrightarrow> lm_mode m = Gpu_free) \<and> (\<not> gl_live l \<longrightarrow> m1 = m) \<and> (gl_live l \<longrightarrow> lm_mode m1 = mode)"
  by (auto simp: try_acquire_def empty_lease_def Let_def split: if_splits)

text \<open>C33: Every request of every body is answered (no read leaves the body).  A batch job starts exactly for an
authorized, well-formed POST whose audio was read while the GPU was free and no shutdown had begun, and with that
audio; a realtime session exactly for an authorized upgrade that found the GPU free; in both cases the lease is now
theirs, and any other outcome leaves the lease manager as it was.\<close>

theorem http_admission_exact:
  assumes "int (length (hr_body r)) < 2 ^ 54"
  shows "\<exists>outcome m'. http_route c shutting_down r m = Some (outcome, m') \<and>
    (\<forall>audio txt. (\<exists>lease. outcome = Http_batch audio txt lease) \<longleftrightarrow>
       batch_request c r audio txt \<and> \<not> shutting_down \<and> lm_mode m = Gpu_free) \<and>
    ((\<exists>lease. outcome = Http_realtime lease) \<longleftrightarrow> realtime_request c r \<and> lm_mode m = Gpu_free) \<and>
    (case outcome of
       Http_batch _ _ lease \<Rightarrow> gl_live lease \<and> lm_mode m' = Gpu_batch
     | Http_realtime lease \<Rightarrow> gl_live lease \<and> lm_mode m' = Gpu_realtime
     | _ \<Rightarrow> m' = m)"
proof -
  obtain body where b: "parse_body r = Some body" using parse_body_total [OF assms] ..
  obtain lb mb where lb: "try_acquire Gpu_batch m = (lb, mb)" by force
  obtain lr mr where lr: "try_acquire Gpu_realtime m = (lr, mr)" by force
  note free = try_acquire_free [OF insertI1 lb] try_acquire_free [OF insertI2 [OF insertI1] lr]
  have batch_done: "\<exists>outcome m'. handle_batch c shutting_down r m = Some (outcome, m') \<and>
      (\<forall>audio txt. (\<exists>lease. outcome = Http_batch audio txt lease) \<longleftrightarrow>
         http_authorized c r \<and> valid_http_body_size (length (hr_body r)) (hs_max_upload c) \<and>
         parse_response_format (snd (split_target (hr_target r))) = Some txt \<and> body = Some (Inr audio) \<and>
         \<not> shutting_down \<and> lm_mode m = Gpu_free) \<and>
      (\<forall>lease. outcome \<noteq> Http_realtime lease) \<and>
      (case outcome of Http_batch _ _ lease \<Rightarrow> gl_live lease \<and> lm_mode m' = Gpu_batch | _ \<Rightarrow> m' = m)"
  proof (cases "http_authorized c r \<and> \<not> shutting_down \<and> valid_http_body_size (length (hr_body r)) (hs_max_upload c)")
    case False
    then show ?thesis by (auto simp: handle_batch_def)
  next
    case True
    show ?thesis
    proof (cases "parse_response_format (snd (split_target (hr_target r)))")
      case None
      then show ?thesis using True by (simp add: handle_batch_def)
    next
      case (Some wants)
      then have h: "handle_batch c shutting_down r m = (case body of
           None \<Rightarrow> Some (Http_error 415 ''unsupported_media_type'' False, m)
         | Some (Inl (code, _)) \<Rightarrow> Some (Http_error (if code = ''unsupported_audio_format'' then 415 else 400) code False, m)
         | Some (Inr audio) \<Rightarrow>
             if \<not> gl_live lb then Some (busy_outcome False, mb) else Some (Http_batch audio wants lb, mb))"
        using True by (simp add: handle_batch_def b lb)
      show ?thesis
      proof (cases body)
        case None
        then show ?thesis using h by simp
      next
        case (Some res)
        then show ?thesis
          using h True \<open>parse_response_format (snd (split_target (hr_target r))) = Some wants\<close> free
          by (cases res) (auto simp: busy_outcome_def)
      qed
    qed
  qed
  have realtime_done: "\<exists>outcome m'. handle_realtime_upgrade c shutting_down r m = (outcome, m') \<and>
      (\<forall>audio txt lease. outcome \<noteq> Http_batch audio txt lease) \<and>
      ((\<exists>lease. outcome = Http_realtime lease) \<longleftrightarrow> http_authorized c r \<and> lm_mode m = Gpu_free) \<and>
      (case outcome of Http_realtime lease \<Rightarrow> gl_live lease \<and> lm_mode m' = Gpu_realtime | _ \<Rightarrow> m' = m)"
    using free by (cases "http_authorized c r") (auto simp: handle_realtime_upgrade_def lr busy_outcome_def)
  consider (batch) "fst (split_target (hr_target r)) = batch_path" "hr_method r = Post"
    | (realtime) "fst (split_target (hr_target r)) = realtime_path" "hr_upgrade r"
    | (other) "\<not> (fst (split_target (hr_target r)) = batch_path \<and> hr_method r = Post)"
        "\<not> (fst (split_target (hr_target r)) = realtime_path \<and> hr_upgrade r)" by blast
  then show ?thesis
  proof cases
    case batch
    then have "http_route c shutting_down r m = handle_batch c shutting_down r m" "\<not> realtime_request c r"
      "\<And>audio txt. batch_request c r audio txt \<longleftrightarrow> http_authorized c r \<and>
         valid_http_body_size (length (hr_body r)) (hs_max_upload c) \<and>
         parse_response_format (snd (split_target (hr_target r))) = Some txt \<and> body = Some (Inr audio)"
      by (simp_all add: http_route_def batch_path_def realtime_path_def realtime_request_def batch_request_def b)
    note r = this
    from batch_done obtain outcome m' where o: "handle_batch c shutting_down r m = Some (outcome, m')"
        "\<forall>audio txt. (\<exists>lease. outcome = Http_batch audio txt lease) \<longleftrightarrow>
           http_authorized c r \<and> valid_http_body_size (length (hr_body r)) (hs_max_upload c) \<and>
           parse_response_format (snd (split_target (hr_target r))) = Some txt \<and> body = Some (Inr audio) \<and>
           \<not> shutting_down \<and> lm_mode m = Gpu_free"
        "\<forall>lease. outcome \<noteq> Http_realtime lease"
        "case outcome of Http_batch _ _ lease \<Rightarrow> gl_live lease \<and> lm_mode m' = Gpu_batch | _ \<Rightarrow> m' = m"
      by blast
    show ?thesis
    proof (intro exI conjI)
      show "http_route c shutting_down r m = Some (outcome, m')" using r(1) o(1) by (rule trans)
      show "\<forall>audio txt. (\<exists>lease. outcome = Http_batch audio txt lease) \<longleftrightarrow>
          batch_request c r audio txt \<and> \<not> shutting_down \<and> lm_mode m = Gpu_free"
        unfolding r(3) using o(2) by blast
      show "(\<exists>lease. outcome = Http_realtime lease) \<longleftrightarrow> realtime_request c r \<and> lm_mode m = Gpu_free" using r(2) o(3) by blast
      show "case outcome of Http_batch _ _ lease \<Rightarrow> gl_live lease \<and> lm_mode m' = Gpu_batch
          | Http_realtime lease \<Rightarrow> gl_live lease \<and> lm_mode m' = Gpu_realtime | _ \<Rightarrow> m' = m"
        using o(3,4) by (cases outcome) simp_all
    qed
  next
    case realtime
    then have r: "http_route c shutting_down r m = Some (handle_realtime_upgrade c shutting_down r m)"
      "\<not> batch_request c r audio txt" "realtime_request c r \<longleftrightarrow> http_authorized c r" for audio "txt"
      by (simp_all add: http_route_def batch_path_def realtime_path_def realtime_request_def batch_request_def)
    from realtime_done obtain outcome m' where o: "handle_realtime_upgrade c shutting_down r m = (outcome, m')"
        "\<forall>audio txt lease. outcome \<noteq> Http_batch audio txt lease"
        "(\<exists>lease. outcome = Http_realtime lease) \<longleftrightarrow> http_authorized c r \<and> lm_mode m = Gpu_free"
        "case outcome of Http_realtime lease \<Rightarrow> gl_live lease \<and> lm_mode m' = Gpu_realtime | _ \<Rightarrow> m' = m"
      by blast
    show ?thesis
    proof (intro exI conjI)
      show "http_route c shutting_down r m = Some (outcome, m')" using r(1) o(1) by simp
      show "\<forall>audio txt. (\<exists>lease. outcome = Http_batch audio txt lease) \<longleftrightarrow>
          batch_request c r audio txt \<and> \<not> shutting_down \<and> lm_mode m = Gpu_free"
        using r(2) o(2) by blast
      show "(\<exists>lease. outcome = Http_realtime lease) \<longleftrightarrow> realtime_request c r \<and> lm_mode m = Gpu_free"
        unfolding r(3) by (rule o(3))
      show "case outcome of Http_batch _ _ lease \<Rightarrow> gl_live lease \<and> lm_mode m' = Gpu_batch
          | Http_realtime lease \<Rightarrow> gl_live lease \<and> lm_mode m' = Gpu_realtime | _ \<Rightarrow> m' = m"
        using o(2,4) by (cases outcome) auto
    qed
  next
    case other
    then have "\<not> batch_request c r audio txt" "\<not> realtime_request c r" for audio "txt"
      by (auto simp: batch_request_def realtime_request_def)
    moreover have "(\<exists>a b d. http_route c shutting_down r m = Some (Http_error a b d, m)) \<or>
        http_route c shutting_down r m = Some (Http_health, m)"
      using other unfolding http_route_def batch_path_def realtime_path_def Let_def
      by (cases "fst (split_target (hr_target r)) = ''/v1/audio/transcriptions''";
          cases "fst (split_target (hr_target r)) = ''/v1/realtime/transcription''") auto
    ultimately show ?thesis by auto
  qed
qed

text \<open>A raw upload with a key, on a free GPU.\<close>

definition sample_settings :: http_settings where
  "sample_settings = \<lparr> hs_api_key = ''k3y'', hs_no_auth = False, hs_max_upload = 1000 \<rparr>"

definition sample_upload :: http_request where
  "sample_upload = \<lparr> hr_method = Post, hr_target = ''/v1/audio/transcriptions?response_format=text'', hr_upgrade = False,
     hr_authorization = ''Bearer k3y'', hr_content_type = ''Application/Octet-Stream; x=y'', hr_audio_format = ''pcm_s16le'',
     hr_sample_rate = ''16000'', hr_audio_channels = ''1'', hr_body = [1, 0, 255, 255] \<rparr>"

lemma http_admission_exact_witness:
  "\<exists>lease m'. http_route sample_settings False sample_upload new_manager =
     Some (Http_batch \<lparr> ad_samples = [1, - 1], ad_duration_ms = 0 \<rparr> True lease, m') \<and> lm_mode m' = Gpu_batch"
proof -
  have q: "batch_request sample_settings sample_upload \<lparr> ad_samples = [1, - 1], ad_duration_ms = 0 \<rparr> True" by code_simp
  have "int (length (hr_body sample_upload)) < 2 ^ 54" "lm_mode new_manager = Gpu_free"
    by (simp_all add: sample_upload_def new_manager_def)
  with http_admission_exact [of sample_upload sample_settings False new_manager] q show ?thesis by fastforce
qed

text \<open>A file whose samples come before its format, with a comment of three bytes between them.\<close>

lemma wav_container_exact_witness:
  "parse_pcm16_wav (wav_file [(''data'', [1, 0, 255, 255]), (''LIST'', [7, 7, 7]),
       (''fmt '', [1, 0, 1, 0, 128, 62, 0, 0, 0, 125, 0, 0, 2, 0, 16, 0])] [9]) =
     Some (Inr \<lparr> ad_samples = [1, - 1], ad_duration_ms = 0 \<rparr>)"
proof -
  let ?cs = "[(''data'', [1, 0, 255, 255]), (''LIST'', [7, 7, 7]),
       (''fmt '', [1, 0, 1, 0, 128, 62, 0, 0, 0, 125, 0, 0, 2, 0, 16, 0])] :: (string \<times> byte list) list"
  have "\<forall>c \<in> set ?cs. writable_chunk c" by (simp add: writable_chunk_def)
  moreover have "int (length (wav_file ?cs [])) < 2 ^ 32 + 8" by (simp add: wav_file_def chunk_bytes_def)
  ultimately have "parse_pcm16_wav (wav_file ?cs [9]) = Some (wav_reference ?cs)" by (rule wav_container_exact)
  moreover have "wav_reference ?cs = Inr \<lparr> ad_samples = [1, - 1], ad_duration_ms = 0 \<rparr>" by code_simp
  ultimately show ?thesis by simp
qed

end
