(* ===== verification/JsonProtocol.thy ===== *)
theory JsonProtocol
  imports CApi
begin

text \<open>The messages of the server (\<open>server/json-protocol.cpp\<close>).  The text format is Boost.JSON: \<open>parse\<close> and
\<open>serialize\<close> are arguments of whatever needs them, and a message is the JSON value they convert.  Boost.JSON keeps
one value per key of an object and tells integers from floating-point numbers.  Proved: which control messages are
accepted, and as what.\<close>

datatype json =
    Json_null
  | Json_bool bool
  | Json_int int
  | Json_double real
  | Json_string string
  | Json_object "(string \<times> json) list"
  | Json_array "json list"

section \<open>Sizes\<close>

definition max_control_frame_bytes :: int where
  "max_control_frame_bytes = 16 * 1024"

definition max_binary_frame_bytes :: int where
  "max_binary_frame_bytes = 64 * 1024"

definition valid_control_frame_size :: "nat \<Rightarrow> bool" where
  "valid_control_frame_size n \<longleftrightarrow> 0 < n \<and> int n \<le> max_control_frame_bytes"

definition valid_binary_frame_size :: "nat \<Rightarrow> bool" where
  "valid_binary_frame_size n \<longleftrightarrow> int n \<le> max_binary_frame_bytes \<and> even n"

section \<open>Messages of the client\<close>

record realtime_configuration =
  rc_token_events :: bool
  rc_partial_events :: bool

datatype client_message = Msg_finish | Msg_cancel | Msg_ping string

text \<open>Code and message of a refusal.\<close>

type_synonym refusal = "string \<times> string"

definition read_bool :: "(string \<times> json) list \<Rightarrow> string \<Rightarrow> bool \<Rightarrow> bool option" where
  "read_bool obj key default_value =
    (case map_of obj key of None \<Rightarrow> Some default_value | Some (Json_bool b) \<Rightarrow> Some b | Some _ \<Rightarrow> None)"

definition configure_events :: "(string \<times> json) list \<Rightarrow> refusal + realtime_configuration" where
  "configure_events members =
    (case map_of members ''events'' of
       None \<Rightarrow> Inr \<lparr> rc_token_events = False, rc_partial_events = True \<rparr>
     | Some (Json_object events) \<Rightarrow>
         (case (read_bool events ''token'' False, read_bool events ''partial'' True) of
            (Some t, Some p) \<Rightarrow> Inr \<lparr> rc_token_events = t, rc_partial_events = p \<rparr>
          | _ \<Rightarrow> Inl (''invalid_configuration'', ''events.token and events.partial must be booleans.''))
     | Some _ \<Rightarrow> Inl (''invalid_configuration'', ''events must be a JSON object.''))"

definition parse_session_configure :: "(string \<Rightarrow> json option) \<Rightarrow> string \<Rightarrow> refusal + realtime_configuration" where
  "parse_session_configure parse message =
    (case parse message of
       Some (Json_object members) \<Rightarrow>
         if map_of members ''type'' \<noteq> Some (Json_string ''session.configure'')
         then Inl (''invalid_configuration'', ''The first message must be session.configure.'')
         else (case map_of members ''audio'' of
           Some (Json_object audio) \<Rightarrow>
             if map_of audio ''format'' \<noteq> Some (Json_string ''pcm_s16le'') \<or>
                map_of audio ''sample_rate'' \<noteq> Some (Json_int 16000) \<or> map_of audio ''channels'' \<noteq> Some (Json_int 1)
             then Inl (''unsupported_audio_format'', ''Realtime audio must be pcm_s16le, 16000 Hz, and one channel.'')
             else (case map_of members ''language'' of
               Some l \<Rightarrow> if l \<noteq> Json_string ''auto''
                         then Inl (''invalid_configuration'', ''language must be absent or set to auto.'')
                         else configure_events members
             | None \<Rightarrow> configure_events members)
         | _ \<Rightarrow> Inl (''invalid_configuration'', ''session.configure must contain an audio object.''))
     | _ \<Rightarrow> Inl (''invalid_json'', ''The control message is not valid JSON.''))"

definition parse_client_message :: "(string \<Rightarrow> json option) \<Rightarrow> string \<Rightarrow> refusal + client_message" where
  "parse_client_message parse message =
    (case parse message of
       Some (Json_object members) \<Rightarrow>
         (case map_of members ''type'' of
            Some (Json_string kind) \<Rightarrow>
              if kind = ''input_audio.end'' then Inr Msg_finish
              else if kind = ''session.cancel'' then Inr Msg_cancel
              else if kind = ''ping''
              then (case map_of members ''id'' of
                      Some (Json_string ident) \<Rightarrow> Inr (Msg_ping ident)
                    | _ \<Rightarrow> Inl (''invalid_configuration'', ''ping.id must be a string.''))
              else Inl (''unsupported_message'', ''Unsupported client message type.'')
          | _ \<Rightarrow> Inl (''unsupported_message'', ''Unsupported client message type.''))
     | _ \<Rightarrow> Inl (''invalid_json'', ''The control message is not valid JSON.''))"

section \<open>Messages of the server\<close>

definition audio_description :: json where
  "audio_description = Json_object [(''format'', Json_string ''pcm_s16le''), (''sample_rate'', Json_int 16000), (''channels'', Json_int 1)]"

definition error_response_json :: "string \<Rightarrow> string \<Rightarrow> json" where
  "error_response_json code message =
    Json_object [(''error'', Json_object [(''code'', Json_string code), (''message'', Json_string message)])]"

definition realtime_error_json :: "string \<Rightarrow> string \<Rightarrow> bool \<Rightarrow> json" where
  "realtime_error_json code message fatal =
    Json_object [(''type'', Json_string ''error''), (''code'', Json_string code), (''message'', Json_string message),
      (''fatal'', Json_bool fatal)]"

definition session_created_json :: "string \<Rightarrow> string \<Rightarrow> json" where
  "session_created_json session_id model_name =
    Json_object [(''type'', Json_string ''session.created''), (''session_id'', Json_string session_id),
      (''protocol_version'', Json_int 1), (''model'', Json_string model_name), (''audio'', audio_description)]"

definition pong_json :: "string \<Rightarrow> json" where
  "pong_json ident = Json_object [(''type'', Json_string ''pong''), (''id'', Json_string ident)]"

definition token_event_json :: "public_event \<Rightarrow> json" where
  "token_event_json e =
    Json_object [(''type'', Json_string ''transcript.token''), (''sequence'', Json_int (pe_sequence e)),
      (''token_id'', Json_int (pe_token_id e)), (''text'', Json_string (take (pe_text_length e) (pe_text e))),
      (''audio_end_ms'', Json_int (pe_audio_end_ms e))]"

definition partial_event_json :: "public_event \<Rightarrow> json" where
  "partial_event_json e =
    Json_object [(''type'', Json_string ''transcript.partial''), (''sequence'', Json_int (pe_sequence e)),
      (''text'', Json_string (take (pe_text_length e) (pe_text e))), (''audio_end_ms'', Json_int (pe_audio_end_ms e))]"

definition final_event_json :: "int \<Rightarrow> string \<Rightarrow> int \<Rightarrow> json" where
  "final_event_json sequence transcript audio_end_ms =
    Json_object [(''type'', Json_string ''transcript.final''), (''sequence'', Json_int sequence),
      (''text'', Json_string transcript), (''audio_end_ms'', Json_int audio_end_ms)]"

text \<open>The metrics the server reads.\<close>

record stream_metrics =
  sm_audio_samples_accepted :: int
  sm_audio_duration_ms :: int
  sm_pipeline_rtf :: real
  sm_backlog_final_ms :: real
  sm_backlog_slope_ms_per_s :: real

definition completed_event_json :: "int \<Rightarrow> stream_metrics \<Rightarrow> real \<Rightarrow> json" where
  "completed_event_json sequence metrics fallback_realtime_factor =
    Json_object [(''type'', Json_string ''session.completed''), (''sequence'', Json_int sequence),
      (''audio_duration_ms'', Json_int (sm_audio_duration_ms metrics)),
      (''processing'', Json_object
        [(''realtime_factor'', Json_double
           (if 0 < sm_pipeline_rtf metrics then sm_pipeline_rtf metrics else fallback_realtime_factor)),
         (''backlog_final_ms'', Json_double (sm_backlog_final_ms metrics)),
         (''backlog_slope_ms_per_s'', Json_double (sm_backlog_slope_ms_per_s metrics))])]"

definition warning_event_json :: "real \<Rightarrow> json" where
  "warning_event_json backlog_ms =
    Json_object [(''type'', Json_string ''session.warning''), (''code'', Json_string ''processing_lag''),
      (''backlog_ms'', Json_double backlog_ms),
      (''message'', Json_string ''Transcription is falling behind real-time audio.'')]"

definition cancelled_event_json :: json where
  "cancelled_event_json = Json_object [(''type'', Json_string ''session.cancelled'')]"

text \<open>The sequence number a message carries.\<close>

definition message_sequence :: "json \<Rightarrow> int option" where
  "message_sequence j =
    (case j of Json_object members \<Rightarrow> (case map_of members ''sequence'' of Some (Json_int n) \<Rightarrow> Some n | _ \<Rightarrow> None) | _ \<Rightarrow> None)"

lemma message_sequence_events [simp]:
  "message_sequence (token_event_json e) = Some (pe_sequence e)"
  "message_sequence (partial_event_json e) = Some (pe_sequence e)"
  "message_sequence (final_event_json n t a) = Some n"
  "message_sequence (completed_event_json n m r) = Some n"
  "message_sequence (pong_json i) = None"
  "message_sequence cancelled_event_json = None"
  by (simp_all add: message_sequence_def token_event_json_def partial_event_json_def final_event_json_def
      completed_event_json_def pong_json_def cancelled_event_json_def)

end
