(* ===== verification/RealtimeSession.thy ===== *)
theory RealtimeSession
  imports JsonProtocol ServerHttp
begin

text \<open>A realtime session of the server (\<open>server/realtime-session.cpp\<close>): the handlers of the network thread, the
outbound queue both threads write to, and the actions of the inference worker on the session.  A handler and an
action of the worker are atomic; completions the network library owes the session (a read, a write, a timer, a
posted task) are steps that are possible while they are owed, and a worker that waits on the condition variable is a
step that does not happen.  The fields behind \<open>rw_sent\<close> record history and are read by no operation.\<close>

section \<open>State\<close>

datatype outbound_kind = Ob_token | Ob_partial | Ob_mandatory

type_synonym outbound_message = "string \<times> outbound_kind"

datatype close_code = Close_normal | Close_going_away | Close_policy_error | Close_internal_error

definition max_outbound_messages :: nat where
  "max_outbound_messages = 256"

definition max_outbound_bytes :: int where
  "max_outbound_bytes = 4 * 1024 * 1024"

record realtime_settings =
  rx_parse :: "string \<Rightarrow> json option"
  rx_wire :: "json \<Rightarrow> string"
  rx_session_id :: string
  rx_model_name :: string

record realtime_session =
  rs_lease :: gpu_lease
  rs_cancellation :: "nat option"
  rs_configuration :: realtime_configuration
  rs_queue :: pcm_queue
  rs_pending :: "int list"
  rs_offset :: nat
  rs_received :: int
  rs_config_timer :: bool
  rs_idle_timer :: bool
  rs_outbound :: "outbound_message list"
  rs_active :: "string option"
  rs_bytes :: int
  rs_outbound_closed :: bool
  rs_writing :: bool
  rs_close_after_drain :: bool
  rs_close_code :: close_code
  rs_configured :: bool
  rs_worker_started :: bool
  rs_input_ended :: bool
  rs_reading :: bool
  rs_closed :: bool
  rs_close_started :: bool

datatype io_task = Task_write | Task_pump

text \<open>The session with the lease manager, the tasks posted to its executor, the lease of a running worker, an
outstanding accept or close handshake, and the application's register.\<close>

record realtime_world =
  rw_s :: realtime_session
  rw_manager :: lease_manager
  rw_tasks :: "io_task list"
  rw_worker :: "gpu_lease option"
  rw_accepting :: bool
  rw_closing :: bool
  rw_registered :: bool
  rw_sent :: "outbound_message list"
  rw_accepted :: "outbound_message list"
  rw_input :: "int list"
  rw_delivered :: "int list"

definition realtime_capacity_samples :: "int \<Rightarrow> nat" where
  "realtime_capacity_samples buffer_ms = nat (u64 (buffer_ms * 16))"

definition new_session :: "gpu_lease \<Rightarrow> int \<Rightarrow> realtime_session" where
  "new_session lease buffer_ms =
    \<lparr> rs_lease = lease, rs_cancellation = None,
      rs_configuration = \<lparr> rc_token_events = False, rc_partial_events = True \<rparr>,
      rs_queue = new_queue (realtime_capacity_samples buffer_ms), rs_pending = [], rs_offset = 0, rs_received = 0,
      rs_config_timer = False, rs_idle_timer = False, rs_outbound = [], rs_active = None, rs_bytes = 0,
      rs_outbound_closed = False, rs_writing = False, rs_close_after_drain = False, rs_close_code = Close_normal,
      rs_configured = False, rs_worker_started = False, rs_input_ended = False, rs_reading = False, rs_closed = False,
      rs_close_started = False \<rparr>"

text \<open>The constructed session whose WebSocket handshake is under way.\<close>

definition new_world :: "gpu_lease \<Rightarrow> lease_manager \<Rightarrow> int \<Rightarrow> realtime_world" where
  "new_world lease m buffer_ms =
    \<lparr> rw_s = new_session lease buffer_ms, rw_manager = m, rw_tasks = [], rw_worker = None, rw_accepting = True,
      rw_closing = False, rw_registered = True, rw_sent = [], rw_accepted = [], rw_input = [], rw_delivered = [] \<rparr>"

definition upd :: "(realtime_session \<Rightarrow> realtime_session) \<Rightarrow> realtime_world \<Rightarrow> realtime_world" where
  "upd f w = w \<lparr> rw_s := f (rw_s w) \<rparr>"

definition post :: "io_task \<Rightarrow> realtime_world \<Rightarrow> realtime_world" where
  "post task w = w \<lparr> rw_tasks := rw_tasks w @ [task] \<rparr>"

section \<open>The outbound queue\<close>

definition has_queue_capacity :: "int \<Rightarrow> realtime_session \<Rightarrow> bool" where
  "has_queue_capacity bytes s \<longleftrightarrow>
    bytes \<le> max_outbound_bytes \<and>
    length (rs_outbound s) + (if rs_writing s then 1 else 0) < max_outbound_messages \<and>
    rs_bytes s \<le> max_outbound_bytes - bytes"

definition payload_size :: "string \<Rightarrow> int" where
  "payload_size p = int (length p)"

text \<open>The last partial in the queue.\<close>

fun last_partial :: "outbound_message list \<Rightarrow> nat option" where
  "last_partial [] = None"
| "last_partial (m # ms) =
    (case last_partial ms of Some i \<Rightarrow> Some (Suc i) | None \<Rightarrow> if snd m = Ob_partial then Some 0 else None)"

definition coalesce_partial :: "outbound_message \<Rightarrow> realtime_session \<Rightarrow> realtime_session option" where
  "coalesce_partial message s =
    (if snd message \<noteq> Ob_partial then None
     else case last_partial (rs_outbound s) of
            None \<Rightarrow> None
          | Some i \<Rightarrow>
              let without_existing = u64 (rs_bytes s - payload_size (fst (rs_outbound s ! i)))
              in if payload_size (fst message) \<le> u64 (max_outbound_bytes - without_existing)
                 then Some (s \<lparr> rs_bytes := u64 (without_existing + payload_size (fst message)),
                                rs_outbound := (rs_outbound s) [i := message] \<rparr>)
                 else None)"

definition remove_optional_partial :: "realtime_session \<Rightarrow> realtime_session option" where
  "remove_optional_partial s =
    (case last_partial (rs_outbound s) of
       None \<Rightarrow> None
     | Some i \<Rightarrow> Some (s \<lparr> rs_bytes := u64 (rs_bytes s - payload_size (fst (rs_outbound s ! i))),
                           rs_outbound := take i (rs_outbound s) @ drop (Suc i) (rs_outbound s) \<rparr>))"

lemma last_partial_bound: "last_partial ms = Some i \<Longrightarrow> i < length ms"
  by (induction ms arbitrary: i) (auto split: option.splits if_splits)

function make_room :: "int \<Rightarrow> realtime_session \<Rightarrow> realtime_session" where
  "make_room bytes s =
    (if has_queue_capacity bytes s then s
     else case remove_optional_partial s of None \<Rightarrow> s | Some s1 \<Rightarrow> make_room bytes s1)"
  by auto
termination
  by (relation "measure (\<lambda>(bytes, s). length (rs_outbound s))")
    (auto simp: remove_optional_partial_def split: option.splits dest: last_partial_bound)

declare make_room.simps [simp del]

definition append_outbound :: "outbound_message \<Rightarrow> realtime_world \<Rightarrow> realtime_world" where
  "append_outbound message w =
    (upd (\<lambda>s. s \<lparr> rs_bytes := u64 (rs_bytes s + payload_size (fst message)), rs_outbound := rs_outbound s @ [message] \<rparr>) w)
      \<lparr> rw_accepted := rw_accepted w @ [message] \<rparr>"

definition enqueue_from_io :: "string \<Rightarrow> outbound_kind \<Rightarrow> realtime_world \<Rightarrow> bool \<times> realtime_world" where
  "enqueue_from_io payload kind w =
    (if rs_outbound_closed (rw_s w) then (False, w)
     else case coalesce_partial (payload, kind) (rw_s w) of
            Some s1 \<Rightarrow> (True, post Task_write (upd (\<lambda>_. s1) w))
          | None \<Rightarrow>
              let w1 = upd (make_room (payload_size payload)) w
              in if \<not> has_queue_capacity (payload_size payload) (rw_s w1) then (False, w1)
                 else (True, post Task_write (append_outbound (payload, kind) w1)))"

definition session_cancel_reason :: "realtime_world \<Rightarrow> cancel_reason" where
  "session_cancel_reason w =
    (case rs_cancellation (rw_s w) of None \<Rightarrow> No_reason | Some i \<Rightarrow> lm_cells (rw_manager w) ! i)"

text \<open>\<^term>\<open>None\<close>: the worker waits for space.\<close>

definition enqueue_from_worker :: "string \<Rightarrow> outbound_kind \<Rightarrow> realtime_world \<Rightarrow> (bool \<times> realtime_world) option" where
  "enqueue_from_worker payload kind w =
    (if rs_outbound_closed (rw_s w) \<or> session_cancel_reason w = By_disconnect then Some (False, w)
     else case coalesce_partial (payload, kind) (rw_s w) of
            Some s1 \<Rightarrow> Some (True, post Task_write (upd (\<lambda>_. s1) w))
          | None \<Rightarrow>
              if has_queue_capacity (payload_size payload) (rw_s w)
              then Some (True, post Task_write (append_outbound (payload, kind) w))
              else if max_outbound_bytes < payload_size payload then Some (False, w)
              else None)"

definition request_close_after_drain :: "close_code \<Rightarrow> realtime_world \<Rightarrow> realtime_world" where
  "request_close_after_drain code w =
    post Task_write (if rs_close_after_drain (rw_s w) then w
                     else upd (\<lambda>s. s \<lparr> rs_close_after_drain := True, rs_close_code := code \<rparr>) w)"

section \<open>Closing\<close>

text \<open>A request on a pointer of the session.\<close>

definition request_on :: "cancel_reason \<Rightarrow> nat option \<Rightarrow> realtime_world \<Rightarrow> realtime_world" where
  "request_on reason cell w = w \<lparr> rw_manager := request_at reason cell (rw_manager w) \<rparr>"

definition request_session_cancel :: "cancel_reason \<Rightarrow> realtime_world \<Rightarrow> realtime_world" where
  "request_session_cancel reason w =
    (if rs_cancellation (rw_s w) \<noteq> None then request_on reason (rs_cancellation (rw_s w)) w
     else if gl_live (rs_lease (rw_s w)) then request_on reason (gl_cancellation (rs_lease (rw_s w))) w
     else w)"

definition cancel_input :: "realtime_world \<Rightarrow> realtime_world" where
  "cancel_input = upd (\<lambda>s. s \<lparr> rs_queue := queue_cancel (rs_queue s) \<rparr>)"

definition reset_session_lease :: "realtime_world \<Rightarrow> realtime_world" where
  "reset_session_lease w =
    (let (l, m) = lease_reset (rs_lease (rw_s w)) (rw_manager w)
     in (upd (\<lambda>s. s \<lparr> rs_lease := l \<rparr>) w) \<lparr> rw_manager := m \<rparr>)"

definition close_outbound :: "realtime_session \<Rightarrow> realtime_session" where
  "close_outbound s = s \<lparr> rs_outbound_closed := True,
     rs_bytes := fold (\<lambda>m b. u64 (b - payload_size (fst m))) (rs_outbound s) (rs_bytes s), rs_outbound := [] \<rparr>"

definition stop_timers :: "realtime_session \<Rightarrow> realtime_session" where
  "stop_timers s = s \<lparr> rs_config_timer := False, rs_idle_timer := False \<rparr>"

definition finish_session :: "realtime_world \<Rightarrow> realtime_world" where
  "finish_session w =
    (if rs_closed (rw_s w) then w
     else let w1 = upd (\<lambda>s. stop_timers (s \<lparr> rs_closed := True \<rparr>)) w;
              w2 = (if rs_cancellation (rw_s w1) = None \<and> gl_live (rs_lease (rw_s w1))
                    then request_on By_disconnect (gl_cancellation (rs_lease (rw_s w1))) w1 else w1)
          in (upd close_outbound (reset_session_lease (cancel_input w2))) \<lparr> rw_registered := False \<rparr>)"

definition close_transport :: "realtime_world \<Rightarrow> realtime_world" where
  "close_transport w =
    (if rs_closed (rw_s w) \<or> rs_close_started (rw_s w) then w
     else let w1 = upd (\<lambda>s. stop_timers (s \<lparr> rs_close_started := True \<rparr>)) w
          in if rs_reading (rw_s w1) then finish_session w1 else w1 \<lparr> rw_closing := True \<rparr>)"

definition maybe_write :: "realtime_world \<Rightarrow> realtime_world" where
  "maybe_write w =
    (let s = rw_s w in
     if rs_closed s \<or> rs_writing s then w
     else case rs_outbound s of
            [] \<Rightarrow> if rs_close_after_drain s then close_transport w else w
          | message # rest \<Rightarrow>
              (upd (\<lambda>s. s \<lparr> rs_writing := True, rs_active := Some (fst message), rs_outbound := rest \<rparr>) w)
                \<lparr> rw_sent := rw_sent w @ [message] \<rparr>)"

definition protocol_failure :: "realtime_settings \<Rightarrow> string \<Rightarrow> string \<Rightarrow> cancel_reason \<Rightarrow> realtime_world \<Rightarrow> realtime_world" where
  "protocol_failure x code message reason w =
    (if rs_closed (rw_s w) then w
     else let w1 = cancel_input (request_session_cancel reason (upd (\<lambda>s. s \<lparr> rs_input_ended := True \<rparr>) w));
              (queued, w2) = enqueue_from_io (rx_wire x (realtime_error_json code message True)) Ob_mandatory w1
          in if queued then request_close_after_drain Close_policy_error w2 else finish_session w2)"

section \<open>Handlers\<close>

definition read_next :: "realtime_world \<Rightarrow> realtime_world" where
  "read_next w =
    (let s = rw_s w in
     if rs_closed s \<or> rs_close_after_drain s \<or> rs_input_ended s \<or> rs_reading s \<or> rs_pending s \<noteq> [] then w
     else upd (\<lambda>s. s \<lparr> rs_reading := True \<rparr>) w)"

definition touch_idle_timeout :: "realtime_world \<Rightarrow> realtime_world" where
  "touch_idle_timeout w =
    (let s = rw_s w in
     if \<not> rs_configured s \<or> rs_closed s \<or> rs_input_ended s then w else upd (\<lambda>s. s \<lparr> rs_idle_timer := True \<rparr>) w)"

definition on_accept :: "bool \<Rightarrow> realtime_world \<Rightarrow> realtime_world" where
  "on_accept failed w =
    (let w1 = w \<lparr> rw_accepting := False \<rparr>
     in if failed then finish_session w1 else read_next (upd (\<lambda>s. s \<lparr> rs_config_timer := True \<rparr>) w1))"

definition config_timeout :: "realtime_settings \<Rightarrow> realtime_world \<Rightarrow> realtime_world" where
  "config_timeout x w =
    (let w1 = upd (\<lambda>s. s \<lparr> rs_config_timer := False \<rparr>) w
     in if rs_configured (rw_s w1) then w1
        else protocol_failure x ''invalid_configuration'' ''session.configure was not received within five seconds.'' By_protocol w1)"

definition idle_timeout :: "realtime_settings \<Rightarrow> realtime_world \<Rightarrow> realtime_world" where
  "idle_timeout x w =
    (let w1 = upd (\<lambda>s. s \<lparr> rs_idle_timer := False \<rparr>) w
     in if rs_closed (rw_s w1) \<or> rs_input_ended (rw_s w1) then w1
        else protocol_failure x ''idle_timeout'' ''The realtime session exceeded its client-frame idle timeout.'' By_protocol w1)"

text \<open>What the application's \<open>start_worker\<close> does: a thread runs, the slot is taken, or an exception.\<close>

datatype worker_start = Start_ok | Start_slot_taken | Start_throws

definition start_inference_worker :: "realtime_settings \<Rightarrow> worker_start \<Rightarrow> realtime_world \<Rightarrow> realtime_world" where
  "start_inference_worker x start w =
    (let lease = rs_lease (rw_s w);
         w1 = upd (\<lambda>s. s \<lparr> rs_lease := lease \<lparr> gl_live := False, gl_mode := Gpu_free, gl_cancellation := None \<rparr>,
                           rs_cancellation := gl_cancellation lease, rs_worker_started := True \<rparr>) w;
         failed = (upd (\<lambda>s. s \<lparr> rs_worker_started := False \<rparr>) w1)
                    \<lparr> rw_manager := snd (lease_reset lease (rw_manager w1)) \<rparr>
     in case start of
          Start_ok \<Rightarrow> w1 \<lparr> rw_worker := Some lease \<rparr>
        | Start_slot_taken \<Rightarrow>
            protocol_failure x ''server_busy'' ''The transcription engine is currently busy.'' By_protocol failed
        | Start_throws \<Rightarrow>
            protocol_failure x ''internal_error'' ''The server could not start the inference worker.'' By_protocol failed)"

definition handle_configuration :: "realtime_settings \<Rightarrow> worker_start \<Rightarrow> string \<Rightarrow> realtime_world \<Rightarrow> realtime_world" where
  "handle_configuration x start message w =
    (case parse_session_configure (rx_parse x) message of
       Inl (code, text) \<Rightarrow> protocol_failure x code text By_protocol w
     | Inr configuration \<Rightarrow>
         let w1 = touch_idle_timeout (upd (\<lambda>s. s \<lparr> rs_configuration := configuration, rs_configured := True,
                                                   rs_config_timer := False \<rparr>) w);
             (queued, w2) = enqueue_from_io (rx_wire x (session_created_json (rx_session_id x) (rx_model_name x))) Ob_mandatory w1
         in if \<not> queued then finish_session w2
            else let w3 = start_inference_worker x start w2
                 in if rs_closed (rw_s w3) then w3 else read_next w3)"

definition handle_control :: "realtime_settings \<Rightarrow> string \<Rightarrow> realtime_world \<Rightarrow> realtime_world" where
  "handle_control x message w =
    (case parse_client_message (rx_parse x) message of
       Inl (code, text) \<Rightarrow> protocol_failure x code text By_protocol w
     | Inr (Msg_ping ident) \<Rightarrow>
         let (queued, w1) = enqueue_from_io (rx_wire x (pong_json ident)) Ob_mandatory w
         in if queued then read_next w1 else finish_session w1
     | Inr Msg_finish \<Rightarrow>
         upd (\<lambda>s. s \<lparr> rs_input_ended := True, rs_idle_timer := False, rs_queue := queue_finish (rs_queue s) \<rparr>) w
     | Inr Msg_cancel \<Rightarrow>
         let w1 = upd (\<lambda>s. s \<lparr> rs_input_ended := True \<rparr>) w
         in cancel_input (if rs_cancellation (rw_s w1) \<noteq> None then request_on By_client (rs_cancellation (rw_s w1)) w1 else w1))"

definition frame_sample :: "byte list \<Rightarrow> nat \<Rightarrow> int" where
  "frame_sample bytes i = signed_take_bit 15 (uint (bytes ! (2 * i)) OR push_bit 8 (uint (bytes ! (2 * i + 1))))"

text \<open>The loop of \<open>pump_pending_audio\<close>.\<close>

function push_pending :: "realtime_session \<Rightarrow> realtime_session" where
  "push_pending s =
    (if rs_offset s < length (rs_pending s)
     then let (accepted, q) = push_some (rs_queue s) (drop (rs_offset s) (rs_pending s))
          in if accepted = 0 then s else push_pending (s \<lparr> rs_queue := q, rs_offset := rs_offset s + accepted \<rparr>)
     else s \<lparr> rs_pending := [], rs_offset := 0 \<rparr>)"
  by auto
termination
  by (relation "measure (\<lambda>s. length (rs_pending s) - rs_offset s)") auto

declare push_pending.simps [simp del]

definition pump_pending_audio :: "realtime_world \<Rightarrow> realtime_world" where
  "pump_pending_audio w =
    (if rs_closed (rw_s w) \<or> rs_pending (rw_s w) = [] then read_next w
     else let w1 = upd push_pending w
          in if rs_pending (rw_s w1) \<noteq> [] then w1 else read_next w1)"

definition handle_binary :: "realtime_settings \<Rightarrow> byte list \<Rightarrow> realtime_world \<Rightarrow> realtime_world" where
  "handle_binary x bytes w =
    (if \<not> valid_binary_frame_size (length bytes)
     then protocol_failure x ''invalid_audio_frame'' ''Binary audio frames must be at most 64 KiB and have an even size.'' By_protocol w
     else if bytes = [] then read_next w
     else let samples = List.map (frame_sample bytes) [0..<length bytes div 2]
          in pump_pending_audio
               ((upd (\<lambda>s. s \<lparr> rs_pending := samples, rs_offset := 0,
                              rs_received := u64 (rs_received s + int (length samples)) \<rparr>) w)
                 \<lparr> rw_input := rw_input w @ samples \<rparr>))"

datatype read_event =
    Read_closed | Read_too_big | Read_aborted | Read_failed | Read_text string | Read_binary "byte list"

text \<open>The client is gone: the worker is told, if there is one.\<close>

definition disconnected :: "realtime_world \<Rightarrow> realtime_world" where
  "disconnected w =
    cancel_input (if rs_cancellation (rw_s w) \<noteq> None then request_on By_disconnect (rs_cancellation (rw_s w)) w else w)"

definition on_read :: "realtime_settings \<Rightarrow> worker_start \<Rightarrow> read_event \<Rightarrow> realtime_world \<Rightarrow> realtime_world" where
  "on_read x start event w0 =
    (let w = upd (\<lambda>s. s \<lparr> rs_reading := False \<rparr>) w0 in
     case event of
       Read_closed \<Rightarrow> finish_session (disconnected w)
     | Read_too_big \<Rightarrow>
         protocol_failure x ''input_overflow'' ''The WebSocket message exceeds the configured frame limit.'' By_protocol w
     | Read_aborted \<Rightarrow> finish_session w
     | Read_failed \<Rightarrow> finish_session (disconnected w)
     | Read_text message \<Rightarrow>
         let w1 = touch_idle_timeout w in
         if \<not> valid_control_frame_size (length message)
         then protocol_failure x ''input_overflow'' ''The JSON control frame exceeds 16 KiB.'' By_protocol w1
         else if \<not> rs_configured (rw_s w1) then handle_configuration x start message w1
         else handle_control x message w1
     | Read_binary bytes \<Rightarrow>
         let w1 = touch_idle_timeout w in
         if \<not> rs_configured (rw_s w1)
         then protocol_failure x ''invalid_configuration'' ''Binary audio is not accepted before session.configure.'' By_protocol w1
         else handle_binary x bytes w1)"

definition on_write :: "bool \<Rightarrow> realtime_world \<Rightarrow> realtime_world" where
  "on_write failed w =
    (let w1 = upd (\<lambda>s. (case rs_active s of
                          None \<Rightarrow> s
                        | Some payload \<Rightarrow> s \<lparr> rs_bytes := u64 (rs_bytes s - payload_size payload), rs_active := None \<rparr>)
                        \<lparr> rs_writing := False \<rparr>) w
     in if failed then finish_session (disconnected w1) else maybe_write w1)"

definition run_task :: "io_task \<Rightarrow> realtime_world \<Rightarrow> realtime_world" where
  "run_task task w =
    (case task of
       Task_write \<Rightarrow> maybe_write w
     | Task_pump \<Rightarrow> if rs_closed (rw_s w) then w else pump_pending_audio w)"

definition initiate_shutdown :: "realtime_settings \<Rightarrow> realtime_world \<Rightarrow> realtime_world" where
  "initiate_shutdown x w =
    (if rs_closed (rw_s w) then w
     else let w1 = cancel_input (request_session_cancel By_shutdown w);
              (_, w2) = enqueue_from_io (rx_wire x (realtime_error_json ''shutting_down'' ''The server is shutting down.'' True)) Ob_mandatory w1
          in request_close_after_drain Close_going_away w2)"

section \<open>The worker's actions on the session\<close>

definition notify_input_space :: "realtime_world \<Rightarrow> realtime_world" where
  "notify_input_space = post Task_pump"

text \<open>One turn at the queue: \<^term>\<open>None\<close> while it waits.\<close>

definition worker_pop :: "realtime_world \<Rightarrow> (pop_result \<times> realtime_world) option" where
  "worker_pop w =
    map_option (\<lambda>(p, q).
        let w1 = upd (\<lambda>s. s \<lparr> rs_queue := q \<rparr>) w
        in case p of
             Pop_audio samples \<Rightarrow>
               if cancel_requested (session_cancel_reason w1) then (Pop_cancel, w1)
               else (p, notify_input_space (w1 \<lparr> rw_delivered := rw_delivered w @ samples \<rparr>))
           | _ \<Rightarrow> if cancel_requested (session_cancel_reason w1) then (Pop_cancel, w1) else (p, w1))
      (queue_pop (rs_queue (rw_s w)))"

definition worker_end :: "realtime_world \<Rightarrow> realtime_world" where
  "worker_end w =
    (case rw_worker w of
       None \<Rightarrow> w
     | Some lease \<Rightarrow> w \<lparr> rw_worker := None, rw_manager := snd (lease_reset lease (rw_manager w)) \<rparr>)"

end
