(* ===== verification/RealtimeCorrect.thy ===== *)
theory RealtimeCorrect
  imports RealtimeSession
begin

text \<open>Properties of a realtime session over \<open>RealtimeSession\<close>, for every order in which its handlers, its worker and
the rest of the server act: the outbound queue stays within its bounds and accounts for its bytes exactly, what must
not be lost leaves in order, the worker gets the client's samples, all of them and in order, and neither side is left
waiting for a wake-up that is not on its way.\<close>

section \<open>Runs\<close>

text \<open>Any other part of the server may act on the lease manager, but not on this session's cancellation objects.\<close>

definition other_cells_only :: "realtime_world \<Rightarrow> lease_manager \<Rightarrow> bool" where
  "other_cells_only w m \<longleftrightarrow>
    (\<forall>i. rs_cancellation (rw_s w) = Some i \<longrightarrow> lm_cells m ! i = lm_cells (rw_manager w) ! i \<and> length (lm_cells m) \<ge> length (lm_cells (rw_manager w)))"

inductive realtime_step :: "realtime_settings \<Rightarrow> realtime_world \<Rightarrow> realtime_world \<Rightarrow> bool" for x where
  accepted: "rw_accepting w \<Longrightarrow> realtime_step x w (on_accept failed w)"
| read: "rs_reading (rw_s w) \<Longrightarrow> realtime_step x w (on_read x start event w)"
| written: "rs_writing (rw_s w) \<Longrightarrow> realtime_step x w (on_write failed w)"
| task: "rw_tasks w = t # ts \<Longrightarrow> realtime_step x w (run_task t (w \<lparr> rw_tasks := ts \<rparr>))"
| config_timer: "rs_config_timer (rw_s w) \<Longrightarrow> realtime_step x w (config_timeout x w)"
| idle_timer: "rs_idle_timer (rw_s w) \<Longrightarrow> realtime_step x w (idle_timeout x w)"
| close_done: "rw_closing w \<Longrightarrow> realtime_step x w (finish_session (w \<lparr> rw_closing := False \<rparr>))"
| shutdown: "realtime_step x w (initiate_shutdown x (w \<lparr> rw_manager := begin_shutdown (rw_manager w) \<rparr>))"
| pop: "rw_worker w = Some l \<Longrightarrow> worker_pop w = Some (r, w') \<Longrightarrow> realtime_step x w w'"
| send: "rw_worker w = Some l \<Longrightarrow> enqueue_from_worker p k w = Some (b, w') \<Longrightarrow> realtime_step x w w'"
| worker_close: "rw_worker w = Some l \<Longrightarrow> realtime_step x w (request_close_after_drain code w)"
| worker_cancel: "rw_worker w = Some l \<Longrightarrow> realtime_step x w (request_session_cancel By_capacity w)"
| worker_end: "rw_worker w = Some l \<Longrightarrow> realtime_step x w (worker_end w)"
| elsewhere: "other_cells_only w m \<Longrightarrow> realtime_step x w (w \<lparr> rw_manager := m \<rparr>)"

text \<open>A session starts with the lease the HTTP side acquired.\<close>

inductive realtime_reach :: "realtime_settings \<Rightarrow> int \<Rightarrow> realtime_world \<Rightarrow> bool" for x buffer_ms where
  start: "gl_live lease \<Longrightarrow> gl_cancellation lease = Some i \<Longrightarrow> i < length (lm_cells m) \<Longrightarrow>
    realtime_reach x buffer_ms (new_world lease m buffer_ms)"
| step: "realtime_reach x buffer_ms w \<Longrightarrow> realtime_step x w w' \<Longrightarrow> realtime_reach x buffer_ms w'"

section \<open>The outbound side\<close>

definition total_size :: "outbound_message list \<Rightarrow> int" where
  "total_size ms = sum_list (List.map (payload_size \<circ> fst) ms)"

definition active_size :: "realtime_session \<Rightarrow> int" where
  "active_size s = (case rs_active s of None \<Rightarrow> 0 | Some p \<Rightarrow> payload_size p)"

definition in_flight :: "realtime_session \<Rightarrow> nat" where
  "in_flight s = length (rs_outbound s) + (if rs_writing s then 1 else 0)"

definition out_ok :: "realtime_session \<Rightarrow> bool" where
  "out_ok s \<longleftrightarrow> rs_bytes s = total_size (rs_outbound s) + active_size s \<and> rs_bytes s \<le> max_outbound_bytes \<and>
    (rs_writing s \<longleftrightarrow> rs_active s \<noteq> None) \<and> in_flight s \<le> max_outbound_messages \<and>
    (rs_outbound_closed s \<longleftrightarrow> rs_closed s) \<and> (rs_closed s \<longrightarrow> rs_outbound s = [])"

definition kept :: "outbound_message list \<Rightarrow> outbound_message list" where
  "kept ms = filter (\<lambda>m. snd m \<noteq> Ob_partial) ms"

text \<open>Tokens and mandatory messages: sent and waiting is accepted; closing drops what waits.\<close>

definition fifo_ok :: "realtime_world \<Rightarrow> bool" where
  "fifo_ok w \<longleftrightarrow>
    (\<exists>dropped. kept (rw_accepted w) = kept (rw_sent w) @ kept (rs_outbound (rw_s w)) @ dropped \<and>
      (\<not> rs_closed (rw_s w) \<longrightarrow> dropped = []))"

text \<open>There is nothing to do for \<open>maybe_write\<close>.\<close>

definition settled :: "realtime_session \<Rightarrow> bool" where
  "settled s \<longleftrightarrow> rs_closed s \<or> rs_writing s \<or>
    rs_outbound s = [] \<and> (rs_close_after_drain s \<longrightarrow> rs_close_started s)"

definition out_inv :: "realtime_world \<Rightarrow> bool" where
  "out_inv w \<longleftrightarrow> out_ok (rw_s w) \<and> fifo_ok w"

definition awake :: "realtime_world \<Rightarrow> bool" where
  "awake w \<longleftrightarrow> settled (rw_s w) \<or> Task_write \<in> set (rw_tasks w)"

lemma payload_size_nonneg [simp]: "0 \<le> payload_size p"
  by (simp add: payload_size_def)

lemma total_size_simps [simp]:
  "total_size [] = 0" "total_size (m # ms) = payload_size (fst m) + total_size ms"
  "total_size (ms @ ns) = total_size ms + total_size ns"
  by (simp_all add: total_size_def)

lemma total_size_nonneg [simp]: "0 \<le> total_size ms"
  by (induction ms) simp_all

lemma total_size_update: "i < length ms \<Longrightarrow> total_size (ms [i := m]) = total_size ms - payload_size (fst (ms ! i)) + payload_size (fst m)"
  by (induction ms arbitrary: i) (auto split: nat.split)

lemma total_size_remove:
  "i < length ms \<Longrightarrow> total_size (take i ms @ drop (Suc i) ms) = total_size ms - payload_size (fst (ms ! i))"
proof (induction ms arbitrary: i)
  case (Cons m ms)
  then show ?case by (cases i) auto
qed simp

lemma total_size_member: "i < length ms \<Longrightarrow> payload_size (fst (ms ! i)) \<le> total_size ms"
proof (induction ms arbitrary: i)
  case (Cons m ms)
  then show ?case using total_size_nonneg [of ms] by (cases i) (auto intro: order_trans add_increasing)
qed simp

lemma active_size_nonneg [simp]: "0 \<le> active_size s"
  by (simp add: active_size_def split: option.split)

lemma kept_simps [simp]:
  "kept [] = []" "kept (m # ms) = (if snd m = Ob_partial then kept ms else m # kept ms)" "kept (ms @ ns) = kept ms @ kept ns"
  by (simp_all add: kept_def)

lemma last_partial_kind: "last_partial ms = Some i \<Longrightarrow> i < length ms \<and> snd (ms ! i) = Ob_partial"
  by (induction ms arbitrary: i) (auto split: option.splits if_splits)

lemma kept_update:
  "i < length ms \<Longrightarrow> snd (ms ! i) = Ob_partial \<Longrightarrow> snd m = Ob_partial \<Longrightarrow> kept (ms [i := m]) = kept ms"
  by (induction ms arbitrary: i) (auto split: nat.split)

lemma kept_remove:
  "i < length ms \<Longrightarrow> snd (ms ! i) = Ob_partial \<Longrightarrow> kept (take i ms @ drop (Suc i) ms) = kept ms"
proof (induction ms arbitrary: i)
  case (Cons m ms)
  then show ?case by (cases i) auto
qed simp

subsection \<open>Operations on the queue\<close>

text \<open>Sessions that agree on what the outbound side reads and writes.\<close>

definition out_view where
  "out_view s = (rs_outbound s, rs_active s, rs_bytes s, rs_outbound_closed s, rs_writing s, rs_closed s)"

lemma out_ok_view: "out_view s = out_view t \<Longrightarrow> out_ok s = out_ok t"
  by (simp add: out_view_def out_ok_def active_size_def in_flight_def)

lemma max_outbound_numbers: "max_outbound_bytes = 4194304" "max_outbound_messages = 256"
  by (simp_all add: max_outbound_bytes_def max_outbound_messages_def)

lemma out_ok_bytes: "out_ok s \<Longrightarrow> 0 \<le> rs_bytes s \<and> total_size (rs_outbound s) \<le> rs_bytes s \<and> rs_bytes s \<le> max_outbound_bytes"
  by (simp add: out_ok_def)

text \<open>The fields a queue operation may change.\<close>

definition queue_only :: "realtime_session \<Rightarrow> realtime_session \<Rightarrow> bool" where
  "queue_only s t \<longleftrightarrow> t = s \<lparr> rs_outbound := rs_outbound t, rs_bytes := rs_bytes t \<rparr>"

lemma coalesce_partial_ok:
  assumes "out_ok s" "coalesce_partial m s = Some t"
  shows "out_ok t \<and> queue_only s t \<and> kept (rs_outbound t) = kept (rs_outbound s) \<and> snd m = Ob_partial \<and>
    length (rs_outbound t) = length (rs_outbound s) \<and> m \<in> set (rs_outbound t)"
proof -
  obtain i where i: "last_partial (rs_outbound s) = Some i" "snd m = Ob_partial"
    using assms(2) by (auto simp: coalesce_partial_def split: if_splits option.splits)
  note b = last_partial_kind [OF i(1)]
  let ?rest = "rs_bytes s - payload_size (fst (rs_outbound s ! i))"
  have r: "0 \<le> ?rest" "?rest \<le> max_outbound_bytes"
    using out_ok_bytes [OF assms(1)] total_size_member [of i "rs_outbound s"] b payload_size_nonneg [of "fst (rs_outbound s ! i)"]
    by linarith+
  then have u: "u64 ?rest = ?rest" "u64 (max_outbound_bytes - ?rest) = max_outbound_bytes - ?rest"
    by (simp_all add: max_outbound_numbers)
  then have p: "payload_size (fst m) \<le> max_outbound_bytes - ?rest"
      "t = s \<lparr> rs_bytes := u64 (?rest + payload_size (fst m)), rs_outbound := (rs_outbound s) [i := m] \<rparr>"
    using assms(2) i by (simp_all add: coalesce_partial_def Let_def split: if_splits)
  have "u64 (?rest + payload_size (fst m)) = ?rest + payload_size (fst m)"
    using p(1) r payload_size_nonneg [of "fst m"] by (intro u64_id) (simp_all add: max_outbound_numbers)
  then have t: "t = s \<lparr> rs_bytes := ?rest + payload_size (fst m), rs_outbound := (rs_outbound s) [i := m] \<rparr>" using p(2) by simp
  have "out_ok t"
    using assms(1) p(1) b by (auto simp: t out_ok_def total_size_update active_size_def in_flight_def)
  moreover have "m \<in> set (rs_outbound t)" using b by (simp add: t set_update_memI)
  ultimately show ?thesis using i b kept_update by (simp add: t queue_only_def)
qed

lemma remove_partial_ok:
  assumes "out_ok s" "remove_optional_partial s = Some t"
  shows "out_ok t \<and> queue_only s t \<and> kept (rs_outbound t) = kept (rs_outbound s) \<and> rs_outbound s \<noteq> []"
proof -
  obtain i where i: "last_partial (rs_outbound s) = Some i"
    using assms(2) by (auto simp: remove_optional_partial_def split: option.splits)
  note b = last_partial_kind [OF i]
  let ?rest = "rs_bytes s - payload_size (fst (rs_outbound s ! i))"
  have r: "0 \<le> ?rest" "?rest \<le> max_outbound_bytes"
    using out_ok_bytes [OF assms(1)] total_size_member [of i "rs_outbound s"] b payload_size_nonneg [of "fst (rs_outbound s ! i)"]
    by linarith+
  then have "u64 ?rest = ?rest" by (simp add: max_outbound_numbers)
  then have t: "t = s \<lparr> rs_bytes := ?rest, rs_outbound := take i (rs_outbound s) @ drop (Suc i) (rs_outbound s) \<rparr>"
    using assms(2) i by (simp add: remove_optional_partial_def)
  have "out_ok t" using assms(1) r(2) b
    by (auto simp: t out_ok_def active_size_def in_flight_def total_size_remove [of i "rs_outbound s", simplified])
  then show ?thesis using b kept_remove [of i "rs_outbound s"] by (auto simp: t queue_only_def)
qed

lemma queue_only_trans: "queue_only s t \<Longrightarrow> queue_only t u \<Longrightarrow> queue_only s u"
  by (cases s, cases t, cases u) (simp add: queue_only_def)

lemma make_room_ok:
  "out_ok s \<Longrightarrow> out_ok (make_room n s) \<and> queue_only s (make_room n s) \<and> kept (rs_outbound (make_room n s)) = kept (rs_outbound s) \<and>
    (rs_outbound s = [] \<longrightarrow> make_room n s = s)"
proof (induction n s rule: make_room.induct)
  case (1 n s)
  show ?case
  proof (cases "has_queue_capacity n s \<or> remove_optional_partial s = None")
    case True
    then have "make_room n s = s" by (subst make_room.simps) auto
    then show ?thesis using "1.prems" by (simp add: queue_only_def)
  next
    case False
    then obtain t where t: "remove_optional_partial s = Some t" "\<not> has_queue_capacity n s" by auto
    then have "make_room n s = make_room n t" by (subst make_room.simps) simp
    then show ?thesis using "1.IH" [OF t(2,1)] remove_partial_ok [OF "1.prems" t(1)] queue_only_trans by auto
  qed
qed

text \<open>What sending leaves alone.\<close>

definition sends :: "realtime_world \<Rightarrow> realtime_world \<Rightarrow> bool" where
  "sends w v \<longleftrightarrow> queue_only (rw_s w) (rw_s v) \<and>
    v = w \<lparr> rw_s := rw_s v, rw_tasks := rw_tasks v, rw_accepted := rw_accepted v \<rparr> \<and>
    (rw_tasks v = rw_tasks w \<or> rw_tasks v = rw_tasks w @ [Task_write])"

definition out_step :: "realtime_world \<Rightarrow> realtime_world \<Rightarrow> bool" where
  "out_step w v \<longleftrightarrow> (out_inv w \<longrightarrow> out_inv v \<and> (awake w \<longrightarrow> awake v))"

lemma out_step_trans [trans]: "out_step w v \<Longrightarrow> out_step v u \<Longrightarrow> out_step w u"
  by (simp add: out_step_def)

lemma out_step_refl [simp]: "out_step w w"
  by (simp add: out_step_def)

text \<open>A step that touches none of the outbound fields.\<close>

definition out_same :: "realtime_world \<Rightarrow> realtime_world \<Rightarrow> bool" where
  "out_same w v \<longleftrightarrow> out_view (rw_s v) = out_view (rw_s w) \<and> rw_sent v = rw_sent w \<and> rw_accepted v = rw_accepted w \<and>
    rs_close_after_drain (rw_s v) = rs_close_after_drain (rw_s w) \<and> rs_close_started (rw_s v) = rs_close_started (rw_s w) \<and>
    set (rw_tasks w) \<subseteq> set (rw_tasks v)"

lemma out_same_step: "out_same w v \<Longrightarrow> out_step w v"
  by (auto simp: out_same_def out_step_def out_inv_def out_view_def fifo_ok_def awake_def settled_def out_ok_def active_size_def in_flight_def)

lemma queue_only_fields:
  assumes "queue_only s t"
  shows "rs_active t = rs_active s" "rs_outbound_closed t = rs_outbound_closed s" "rs_writing t = rs_writing s"
    "rs_closed t = rs_closed s" "rs_close_after_drain t = rs_close_after_drain s" "rs_close_started t = rs_close_started s"
  by (subst assms [unfolded queue_only_def], simp)+

lemma upd_simps [simp]:
  "rw_s (upd f w) = f (rw_s w)" "rw_manager (upd f w) = rw_manager w" "rw_tasks (upd f w) = rw_tasks w"
  "rw_worker (upd f w) = rw_worker w" "rw_accepting (upd f w) = rw_accepting w" "rw_closing (upd f w) = rw_closing w"
  "rw_registered (upd f w) = rw_registered w" "rw_sent (upd f w) = rw_sent w" "rw_accepted (upd f w) = rw_accepted w"
  "rw_input (upd f w) = rw_input w" "rw_delivered (upd f w) = rw_delivered w"
  by (simp_all add: upd_def)

lemma post_simps [simp]:
  "rw_s (post t w) = rw_s w" "rw_manager (post t w) = rw_manager w" "rw_tasks (post t w) = rw_tasks w @ [t]"
  "rw_worker (post t w) = rw_worker w" "rw_accepting (post t w) = rw_accepting w" "rw_closing (post t w) = rw_closing w"
  "rw_registered (post t w) = rw_registered w" "rw_sent (post t w) = rw_sent w" "rw_accepted (post t w) = rw_accepted w"
  "rw_input (post t w) = rw_input w" "rw_delivered (post t w) = rw_delivered w"
  by (simp_all add: post_def)

text \<open>A queue whose kept messages did not change, with the message of a partial that took a place.\<close>

lemma replaced_out_inv:
  assumes "out_inv w" "out_ok t" "queue_only (rw_s w) t" "kept (rs_outbound t) = kept (rs_outbound (rw_s w))"
  shows "out_inv (upd (\<lambda>_. t) w)"
  using assms queue_only_fields [OF assms(3)] by (simp add: out_inv_def fifo_ok_def)

lemma append_out_inv:
  assumes "out_inv w" "has_queue_capacity (payload_size p) (rw_s w)" "\<not> rs_outbound_closed (rw_s w)"
  shows "out_inv (append_outbound (p, k) w)"
proof -
  have c: "payload_size p \<le> max_outbound_bytes" "in_flight (rw_s w) < max_outbound_messages"
      "rs_bytes (rw_s w) + payload_size p \<le> max_outbound_bytes"
    using assms(2) by (simp_all add: has_queue_capacity_def in_flight_def)
  have b: "0 \<le> rs_bytes (rw_s w)" using out_ok_bytes [of "rw_s w"] assms(1) by (simp add: out_inv_def)
  then have "u64 (rs_bytes (rw_s w) + payload_size p) = rs_bytes (rw_s w) + payload_size p"
    using c(3) by (intro u64_id) (simp_all add: max_outbound_numbers)
  then show ?thesis using assms(1,3) c
    by (auto simp: out_inv_def fifo_ok_def append_outbound_def out_ok_def active_size_def in_flight_def)
qed

lemma sends_simps:
  assumes "sends w v"
  shows "rw_manager v = rw_manager w" "rw_worker v = rw_worker w" "rw_accepting v = rw_accepting w"
    "rw_closing v = rw_closing w" "rw_sent v = rw_sent w" "rw_input v = rw_input w" "rw_delivered v = rw_delivered w"
  by (subst assms [unfolded sends_def, THEN conjunct2, THEN conjunct1], simp)+

lemma replaced_out:
  assumes i: "out_inv w" and t: "out_ok t" "queue_only (rw_s w) t" "kept (rs_outbound t) = kept (rs_outbound (rw_s w))"
  shows "sends w (post Task_write (upd (\<lambda>_. t) w)) \<and> out_inv (post Task_write (upd (\<lambda>_. t) w))"
proof -
  have "out_inv (upd (\<lambda>_. t) w)" using replaced_out_inv [OF i t] .
  then have "out_inv (post Task_write (upd (\<lambda>_. t) w))" by (simp add: out_inv_def fifo_ok_def)
  then show ?thesis using t(2) by (simp add: sends_def post_def upd_def)
qed

lemma appended_out:
  assumes i: "out_inv w" and c: "has_queue_capacity (payload_size p) (rw_s w)" "\<not> rs_outbound_closed (rw_s w)"
  shows "sends w (post Task_write (append_outbound (p, k) w)) \<and> out_inv (post Task_write (append_outbound (p, k) w))"
proof -
  have "out_inv (append_outbound (p, k) w)" using append_out_inv [OF i c] .
  then have "out_inv (post Task_write (append_outbound (p, k) w))" by (simp add: out_inv_def fifo_ok_def)
  then show ?thesis by (simp add: sends_def queue_only_def append_outbound_def post_def upd_def)
qed

lemma posted_awake: "Task_write \<in> set (rw_tasks v) \<Longrightarrow> awake v"
  by (simp add: awake_def)

lemma coalesced_out:
  assumes i: "out_inv w" and c: "coalesce_partial m (rw_s w) = Some t"
  shows "sends w (post Task_write (upd (\<lambda>_. t) w)) \<and> out_inv (post Task_write (upd (\<lambda>_. t) w))"
proof -
  have o: "out_ok (rw_s w)" using i by (simp add: out_inv_def)
  show ?thesis using coalesce_partial_ok [OF o c] by (intro replaced_out [OF i]) simp_all
qed

lemma enqueue_from_io_out:
  assumes i: "out_inv w" and e: "enqueue_from_io p k w = (b, v)"
  shows "sends w v \<and> out_inv v \<and> (b \<longrightarrow> Task_write \<in> set (rw_tasks v)) \<and> (awake w \<longrightarrow> awake v)"
proof (cases "rs_outbound_closed (rw_s w)")
  case True
  then have "v = w" "\<not> b" using e by (simp_all add: enqueue_from_io_def)
  then show ?thesis using i by (simp add: sends_def queue_only_def)
next
  case False
  note o = i [unfolded out_inv_def, THEN conjunct1]
  show ?thesis
  proof (cases "coalesce_partial (p, k) (rw_s w)")
    case (Some t)
    then have "v = post Task_write (upd (\<lambda>_. t) w)" using e False by (simp add: enqueue_from_io_def)
    then show ?thesis using coalesced_out [OF i Some] posted_awake [of v] by simp
  next
    case None
    define s1 where "s1 = make_room (payload_size p) (rw_s w)"
    have s1: "out_ok s1" "queue_only (rw_s w) s1" "kept (rs_outbound s1) = kept (rs_outbound (rw_s w))"
        "rs_outbound (rw_s w) = [] \<longrightarrow> s1 = rw_s w"
      using make_room_ok [OF o, of "payload_size p"] by (simp_all add: s1_def)
    define w1 where "w1 = upd (\<lambda>_. s1) w"
    have w1: "out_inv w1" "sends w w1" "upd (make_room (payload_size p)) w = w1"
      using replaced_out_inv [OF i s1(1-3)] s1(2) by (simp_all add: w1_def sends_def s1_def upd_def)
    show ?thesis
    proof (cases "has_queue_capacity (payload_size p) (rw_s w1)")
      case True
      then have v: "v = post Task_write (append_outbound (p, k) w1)" using e False None w1(3) by (simp add: enqueue_from_io_def)
      have "\<not> rs_outbound_closed (rw_s w1)" using False queue_only_fields(2) [OF s1(2)] by (simp add: w1_def)
      from appended_out [OF w1(1) True this] have "sends w1 v" "out_inv v" by (simp_all add: v)
      moreover from this w1(2) have "sends w v"
        unfolding sends_def using queue_only_trans by (auto simp: w1_def upd_def)
      ultimately show ?thesis using posted_awake [of v] by (simp add: v)
    next
      case nocap: False
      then have "v = w1" "\<not> b" using e False None w1(3) by (simp_all add: enqueue_from_io_def)
      moreover have "awake w \<Longrightarrow> awake w1"
        using s1(4) queue_only_fields [OF s1(2)] by (auto simp: awake_def settled_def w1_def)
      ultimately show ?thesis using w1 by simp
    qed
  qed
qed

lemma enqueue_from_worker_out:
  assumes i: "out_inv w" and e: "enqueue_from_worker p k w = Some (b, v)"
  shows "sends w v \<and> out_inv v \<and> (awake w \<longrightarrow> awake v)"
proof (cases "rs_outbound_closed (rw_s w) \<or> session_cancel_reason w = By_disconnect")
  case True
  then have "v = w" using e by (auto simp: enqueue_from_worker_def)
  then show ?thesis using i by (simp add: sends_def queue_only_def)
next
  case False
  show ?thesis
  proof (cases "coalesce_partial (p, k) (rw_s w)")
    case (Some t)
    then have "v = post Task_write (upd (\<lambda>_. t) w)" using e False by (simp add: enqueue_from_worker_def)
    then show ?thesis using coalesced_out [OF i Some] posted_awake [of v] by simp
  next
    case None
    show ?thesis
    proof (cases "has_queue_capacity (payload_size p) (rw_s w)")
      case True
      then have "v = post Task_write (append_outbound (p, k) w)" using e False None by (simp add: enqueue_from_worker_def)
      then show ?thesis using appended_out [OF i True] False posted_awake [of v] by simp
    next
      case nocap: False
      then have "v = w" using e False None by (auto simp: enqueue_from_worker_def split: if_splits)
      then show ?thesis using i by (simp add: sends_def queue_only_def)
    qed
  qed
qed

subsection \<open>Closing\<close>

lemma subtract_all:
  "total_size ms \<le> b \<Longrightarrow> b < 2 ^ 64 \<Longrightarrow> fold (\<lambda>m b. u64 (b - payload_size (fst m))) ms b = b - total_size ms"
proof (induction ms arbitrary: b)
  case (Cons m ms)
  then have r: "0 \<le> b - payload_size (fst m)" "b - payload_size (fst m) < 2 ^ 64" "total_size ms \<le> b - payload_size (fst m)"
    using total_size_nonneg [of ms] payload_size_nonneg [of "fst m"] unfolding total_size_simps by linarith+
  from r(1,2) have "u64 (b - payload_size (fst m)) = b - payload_size (fst m)" by (rule u64_id)
  then show ?case using Cons.IH [OF r(3,2)] by simp
qed simp

lemma close_outbound_ok:
  assumes "out_ok s" "rs_closed t" "rs_outbound t = rs_outbound s" "rs_bytes t = rs_bytes s" "rs_active t = rs_active s"
    "rs_writing t = rs_writing s"
  shows "out_ok (close_outbound t)"
proof -
  have b: "total_size (rs_outbound s) \<le> rs_bytes s" "rs_bytes s < 2 ^ 64"
    using out_ok_bytes [OF assms(1)] by (simp_all add: max_outbound_numbers)
  have "rs_bytes (close_outbound t) = active_size s" "active_size t = active_size s"
    using assms subtract_all [OF b] by (simp_all add: out_ok_def close_outbound_def active_size_def)
  moreover have "active_size s \<le> max_outbound_bytes"
    using assms(1) total_size_nonneg [of "rs_outbound s"] unfolding out_ok_def by linarith
  ultimately show ?thesis using assms
    by (auto simp: out_ok_def close_outbound_def active_size_def in_flight_def max_outbound_numbers)
qed

lemma reset_session_lease_simps [simp]:
  "rw_s (reset_session_lease w) = (rw_s w) \<lparr> rs_lease := fst (lease_reset (rs_lease (rw_s w)) (rw_manager w)) \<rparr>"
  "rw_tasks (reset_session_lease w) = rw_tasks w" "rw_worker (reset_session_lease w) = rw_worker w"
  "rw_accepting (reset_session_lease w) = rw_accepting w" "rw_closing (reset_session_lease w) = rw_closing w"
  "rw_sent (reset_session_lease w) = rw_sent w" "rw_accepted (reset_session_lease w) = rw_accepted w"
  "rw_input (reset_session_lease w) = rw_input w" "rw_delivered (reset_session_lease w) = rw_delivered w"
  by (simp_all add: reset_session_lease_def split: prod.split)

lemma cancel_input_simps [simp]:
  "rw_s (cancel_input w) = (rw_s w) \<lparr> rs_queue := queue_cancel (rs_queue (rw_s w)) \<rparr>"
  "rw_manager (cancel_input w) = rw_manager w" "rw_tasks (cancel_input w) = rw_tasks w" "rw_worker (cancel_input w) = rw_worker w"
  "rw_accepting (cancel_input w) = rw_accepting w" "rw_closing (cancel_input w) = rw_closing w"
  "rw_sent (cancel_input w) = rw_sent w" "rw_accepted (cancel_input w) = rw_accepted w"
  "rw_input (cancel_input w) = rw_input w" "rw_delivered (cancel_input w) = rw_delivered w"
  by (simp_all add: cancel_input_def)

lemma request_on_simps [simp]:
  "rw_s (request_on r c w) = rw_s w" "rw_tasks (request_on r c w) = rw_tasks w" "rw_worker (request_on r c w) = rw_worker w"
  "rw_accepting (request_on r c w) = rw_accepting w" "rw_closing (request_on r c w) = rw_closing w"
  "rw_sent (request_on r c w) = rw_sent w" "rw_accepted (request_on r c w) = rw_accepted w"
  "rw_input (request_on r c w) = rw_input w" "rw_delivered (request_on r c w) = rw_delivered w"
  by (simp_all add: request_on_def)

lemma request_session_cancel_simps [simp]:
  "rw_s (request_session_cancel r w) = rw_s w" "rw_tasks (request_session_cancel r w) = rw_tasks w"
  "rw_worker (request_session_cancel r w) = rw_worker w"
  "rw_accepting (request_session_cancel r w) = rw_accepting w" "rw_closing (request_session_cancel r w) = rw_closing w"
  "rw_sent (request_session_cancel r w) = rw_sent w" "rw_accepted (request_session_cancel r w) = rw_accepted w"
  "rw_input (request_session_cancel r w) = rw_input w" "rw_delivered (request_session_cancel r w) = rw_delivered w"
  by (simp_all add: request_session_cancel_def)

text \<open>What closing the session leaves.\<close>

lemma finish_session_open:
  assumes "\<not> rs_closed (rw_s w)"
  obtains l where "rw_s (finish_session w) = close_outbound ((stop_timers ((rw_s w) \<lparr> rs_closed := True \<rparr>))
      \<lparr> rs_queue := queue_cancel (rs_queue (rw_s w)), rs_lease := l \<rparr>)"
proof -
  have "\<exists>l. rw_s (finish_session w) = close_outbound ((stop_timers ((rw_s w) \<lparr> rs_closed := True \<rparr>))
      \<lparr> rs_queue := queue_cancel (rs_queue (rw_s w)), rs_lease := l \<rparr>)"
    using assms by (cases "rs_cancellation (rw_s w) = None \<and> gl_live (rs_lease (rw_s w))")
      (auto simp: finish_session_def Let_def stop_timers_def)
  then show thesis using that by blast
qed

lemma finish_session_simps [simp]:
    "rw_tasks (finish_session w) = rw_tasks w" "rw_worker (finish_session w) = rw_worker w"
    "rw_accepting (finish_session w) = rw_accepting w" "rw_closing (finish_session w) = rw_closing w"
    "rw_sent (finish_session w) = rw_sent w" "rw_accepted (finish_session w) = rw_accepted w"
    "rw_input (finish_session w) = rw_input w" "rw_delivered (finish_session w) = rw_delivered w"
  by (simp_all add: finish_session_def Let_def)

lemma finish_session_is_closed [simp]: "rs_closed (rw_s (finish_session w))"
  by (simp add: finish_session_def Let_def stop_timers_def close_outbound_def)

lemma finish_session_closed [simp]: "rs_closed (rw_s w) \<Longrightarrow> finish_session w = w"
  by (simp add: finish_session_def)

lemma finish_session_out: "out_step w (finish_session w)"
proof (cases "rs_closed (rw_s w)")
  case False
  obtain l where f: "rw_s (finish_session w) = close_outbound ((stop_timers ((rw_s w) \<lparr> rs_closed := True \<rparr>))
      \<lparr> rs_queue := queue_cancel (rs_queue (rw_s w)), rs_lease := l \<rparr>)"
    using finish_session_open [OF False] .
  have "out_inv (finish_session w)" if "out_inv w"
  proof -
    have "out_ok (rw_s (finish_session w))" unfolding f using that
      by (intro close_outbound_ok [of "rw_s w"]) (simp_all add: out_inv_def stop_timers_def)
    moreover have "rs_outbound (rw_s (finish_session w)) = []" unfolding f by (simp add: close_outbound_def)
    ultimately show ?thesis using that by (auto simp: out_inv_def fifo_ok_def)
  qed
  then show ?thesis by (simp add: out_step_def awake_def settled_def)
qed simp

lemma close_transport_out: "out_step w (close_transport w)"
proof (cases "rs_closed (rw_s w) \<or> rs_close_started (rw_s w)")
  case False
  let ?w = "upd (\<lambda>s. stop_timers (s \<lparr> rs_close_started := True \<rparr>)) w"
  have "out_step w ?w"
    by (auto simp: out_step_def out_inv_def fifo_ok_def awake_def settled_def stop_timers_def out_ok_def active_size_def in_flight_def)
  moreover have "out_step ?w (?w \<lparr> rw_closing := True \<rparr>)" by (intro out_same_step) (simp add: out_same_def)
  ultimately show ?thesis using False finish_session_out [of ?w] by (simp add: close_transport_def Let_def out_step_def)
qed (auto simp: close_transport_def)

lemma close_transport_settles:
  assumes "rs_outbound (rw_s w) = []"
  shows "settled (rw_s (close_transport w))"
proof (cases "rs_closed (rw_s w) \<or> rs_close_started (rw_s w)")
  case True
  then show ?thesis using assms by (auto simp: close_transport_def settled_def)
next
  case False
  let ?w = "upd (\<lambda>s. stop_timers (s \<lparr> rs_close_started := True \<rparr>)) w"
  show ?thesis
  proof (cases "rs_reading (rw_s ?w)")
    case True
    then show ?thesis using False by (simp add: close_transport_def Let_def settled_def)
  next
    case nr: False
    then show ?thesis using False assms by (simp add: close_transport_def Let_def settled_def stop_timers_def)
  qed
qed

lemma maybe_write_out:
  assumes "out_inv w"
  shows "out_inv (maybe_write w) \<and> settled (rw_s (maybe_write w))"
proof (cases "rs_closed (rw_s w) \<or> rs_writing (rw_s w)")
  case True
  then show ?thesis using assms by (auto simp: maybe_write_def settled_def Let_def)
next
  case False
  show ?thesis
  proof (cases "rs_outbound (rw_s w)")
    case Nil
    then show ?thesis using assms False close_transport_settles [OF Nil] close_transport_out [of w]
      by (auto simp: maybe_write_def Let_def settled_def out_step_def)
  next
    case (Cons m rest)
    then have "maybe_write w = (upd (\<lambda>s. s \<lparr> rs_writing := True, rs_active := Some (fst m), rs_outbound := rest \<rparr>) w)
                \<lparr> rw_sent := rw_sent w @ [m] \<rparr>"
      using False by (simp add: maybe_write_def Let_def)
    then show ?thesis using assms False Cons
      by (auto simp: out_inv_def out_ok_def fifo_ok_def settled_def active_size_def in_flight_def)
  qed
qed

lemma request_close_out: "out_step w (request_close_after_drain code w)"
  by (auto simp: request_close_after_drain_def out_step_def out_inv_def fifo_ok_def awake_def out_ok_def active_size_def in_flight_def)

subsection \<open>Handlers\<close>

lemma same_out: "out_view (rw_s v) = out_view (rw_s w) \<Longrightarrow> rw_sent v = rw_sent w \<Longrightarrow> rw_accepted v = rw_accepted w \<Longrightarrow>
    rs_close_after_drain (rw_s v) = rs_close_after_drain (rw_s w) \<Longrightarrow> rs_close_started (rw_s v) = rs_close_started (rw_s w) \<Longrightarrow>
    set (rw_tasks w) \<subseteq> set (rw_tasks v) \<Longrightarrow> out_step w v"
  by (rule out_same_step) (simp add: out_same_def)

lemma protocol_failure_out: "out_step w (protocol_failure x code message reason w)"
proof (cases "rs_closed (rw_s w)")
  case False
  define w1 where "w1 = cancel_input (request_session_cancel reason (upd (\<lambda>s. s \<lparr> rs_input_ended := True \<rparr>) w))"
  obtain b w2 where e: "enqueue_from_io (rx_wire x (realtime_error_json code message True)) Ob_mandatory w1 = (b, w2)" by force
  have "out_step w w1" by (intro same_out) (simp_all add: w1_def out_view_def)
  moreover have "out_step w1 w2" using enqueue_from_io_out [OF _ e] by (simp add: out_step_def)
  moreover have "out_step w2 (if b then request_close_after_drain Close_policy_error w2 else finish_session w2)"
    using request_close_out finish_session_out by simp
  ultimately show ?thesis using False e by (simp add: protocol_failure_def w1_def [symmetric] out_step_def)
qed (simp add: protocol_failure_def)

lemma read_next_out: "out_step w (read_next w)"
  by (auto simp: read_next_def Let_def out_view_def intro: same_out)

lemma touch_idle_out: "out_step w (touch_idle_timeout w)"
  by (auto simp: touch_idle_timeout_def Let_def out_view_def intro: same_out)

lemma push_pending_frame: "push_pending s = s \<lparr> rs_queue := rs_queue (push_pending s), rs_pending := rs_pending (push_pending s),
    rs_offset := rs_offset (push_pending s) \<rparr>"
proof (induction s rule: push_pending.induct)
  case (1 s)
  obtain n q where p: "push_some (rs_queue s) (drop (rs_offset s) (rs_pending s)) = (n, q)" by force
  show ?case
  proof (cases "rs_offset s < length (rs_pending s) \<and> n \<noteq> 0")
    case True
    then have e: "push_pending s = push_pending (s \<lparr> rs_queue := q, rs_offset := rs_offset s + n \<rparr>)"
      using p by (subst push_pending.simps) simp
    from "1.IH" [OF _ p [symmetric] refl] True show ?thesis unfolding e by simp
  next
    case False
    then have "push_pending s = s \<or> push_pending s = s \<lparr> rs_pending := [], rs_offset := 0 \<rparr>"
      using p by (subst (1 2) push_pending.simps) auto
    then show ?thesis by auto
  qed
qed

lemma push_pending_out: "out_step w (upd push_pending w)"
proof (rule same_out)
  show "out_view (rw_s (upd push_pending w)) = out_view (rw_s w)"
    "rs_close_after_drain (rw_s (upd push_pending w)) = rs_close_after_drain (rw_s w)"
    "rs_close_started (rw_s (upd push_pending w)) = rs_close_started (rw_s w)"
    unfolding upd_simps by (subst push_pending_frame, simp add: out_view_def)+
qed simp_all

lemma pump_out: "out_step w (pump_pending_audio w)"
  using push_pending_out [of w] read_next_out by (auto simp: pump_pending_audio_def Let_def out_step_def)

lemma start_worker_out: "out_step w (start_inference_worker x start w)"
proof -
  let ?lease = "rs_lease (rw_s w)"
  let ?w1 = "upd (\<lambda>s. s \<lparr> rs_lease := ?lease \<lparr> gl_live := False, gl_mode := Gpu_free, gl_cancellation := None \<rparr>,
                           rs_cancellation := gl_cancellation ?lease, rs_worker_started := True \<rparr>) w"
  let ?failed = "(upd (\<lambda>s. s \<lparr> rs_worker_started := False \<rparr>) ?w1) \<lparr> rw_manager := snd (lease_reset ?lease (rw_manager w)) \<rparr>"
  have "out_step w ?failed" "out_step w (?w1 \<lparr> rw_worker := Some ?lease \<rparr>)" by (intro same_out; simp add: out_view_def)+
  moreover have "start_inference_worker x start w = (case start of
          Start_ok \<Rightarrow> ?w1 \<lparr> rw_worker := Some ?lease \<rparr>
        | Start_slot_taken \<Rightarrow> protocol_failure x ''server_busy'' ''The transcription engine is currently busy.'' By_protocol ?failed
        | Start_throws \<Rightarrow> protocol_failure x ''internal_error'' ''The server could not start the inference worker.'' By_protocol ?failed)"
    by (cases start) (simp_all add: start_inference_worker_def Let_def)
  ultimately show ?thesis using out_step_trans [OF _ protocol_failure_out]
    by (simp split: worker_start.split)
qed

lemma enqueue_io_step: "enqueue_from_io p k w = (b, v) \<Longrightarrow> out_step w v"
  using enqueue_from_io_out [of w p k b v] by (simp add: out_step_def)

lemma handle_configuration_out: "out_step w (handle_configuration x start message w)"
proof (cases "parse_session_configure (rx_parse x) message")
  case (Inl e)
  then show ?thesis by (cases e) (simp add: handle_configuration_def protocol_failure_out)
next
  case (Inr conf)
  define w0 where "w0 = upd (\<lambda>s. s \<lparr> rs_configuration := conf, rs_configured := True, rs_config_timer := False \<rparr>) w"
  obtain b w2 where e: "enqueue_from_io (rx_wire x (session_created_json (rx_session_id x) (rx_model_name x))) Ob_mandatory
      (touch_idle_timeout w0) = (b, w2)" by force
  have "out_step w w0" by (intro same_out) (simp_all add: w0_def out_view_def)
  then have "out_step w w2" using touch_idle_out [of w0] enqueue_io_step [OF e] by (simp add: out_step_def)
  moreover have "handle_configuration x start message w = (if \<not> b then finish_session w2
            else if rs_closed (rw_s (start_inference_worker x start w2)) then start_inference_worker x start w2
            else read_next (start_inference_worker x start w2))"
    using Inr e by (simp add: handle_configuration_def Let_def w0_def)
  ultimately show ?thesis using finish_session_out [of w2] start_worker_out [of w2 x start] read_next_out
    by (auto simp: out_step_def)
qed

lemma handle_control_out: "out_step w (handle_control x message w)"
proof -
  have "out_step w (cancel_input (if rs_cancellation (rw_s w) \<noteq> None then request_on By_client (rs_cancellation (rw_s w)) u else u))"
    if "u = upd (\<lambda>s. s \<lparr> rs_input_ended := True \<rparr>) w" for u
    by (intro same_out) (simp_all add: that out_view_def)
  moreover have "out_step w (upd (\<lambda>s. s \<lparr> rs_input_ended := True, rs_idle_timer := False, rs_queue := queue_finish (rs_queue s) \<rparr>) w)"
    by (intro same_out) (simp_all add: out_view_def)
  moreover have "out_step w (let (queued, w1) = enqueue_from_io p Ob_mandatory w in if queued then read_next w1 else finish_session w1)" for p
  proof -
    obtain b v where "enqueue_from_io p Ob_mandatory w = (b, v)" by force
    then show ?thesis using enqueue_io_step [of p Ob_mandatory w b v] read_next_out [of v] finish_session_out [of v] by (simp add: out_step_def)
  qed
  ultimately show ?thesis using protocol_failure_out
    by (auto simp: handle_control_def Let_def split: sum.split client_message.split)
qed

lemma handle_binary_out: "out_step w (handle_binary x bytes w)"
proof -
  let ?w = "\<lambda>samples. (upd (\<lambda>s. s \<lparr> rs_pending := samples, rs_offset := 0,
                              rs_received := u64 (rs_received s + int (length samples)) \<rparr>) w)
                 \<lparr> rw_input := rw_input w @ samples \<rparr>"
  have "out_step w (?w samples)" for samples by (intro same_out) (simp_all add: out_view_def)
  then have "out_step w (pump_pending_audio (?w samples))" for samples using pump_out [of "?w samples"] by (simp add: out_step_def)
  from this [of "List.map (frame_sample bytes) [0..<length bytes div 2]"] show ?thesis
    using protocol_failure_out read_next_out by (simp add: handle_binary_def Let_def)
qed

lemma disconnected_out: "out_step w (disconnected w)"
  by (intro same_out) (simp_all add: disconnected_def out_view_def)

lemma on_read_out: "out_step w (on_read x start event w)"
proof -
  let ?w = "upd (\<lambda>s. s \<lparr> rs_reading := False \<rparr>) w"
  have r: "out_step w ?w" by (intro same_out) (simp_all add: out_view_def)
  then have t: "out_step w (touch_idle_timeout ?w)" using touch_idle_out [of ?w] by (simp add: out_step_def)
  have "out_step w (finish_session (disconnected ?w))" "out_step w (finish_session ?w)"
    using r disconnected_out [of ?w] finish_session_out [of "disconnected ?w"] finish_session_out [of ?w] by (simp_all add: out_step_def)
  moreover have "out_step w (protocol_failure x c m r ?w)" for c m r
    using r out_step_trans protocol_failure_out by blast
  moreover have "out_step w (protocol_failure x c m r (touch_idle_timeout ?w))" for c m r
    using t out_step_trans protocol_failure_out by blast
  moreover have "out_step w (handle_configuration x start m (touch_idle_timeout ?w))" for m
    using t out_step_trans handle_configuration_out by blast
  moreover have "out_step w (handle_control x m (touch_idle_timeout ?w))" for m
    using t out_step_trans handle_control_out by blast
  moreover have "out_step w (handle_binary x bytes (touch_idle_timeout ?w))" for bytes
    using t out_step_trans handle_binary_out by blast
  ultimately show ?thesis by (simp add: on_read_def Let_def split: read_event.split)
qed

lemma on_accept_out: "out_step w (on_accept failed w)"
proof -
  let ?w = "w \<lparr> rw_accepting := False \<rparr>"
  have "out_step w ?w" "out_step w (upd (\<lambda>s. s \<lparr> rs_config_timer := True \<rparr>) ?w)"
    by (intro same_out; simp add: out_view_def)+
  then show ?thesis using finish_session_out [of ?w] read_next_out [of "upd (\<lambda>s. s \<lparr> rs_config_timer := True \<rparr>) ?w"]
    by (simp add: on_accept_def Let_def out_step_def)
qed

lemma timeouts_out: "out_step w (config_timeout x w)" "out_step w (idle_timeout x w)"
proof -
  have "out_step w (upd (\<lambda>s. s \<lparr> rs_config_timer := False \<rparr>) w)" "out_step w (upd (\<lambda>s. s \<lparr> rs_idle_timer := False \<rparr>) w)"
    by (intro same_out; simp add: out_view_def)+
  then show "out_step w (config_timeout x w)" "out_step w (idle_timeout x w)"
    using out_step_trans protocol_failure_out by (auto simp: config_timeout_def idle_timeout_def Let_def)
qed

lemma initiate_shutdown_out: "out_step w (initiate_shutdown x w)"
proof -
  let ?w = "cancel_input (request_session_cancel By_shutdown w)"
  obtain b v where e: "enqueue_from_io (rx_wire x (realtime_error_json ''shutting_down'' ''The server is shutting down.'' True)) Ob_mandatory ?w = (b, v)"
    by force
  have "out_step w ?w" by (intro same_out) (simp_all add: out_view_def)
  then show ?thesis using enqueue_io_step [OF e] request_close_out [of v] e
    by (simp add: initiate_shutdown_def Let_def out_step_def)
qed

text \<open>A completed write goes on with the next message, so nothing is left to wake.\<close>

lemma on_write_out:
  assumes "out_inv w" "rs_writing (rw_s w)"
  shows "out_inv (on_write failed w) \<and> awake (on_write failed w)"
proof -
  obtain payload where a: "rs_active (rw_s w) = Some payload" using assms by (auto simp: out_inv_def out_ok_def)
  let ?w = "upd (\<lambda>s. s \<lparr> rs_bytes := u64 (rs_bytes s - payload_size payload), rs_active := None, rs_writing := False \<rparr>) w"
  have b: "rs_bytes (rw_s w) - payload_size payload = total_size (rs_outbound (rw_s w))" "rs_bytes (rw_s w) \<le> max_outbound_bytes"
    using assms(1) a by (simp_all add: out_inv_def out_ok_def active_size_def)
  then have t: "total_size (rs_outbound (rw_s w)) \<le> max_outbound_bytes" using payload_size_nonneg [of payload] by linarith
  then have "u64 (total_size (rs_outbound (rw_s w))) = total_size (rs_outbound (rw_s w))"
    by (intro u64_id) (simp_all add: max_outbound_numbers)
  then have eq: "?w = upd (\<lambda>s. s \<lparr> rs_bytes := total_size (rs_outbound (rw_s w)), rs_active := None, rs_writing := False \<rparr>) w"
    by (simp add: upd_def b(1))
  have w: "out_inv ?w" using assms t unfolding eq
    by (auto simp: out_inv_def fifo_ok_def out_ok_def active_size_def in_flight_def)
  have e: "on_write failed w = (if failed then finish_session (disconnected ?w) else maybe_write ?w)"
    using a by (simp add: on_write_def Let_def upd_def)
  have "out_inv (finish_session (disconnected ?w))"
    using w disconnected_out [of ?w] finish_session_out [of "disconnected ?w"] by (simp add: out_step_def)
  then show ?thesis using maybe_write_out [OF w] unfolding e by (auto simp: awake_def settled_def)
qed

lemma run_task_out:
  assumes "out_inv w" "awake w" "rw_tasks w = t # ts"
  shows "out_inv (run_task t (w \<lparr> rw_tasks := ts \<rparr>)) \<and> awake (run_task t (w \<lparr> rw_tasks := ts \<rparr>))"
proof -
  let ?w = "w \<lparr> rw_tasks := ts \<rparr>"
  have i: "out_inv ?w" using assms(1) by (simp add: out_inv_def fifo_ok_def)
  show ?thesis
  proof (cases t)
    case Task_write
    then show ?thesis using maybe_write_out [OF i] by (simp add: run_task_def awake_def)
  next
    case Task_pump
    then have "awake ?w" using assms(2,3) by (simp add: awake_def)
    then show ?thesis using i pump_out [of ?w] Task_pump by (simp add: run_task_def out_step_def)
  qed
qed

lemma worker_pop_cases:
  assumes "worker_pop w = Some (r, v)"
  obtains (cancelled) p q where "queue_pop (rs_queue (rw_s w)) = Some (p, q)" "cancel_requested (session_cancel_reason w)"
      "r = Pop_cancel" "v = upd (\<lambda>s. s \<lparr> rs_queue := q \<rparr>) w"
  | (audio) samples q where "queue_pop (rs_queue (rw_s w)) = Some (Pop_audio samples, q)" "\<not> cancel_requested (session_cancel_reason w)"
      "r = Pop_audio samples"
      "v = post Task_pump ((upd (\<lambda>s. s \<lparr> rs_queue := q \<rparr>) w) \<lparr> rw_delivered := rw_delivered w @ samples \<rparr>)"
  | (other) q where "queue_pop (rs_queue (rw_s w)) = Some (r, q)" "\<not> cancel_requested (session_cancel_reason w)"
      "\<forall>xs. r \<noteq> Pop_audio xs" "v = upd (\<lambda>s. s \<lparr> rs_queue := q \<rparr>) w"
proof -
  obtain p q where pq: "queue_pop (rs_queue (rw_s w)) = Some (p, q)" using assms by (auto simp: worker_pop_def)
  have c: "session_cancel_reason (upd (\<lambda>s. s \<lparr> rs_queue := q \<rparr>) w) = session_cancel_reason w"
    by (simp add: session_cancel_reason_def split: option.split)
  show thesis
  proof (cases "cancel_requested (session_cancel_reason w)")
    case True
    then have "r = Pop_cancel" "v = upd (\<lambda>s. s \<lparr> rs_queue := q \<rparr>) w"
      using assms by (cases p; simp add: worker_pop_def pq Let_def c)+
    then show thesis using cancelled [OF pq True] by blast
  next
    case False
    show thesis
    proof (cases p)
      case (Pop_audio samples)
      have "Some (r, v) = Some (Pop_audio samples,
          post Task_pump ((upd (\<lambda>s. s \<lparr> rs_queue := q \<rparr>) w) \<lparr> rw_delivered := rw_delivered w @ samples \<rparr>))"
        unfolding assms [symmetric] worker_pop_def pq Pop_audio using False by (simp add: Let_def c notify_input_space_def)
      then show thesis using audio [of samples q] pq False Pop_audio by blast
    next
      case Pop_finish
      have "Some (r, v) = Some (Pop_finish, upd (\<lambda>s. s \<lparr> rs_queue := q \<rparr>) w)"
        unfolding assms [symmetric] worker_pop_def pq Pop_finish using False by (simp add: Let_def c)
      then show thesis using other [of q] pq False Pop_finish by blast
    next
      case Pop_cancel
      have "Some (r, v) = Some (Pop_cancel, upd (\<lambda>s. s \<lparr> rs_queue := q \<rparr>) w)"
        unfolding assms [symmetric] worker_pop_def pq Pop_cancel using False by (simp add: Let_def c)
      then show thesis using other [of q] pq False Pop_cancel by blast
    qed
  qed
qed

lemma worker_pop_out:
  assumes "worker_pop w = Some (r, v)"
  shows "out_step w v"
  using assms by (cases rule: worker_pop_cases) (auto intro!: same_out simp: out_view_def)

lemma realtime_step_out:
  assumes "realtime_step x w v" "out_inv w" "awake w"
  shows "out_inv v \<and> awake v"
  using assms
proof (cases rule: realtime_step.cases)
  case (close_done)
  have "out_step w (w \<lparr> rw_closing := False \<rparr>)" by (intro same_out) simp_all
  then show ?thesis using assms(2,3) close_done finish_session_out [of "w \<lparr> rw_closing := False \<rparr>"] by (simp add: out_step_def)
next
  case shutdown
  have "out_step w (w \<lparr> rw_manager := begin_shutdown (rw_manager w) \<rparr>)" by (intro same_out) simp_all
  then show ?thesis using assms(2,3) shutdown initiate_shutdown_out [of "w \<lparr> rw_manager := begin_shutdown (rw_manager w) \<rparr>" x]
    by (simp add: out_step_def)
next
  case (worker_end l)
  have "out_step w v" unfolding worker_end(1) by (intro same_out) (simp_all add: worker_end_def split: option.split)
  then show ?thesis using assms(2,3) by (simp add: out_step_def)
next
  case worker_cancel
  have "out_step w v" unfolding worker_cancel(1) by (intro same_out) simp_all
  then show ?thesis using assms(2,3) by (simp add: out_step_def)
next
  case (elsewhere m)
  have "out_step w v" unfolding elsewhere(1) by (intro same_out) simp_all
  then show ?thesis using assms(2,3) by (simp add: out_step_def)
next
  case (written failed)
  then show ?thesis using on_write_out [of w failed] assms(2) by simp
next
  case (task t ts)
  then show ?thesis using run_task_out [of w t ts] assms(2,3) by simp
next
  case (send l p k b)
  then show ?thesis using enqueue_from_worker_out [OF assms(2)] assms(3) by simp
next
  case (pop l r)
  then show ?thesis using worker_pop_out [of w r v] assms(2,3) by (simp add: out_step_def)
qed (use on_accept_out [of w] on_read_out [of w x] timeouts_out [of w x] request_close_out [of w] in \<open>auto simp: out_step_def\<close>)

lemma realtime_reach_out: "realtime_reach x buffer_ms w \<Longrightarrow> out_inv w \<and> awake w"
proof (induction rule: realtime_reach.induct)
  case (start lease i m)
  then show ?case
    by (simp add: new_world_def new_session_def out_inv_def out_ok_def fifo_ok_def awake_def settled_def active_size_def
        in_flight_def max_outbound_numbers)
next
  case (step w v)
  then show ?case using realtime_step_out by blast
qed

text \<open>C34: In every reachable state of a session the outbound byte counter is exactly the size of the waiting messages
and the one being written, at most 4 MiB in at most 256 messages (so the unsigned arithmetic never wraps); and the
token and mandatory messages that were accepted are, in their order, those handed to the socket followed by those
still waiting, as long as the session is open.\<close>

theorem realtime_outbound_exact:
  assumes "realtime_reach x buffer_ms w"
  shows "rs_bytes (rw_s w) = total_size (rs_outbound (rw_s w)) + active_size (rw_s w) \<and>
    rs_bytes (rw_s w) \<le> 4 * 1024 * 1024 \<and> in_flight (rw_s w) \<le> 256 \<and>
    (\<exists>dropped. kept (rw_accepted w) = kept (rw_sent w) @ kept (rs_outbound (rw_s w)) @ dropped \<and>
      (\<not> rs_closed (rw_s w) \<longrightarrow> dropped = []))"
proof -
  have "out_ok (rw_s w)" "fifo_ok w" using realtime_reach_out [OF assms] by (simp_all add: out_inv_def)
  then show ?thesis by (simp add: out_ok_def fifo_ok_def max_outbound_numbers)
qed

text \<open>A client that sends audio before its configuration: the error waits for the socket.\<close>

definition sample_lease :: gpu_lease where
  "sample_lease = \<lparr> gl_live = True, gl_mode = Gpu_realtime, gl_cancellation = Some 0 \<rparr>"

definition sample_manager :: lease_manager where
  "sample_manager = \<lparr> lm_mode = Gpu_realtime, lm_active = Some 0, lm_cells = [No_reason] \<rparr>"

definition sample_realtime :: realtime_settings where
  "sample_realtime = \<lparr> rx_parse = (\<lambda>_. None), rx_wire = (\<lambda>j. case j of Json_object ms \<Rightarrow> concat (List.map fst ms) | _ \<Rightarrow> []),
     rx_session_id = ''st_1'', rx_model_name = ''voxtral-mini'' \<rparr>"

lemma sample_world_reach: "realtime_reach x 1 (new_world sample_lease sample_manager 1)"
  by (rule realtime_reach.start) (simp_all add: sample_lease_def sample_manager_def)

lemma sample_accepted_reach: "realtime_reach x 1 (on_accept False (new_world sample_lease sample_manager 1))"
  by (rule realtime_reach.step [OF sample_world_reach], rule realtime_step.accepted) (simp add: new_world_def)

lemma realtime_outbound_exact_witness:
  "\<exists>w. realtime_reach sample_realtime 1 w \<and> rs_outbound (rw_s w) = [(''typecodemessagefatal'', Ob_mandatory)] \<and>
     rs_bytes (rw_s w) = 20 \<and> in_flight (rw_s w) \<le> 256"
proof -
  let ?a = "on_accept False (new_world sample_lease sample_manager 1)"
  define w where "w = on_read sample_realtime Start_ok (Read_binary [1, 2]) ?a"
  have r: "realtime_reach sample_realtime 1 w" unfolding w_def
    by (rule realtime_reach.step [OF sample_accepted_reach], rule realtime_step.read)
      (simp add: new_world_def on_accept_def read_next_def Let_def new_session_def)
  have o: "rs_outbound (rw_s w) = [(''typecodemessagefatal'', Ob_mandatory)]" "rs_active (rw_s w) = None" unfolding w_def by code_simp+
  from realtime_outbound_exact [OF r] r o show ?thesis
    by (intro exI [of _ w]) (simp add: active_size_def payload_size_def)
qed

section \<open>Coalescing\<close>

fun send_all :: "outbound_message list \<Rightarrow> realtime_world \<Rightarrow> realtime_world option" where
  "send_all [] w = Some w"
| "send_all ((p, k) # ms) w =
    (case enqueue_from_worker p k w of Some (True, w1) \<Rightarrow> send_all ms w1 | _ \<Rightarrow> None)"

definition queued :: "outbound_message \<Rightarrow> realtime_world \<Rightarrow> realtime_world" where
  "queued m w = post Task_write (append_outbound m w)"

lemma queued_simps [simp]:
  "rs_outbound (rw_s (queued m w)) = rs_outbound (rw_s w) @ [m]" "rs_writing (rw_s (queued m w)) = rs_writing (rw_s w)"
  "rs_bytes (rw_s (queued m w)) = u64 (rs_bytes (rw_s w) + payload_size (fst m))"
  "rs_outbound_closed (rw_s (queued m w)) = rs_outbound_closed (rw_s w)"
  "session_cancel_reason (queued m w) = session_cancel_reason w"
  by (simp_all add: queued_def append_outbound_def session_cancel_reason_def split: option.split)

lemma enqueue_queues:
  assumes "\<not> rs_outbound_closed (rw_s w)" "session_cancel_reason w \<noteq> By_disconnect"
    "k = Ob_partial \<Longrightarrow> last_partial (rs_outbound (rw_s w)) = None"
    "rs_bytes (rw_s w) + payload_size p \<le> max_outbound_bytes" "0 \<le> rs_bytes (rw_s w)"
    "length (rs_outbound (rw_s w)) < 255"
  shows "enqueue_from_worker p k w = Some (True, queued (p, k) w)"
proof -
  have "coalesce_partial (p, k) (rw_s w) = None" using assms(3) by (simp add: coalesce_partial_def)
  moreover have "has_queue_capacity (payload_size p) (rw_s w)"
    using assms(4-6) by (simp add: has_queue_capacity_def max_outbound_numbers)
  ultimately show ?thesis using assms(1,2) by (simp add: enqueue_from_worker_def queued_def)
qed

text \<open>C35: When token events are enabled and the socket is behind, a newer partial takes the place of an older one in
the queue and so overtakes the tokens between them: what the client then receives does not have increasing sequence
numbers.\<close>

theorem coalesced_partial_overtakes_token:
  assumes "rs_outbound (rw_s w) = []" "rs_bytes (rw_s w) = 0" "\<not> rs_outbound_closed (rw_s w)"
    "session_cancel_reason w \<noteq> By_disconnect"
    and size: "payload_size (wire (token_event_json e1)) + payload_size (wire (partial_event_json e2)) +
      payload_size (wire (token_event_json e3)) + payload_size (wire (partial_event_json e4)) \<le> max_outbound_bytes"
    and order: "pe_sequence e1 < pe_sequence e2" "pe_sequence e2 < pe_sequence e3" "pe_sequence e3 < pe_sequence e4"
  shows "\<exists>w'. send_all [(wire (token_event_json e1), Ob_token), (wire (partial_event_json e2), Ob_partial),
        (wire (token_event_json e3), Ob_token), (wire (partial_event_json e4), Ob_partial)] w = Some w' \<and>
    (\<exists>js. List.map fst (rs_outbound (rw_s w')) = List.map wire js \<and>
      \<not> sorted_wrt (<) (List.map (the \<circ> message_sequence) js))"
proof -
  let ?t1 = "wire (token_event_json e1)" and ?p2 = "wire (partial_event_json e2)"
    and ?t3 = "wire (token_event_json e3)" and ?p4 = "wire (partial_event_json e4)"
  have b: "payload_size ?t1 \<le> max_outbound_bytes" "payload_size ?t1 + payload_size ?p2 \<le> max_outbound_bytes"
      "payload_size ?t1 + payload_size ?p2 + payload_size ?t3 \<le> max_outbound_bytes"
      "payload_size ?t1 + payload_size ?t3 + payload_size ?p4 \<le> max_outbound_bytes"
      "payload_size ?t1 + payload_size ?t3 \<le> max_outbound_bytes"
    using size payload_size_nonneg [of ?t1] payload_size_nonneg [of ?p2] payload_size_nonneg [of ?t3] payload_size_nonneg [of ?p4]
    by linarith+
  have u: "u64 v = v" if "0 \<le> v" "v \<le> max_outbound_bytes" for v using that by (intro u64_id) (simp_all add: max_outbound_numbers)
  let ?w1 = "queued (?t1, Ob_token) w"
  let ?w2 = "queued (?p2, Ob_partial) ?w1"
  let ?w3 = "queued (?t3, Ob_token) ?w2"
  have b1: "rs_bytes (rw_s ?w1) = payload_size ?t1" using assms(2) b u by simp
  have b2: "rs_bytes (rw_s ?w2) = payload_size ?t1 + payload_size ?p2" using b1 b u by simp
  have b3: "rs_bytes (rw_s ?w3) = payload_size ?t1 + payload_size ?p2 + payload_size ?t3" using b2 b u by simp
  have e1: "enqueue_from_worker ?t1 Ob_token w = Some (True, ?w1)" using assms(1-4) b by (intro enqueue_queues) simp_all
  have e2: "enqueue_from_worker ?p2 Ob_partial ?w1 = Some (True, ?w2)"
    using assms(1,3,4) b b1 by (intro enqueue_queues) (simp_all del: queued_simps(3))
  have e3: "enqueue_from_worker ?t3 Ob_token ?w2 = Some (True, ?w3)"
    using assms(1,3,4) b b2 by (intro enqueue_queues) (simp_all del: queued_simps(3))
  have o3: "rs_outbound (rw_s ?w3) = [(?t1, Ob_token), (?p2, Ob_partial), (?t3, Ob_token)]" using assms(1) by simp
  have r: "rs_bytes (rw_s ?w3) - payload_size ?p2 = payload_size ?t1 + payload_size ?t3" using b3 by simp
  have "0 \<le> payload_size ?t1 + payload_size ?t3" by (rule add_nonneg_nonneg) simp_all
  then have "u64 (payload_size ?t1 + payload_size ?t3) = payload_size ?t1 + payload_size ?t3"
    "u64 (max_outbound_bytes - (payload_size ?t1 + payload_size ?t3)) = max_outbound_bytes - (payload_size ?t1 + payload_size ?t3)"
    using b by (intro u; linarith)+
  then obtain s4 where c: "coalesce_partial (?p4, Ob_partial) (rw_s ?w3) = Some s4"
      "rs_outbound s4 = [(?t1, Ob_token), (?p4, Ob_partial), (?t3, Ob_token)]"
    using b by (simp add: coalesce_partial_def o3 r Let_def del: queued_simps)
  have e4: "enqueue_from_worker ?p4 Ob_partial ?w3 = Some (True, post Task_write (upd (\<lambda>_. s4) ?w3))"
    using assms(3,4) c(1) by (simp add: enqueue_from_worker_def)
  let ?js = "[token_event_json e1, partial_event_json e4, token_event_json e3]"
  have "List.map fst (rs_outbound (rw_s (post Task_write (upd (\<lambda>_. s4) ?w3)))) = List.map wire ?js" using c(2) by simp
  moreover have "\<not> sorted_wrt (<) (List.map (the \<circ> message_sequence) ?js)" using order by simp
  moreover have "send_all [(?t1, Ob_token), (?p2, Ob_partial), (?t3, Ob_token), (?p4, Ob_partial)] w =
      Some (post Task_write (upd (\<lambda>_. s4) ?w3))"
    using e1 e2 e3 e4 by (simp del: queued_simps)
  ultimately show ?thesis by blast
qed

text \<open>Four events while the first write of a session is pending.\<close>

definition sample_event :: "int \<Rightarrow> public_event" where
  "sample_event n = \<lparr> pe_type = 0, pe_sequence = n, pe_token_id = n, pe_flags = 0, pe_audio_start_ms = 0, pe_audio_end_ms = 0,
     pe_status = PS_ok, pe_text_length = 1, pe_text = ''a'' \<rparr>"

lemma coalesced_partial_overtakes_token_witness:
  "\<exists>w'. send_all [(''t1'', Ob_token), (''p2'', Ob_partial), (''t3'', Ob_token), (''p4'', Ob_partial)]
      (new_world sample_lease sample_manager 1) = Some w' \<and> List.map fst (rs_outbound (rw_s w')) = [''t1'', ''p4'', ''t3'']"
proof -
  let ?wire = "\<lambda>j. if j = token_event_json (sample_event 1) then ''t1'' else if j = partial_event_json (sample_event 2) then ''p2''
      else if j = token_event_json (sample_event 3) then ''t3'' else ''p4''"
  have "token_event_json (sample_event 3) \<noteq> token_event_json (sample_event 1)"
      "partial_event_json (sample_event 2) \<noteq> token_event_json e" "partial_event_json (sample_event 4) \<noteq> token_event_json e"
      "partial_event_json (sample_event 4) \<noteq> partial_event_json (sample_event 2)"
      "token_event_json (sample_event 3) \<noteq> partial_event_json e" for e
    by (simp_all add: token_event_json_def partial_event_json_def sample_event_def)
  note d = this
  have w: "?wire (token_event_json (sample_event 1)) = ''t1''" "?wire (partial_event_json (sample_event 2)) = ''p2''"
    "?wire (token_event_json (sample_event 3)) = ''t3''" "?wire (partial_event_json (sample_event 4)) = ''p4''"
    using d by simp_all
  from coalesced_partial_overtakes_token [of "new_world sample_lease sample_manager 1" ?wire "sample_event 1" "sample_event 2"
      "sample_event 3" "sample_event 4"]
  obtain w' where s: "send_all [(''t1'', Ob_token), (''p2'', Ob_partial), (''t3'', Ob_token), (''p4'', Ob_partial)]
      (new_world sample_lease sample_manager 1) = Some w'"
    unfolding w by (auto simp: new_world_def new_session_def session_cancel_reason_def payload_size_def max_outbound_numbers sample_event_def)
  have "map_option (\<lambda>w. List.map fst (rs_outbound (rw_s w))) (send_all [(''t1'', Ob_token), (''p2'', Ob_partial), (''t3'', Ob_token), (''p4'', Ob_partial)]
      (new_world sample_lease sample_manager 1)) = Some [''t1'', ''p4'', ''t3'']" by code_simp
  then show ?thesis using s by simp
qed

end
