(* ===== verification/RealtimeAudio.thy ===== *)
theory RealtimeAudio
  imports RealtimeCorrect
begin

text \<open>The audio path of a realtime session, from the client's frames through the pending frame and the PCM queue to
the inference worker, and what wakes whom: the worker receives the client's samples in order and all of them before
it is told of the end, and in an open session somebody is always on the way to move the audio, the messages and the
close forward.\<close>

section \<open>The invariant\<close>

abbreviation squeue :: "realtime_world \<Rightarrow> pcm_queue" where
  "squeue w \<equiv> rs_queue (rw_s w)"

definition stopped :: "realtime_world \<Rightarrow> bool" where
  "stopped w \<longleftrightarrow> pq_cancelled (squeue w) \<or> cancel_requested (session_cancel_reason w)"

definition undelivered :: "realtime_session \<Rightarrow> int list" where
  "undelivered s = queue_content (rs_queue s) @ drop (rs_offset s) (rs_pending s)"

definition audio_inv :: "nat \<Rightarrow> realtime_world \<Rightarrow> bool" where
  "audio_inv cap w \<longleftrightarrow>
    queue_within cap (squeue w) \<and> rs_offset (rw_s w) \<le> length (rs_pending (rw_s w)) \<and>
    (\<exists>rest. rw_input w = rw_delivered w @ rest) \<and>
    (\<not> stopped w \<longrightarrow> rw_input w = rw_delivered w @ undelivered (rw_s w)) \<and>
    (rs_reading (rw_s w) \<longrightarrow> rs_pending (rw_s w) = []) \<and>
    (pq_finishing (squeue w) \<longrightarrow> rs_pending (rw_s w) = [] \<and> \<not> rs_reading (rw_s w) \<and> rs_input_ended (rw_s w)) \<and>
    (rs_closed (rw_s w) \<longrightarrow> pq_cancelled (squeue w)) \<and>
    (\<not> rs_configured (rw_s w) \<longrightarrow> rs_cancellation (rw_s w) = None \<and> rw_worker w = None)"

text \<open>A frame that waits for the worker will be looked at again.\<close>

definition pumping :: "realtime_world \<Rightarrow> bool" where
  "pumping w \<longleftrightarrow> rs_pending (rw_s w) \<noteq> [] \<and> \<not> stopped w \<longrightarrow>
    queue_content (squeue w) \<noteq> [] \<or> Task_pump \<in> set (rw_tasks w)"

definition audio_step :: "nat \<Rightarrow> realtime_world \<Rightarrow> realtime_world \<Rightarrow> bool" where
  "audio_step cap w v \<longleftrightarrow> (audio_inv cap w \<longrightarrow> audio_inv cap v \<and> (pumping w \<longrightarrow> pumping v))"

lemma audio_step_trans: "audio_step cap w v \<Longrightarrow> audio_step cap v u \<Longrightarrow> audio_step cap w u"
  by (simp add: audio_step_def)

lemma audio_step_refl [simp]: "audio_step cap w w"
  by (simp add: audio_step_def)

definition audio_view where
  "audio_view s = (rs_queue s, rs_pending s, rs_offset s, rs_reading s, rs_input_ended s, rs_closed s, rs_configured s,
     rs_cancellation s)"

text \<open>The reason depends on the session's pointer and the cells only.\<close>

definition reason_at :: "nat option \<Rightarrow> cancel_reason list \<Rightarrow> cancel_reason" where
  "reason_at c cells = (case c of None \<Rightarrow> No_reason | Some i \<Rightarrow> cells ! i)"

lemma session_reason: "session_cancel_reason w = reason_at (rs_cancellation (rw_s w)) (lm_cells (rw_manager w))"
  by (simp add: session_cancel_reason_def reason_at_def)

text \<open>Steps that leave the audio alone; cancellation may have been requested.\<close>

lemma audio_same:
  assumes "audio_view (rw_s v) = audio_view (rw_s w)" "rw_worker v = rw_worker w" "rw_input v = rw_input w"
    "rw_delivered v = rw_delivered w" "set (rw_tasks w) \<subseteq> set (rw_tasks v)"
    "cancel_requested (session_cancel_reason w) \<longrightarrow> cancel_requested (session_cancel_reason v)"
  shows "audio_step cap w v"
  using assms by (auto simp: audio_step_def audio_inv_def pumping_def stopped_def audio_view_def undelivered_def)

lemma request_keeps:
  assumes "cancel_requested (lm_cells m ! j)"
  shows "cancel_requested (lm_cells (request_at r c m) ! j)"
proof (cases c)
  case (Some a)
  have k: "cancel_requested (request_cancel r (lm_cells m ! j))" using assms by (simp add: cancel_requested_def request_cancel_def)
  show ?thesis
  proof (cases "a = j \<and> j < length (lm_cells m)")
    case True
    then show ?thesis using Some k by (simp add: request_at_def)
  next
    case False
    then have "(lm_cells m) [a := y] ! j = lm_cells m ! j" for y by (cases "a = j") (simp_all add: list_update_beyond not_less)
    then show ?thesis using Some assms by (simp add: request_at_def)
  qed
qed (simp add: request_at_def assms)

lemma reason_keeps:
  assumes "rs_cancellation (rw_s v) = rs_cancellation (rw_s w)"
    "\<And>j. cancel_requested (lm_cells (rw_manager w) ! j) \<Longrightarrow> cancel_requested (lm_cells (rw_manager v) ! j)"
  shows "cancel_requested (session_cancel_reason w) \<longrightarrow> cancel_requested (session_cancel_reason v)"
  using assms by (auto simp: session_reason reason_at_def cancel_requested_def split: option.splits)

lemma reset_cells [simp]: "lm_cells (snd (lease_reset l m)) = lm_cells m"
  by (simp add: lease_reset_def manager_release_def)

lemma request_on_audio: "audio_step cap w (request_on r c w)"
  by (rule audio_same) (simp_all, rule reason_keeps, simp_all add: request_on_def request_keeps)

lemma request_session_audio: "audio_step cap w (request_session_cancel r w)"
  by (simp add: request_session_cancel_def request_on_audio)

lemma queue_cancel_simps [simp]:
  "pq_cancelled (queue_cancel q)" "pq_finishing (queue_cancel q) = pq_finishing q" "queue_content (queue_cancel q) = []"
  "queue_within cap q \<Longrightarrow> queue_within cap (queue_cancel q)"
  by (auto simp: queue_cancel_def queue_content_def queue_within_def queue_ok_def)

lemma stopped_cancel_input [simp]: "stopped (cancel_input w)"
  by (simp add: stopped_def)

lemma cancel_input_audio: "audio_step cap w (cancel_input w)"
  by (auto simp: audio_step_def audio_inv_def pumping_def)

lemma sends_audio:
  assumes "sends w v"
  shows "audio_step cap w v"
proof -
  note q = assms [unfolded sends_def queue_only_def]
  have s: "audio_view (rw_s v) = audio_view (rw_s w)" by (subst q [THEN conjunct1]) (simp add: audio_view_def)
  have t: "set (rw_tasks w) \<subseteq> set (rw_tasks v)" using q by auto
  have "session_cancel_reason v = session_cancel_reason w"
    using s sends_simps(1) [OF assms] by (simp add: session_reason audio_view_def)
  then show ?thesis using s t sends_simps [OF assms] by (intro audio_same) simp_all
qed

lemma enqueue_io_audio: "out_inv w \<Longrightarrow> enqueue_from_io p k w = (b, v) \<Longrightarrow> audio_step cap w v"
  using enqueue_from_io_out sends_audio by blast

lemma enqueue_worker_audio: "out_inv w \<Longrightarrow> enqueue_from_worker p k w = Some (b, v) \<Longrightarrow> audio_step cap w v"
  using enqueue_from_worker_out sends_audio by blast

lemma request_close_audio: "audio_step cap w (request_close_after_drain code w)"
  by (rule audio_same) (auto simp: request_close_after_drain_def audio_view_def session_reason)

lemma finish_session_audio: "audio_step cap w (finish_session w)"
proof (cases "rs_closed (rw_s w)")
  case False
  obtain l where f: "rw_s (finish_session w) = close_outbound ((stop_timers ((rw_s w) \<lparr> rs_closed := True \<rparr>))
      \<lparr> rs_queue := queue_cancel (rs_queue (rw_s w)), rs_lease := l \<rparr>)"
    using finish_session_open [OF False] .
  have "stopped (finish_session w)" unfolding stopped_def f by (simp add: close_outbound_def)
  then show ?thesis
    by (auto simp: audio_step_def audio_inv_def pumping_def f close_outbound_def stop_timers_def undelivered_def)
qed simp

lemma close_transport_audio: "audio_step cap w (close_transport w)"
proof (cases "rs_closed (rw_s w) \<or> rs_close_started (rw_s w)")
  case False
  let ?w = "upd (\<lambda>s. stop_timers (s \<lparr> rs_close_started := True \<rparr>)) w"
  have "audio_step cap w ?w" "audio_step cap ?w (?w \<lparr> rw_closing := True \<rparr>)"
    by (rule audio_same; simp add: audio_view_def stop_timers_def session_reason)+
  then show ?thesis using False finish_session_audio [of cap ?w] by (simp add: close_transport_def Let_def audio_step_def)
qed (auto simp: close_transport_def)

lemma maybe_write_audio: "audio_step cap w (maybe_write w)"
proof -
  have "audio_step cap w ((upd (\<lambda>s. s \<lparr> rs_writing := True, rs_active := a, rs_outbound := r \<rparr>) w) \<lparr> rw_sent := t \<rparr>)" for a r t
    by (rule audio_same) (simp_all add: audio_view_def session_reason)
  then show ?thesis using close_transport_audio by (simp add: maybe_write_def Let_def split: list.split)
qed

lemma protocol_failure_audio:
  assumes "out_inv w"
  shows "audio_step cap w (protocol_failure x code message reason w)"
proof (cases "rs_closed (rw_s w)")
  case False
  let ?w0 = "upd (\<lambda>s. s \<lparr> rs_input_ended := True \<rparr>) w"
  define w1 where "w1 = cancel_input (request_session_cancel reason ?w0)"
  obtain b w2 where e: "enqueue_from_io (rx_wire x (realtime_error_json code message True)) Ob_mandatory w1 = (b, w2)" by force
  have "out_step w w1" by (intro same_out) (simp_all add: w1_def out_view_def)
  then have o: "out_inv w1" using assms by (simp add: out_step_def)
  have s: "stopped ?w0 = stopped w" by (simp add: stopped_def session_reason)
  have "audio_step cap w ?w0"
    unfolding audio_step_def audio_inv_def pumping_def s by (simp add: undelivered_def)
  then have "audio_step cap w w1"
    unfolding w1_def by (rule audio_step_trans [OF audio_step_trans [OF _ request_session_audio] cancel_input_audio])
  then have "audio_step cap w w2" using enqueue_io_audio [OF o e] audio_step_trans by blast
  then have "audio_step cap w (if b then request_close_after_drain Close_policy_error w2 else finish_session w2)"
    using request_close_audio finish_session_audio audio_step_trans by auto
  then show ?thesis using False e by (simp add: protocol_failure_def w1_def [symmetric])
qed (simp add: protocol_failure_def)

lemma read_next_audio: "audio_step cap w (read_next w)"
proof (cases "rs_closed (rw_s w) \<or> rs_close_after_drain (rw_s w) \<or> rs_input_ended (rw_s w) \<or> rs_reading (rw_s w) \<or> rs_pending (rw_s w) \<noteq> []")
  case False
  then have r: "read_next w = upd (\<lambda>s. s \<lparr> rs_reading := True \<rparr>) w" by (simp add: read_next_def)
  have s: "stopped (upd (\<lambda>s. s \<lparr> rs_reading := True \<rparr>) w) = stopped w" by (simp add: stopped_def session_reason)
  show ?thesis unfolding r audio_step_def audio_inv_def pumping_def s using False by (simp add: undelivered_def)
qed (auto simp: read_next_def Let_def)

lemma touch_idle_audio: "audio_step cap w (touch_idle_timeout w)"
proof -
  have "audio_step cap w (upd (\<lambda>s. s \<lparr> rs_idle_timer := True \<rparr>) w)"
    by (rule audio_same) (simp_all add: audio_view_def session_reason)
  then show ?thesis by (simp add: touch_idle_timeout_def Let_def)
qed

section \<open>Pushing a frame into the queue\<close>

text \<open>The loop moves a prefix of the frame; it stops at the end or when the queue takes nothing.\<close>

lemma push_pending_moves:
  assumes "queue_within cap (rs_queue s)" "rs_offset s \<le> length (rs_pending s)"
  shows "queue_within cap (rs_queue (push_pending s)) \<and> rs_offset (push_pending s) \<le> length (rs_pending (push_pending s)) \<and>
    undelivered (push_pending s) = undelivered s \<and>
    pq_cancelled (rs_queue (push_pending s)) = pq_cancelled (rs_queue s) \<and>
    pq_finishing (rs_queue (push_pending s)) = pq_finishing (rs_queue s) \<and>
    (rs_pending s = [] \<longrightarrow> rs_pending (push_pending s) = []) \<and>
    (rs_pending (push_pending s) \<noteq> [] \<longrightarrow>
       pq_cancelled (rs_queue s) \<or> pq_finishing (rs_queue s) \<or> cap \<le> length (queue_content (rs_queue (push_pending s))))"
  using assms
proof (induction s rule: push_pending.induct)
  case (1 s)
  let ?rest = "drop (rs_offset s) (rs_pending s)"
  obtain n q where p: "push_some (rs_queue s) ?rest = (n, q)" by force
  have law: "queue_ok q" "n \<le> length ?rest" "queue_content q = queue_content (rs_queue s) @ take n ?rest"
      "pq_capacity q = pq_capacity (rs_queue s)" "pq_finishing q = pq_finishing (rs_queue s)" "pq_cancelled q = pq_cancelled (rs_queue s)"
    using push_some_law [OF _ p] "1.prems"(1) by (simp_all add: queue_within_def)
  consider (finished) "\<not> rs_offset s < length (rs_pending s)" | (refused) "rs_offset s < length (rs_pending s)" "n = 0"
    | (moved) "rs_offset s < length (rs_pending s)" "n \<noteq> 0" by blast
  then show ?case
  proof cases
    case finished
    then have "push_pending s = s \<lparr> rs_pending := [], rs_offset := 0 \<rparr>" by (subst push_pending.simps) simp
    then show ?thesis using "1.prems" finished by (simp add: undelivered_def)
  next
    case refused
    then have e: "push_pending s = s" using p by (subst push_pending.simps) simp
    have "pq_cancelled (rs_queue s) \<or> pq_finishing (rs_queue s) \<or> cap \<le> length (queue_content (rs_queue s))"
      using p refused "1.prems"(1) by (auto simp: push_some_def Let_def queue_within_def queue_ok_def queue_content_def split: if_splits)
    then show ?thesis using "1.prems" unfolding e by simp
  next
    case moved
    let ?s = "s \<lparr> rs_queue := q, rs_offset := rs_offset s + n \<rparr>"
    have e: "push_pending s = push_pending ?s" using moved p by (subst push_pending.simps) simp
    have "queue_within cap (rs_queue ?s)" using law "1.prems"(1) by (simp add: queue_within_def)
    moreover have "rs_offset ?s \<le> length (rs_pending ?s)" using law(2) moved(1) by simp
    moreover have "undelivered ?s = undelivered s"
      using law(3) by (simp add: undelivered_def) (metis add.commute append_take_drop_id drop_drop)
    ultimately show ?thesis using "1.IH" [OF moved(1) p [symmetric] refl moved(2)] law(5,6) unfolding e by simp
  qed
qed

lemma push_pending_audio:
  assumes "0 < cap" "audio_inv cap w"
  shows "audio_inv cap (upd push_pending w) \<and> pumping (upd push_pending w)"
proof -
  note m = push_pending_moves [of cap "rw_s w"]
  have f: "rs_reading (push_pending s) = rs_reading s" "rs_input_ended (push_pending s) = rs_input_ended s"
    "rs_closed (push_pending s) = rs_closed s" "rs_configured (push_pending s) = rs_configured s"
    "rs_cancellation (push_pending s) = rs_cancellation s" for s
    by (subst push_pending_frame, simp)+
  have s: "stopped (upd push_pending w) = stopped w"
    using m assms(2) by (simp add: stopped_def session_reason f audio_inv_def)
  have q: "queue_within cap (rs_queue (rw_s w))" "rs_offset (rw_s w) \<le> length (rs_pending (rw_s w))" using assms(2) by (simp_all add: audio_inv_def)
  note m = m [OF q]
  have i: "audio_inv cap (upd push_pending w)"
    using assms(2) m unfolding audio_inv_def s by (auto simp: f)
  moreover have "pumping (upd push_pending w)"
    using m assms unfolding pumping_def s by (auto simp: audio_inv_def stopped_def)
  ultimately show ?thesis ..
qed

lemma pump_audio:
  assumes "0 < cap" "audio_inv cap w"
  shows "audio_inv cap (pump_pending_audio w) \<and> pumping (pump_pending_audio w)"
proof (cases "rs_closed (rw_s w) \<or> rs_pending (rw_s w) = []")
  case True
  then have "pumping w" using assms(2) by (auto simp: pumping_def audio_inv_def stopped_def)
  then show ?thesis using True read_next_audio [of cap w] assms(2) by (auto simp: pump_pending_audio_def audio_step_def)
next
  case False
  then show ?thesis using push_pending_audio [OF assms] read_next_audio [of cap "upd push_pending w"]
    by (simp add: pump_pending_audio_def Let_def audio_step_def)
qed

section \<open>Handlers\<close>

definition session_inv :: "nat \<Rightarrow> realtime_world \<Rightarrow> bool" where
  "session_inv cap w \<longleftrightarrow> out_inv w \<and> audio_inv cap w \<and> pumping w"

lemma session_step:
  "session_inv cap w \<Longrightarrow> out_step w v \<Longrightarrow> audio_step cap w v \<Longrightarrow> session_inv cap v"
  by (simp add: session_inv_def out_step_def audio_step_def)

lemma session_out: "session_inv cap w \<Longrightarrow> out_inv w"
  by (simp add: session_inv_def)

lemma protocol_failure_session: "session_inv cap w \<Longrightarrow> session_inv cap (protocol_failure x c m r w)"
  using session_step [OF _ protocol_failure_out protocol_failure_audio] session_out by blast

lemma finish_session_session: "session_inv cap w \<Longrightarrow> session_inv cap (finish_session w)"
  using session_step [OF _ finish_session_out finish_session_audio] by blast

lemma read_next_session: "session_inv cap w \<Longrightarrow> session_inv cap (read_next w)"
  using session_step [OF _ read_next_out read_next_audio] by blast

lemma touch_idle_session: "session_inv cap w \<Longrightarrow> session_inv cap (touch_idle_timeout w)"
  using session_step [OF _ touch_idle_out touch_idle_audio] by blast

lemma request_close_session: "session_inv cap w \<Longrightarrow> session_inv cap (request_close_after_drain code w)"
  using session_step [OF _ request_close_out request_close_audio] by blast

lemma enqueue_io_session: "session_inv cap w \<Longrightarrow> enqueue_from_io p k w = (b, v) \<Longrightarrow> session_inv cap v"
  using session_step [OF _ enqueue_io_step enqueue_io_audio] session_out by blast

lemma disconnected_session: "session_inv cap w \<Longrightarrow> session_inv cap (disconnected w)"
proof -
  assume i: "session_inv cap w"
  let ?w = "if rs_cancellation (rw_s w) \<noteq> None then request_on By_disconnect (rs_cancellation (rw_s w)) w else w"
  have "audio_step cap w ?w" using request_on_audio by simp
  then have "audio_step cap w (disconnected w)"
    unfolding disconnected_def by (rule audio_step_trans [OF _ cancel_input_audio])
  then show ?thesis using session_step [OF i disconnected_out] by blast
qed

lemma pump_session: "0 < cap \<Longrightarrow> session_inv cap w \<Longrightarrow> session_inv cap (pump_pending_audio w)"
  using pump_audio [of cap w] pump_out [of w] by (simp add: session_inv_def out_step_def)

lemma same_session:
  assumes "session_inv cap w" "out_view (rw_s v) = out_view (rw_s w)" "rw_sent v = rw_sent w" "rw_accepted v = rw_accepted w"
    "rs_close_after_drain (rw_s v) = rs_close_after_drain (rw_s w)" "rs_close_started (rw_s v) = rs_close_started (rw_s w)"
    "audio_view (rw_s v) = audio_view (rw_s w)" "rw_worker v = rw_worker w" "rw_input v = rw_input w"
    "rw_delivered v = rw_delivered w" "rw_tasks v = rw_tasks w"
    "lm_cells (rw_manager v) = lm_cells (rw_manager w)"
  shows "session_inv cap v"
proof (rule session_step [OF assms(1)])
  show "out_step w v" using assms by (intro same_out) simp_all
  show "audio_step cap w v" using assms by (intro audio_same) (simp_all add: session_reason audio_view_def)
qed

text \<open>The worker's lease leaves the session while no cancellation was known to it.\<close>

lemma hand_over_session:
  assumes i: "session_inv cap w" and c: "rs_configured (rw_s w)" "rs_cancellation (rw_s w) = None"
    and v: "rw_s v = (rw_s w) \<lparr> rs_lease := l, rs_cancellation := c', rs_worker_started := b \<rparr>"
      "rw_input v = rw_input w" "rw_delivered v = rw_delivered w" "rw_tasks v = rw_tasks w" "rw_sent v = rw_sent w"
      "rw_accepted v = rw_accepted w"
  shows "session_inv cap v"
proof -
  have o: "out_step w v" using v by (intro same_out) (simp_all add: out_view_def)
  have "stopped w \<Longrightarrow> stopped v"
    using c(2) v(1) by (simp add: stopped_def session_reason reason_at_def cancel_requested_def)
  then have "audio_inv cap v \<and> pumping v"
    using i c v unfolding session_inv_def audio_inv_def pumping_def by (auto simp: undelivered_def)
  then show ?thesis using i o by (simp add: session_inv_def out_step_def)
qed

lemma start_worker_session:
  assumes i: "session_inv cap w" and c: "rs_configured (rw_s w)" "rs_cancellation (rw_s w) = None"
  shows "session_inv cap (start_inference_worker x start w)"
proof -
  let ?lease = "rs_lease (rw_s w)"
  let ?w1 = "upd (\<lambda>s. s \<lparr> rs_lease := ?lease \<lparr> gl_live := False, gl_mode := Gpu_free, gl_cancellation := None \<rparr>,
                           rs_cancellation := gl_cancellation ?lease, rs_worker_started := True \<rparr>) w"
  let ?failed = "(upd (\<lambda>s. s \<lparr> rs_worker_started := False \<rparr>) ?w1) \<lparr> rw_manager := snd (lease_reset ?lease (rw_manager ?w1)) \<rparr>"
  have a: "session_inv cap (?w1 \<lparr> rw_worker := Some ?lease \<rparr>)" by (rule hand_over_session [OF i c]) simp_all
  have f: "session_inv cap ?failed" by (rule hand_over_session [OF i c]) simp_all
  show ?thesis using a protocol_failure_session [OF f]
    by (cases start) (simp_all add: start_inference_worker_def Let_def)
qed

lemma sends_fields:
  assumes "sends w v"
  shows "rs_configured (rw_s v) = rs_configured (rw_s w)" "rs_cancellation (rw_s v) = rs_cancellation (rw_s w)"
  by (subst assms [unfolded sends_def queue_only_def, THEN conjunct1], simp)+

lemma handle_configuration_session:
  assumes i: "session_inv cap w" and c: "\<not> rs_configured (rw_s w)"
  shows "session_inv cap (handle_configuration x start message w)"
proof (cases "parse_session_configure (rx_parse x) message")
  case (Inl e)
  then show ?thesis by (cases e) (simp add: handle_configuration_def protocol_failure_session [OF i])
next
  case (Inr conf)
  define w0 where "w0 = upd (\<lambda>s. s \<lparr> rs_configuration := conf, rs_configured := True, rs_config_timer := False \<rparr>) w"
  have n: "rs_cancellation (rw_s w) = None" "rw_worker w = None" using i c by (simp_all add: session_inv_def audio_inv_def)
  have w0: "session_inv cap w0"
  proof -
    have o: "out_step w w0" by (intro same_out) (simp_all add: w0_def out_view_def)
    have s: "stopped w0 = stopped w" by (simp add: stopped_def session_reason w0_def)
    have "audio_inv cap w0 \<and> pumping w0"
      using i unfolding session_inv_def audio_inv_def pumping_def s by (auto simp: undelivered_def w0_def)
    then show ?thesis using i o by (simp add: session_inv_def out_step_def)
  qed
  define w1 where "w1 = touch_idle_timeout w0"
  have w1: "session_inv cap w1" "rs_configured (rw_s w1)" "rs_cancellation (rw_s w1) = None"
    using touch_idle_session [OF w0] n by (auto simp: w1_def w0_def touch_idle_timeout_def Let_def)
  obtain b w2 where e: "enqueue_from_io (rx_wire x (session_created_json (rx_session_id x) (rx_model_name x))) Ob_mandatory w1 = (b, w2)"
    by force
  have w2: "session_inv cap w2" using enqueue_io_session [OF w1(1) e] .
  have "sends w1 w2" using enqueue_from_io_out [OF session_out [OF w1(1)] e] by simp
  then have c2: "rs_configured (rw_s w2)" "rs_cancellation (rw_s w2) = None" using sends_fields w1 by simp_all
  have "handle_configuration x start message w = (if \<not> b then finish_session w2
            else if rs_closed (rw_s (start_inference_worker x start w2)) then start_inference_worker x start w2
            else read_next (start_inference_worker x start w2))"
    using Inr e by (simp add: handle_configuration_def Let_def w0_def w1_def)
  then show ?thesis using finish_session_session [OF w2] start_worker_session [OF w2 c2] read_next_session by simp
qed

lemma handle_control_session:
  assumes i: "session_inv cap w" and r: "rs_pending (rw_s w) = []" "\<not> rs_reading (rw_s w)"
  shows "session_inv cap (handle_control x message w)"
proof -
  have fin: "session_inv cap (upd (\<lambda>s. s \<lparr> rs_input_ended := True, rs_idle_timer := False, rs_queue := queue_finish (rs_queue s) \<rparr>) w)"
    (is "session_inv cap ?f")
  proof -
    have o: "out_step w ?f" by (intro same_out) (simp_all add: out_view_def)
    have s: "stopped ?f = stopped w" by (simp add: stopped_def session_reason queue_finish_def)
    have "audio_inv cap ?f \<and> pumping ?f"
      using i r unfolding session_inv_def audio_inv_def pumping_def s
      by (simp add: undelivered_def queue_finish_def queue_within_def queue_ok_def queue_content_def)
    then show ?thesis using i o by (simp add: session_inv_def out_step_def)
  qed
  have can: "session_inv cap (cancel_input (if rs_cancellation (rw_s u) \<noteq> None then request_on By_client (rs_cancellation (rw_s u)) u else u))"
    if u: "u = upd (\<lambda>s. s \<lparr> rs_input_ended := True \<rparr>) w" for u
  proof -
    have o: "out_step w u" by (intro same_out) (simp_all add: out_view_def u)
    have s: "stopped u = stopped w" by (simp add: stopped_def session_reason u)
    have "audio_inv cap u \<and> pumping u"
      using i r unfolding session_inv_def audio_inv_def pumping_def s by (simp add: undelivered_def u)
    then have "session_inv cap u" using i o by (simp add: session_inv_def out_step_def)
    from disconnected_session [OF this] show ?thesis
    proof -
      have a: "audio_step cap u (cancel_input (if rs_cancellation (rw_s u) \<noteq> None then request_on By_client (rs_cancellation (rw_s u)) u else u))"
        using audio_step_trans [OF request_on_audio cancel_input_audio] cancel_input_audio by simp
      have "out_step u (cancel_input (if rs_cancellation (rw_s u) \<noteq> None then request_on By_client (rs_cancellation (rw_s u)) u else u))"
        by (intro same_out) (simp_all add: out_view_def)
      then show ?thesis using session_step [OF \<open>session_inv cap u\<close> _ a] by blast
    qed
  qed
  have ping: "session_inv cap (let (queued, w1) = enqueue_from_io p Ob_mandatory w in if queued then read_next w1 else finish_session w1)" for p
  proof -
    obtain b v where e: "enqueue_from_io p Ob_mandatory w = (b, v)" by force
    show ?thesis using enqueue_io_session [OF i e] read_next_session [of cap v] finish_session_session [of cap v] by (simp add: e)
  qed
  show ?thesis
  proof (cases "parse_client_message (rx_parse x) message")
    case (Inl e)
    then show ?thesis by (cases e) (simp add: handle_control_def protocol_failure_session [OF i])
  next
    case (Inr m)
    then show ?thesis using fin can [OF refl] ping by (cases m) (simp_all add: handle_control_def Let_def)
  qed
qed

lemma handle_binary_session:
  assumes cap: "0 < cap" and i: "session_inv cap w" and r: "rs_pending (rw_s w) = []" "\<not> rs_reading (rw_s w)" "\<not> pq_finishing (squeue w)"
  shows "session_inv cap (handle_binary x bytes w)"
proof -
  have "session_inv cap (pump_pending_audio v)"
    if v: "v = (upd (\<lambda>s. s \<lparr> rs_pending := samples, rs_offset := 0, rs_received := u64 (rs_received s + int (length samples)) \<rparr>) w)
        \<lparr> rw_input := rw_input w @ samples \<rparr>" for v samples
  proof -
    have o: "out_inv v" using i same_out [of v w] by (auto simp: session_inv_def out_step_def out_view_def v)
    have s: "stopped v = stopped w" by (simp add: stopped_def session_reason v)
    have "audio_inv cap v" using i r unfolding session_inv_def audio_inv_def s by (auto simp: undelivered_def v)
    then show ?thesis using pump_audio [OF cap] pump_out [of v] o by (simp add: session_inv_def out_step_def)
  qed
  from this [OF refl, of "List.map (frame_sample bytes) [0..<length bytes div 2]"] show ?thesis
    using protocol_failure_session [OF i] read_next_session [OF i] by (simp add: handle_binary_def Let_def)
qed

lemma on_read_session:
  assumes cap: "0 < cap" and i: "session_inv cap w" and r: "rs_reading (rw_s w)"
  shows "session_inv cap (on_read x start event w)"
proof -
  let ?w = "upd (\<lambda>s. s \<lparr> rs_reading := False \<rparr>) w"
  have p: "rs_pending (rw_s w) = []" "\<not> pq_finishing (squeue w)" using i r by (auto simp: session_inv_def audio_inv_def)
  have w: "session_inv cap ?w"
  proof -
    have o: "out_step w ?w" by (intro same_out) (simp_all add: out_view_def)
    have s: "stopped ?w = stopped w" by (simp add: stopped_def session_reason)
    have "audio_inv cap ?w \<and> pumping ?w" using i p unfolding session_inv_def audio_inv_def pumping_def s by (simp add: undelivered_def)
    then show ?thesis using i o by (simp add: session_inv_def out_step_def)
  qed
  define t where "t = touch_idle_timeout ?w"
  have t: "session_inv cap t" "rs_pending (rw_s t) = []" "\<not> rs_reading (rw_s t)" "\<not> pq_finishing (squeue t)"
    using touch_idle_session [OF w] p by (auto simp: t_def touch_idle_timeout_def Let_def)
  show ?thesis
    using finish_session_session [OF w] finish_session_session [OF disconnected_session [OF w]]
      protocol_failure_session [OF w] protocol_failure_session [OF t(1)] handle_configuration_session [OF t(1)]
      handle_control_session [OF t(1-3)] handle_binary_session [OF cap t]
    by (cases event) (simp_all add: on_read_def Let_def t_def)
qed

lemma frame_session:
  assumes "session_inv cap w" "rw_s v = (rw_s w) \<lparr> rs_config_timer := a, rs_idle_timer := b \<rparr>"
    "rw_sent v = rw_sent w" "rw_accepted v = rw_accepted w" "rw_worker v = rw_worker w" "rw_input v = rw_input w"
    "rw_delivered v = rw_delivered w" "rw_tasks v = rw_tasks w" "rw_manager v = rw_manager w"
  shows "session_inv cap v"
  using assms(1) by (rule same_session) (simp_all add: assms out_view_def audio_view_def)

lemma on_accept_session: "session_inv cap w \<Longrightarrow> session_inv cap (on_accept failed w)"
proof -
  assume i: "session_inv cap w"
  let ?w = "w \<lparr> rw_accepting := False \<rparr>"
  have "session_inv cap ?w" by (rule frame_session [OF i, where a = "rs_config_timer (rw_s w)" and b = "rs_idle_timer (rw_s w)"]) simp_all
  moreover have "session_inv cap (upd (\<lambda>s. s \<lparr> rs_config_timer := True \<rparr>) ?w)"
    by (rule frame_session [OF i, where a = True and b = "rs_idle_timer (rw_s w)"]) simp_all
  ultimately show ?thesis by (simp add: on_accept_def Let_def finish_session_session read_next_session)
qed

lemma timeouts_session: "session_inv cap w \<Longrightarrow> session_inv cap (config_timeout x w) \<and> session_inv cap (idle_timeout x w)"
proof -
  assume i: "session_inv cap w"
  have "session_inv cap (upd (\<lambda>s. s \<lparr> rs_config_timer := False \<rparr>) w)"
    by (rule frame_session [OF i, where a = False and b = "rs_idle_timer (rw_s w)"]) simp_all
  moreover have "session_inv cap (upd (\<lambda>s. s \<lparr> rs_idle_timer := False \<rparr>) w)"
    by (rule frame_session [OF i, where a = "rs_config_timer (rw_s w)" and b = False]) simp_all
  ultimately show ?thesis by (simp add: config_timeout_def idle_timeout_def Let_def protocol_failure_session)
qed

lemma initiate_shutdown_session: "session_inv cap w \<Longrightarrow> session_inv cap (initiate_shutdown x w)"
proof -
  assume i: "session_inv cap w"
  let ?w = "cancel_input (request_session_cancel By_shutdown w)"
  obtain b v where e: "enqueue_from_io (rx_wire x (realtime_error_json ''shutting_down'' ''The server is shutting down.'' True)) Ob_mandatory ?w = (b, v)"
    by force
  have "out_step w ?w" by (intro same_out) (simp_all add: out_view_def)
  then have "session_inv cap ?w" using session_step [OF i _ audio_step_trans [OF request_session_audio cancel_input_audio]] by blast
  from request_close_session [OF enqueue_io_session [OF this e]] i e show ?thesis by (simp add: initiate_shutdown_def Let_def)
qed

lemma on_write_session:
  assumes i: "session_inv cap w" and wr: "rs_writing (rw_s w)"
  shows "session_inv cap (on_write failed w)"
proof -
  obtain payload where a: "rs_active (rw_s w) = Some payload" using i wr by (auto simp: session_inv_def out_inv_def out_ok_def)
  let ?w = "upd (\<lambda>s. s \<lparr> rs_bytes := u64 (rs_bytes s - payload_size payload), rs_active := None, rs_writing := False \<rparr>) w"
  have e: "on_write failed w = (if failed then finish_session (disconnected ?w) else maybe_write ?w)"
    using a by (simp add: on_write_def Let_def upd_def)
  have w: "audio_step cap w ?w" by (rule audio_same) (simp_all add: audio_view_def session_reason)
  have d: "audio_step cap w (disconnected ?w)"
  proof -
    have "audio_step cap w (if rs_cancellation (rw_s ?w) \<noteq> None then request_on By_disconnect (rs_cancellation (rw_s ?w)) ?w else ?w)"
      using w audio_step_trans [OF w request_on_audio] by simp
    then show ?thesis unfolding disconnected_def by (rule audio_step_trans [OF _ cancel_input_audio])
  qed
  have "audio_step cap w (on_write failed w)"
    unfolding e using audio_step_trans [OF d finish_session_audio] audio_step_trans [OF w maybe_write_audio] by simp
  then show ?thesis using on_write_out [OF session_out [OF i] wr] i by (simp add: session_inv_def audio_step_def)
qed

lemma run_task_session:
  assumes cap: "0 < cap" and i: "session_inv cap w" and t: "rw_tasks w = t # ts"
  shows "session_inv cap (run_task t (w \<lparr> rw_tasks := ts \<rparr>))"
proof -
  let ?w = "w \<lparr> rw_tasks := ts \<rparr>"
  have o: "out_inv ?w" using i by (simp add: session_inv_def out_inv_def fifo_ok_def)
  have s: "stopped ?w = stopped w" by (simp add: stopped_def session_reason)
  have a: "audio_inv cap ?w" using i unfolding session_inv_def audio_inv_def s by simp
  show ?thesis
  proof (cases t)
    case Task_write
    then have "pumping ?w" using i t unfolding session_inv_def pumping_def s by simp
    then have "session_inv cap ?w" using o a by (simp add: session_inv_def)
    then show ?thesis using Task_write maybe_write_out [OF o] maybe_write_audio [of cap ?w]
      by (simp add: run_task_def session_inv_def audio_step_def)
  next
    case Task_pump
    show ?thesis
    proof (cases "rs_closed (rw_s w)")
      case True
      then have "pumping ?w" using a by (auto simp: pumping_def audio_inv_def stopped_def)
      then show ?thesis using True Task_pump o a by (simp add: run_task_def session_inv_def)
    next
      case False
      then show ?thesis using Task_pump pump_audio [OF cap a] pump_out [of ?w] o by (simp add: run_task_def session_inv_def out_step_def)
    qed
  qed
qed

lemma worker_pop_session:
  assumes i: "session_inv cap w" and p: "worker_pop w = Some (r, v)" and l: "rw_worker w = Some l"
  shows "session_inv cap v"
proof -
  have "audio_inv cap v \<and> pumping v"
    using p
  proof (cases rule: worker_pop_cases)
    case (cancelled p q)
    have q: "queue_within cap q" "pq_finishing q = pq_finishing (squeue w)" "pq_cancelled q = pq_cancelled (squeue w)"
      using queue_pop_other [OF cancelled(1)] queue_pop_audio [of "squeue w" _ q] cancelled(1) i
      by (cases p; auto simp: session_inv_def audio_inv_def queue_within_def)+
    have s: "stopped v" using cancelled by (simp add: stopped_def session_reason)
    then show ?thesis using i q cancelled(4) by (auto simp: session_inv_def audio_inv_def pumping_def)
  next
    case (audio samples q)
    have q: "queue_within cap q" "queue_content (squeue w) = samples @ queue_content q" "pq_finishing q = pq_finishing (squeue w)"
        "\<not> pq_cancelled (squeue w)" "\<not> pq_cancelled q"
      using queue_pop_audio [OF _ audio(1)] i by (simp_all add: session_inv_def audio_inv_def queue_within_def)
    have ns: "\<not> stopped w" using q audio(2) by (simp add: stopped_def)
    show ?thesis using i q ns unfolding audio(4)
      by (auto simp: session_inv_def audio_inv_def pumping_def undelivered_def)
  next
    case (other q)
    have "q = squeue w" using queue_pop_other [OF other(1)] other(3) by blast
    then have "v = w" using other(4) by (simp add: upd_def)
    then show ?thesis using i by (simp add: session_inv_def)
  qed
  then show ?thesis using i worker_pop_out [OF p] by (simp add: session_inv_def out_step_def)
qed

lemma realtime_step_session:
  assumes cap: "0 < cap" and st: "realtime_step x w v" and i: "session_inv cap w"
  shows "session_inv cap v"
  using st
proof (cases rule: realtime_step.cases)
  case (accepted failed)
  then show ?thesis using on_accept_session [OF i] by simp
next
  case (read start event)
  then show ?thesis using on_read_session [OF cap i] by simp
next
  case (written failed)
  then show ?thesis using on_write_session [OF i] by simp
next
  case (task t ts)
  then show ?thesis using run_task_session [OF cap i] by simp
next
  case config_timer
  then show ?thesis using timeouts_session [OF i] by simp
next
  case idle_timer
  then show ?thesis using timeouts_session [OF i] by simp
next
  case close_done
  have "session_inv cap (w \<lparr> rw_closing := False \<rparr>)"
    by (rule frame_session [OF i, where a = "rs_config_timer (rw_s w)" and b = "rs_idle_timer (rw_s w)"]) simp_all
  then show ?thesis using finish_session_session close_done by simp
next
  case shutdown
  have "audio_step cap w (w \<lparr> rw_manager := begin_shutdown (rw_manager w) \<rparr>)"
    by (rule audio_same) (simp_all, rule reason_keeps, simp_all add: begin_shutdown_def request_keeps)
  moreover have "out_step w (w \<lparr> rw_manager := begin_shutdown (rw_manager w) \<rparr>)" by (intro same_out) simp_all
  ultimately show ?thesis using initiate_shutdown_session session_step [OF i] shutdown by blast
next
  case (pop l r)
  then show ?thesis using worker_pop_session [OF i] by blast
next
  case (send l p k b)
  have "out_inv v \<and> (awake w \<longrightarrow> awake v)" "audio_step cap w v"
    using enqueue_from_worker_out [OF session_out [OF i] send(2)] enqueue_worker_audio [OF session_out [OF i] send(2)] by blast+
  then show ?thesis using i by (simp add: session_inv_def audio_step_def)
next
  case (worker_close l code)
  then show ?thesis using request_close_session [OF i] by simp
next
  case worker_cancel
  have "out_step w v" unfolding worker_cancel(1) by (intro same_out) simp_all
  then show ?thesis using session_step [OF i] request_session_audio worker_cancel(1) by blast
next
  case (worker_end l)
  have v: "v = w \<lparr> rw_worker := None, rw_manager := snd (lease_reset l (rw_manager w)) \<rparr>"
    using worker_end by (simp add: worker_end_def)
  have o: "out_step w v" unfolding v by (intro same_out) simp_all
  have s: "stopped v = stopped w" by (simp add: stopped_def session_reason v)
  have "audio_inv cap v \<and> pumping v" using i unfolding session_inv_def audio_inv_def pumping_def s by (simp add: v)
  then show ?thesis using i o by (simp add: session_inv_def out_step_def)
next
  case (elsewhere m)
  have "audio_step cap w v"
  proof (rule audio_same)
    show "cancel_requested (session_cancel_reason w) \<longrightarrow> cancel_requested (session_cancel_reason v)"
      using elsewhere by (auto simp: session_reason reason_at_def other_cells_only_def split: option.split)
  qed (simp_all add: elsewhere(1))
  moreover have "out_step w v" unfolding elsewhere(1) by (intro same_out) simp_all
  ultimately show ?thesis using session_step [OF i] by blast
qed

lemma capacity_positive: "0 < buffer_ms \<Longrightarrow> buffer_ms < 2 ^ 32 \<Longrightarrow> 0 < realtime_capacity_samples buffer_ms"
  by (simp add: realtime_capacity_samples_def)

lemma realtime_reach_session:
  assumes "realtime_reach x buffer_ms w" "0 < buffer_ms" "buffer_ms < 2 ^ 32"
  shows "session_inv (realtime_capacity_samples buffer_ms) w"
  using assms(1)
proof (induction rule: realtime_reach.induct)
  case (start lease i m)
  have "out_inv (new_world lease m buffer_ms)"
    using realtime_reach_out [OF realtime_reach.start [OF start]] by simp
  moreover have "audio_inv (realtime_capacity_samples buffer_ms) (new_world lease m buffer_ms)"
    "pumping (new_world lease m buffer_ms)"
    by (simp_all add: audio_inv_def pumping_def new_world_def new_session_def undelivered_def queue_within_def)
      (simp_all add: new_queue_def)
  ultimately show ?case by (simp add: session_inv_def)
next
  case (step w v)
  then show ?case using realtime_step_session [OF capacity_positive [OF assms(2,3)]] by blast
qed

end
