(* ===== verification/RealtimeProgress.thy ===== *)
theory RealtimeProgress
  imports RealtimeAudio
begin

text \<open>Progress of a realtime session: the samples reach the worker, and nobody waits in vain.\<close>

section \<open>Calm operations\<close>

text \<open>Operations that neither start nor end the closing handshake.\<close>

definition calm :: "realtime_world \<Rightarrow> realtime_world \<Rightarrow> bool" where
  "calm w v \<longleftrightarrow> rs_close_started (rw_s v) = rs_close_started (rw_s w) \<and> rw_closing v = rw_closing w \<and>
    rw_accepting v = rw_accepting w \<and> (rs_closed (rw_s w) \<longrightarrow> rs_closed (rw_s v))"

lemma calm_refl [simp]: "calm w w"
  by (simp add: calm_def)

lemma calm_trans: "calm w v \<Longrightarrow> calm v u \<Longrightarrow> calm w u"
  by (simp add: calm_def)

lemma sends_calm:
  assumes "sends w v"
  shows "calm w v"
  unfolding calm_def sends_simps [OF assms] queue_only_fields [OF assms [unfolded sends_def, THEN conjunct1]] by simp

lemma finish_session_calm: "calm w (finish_session w)"
proof (cases "rs_closed (rw_s w)")
  case False
  obtain l where f: "rw_s (finish_session w) = close_outbound ((stop_timers ((rw_s w) \<lparr> rs_closed := True \<rparr>))
      \<lparr> rs_queue := queue_cancel (rs_queue (rw_s w)), rs_lease := l \<rparr>)"
    using finish_session_open [OF False] .
  show ?thesis unfolding calm_def f by (simp add: close_outbound_def stop_timers_def)
qed simp

lemma small_calm:
  "calm w (read_next w)" "calm w (touch_idle_timeout w)" "calm w (request_close_after_drain code w)"
  "calm w (cancel_input w)" "calm w (request_session_cancel r w)" "calm w (request_on r c w)" "calm w (disconnected w)"
  by (auto simp: calm_def read_next_def touch_idle_timeout_def request_close_after_drain_def disconnected_def Let_def)

lemma enqueue_io_calm: "out_inv w \<Longrightarrow> enqueue_from_io p k w = (b, v) \<Longrightarrow> calm w v"
  using enqueue_from_io_out sends_calm by blast

text \<open>A session that reads, or has a frame to push, or will not read again.\<close>

definition attentive :: "realtime_world \<Rightarrow> bool" where
  "attentive w \<longleftrightarrow> rs_closed (rw_s w) \<or> rs_close_after_drain (rw_s w) \<or> rs_input_ended (rw_s w) \<or> rw_accepting w \<or>
    rs_reading (rw_s w) \<or> rs_pending (rw_s w) \<noteq> []"

lemma read_next_attentive [simp]: "attentive (read_next w)"
  by (auto simp: attentive_def read_next_def Let_def)

lemma finish_session_attentive [simp]: "attentive (finish_session w)"
  by (simp add: attentive_def)

lemma closed_attentive [simp]: "rs_closed (rw_s w) \<Longrightarrow> attentive w"
  by (simp add: attentive_def)

lemma protocol_failure_calm: "out_inv w \<Longrightarrow> calm w (protocol_failure x c m r w) \<and> attentive (protocol_failure x c m r w)"
proof (cases "rs_closed (rw_s w)")
  case False
  assume o: "out_inv w"
  define w1 where "w1 = cancel_input (request_session_cancel r (upd (\<lambda>s. s \<lparr> rs_input_ended := True \<rparr>) w))"
  obtain b w2 where e: "enqueue_from_io (rx_wire x (realtime_error_json c m True)) Ob_mandatory w1 = (b, w2)" by force
  have "out_step w w1" by (intro same_out) (simp_all add: w1_def out_view_def)
  then have o1: "out_inv w1" using o by (simp add: out_step_def)
  have s: "sends w1 w2" using enqueue_from_io_out [OF o1 e] by simp
  have "calm w w1" by (simp add: w1_def calm_def)
  then have c: "calm w w2" using sends_calm [OF s] calm_trans by blast
  have "rs_input_ended (rw_s w2)"
    by (subst s [unfolded sends_def queue_only_def, THEN conjunct1]) (simp add: w1_def)
  then have "attentive (request_close_after_drain Close_policy_error w2)"
    by (simp add: attentive_def request_close_after_drain_def)
  then show ?thesis using False e c calm_trans [OF c finish_session_calm] calm_trans [OF c small_calm(3)]
    by (simp add: protocol_failure_def w1_def [symmetric])
qed (simp add: protocol_failure_def)

lemma push_pending_calm: "calm w (upd push_pending w)"
proof -
  have f: "rs_close_started (push_pending s) = rs_close_started s" "rs_closed (push_pending s) = rs_closed s" for s
    by (subst push_pending_frame, simp)+
  show ?thesis by (simp add: calm_def f)
qed

lemma pump_calm: "calm w (pump_pending_audio w) \<and> attentive (pump_pending_audio w)"
proof (cases "rs_closed (rw_s w) \<or> rs_pending (rw_s w) = []")
  case True
  then have "pump_pending_audio w = read_next w" by (simp add: pump_pending_audio_def)
  then show ?thesis using small_calm(1) [of w] by simp
next
  case False
  show ?thesis
  proof (cases "rs_pending (rw_s (upd push_pending w)) = []")
    case True
    then have "pump_pending_audio w = read_next (upd push_pending w)" using False by (simp add: pump_pending_audio_def)
    then show ?thesis using calm_trans [OF push_pending_calm small_calm(1)] by simp
  next
    case pending: False
    then have "pump_pending_audio w = upd push_pending w" using False by (simp add: pump_pending_audio_def)
    then show ?thesis using push_pending_calm [of w] pending by (simp add: attentive_def)
  qed
qed

lemma start_worker_calm:
  assumes "out_inv w"
  shows "calm w (start_inference_worker x start w)"
proof -
  let ?lease = "rs_lease (rw_s w)"
  let ?w1 = "upd (\<lambda>s. s \<lparr> rs_lease := ?lease \<lparr> gl_live := False, gl_mode := Gpu_free, gl_cancellation := None \<rparr>,
                           rs_cancellation := gl_cancellation ?lease, rs_worker_started := True \<rparr>) w"
  let ?failed = "(upd (\<lambda>s. s \<lparr> rs_worker_started := False \<rparr>) ?w1) \<lparr> rw_manager := snd (lease_reset ?lease (rw_manager ?w1)) \<rparr>"
  have "out_step w ?failed" by (intro same_out) (simp_all add: out_view_def)
  then have o: "out_inv ?failed" using assms by (simp add: out_step_def)
  have "calm w ?failed" "calm w (?w1 \<lparr> rw_worker := Some ?lease \<rparr>)" by (simp_all add: calm_def)
  moreover from this(1) have "calm w (protocol_failure x c m r ?failed)" for c m r
    using protocol_failure_calm [OF o] by (blast intro: calm_trans)
  ultimately show ?thesis by (cases start) (simp_all add: start_inference_worker_def Let_def)
qed

lemma handle_configuration_calm:
  assumes o: "out_inv w"
  shows "calm w (handle_configuration x start message w) \<and> attentive (handle_configuration x start message w)"
proof (cases "parse_session_configure (rx_parse x) message")
  case (Inl e)
  then show ?thesis by (cases e) (simp add: handle_configuration_def protocol_failure_calm [OF o])
next
  case (Inr conf)
  define w0 where "w0 = upd (\<lambda>s. s \<lparr> rs_configuration := conf, rs_configured := True, rs_config_timer := False \<rparr>) w"
  define w1 where "w1 = touch_idle_timeout w0"
  obtain b w2 where e: "enqueue_from_io (rx_wire x (session_created_json (rx_session_id x) (rx_model_name x))) Ob_mandatory w1 = (b, w2)"
    by force
  have "out_step w w0" by (intro same_out) (simp_all add: w0_def out_view_def)
  then have o1: "out_inv w1" using o touch_idle_out [of w0] by (simp add: out_step_def w1_def)
  have o2: "out_inv w2" using enqueue_from_io_out [OF o1 e] by simp
  have "calm w w0" by (simp add: calm_def w0_def)
  then have c2: "calm w w2" using calm_trans [OF _ small_calm(2)] calm_trans [OF _ enqueue_io_calm [OF o1 e]] by (simp add: w1_def)
  let ?w3 = "start_inference_worker x start w2"
  have c3: "calm w ?w3" using calm_trans [OF c2 start_worker_calm [OF o2]] .
  have "handle_configuration x start message w = (if \<not> b then finish_session w2
            else if rs_closed (rw_s ?w3) then ?w3 else read_next ?w3)"
    using Inr e by (simp add: handle_configuration_def Let_def w0_def w1_def)
  then show ?thesis using calm_trans [OF c2 finish_session_calm] c3 calm_trans [OF c3 small_calm(1)] by simp
qed

lemma handle_control_calm:
  assumes o: "out_inv w"
  shows "calm w (handle_control x message w) \<and> attentive (handle_control x message w)"
proof (cases "parse_client_message (rx_parse x) message")
  case (Inl e)
  then show ?thesis by (cases e) (simp add: handle_control_def protocol_failure_calm [OF o])
next
  case (Inr m)
  show ?thesis
  proof (cases m)
    case Msg_finish
    then show ?thesis using Inr by (simp add: handle_control_def calm_def attentive_def)
  next
    case Msg_cancel
    then show ?thesis using Inr by (simp add: handle_control_def calm_def attentive_def Let_def)
  next
    case (Msg_ping ident)
    obtain b v where e: "enqueue_from_io (rx_wire x (pong_json ident)) Ob_mandatory w = (b, v)" by force
    have "calm w v" by (rule enqueue_io_calm [OF o e])
    then show ?thesis using Inr Msg_ping e calm_trans [OF _ small_calm(1)] calm_trans [OF _ finish_session_calm]
      by (simp add: handle_control_def)
  qed
qed

lemma handle_binary_calm:
  assumes o: "out_inv w"
  shows "calm w (handle_binary x bytes w) \<and> attentive (handle_binary x bytes w)"
proof -
  let ?w = "\<lambda>samples. (upd (\<lambda>s. s \<lparr> rs_pending := samples, rs_offset := 0,
                              rs_received := u64 (rs_received s + int (length samples)) \<rparr>) w)
                 \<lparr> rw_input := rw_input w @ samples \<rparr>"
  have "calm w (?w samples)" for samples by (simp add: calm_def)
  then have "calm w (pump_pending_audio (?w samples)) \<and> attentive (pump_pending_audio (?w samples))" for samples
    using pump_calm calm_trans by blast
  from this [of "List.map (frame_sample bytes) [0..<length bytes div 2]"] show ?thesis
    using protocol_failure_calm [OF o] small_calm(1) [of w] by (simp add: handle_binary_def Let_def)
qed

lemma on_read_calm:
  assumes o: "out_inv w"
  shows "calm w (on_read x start event w) \<and> attentive (on_read x start event w)"
proof -
  let ?w = "upd (\<lambda>s. s \<lparr> rs_reading := False \<rparr>) w"
  define t where "t = touch_idle_timeout ?w"
  have "out_step w ?w" by (intro same_out) (simp_all add: out_view_def)
  then have o1: "out_inv ?w" "out_inv t" using o touch_idle_out [of ?w] by (simp_all add: out_step_def t_def)
  have c: "calm w ?w" by (simp add: calm_def)
  have ct: "calm w t" using calm_trans [OF c small_calm(2)] by (simp add: t_def)
  show ?thesis
    using calm_trans [OF c finish_session_calm] calm_trans [OF c calm_trans [OF small_calm(7) finish_session_calm]]
      calm_trans [OF c conjunct1 [OF protocol_failure_calm [OF o1(1)]]] protocol_failure_calm [OF o1(1)]
      calm_trans [OF ct conjunct1 [OF protocol_failure_calm [OF o1(2)]]] protocol_failure_calm [OF o1(2)]
      calm_trans [OF ct conjunct1 [OF handle_configuration_calm [OF o1(2)]]] handle_configuration_calm [OF o1(2)]
      calm_trans [OF ct conjunct1 [OF handle_control_calm [OF o1(2)]]] handle_control_calm [OF o1(2)]
      calm_trans [OF ct conjunct1 [OF handle_binary_calm [OF o1(2)]]] handle_binary_calm [OF o1(2)]
    by (cases event) (simp_all add: on_read_def Let_def t_def)
qed

section \<open>Progress\<close>

definition progress_inv :: "realtime_world \<Rightarrow> bool" where
  "progress_inv w \<longleftrightarrow> (rs_close_started (rw_s w) \<longrightarrow> rs_closed (rw_s w) \<or> rw_closing w) \<and> attentive w"

lemma calm_progress: "progress_inv w \<Longrightarrow> calm w v \<Longrightarrow> attentive v \<Longrightarrow> progress_inv v"
  by (auto simp: progress_inv_def calm_def)

text \<open>Steps that do not touch what a session waits for.\<close>

lemma idle_progress:
  assumes "progress_inv w" "rs_closed (rw_s v) = rs_closed (rw_s w)" "rs_input_ended (rw_s v) = rs_input_ended (rw_s w)"
    "rw_accepting v = rw_accepting w" "rs_reading (rw_s v) = rs_reading (rw_s w)" "rs_pending (rw_s v) = rs_pending (rw_s w)"
    "rs_close_after_drain (rw_s w) \<longrightarrow> rs_close_after_drain (rw_s v)" "rs_close_started (rw_s v) = rs_close_started (rw_s w)"
    "rw_closing v = rw_closing w"
  shows "progress_inv v"
  using assms by (auto simp: progress_inv_def attentive_def)

lemma finish_session_progress: "progress_inv (finish_session w)"
  by (simp add: progress_inv_def)

lemma sends_progress:
  assumes "progress_inv w" "sends w v"
  shows "progress_inv v"
proof -
  note q = assms(2) [unfolded sends_def queue_only_def, THEN conjunct1]
  show ?thesis
    by (rule idle_progress [OF assms(1)]; (subst q)?; simp add: sends_simps [OF assms(2)])
qed

lemma close_transport_progress:
  assumes "progress_inv w" "rs_close_after_drain (rw_s w)"
  shows "progress_inv (close_transport w)"
proof (cases "rs_closed (rw_s w) \<or> rs_close_started (rw_s w)")
  case True
  then show ?thesis using assms by (auto simp: close_transport_def)
next
  case False
  then show ?thesis using assms finish_session_progress
    by (simp add: close_transport_def Let_def progress_inv_def attentive_def stop_timers_def)
qed

lemma maybe_write_progress:
  assumes i: "progress_inv w"
  shows "progress_inv (maybe_write w)"
proof (cases "rs_closed (rw_s w) \<or> rs_writing (rw_s w)")
  case True
  then show ?thesis using i by (auto simp: maybe_write_def Let_def)
next
  case False
  show ?thesis
  proof (cases "rs_outbound (rw_s w)")
    case Nil
    then show ?thesis using False i close_transport_progress [OF i] by (simp add: maybe_write_def Let_def)
  next
    case (Cons m rest)
    have "progress_inv ((upd (\<lambda>s. s \<lparr> rs_writing := True, rs_active := Some (fst m), rs_outbound := rest \<rparr>) w)
                \<lparr> rw_sent := rw_sent w @ [m] \<rparr>)"
      by (rule idle_progress [OF i]) simp_all
    then show ?thesis using False Cons by (simp add: maybe_write_def Let_def)
  qed
qed

lemma on_write_progress:
  assumes "progress_inv w"
  shows "progress_inv (on_write failed w)"
proof -
  define v where "v = upd (\<lambda>s. (case rs_active s of
                          None \<Rightarrow> s
                        | Some payload \<Rightarrow> s \<lparr> rs_bytes := u64 (rs_bytes s - payload_size payload), rs_active := None \<rparr>)
                        \<lparr> rs_writing := False \<rparr>) w"
  have "progress_inv v"
    by (rule idle_progress [OF assms]) (simp_all add: v_def split: option.split)
  then show ?thesis using maybe_write_progress finish_session_progress
    by (simp add: on_write_def Let_def v_def [symmetric])
qed

lemma realtime_step_progress:
  assumes st: "realtime_step x w v" and o: "out_inv w" and i: "progress_inv w"
  shows "progress_inv v"
  using st
proof (cases rule: realtime_step.cases)
  case (accepted failed)
  have "attentive v" unfolding accepted(1) by (simp add: on_accept_def Let_def)
  moreover have "rs_close_started (rw_s v) \<longrightarrow> rs_closed (rw_s v) \<or> rw_closing v"
    using i finish_session_calm [of "w \<lparr> rw_accepting := False \<rparr>"]
      small_calm(1) [of "upd (\<lambda>s. s \<lparr> rs_config_timer := True \<rparr>) (w \<lparr> rw_accepting := False \<rparr>)"]
    by (auto simp: accepted(1) on_accept_def Let_def progress_inv_def calm_def)
  ultimately show ?thesis by (simp add: progress_inv_def)
next
  case (read start event)
  then show ?thesis using calm_progress [OF i] on_read_calm [OF o] by simp
next
  case (written failed)
  then show ?thesis using on_write_progress [OF i] by simp
next
  case (task t ts)
  have ts: "progress_inv (w \<lparr> rw_tasks := ts \<rparr>)" by (rule idle_progress [OF i]) simp_all
  show ?thesis
  proof (cases t)
    case Task_write
    then show ?thesis using task maybe_write_progress [OF ts] by (simp add: run_task_def)
  next
    case Task_pump
    then show ?thesis using task ts calm_progress [OF ts] pump_calm by (simp add: run_task_def)
  qed
next
  case config_timer
  let ?w = "upd (\<lambda>s. s \<lparr> rs_config_timer := False \<rparr>) w"
  have "progress_inv ?w" by (rule idle_progress [OF i]) simp_all
  moreover have "out_step w ?w" by (intro same_out) (simp_all add: out_view_def)
  then have "out_inv ?w" using o by (simp add: out_step_def)
  ultimately show ?thesis using calm_progress protocol_failure_calm by (simp add: config_timer config_timeout_def Let_def)
next
  case idle_timer
  let ?w = "upd (\<lambda>s. s \<lparr> rs_idle_timer := False \<rparr>) w"
  have "progress_inv ?w" by (rule idle_progress [OF i]) simp_all
  moreover have "out_step w ?w" by (intro same_out) (simp_all add: out_view_def)
  then have "out_inv ?w" using o by (simp add: out_step_def)
  ultimately show ?thesis using calm_progress protocol_failure_calm by (simp add: idle_timer idle_timeout_def Let_def)
next
  case close_done
  then show ?thesis using finish_session_progress by simp
next
  case shutdown
  let ?m = "w \<lparr> rw_manager := begin_shutdown (rw_manager w) \<rparr>"
  let ?w = "cancel_input (request_session_cancel By_shutdown ?m)"
  obtain b u where e: "enqueue_from_io (rx_wire x (realtime_error_json ''shutting_down'' ''The server is shutting down.'' True)) Ob_mandatory ?w = (b, u)"
    by force
  have "out_step w ?w" by (intro same_out) (simp_all add: out_view_def)
  then have ow: "out_inv ?w" using o by (simp add: out_step_def)
  have "progress_inv ?w" by (rule idle_progress [OF i]) simp_all
  then have "progress_inv u" using sends_progress enqueue_from_io_out [OF ow e] by blast
  then have "progress_inv (request_close_after_drain Close_going_away u)"
    by (rule idle_progress) (simp_all add: request_close_after_drain_def)
  moreover have "progress_inv ?m" by (rule idle_progress [OF i]) simp_all
  ultimately show ?thesis using e by (simp add: shutdown initiate_shutdown_def Let_def)
next
  case (pop l r)
  from pop(2) show ?thesis
    by (cases rule: worker_pop_cases; intro idle_progress [OF i]; simp)
next
  case (send l p k b)
  then show ?thesis using sends_progress [OF i] enqueue_from_worker_out [OF o] by blast
next
  case (worker_close l code)
  show ?thesis unfolding worker_close(1) by (rule idle_progress [OF i]) (simp_all add: request_close_after_drain_def)
next
  case worker_cancel
  show ?thesis unfolding worker_cancel(1) by (rule idle_progress [OF i]) simp_all
next
  case (worker_end l)
  show ?thesis unfolding worker_end(1) by (rule idle_progress [OF i]) (simp_all add: worker_end_def split: option.split)
next
  case (elsewhere m)
  show ?thesis unfolding elsewhere(1) by (rule idle_progress [OF i]) simp_all
qed

lemma realtime_reach_progress: "realtime_reach x buffer_ms w \<Longrightarrow> progress_inv w"
proof (induction rule: realtime_reach.induct)
  case (start lease i m)
  show ?case by (simp add: progress_inv_def attentive_def new_world_def new_session_def)
next
  case (step w v)
  then show ?case using realtime_step_progress realtime_reach_out by blast
qed

section \<open>The audio reaches the worker\<close>

text \<open>C11: In every reachable state of a session the worker has been given a prefix of the samples the client sent, in
order and unchanged; while nobody cancelled, the rest is in the queue and the pending frame, the queue within its
configured length; and when the worker is told of the end it has been given every sample.\<close>

theorem realtime_audio_complete:
  assumes r: "realtime_reach x buffer_ms w" and b: "0 < buffer_ms" "buffer_ms < 2 ^ 32"
  shows "(\<exists>rest. rw_input w = rw_delivered w @ rest) \<and>
    (\<not> stopped w \<longrightarrow> rw_input w = rw_delivered w @ undelivered (rw_s w)) \<and>
    int (length (queue_content (squeue w))) \<le> 16 * buffer_ms \<and>
    (worker_pop w = Some (Pop_finish, v) \<longrightarrow> rw_delivered w = rw_input w)"
proof -
  have a: "audio_inv (realtime_capacity_samples buffer_ms) w" using realtime_reach_session [OF assms] by (simp add: session_inv_def)
  have c: "int (realtime_capacity_samples buffer_ms) = 16 * buffer_ms" using b by (simp add: realtime_capacity_samples_def)
  have "rw_delivered w = rw_input w" if p: "worker_pop w = Some (Pop_finish, v)"
    using p
  proof (cases rule: worker_pop_cases)
    case (other q)
    have "queue_content (squeue w) = []" "pq_finishing (squeue w)" "\<not> pq_cancelled (squeue w)"
      using queue_pop_other [OF other(1)] by simp_all
    then show ?thesis using a other(2) by (auto simp: audio_inv_def stopped_def undelivered_def)
  qed simp_all
  moreover have "length (queue_content (squeue w)) \<le> realtime_capacity_samples buffer_ms"
    using a pcm.bounded by (auto simp: audio_inv_def)
  then have "int (length (queue_content (squeue w))) \<le> 16 * buffer_ms" unfolding c [symmetric] by (simp only: of_nat_le_iff)
  ultimately show ?thesis using a unfolding audio_inv_def by blast
qed

text \<open>C12: A session never waits in vain: an open session that still takes input has a read outstanding or a frame to
push; a frame that waits for the worker is behind queued audio, which the worker takes, or behind a posted pump; with
messages to send or a close to make there is a write, the closing handshake or a posted task on its way; a worker that
waits for space waits for a write; and when the session has closed the worker is told to cancel and its messages are
refused, so it ends.\<close>

theorem realtime_never_stalls:
  assumes r: "realtime_reach x buffer_ms w" and b: "0 < buffer_ms" "buffer_ms < 2 ^ 32"
  shows "(\<not> rs_closed (rw_s w) \<and> \<not> rs_close_after_drain (rw_s w) \<and> \<not> rs_input_ended (rw_s w) \<and> \<not> rw_accepting w \<longrightarrow>
      rs_reading (rw_s w) \<or> rs_pending (rw_s w) \<noteq> []) \<and>
    (rs_pending (rw_s w) \<noteq> [] \<and> \<not> stopped w \<longrightarrow> queue_content (squeue w) \<noteq> [] \<or> Task_pump \<in> set (rw_tasks w)) \<and>
    (\<not> rs_closed (rw_s w) \<and> (rs_outbound (rw_s w) \<noteq> [] \<or> rs_close_after_drain (rw_s w)) \<longrightarrow>
      rs_writing (rw_s w) \<or> rw_closing w \<or> Task_write \<in> set (rw_tasks w)) \<and>
    (enqueue_from_worker p k w = None \<longrightarrow> rs_writing (rw_s w) \<or> Task_write \<in> set (rw_tasks w)) \<and>
    (rs_closed (rw_s w) \<longrightarrow> (\<exists>v. worker_pop w = Some (Pop_cancel, v)) \<and> enqueue_from_worker p k w = Some (False, w))"
proof -
  have s: "out_inv w" "audio_inv (realtime_capacity_samples buffer_ms) w" "pumping w" "awake w" "progress_inv w"
    using realtime_reach_session [OF assms] realtime_reach_out [OF r] realtime_reach_progress [OF r] by (simp_all add: session_inv_def)
  have waits: "rs_writing (rw_s w) \<or> Task_write \<in> set (rw_tasks w)" if e: "enqueue_from_worker p k w = None"
  proof (rule ccontr)
    assume n: "\<not> (rs_writing (rw_s w) \<or> Task_write \<in> set (rw_tasks w))"
    have o: "\<not> rs_outbound_closed (rw_s w)" "\<not> has_queue_capacity (payload_size p) (rw_s w)" "payload_size p \<le> max_outbound_bytes"
      using e by (auto simp: enqueue_from_worker_def split: if_splits option.splits)
    have "settled (rw_s w)" using s(4) n by (simp add: awake_def)
    then have "rs_outbound (rw_s w) = []" using n o(1) s(1) by (auto simp: settled_def out_inv_def out_ok_def)
    moreover have "rs_bytes (rw_s w) = 0" using calculation n s(1) by (simp add: out_inv_def out_ok_def active_size_def)
    ultimately show False using o n by (simp add: has_queue_capacity_def max_outbound_numbers)
  qed
  have closed: "(\<exists>v. worker_pop w = Some (Pop_cancel, v)) \<and> enqueue_from_worker p k w = Some (False, w)" if c: "rs_closed (rw_s w)"
  proof -
    have "queue_pop (squeue w) = Some (Pop_cancel, squeue w)" using c s(2) by (simp add: audio_inv_def queue_pop_def)
    then have "\<exists>v. worker_pop w = Some (Pop_cancel, v)" by (simp add: worker_pop_def Let_def)
    moreover have "rs_outbound_closed (rw_s w)" using c s(1) by (simp add: out_inv_def out_ok_def)
    ultimately show ?thesis by (simp add: enqueue_from_worker_def)
  qed
  have "rs_writing (rw_s w) \<or> rw_closing w \<or> Task_write \<in> set (rw_tasks w)"
    if "\<not> rs_closed (rw_s w) \<and> (rs_outbound (rw_s w) \<noteq> [] \<or> rs_close_after_drain (rw_s w))"
    using that s(4,5) unfolding awake_def settled_def progress_inv_def by blast
  moreover have "rs_pending (rw_s w) \<noteq> [] \<and> \<not> stopped w \<longrightarrow> queue_content (squeue w) \<noteq> [] \<or> Task_pump \<in> set (rw_tasks w)"
    using s(3) by (simp add: pumping_def)
  ultimately show ?thesis using s(5) waits closed unfolding progress_inv_def attentive_def by blast
qed

text \<open>A session from its configuration to the end of its input.\<close>

definition sample_messages :: realtime_settings where
  "sample_messages = sample_realtime \<lparr> rx_parse := (\<lambda>m.
     if m = ''cfg'' then Some (Json_object [(''type'', Json_string ''session.configure''), (''audio'', audio_description)])
     else if m = ''end'' then Some (Json_object [(''type'', Json_string ''input_audio.end'')]) else None) \<rparr>"

definition sample_ended :: realtime_world where
  "sample_ended =
    on_read sample_messages Start_ok (Read_text ''end'')
      (snd (the (worker_pop
        (on_read sample_messages Start_ok (Read_binary [1, 0, 255, 255])
          (on_read sample_messages Start_ok (Read_text ''cfg'')
            (on_accept False (new_world sample_lease sample_manager 1)))))))"

lemma sample_ended_reach: "realtime_reach sample_messages 1 sample_ended"
proof -
  let ?a = "on_accept False (new_world sample_lease sample_manager 1)"
  let ?c = "on_read sample_messages Start_ok (Read_text ''cfg'') ?a"
  let ?b = "on_read sample_messages Start_ok (Read_binary [1, 0, 255, 255]) ?c"
  let ?p = "snd (the (worker_pop ?b))"
  have "rs_reading (rw_s ?a)" by code_simp
  then have c: "realtime_reach sample_messages 1 ?c"
    by (rule realtime_reach.step [OF sample_accepted_reach realtime_step.read])
  have "rs_reading (rw_s ?c)" by code_simp
  then have b: "realtime_reach sample_messages 1 ?b" by (rule realtime_reach.step [OF c realtime_step.read])
  have "rw_worker ?b \<noteq> None" "worker_pop ?b \<noteq> None" by code_simp+
  then have p: "realtime_reach sample_messages 1 ?p"
    using realtime_reach.step [OF b realtime_step.pop] by fastforce
  have "rs_reading (rw_s ?p)" by code_simp
  then show ?thesis unfolding sample_ended_def by (rule realtime_reach.step [OF p realtime_step.read])
qed

lemma realtime_audio_complete_witness:
  "\<exists>w v. realtime_reach sample_messages 1 w \<and> worker_pop w = Some (Pop_finish, v) \<and> rw_delivered w = [1, - 1] \<and>
     rw_input w = [1, - 1]"
proof -
  have "map_option fst (worker_pop sample_ended) = Some Pop_finish" by code_simp
  then obtain v where p: "worker_pop sample_ended = Some (Pop_finish, v)" by auto
  have "rw_delivered sample_ended = [1, - 1]" by code_simp
  moreover have "rw_delivered sample_ended = rw_input sample_ended"
    using realtime_audio_complete [OF sample_ended_reach, of v] p by simp
  ultimately show ?thesis using sample_ended_reach p by (metis (no_types))
qed

lemma realtime_never_stalls_witness:
  "\<exists>w. realtime_reach sample_messages 1 w \<and> rs_outbound (rw_s w) \<noteq> [] \<and> Task_write \<in> set (rw_tasks w)"
proof -
  have n: "rs_outbound (rw_s sample_ended) \<noteq> []" "\<not> rs_closed (rw_s sample_ended)" "\<not> rs_writing (rw_s sample_ended)"
    "\<not> rw_closing sample_ended" by code_simp+
  then have "Task_write \<in> set (rw_tasks sample_ended)" using realtime_never_stalls [OF sample_ended_reach] by auto
  then show ?thesis using sample_ended_reach n by blast
qed

text \<open>A configuration that arrives between the configuration timeout and the close still starts a worker, and is
answered, behind the fatal error.\<close>

lemma late_configuration_starts_worker:
  "\<exists>w v. realtime_reach sample_messages 1 w \<and> rs_input_ended (rw_s w) \<and> rs_close_after_drain (rw_s w) \<and>
     List.map fst (rs_outbound (rw_s w)) = [rx_wire sample_messages (realtime_error_json ''invalid_configuration''
       ''session.configure was not received within five seconds.'' True)] \<and>
     realtime_step sample_messages w v \<and> rw_worker v \<noteq> None \<and>
     List.map fst (rs_outbound (rw_s v)) = List.map fst (rs_outbound (rw_s w)) @
       [rx_wire sample_messages (session_created_json ''st_1'' ''voxtral-mini'')]"
proof -
  let ?a = "on_accept False (new_world sample_lease sample_manager 1)"
  let ?w = "config_timeout sample_messages ?a"
  let ?v = "on_read sample_messages Start_ok (Read_text ''cfg'') ?w"
  have "rs_config_timer (rw_s ?a)" by code_simp
  then have "realtime_reach sample_messages 1 ?w"
    by (rule realtime_reach.step [OF sample_accepted_reach realtime_step.config_timer])
  moreover have "rs_reading (rw_s ?w)" by code_simp
  then have "realtime_step sample_messages ?w ?v" by (rule realtime_step.read)
  moreover have "rs_input_ended (rw_s ?w) \<and> rs_close_after_drain (rw_s ?w) \<and>
     List.map fst (rs_outbound (rw_s ?w)) = [rx_wire sample_messages (realtime_error_json ''invalid_configuration''
       ''session.configure was not received within five seconds.'' True)]" by code_simp
  moreover have "rw_worker ?v \<noteq> None \<and>
     List.map fst (rs_outbound (rw_s ?v)) = List.map fst (rs_outbound (rw_s ?w)) @
       [rx_wire sample_messages (session_created_json ''st_1'' ''voxtral-mini'')]" by code_simp
  ultimately show ?thesis by (intro exI [of _ ?w] exI [of _ ?v] conjI) simp_all
qed

end
