(* ===== verification/EngineJobs.thy ===== *)
theory EngineJobs
  imports JsonProtocol ServerQueue
begin

text \<open>The server's use of the engine: the stream wrapper over the public interface (\<open>server/engine.cpp\<close>) and the
batch job that feeds a whole recording through one stream (\<open>server/batch-transcription.cpp\<close>).  The job is written
over a record of engine operations, with the wrapper as its instance; what other threads do to the cancellation flag
is the argument \<open>obs\<close>, the answer of its n-th reading.  A loop that does not return, or undefined behaviour in the
engine, is the value \<^term>\<open>None\<close>.  \<open>bj_fed\<close> and \<open>bj_events\<close> record what was fed and polled and
are read by no operation.\<close>

section \<open>The engine's streams\<close>

type_synonym engine_error = "public_status \<times> string"

record 's engine_ops =
  eo_feed :: "int list option \<Rightarrow> nat \<Rightarrow> 's \<Rightarrow> (public_status \<times> nat \<times> 's) option"
  eo_poll :: "'s \<Rightarrow> (public_status \<times> public_event \<times> 's) option"
  eo_finish :: "'s \<Rightarrow> (public_status \<times> 's) option"
  eo_cancel :: "'s \<Rightarrow> (public_status \<times> 's) option"
  eo_state :: "'s \<Rightarrow> public_state"
  eo_final_text :: "'s \<Rightarrow> engine_error + string"
  eo_metrics :: "'s \<Rightarrow> engine_error + stream_metrics"
  eo_last_error :: "'s \<Rightarrow> string"

text \<open>The bytes of a C string up to its terminator.\<close>

definition c_string :: "byte list \<Rightarrow> string" where
  "c_string bs = List.map (\<lambda>b. char_of (uint b)) (takeWhile (\<lambda>b. b \<noteq> 0) bs)"

text \<open>A zeroed structure with its header.\<close>

definition zeroed_struct :: "nat \<Rightarrow> byte list" where
  "zeroed_struct n = le_bytes 4 (int n) @ le_bytes 4 api_version_current @ replicate (n - 8) 0"

definition engine_last_error :: "('f, 'k, 'o, 'a, 'c) stream \<Rightarrow> string" where
  "engine_last_error s =
    (case public_stream_last_error (Some s) (Some (zeroed_struct 272)) of
       Some (PS_ok, Some mem) \<Rightarrow> c_string (drop 16 mem)
     | _ \<Rightarrow> ''failed to query the public stream error'')"

text \<open>What the server says of a status.\<close>

definition safe_status_message :: "public_status \<Rightarrow> string" where
  "safe_status_message st =
    (case st of
       PS_invalid_argument \<Rightarrow> ''The inference request is invalid.''
     | PS_invalid_state \<Rightarrow> ''The inference stream is in an invalid state.''
     | PS_out_of_memory \<Rightarrow> ''The server ran out of memory.''
     | PS_queue_full \<Rightarrow> ''The inference output queue is full.''
     | PS_not_ready \<Rightarrow> ''The inference result is not ready.''
     | PS_cancelled \<Rightarrow> ''The inference request was cancelled.''
     | PS_unsupported_audio_format \<Rightarrow> ''The audio format is unsupported.''
     | PS_model_error \<Rightarrow> ''The model cannot process this request.''
     | PS_backend_error \<Rightarrow> ''The inference backend failed.''
     | PS_internal_error \<Rightarrow> ''The server encountered an internal inference error.''
     | PS_buffer_too_small \<Rightarrow> ''The server encountered an internal inference error.''
     | PS_ok \<Rightarrow> ''OK'')"

text \<open>Creating a stream with the default parameters: the error it throws, or the stream, and the context.\<close>

definition engine_create ::
  "stream_env \<Rightarrow> ('f, 'k, 'o, 'a, 'c) api_context
   \<Rightarrow> ((engine_error + ('f, 'k, 'o, 'a, 'c) stream) \<times> ('f, 'k, 'o, 'a, 'c) api_context) option" where
  "engine_create env ctx =
    do {
      (st, made, p) \<leftarrow> public_stream_create env None (Some ctx) (Some (stream_params_bytes 48 stream_default_params)) True;
      (let ctx1 = (case p of None \<Rightarrow> ctx | Some c \<Rightarrow> c) in
       case made of
         Some s \<Rightarrow> if st = PS_ok then Some (Inr s, ctx1) else None
       | None \<Rightarrow>
           (let detail = (case public_context_last_error p (Some (zeroed_struct 272)) of
                            Some (PS_ok, Some mem) \<Rightarrow>
                              if hd (drop 16 mem) \<noteq> 0 then c_string (drop 16 mem) else safe_status_message st
                          | _ \<Rightarrow> safe_status_message st)
            in Some (Inl (st, detail), ctx1)))
    }"

definition no_event :: public_event where
  "no_event = \<lparr> pe_type = 0, pe_sequence = 0, pe_token_id = 0, pe_flags = 0, pe_audio_start_ms = 0, pe_audio_end_ms = 0,
     pe_status = PS_ok, pe_text_length = 0, pe_text = [] \<rparr>"

definition engine_poll :: "('f, 'k, 'o, 'a, 'c) stream \<Rightarrow> (public_status \<times> public_event \<times> ('f, 'k, 'o, 'a, 'c) stream) option" where
  "engine_poll s =
    do {
      (st, _, ev, p) \<leftarrow> public_poll_event (Some s) (Some (zeroed_struct 4160));
      Some (st, (case ev of None \<Rightarrow> no_event | Some e \<Rightarrow> e), (case p of None \<Rightarrow> s | Some t \<Rightarrow> t))
    }"

definition engine_feed ::
  "('f, 'k, 'o, 'a, 'c) runtime \<Rightarrow> int list option \<Rightarrow> nat \<Rightarrow> ('f, 'k, 'o, 'a, 'c) stream
   \<Rightarrow> (public_status \<times> nat \<times> ('f, 'k, 'o, 'a, 'c) stream) option" where
  "engine_feed rt samples sample_count s =
    do {
      (st, consumed, p) \<leftarrow> public_feed_pcm16 rt None (Some s) samples sample_count;
      Some (st, nat consumed, (case p of None \<Rightarrow> s | Some t \<Rightarrow> t))
    }"

definition engine_finish ::
  "('f, 'k, 'o, 'a, 'c) runtime \<Rightarrow> ('f, 'k, 'o, 'a, 'c) stream \<Rightarrow> (public_status \<times> ('f, 'k, 'o, 'a, 'c) stream) option" where
  "engine_finish rt s =
    do { (st, p) \<leftarrow> public_finish rt None (Some s); Some (st, (case p of None \<Rightarrow> s | Some t \<Rightarrow> t)) }"

definition engine_cancel ::
  "('f, 'k, 'o, 'a, 'c) stream \<Rightarrow> (public_status \<times> ('f, 'k, 'o, 'a, 'c) stream) option" where
  "engine_cancel s =
    do { (st, p) \<leftarrow> public_cancel None (Some s); Some (st, (case p of None \<Rightarrow> s | Some t \<Rightarrow> t)) }"

definition engine_state :: "('f, 'k, 'o, 'a, 'c) stream \<Rightarrow> public_state" where
  "engine_state s = public_get_state (Some s)"

text \<open>The two calls for the transcript; what is returned ends at the first zero byte.\<close>

definition engine_final_text :: "('f, 'k, 'o, 'a, 'c) stream \<Rightarrow> engine_error + string" where
  "engine_final_text s =
    (case public_get_final_text (Some s) None 0 of
       Some (PS_ok, _, required) \<Rightarrow>
         if required = 0 then Inl (PS_internal_error, ''the final transcript size is invalid'')
         else (case public_get_final_text (Some s) (Some (replicate (nat required) (CHR 0x00))) (nat required) of
                 Some (PS_ok, Some buffer, _) \<Rightarrow> Inr (takeWhile (\<lambda>c. c \<noteq> CHR 0x00) buffer)
               | Some (st, _, _) \<Rightarrow> Inl (st, engine_last_error s)
               | None \<Rightarrow> Inl (PS_internal_error, []))
     | Some (st, _, _) \<Rightarrow> Inl (st, engine_last_error s)
     | None \<Rightarrow> Inl (PS_internal_error, []))"

text \<open>The metrics query is a parameter: its fields come from the telemetry.\<close>

definition capi_ops ::
  "('f, 'k, 'o, 'a, 'c) runtime \<Rightarrow> (('f, 'k, 'o, 'a, 'c) stream \<Rightarrow> stream_metrics) \<Rightarrow> ('f, 'k, 'o, 'a, 'c) stream engine_ops" where
  "capi_ops rt metrics =
    \<lparr> eo_feed = engine_feed rt, eo_poll = engine_poll, eo_finish = engine_finish rt, eo_cancel = engine_cancel,
      eo_state = engine_state, eo_final_text = engine_final_text, eo_metrics = (\<lambda>s. Inr (metrics s)),
      eo_last_error = engine_last_error \<rparr>"

lemma capi_ops_simps [simp]:
  "eo_feed (capi_ops rt m) = engine_feed rt" "eo_poll (capi_ops rt m) = engine_poll" "eo_finish (capi_ops rt m) = engine_finish rt"
  "eo_cancel (capi_ops rt m) = engine_cancel" "eo_state (capi_ops rt m) = engine_state"
  "eo_final_text (capi_ops rt m) = engine_final_text" "eo_metrics (capi_ops rt m) = (\<lambda>s. Inr (m s))"
  "eo_last_error (capi_ops rt m) = engine_last_error"
  by (simp_all add: capi_ops_def)

section \<open>The batch job\<close>

record batch_result =
  bt_ok :: bool
  bt_cancelled :: bool
  bt_status :: public_status
  bt_text :: string
  bt_detail :: string
  bt_metrics :: "stream_metrics option"
  bt_token_count :: int

definition new_result :: batch_result where
  "new_result = \<lparr> bt_ok = False, bt_cancelled = False, bt_status = PS_internal_error, bt_text = [], bt_detail = [],
     bt_metrics = None, bt_token_count = 0 \<rparr>"

record 's batch_job =
  bj_stream :: 's
  bj_checks :: nat
  bj_result :: batch_result
  bj_fed :: "int list"
  bj_events :: "public_event list"

definition new_job :: "'s \<Rightarrow> 's batch_job" where
  "new_job s = \<lparr> bj_stream = s, bj_checks = 0, bj_result = new_result, bj_fed = [], bj_events = [] \<rparr>"

definition set_result :: "(batch_result \<Rightarrow> batch_result) \<Rightarrow> 's batch_job \<Rightarrow> 's batch_job" where
  "set_result f j = j \<lparr> bj_result := f (bj_result j) \<rparr>"

definition failed_with :: "'s engine_ops \<Rightarrow> public_status \<Rightarrow> 's batch_job \<Rightarrow> 's batch_job" where
  "failed_with ops st j = set_result (\<lambda>r. r \<lparr> bt_status := st, bt_detail := eo_last_error ops (bj_stream j) \<rparr>) j"

text \<open>One reading of the flag, and what a job does when it is set.\<close>

definition check_cancelled :: "(nat \<Rightarrow> bool) \<Rightarrow> 's batch_job \<Rightarrow> bool \<times> 's batch_job" where
  "check_cancelled obs j = (obs (bj_checks j), j \<lparr> bj_checks := bj_checks j + 1 \<rparr>)"

definition cancel_job :: "'s engine_ops \<Rightarrow> 's batch_job \<Rightarrow> 's batch_job option" where
  "cancel_job ops j =
    do {
      (_, s) \<leftarrow> eo_cancel ops (bj_stream j);
      Some (set_result (\<lambda>r. r \<lparr> bt_cancelled := True, bt_status := PS_cancelled \<rparr>) (j \<lparr> bj_stream := s \<rparr>))
    }"

definition token_type :: int where "token_type = event_type_code Ev_token"
definition error_type :: int where "error_type = event_type_code Ev_error"

text \<open>What is done with the answer of a poll: stop with a flag, or go on.\<close>

definition drain_event :: "'s engine_ops \<Rightarrow> public_status \<Rightarrow> public_event \<Rightarrow> 's batch_job \<Rightarrow> (bool \<times> 's batch_job) + 's batch_job" where
  "drain_event ops st e j =
    (if st = PS_not_ready then Inl (True, j)
     else if st \<noteq> PS_ok then Inl (False, failed_with ops st j)
     else if pe_type e = token_type then Inr (set_result (\<lambda>r. r \<lparr> bt_token_count := u64 (bt_token_count r + 1) \<rparr>) j)
     else if pe_type e = error_type
     then Inl (False, set_result (\<lambda>r. r \<lparr> bt_status := pe_status e, bt_detail := take (pe_text_length e) (pe_text e),
                                          bt_cancelled := (pe_status e = PS_cancelled) \<rparr>) j)
     else Inr j)"

definition polled :: "public_status \<Rightarrow> public_event \<Rightarrow> 's \<Rightarrow> 's batch_job \<Rightarrow> 's batch_job" where
  "polled st e s j = j \<lparr> bj_stream := s, bj_events := bj_events j @ (if st = PS_ok then [e] else []) \<rparr>"

partial_function (option) batch_drain :: "'s engine_ops \<Rightarrow> (nat \<Rightarrow> bool) \<Rightarrow> 's batch_job \<Rightarrow> (bool \<times> 's batch_job) option" where
  "batch_drain ops obs j =
    (let (cancelled, j0) = check_cancelled obs j in
     if cancelled then do { j1 \<leftarrow> cancel_job ops j0; Some (False, j1) }
     else do {
       (st, e, s) \<leftarrow> eo_poll ops (bj_stream j0);
       (case drain_event ops st e (polled st e s j0) of Inl r \<Rightarrow> Some r | Inr j1 \<Rightarrow> batch_drain ops obs j1)
     })"

partial_function (option) batch_resume :: "'s engine_ops \<Rightarrow> (nat \<Rightarrow> bool) \<Rightarrow> 's batch_job \<Rightarrow> (bool \<times> 's batch_job) option" where
  "batch_resume ops obs j =
    do {
      (drained, j1) \<leftarrow> batch_drain ops obs j;
      (if \<not> drained then Some (False, j1)
       else do {
         (st, consumed, s) \<leftarrow> eo_feed ops None 0 (bj_stream j1);
         (let j2 = j1 \<lparr> bj_stream := s \<rparr> in
          if consumed \<noteq> 0
          then Some (False, set_result (\<lambda>r. r \<lparr> bt_status := PS_internal_error,
                                              bt_detail := ''zero-length resume consumed audio'' \<rparr>) j2)
          else if st = PS_queue_full then batch_resume ops obs j2
          else if st \<noteq> PS_ok then Some (False, failed_with ops st j2)
          else batch_drain ops obs j2)
       })
    }"

text \<open>The inner loop over one chunk: its rest.\<close>

partial_function (option) batch_feed_chunk ::
  "'s engine_ops \<Rightarrow> (nat \<Rightarrow> bool) \<Rightarrow> int list \<Rightarrow> 's batch_job \<Rightarrow> (bool \<times> 's batch_job) option" where
  "batch_feed_chunk ops obs chunk j =
    (if chunk = [] then Some (True, j)
     else do {
       (st, consumed, s) \<leftarrow> eo_feed ops (Some chunk) (length chunk) (bj_stream j);
       (drained, j1) \<leftarrow> batch_drain ops obs (j \<lparr> bj_stream := s, bj_fed := bj_fed j @ take consumed chunk \<rparr>);
       (if \<not> drained then Some (False, j1)
        else if st = PS_queue_full
        then do {
          (resumed, j2) \<leftarrow> batch_resume ops obs j1;
          (if \<not> resumed then Some (False, j2) else batch_feed_chunk ops obs (drop consumed chunk) j2)
        }
        else if st \<noteq> PS_ok \<or> consumed = 0 \<and> drop consumed chunk \<noteq> []
        then Some (False, failed_with ops (if st = PS_ok then PS_internal_error else st) j1)
        else batch_feed_chunk ops obs (drop consumed chunk) j1)
     })"

definition batch_chunk_samples :: nat where "batch_chunk_samples = 16000"

partial_function (option) batch_feed_all ::
  "'s engine_ops \<Rightarrow> (nat \<Rightarrow> bool) \<Rightarrow> int list \<Rightarrow> 's batch_job \<Rightarrow> (bool \<times> 's batch_job) option" where
  "batch_feed_all ops obs samples j =
    (if samples = [] then Some (True, j)
     else let (cancelled, j0) = check_cancelled obs j in
     if cancelled then do { j1 \<leftarrow> cancel_job ops j0; Some (False, j1) }
     else do {
       (fed, j1) \<leftarrow> batch_feed_chunk ops obs (take batch_chunk_samples samples) j0;
       (if \<not> fed then Some (False, j1) else batch_feed_all ops obs (drop batch_chunk_samples samples) j1)
     })"

partial_function (option) batch_finish :: "'s engine_ops \<Rightarrow> (nat \<Rightarrow> bool) \<Rightarrow> 's batch_job \<Rightarrow> (bool \<times> 's batch_job) option" where
  "batch_finish ops obs j =
    (let (cancelled, j0) = check_cancelled obs j in
     if cancelled then do { j1 \<leftarrow> cancel_job ops j0; Some (False, j1) }
     else do {
       (st, s) \<leftarrow> eo_finish ops (bj_stream j0);
       (let j1 = j0 \<lparr> bj_stream := s \<rparr> in
        if st = PS_queue_full
        then do { (resumed, j2) \<leftarrow> batch_resume ops obs j1; (if \<not> resumed then Some (False, j2) else batch_finish ops obs j2) }
        else if st \<noteq> PS_ok then Some (False, failed_with ops st j1)
        else Some (True, j1))
     })"

definition batch_collect :: "'s engine_ops \<Rightarrow> 's batch_job \<Rightarrow> 's batch_job" where
  "batch_collect ops j =
    (if eo_state ops (bj_stream j) \<noteq> Api_completed
     then set_result (\<lambda>r. r \<lparr> bt_status := PS_internal_error, bt_detail := ''public stream did not reach COMPLETED'' \<rparr>) j
     else case eo_final_text ops (bj_stream j) of
            Inl (st, detail) \<Rightarrow> set_result (\<lambda>r. r \<lparr> bt_status := st, bt_detail := detail \<rparr>) j
          | Inr transcript \<Rightarrow>
              (case eo_metrics ops (bj_stream j) of
                 Inl (st, detail) \<Rightarrow> set_result (\<lambda>r. r \<lparr> bt_text := transcript, bt_status := st, bt_detail := detail \<rparr>) j
               | Inr metrics \<Rightarrow> set_result (\<lambda>r. r \<lparr> bt_text := transcript, bt_metrics := Some metrics, bt_ok := True,
                                                   bt_status := PS_ok \<rparr>) j))"

text \<open>The job after its stream was made.\<close>

definition transcribe_on :: "'s engine_ops \<Rightarrow> (nat \<Rightarrow> bool) \<Rightarrow> int list \<Rightarrow> 's \<Rightarrow> 's batch_job option" where
  "transcribe_on ops obs samples s =
    do {
      (fed, j1) \<leftarrow> batch_feed_all ops obs samples (new_job s);
      (if \<not> fed then Some j1
       else do {
         (finished, j2) \<leftarrow> batch_finish ops obs j1;
         (if \<not> finished then Some j2
          else do {
            (drained, j3) \<leftarrow> batch_drain ops obs j2;
            Some (if \<not> drained then j3 else batch_collect ops j3)
          })
       })
    }"

definition transcribe_batch ::
  "'s engine_ops \<Rightarrow> (nat \<Rightarrow> bool) \<Rightarrow> engine_error + 's \<Rightarrow> int list \<Rightarrow> batch_result option" where
  "transcribe_batch ops obs created samples =
    (case created of
       Inl (st, detail) \<Rightarrow> Some (new_result \<lparr> bt_status := st, bt_detail := detail \<rparr>)
     | Inr s \<Rightarrow> map_option bj_result (transcribe_on ops obs samples s))"

declare batch_drain.simps [code] batch_resume.simps [code] batch_feed_chunk.simps [code] batch_feed_all.simps [code]
  batch_finish.simps [code]

end
