(* ===== verification/RealtimeWorker.thy ===== *)
theory RealtimeWorker
  imports EngineJobs RealtimeSession
begin

text \<open>The inference worker of a realtime session (\<open>server/realtime-session.cpp\<close>): the loop that takes audio from the
queue, feeds the engine, turns its events into messages and watches the lag.  The worker is written over the engine
operations.  What the other thread does is an argument: the n-th reading of the cancellation reason, the n-th answer of
\<open>enqueue_from_worker\<close> and the n-th result of the queue.  Their definitions over the session are in
\<open>RealtimeSession\<close>.  The backlog is compared in exact arithmetic.\<close>

section \<open>State\<close>

record terminal_events =
  te_final_sequence :: int
  te_final_audio_end_ms :: int
  te_completed_sequence :: int
  te_final_seen :: bool
  te_completed_seen :: bool
  te_token_count :: int

definition no_terminal :: terminal_events where
  "no_terminal = \<lparr> te_final_sequence = 0, te_final_audio_end_ms = 0, te_completed_sequence = 0, te_final_seen = False,
     te_completed_seen = False, te_token_count = 0 \<rparr>"

record worker_env =
  we_configuration :: realtime_configuration
  we_soft_lag_ms :: int
  we_hard_lag_ms :: int
  we_pop :: "nat \<Rightarrow> pop_result"
  we_reason :: "nat \<Rightarrow> cancel_reason"
  we_accepts :: "nat \<Rightarrow> bool"
  we_received :: "nat \<Rightarrow> int"
  we_second_passed :: "nat \<Rightarrow> bool"
  we_factor :: "stream_metrics \<Rightarrow> real"

text \<open>The counters say which reading is next; \<open>wj_out\<close> is what was accepted for sending, \<open>wj_closes\<close> the closes
asked for.\<close>

record 's worker_job =
  wj_stream :: 's
  wj_pops :: nat
  wj_checks :: nat
  wj_calls :: nat
  wj_terminal :: terminal_events
  wj_warning_active :: bool
  wj_out :: "(json \<times> outbound_kind) list"
  wj_closes :: "close_code list"
  wj_fed :: "int list"
  wj_events :: "public_event list"

definition new_worker :: "'s \<Rightarrow> 's worker_job" where
  "new_worker s = \<lparr> wj_stream = s, wj_pops = 0, wj_checks = 0, wj_calls = 0, wj_terminal = no_terminal,
     wj_warning_active = False, wj_out = [], wj_closes = [], wj_fed = [], wj_events = [] \<rparr>"

text \<open>How a step of the worker ends: it goes on, it returns \<open>false\<close>, or it throws.\<close>

datatype step_end = Go_on | Stop_worker | Throw engine_error

definition read_reason :: "worker_env \<Rightarrow> 's worker_job \<Rightarrow> cancel_reason \<times> 's worker_job" where
  "read_reason env j = (we_reason env (wj_checks j), j \<lparr> wj_checks := wj_checks j + 1 \<rparr>)"

definition worker_enqueue :: "worker_env \<Rightarrow> json \<Rightarrow> outbound_kind \<Rightarrow> 's worker_job \<Rightarrow> bool \<times> 's worker_job" where
  "worker_enqueue env message kind j =
    (let ok = we_accepts env (wj_calls j)
     in (ok, j \<lparr> wj_calls := wj_calls j + 1, wj_out := wj_out j @ (if ok then [(message, kind)] else []) \<rparr>))"

definition ask_close :: "close_code \<Rightarrow> 's worker_job \<Rightarrow> 's worker_job" where
  "ask_close code j = j \<lparr> wj_closes := wj_closes j @ [code] \<rparr>"

definition set_terminal :: "(terminal_events \<Rightarrow> terminal_events) \<Rightarrow> 's worker_job \<Rightarrow> 's worker_job" where
  "set_terminal f j = j \<lparr> wj_terminal := f (wj_terminal j) \<rparr>"

section \<open>Events\<close>

definition no_event_type :: int where "no_event_type = 0"
definition partial_type :: int where "partial_type = event_type_code Ev_partial_text"
definition final_type :: int where "final_type = event_type_code Ev_final_text"
definition completed_type :: int where "completed_type = event_type_code Ev_completed"

definition accept_or_stop :: "bool \<times> 's worker_job \<Rightarrow> step_end \<times> 's worker_job" where
  "accept_or_stop r = (if fst r then Go_on else Stop_worker, snd r)"

definition handle_event :: "worker_env \<Rightarrow> public_event \<Rightarrow> 's worker_job \<Rightarrow> step_end \<times> 's worker_job" where
  "handle_event env e j =
    (if pe_type e = token_type
     then let j1 = set_terminal (\<lambda>t. t \<lparr> te_token_count := u64 (te_token_count t + 1) \<rparr>) j
          in if rc_token_events (we_configuration env) then accept_or_stop (worker_enqueue env (token_event_json e) Ob_token j1)
             else (Go_on, j1)
     else if pe_type e = partial_type
     then if rc_partial_events (we_configuration env) then accept_or_stop (worker_enqueue env (partial_event_json e) Ob_partial j)
          else (Go_on, j)
     else if pe_type e = final_type
     then (Go_on, set_terminal (\<lambda>t. t \<lparr> te_final_seen := True, te_final_sequence := pe_sequence e,
                                         te_final_audio_end_ms := pe_audio_end_ms e \<rparr>) j)
     else if pe_type e = completed_type
     then (Go_on, set_terminal (\<lambda>t. t \<lparr> te_completed_seen := True, te_completed_sequence := pe_sequence e \<rparr>) j)
     else if pe_type e = error_type
     then let failure = Throw (pe_status e, take (pe_text_length e) (pe_text e))
          in if pe_status e = PS_cancelled
             then let (reason, j1) = read_reason env j
                  in if cancel_requested reason then (Stop_worker, j1) else (failure, j1)
             else (failure, j)
     else if pe_type e = no_event_type
     then (Throw (PS_internal_error, ''public stream returned an empty event''), j)
     else (Go_on, j))"

definition note_poll :: "public_status \<Rightarrow> public_event \<Rightarrow> 's \<Rightarrow> 's worker_job \<Rightarrow> 's worker_job" where
  "note_poll st e s j = j \<lparr> wj_stream := s, wj_events := wj_events j @ (if st = PS_ok then [e] else []) \<rparr>"

text \<open>One turn of the loop of \<open>drain_events\<close>: \<open>Inl\<close> ends it.\<close>

definition drain_turn ::
  "'s engine_ops \<Rightarrow> worker_env \<Rightarrow> 's worker_job \<Rightarrow> (step_end \<times> 's worker_job + 's worker_job) option" where
  "drain_turn ops env j =
    (let (reason, j0) = read_reason env j in
     if cancel_requested reason then Some (Inl (Stop_worker, j0))
     else do {
       (st, e, s) \<leftarrow> eo_poll ops (wj_stream j0);
       (let j1 = note_poll st e s j0 in
        Some (if st = PS_not_ready then Inl (Go_on, j1)
              else if st \<noteq> PS_ok then Inl (Throw (st, eo_last_error ops s), j1)
              else case handle_event env e j1 of (Go_on, j2) \<Rightarrow> Inr j2 | r \<Rightarrow> Inl r))
     })"

partial_function (option) worker_drain :: "'s engine_ops \<Rightarrow> worker_env \<Rightarrow> 's worker_job \<Rightarrow> (step_end \<times> 's worker_job) option" where
  "worker_drain ops env j =
    do { turn \<leftarrow> drain_turn ops env j; (case turn of Inl r \<Rightarrow> Some r | Inr j1 \<Rightarrow> worker_drain ops env j1) }"

partial_function (option) worker_resume :: "'s engine_ops \<Rightarrow> worker_env \<Rightarrow> 's worker_job \<Rightarrow> (step_end \<times> 's worker_job) option" where
  "worker_resume ops env j =
    (let (reason, j0) = read_reason env j in
     if cancel_requested reason then Some (Stop_worker, j0)
     else do {
       (drained, j1) \<leftarrow> worker_drain ops env j0;
       (if drained \<noteq> Go_on then Some (drained, j1)
        else do {
          (st, consumed, s) \<leftarrow> eo_feed ops None 0 (wj_stream j1);
          (let j2 = j1 \<lparr> wj_stream := s \<rparr> in
           if consumed \<noteq> 0 then Some (Throw (PS_internal_error, ''zero-length resume consumed audio''), j2)
           else if st = PS_queue_full then worker_resume ops env j2
           else if st \<noteq> PS_ok then Some (Throw (st, eo_last_error ops s), j2)
           else worker_drain ops env j2)
        })
     })"

section \<open>Audio\<close>

partial_function (option) worker_feed ::
  "'s engine_ops \<Rightarrow> worker_env \<Rightarrow> int list \<Rightarrow> 's worker_job \<Rightarrow> (step_end \<times> 's worker_job) option" where
  "worker_feed ops env samples j =
    (if samples = [] then Some (Go_on, j)
     else let (reason, j0) = read_reason env j in
     if cancel_requested reason then Some (Stop_worker, j0)
     else do {
       (st, consumed, s) \<leftarrow> eo_feed ops (Some samples) (length samples) (wj_stream j0);
       (drained, j1) \<leftarrow> worker_drain ops env (j0 \<lparr> wj_stream := s, wj_fed := wj_fed j0 @ take consumed samples \<rparr>);
       (if drained \<noteq> Go_on then Some (drained, j1)
        else if st = PS_queue_full
        then do {
          (resumed, j2) \<leftarrow> worker_resume ops env j1;
          (if resumed \<noteq> Go_on then Some (resumed, j2) else worker_feed ops env (drop consumed samples) j2)
        }
        else if st \<noteq> PS_ok \<or> consumed = 0 \<and> drop consumed samples \<noteq> []
        then Some (Throw (if st = PS_ok then PS_internal_error else st, eo_last_error ops (wj_stream j1)), j1)
        else worker_feed ops env (drop consumed samples) j1)
     })"

definition backlog_ms :: "int \<Rightarrow> stream_metrics \<Rightarrow> real" where
  "backlog_ms received metrics =
    (let unaccepted = (if sm_audio_samples_accepted metrics < received then received - sm_audio_samples_accepted metrics else 0)
     in max (real_of_int unaccepted * 1000 / 16000) (max 0 (sm_backlog_final_ms metrics)))"

text \<open>The reading of \<open>received_samples\<close> and of the clock are counted with the queue's results: there is one after each
chunk.\<close>

definition observe_lag :: "'s engine_ops \<Rightarrow> worker_env \<Rightarrow> 's worker_job \<Rightarrow> step_end \<times> 's worker_job" where
  "observe_lag ops env j =
    (case eo_metrics ops (wj_stream j) of
       Inl err \<Rightarrow> (Throw err, j)
     | Inr metrics \<Rightarrow>
         let lag = backlog_ms (we_received env (wj_pops j)) metrics in
         if real_of_int (we_hard_lag_ms env) \<le> lag
         then let (_, j1) = worker_enqueue env (realtime_error_json ''realtime_capacity_exceeded''
                                ''The server cannot process this stream within the configured realtime latency limit.'' True)
                              Ob_mandatory j
              in (Stop_worker, ask_close Close_policy_error j1)
         else if real_of_int (we_soft_lag_ms env) \<le> lag
         then if \<not> wj_warning_active j \<or> we_second_passed env (wj_pops j)
              then let (ok, j1) = worker_enqueue env (warning_event_json lag) Ob_mandatory j
                   in if ok then (Go_on, j1 \<lparr> wj_warning_active := True \<rparr>) else (Stop_worker, j1)
              else (Go_on, j)
         else if lag < real_of_int (we_soft_lag_ms env) * 0.75 then (Go_on, j \<lparr> wj_warning_active := False \<rparr>)
         else (Go_on, j))"

text \<open>The request for a capacity cancellation is the session's: the later readings of the reason show it.\<close>

definition handle_worker_cancellation ::
  "'s engine_ops \<Rightarrow> worker_env \<Rightarrow> 's worker_job \<Rightarrow> (step_end \<times> 's worker_job) option" where
  "handle_worker_cancellation ops env j =
    do {
      (_, s) \<leftarrow> eo_cancel ops (wj_stream j);
      (let (reason, j1) = read_reason env (j \<lparr> wj_stream := s \<rparr>) in
       Some (Stop_worker,
         if reason = By_client then ask_close Close_normal (snd (worker_enqueue env cancelled_event_json Ob_mandatory j1))
         else if reason = By_capacity then ask_close Close_policy_error j1
         else j1))
    }"

text \<open>The loop over the queue: \<^const>\<open>Go_on\<close> when the client finished.\<close>

partial_function (option) worker_input :: "'s engine_ops \<Rightarrow> worker_env \<Rightarrow> 's worker_job \<Rightarrow> (step_end \<times> 's worker_job) option" where
  "worker_input ops env j =
    (let pop = we_pop env (wj_pops j); j0 = j \<lparr> wj_pops := wj_pops j + 1 \<rparr>;
         (reason, j1) = (if pop = Pop_cancel then (No_reason, j0) else read_reason env j0) in
     if pop = Pop_cancel \<or> cancel_requested reason then handle_worker_cancellation ops env j1
     else case pop of
       Pop_audio samples \<Rightarrow>
         do {
           (fed, j2) \<leftarrow> worker_feed ops env samples j1;
           (case fed of
              Throw err \<Rightarrow> Some (Throw err, j2)
            | Stop_worker \<Rightarrow>
                (let (reason2, j3) = read_reason env j2
                 in if cancel_requested reason2 then handle_worker_cancellation ops env j3 else Some (Stop_worker, j3))
            | Go_on \<Rightarrow>
                (case observe_lag ops env j2 of
                   (Go_on, j3) \<Rightarrow> worker_input ops env j3
                 | (Stop_worker, j3) \<Rightarrow> handle_worker_cancellation ops env j3
                 | (Throw err, j3) \<Rightarrow> Some (Throw err, j3)))
         }
     | _ \<Rightarrow> Some (Go_on, j1))"

partial_function (option) worker_finish :: "'s engine_ops \<Rightarrow> worker_env \<Rightarrow> 's worker_job \<Rightarrow> (step_end \<times> 's worker_job) option" where
  "worker_finish ops env j =
    (let (reason, j0) = read_reason env j in
     if cancel_requested reason then handle_worker_cancellation ops env j0
     else do {
       (st, s) \<leftarrow> eo_finish ops (wj_stream j0);
       (let j1 = j0 \<lparr> wj_stream := s \<rparr> in
        if st = PS_queue_full
        then do {
          (resumed, j2) \<leftarrow> worker_resume ops env j1;
          (if resumed \<noteq> Go_on then Some (resumed, j2) else worker_finish ops env j2)
        }
        else if st \<noteq> PS_ok then Some (Throw (st, eo_last_error ops s), j1)
        else Some (Go_on, j1))
     })"

section \<open>The worker\<close>

definition worker_failure :: "worker_env \<Rightarrow> string \<Rightarrow> string \<Rightarrow> 's worker_job \<Rightarrow> 's worker_job" where
  "worker_failure env code safe_message j =
    (let (reason, j1) = read_reason env j in
     if cancel_requested reason then j1
     else ask_close Close_internal_error (snd (worker_enqueue env (realtime_error_json code safe_message True) Ob_mandatory j1)))"

text \<open>After the last drain: the terminal messages.\<close>

definition worker_complete :: "'s engine_ops \<Rightarrow> worker_env \<Rightarrow> 's worker_job \<Rightarrow> step_end \<times> 's worker_job" where
  "worker_complete ops env j =
    (let terminal = wj_terminal j in
     if \<not> te_final_seen terminal \<or> \<not> te_completed_seen terminal \<or> eo_state ops (wj_stream j) \<noteq> Api_completed
     then (Throw (PS_internal_error, ''public stream omitted terminal events''), j)
     else case eo_final_text ops (wj_stream j) of
       Inl err \<Rightarrow> (Throw err, j)
     | Inr transcript \<Rightarrow>
       (case eo_metrics ops (wj_stream j) of
          Inl err \<Rightarrow> (Throw err, j)
        | Inr metrics \<Rightarrow>
            let (ok, j1) = worker_enqueue env (final_event_json (te_final_sequence terminal) transcript (te_final_audio_end_ms terminal))
                             Ob_mandatory j;
                (ok2, j2) = (if ok then worker_enqueue env (completed_event_json (te_completed_sequence terminal) metrics
                                                       (we_factor env metrics)) Ob_mandatory j1
                             else (False, j1))
            in if ok2 then (Go_on, ask_close Close_normal j2)
               else let (reason, j3) = read_reason env j2
                    in (Stop_worker, if cancel_requested reason then j3
                                     else worker_failure env ''internal_error''
                                            ''The final transcript exceeds the server event limit.'' j3)))"

definition run_worker :: "'s engine_ops \<Rightarrow> worker_env \<Rightarrow> 's worker_job \<Rightarrow> (step_end \<times> 's worker_job) option" where
  "run_worker ops env j =
    do {
      (input, j1) \<leftarrow> worker_input ops env j;
      (if input \<noteq> Go_on then Some (input, j1)
       else do {
         (finished, j2) \<leftarrow> worker_finish ops env j1;
         (if finished \<noteq> Go_on then Some (finished, j2)
          else do {
            (drained, j3) \<leftarrow> worker_drain ops env j2;
            Some (if drained \<noteq> Go_on then (drained, j3) else worker_complete ops env j3)
          })
       })
    }"

text \<open>The thread's function on a created stream: what it throws is caught and reported.\<close>

definition inference_worker :: "'s engine_ops \<Rightarrow> worker_env \<Rightarrow> 's \<Rightarrow> (step_end \<times> 's worker_job) option" where
  "inference_worker ops env s =
    map_option (\<lambda>(r, j).
        (r, case r of
              Throw (st, _) \<Rightarrow> worker_failure env (api_error_code st) (safe_status_message st) j
            | _ \<Rightarrow> j))
      (run_worker ops env (new_worker s))"

end
