(* ===== verification/EngineJobsCorrect.thy ===== *)
theory EngineJobsCorrect
  imports EngineJobs CApiCorrect
begin

text \<open>What a batch job promises, proved once for any engine that keeps its contract and then for the public
interface.\<close>

section \<open>The contract of the engine's operations\<close>

lemma take_itself [simp]: "\<exists>k. xs = take k xs"
  by (rule exI [of _ "length xs"]) simp

lemma u64_succ: "u64 (u64 a + 1) = u64 (a + 1)" and u64_succ2: "u64 (1 + u64 a) = u64 (1 + a)"
  by (simp_all add: u64_def take_bit_eq_mod mod_simps)

definition token_events :: "public_event list \<Rightarrow> nat" where
  "token_events evs = length (filter (\<lambda>e. pe_type e = token_type) evs)"

lemma token_events_simps [simp]:
  "token_events [] = 0"
  "token_events (evs @ [e]) = token_events evs + (if pe_type e = token_type then 1 else 0)"
  by (simp_all add: token_events_def)

locale engine_contract =
  fixes ops :: "'s engine_ops"
    and held :: "nat \<Rightarrow> public_event list \<Rightarrow> 's \<Rightarrow> bool"
    and drained :: "'s \<Rightarrow> bool"
  assumes feed: "held n evs s \<Longrightarrow> eo_feed ops (Some chunk) (length chunk) s = Some (st, consumed, t) \<Longrightarrow>
      held (n + consumed) evs t \<and> consumed \<le> length chunk"
    and resume: "held n evs s \<Longrightarrow> eo_feed ops None 0 s = Some (st, consumed, t) \<Longrightarrow> held n evs t"
    and poll: "held n evs s \<Longrightarrow> eo_poll ops s = Some (st, e, t) \<Longrightarrow>
      held n (evs @ (if st = PS_ok then [e] else [])) t \<and> (st = PS_not_ready \<longrightarrow> drained t)"
    and finish: "held n evs s \<Longrightarrow> eo_finish ops s = Some (st, t) \<Longrightarrow> held n evs t"
    and cancel: "held n evs s \<Longrightarrow> eo_cancel ops s = Some (st, t) \<Longrightarrow> held n evs t"
begin

text \<open>Between two steps of a job.\<close>

definition job_ok :: "'s batch_job \<Rightarrow> bool" where
  "job_ok j \<longleftrightarrow> held (length (bj_fed j)) (bj_events j) (bj_stream j) \<and>
    bt_token_count (bj_result j) = u64 (int (token_events (bj_events j))) \<and>
    \<not> bt_ok (bj_result j) \<and> bt_text (bj_result j) = [] \<and> bt_metrics (bj_result j) = None \<and>
    (bt_cancelled (bj_result j) \<longrightarrow> bt_status (bj_result j) = PS_cancelled)"

text \<open>A step that ended with a flag: audio fed is unchanged, and a successful one did not cancel.\<close>

definition kept :: "'s batch_job \<Rightarrow> bool \<times> 's batch_job \<Rightarrow> bool" where
  "kept j r \<longleftrightarrow> job_ok (snd r) \<and> bj_fed (snd r) = bj_fed j \<and> bj_checks j \<le> bj_checks (snd r) \<and>
    (fst r \<longrightarrow> bt_cancelled (bj_result (snd r)) = bt_cancelled (bj_result j))"

lemma kept_trans: "kept j (b, k) \<Longrightarrow> b \<Longrightarrow> kept k r \<Longrightarrow> kept j r"
  by (auto simp: kept_def)

lemma keptI: "kept k r \<Longrightarrow> bj_fed k = bj_fed j \<Longrightarrow> bj_checks j \<le> bj_checks k \<Longrightarrow>
    bt_cancelled (bj_result k) = bt_cancelled (bj_result j) \<Longrightarrow> kept j r"
  by (auto simp: kept_def)

lemma cancel_job_kept:
  assumes "job_ok j" "cancel_job ops (j \<lparr> bj_checks := c \<rparr>) = Some k" "bj_checks j \<le> c"
  shows "kept j (False, k)"
proof -
  obtain st t where "eo_cancel ops (bj_stream j) = Some (st, t)"
    and k: "k = set_result (\<lambda>r. r \<lparr> bt_cancelled := True, bt_status := PS_cancelled \<rparr>) (j \<lparr> bj_checks := c, bj_stream := t \<rparr>)"
    using assms(2) by (auto simp: cancel_job_def split: Option.bind_splits)
  then have "held (length (bj_fed j)) (bj_events j) t" using assms(1) cancel by (auto simp: job_ok_def)
  then show ?thesis using assms(1,3) by (simp add: k kept_def job_ok_def set_result_def)
qed

lemma failed_with_ok: "job_ok j \<Longrightarrow> \<not> bt_cancelled (bj_result j) \<Longrightarrow> job_ok (failed_with ops st j)"
  by (simp add: failed_with_def set_result_def job_ok_def)

lemma failed_with_fields [simp]:
  "bj_fed (failed_with ops st j) = bj_fed j" "bj_checks (failed_with ops st j) = bj_checks j"
  by (simp_all add: failed_with_def set_result_def)

lemma drain_event_ok:
  assumes "job_ok j" "\<not> bt_cancelled (bj_result j)" "eo_poll ops (bj_stream j) = Some (st, e, s)" "bj_checks j \<le> c"
  shows "case drain_event ops st e (polled st e s (j \<lparr> bj_checks := c \<rparr>)) of
      Inl r \<Rightarrow> kept j r \<and> (fst r \<longrightarrow> drained (bj_stream (snd r)))
    | Inr k \<Rightarrow> job_ok k \<and> \<not> bt_cancelled (bj_result k) \<and> bj_fed k = bj_fed j \<and> bj_checks k = c"
proof -
  have p: "held (length (bj_fed j)) (bj_events j @ (if st = PS_ok then [e] else [])) s" "st = PS_not_ready \<longrightarrow> drained s"
    using poll assms(1,3) unfolding job_ok_def by blast+
  show ?thesis
    using assms(1,2,4) p
    by (auto simp: drain_event_def polled_def kept_def job_ok_def set_result_def failed_with_def u64_succ u64_succ2 add.commute
        split: if_splits)
qed

lemma drain_kept:
  assumes "batch_drain ops' obs j = Some r" "ops' = ops" "job_ok j" "\<not> bt_cancelled (bj_result j)"
  shows "kept j r \<and> (fst r \<longrightarrow> drained (bj_stream (snd r)))"
  using assms
proof (induction rule: batch_drain.raw_induct [rotated, consumes 1, case_names step])
  case (step rec ops' obs j r)
  let ?j0 = "j \<lparr> bj_checks := bj_checks j + 1 \<rparr>"
  have ops: "ops' = ops" and j: "job_ok j" "\<not> bt_cancelled (bj_result j)" using step.prems by auto
  show ?case
  proof (cases "obs (bj_checks j)")
    case True
    then obtain k where "cancel_job ops ?j0 = Some k" "r = (False, k)"
      using step.hyps ops by (auto simp: check_cancelled_def split: Option.bind_splits)
    then show ?thesis using cancel_job_kept [OF j(1)] by simp
  next
    case False
    obtain st e s where p: "eo_poll ops (bj_stream j) = Some (st, e, s)"
      "(case drain_event ops st e (polled st e s ?j0) of Inl r \<Rightarrow> Some r | Inr j1 \<Rightarrow> rec ops obs j1) = Some r"
      using step.hyps ops False by (auto simp: check_cancelled_def split: Option.bind_splits)
    show ?thesis
    proof (cases "drain_event ops st e (polled st e s ?j0)")
      case (Inl q)
      then show ?thesis using drain_event_ok [OF j p(1), of "bj_checks j + 1"] p(2) by simp
    next
      case (Inr k)
      then have "job_ok k \<and> \<not> bt_cancelled (bj_result k) \<and> bj_fed k = bj_fed j \<and> bj_checks k = bj_checks j + 1" "rec ops obs k = Some r"
        using drain_event_ok [OF j p(1), of "bj_checks j + 1"] p(2) by simp_all
      then show ?thesis using step.IH [of ops obs k r] j by (auto simp: kept_def)
    qed
  qed
qed

lemma keptD: "kept j r \<Longrightarrow> job_ok (snd r)" "kept j r \<Longrightarrow> fst r \<Longrightarrow> \<not> bt_cancelled (bj_result j) \<Longrightarrow> \<not> bt_cancelled (bj_result (snd r))"
  by (auto simp: kept_def)

lemma resume_kept:
  assumes "batch_resume ops' obs j = Some r" "ops' = ops" "job_ok j" "\<not> bt_cancelled (bj_result j)"
  shows "kept j r"
  using assms
proof (induction rule: batch_resume.raw_induct [rotated, consumes 1, case_names step])
  case (step rec ops' obs j r)
  note j = step.prems(2,3)
  obtain d j1 where d: "batch_drain ops obs j = Some (d, j1)"
    "(if \<not> d then Some (False, j1)
      else do {
        (st, consumed, s) \<leftarrow> eo_feed ops None 0 (bj_stream j1);
        (let j2 = j1 \<lparr> bj_stream := s \<rparr> in
         if consumed \<noteq> 0
         then Some (False, set_result (\<lambda>r. r \<lparr> bt_status := PS_internal_error,
                                             bt_detail := ''zero-length resume consumed audio'' \<rparr>) j2)
         else if st = PS_queue_full then rec ops obs j2
         else if st \<noteq> PS_ok then Some (False, failed_with ops st j2)
         else batch_drain ops obs j2)
      }) = Some r"
    using step.hyps step.prems(1) by (auto split: Option.bind_splits)
  have k: "kept j (d, j1)" using drain_kept [OF d(1) refl j] by simp
  show ?case
  proof (cases d)
    case False
    then show ?thesis using d k by simp
  next
    case True
    then have j1: "job_ok j1" "\<not> bt_cancelled (bj_result j1)" using keptD [OF k] j by simp_all
    obtain st n s where f: "eo_feed ops None 0 (bj_stream j1) = Some (st, n, s)" using d(2) True by (auto split: Option.bind_splits)
    let ?j2 = "j1 \<lparr> bj_stream := s \<rparr>"
    have j2: "job_ok ?j2" "\<not> bt_cancelled (bj_result ?j2)" using j1 resume [OF _ f] by (auto simp: job_ok_def)
    have "kept ?j2 r"
    proof -
      consider "n \<noteq> 0" | "n = 0" "st = PS_queue_full" | "n = 0" "st = PS_ok" | "n = 0" "st \<noteq> PS_ok" "st \<noteq> PS_queue_full" by blast
      then show ?thesis
      proof cases
        case 1
        then have "r = (False, set_result (\<lambda>r. r \<lparr> bt_status := PS_internal_error, bt_detail := ''zero-length resume consumed audio'' \<rparr>) ?j2)"
          using d(2) True f by simp
        then show ?thesis using j2 by (simp add: kept_def job_ok_def set_result_def)
      next
        case 2
        then show ?thesis using d(2) True f step.IH [of ops obs ?j2 r] j2 by simp
      next
        case 3
        then show ?thesis using d(2) True f drain_kept [OF _ refl j2] by simp
      next
        case 4
        then have "r = (False, failed_with ops st ?j2)" using d(2) True f by simp
        then show ?thesis using failed_with_ok [OF j2] by (simp add: kept_def)
      qed
    qed
    then have "kept j1 r" by (simp add: kept_def)
    then show ?thesis using kept_trans [OF k True] by simp
  qed
qed

text \<open>A step that fed at most the samples given to it, and all of them when it succeeded.\<close>

definition fed :: "int list \<Rightarrow> 's batch_job \<Rightarrow> bool \<times> 's batch_job \<Rightarrow> bool" where
  "fed xs j r \<longleftrightarrow> job_ok (snd r) \<and> (\<exists>k. bj_fed (snd r) = bj_fed j @ take k xs) \<and>
    (fst r \<longrightarrow> bj_fed (snd r) = bj_fed j @ xs \<and> \<not> bt_cancelled (bj_result (snd r)))"

lemma fed_after: "bj_fed k = bj_fed j @ take n xs \<Longrightarrow> fed (drop n xs) k r \<Longrightarrow> fed xs j r"
  by (auto simp: fed_def take_add [symmetric])

lemma fed_stopped: "kept k (False, l) \<Longrightarrow> bj_fed k = bj_fed j @ take n xs \<Longrightarrow> fed xs j (False, l)"
  by (auto simp: fed_def kept_def)

lemma chunk_fed:
  assumes "batch_feed_chunk ops' obs chunk j = Some r" "ops' = ops" "job_ok j" "\<not> bt_cancelled (bj_result j)"
  shows "fed chunk j r"
  using assms
proof (induction rule: batch_feed_chunk.raw_induct [rotated, consumes 1, case_names step])
  case (step rec ops' obs chunk j r)
  note j = step.prems(2,3)
  show ?case
  proof (cases "chunk = []")
    case True
    then show ?thesis using step.hyps j by (auto simp: fed_def)
  next
    case False
    obtain st n s where f: "eo_feed ops (Some chunk) (length chunk) (bj_stream j) = Some (st, n, s)"
      using step.hyps step.prems(1) False by (auto split: Option.bind_splits)
    let ?j0 = "j \<lparr> bj_stream := s, bj_fed := bj_fed j @ take n chunk \<rparr>"
    have j0: "job_ok ?j0" "\<not> bt_cancelled (bj_result ?j0)"
      using j feed [OF _ f] by (auto simp: job_ok_def min_absorb2)
    obtain d j1 where d: "batch_drain ops obs ?j0 = Some (d, j1)"
      "(if \<not> d then Some (False, j1)
        else if st = PS_queue_full
        then do {
          (resumed, j2) \<leftarrow> batch_resume ops obs j1;
          (if \<not> resumed then Some (False, j2) else rec ops obs (drop n chunk) j2)
        }
        else if st \<noteq> PS_ok \<or> n = 0 \<and> drop n chunk \<noteq> []
        then Some (False, failed_with ops (if st = PS_ok then PS_internal_error else st) j1)
        else rec ops obs (drop n chunk) j1) = Some r"
      using step.hyps step.prems(1) False f by (auto split: Option.bind_splits)
    have k: "kept ?j0 (d, j1)" using drain_kept [OF d(1) refl j0] by simp
    show ?thesis
    proof (cases d)
      case False
      then show ?thesis using d k fed_stopped [of ?j0 j1 j n chunk] by simp
    next
      case True
      then have j1: "job_ok j1" "\<not> bt_cancelled (bj_result j1)" "bj_fed j1 = bj_fed j @ take n chunk"
        using keptD [OF k] j0(2) k by (simp_all add: kept_def)
      consider "st = PS_queue_full" | "st \<noteq> PS_queue_full" "st \<noteq> PS_ok \<or> n = 0 \<and> drop n chunk \<noteq> []"
        | "st = PS_ok" "\<not> (n = 0 \<and> drop n chunk \<noteq> [])" by blast
      then show ?thesis
      proof cases
        case 1
        obtain b j2 where b: "batch_resume ops obs j1 = Some (b, j2)" "(if \<not> b then Some (False, j2) else rec ops obs (drop n chunk) j2) = Some r"
          using d(2) True 1 by (auto split: Option.bind_splits)
        have k2: "kept j1 (b, j2)" by (rule resume_kept [OF b(1) refl j1(1,2)])
        show ?thesis
        proof (cases b)
          case False
          then show ?thesis using b(2) k2 fed_stopped [OF _ j1(3), of j2] by auto
        next
          case True
          then have "rec ops obs (drop n chunk) j2 = Some r" "job_ok j2" "\<not> bt_cancelled (bj_result j2)" "bj_fed j2 = bj_fed j @ take n chunk"
            using b(2) k2 j1 by (auto simp: kept_def)
          then show ?thesis using step.IH [of ops obs "drop n chunk" j2 r] fed_after by blast
        qed
      next
        case 2
        then have "r = (False, failed_with ops (if st = PS_ok then PS_internal_error else st) j1)" using d(2) True by (auto split: if_splits)
        then show ?thesis using failed_with_ok [OF j1(1,2)] j1(3) by (auto simp: fed_def)
      next
        case 3
        then have "rec ops obs (drop n chunk) j1 = Some r" using d(2) True by (auto split: if_splits)
        then show ?thesis using step.IH [of ops obs "drop n chunk" j1 r] j1 fed_after by blast
      qed
    qed
  qed
qed

lemma all_fed:
  assumes "batch_feed_all ops' obs samples j = Some r" "ops' = ops" "job_ok j" "\<not> bt_cancelled (bj_result j)"
  shows "fed samples j r"
  using assms
proof (induction rule: batch_feed_all.raw_induct [rotated, consumes 1, case_names step])
  case (step rec ops' obs samples j r)
  note j = step.prems(2,3)
  let ?j0 = "j \<lparr> bj_checks := bj_checks j + 1 \<rparr>"
  consider "samples = []" | "samples \<noteq> []" "obs (bj_checks j)" | "samples \<noteq> []" "\<not> obs (bj_checks j)" by blast
  then show ?case
  proof cases
    case 1
    then show ?thesis using step.hyps j by (auto simp: fed_def)
  next
    case 2
    then obtain k where "cancel_job ops ?j0 = Some k" "r = (False, k)"
      using step.hyps step.prems(1) by (auto simp: check_cancelled_def split: Option.bind_splits)
    then show ?thesis using cancel_job_kept [OF j(1)] fed_stopped [of j k j 0 samples] by simp
  next
    case 3
    then obtain b j1 where b: "batch_feed_chunk ops obs (take batch_chunk_samples samples) ?j0 = Some (b, j1)"
      "(if \<not> b then Some (False, j1) else rec ops obs (drop batch_chunk_samples samples) j1) = Some r"
      using step.hyps step.prems(1) by (auto simp: check_cancelled_def split: Option.bind_splits)
    have f: "fed (take batch_chunk_samples samples) ?j0 (b, j1)"
      by (rule chunk_fed [OF b(1) refl]) (use j in \<open>simp_all add: job_ok_def\<close>)
    show ?thesis
    proof (cases b)
      case False
      then show ?thesis using b(2) f by (auto simp: fed_def intro: exI [of _ "min k batch_chunk_samples" for k])
    next
      case True
      then have "rec ops obs (drop batch_chunk_samples samples) j1 = Some r" "job_ok j1" "\<not> bt_cancelled (bj_result j1)"
        "bj_fed j1 = bj_fed j @ take batch_chunk_samples samples"
        using b(2) f by (simp_all add: fed_def)
      then show ?thesis using step.IH [of ops obs "drop batch_chunk_samples samples" j1 r] fed_after by blast
    qed
  qed
qed

lemma finish_kept:
  assumes "batch_finish ops' obs j = Some r" "ops' = ops" "job_ok j" "\<not> bt_cancelled (bj_result j)"
  shows "kept j r"
  using assms
proof (induction rule: batch_finish.raw_induct [rotated, consumes 1, case_names step])
  case (step rec ops' obs j r)
  note j = step.prems(2,3)
  let ?j0 = "j \<lparr> bj_checks := bj_checks j + 1 \<rparr>"
  show ?case
  proof (cases "obs (bj_checks j)")
    case True
    then obtain k where "cancel_job ops ?j0 = Some k" "r = (False, k)"
      using step.hyps step.prems(1) by (auto simp: check_cancelled_def split: Option.bind_splits)
    then show ?thesis using cancel_job_kept [OF j(1)] by simp
  next
    case False
    obtain st s where f: "eo_finish ops (bj_stream j) = Some (st, s)"
      using step.hyps step.prems(1) False by (auto simp: check_cancelled_def split: Option.bind_splits)
    let ?j1 = "?j0 \<lparr> bj_stream := s \<rparr>"
    have j1: "job_ok ?j1" "\<not> bt_cancelled (bj_result ?j1)" using j finish [OF _ f] by (auto simp: job_ok_def)
    have body: "(if st = PS_queue_full
        then do { (resumed, j2) \<leftarrow> batch_resume ops obs ?j1; (if \<not> resumed then Some (False, j2) else rec ops obs j2) }
        else if st \<noteq> PS_ok then Some (False, failed_with ops st ?j1)
        else Some (True, ?j1)) = Some r"
      using step.hyps [unfolded step.prems(1)] False f by (simp add: check_cancelled_def Let_def split: if_split_asm)
    have "kept ?j1 r"
    proof (cases "st = PS_queue_full")
      case True
      obtain b j2 where b: "batch_resume ops obs ?j1 = Some (b, j2)" "(if \<not> b then Some (False, j2) else rec ops obs j2) = Some r"
        using body True by (auto split: Option.bind_splits)
      have k2: "kept ?j1 (b, j2)" by (rule resume_kept [OF b(1) refl j1])
      show ?thesis
      proof (cases b)
        case False
        then show ?thesis using b(2) k2 by auto
      next
        case True
        then have "rec ops obs j2 = Some r" "job_ok j2" "\<not> bt_cancelled (bj_result j2)" using b(2) keptD [OF k2] j1 by simp_all
        then show ?thesis using step.IH [of ops obs j2 r] kept_trans [OF k2 True] by simp
      qed
    next
      case False
      then show ?thesis using body failed_with_ok [OF j1] j1 by (auto simp: kept_def split: if_splits)
    qed
    then show ?thesis by (simp add: kept_def)
  qed
qed

lemma job_exact:
  assumes "transcribe_on ops obs samples s = Some j" "held 0 [] s"
  shows "held (length (bj_fed j)) (bj_events j) (bj_stream j) \<and> (\<exists>k. bj_fed j = take k samples) \<and>
    bt_token_count (bj_result j) = u64 (int (token_events (bj_events j))) \<and>
    (bt_cancelled (bj_result j) \<longrightarrow> bt_status (bj_result j) = PS_cancelled) \<and>
    (bt_ok (bj_result j) \<longrightarrow> bj_fed j = samples \<and> drained (bj_stream j) \<and> eo_state ops (bj_stream j) = Api_completed \<and>
       eo_final_text ops (bj_stream j) = Inr (bt_text (bj_result j)) \<and> \<not> bt_cancelled (bj_result j) \<and> bt_status (bj_result j) = PS_ok)"
proof -
  let ?j0 = "new_job s"
  have j0: "job_ok ?j0" "\<not> bt_cancelled (bj_result ?j0)" "bj_fed ?j0 = []"
    using assms(2) by (simp_all add: job_ok_def new_job_def new_result_def u64_def)
  obtain b1 j1 where s1: "batch_feed_all ops obs samples ?j0 = Some (b1, j1)"
    "(if \<not> b1 then Some j1
      else do {
        (finished, j2) \<leftarrow> batch_finish ops obs j1;
        (if \<not> finished then Some j2
         else do {
           (drained, j3) \<leftarrow> batch_drain ops obs j2;
           Some (if \<not> drained then j3 else batch_collect ops j3)
         })
      }) = Some j"
    using assms(1) by (auto simp: transcribe_on_def split: Option.bind_splits)
  have f1: "fed samples ?j0 (b1, j1)" by (rule all_fed [OF s1(1) refl j0(1,2)])
  have stop: ?thesis if "job_ok j" "\<exists>k. bj_fed j = take k samples"
    using that by (simp add: job_ok_def)
  show ?thesis
  proof (cases b1)
    case False
    then show ?thesis using s1 f1 j0(3) by (intro stop) (auto simp: fed_def)
  next
    case True
    then have j1: "job_ok j1" "\<not> bt_cancelled (bj_result j1)" "bj_fed j1 = samples" using f1 j0(3) by (simp_all add: fed_def)
    obtain b2 j2 where s2: "batch_finish ops obs j1 = Some (b2, j2)"
      "(if \<not> b2 then Some j2
        else do { (drained, j3) \<leftarrow> batch_drain ops obs j2; Some (if \<not> drained then j3 else batch_collect ops j3) }) = Some j"
      using s1(2) True by (auto split: Option.bind_splits)
    have k2: "kept j1 (b2, j2)" by (rule finish_kept [OF s2(1) refl j1(1,2)])
    show ?thesis
    proof (cases b2)
      case False
      then show ?thesis using s2 k2 j1(3) by (intro stop) (auto simp: kept_def)
    next
      case True
      then have j2: "job_ok j2" "\<not> bt_cancelled (bj_result j2)" "bj_fed j2 = samples" using k2 j1 by (simp_all add: kept_def)
      obtain b3 j3 where s3: "batch_drain ops obs j2 = Some (b3, j3)" "j = (if \<not> b3 then j3 else batch_collect ops j3)"
        using s2(2) True by (auto split: Option.bind_splits)
      have k3: "kept j2 (b3, j3)" "b3 \<longrightarrow> drained (bj_stream j3)" using drain_kept [OF s3(1) refl j2(1,2)] by simp_all
      then have j3: "job_ok j3" "bj_fed j3 = samples" "b3 \<longrightarrow> \<not> bt_cancelled (bj_result j3)" using j2 by (simp_all add: kept_def)
      show ?thesis
      proof (cases b3)
        case False
        then show ?thesis using s3 j3 by (intro stop) auto
      next
        case True
        then show ?thesis using s3(2) j3 k3(2)
          by (auto simp: batch_collect_def set_result_def job_ok_def split: sum.splits if_splits)
      qed
    qed
  qed
qed

end

section \<open>The public interface keeps the contract\<close>

definition api_held :: "('f, 'k, 'o, 'a, 'c) runtime \<Rightarrow> nat \<Rightarrow> public_event list \<Rightarrow> ('f, 'k, 'o, 'a, 'c) stream \<Rightarrow> bool" where
  "api_held rt n evs s \<longleftrightarrow> api_trace rt evs s \<and> lc_total_samples_received (st_life s) = int n"

lemma held_inv: "api_held rt n evs s \<Longrightarrow> stream_inv s"
  using api_trace_inv by (auto simp: api_held_def)

lemma engine_feed_held:
  assumes "api_held rt n evs s" "engine_feed rt input k s = Some (st, consumed, t)"
  shows "api_held rt (n + consumed) evs t \<and> consumed \<in> {0, k}"
proof -
  obtain c p where f: "public_feed_pcm16 rt None (Some s) input k = Some (st, c, p)" "consumed = nat c" "t = (case p of None \<Rightarrow> s | Some u \<Rightarrow> u)"
    using assms(2) by (auto simp: engine_feed_def split: Option.bind_splits)
  obtain u where u: "p = Some u" by (rule api_feed_step [OF f(1) held_inv [OF assms(1)]])
  have "api_apply rt (Api_feed input k) s = Some (st, None, t)" using f u by simp
  then have "api_trace rt evs t" using api_trace.call [of rt evs s "Api_feed input k" st None t] assms(1) by (simp add: api_held_def)
  moreover have "c \<in> {0, int k} \<and> lc_total_samples_received (st_life t) = lc_total_samples_received (st_life s) + c"
    using feed_contract [of rt evs s input k st c u] assms(1) f u by (simp add: api_held_def)
  ultimately show ?thesis using assms(1) f(2) by (auto simp: api_held_def)
qed

lemma engine_poll_held:
  assumes "api_held rt n evs s" "engine_poll s = Some (st, e, t)"
  shows "api_held rt n (evs @ (if st = PS_ok then [e] else [])) t \<and> (st = PS_not_ready \<longrightarrow> ev_queue (st_ev t) = [])"
proof -
  obtain mem ev p where q: "public_poll_event (Some s) (Some (zeroed_struct 4160)) = Some (st, mem, ev, p)"
      "e = (case ev of None \<Rightarrow> no_event | Some e \<Rightarrow> e)" "t = (case p of None \<Rightarrow> s | Some u \<Rightarrow> u)"
    using assms(2) by (auto simp: engine_poll_def split: Option.bind_splits)
  have a: "api_apply rt (Api_poll (Some (zeroed_struct 4160))) s = Some (st, ev, the p)" using q(1) by simp
  note c = api_trace.call [OF _ a, of evs]
  have nr: "st = PS_not_ready \<longrightarrow> ev_queue (st_ev s) = []"
    using q(1) by (auto simp: public_poll_event_def stream_poll_event_def Let_def split: Option.bind_splits option.splits if_splits list.splits)
  from api_poll_step [OF q(1)] show ?thesis
  proof (elim disjE exE conjE)
    assume "ev = None" "p = Some s" "st \<noteq> PS_ok"
    then show ?thesis using assms(1) q nr by (simp add: api_held_def)
  next
    fix x qs u
    assume "st = PS_ok" "ev = Some (public_event_of x (poll_seq u))" "p = Some u" "st_life u = st_life s"
    then show ?thesis using assms(1) q c by (simp add: api_held_def)
  qed
qed

lemma engine_call_held:
  assumes "api_held rt n evs s" "public_call what entry None (Some s) = Some (st, p)"
    and "map_option (\<lambda>(st, p). (st, None, the p)) (public_call what entry None (Some s)) = api_apply rt op s" "op \<noteq> Api_reset"
    and "\<And>r u. entry s = Some (r, u) \<Longrightarrow> counters u = counters s"
  shows "api_held rt n evs (case p of None \<Rightarrow> s | Some u \<Rightarrow> u)"
proof -
  obtain r u where u: "entry s = Some (r, u)" "p = Some u" using assms(2) by (auto simp: public_call_def)
  have "api_apply rt op s = Some (st, None, u)" using assms(2,3) u(2) by simp
  then have "api_trace rt evs u" using api_trace.call [of rt evs s op st None u] assms(1,4) by (simp add: api_held_def)
  moreover have "lc_total_samples_received (st_life u) = lc_total_samples_received (st_life s)"
    using assms(5) [OF u(1)] by (simp add: counters_def)
  ultimately show ?thesis using assms(1) u(2) by (simp add: api_held_def)
qed

lemma engine_finish_held:
  assumes "api_held rt n evs s" "engine_finish rt s = Some (st, t)"
  shows "api_held rt n evs t"
proof -
  obtain p where p: "public_call ''finish'' (stream_finish rt) None (Some s) = Some (st, p)" "t = (case p of None \<Rightarrow> s | Some u \<Rightarrow> u)"
    using assms(2) by (auto simp: engine_finish_def public_finish_def split: Option.bind_splits)
  show ?thesis unfolding p(2)
    by (rule engine_call_held [OF assms(1) p(1), where op = Api_finish]) (simp_all add: public_finish_def finish_counters)
qed

lemma engine_cancel_held:
  assumes "api_held rt n evs s" "engine_cancel s = Some (st, t)"
  shows "api_held rt n evs t"
proof -
  obtain p where p: "public_call ''cancel'' stream_cancel None (Some s) = Some (st, p)" "t = (case p of None \<Rightarrow> s | Some u \<Rightarrow> u)"
    using assms(2) by (auto simp: engine_cancel_def public_cancel_def split: Option.bind_splits)
  show ?thesis unfolding p(2)
    by (rule engine_call_held [OF assms(1) p(1), where op = Api_cancel]) (simp_all add: public_cancel_def cancel_counters)
qed

interpretation api: engine_contract "capi_ops rt metrics" "api_held rt" "\<lambda>s. ev_queue (st_ev s) = []"
  by unfold_locales
    (auto simp: capi_ops_def dest: engine_feed_held engine_poll_held engine_finish_held engine_cancel_held)

lemma create_held:
  assumes "engine_create env ctx = Some (Inr s, ctx1)"
  shows "api_held rt 0 [] s"
proof -
  obtain p where c: "public_stream_create env None (Some ctx) (Some (stream_params_bytes 48 stream_default_params)) True = Some (PS_ok, Some s, p)"
    using assms by (auto simp: engine_create_def Let_def split: Option.bind_splits option.splits if_splits)
  have "lc_total_samples_received (st_life s) = 0"
  proof (rule create_parts [OF c])
    fix c0 q s0
    assume s0: "stream_create_from_context env (Some (ap_vocab c0)) (Some (ap_exec c0))
       (default_params \<lparr> sp_sample_rate := i32 (au_sample_rate (pp_audio q)), sp_channels := i32 (au_channels (pp_audio q)) \<rparr>) = Some s0"
      "stream_set_event_capacity s0 (pp_event_queue_capacity q) = (True, s)"
    obtain b where b: "stream_reset b = Some (St_ok, s0)"
      using s0(1) by (auto simp: stream_create_from_context_def split: if_splits option.splits prod.splits status.splits)
    have "lc_total_samples_received (st_life s0) = 0"
      using b by (auto simp: stream_reset_def guarded_def reset_body_def reset_lifecycle_def clear_error_def Let_def split: if_splits)
    then show ?thesis using s0(2) by (auto simp: stream_set_event_capacity_def split: if_splits)
  qed
  moreover have "api_trace rt [] s" using c by (rule api_trace.made)
  ultimately show ?thesis by (simp add: api_held_def)
qed

lemma final_text_exact:
  assumes "engine_final_text s = Inr t"
  shows "t = takeWhile (\<lambda>c. c \<noteq> CHR 0x00) (de_transcript (st_dec s))"
proof -
  let ?t = "de_transcript (st_dec s)"
  have c: "public_get_state (Some s) = Api_completed"
    using assms by (cases "public_get_state (Some s)") (simp_all add: engine_final_text_def public_get_final_text_def)
  have l: "int (length ?t) \<noteq> 2 ^ 64 - 1"
  proof
    assume "int (length ?t) = 2 ^ 64 - 1"
    then show False using assms c by (simp add: engine_final_text_def public_get_final_text_def Let_def)
  qed
  then have "public_get_final_text (Some s) None 0 = Some (PS_ok, None, int (length ?t + 1))"
    using c by (simp add: public_get_final_text_def Let_def)
  moreover have "public_get_final_text (Some s) (Some (replicate (nat (int (length ?t + 1))) (CHR 0x00))) (nat (int (length ?t + 1))) =
      Some (PS_ok, Some (?t @ [CHR 0x00]), int (length ?t + 1))"
    using c l by (simp add: public_get_final_text_def Let_def nat_add_distrib)
  ultimately have "Inr t = (Inr (takeWhile (\<lambda>c. c \<noteq> CHR 0x00) (?t @ [CHR 0x00])) :: engine_error + string)"
    using assms unfolding engine_final_text_def by simp
  then show ?thesis by (simp add: takeWhile_tail)
qed

section \<open>A cancelled job ends\<close>

definition calls_return :: "'s engine_ops \<Rightarrow> bool" where
  "calls_return ops \<longleftrightarrow>
    (\<forall>input k s. eo_feed ops input k s \<noteq> None) \<and> (\<forall>s. eo_poll ops s \<noteq> None) \<and>
    (\<forall>s. eo_finish ops s \<noteq> None) \<and> (\<forall>s. eo_cancel ops s \<noteq> None)"

lemma calls_returnD:
  assumes "calls_return ops"
  shows "\<exists>st n t. eo_feed ops input k s = Some (st, n, t)" "\<exists>st e t. eo_poll ops s = Some (st, e, t)"
    "\<exists>st t. eo_finish ops s = Some (st, t)" "\<exists>st t. eo_cancel ops s = Some (st, t)"
  using assms unfolding calls_return_def by (metis option.exhaust prod_cases3 surj_pair)+

text \<open>A step returned after reading the flag at least once.\<close>

definition returned :: "'s batch_job \<Rightarrow> (bool \<times> 's batch_job) option \<Rightarrow> bool" where
  "returned j r \<longleftrightarrow> (\<exists>b k. r = Some (b, k) \<and> bj_checks j < bj_checks k)"

lemma returned_trans: "bj_checks j \<le> bj_checks k \<Longrightarrow> returned k r \<Longrightarrow> returned j r"
  by (auto simp: returned_def)

lemma set_result_checks [simp]: "bj_checks (set_result f j) = bj_checks j"
  by (simp add: set_result_def)

lemma failed_checks [simp]: "bj_checks (failed_with ops st j) = bj_checks j"
  by (simp add: failed_with_def)

lemma cancel_returns: "calls_return ops \<Longrightarrow> \<exists>k. cancel_job ops j = Some k \<and> bj_checks k = bj_checks j"
  using calls_returnD(4) [of ops "bj_stream j"] by (auto simp: cancel_job_def)

lemma drain_event_checks:
  "case drain_event ops st e j of Inl r \<Rightarrow> bj_checks (snd r) = bj_checks j | Inr k \<Rightarrow> bj_checks k = bj_checks j"
  by (simp add: drain_event_def)

lemma drain_returns:
  assumes "calls_return ops" "\<And>n. N \<le> n \<Longrightarrow> obs n"
  shows "returned j (batch_drain ops obs j)"
proof (induction "N - bj_checks j" arbitrary: j rule: less_induct)
  case less
  let ?j0 = "j \<lparr> bj_checks := bj_checks j + 1 \<rparr>"
  show ?case
  proof (cases "obs (bj_checks j)")
    case True
    then show ?thesis using cancel_returns [OF assms(1), of ?j0]
      by (subst batch_drain.simps) (auto simp: returned_def check_cancelled_def)
  next
    case False
    obtain st e s where p: "eo_poll ops (bj_stream j) = Some (st, e, s)" using calls_returnD(2) [OF assms(1)] by blast
    have "bj_checks j < N" using False assms(2) [of "bj_checks j"] by (meson not_le)
    then have "returned k (batch_drain ops obs k)" if "bj_checks k = bj_checks j + 1" for k using less [of k] that by simp
    moreover have "bj_checks (polled st e s ?j0) = bj_checks j + 1" by (simp add: polled_def)
    ultimately show ?thesis using False p drain_event_checks [where ops = ops and st = st and e = e and j = "polled st e s ?j0"]
      by (subst batch_drain.simps) (auto simp: check_cancelled_def returned_def split: sum.splits, fastforce+)
  qed
qed

lemma drain_stops:
  assumes "calls_return ops" "obs (bj_checks j)" "batch_drain ops obs j = Some (b, k)"
  shows "\<not> b"
  using assms(3,2) cancel_returns [OF assms(1), of "j \<lparr> bj_checks := bj_checks j + 1 \<rparr>"]
  by (subst (asm) batch_drain.simps) (auto simp: check_cancelled_def)

lemma resume_returns:
  assumes "calls_return ops" "\<And>n. N \<le> n \<Longrightarrow> obs n"
  shows "returned j (batch_resume ops obs j)"
proof (induction "N - bj_checks j" arbitrary: j rule: less_induct)
  case less
  note d = drain_returns [of ops N obs, OF assms]
  obtain b j1 where j1: "batch_drain ops obs j = Some (b, j1)" "bj_checks j < bj_checks j1" using d [of j] by (auto simp: returned_def)
  obtain st n s where f: "eo_feed ops None 0 (bj_stream j1) = Some (st, n, s)" using calls_returnD(1) [OF assms(1)] by blast
  let ?j2 = "j1 \<lparr> bj_stream := s \<rparr>"
  have "returned ?j2 (batch_resume ops obs ?j2)" if "b"
  proof -
    have "bj_checks j < N" using drain_stops [OF assms(1) _ j1(1)] assms(2) that by (meson not_le)
    then show ?thesis using less [of ?j2] j1(2) by simp
  qed
  then show ?case using j1 f d [of ?j2]
    by (subst batch_resume.simps) (auto simp: returned_def Let_def)
qed

definition ended :: "'s batch_job \<Rightarrow> (bool \<times> 's batch_job) option \<Rightarrow> bool" where
  "ended j r \<longleftrightarrow> r \<noteq> None \<and> bj_checks j \<le> bj_checks (snd (the r))"

lemma returned_ended: "returned k r \<Longrightarrow> bj_checks j \<le> bj_checks k \<Longrightarrow> ended j r"
  by (auto simp: returned_def ended_def)

lemma chunk_ends:
  assumes "calls_return ops" "\<And>n. N \<le> n \<Longrightarrow> obs n"
  shows "ended j (batch_feed_chunk ops obs chunk j)"
proof (induction "N - bj_checks j" arbitrary: chunk j rule: less_induct)
  case less
  show ?case
  proof (cases "chunk = []")
    case True
    then show ?thesis by (subst batch_feed_chunk.simps) (auto simp: ended_def)
  next
    case False
    obtain st n s where f: "eo_feed ops (Some chunk) (length chunk) (bj_stream j) = Some (st, n, s)"
      using calls_returnD(1) [OF assms(1)] by blast
    let ?j0 = "j \<lparr> bj_stream := s, bj_fed := bj_fed j @ take n chunk \<rparr>"
    obtain b j1 where j1: "batch_drain ops obs ?j0 = Some (b, j1)" "bj_checks j < bj_checks j1"
      using drain_returns [of ops N obs ?j0, OF assms] by (auto simp: returned_def)
    have IH: "ended j (batch_feed_chunk ops obs rest k)" if "b" "bj_checks j < bj_checks k" for k rest
    proof -
      have "\<not> obs (bj_checks ?j0)" using drain_stops [OF assms(1) _ j1(1)] that(1) by blast
      then have "bj_checks j < N" using assms(2) [of "bj_checks j"] by (cases "bj_checks j < N") simp_all
      then have "ended k (batch_feed_chunk ops obs rest k)" using less [of k rest] that(2) by simp
      then show ?thesis using that(2) by (auto simp: ended_def)
    qed
    obtain b2 j2 where j2: "batch_resume ops obs j1 = Some (b2, j2)" "bj_checks j1 < bj_checks j2"
      using resume_returns [of ops N obs j1, OF assms] by (auto simp: returned_def)
    consider "\<not> b" | "b" "st = PS_queue_full" "\<not> b2" | "b" "st = PS_queue_full" "b2"
      | "b" "st \<noteq> PS_queue_full" "st \<noteq> PS_ok \<or> n = 0 \<and> drop n chunk \<noteq> []"
      | "b" "st \<noteq> PS_queue_full" "\<not> (st \<noteq> PS_ok \<or> n = 0 \<and> drop n chunk \<noteq> [])" by blast
    then show ?thesis
      using False f j1 j2 IH [of j1 "drop n chunk"] IH [of j2 "drop n chunk"]
      by cases (simp_all add: batch_feed_chunk.simps [of ops obs chunk j] ended_def, auto)
  qed
qed

lemma all_ends:
  assumes "calls_return ops" "\<And>n. N \<le> n \<Longrightarrow> obs n"
  shows "ended j (batch_feed_all ops obs samples j)"
proof (induction "N - bj_checks j" arbitrary: samples j rule: less_induct)
  case less
  let ?j0 = "j \<lparr> bj_checks := bj_checks j + 1 \<rparr>"
  consider "samples = []" | "samples \<noteq> []" "obs (bj_checks j)" | "samples \<noteq> []" "\<not> obs (bj_checks j)" by blast
  then show ?case
  proof cases
    case 1
    then show ?thesis by (subst batch_feed_all.simps) (auto simp: ended_def)
  next
    case 2
    then show ?thesis using cancel_returns [OF assms(1), of ?j0]
      by (subst batch_feed_all.simps) (auto simp: ended_def check_cancelled_def)
  next
    case 3
    obtain b j1 where j1: "batch_feed_chunk ops obs (take batch_chunk_samples samples) ?j0 = Some (b, j1)" "bj_checks j < bj_checks j1"
      using chunk_ends [of ops N obs ?j0 "take batch_chunk_samples samples", OF assms] by (auto simp: ended_def)
    have "bj_checks j < N" using 3 assms(2) by (meson not_le)
    then have "ended j1 (batch_feed_all ops obs (drop batch_chunk_samples samples) j1)" using less j1(2) by simp
    then show ?thesis using 3 j1
      by (subst batch_feed_all.simps) (auto simp: ended_def check_cancelled_def)
  qed
qed

lemma finish_returns:
  assumes "calls_return ops" "\<And>n. N \<le> n \<Longrightarrow> obs n"
  shows "returned j (batch_finish ops obs j)"
proof (induction "N - bj_checks j" arbitrary: j rule: less_induct)
  case less
  let ?j0 = "j \<lparr> bj_checks := bj_checks j + 1 \<rparr>"
  show ?case
  proof (cases "obs (bj_checks j)")
    case True
    then show ?thesis using cancel_returns [OF assms(1), of ?j0]
      by (subst batch_finish.simps) (auto simp: returned_def check_cancelled_def)
  next
    case False
    obtain st s where f: "eo_finish ops (bj_stream j) = Some (st, s)" using calls_returnD(3) [OF assms(1)] by blast
    let ?j1 = "?j0 \<lparr> bj_stream := s \<rparr>"
    obtain b j2 where j2: "batch_resume ops obs ?j1 = Some (b, j2)" "bj_checks j < bj_checks j2"
      using resume_returns [of ops N obs ?j1, OF assms] by (auto simp: returned_def)
    have "bj_checks j < N" using False assms(2) by (meson not_le)
    then have "returned j2 (batch_finish ops obs j2)" using less j2(2) by simp
    then show ?thesis using False f j2
      by (subst batch_finish.simps) (auto simp: returned_def check_cancelled_def Let_def)
  qed
qed

section \<open>Examples\<close>

lemma event_buffer_header: "read_header (Some (zeroed_struct 4160)) = Some (Some 4160)"
  unfolding zeroed_struct_def by (rule read_header_at [of _ 4160 "replicate (4160 - 8) 0"]) auto

lemma engine_poll_some:
  assumes "ev_queue (st_ev s) = ev # q"
  obtains t where "engine_poll s = Some (PS_ok, public_event_of ev (poll_seq t), t)" "ev_queue (st_ev t) = q" "st_life t = st_life s"
    "st_dec t = st_dec s"
proof -
  obtain s1 where p: "stream_poll_event s = Some (ev, s1)" "ev_queue (st_ev s1) = q" "st_life s1 = st_life s" "st_dec s1 = st_dec s"
    using assms by (auto simp: stream_poll_event_def)
  have l: "4160 \<le> length (zeroed_struct 4160)" by (simp add: zeroed_struct_def)
  obtain mem where "public_poll_event (Some s) (Some (zeroed_struct 4160)) =
      Some (PS_ok, mem, Some (public_event_of ev (poll_seq (poll_advance s1))), Some (poll_advance s1))"
    using poll_ok [OF p(1) event_buffer_header order_refl l] p(1) event_buffer_header l by (simp add: public_poll_event_def Let_def)
  then show thesis using that [of "poll_advance s1"] p(2,3,4) by (simp add: engine_poll_def poll_advance_def)
qed

lemma engine_poll_empty: "ev_queue (st_ev s) = [] \<Longrightarrow> engine_poll s = Some (PS_not_ready, no_event, s)"
  by (simp add: engine_poll_def public_poll_event_def stream_poll_event_def event_buffer_header)

lemma public_event_type [simp]: "pe_type (public_event_of ev n) = event_type_code (ev_type ev)"
  by (simp add: public_event_of_def copy_event_text_def Let_def)

definition example_metrics :: stream_metrics where
  "example_metrics = \<lparr> sm_audio_samples_accepted = 0, sm_audio_duration_ms = 0, sm_pipeline_rtf = 0, sm_backlog_final_ms = 0,
     sm_backlog_slope_ms_per_s = 0 \<rparr>"

lemma ex_flags: "ev_decoder_backpressured (st_ev example_api_stream) = False"
  by (simp_all add: example_api_stream_def stream_create_from_context_def allocate_stream_state_def plain_env_def
      stream_params_check_def default_params_def Let_def stream_reset_def guarded_def new_defs reset_body_def
      reset_lifecycle_def reset_events_def clear_error_def max_events_default_def set_in_operation_def)

lemma example_finish: "\<exists>t. engine_finish echo_runtime example_api_stream = Some (PS_ok, t) \<and>
  List.map ev_type (ev_queue (st_ev t)) = [Ev_final_text, Ev_completed] \<and> public_get_state (Some t) = Api_completed \<and> de_transcript (st_dec t) = []"
  by (simp add: engine_finish_def public_finish_def public_call_def stream_finish_def guarded_def finish_body_def finish_active_def
      finish_ready_def Let_def emit_final_and_completed_def push_event_def ex_flags set_state_def set_in_operation_def clear_error_def
      event_bound_def terminal_event_headroom_def blank_event_def public_get_state_def stream_get_state_def)

lemma example_engine_create: "\<exists>c. engine_create plain_env example_api_context = Some (Inr example_api_stream, c)"
  using example_api_create by (auto simp: engine_create_def example_stream_bytes_def)

section \<open>Properties\<close>

text \<open>C15: A batch job that reports success fed its stream exactly the samples of the recording, in order, polled every
event of the stream to the last, found it completed, counts as many tokens as it polled token events, and returns the
stream's transcript (up to a zero byte); a job that failed or was cancelled fed a prefix.  What was polled is a trace
of the public interface, so the guarantees for polled events hold for it.\<close>

theorem batch_job_exact:
  assumes "engine_create env ctx = Some (Inr s, ctx1)" "transcribe_on (capi_ops rt metrics) obs samples s = Some j"
  shows "api_trace rt (bj_events j) (bj_stream j) \<and> (\<exists>k. bj_fed j = take k samples) \<and>
    lc_total_samples_received (st_life (bj_stream j)) = int (length (bj_fed j)) \<and>
    bt_token_count (bj_result j) = u64 (int (token_events (bj_events j))) \<and>
    (bt_cancelled (bj_result j) \<longrightarrow> bt_status (bj_result j) = PS_cancelled) \<and>
    (bt_ok (bj_result j) \<longrightarrow>
       bj_fed j = samples \<and> ev_queue (st_ev (bj_stream j)) = [] \<and> public_get_state (Some (bj_stream j)) = Api_completed \<and>
       bt_text (bj_result j) = takeWhile (\<lambda>c. c \<noteq> CHR 0x00) (de_transcript (st_dec (bj_stream j))) \<and>
       bt_status (bj_result j) = PS_ok \<and> \<not> bt_cancelled (bj_result j))"
  using api.job_exact [OF assms(2) create_held [OF assms(1)]]
  by (auto simp: api_held_def capi_ops_def engine_state_def dest: final_text_exact)

lemma batch_job_exact_witness:
  "\<exists>j. transcribe_on (capi_ops echo_runtime (\<lambda>_. example_metrics)) (\<lambda>_. False) [] example_api_stream = Some j \<and>
     bt_ok (bj_result j) \<and> length (bj_events j) = 2 \<and> bt_token_count (bj_result j) = 0 \<and> bt_text (bj_result j) = []"
proof -
  let ?ops = "capi_ops echo_runtime (\<lambda>_ :: (unit, unit, unit, unit, int) stream. example_metrics)"
  obtain t e1 e2 where t: "engine_finish echo_runtime example_api_stream = Some (PS_ok, t)" "ev_queue (st_ev t) = [e1, e2]"
      "ev_type e1 = Ev_final_text" "ev_type e2 = Ev_completed" "public_get_state (Some t) = Api_completed" "de_transcript (st_dec t) = []"
    using example_finish by auto
  obtain t1 where t1: "engine_poll t = Some (PS_ok, public_event_of e1 (poll_seq t1), t1)" "ev_queue (st_ev t1) = [e2]"
      "st_life t1 = st_life t" "st_dec t1 = st_dec t" by (rule engine_poll_some [OF t(2)])
  obtain t2 where t2: "engine_poll t1 = Some (PS_ok, public_event_of e2 (poll_seq t2), t2)" "ev_queue (st_ev t2) = []"
      "st_life t2 = st_life t" "st_dec t2 = st_dec t" using engine_poll_some [OF t1(2)] t1(3,4) by metis
  have st: "public_get_state (Some t2) = Api_completed" "de_transcript (st_dec t2) = []"
    using t(5,6) t2(3,4) by (simp_all add: public_get_state_def stream_get_state_def)
  have f: "engine_final_text t2 = Inr []"
    using st by (simp add: engine_final_text_def public_get_final_text_def Let_def)
  obtain j where j: "transcribe_on ?ops (\<lambda>_. False) [] example_api_stream = Some j" "bt_ok (bj_result j)" "length (bj_events j) = 2"
      "bj_events j = [public_event_of e1 (poll_seq t1), public_event_of e2 (poll_seq t2)]" "bj_stream j = t2"
    using t(1) t1(1) t2(1) t(3,4) engine_poll_empty [OF t2(2)] st(1) f
    by (simp add: transcribe_on_def batch_feed_all.simps [of ?ops] batch_finish.simps [of ?ops] batch_drain.simps [of ?ops]
        new_job_def new_result_def check_cancelled_def drain_event_def polled_def set_result_def token_type_def error_type_def
        batch_collect_def engine_state_def)
  obtain c where "engine_create plain_env example_api_context = Some (Inr example_api_stream, c)" using example_engine_create by blast
  from batch_job_exact [OF this j(1)] j st(2) t(3,4) show ?thesis by (auto simp: token_events_def token_type_def u64_def)
qed

text \<open>C36: Once the cancellation flag stays set a batch job ends, whatever its engine does (a stream that reports a
full queue for ever included): as long as the engine's calls return, the job returns a result.\<close>

theorem cancelled_batch_ends:
  assumes "calls_return ops" "\<And>n. N \<le> n \<Longrightarrow> obs n"
  shows "\<exists>j. transcribe_on ops obs samples s = Some j"
proof -
  obtain b1 j1 where 1: "batch_feed_all ops obs samples (new_job s) = Some (b1, j1)"
    using all_ends [of ops N obs "new_job s" samples, OF assms] by (auto simp: ended_def)
  obtain b2 j2 where 2: "batch_finish ops obs j1 = Some (b2, j2)"
    using finish_returns [of ops N obs j1, OF assms] by (auto simp: returned_def)
  obtain b3 j3 where 3: "batch_drain ops obs j2 = Some (b3, j3)"
    using drain_returns [of ops N obs j2, OF assms] by (auto simp: returned_def)
  show ?thesis using 1 2 3 by (simp add: transcribe_on_def)
qed

text \<open>A stream whose queue is always full.\<close>

definition stuck_ops :: "unit engine_ops" where
  "stuck_ops = \<lparr> eo_feed = (\<lambda>_ _ s. Some (PS_queue_full, 0, s)), eo_poll = (\<lambda>s. Some (PS_not_ready, no_event, s)),
     eo_finish = (\<lambda>s. Some (PS_queue_full, s)), eo_cancel = (\<lambda>s. Some (PS_ok, s)), eo_state = (\<lambda>_. Api_active),
     eo_final_text = (\<lambda>_. Inl (PS_not_ready, [])), eo_metrics = (\<lambda>_. Inl (PS_not_ready, [])), eo_last_error = (\<lambda>_. []) \<rparr>"

lemma cancelled_batch_ends_witness: "\<exists>j. transcribe_on stuck_ops (\<lambda>n. 3 \<le> n) [1, 2] () = Some j"
  by (rule cancelled_batch_ends [where N = 3]) (simp_all add: calls_return_def stuck_ops_def)

end
