(* ===== verification/RealtimeWorkerCorrect.thy ===== *)
theory RealtimeWorkerCorrect
  imports RealtimeWorker EngineJobsCorrect "HOL-Library.Sublist"
begin

text \<open>What the inference worker of a realtime session sends and why it ends, for any engine that keeps its contract
and then for the public interface.\<close>

section \<open>What the events ask for\<close>

definition note_terminal :: "public_event \<Rightarrow> terminal_events \<Rightarrow> terminal_events" where
  "note_terminal e t =
    (if pe_type e = token_type then t \<lparr> te_token_count := u64 (te_token_count t + 1) \<rparr>
     else if pe_type e = final_type
     then t \<lparr> te_final_seen := True, te_final_sequence := pe_sequence e, te_final_audio_end_ms := pe_audio_end_ms e \<rparr>
     else if pe_type e = completed_type then t \<lparr> te_completed_seen := True, te_completed_sequence := pe_sequence e \<rparr>
     else t)"

definition terminal_of :: "public_event list \<Rightarrow> terminal_events" where
  "terminal_of evs = fold note_terminal evs no_terminal"

definition event_message :: "realtime_configuration \<Rightarrow> public_event \<Rightarrow> (json \<times> outbound_kind) list" where
  "event_message c e =
    (if pe_type e = token_type then if rc_token_events c then [(token_event_json e, Ob_token)] else []
     else if pe_type e = partial_type then if rc_partial_events c then [(partial_event_json e, Ob_partial)] else []
     else [])"

definition event_messages :: "realtime_configuration \<Rightarrow> public_event list \<Rightarrow> (json \<times> outbound_kind) list" where
  "event_messages c evs = concat (List.map (event_message c) evs)"

text \<open>The messages that carry a sequence number: all but warnings, errors and the answer to a cancellation.\<close>

definition numbered :: "(json \<times> outbound_kind) list \<Rightarrow> (json \<times> outbound_kind) list" where
  "numbered out = filter (\<lambda>m. message_sequence (fst m) \<noteq> None) out"

lemma message_sequence_none [simp]:
  "message_sequence (warning_event_json b) = None" "message_sequence (realtime_error_json c t f) = None"
  by (simp_all add: message_sequence_def warning_event_json_def realtime_error_json_def)

lemma numbered_append [simp]: "numbered (xs @ ys) = numbered xs @ numbered ys"
  by (simp add: numbered_def)

lemma numbered_one [simp]:
  "numbered [] = []" "numbered [m] = (if message_sequence (fst m) = None then [] else [m])"
  by (simp_all add: numbered_def)

lemma event_messages_append [simp]: "event_messages c (evs @ [e]) = event_messages c evs @ event_message c e"
  by (simp add: event_messages_def)

lemma terminal_of_append [simp]: "terminal_of (evs @ [e]) = note_terminal e (terminal_of evs)"
  by (simp add: terminal_of_def)

lemma types_distinct [simp]:
  "token_type \<noteq> partial_type" "token_type \<noteq> final_type" "token_type \<noteq> completed_type" "token_type \<noteq> error_type"
  "partial_type \<noteq> token_type" "partial_type \<noteq> final_type" "partial_type \<noteq> completed_type" "partial_type \<noteq> error_type"
  "final_type \<noteq> token_type" "final_type \<noteq> partial_type" "final_type \<noteq> completed_type" "final_type \<noteq> error_type"
  "completed_type \<noteq> token_type" "completed_type \<noteq> partial_type" "completed_type \<noteq> final_type" "completed_type \<noteq> error_type"
  "error_type \<noteq> token_type" "error_type \<noteq> partial_type" "error_type \<noteq> final_type" "error_type \<noteq> completed_type"
  "no_event_type \<noteq> token_type" "no_event_type \<noteq> partial_type" "no_event_type \<noteq> final_type" "no_event_type \<noteq> completed_type"
  by (simp_all add: token_type_def partial_type_def final_type_def completed_type_def error_type_def no_event_type_def)

section \<open>The worker's steps\<close>

text \<open>Why a worker may stop: it saw a cancellation, a message was refused, or it asked for the close.\<close>

definition stop_cause :: "worker_env \<Rightarrow> 's worker_job \<Rightarrow> bool" where
  "stop_cause env j \<longleftrightarrow>
    (\<exists>n<wj_checks j. cancel_requested (we_reason env n)) \<or> (\<exists>n<wj_pops j. we_pop env n = Pop_cancel) \<or>
    (\<exists>n<wj_calls j. \<not> we_accepts env n) \<or> wj_closes j \<noteq> []"

text \<open>Fields no event touches.\<close>

definition same_input :: "'s worker_job \<Rightarrow> 's worker_job \<Rightarrow> bool" where
  "same_input j k \<longleftrightarrow> wj_fed k = wj_fed j \<and> wj_pops k = wj_pops j \<and> wj_closes k = wj_closes j"

lemma same_input_trans: "same_input j k \<Longrightarrow> same_input k l \<Longrightarrow> same_input j l"
  by (simp add: same_input_def)

text \<open>The audio of the first results of the queue.\<close>

definition popped :: "worker_env \<Rightarrow> nat \<Rightarrow> int list" where
  "popped env n = concat (List.map (\<lambda>i. case we_pop env i of Pop_audio xs \<Rightarrow> xs | _ \<Rightarrow> []) [0..<n])"

lemma popped_Suc: "popped env (Suc n) = popped env n @ (case we_pop env n of Pop_audio xs \<Rightarrow> xs | _ \<Rightarrow> [])"
  by (simp add: popped_def)

context engine_contract
begin

definition worker_held :: "'s worker_job \<Rightarrow> bool" where
  "worker_held j \<longleftrightarrow> held (length (wj_fed j)) (wj_events j) (wj_stream j) \<and> wj_terminal j = terminal_of (wj_events j)"

definition all_sent :: "worker_env \<Rightarrow> 's worker_job \<Rightarrow> bool" where
  "all_sent env j \<longleftrightarrow> numbered (wj_out j) = event_messages (we_configuration env) (wj_events j)"

definition some_sent :: "worker_env \<Rightarrow> 's worker_job \<Rightarrow> bool" where
  "some_sent env j \<longleftrightarrow> prefix (numbered (wj_out j)) (event_messages (we_configuration env) (wj_events j))"

text \<open>How a step may end.\<close>

definition step_ok :: "worker_env \<Rightarrow> step_end \<times> 's worker_job \<Rightarrow> bool" where
  "step_ok env r \<longleftrightarrow> worker_held (snd r) \<and> some_sent env (snd r) \<and> (fst r = Go_on \<longrightarrow> all_sent env (snd r)) \<and>
    (fst r = Stop_worker \<longrightarrow> stop_cause env (snd r))"

lemma all_some: "all_sent env j \<Longrightarrow> some_sent env j"
  by (simp add: all_sent_def some_sent_def)

lemma read_reason_held:
  assumes "read_reason env j = (reason, k)"
  shows "worker_held k = worker_held j" "all_sent env k = all_sent env j" "some_sent env k = some_sent env j"
    "same_input j k" "cancel_requested reason \<Longrightarrow> stop_cause env k"
  using assms by (auto simp: read_reason_def worker_held_def all_sent_def some_sent_def same_input_def stop_cause_def)

lemma handle_event_ok:
  assumes "worker_held (j \<lparr> wj_terminal := terminal_of (evs @ [e]) \<rparr>)" "wj_events j = evs @ [e]" "wj_terminal j = terminal_of evs"
    and "numbered (wj_out j) = event_messages (we_configuration env) evs" "handle_event env e j = (r, k)"
  shows "step_ok env (r, k) \<and> same_input j k"
  using assms
  by (auto simp: handle_event_def Let_def accept_or_stop_def worker_enqueue_def read_reason_def set_terminal_def step_ok_def
      worker_held_def all_sent_def some_sent_def same_input_def stop_cause_def note_terminal_def event_message_def
      split: if_splits)

lemma drain_turn_ok:
  assumes "drain_turn ops env j = Some turn" "worker_held j" "all_sent env j"
  shows "case turn of
      Inl r \<Rightarrow> step_ok env r \<and> same_input j (snd r) \<and> (fst r = Go_on \<longrightarrow> drained (wj_stream (snd r)))
    | Inr k \<Rightarrow> worker_held k \<and> all_sent env k \<and> same_input j k"
proof -
  obtain reason j0 where r: "read_reason env j = (reason, j0)" by force
  note j0 = read_reason_held [OF r]
  show ?thesis
  proof (cases "cancel_requested reason")
    case True
    then have "turn = Inl (Stop_worker, j0)" using assms(1) r by (simp add: drain_turn_def)
    then show ?thesis using j0 True assms(2,3) all_some by (simp add: step_ok_def)
  next
    case False
    obtain st e s where p: "eo_poll ops (wj_stream j0) = Some (st, e, s)"
      and turn: "turn = (let j1 = note_poll st e s j0 in
            if st = PS_not_ready then Inl (Go_on, j1)
            else if st \<noteq> PS_ok then Inl (Throw (st, eo_last_error ops s), j1)
            else case handle_event env e j1 of (Go_on, j2) \<Rightarrow> Inr j2 | r \<Rightarrow> Inl r)"
      using assms(1) r False by (auto simp: drain_turn_def Let_def split: Option.bind_splits)
    let ?j1 = "note_poll st e s j0"
    have h: "held (length (wj_fed j0)) (wj_events ?j1) s" "st = PS_not_ready \<longrightarrow> drained s"
      using poll [OF _ p] j0(1) assms(2) unfolding worker_held_def note_poll_def by auto
    have same: "same_input j ?j1" "wj_terminal ?j1 = terminal_of (wj_events j0)" "wj_out ?j1 = wj_out j0" "wj_fed ?j1 = wj_fed j0"
      "wj_stream ?j1 = s" "wj_events ?j1 = wj_events j0 @ (if st = PS_ok then [e] else [])"
      using j0(1,4) assms(2) by (simp_all add: same_input_def note_poll_def worker_held_def)
    have sent: "numbered (wj_out j0) = event_messages (we_configuration env) (wj_events j0)"
      using j0(2) assms(3) by (simp add: all_sent_def)
    show ?thesis
    proof (cases "st = PS_ok")
      case True
      obtain q k where q: "handle_event env e ?j1 = (q, k)" by force
      have "step_ok env (q, k) \<and> same_input ?j1 k"
        by (rule handle_event_ok [OF _ _ same(2) _ q]) (use h(1) same True sent in \<open>simp_all add: worker_held_def\<close>)
      then show ?thesis using turn q True same(1) same_input_trans
        by (auto simp: Let_def step_ok_def split: step_end.splits)
    next
      case False
      then show ?thesis using turn h same sent by (auto simp: Let_def step_ok_def worker_held_def some_sent_def all_sent_def)
    qed
  qed
qed

lemma worker_drain_ok:
  assumes "worker_drain ops' env j = Some r" "ops' = ops" "worker_held j" "all_sent env j"
  shows "step_ok env r \<and> same_input j (snd r) \<and> (fst r = Go_on \<longrightarrow> drained (wj_stream (snd r)))"
  using assms
proof (induction rule: worker_drain.raw_induct [rotated, consumes 1, case_names step])
  case (step rec ops' env j r)
  obtain turn where t: "drain_turn ops env j = Some turn" "(case turn of Inl r \<Rightarrow> Some r | Inr j1 \<Rightarrow> rec ops env j1) = Some r"
    using step.hyps step.prems(1) by (auto split: Option.bind_splits)
  note ok = drain_turn_ok [OF t(1) step.prems(2,3)]
  show ?case
  proof (cases turn)
    case (Inl q)
    then show ?thesis using ok t(2) by simp
  next
    case (Inr k)
    then show ?thesis using ok t(2) step.IH [of ops env k r] same_input_trans [of j k "snd r"] by simp
  qed
qed

lemma held_stream: "worker_held j \<Longrightarrow> held (length (wj_fed j)) (wj_events j) s \<Longrightarrow> worker_held (j \<lparr> wj_stream := s \<rparr>)"
  by (simp add: worker_held_def)

lemma sent_stream [simp]:
  "all_sent env (j \<lparr> wj_stream := s \<rparr>) = all_sent env j" "some_sent env (j \<lparr> wj_stream := s \<rparr>) = some_sent env j"
  "same_input (j \<lparr> wj_stream := s \<rparr>) k = same_input j k" "same_input k (j \<lparr> wj_stream := s \<rparr>) = same_input k j"
  "stop_cause env (j \<lparr> wj_stream := s \<rparr>) = stop_cause env j"
  by (simp_all add: all_sent_def some_sent_def same_input_def stop_cause_def)

lemma throw_ok: "worker_held j \<Longrightarrow> all_sent env j \<Longrightarrow> step_ok env (Throw e, j)"
  by (simp add: step_ok_def all_some)

lemma step_okD: "step_ok env (Go_on, k) \<Longrightarrow> worker_held k \<and> all_sent env k"
  by (simp add: step_ok_def)

lemma worker_resume_ok:
  assumes "worker_resume ops' env j = Some r" "ops' = ops" "worker_held j" "all_sent env j"
  shows "step_ok env r \<and> same_input j (snd r)"
  using assms
proof (induction rule: worker_resume.raw_induct [rotated, consumes 1, case_names step])
  case (step rec ops' env j r)
  obtain reason j0 where r0: "read_reason env j = (reason, j0)" by force
  note j0 = read_reason_held [OF r0]
  show ?case
  proof (cases "cancel_requested reason")
    case True
    then show ?thesis using step.hyps step.prems r0 j0 all_some by (auto simp: step_ok_def)
  next
    case False
    obtain d j1 where d: "worker_drain ops env j0 = Some (d, j1)"
      "(if d \<noteq> Go_on then Some (d, j1)
        else do {
          (st, consumed, s) \<leftarrow> eo_feed ops None 0 (wj_stream j1);
          (let j2 = j1 \<lparr> wj_stream := s \<rparr> in
           if consumed \<noteq> 0 then Some (Throw (PS_internal_error, ''zero-length resume consumed audio''), j2)
           else if st = PS_queue_full then rec ops env j2
           else if st \<noteq> PS_ok then Some (Throw (st, eo_last_error ops s), j2)
           else worker_drain ops env j2)
        }) = Some r"
      using step.hyps step.prems(1) r0 False by (auto split: Option.bind_splits)
    have ok: "step_ok env (d, j1)" "same_input j j1"
      using worker_drain_ok [OF d(1) refl] j0(1,2) step.prems(2,3) same_input_trans [OF j0(4)] by simp_all
    show ?thesis
    proof (cases "d = Go_on")
      case False
      then show ?thesis using d(2) ok by auto
    next
      case True
      then have j1: "worker_held j1" "all_sent env j1" using ok step_okD by auto
      obtain st n s where f: "eo_feed ops None 0 (wj_stream j1) = Some (st, n, s)" using d(2) True by (auto split: Option.bind_splits)
      let ?j2 = "j1 \<lparr> wj_stream := s \<rparr>"
      have j2: "worker_held ?j2" "all_sent env ?j2"
        using held_stream [OF j1(1) resume [OF _ f]] j1 by (simp_all add: worker_held_def)
      have "step_ok env r \<and> same_input ?j2 (snd r)"
      proof -
        consider "n \<noteq> 0 \<or> st \<noteq> PS_queue_full \<and> st \<noteq> PS_ok" | "n = 0" "st = PS_queue_full" | "n = 0" "st = PS_ok" by blast
        then show ?thesis
        proof cases
          case 1
          then obtain e where "r = (Throw e, ?j2)" using d(2) True f by (auto simp: Let_def split: if_splits)
          then show ?thesis using throw_ok [OF j2] by (simp add: same_input_def)
        next
          case 2
          then show ?thesis using d(2) True f step.IH [of ops env ?j2 r] j2 by simp
        next
          case 3
          then show ?thesis using d(2) True f worker_drain_ok [OF _ refl j2] by simp
        qed
      qed
      then show ?thesis using ok(2) same_input_trans by auto
    qed
  qed
qed

text \<open>A step that fed at most the samples given to it, and all of them when it goes on.\<close>

definition input_fed :: "int list \<Rightarrow> 's worker_job \<Rightarrow> step_end \<times> 's worker_job \<Rightarrow> bool" where
  "input_fed xs j r \<longleftrightarrow> (\<exists>k. wj_fed (snd r) = wj_fed j @ take k xs) \<and> (fst r = Go_on \<longrightarrow> wj_fed (snd r) = wj_fed j @ xs) \<and>
    wj_pops (snd r) = wj_pops j \<and> wj_closes (snd r) = wj_closes j"

lemma input_fed_after:
  "wj_fed k = wj_fed j @ take n xs \<Longrightarrow> wj_pops k = wj_pops j \<Longrightarrow> wj_closes k = wj_closes j \<Longrightarrow> input_fed (drop n xs) k r \<Longrightarrow>
   input_fed xs j r"
  by (auto simp: input_fed_def take_add [symmetric])

lemma input_fed_stopped:
  "q \<noteq> Go_on \<Longrightarrow> wj_fed l = wj_fed j @ take n xs \<Longrightarrow> wj_pops l = wj_pops j \<Longrightarrow> wj_closes l = wj_closes j \<Longrightarrow> input_fed xs j (q, l)"
  by (auto simp: input_fed_def)

lemma worker_feed_ok:
  assumes "worker_feed ops' env samples j = Some r" "ops' = ops" "worker_held j" "all_sent env j"
  shows "step_ok env r \<and> input_fed samples j r"
  using assms
proof (induction rule: worker_feed.raw_induct [rotated, consumes 1, case_names step])
  case (step rec ops' env samples j r)
  obtain reason j0 where r0: "read_reason env j = (reason, j0)" by force
  note j0 = read_reason_held [OF r0]
  consider "samples = []" | "samples \<noteq> []" "cancel_requested reason" | "samples \<noteq> []" "\<not> cancel_requested reason" by blast
  then show ?case
  proof cases
    case 1
    then show ?thesis using step.hyps step.prems by (auto simp: step_ok_def all_some input_fed_def)
  next
    case 2
    then show ?thesis using step.hyps step.prems r0 j0 all_some input_fed_stopped [of Stop_worker j0 j 0 samples]
      by (auto simp: step_ok_def same_input_def)
  next
    case 3
    obtain st n s where f: "eo_feed ops (Some samples) (length samples) (wj_stream j0) = Some (st, n, s)"
      using step.hyps step.prems(1) r0 3 by (auto split: Option.bind_splits)
    let ?k = "j0 \<lparr> wj_stream := s, wj_fed := wj_fed j0 @ take n samples \<rparr>"
    have k: "worker_held ?k" "all_sent env ?k" "wj_fed ?k = wj_fed j @ take n samples" "wj_pops ?k = wj_pops j" "wj_closes ?k = wj_closes j"
      using j0 step.prems(2,3) feed [OF _ f] by (auto simp: worker_held_def all_sent_def same_input_def min_absorb2)
    obtain d j1 where d: "worker_drain ops env ?k = Some (d, j1)"
      "(if d \<noteq> Go_on then Some (d, j1)
        else if st = PS_queue_full
        then do {
          (resumed, j2) \<leftarrow> worker_resume ops env j1;
          (if resumed \<noteq> Go_on then Some (resumed, j2) else rec ops env (drop n samples) j2)
        }
        else if st \<noteq> PS_ok \<or> n = 0 \<and> drop n samples \<noteq> []
        then Some (Throw (if st = PS_ok then PS_internal_error else st, eo_last_error ops (wj_stream j1)), j1)
        else rec ops env (drop n samples) j1) = Some r"
      using step.hyps step.prems(1) r0 3 f by (auto split: Option.bind_splits)
    have ok: "step_ok env (d, j1)" "wj_fed j1 = wj_fed j @ take n samples" "wj_pops j1 = wj_pops j" "wj_closes j1 = wj_closes j"
      using worker_drain_ok [OF d(1) refl k(1,2)] k by (simp_all add: same_input_def)
    have rest: "step_ok env r \<and> input_fed samples j r"
      if "rec ops env (drop n samples) l = Some r" "worker_held l" "all_sent env l"
        "wj_fed l = wj_fed j @ take n samples" "wj_pops l = wj_pops j" "wj_closes l = wj_closes j" for l
      using step.IH [of ops env "drop n samples" l r] that input_fed_after by blast
    consider "d \<noteq> Go_on" | "d = Go_on" "st = PS_queue_full" | "d = Go_on" "st \<noteq> PS_queue_full" "st \<noteq> PS_ok \<or> n = 0 \<and> drop n samples \<noteq> []"
      | "d = Go_on" "st = PS_ok" "\<not> (n = 0 \<and> drop n samples \<noteq> [])" by blast
    then show ?thesis
    proof cases
      case 1
      then show ?thesis using d(2) ok input_fed_stopped by auto
    next
      case 2
      obtain q j2 where q: "worker_resume ops env j1 = Some (q, j2)"
        "(if q \<noteq> Go_on then Some (q, j2) else rec ops env (drop n samples) j2) = Some r"
        using d(2) 2 by (auto split: Option.bind_splits)
      have j1: "worker_held j1" "all_sent env j1" using ok(1) 2 step_okD by auto
      note ok2 = worker_resume_ok [OF q(1) refl j1]
      show ?thesis
      proof (cases "q = Go_on")
        case True
        then show ?thesis using q(2) ok2 ok step_okD by (intro rest [of j2]) (auto simp: same_input_def)
      next
        case False
        then show ?thesis using q(2) ok2 ok input_fed_stopped [of q j2 j n samples] by (auto simp: same_input_def)
      qed
    next
      case 3
      then have "r = (Throw (if st = PS_ok then PS_internal_error else st, eo_last_error ops (wj_stream j1)), j1)"
        using d(2) by (auto split: if_splits)
      then show ?thesis using ok 3(1) throw_ok step_okD input_fed_stopped by auto
    next
      case 4
      then show ?thesis using d(2) ok step_okD by (intro rest [of j1]) (auto split: if_splits)
    qed
  qed
qed

lemma stop_cause_later: "stop_cause env j \<Longrightarrow> wj_checks j \<le> wj_checks k \<Longrightarrow> wj_pops j \<le> wj_pops k \<Longrightarrow> wj_calls j \<le> wj_calls k \<Longrightarrow>
    (wj_closes j \<noteq> [] \<longrightarrow> wj_closes k \<noteq> []) \<Longrightarrow> stop_cause env k"
  unfolding stop_cause_def by (meson order_less_le_trans)

lemma observe_lag_ok:
  assumes "observe_lag ops env j = (q, k)" "worker_held j" "all_sent env j"
  shows "step_ok env (q, k) \<and> wj_fed k = wj_fed j \<and> wj_pops k = wj_pops j \<and> (q = Go_on \<longrightarrow> wj_closes k = wj_closes j)"
  using assms
  by (auto simp: observe_lag_def Let_def worker_enqueue_def ask_close_def step_ok_def worker_held_def all_sent_def some_sent_def stop_cause_def
      split: sum.splits if_splits)

lemma cancellation_ok:
  assumes "handle_worker_cancellation ops env j = Some (q, k)" "worker_held j" "some_sent env j" "stop_cause env j"
  shows "q = Stop_worker \<and> step_ok env (q, k) \<and> wj_fed k = wj_fed j \<and> wj_pops k = wj_pops j"
proof -
  obtain st s where c: "eo_cancel ops (wj_stream j) = Some (st, s)"
    and k: "q = Stop_worker" "k = (let (reason, j1) = read_reason env (j \<lparr> wj_stream := s \<rparr>) in
         if reason = By_client then ask_close Close_normal (snd (worker_enqueue env cancelled_event_json Ob_mandatory j1))
         else if reason = By_capacity then ask_close Close_policy_error j1
         else j1)"
    using assms(1) by (auto simp: handle_worker_cancellation_def Let_def split: Option.bind_splits prod.splits)
  have h: "held (length (wj_fed j)) (wj_events j) s" using cancel [OF _ c] assms(2) by (simp add: worker_held_def)
  have "worker_held k \<and> some_sent env k \<and> wj_fed k = wj_fed j \<and> wj_pops k = wj_pops j \<and> wj_checks j \<le> wj_checks k \<and> wj_calls j \<le> wj_calls k \<and>
      (wj_closes j \<noteq> [] \<longrightarrow> wj_closes k \<noteq> [])"
    using assms(2,3) h unfolding k(2)
    by (simp add: read_reason_def ask_close_def worker_enqueue_def Let_def worker_held_def some_sent_def)
  then show ?thesis using k(1) stop_cause_later [OF assms(4), of k] by (simp add: step_ok_def)
qed

definition input_ok :: "worker_env \<Rightarrow> step_end \<times> 's worker_job \<Rightarrow> bool" where
  "input_ok env r \<longleftrightarrow> step_ok env r \<and> (\<exists>n. wj_fed (snd r) = take n (popped env (wj_pops (snd r)))) \<and>
    (fst r = Go_on \<longrightarrow> wj_fed (snd r) = popped env (wj_pops (snd r)) \<and> wj_closes (snd r) = [] \<and>
       0 < wj_pops (snd r) \<and> we_pop env (wj_pops (snd r) - 1) = Pop_finish)"

lemma stopped_input:
  "handle_worker_cancellation ops env j = Some r \<Longrightarrow> worker_held j \<Longrightarrow> some_sent env j \<Longrightarrow> stop_cause env j \<Longrightarrow>
   wj_fed j = take n (popped env (wj_pops j)) \<Longrightarrow> input_ok env r"
  using cancellation_ok [of env j "fst r" "snd r"] by (auto simp: input_ok_def)

lemma worker_input_ok:
  assumes "worker_input ops' env j = Some r" "ops' = ops" "worker_held j" "all_sent env j" "wj_fed j = popped env (wj_pops j)" "wj_closes j = []"
  shows "input_ok env r"
  using assms
proof (induction rule: worker_input.raw_induct [rotated, consumes 1, case_names step])
  case (step rec ops' env j r)
  let ?j0 = "j \<lparr> wj_pops := wj_pops j + 1 \<rparr>"
  have fedj: "wj_fed j = take (length (popped env (wj_pops j))) (popped env (wj_pops j + 1))"
    using step.prems(4) by (simp add: popped_Suc)
  obtain reason j1 where r0: "read_reason env ?j0 = (reason, j1)" by force
  note j1 = read_reason_held [OF r0]
  have h: "worker_held j1" "all_sent env j1" "wj_fed j1 = wj_fed j" "wj_pops j1 = wj_pops j + 1" "wj_closes j1 = []"
    using j1 step.prems by (simp_all add: worker_held_def all_sent_def same_input_def)
  consider "we_pop env (wj_pops j) = Pop_cancel" | "we_pop env (wj_pops j) \<noteq> Pop_cancel" "cancel_requested reason"
    | "we_pop env (wj_pops j) = Pop_finish" "\<not> cancel_requested reason"
    | xs where "we_pop env (wj_pops j) = Pop_audio xs" "\<not> cancel_requested reason"
    by (cases "we_pop env (wj_pops j)") auto
  then show ?case
  proof cases
    case 1
    then have "handle_worker_cancellation ops env ?j0 = Some r" using step.hyps step.prems(1) by simp
    moreover have "stop_cause env ?j0" using 1 by (auto simp: stop_cause_def)
    ultimately show ?thesis using step.prems fedj
      by (intro stopped_input [of env ?j0 r "length (popped env (wj_pops j))"]) (simp_all add: worker_held_def some_sent_def all_sent_def)
  next
    case 2
    then have "handle_worker_cancellation ops env j1 = Some r" using step.hyps step.prems(1) r0 by simp
    then show ?thesis using h j1(5) 2 all_some fedj by (intro stopped_input [of env j1 r "length (popped env (wj_pops j))"]) simp_all
  next
    case 3
    then have "r = (Go_on, j1)" using step.hyps step.prems(1) r0 by simp
    then show ?thesis using 3 h step.prems(4)
      by (auto simp: input_ok_def step_ok_def all_some popped_Suc intro: exI [of _ "length (popped env (wj_pops j))"])
  next
    case (4 xs)
    obtain q j2 where q: "worker_feed ops env xs j1 = Some (q, j2)"
      "(case q of
          Throw err \<Rightarrow> Some (Throw err, j2)
        | Stop_worker \<Rightarrow>
            (let (reason2, j3) = read_reason env j2
             in if cancel_requested reason2 then handle_worker_cancellation ops env j3 else Some (Stop_worker, j3))
        | Go_on \<Rightarrow>
            (case observe_lag ops env j2 of
               (Go_on, j3) \<Rightarrow> rec ops env j3
             | (Stop_worker, j3) \<Rightarrow> handle_worker_cancellation ops env j3
             | (Throw err, j3) \<Rightarrow> Some (Throw err, j3))) = Some r"
      using step.hyps step.prems(1) r0 4 by (auto split: Option.bind_splits)
    have ok: "step_ok env (q, j2)" "input_fed xs j1 (q, j2)" using worker_feed_ok [OF q(1) refl h(1,2)] by simp_all
    have pops: "wj_pops j2 = wj_pops j + 1" using ok(2) h(4) by (simp add: input_fed_def)
    have all: "popped env (wj_pops j + 1) = wj_fed j @ xs" using 4 step.prems(4) by (simp add: popped_Suc)
    have some: "\<exists>n. wj_fed j2 = take n (popped env (wj_pops j + 1))"
    proof -
      obtain n where "wj_fed j2 = wj_fed j @ take n xs" using ok(2) h(3) by (auto simp: input_fed_def)
      then have "wj_fed j2 = take (length (wj_fed j) + n) (popped env (wj_pops j + 1))" using all by simp
      then show ?thesis by blast
    qed
    show ?thesis
    proof (cases q)
      case Go_on
      obtain w j3 where w: "observe_lag ops env j2 = (w, j3)" by force
      have j2: "worker_held j2" "all_sent env j2" "wj_fed j2 = popped env (wj_pops j2)" "wj_closes j2 = []"
        using ok h all pops Go_on step_okD by (auto simp: input_fed_def)
      note lag = observe_lag_ok [OF w j2(1,2)]
      show ?thesis
      proof (cases w)
        case Go_on
        then have "rec ops env j3 = Some r" using q(2) \<open>q = Go_on\<close> w by simp
        then show ?thesis using step.IH [of ops env j3 r] lag Go_on j2 step_okD by auto
      next
        case Stop_worker
        then have "handle_worker_cancellation ops env j3 = Some r" using q(2) \<open>q = Go_on\<close> w by simp
        then show ?thesis using lag Stop_worker j2(3)
          by (intro stopped_input [of env j3 r "length (popped env (wj_pops j2))"]) (simp_all add: step_ok_def)
      next
        case (Throw e)
        then have "r = (Throw e, j3)" using q(2) \<open>q = Go_on\<close> w by simp
        then show ?thesis using lag Throw j2(3) by (auto simp: input_ok_def intro: exI [of _ "length (popped env (wj_pops j2))"])
      qed
    next
      case Stop_worker
      obtain reason2 j3 where r2: "read_reason env j2 = (reason2, j3)" by force
      note j3 = read_reason_held [OF r2]
      have c: "stop_cause env j3" using ok(1) Stop_worker stop_cause_later [of env j2 j3] r2
        by (auto simp: step_ok_def read_reason_def)
      have h3: "worker_held j3" "some_sent env j3" "wj_fed j3 = wj_fed j2" "wj_pops j3 = wj_pops j2"
        using ok(1) j3 by (simp_all add: step_ok_def same_input_def)
      obtain n where n: "wj_fed j3 = take n (popped env (wj_pops j3))" using some h3 pops by auto
      show ?thesis
      proof (cases "cancel_requested reason2")
        case True
        then show ?thesis using q(2) Stop_worker r2 h3 c n by (intro stopped_input [of env j3 r n]) simp_all
      next
        case False
        then have "r = (Stop_worker, j3)" using q(2) Stop_worker r2 by simp
        moreover have "\<exists>n. wj_fed j3 = take n (popped env (wj_pops j3))" using n by blast
        ultimately show ?thesis using h3(1,2) c by (simp add: input_ok_def step_ok_def)
      qed
    next
      case (Throw e)
      then show ?thesis using q(2) ok(1) some pops by (auto simp: input_ok_def)
    qed
  qed
qed

lemma worker_finish_ok:
  assumes "worker_finish ops' env j = Some r" "ops' = ops" "worker_held j" "all_sent env j"
  shows "step_ok env r \<and> wj_fed (snd r) = wj_fed j \<and> wj_pops (snd r) = wj_pops j \<and> (fst r = Go_on \<longrightarrow> wj_closes (snd r) = wj_closes j)"
  using assms
proof (induction rule: worker_finish.raw_induct [rotated, consumes 1, case_names step])
  case (step rec ops' env j r)
  obtain reason j0 where r0: "read_reason env j = (reason, j0)" by force
  note j0 = read_reason_held [OF r0]
  show ?case
  proof (cases "cancel_requested reason")
    case True
    then have "handle_worker_cancellation ops env j0 = Some (fst r, snd r)" using step.hyps step.prems(1) r0 by simp
    then show ?thesis using cancellation_ok [of env j0 "fst r" "snd r"] j0 True step.prems(2,3) all_some by (simp add: same_input_def)
  next
    case False
    obtain st s where f: "eo_finish ops (wj_stream j0) = Some (st, s)"
      using step.hyps step.prems(1) r0 False by (auto split: Option.bind_splits)
    let ?j1 = "j0 \<lparr> wj_stream := s \<rparr>"
    have j1: "worker_held ?j1" "all_sent env ?j1" "wj_fed ?j1 = wj_fed j" "wj_pops ?j1 = wj_pops j" "wj_closes ?j1 = wj_closes j"
      using j0 step.prems(2,3) finish [OF _ f] by (auto simp: worker_held_def same_input_def)
    have body: "(if st = PS_queue_full
        then do {
          (resumed, j2) \<leftarrow> worker_resume ops env ?j1;
          (if resumed \<noteq> Go_on then Some (resumed, j2) else rec ops env j2)
        }
        else if st \<noteq> PS_ok then Some (Throw (st, eo_last_error ops s), ?j1)
        else Some (Go_on, ?j1)) = Some r"
      using step.hyps [unfolded step.prems(1)] r0 False f by (simp add: Let_def split: if_split_asm)
    show ?thesis
    proof (cases "st = PS_queue_full")
      case True
      obtain q j2 where q: "worker_resume ops env ?j1 = Some (q, j2)" "(if q \<noteq> Go_on then Some (q, j2) else rec ops env j2) = Some r"
        using body True by (auto split: Option.bind_splits)
      have ok: "step_ok env (q, j2)" "same_input ?j1 j2" using worker_resume_ok [OF q(1) refl j1(1,2)] by simp_all
      show ?thesis
      proof (cases "q = Go_on")
        case True
        then show ?thesis using q(2) ok j1 step.IH [of ops env j2 r] step_okD by (auto simp: same_input_def)
      next
        case False
        then show ?thesis using q(2) ok j1 by (auto simp: same_input_def)
      qed
    next
      case False
      then show ?thesis using body j1 throw_ok [OF j1(1,2)] by (auto simp: step_ok_def all_some split: if_split_asm)
    qed
  qed
qed

text \<open>The two messages that close a completed transcription.\<close>

definition closing_messages :: "(stream_metrics \<Rightarrow> real) \<Rightarrow> 's \<Rightarrow> terminal_events \<Rightarrow> (json \<times> outbound_kind) list" where
  "closing_messages factor s te =
    (case (eo_final_text ops s, eo_metrics ops s) of
       (Inr transcript, Inr metrics) \<Rightarrow>
         [(final_event_json (te_final_sequence te) transcript (te_final_audio_end_ms te), Ob_mandatory),
          (completed_event_json (te_completed_sequence te) metrics (factor metrics), Ob_mandatory)]
     | _ \<Rightarrow> [])"

definition worker_result :: "worker_env \<Rightarrow> step_end \<times> 's worker_job \<Rightarrow> bool" where
  "worker_result env r \<longleftrightarrow>
    (let (q, j) = r; messages = event_messages (we_configuration env) (wj_events j) @ closing_messages (we_factor env) (wj_stream j) (wj_terminal j) in
     worker_held j \<and> (\<exists>n. wj_fed j = take n (popped env (wj_pops j))) \<and> prefix (numbered (wj_out j)) messages \<and>
     (q = Go_on \<longrightarrow>
        wj_fed j = popped env (wj_pops j) \<and> we_pop env (wj_pops j - 1) = Pop_finish \<and> numbered (wj_out j) = messages \<and>
        closing_messages (we_factor env) (wj_stream j) (wj_terminal j) \<noteq> [] \<and> wj_closes j = [Close_normal] \<and> drained (wj_stream j) \<and>
        eo_state ops (wj_stream j) = Api_completed \<and> te_final_seen (wj_terminal j) \<and> te_completed_seen (wj_terminal j)) \<and>
     (q = Stop_worker \<longrightarrow> stop_cause env j))"

lemma step_worker_result:
  "step_ok env (q, j) \<Longrightarrow> q \<noteq> Go_on \<Longrightarrow> \<exists>n. wj_fed j = take n (popped env (wj_pops j)) \<Longrightarrow> worker_result env (q, j)"
  by (auto simp: worker_result_def step_ok_def some_sent_def)

lemma failure_result:
  assumes "worker_held j" "\<exists>n. wj_fed j = take n (popped env (wj_pops j))"
    and "prefix (numbered (wj_out j)) (event_messages (we_configuration env) (wj_events j) @ closing_messages (we_factor env) (wj_stream j) (wj_terminal j))"
  shows "worker_result env (Stop_worker, worker_failure env code text j)"
  using assms
  by (auto simp: worker_result_def worker_failure_def read_reason_def worker_enqueue_def ask_close_def Let_def worker_held_def
      stop_cause_def split: prod.splits)

lemma complete_result:
  assumes "worker_complete ops env j = (q, k)" "worker_held j" "all_sent env j" "drained (wj_stream j)"
    and "wj_fed j = popped env (wj_pops j)" "we_pop env (wj_pops j - 1) = Pop_finish" "wj_closes j = []"
  shows "worker_result env (q, k)"
proof -
  have fed: "\<exists>n. wj_fed j = take n (popped env (wj_pops j))" using assms(5) by (metis take_all_iff order_refl)
  show ?thesis
  proof (cases "\<not> te_final_seen (wj_terminal j) \<or> \<not> te_completed_seen (wj_terminal j) \<or> eo_state ops (wj_stream j) \<noteq> Api_completed \<or>
      (\<exists>e. eo_final_text ops (wj_stream j) = Inl e) \<or> (\<exists>e. eo_metrics ops (wj_stream j) = Inl e)")
    case True
    then obtain e where "q = Throw e" "k = j" using assms(1) by (auto simp: worker_complete_def Let_def split: sum.splits if_split_asm)
    then show ?thesis using fed assms(2,3) by (auto simp: worker_result_def all_sent_def)
  next
    case False
    then obtain t m where tm: "eo_final_text ops (wj_stream j) = Inr t" "eo_metrics ops (wj_stream j) = Inr m"
      by (metis sum.exhaust)
    let ?f = "final_event_json (te_final_sequence (wj_terminal j)) t (te_final_audio_end_ms (wj_terminal j))"
    let ?c = "completed_event_json (te_completed_sequence (wj_terminal j)) m (we_factor env m)"
    obtain ok j1 where e1: "worker_enqueue env ?f Ob_mandatory j = (ok, j1)" by force
    obtain ok2 j2 where e2: "(if ok then worker_enqueue env ?c Ob_mandatory j1 else (False, j1)) = (ok2, j2)" by force
    have k: "(q, k) = (if ok2 then (Go_on, ask_close Close_normal j2)
        else let (reason, j3) = read_reason env j2
             in (Stop_worker, if cancel_requested reason then j3
                              else worker_failure env ''internal_error'' ''The final transcript exceeds the server event limit.'' j3))"
      using assms(1) False tm e1 e2 by (simp add: worker_complete_def Let_def)
    have j2: "wj_fed j2 = wj_fed j" "wj_pops j2 = wj_pops j" "wj_stream j2 = wj_stream j" "wj_events j2 = wj_events j"
      "wj_terminal j2 = wj_terminal j" "wj_closes j2 = []" "\<not> ok2 \<Longrightarrow> stop_cause env j2"
      "wj_out j2 = wj_out j @ (if ok then [(?f, Ob_mandatory)] else []) @ (if ok2 then [(?c, Ob_mandatory)] else [])" "ok2 \<longrightarrow> ok"
      using e1 e2 assms(7) by (auto simp: worker_enqueue_def Let_def stop_cause_def split: if_split_asm)
    have close: "closing_messages (we_factor env) (wj_stream j2) (wj_terminal j2) = [(?f, Ob_mandatory), (?c, Ob_mandatory)]"
      using tm j2 by (simp add: closing_messages_def)
    have held2: "worker_held j2" using assms(2) j2 by (simp add: worker_held_def)
    have out: "numbered (wj_out j2) = event_messages (we_configuration env) (wj_events j2) @
        (if ok then [(?f, Ob_mandatory)] else []) @ (if ok2 then [(?c, Ob_mandatory)] else [])"
      using assms(3) j2 by (simp add: all_sent_def)
    have pre: "prefix (numbered (wj_out j2)) (event_messages (we_configuration env) (wj_events j2) @ closing_messages (we_factor env) (wj_stream j2) (wj_terminal j2))"
      using j2(9) unfolding out close by auto
    show ?thesis
    proof (cases ok2)
      case True
      then show ?thesis using k j2 out close assms False held2 fed
        by (simp add: worker_result_def ask_close_def worker_held_def)
    next
      case no: False
      obtain reason j3 where r3: "read_reason env j2 = (reason, j3)" by force
      have j3: "worker_held j3" "\<exists>n. wj_fed j3 = take n (popped env (wj_pops j3))"
        "prefix (numbered (wj_out j3)) (event_messages (we_configuration env) (wj_events j3) @ closing_messages (we_factor env) (wj_stream j3) (wj_terminal j3))"
        using r3 held2 pre fed j2(1,2) by (auto simp: read_reason_def worker_held_def)
      show ?thesis
      proof (cases "cancel_requested reason")
        case True
        then have "(q, k) = (Stop_worker, j3)" "stop_cause env j3" using k no r3 read_reason_held(5) [OF r3] by simp_all
        then show ?thesis using j3 by (simp add: worker_result_def)
      next
        case False
        then show ?thesis using k no r3 failure_result [OF j3] by simp
      qed
    qed
  qed
qed

lemma run_worker_result:
  assumes "run_worker ops env (new_worker s) = Some (q, k)" "held 0 [] s"
  shows "worker_result env (q, k)"
proof -
  have j0: "worker_held (new_worker s)" "all_sent env (new_worker s)" "wj_fed (new_worker s) = popped env (wj_pops (new_worker s))"
    "wj_closes (new_worker s) = []"
    using assms(2) by (simp_all add: new_worker_def worker_held_def all_sent_def terminal_of_def event_messages_def popped_def)
  obtain q1 j1 where 1: "worker_input ops env (new_worker s) = Some (q1, j1)"
    "(if q1 \<noteq> Go_on then Some (q1, j1)
      else do {
        (finished, j2) \<leftarrow> worker_finish ops env j1;
        (if finished \<noteq> Go_on then Some (finished, j2)
         else do {
           (drained, j3) \<leftarrow> worker_drain ops env j2;
           Some (if drained \<noteq> Go_on then (drained, j3) else worker_complete ops env j3)
         })
      }) = Some (q, k)"
    using assms(1) by (auto simp: run_worker_def split: Option.bind_splits)
  have ok1: "input_ok env (q1, j1)" by (rule worker_input_ok [OF 1(1) refl j0])
  have prefixes: "\<exists>n. wj_fed l = take n (popped env (wj_pops l))" if "wj_fed l = wj_fed j1" "wj_pops l = wj_pops j1" for l
    using ok1 that by (simp add: input_ok_def)
  show ?thesis
  proof (cases "q1 = Go_on")
    case False
    then show ?thesis using 1(2) ok1 step_worker_result by (simp add: input_ok_def)
  next
    case True
    then have j1: "worker_held j1" "all_sent env j1" "wj_closes j1 = []" "wj_fed j1 = popped env (wj_pops j1)"
      "we_pop env (wj_pops j1 - 1) = Pop_finish"
      using ok1 True step_okD [of env j1] by (auto simp: input_ok_def)
    obtain q2 j2 where 2: "worker_finish ops env j1 = Some (q2, j2)"
      "(if q2 \<noteq> Go_on then Some (q2, j2)
        else do {
          (drained, j3) \<leftarrow> worker_drain ops env j2;
          Some (if drained \<noteq> Go_on then (drained, j3) else worker_complete ops env j3)
        }) = Some (q, k)"
      using 1(2) True by (auto split: Option.bind_splits)
    note ok2 = worker_finish_ok [OF 2(1) refl j1(1,2), simplified]
    show ?thesis
    proof (cases "q2 = Go_on")
      case False
      then show ?thesis using 2(2) ok2 step_worker_result prefixes [of j2] by simp
    next
      case True
      then have j2: "worker_held j2" "all_sent env j2" using ok2 step_okD [of env j2] by auto
      obtain q3 j3 where 3: "worker_drain ops env j2 = Some (q3, j3)" "(q, k) = (if q3 \<noteq> Go_on then (q3, j3) else worker_complete ops env j3)"
        using 2(2) True by (auto split: Option.bind_splits)
      note ok3 = worker_drain_ok [OF 3(1) refl j2, simplified]
      have same: "wj_fed j3 = wj_fed j1" "wj_pops j3 = wj_pops j1" "wj_closes j3 = []"
        using ok2 ok3 True j1(3) by (simp_all add: same_input_def)
      show ?thesis
      proof (cases "q3 = Go_on")
        case False
        then show ?thesis using 3(2) ok3 step_worker_result prefixes [OF same(1,2)] by simp
      next
        case True
        then have "worker_complete ops env j3 = (q, k)" using 3(2) by simp
        then show ?thesis
          by (rule complete_result) (use True ok3 same j1 step_okD in auto)
      qed
    qed
  qed
qed

lemma inference_worker_result:
  assumes "inference_worker ops env s = Some (q, j)" "held 0 [] s"
  shows "worker_result env (q, j) \<and> (q \<noteq> Go_on \<longrightarrow> stop_cause env j)"
proof -
  obtain k where k: "run_worker ops env (new_worker s) = Some (q, k)"
    "j = (case q of Throw (st, _) \<Rightarrow> worker_failure env (api_error_code st) (safe_status_message st) k | _ \<Rightarrow> k)"
    using assms(1) by (auto simp: inference_worker_def)
  note r = run_worker_result [OF k(1) assms(2)]
  show ?thesis
  proof (cases q)
    case (Throw e)
    then have "worker_result env (Stop_worker, j)"
      using k(2) r failure_result [of k env] by (auto simp: worker_result_def split: prod.splits)
    then show ?thesis using Throw by (simp add: worker_result_def)
  qed (use k(2) r in \<open>simp_all add: worker_result_def\<close>)
qed

end

section \<open>Sequence numbers\<close>

lemma event_message_numbers:
  "List.map (\<lambda>m. the (message_sequence (fst m))) (event_messages c evs) = List.map pe_sequence (filter (\<lambda>e. event_message c e \<noteq> []) evs)"
  by (induction evs) (auto simp: event_messages_def event_message_def)

lemma event_messages_increasing:
  assumes "api_trace rt evs s" "length evs < 2 ^ 64"
  shows "sorted_wrt (<) (List.map (\<lambda>m. the (message_sequence (fst m))) (event_messages c evs))"
proof -
  have "List.map pe_sequence evs = List.map (\<lambda>i. int i + 1) [0..<length evs]"
    using api_trace_inv [OF assms(1)] assms(2) by (auto intro!: map_cong)
  moreover have "sorted_wrt (\<lambda>x y. int x + 1 < int y + 1) [0..<length evs]"
    by (rule sorted_wrt_mono_rel [OF _ sorted_wrt_upt]) simp
  ultimately have "sorted_wrt (<) (List.map pe_sequence evs)" by (simp only: sorted_wrt_map)
  then show ?thesis unfolding event_message_numbers by (simp add: sorted_wrt_map sorted_wrt_filter)
qed

section \<open>Properties\<close>

text \<open>C16: The numbered messages an inference worker has accepted for its client are always a prefix of: one message per
polled token or partial event that the client asked for, in the order polled and with increasing sequence numbers,
then the final transcript and the completion.  A worker that ran to its end sent all of them, with the stream's whole
transcript, after feeding its stream exactly the audio the queue gave it, and asked for a normal close; any other fed
a prefix of that audio.\<close>

theorem realtime_worker_messages:
  assumes "engine_create env0 ctx = Some (Inr s, ctx1)" "inference_worker (capi_ops rt metrics) env s = Some (q, j)"
    and "length (wj_events j) < 2 ^ 64"
  shows "let t = terminal_of (wj_events j);
      closing = (case engine_final_text (wj_stream j) of
          Inl _ \<Rightarrow> []
        | Inr transcript \<Rightarrow>
            [(final_event_json (te_final_sequence t) transcript (te_final_audio_end_ms t), Ob_mandatory),
             (completed_event_json (te_completed_sequence t) (metrics (wj_stream j)) (we_factor env (metrics (wj_stream j))),
              Ob_mandatory)]);
      events = event_messages (we_configuration env) (wj_events j)
    in api_trace rt (wj_events j) (wj_stream j) \<and> prefix (numbered (wj_out j)) (events @ closing) \<and>
       sorted_wrt (<) (List.map (\<lambda>m. the (message_sequence (fst m))) events) \<and>
       prefix (wj_fed j) (popped env (wj_pops j)) \<and> lc_total_samples_received (st_life (wj_stream j)) = int (length (wj_fed j)) \<and>
       (q = Go_on \<longrightarrow>
          numbered (wj_out j) = events @ closing \<and> length closing = 2 \<and> wj_fed j = popped env (wj_pops j) \<and>
          we_pop env (wj_pops j - 1) = Pop_finish \<and> ev_queue (st_ev (wj_stream j)) = [] \<and>
          public_get_state (Some (wj_stream j)) = Api_completed \<and> wj_closes j = [Close_normal])"
proof -
  have r: "api.worker_result rt metrics env (q, j)"
    using api.inference_worker_result [OF assms(2) create_held [OF assms(1)]] by blast
  have t: "api_trace rt (wj_events j) (wj_stream j)" using r by (simp add: api.worker_result_def api.worker_held_def api_held_def Let_def)
  show ?thesis
    using r event_messages_increasing [OF t assms(3), of "we_configuration env"]
    by (auto simp: api.worker_result_def api.worker_held_def api_held_def api.closing_messages_def engine_state_def Let_def take_is_prefix
        split: sum.splits)
qed

definition example_env :: worker_env where
  "example_env = \<lparr> we_configuration = \<lparr> rc_token_events = True, rc_partial_events = True \<rparr>, we_soft_lag_ms = 1000,
     we_hard_lag_ms = 5000, we_pop = (\<lambda>_. Pop_finish), we_reason = (\<lambda>_. No_reason), we_accepts = (\<lambda>_. True),
     we_received = (\<lambda>_. 0), we_second_passed = (\<lambda>_. False), we_factor = (\<lambda>_. 0) \<rparr>"

lemma drain_step: "drain_turn ops env j = Some (Inr k) \<Longrightarrow> worker_drain ops env j = worker_drain ops env k"
  by (subst worker_drain.simps) simp

lemma drain_stop: "drain_turn ops env j = Some (Inl r) \<Longrightarrow> worker_drain ops env j = Some r"
  by (subst worker_drain.simps) simp

lemma realtime_worker_messages_witness:
  "\<exists>j. inference_worker (capi_ops echo_runtime (\<lambda>_. example_metrics)) example_env example_api_stream = Some (Go_on, j) \<and>
     length (wj_out j) = 2 \<and> length (numbered (wj_out j)) = 2 \<and> wj_closes j = [Close_normal]"
proof -
  let ?ops = "capi_ops echo_runtime (\<lambda>_ :: (unit, unit, unit, unit, int) stream. example_metrics)"
  obtain t e1 e2 where t: "engine_finish echo_runtime example_api_stream = Some (PS_ok, t)" "ev_queue (st_ev t) = [e1, e2]"
      "ev_type e1 = Ev_final_text" "ev_type e2 = Ev_completed" "public_get_state (Some t) = Api_completed" "de_transcript (st_dec t) = []"
    using example_finish by auto
  obtain t1 where t1: "engine_poll t = Some (PS_ok, public_event_of e1 (poll_seq t1), t1)" "ev_queue (st_ev t1) = [e2]"
      "st_life t1 = st_life t" "st_dec t1 = st_dec t" by (rule engine_poll_some [OF t(2)])
  obtain t2 where t2: "engine_poll t1 = Some (PS_ok, public_event_of e2 (poll_seq t2), t2)" "ev_queue (st_ev t2) = []"
      "st_life t2 = st_life t" "st_dec t2 = st_dec t" using engine_poll_some [OF t1(2)] t1(3,4) by metis
  have st: "public_get_state (Some t2) = Api_completed" "de_transcript (st_dec t2) = []"
    using t(5,6) t2(3,4) by (simp_all add: public_get_state_def stream_get_state_def)
  have f: "engine_final_text t2 = Inr []"
    using st by (simp add: engine_final_text_def public_get_final_text_def Let_def)
  let ?j1 = "(new_worker example_api_stream) \<lparr> wj_pops := 1, wj_checks := 1 \<rparr>"
  let ?j2 = "?j1 \<lparr> wj_checks := 2, wj_stream := t \<rparr>"
  have a: "worker_input ?ops example_env (new_worker example_api_stream) = Some (Go_on, ?j1)"
    by (subst worker_input.simps) (simp add: example_env_def read_reason_def new_worker_def cancel_requested_def)
  have b: "worker_finish ?ops example_env ?j1 = Some (Go_on, ?j2)"
    using t(1) by (subst worker_finish.simps) (simp add: example_env_def read_reason_def new_worker_def cancel_requested_def)
  note turn = drain_turn_def read_reason_def note_poll_def handle_event_def example_env_def cancel_requested_def new_worker_def
    final_type_def completed_type_def partial_type_def token_type_def set_terminal_def
  obtain j3 where j3: "drain_turn ?ops example_env ?j2 = Some (Inr j3)" "wj_stream j3 = t1" "te_final_seen (wj_terminal j3)"
      "wj_out j3 = []" "wj_closes j3 = []" "length (wj_events j3) = 1"
    using t1(1) t(3) by (simp add: turn)
  obtain j4 where j4: "drain_turn ?ops example_env j3 = Some (Inr j4)" "wj_stream j4 = t2" "te_final_seen (wj_terminal j4)"
      "te_completed_seen (wj_terminal j4)" "wj_out j4 = []" "wj_closes j4 = []" "length (wj_events j4) = 2"
    using t2(1) t(4) j3 by (simp add: turn)
  obtain j5 where j5: "drain_turn ?ops example_env j4 = Some (Inl (Go_on, j5))" "wj_stream j5 = t2" "te_final_seen (wj_terminal j5)"
      "te_completed_seen (wj_terminal j5)" "wj_out j5 = []" "wj_closes j5 = []" "length (wj_events j5) = 2"
    using engine_poll_empty [OF t2(2)] j4 by (simp add: turn)
  have d: "worker_drain ?ops example_env ?j2 = Some (Go_on, j5)"
    using drain_step [OF j3(1)] drain_step [OF j4(1)] drain_stop [OF j5(1)] by simp
  have e: "worker_enqueue example_env m k l = (True, l \<lparr> wj_calls := wj_calls l + 1, wj_out := wj_out l @ [(m, k)] \<rparr>)" for m k and l :: "(unit, unit, unit, unit, int) stream worker_job"
    by (simp add: worker_enqueue_def example_env_def)
  obtain j where r: "run_worker ?ops example_env (new_worker example_api_stream) = Some (Go_on, j)"
      "wj_out j \<noteq> []" "length (wj_out j) = 2" "wj_stream j = t2" "length (wj_events j) = 2" "wj_closes j = [Close_normal]"
      "length (numbered (wj_out j)) = 2"
    using a b d j5(2-7) f st(1) by (simp add: run_worker_def worker_complete_def engine_state_def Let_def e ask_close_def numbered_def)
  then have j: "inference_worker ?ops example_env example_api_stream = Some (Go_on, j)" by (simp add: inference_worker_def)
  obtain c where "engine_create plain_env example_api_context = Some (Inr example_api_stream, c)" using example_engine_create by blast
  from realtime_worker_messages [OF this j] r have "wj_fed j = popped example_env (wj_pops j)" by (simp add: Let_def)
  then show ?thesis using j r by blast
qed

text \<open>C37: An inference worker that returns before the end never leaves its session waiting in silence: it saw a
cancellation, the queue was cancelled, a message was refused (the connection is gone or the message too large), or
it asked for the connection to be closed.\<close>

theorem realtime_worker_never_silent:
  assumes "engine_create env0 ctx = Some (Inr s, ctx1)" "inference_worker (capi_ops rt metrics) env s = Some (q, j)" "q \<noteq> Go_on"
  shows "(\<exists>n<wj_checks j. cancel_requested (we_reason env n)) \<or> (\<exists>n<wj_pops j. we_pop env n = Pop_cancel) \<or>
    (\<exists>n<wj_calls j. \<not> we_accepts env n) \<or> wj_closes j \<noteq> []"
  using api.inference_worker_result [OF assms(2) create_held [OF assms(1)]] assms(3) by (simp add: stop_cause_def)

lemma realtime_worker_never_silent_witness:
  "\<exists>j. inference_worker (capi_ops echo_runtime (\<lambda>_. example_metrics)) (example_env \<lparr> we_reason := \<lambda>_. By_client \<rparr>) example_api_stream =
     Some (Stop_worker, j) \<and> wj_out j = [(cancelled_event_json, Ob_mandatory)] \<and> wj_closes j = [Close_normal]"
proof -
  let ?ops = "capi_ops echo_runtime (\<lambda>_ :: (unit, unit, unit, unit, int) stream. example_metrics)"
  obtain t where "engine_cancel example_api_stream = Some (PS_ok, t)"
    by (simp add: engine_cancel_def public_cancel_def public_call_def stream_cancel_def guarded_def cancel_body_def)
  then obtain j where j: "inference_worker ?ops (example_env \<lparr> we_reason := \<lambda>_. By_client \<rparr>) example_api_stream = Some (Stop_worker, j)"
      "wj_out j = [(cancelled_event_json, Ob_mandatory)]" "wj_closes j = [Close_normal]"
    by (simp add: inference_worker_def run_worker_def worker_input.simps [of ?ops] handle_worker_cancellation_def new_worker_def
        read_reason_def example_env_def cancel_requested_def worker_enqueue_def ask_close_def)
  obtain c where "engine_create plain_env example_api_context = Some (Inr example_api_stream, c)" using example_engine_create by blast
  from realtime_worker_never_silent [OF this j(1)] j show ?thesis by auto
qed

end
