(* ===== verification/ServerApp.thy ===== *)
theory ServerApp
  imports ServerHttp EngineJobs
begin

text \<open>The server process (\<open>server/server-app.cpp\<close>) with its HTTP sessions (\<open>server/http-session.cpp\<close>): accepting,
answering, the worker slot, batch jobs and their results, disconnects and shutdown.  A handler of the network thread
is atomic; the completions the network library owes a session (its read, its write, the wait for readability) and the
posted handlers are steps that are possible while they are owed, in any order; the worker thread's two actions after
a job (its result with the release of the lease, and the return of the slot) are steps of their own.  A realtime
session is only its place in the server and its lease (see \<open>RealtimeSession\<close>).  \<open>hx_responses\<close> is history.\<close>

section \<open>State\<close>

datatype http_response = Error_response nat string bool | Health_response gpu_mode bool | Text_response string | Json_response string

text \<open>The bodies: the health report of a mode and of whether the server takes requests, and the report of a
transcription.\<close>

record server_names =
  sn_server_version :: string
  sn_voxtral_version :: string
  sn_api_version :: int
  sn_model :: string

definition health_report :: "server_names \<Rightarrow> gpu_mode \<Rightarrow> bool \<Rightarrow> json" where
  "health_report n mode ready =
    Json_object
      [(''status'', Json_string ''ok''), (''ready'', Json_bool ready),
       (''busy'', Json_bool (mode = Gpu_batch \<or> mode = Gpu_realtime)),
       (''busy_mode'', if mode = Gpu_batch then Json_string ''batch'' else if mode = Gpu_realtime then Json_string ''realtime'' else Json_null),
       (''server_version'', Json_string (sn_server_version n)), (''voxtral_version'', Json_string (sn_voxtral_version n)),
       (''voxtral_api_version'', Json_int (sn_api_version n)), (''model'', Json_string (sn_model n)),
       (''capabilities'', Json_object [(''sample_rate'', Json_int 16000), (''channels'', Json_int 1),
          (''audio_format'', Json_string ''pcm_s16le''), (''max_active_streams'', Json_int 1)])]"

definition transcription_report :: "string \<Rightarrow> server_names \<Rightarrow> string \<Rightarrow> int \<Rightarrow> real \<Rightarrow> json" where
  "transcription_report ident n transcript duration_ms processing_ms =
    Json_object
      [(''id'', Json_string ident), (''object'', Json_string ''audio.transcription''), (''model'', Json_string (sn_model n)),
       (''text'', Json_string transcript), (''duration_ms'', Json_int duration_ms), (''processing_ms'', Json_double processing_ms),
       (''realtime_factor'', Json_double (if duration_ms = 0 then 0 else processing_ms / real_of_int duration_ms))]"

record http_session =
  hx_running :: bool
  hx_done :: bool
  hx_cell :: "nat option"
  hx_closed :: bool
  hx_transferred :: bool
  hx_reading :: bool
  hx_writing :: bool
  hx_watching :: bool
  hx_responses :: "http_response list"

definition new_http_session :: http_session where
  "new_http_session = \<lparr> hx_running = False, hx_done = False, hx_cell = None, hx_closed = False, hx_transferred = False,
     hx_reading = True, hx_writing = False, hx_watching = False, hx_responses = [] \<rparr>"

record realtime_place =
  rp_open :: bool
  rp_started :: bool
  rp_lease :: gpu_lease

datatype worker_slot = Slot_free | Slot_batch nat | Slot_realtime nat

datatype posted = Batch_result nat batch_result bool | Worker_finished

text \<open>\<open>ap_job\<close> is the batch job between its start and the release of its lease: whether it answers with text, and the
lease.\<close>

record server_app =
  ap_http :: "http_session list"
  ap_realtime :: "realtime_place list"
  ap_slot :: worker_slot
  ap_job :: "(bool \<times> gpu_lease) option"
  ap_leases :: lease_manager
  ap_posted :: "posted list"
  ap_shutting_down :: bool
  ap_timer :: bool
  ap_stopped :: bool

definition new_app :: server_app where
  "new_app = \<lparr> ap_http = [], ap_realtime = [], ap_slot = Slot_free, ap_job = None, ap_leases = new_manager, ap_posted = [],
     ap_shutting_down = False, ap_timer = False, ap_stopped = False \<rparr>"

definition on_http :: "nat \<Rightarrow> (http_session \<Rightarrow> http_session) \<Rightarrow> server_app \<Rightarrow> server_app" where
  "on_http i f a = a \<lparr> ap_http := (ap_http a) [i := f (ap_http a ! i)] \<rparr>"

section \<open>Registration and the end of the process\<close>

text \<open>Whether something still holds a shared pointer to the session.\<close>

definition http_alive :: "nat \<Rightarrow> server_app \<Rightarrow> bool" where
  "http_alive i a \<longleftrightarrow>
    (let s = ap_http a ! i in hx_reading s \<or> hx_writing s \<or> hx_watching s) \<or> ap_slot a = Slot_batch i \<or>
    (\<exists>r t. Batch_result i r t \<in> set (ap_posted a))"

definition http_registered :: "http_session \<Rightarrow> bool" where
  "http_registered s \<longleftrightarrow> \<not> hx_closed s \<and> \<not> hx_transferred s"

definition sessions_left :: "server_app \<Rightarrow> bool" where
  "sessions_left a \<longleftrightarrow>
    (\<exists>i < length (ap_http a). http_registered (ap_http a ! i) \<and> http_alive i a) \<or> (\<exists>p \<in> set (ap_realtime a). rp_open p)"

definition maybe_finish_shutdown :: "server_app \<Rightarrow> server_app" where
  "maybe_finish_shutdown a =
    (if \<not> ap_shutting_down a then a
     else if ap_slot a = Slot_free \<and> \<not> sessions_left a then a \<lparr> ap_timer := False, ap_stopped := True \<rparr>
     else a)"

definition close_http :: "nat \<Rightarrow> server_app \<Rightarrow> server_app" where
  "close_http i a =
    (if hx_closed (ap_http a ! i) \<or> hx_transferred (ap_http a ! i) then a
     else maybe_finish_shutdown (on_http i (\<lambda>s. s \<lparr> hx_closed := True \<rparr>) a))"

section \<open>A session\<close>

definition send_response :: "nat \<Rightarrow> http_response \<Rightarrow> server_app \<Rightarrow> server_app" where
  "send_response i r a =
    (if hx_closed (ap_http a ! i) then a
     else on_http i (\<lambda>s. s \<lparr> hx_writing := True, hx_responses := hx_responses s @ [r] \<rparr>) a)"

text \<open>\<open>spawn\<close> is whether the operating system gives a thread.\<close>

definition start_batch :: "nat \<Rightarrow> bool \<Rightarrow> gpu_lease \<Rightarrow> bool \<Rightarrow> server_app \<Rightarrow> server_app" where
  "start_batch i text_response lease spawn a =
    (let refused = (\<lambda>r. let a1 = on_http i (\<lambda>s. s \<lparr> hx_running := False, hx_cell := None \<rparr>) a
                    in send_response i r (a1 \<lparr> ap_leases := snd (lease_reset lease (ap_leases a)) \<rparr>))
     in if ap_slot a \<noteq> Slot_free then refused (Error_response 503 ''server_busy'' True)
        else if \<not> spawn then refused (Error_response 500 ''internal_error'' False)
        else on_http i (\<lambda>s. s \<lparr> hx_running := True, hx_cell := gl_cancellation lease, hx_watching := True \<rparr>)
               (a \<lparr> ap_slot := Slot_batch i, ap_job := Some (text_response, lease) \<rparr>))"

definition on_request :: "http_settings \<Rightarrow> nat \<Rightarrow> http_request \<Rightarrow> bool \<Rightarrow> server_app \<Rightarrow> server_app option" where
  "on_request c i r spawn a =
    map_option (\<lambda>(outcome, m).
      let a1 = on_http i (\<lambda>s. s \<lparr> hx_reading := False \<rparr>) (a \<lparr> ap_leases := m \<rparr>) in
      (case outcome of
         Http_error status code retry \<Rightarrow> send_response i (Error_response status code retry) a1
       | Http_health \<Rightarrow> send_response i (Health_response (lm_mode m) (\<not> ap_shutting_down a)) a1
       | Http_batch audio text_response lease \<Rightarrow> start_batch i text_response lease spawn a1
       | Http_realtime lease \<Rightarrow>
           (let a2 = maybe_finish_shutdown (on_http i (\<lambda>s. s \<lparr> hx_transferred := True \<rparr>) a1)
            in a2 \<lparr> ap_realtime := ap_realtime a2 @ [\<lparr> rp_open = True, rp_started = False, rp_lease = lease \<rparr>] \<rparr>)))
      (http_route c (ap_shutting_down a) r (ap_leases a))"

definition on_read_error :: "nat \<Rightarrow> bool \<Rightarrow> server_app \<Rightarrow> server_app" where
  "on_read_error i too_large a =
    (let a1 = on_http i (\<lambda>s. s \<lparr> hx_reading := False \<rparr>) a
     in if too_large then send_response i (Error_response 413 ''request_too_large'' False) a1 else close_http i a1)"

definition on_written :: "nat \<Rightarrow> server_app \<Rightarrow> server_app" where
  "on_written i a = close_http i (on_http i (\<lambda>s. s \<lparr> hx_writing := False \<rparr>) a)"

text \<open>The socket became readable while the batch ran, or the wait was aborted.\<close>

definition on_readable :: "nat \<Rightarrow> bool \<Rightarrow> server_app \<Rightarrow> server_app" where
  "on_readable i aborted a =
    (let a1 = on_http i (\<lambda>s. s \<lparr> hx_watching := False \<rparr>) a; s = ap_http a ! i in
     if hx_done s \<or> aborted then a1
     else close_http i (a1 \<lparr> ap_leases := request_at By_disconnect (hx_cell s) (ap_leases a1) \<rparr>))"

definition result_response :: "batch_result \<Rightarrow> bool \<Rightarrow> http_response" where
  "result_response r text_response =
    (if \<not> bt_ok r then Error_response (api_http_status (bt_status r)) (api_error_code (bt_status r)) False
     else if text_response then Text_response (bt_text r) else Json_response (bt_text r))"

definition on_batch_result :: "nat \<Rightarrow> batch_result \<Rightarrow> bool \<Rightarrow> server_app \<Rightarrow> server_app" where
  "on_batch_result i r text_response a =
    (let a1 = on_http i (\<lambda>s. s \<lparr> hx_running := False, hx_done := True, hx_cell := None \<rparr>) a in
     if hx_closed (ap_http a ! i) \<or> ap_shutting_down a \<or> bt_cancelled r
     then (if bt_cancelled r \<and> \<not> hx_closed (ap_http a ! i) then close_http i a1 else a1)
     else send_response i (result_response r text_response) a1)"

section \<open>The worker thread\<close>

text \<open>The end of the job: the lease is let go, then the result is posted.\<close>

definition finish_job :: "nat \<Rightarrow> batch_result \<Rightarrow> server_app \<Rightarrow> server_app" where
  "finish_job i r a =
    (case ap_job a of
       None \<Rightarrow> a
     | Some (text_response, lease) \<Rightarrow>
         a \<lparr> ap_job := None, ap_leases := snd (lease_reset lease (ap_leases a)),
             ap_posted := ap_posted a @ [Batch_result i r text_response] \<rparr>)"

definition return_slot :: "server_app \<Rightarrow> server_app" where
  "return_slot a = a \<lparr> ap_slot := Slot_free, ap_posted := ap_posted a @ [Worker_finished] \<rparr>"

section \<open>Realtime sessions, as far as the server sees them\<close>

definition release_realtime :: "nat \<Rightarrow> server_app \<Rightarrow> server_app" where
  "release_realtime k a =
    (let (l, m) = lease_reset (rp_lease (ap_realtime a ! k)) (ap_leases a)
     in a \<lparr> ap_leases := m, ap_realtime := (ap_realtime a) [k := (ap_realtime a ! k) \<lparr> rp_lease := l \<rparr>] \<rparr>)"

text \<open>\<open>start_inference_worker\<close>, once per session: the lease stays with the session's worker, or is let go.\<close>

definition start_realtime_worker :: "nat \<Rightarrow> bool \<Rightarrow> server_app \<Rightarrow> server_app" where
  "start_realtime_worker k spawn a =
    (if ap_slot a \<noteq> Slot_free \<or> \<not> spawn then release_realtime k a
     else a \<lparr> ap_slot := Slot_realtime k, ap_realtime := (ap_realtime a) [k := (ap_realtime a ! k) \<lparr> rp_started := True \<rparr>] \<rparr>)"

text \<open>Closing: a lease no worker holds is let go, and the session unregistered.\<close>

definition close_realtime :: "nat \<Rightarrow> server_app \<Rightarrow> server_app" where
  "close_realtime k a =
    (let a1 = (if rp_started (ap_realtime a ! k) then a else release_realtime k a)
     in maybe_finish_shutdown (a1 \<lparr> ap_realtime := (ap_realtime a1) [k := (ap_realtime a1 ! k) \<lparr> rp_open := False \<rparr>] \<rparr>))"

section \<open>Shutdown\<close>

definition session_initiate_shutdown :: "nat \<Rightarrow> server_app \<Rightarrow> server_app" where
  "session_initiate_shutdown i a =
    close_http i (a \<lparr> ap_leases := request_at By_shutdown (hx_cell (ap_http a ! i)) (ap_leases a) \<rparr>)"

definition live_sessions :: "server_app \<Rightarrow> nat list" where
  "live_sessions a = filter (\<lambda>i. http_registered (ap_http a ! i) \<and> http_alive i a) [0..<length (ap_http a)]"

definition shutdown_sessions :: "server_app \<Rightarrow> server_app" where
  "shutdown_sessions a = fold session_initiate_shutdown (live_sessions a) a"

definition initiate_server_shutdown :: "server_app \<Rightarrow> server_app" where
  "initiate_server_shutdown a =
    (if ap_shutting_down a then a
     else let a1 = shutdown_sessions (a \<lparr> ap_shutting_down := True, ap_leases := begin_shutdown (ap_leases a) \<rparr>)
          in maybe_finish_shutdown (a1 \<lparr> ap_timer := True \<rparr>))"

definition force_shutdown :: "server_app \<Rightarrow> server_app" where
  "force_shutdown a = (shutdown_sessions a) \<lparr> ap_timer := False, ap_stopped := True \<rparr>"

section \<open>Steps\<close>

text \<open>An accept that is already complete when the shutdown starts still makes a session.\<close>

definition accept_http :: "server_app \<Rightarrow> server_app" where
  "accept_http a = a \<lparr> ap_http := ap_http a @ [new_http_session] \<rparr>"

definition run_posted :: "posted \<Rightarrow> server_app \<Rightarrow> server_app" where
  "run_posted p a =
    (let a1 = a \<lparr> ap_posted := remove1 p (ap_posted a) \<rparr> in
     case p of Worker_finished \<Rightarrow> maybe_finish_shutdown a1 | Batch_result i r t \<Rightarrow> on_batch_result i r t a1)"

inductive app_step :: "http_settings \<Rightarrow> server_app \<Rightarrow> server_app \<Rightarrow> bool" for c where
  Accept: "\<not> ap_stopped a \<Longrightarrow> app_step c a (accept_http a)"
| Request: "\<not> ap_stopped a \<Longrightarrow> i < length (ap_http a) \<Longrightarrow> hx_reading (ap_http a ! i) \<Longrightarrow> on_request c i r spawn a = Some b
    \<Longrightarrow> app_step c a b"
| Read_error: "\<not> ap_stopped a \<Longrightarrow> i < length (ap_http a) \<Longrightarrow> hx_reading (ap_http a ! i) \<Longrightarrow> app_step c a (on_read_error i too_large a)"
| Written: "\<not> ap_stopped a \<Longrightarrow> i < length (ap_http a) \<Longrightarrow> hx_writing (ap_http a ! i) \<Longrightarrow> app_step c a (on_written i a)"
| Readable: "\<not> ap_stopped a \<Longrightarrow> i < length (ap_http a) \<Longrightarrow> hx_watching (ap_http a ! i)
    \<Longrightarrow> aborted \<longrightarrow> hx_done (ap_http a ! i) \<or> hx_closed (ap_http a ! i) \<Longrightarrow> app_step c a (on_readable i aborted a)"
| Posted: "\<not> ap_stopped a \<Longrightarrow> p \<in> set (ap_posted a) \<Longrightarrow> app_step c a (run_posted p a)"
| Job_done: "ap_slot a = Slot_batch i \<Longrightarrow> ap_job a \<noteq> None \<Longrightarrow> app_step c a (finish_job i r a)"
| Slot_returned: "ap_slot a = Slot_batch i \<Longrightarrow> ap_job a = None \<Longrightarrow> app_step c a (return_slot a)"
| Realtime_start: "\<not> ap_stopped a \<Longrightarrow> k < length (ap_realtime a) \<Longrightarrow> gl_live (rp_lease (ap_realtime a ! k))
    \<Longrightarrow> \<not> rp_started (ap_realtime a ! k) \<Longrightarrow> app_step c a (start_realtime_worker k spawn a)"
| Realtime_done: "ap_slot a = Slot_realtime k \<Longrightarrow> app_step c a (return_slot (release_realtime k a))"
| Realtime_closed: "\<not> ap_stopped a \<Longrightarrow> k < length (ap_realtime a) \<Longrightarrow> rp_open (ap_realtime a ! k) \<Longrightarrow> app_step c a (close_realtime k a)"
| Signal: "\<not> ap_stopped a \<Longrightarrow> app_step c a (initiate_server_shutdown a)"
| Timeout: "\<not> ap_stopped a \<Longrightarrow> ap_timer a \<Longrightarrow> app_step c a (force_shutdown a)"

inductive_cases app_stepE: "app_step c a b"

inductive app_reach :: "http_settings \<Rightarrow> server_app \<Rightarrow> bool" for c where
  Start: "app_reach c new_app"
| Step: "app_reach c a \<Longrightarrow> app_step c a b \<Longrightarrow> app_reach c b"

end
