(* ===== verification/ServerAppCorrect.thy ===== *)
theory ServerAppCorrect
  imports ServerApp ServerHttpCorrect
begin

text \<open>What the server promises of its HTTP sessions, its lease and its shutdown, for every order of the network
thread's handlers and the worker's actions.\<close>

section \<open>Fields\<close>

lemma on_http_fields [simp]:
  "ap_realtime (on_http i f a) = ap_realtime a" "ap_slot (on_http i f a) = ap_slot a" "ap_job (on_http i f a) = ap_job a"
  "ap_leases (on_http i f a) = ap_leases a" "ap_posted (on_http i f a) = ap_posted a"
  "ap_shutting_down (on_http i f a) = ap_shutting_down a" "ap_stopped (on_http i f a) = ap_stopped a"
  "ap_http (on_http i f a) = (ap_http a) [i := f (ap_http a ! i)]" "ap_timer (on_http i f a) = ap_timer a"
  by (simp_all add: on_http_def)

lemma on_http_leases: "on_http i f (a \<lparr> ap_leases := m \<rparr>) = (on_http i f a) \<lparr> ap_leases := m \<rparr>"
  by (cases a) (simp add: on_http_def)

lemma maybe_finish_fields [simp]:
  "ap_http (maybe_finish_shutdown a) = ap_http a" "ap_realtime (maybe_finish_shutdown a) = ap_realtime a"
  "ap_slot (maybe_finish_shutdown a) = ap_slot a" "ap_job (maybe_finish_shutdown a) = ap_job a"
  "ap_leases (maybe_finish_shutdown a) = ap_leases a" "ap_posted (maybe_finish_shutdown a) = ap_posted a"
  "ap_shutting_down (maybe_finish_shutdown a) = ap_shutting_down a"
  by (simp_all add: maybe_finish_shutdown_def)

lemma close_http_fields [simp]:
  "ap_realtime (close_http i a) = ap_realtime a" "ap_slot (close_http i a) = ap_slot a" "ap_job (close_http i a) = ap_job a"
  "ap_leases (close_http i a) = ap_leases a" "ap_posted (close_http i a) = ap_posted a"
  "ap_shutting_down (close_http i a) = ap_shutting_down a"
  by (simp_all add: close_http_def)

text \<open>Closing a session.\<close>

definition closed_session :: "http_session \<Rightarrow> http_session" where
  "closed_session s = (if http_registered s then s \<lparr> hx_closed := True \<rparr> else s)"

lemma close_http_sessions [simp]: "ap_http (close_http i a) = (ap_http a) [i := closed_session (ap_http a ! i)]"
  by (simp add: close_http_def closed_session_def http_registered_def)

lemma session_shutdown_fields [simp]:
  "ap_realtime (session_initiate_shutdown i a) = ap_realtime a" "ap_slot (session_initiate_shutdown i a) = ap_slot a"
  "ap_job (session_initiate_shutdown i a) = ap_job a" "lm_mode (ap_leases (session_initiate_shutdown i a)) = lm_mode (ap_leases a)"
  "ap_posted (session_initiate_shutdown i a) = ap_posted a" "ap_shutting_down (session_initiate_shutdown i a) = ap_shutting_down a"
  "ap_http (session_initiate_shutdown i a) = (ap_http a) [i := closed_session (ap_http a ! i)]"
  by (simp_all add: session_initiate_shutdown_def)

lemma fold_shutdown_fields:
  "ap_realtime (fold session_initiate_shutdown xs a) = ap_realtime a \<and> ap_slot (fold session_initiate_shutdown xs a) = ap_slot a \<and>
   ap_job (fold session_initiate_shutdown xs a) = ap_job a \<and>
   lm_mode (ap_leases (fold session_initiate_shutdown xs a)) = lm_mode (ap_leases a) \<and>
   ap_posted (fold session_initiate_shutdown xs a) = ap_posted a \<and>
   ap_shutting_down (fold session_initiate_shutdown xs a) = ap_shutting_down a \<and>
   length (ap_http (fold session_initiate_shutdown xs a)) = length (ap_http a)"
  by (induction xs arbitrary: a) simp_all

lemma closed_session_idem [simp]: "closed_session (closed_session s) = closed_session s"
  by (simp add: closed_session_def http_registered_def)

lemma fold_shutdown_session:
  "i < length (ap_http a) \<Longrightarrow> ap_http (fold session_initiate_shutdown xs a) ! i
    = (if i \<in> set xs then closed_session (ap_http a ! i) else ap_http a ! i)"
proof (induction xs arbitrary: a)
  case (Cons x xs)
  then show ?case by (cases "x = i") auto
qed simp

lemmas shutdown_fields = fold_shutdown_fields [of "live_sessions a" a for a, folded shutdown_sessions_def]

section \<open>Leases\<close>

text \<open>The leases in the server's hands.\<close>

definition holders :: "server_app \<Rightarrow> gpu_lease list" where
  "holders a = (case ap_job a of None \<Rightarrow> [] | Some (t, l) \<Rightarrow> [l]) @ List.map rp_lease (ap_realtime a)"

definition lease_set :: "gpu_lease list \<Rightarrow> lease_manager \<Rightarrow> bool" where
  "lease_set ls m \<longleftrightarrow>
    length (live_leases ls) \<le> 1 \<and>
    (\<forall>l \<in> set ls. gl_live l \<longrightarrow> gl_mode l \<in> {Gpu_batch, Gpu_realtime} \<and> lm_mode m \<in> {gl_mode l, Gpu_shutting_down}) \<and>
    (manager_busy m \<longrightarrow> live_leases ls \<noteq> [])"

lemma lease_set_mode: "lm_mode m1 = lm_mode m \<Longrightarrow> lease_set ls m1 = lease_set ls m"
  by (simp add: lease_set_def manager_busy_def)

lemma lease_set_acquire:
  assumes "lease_set (xs @ ys) m" "try_acquire mode m = (l, m1)" "gl_live l"
  shows "lease_set (xs @ l # ys) m1" "lm_mode m = Gpu_free" "lm_mode m1 = mode" "mode \<in> {Gpu_batch, Gpu_realtime}" "gl_mode l = mode"
proof -
  have m: "mode \<in> {Gpu_batch, Gpu_realtime}" "lm_mode m = Gpu_free" "gl_mode l = mode" "lm_mode m1 = mode"
    using assms(2,3) by (auto simp: try_acquire_def Let_def empty_lease_def split: if_splits)
  then have "\<forall>x \<in> set (xs @ ys). \<not> gl_live x" using assms(1) by (auto simp: lease_set_def)
  then show "lease_set (xs @ l # ys) m1" using m assms(3) by (auto simp: lease_set_def live_leases_def filter_empty_conv)
  show "lm_mode m = Gpu_free" "lm_mode m1 = mode" "mode \<in> {Gpu_batch, Gpu_realtime}" "gl_mode l = mode" using m by auto
qed

lemma lease_set_reset:
  assumes "lease_set (xs @ l # ys) m" "lease_reset l m = (l1, m1)"
  shows "lease_set (xs @ l1 # ys) m1" "lease_set (xs @ ys) m1" "lm_mode m = Gpu_shutting_down \<longleftrightarrow> lm_mode m1 = Gpu_shutting_down"
proof -
  have "lease_set (xs @ l1 # ys) m1 \<and> lease_set (xs @ ys) m1 \<and> (lm_mode m = Gpu_shutting_down \<longleftrightarrow> lm_mode m1 = Gpu_shutting_down)"
  proof (cases "gl_live l")
    case True
    then have dead: "\<forall>x \<in> set (xs @ ys). \<not> gl_live x" and m: "lm_mode m \<in> {gl_mode l, Gpu_shutting_down}" "gl_mode l \<noteq> Gpu_shutting_down"
      using assms(1) by (auto simp: lease_set_def live_leases_def filter_empty_conv)
    have l: "\<not> gl_live l1" "m1 = manager_release (gl_mode l) m" using True assms(2) by (auto simp: lease_reset_def empty_lease_def)
    then have "\<not> manager_busy m1" "lm_mode m = Gpu_shutting_down \<longleftrightarrow> lm_mode m1 = Gpu_shutting_down"
      using m by (auto simp: manager_release_def manager_busy_def)
    then show ?thesis using dead l(1) by (auto simp: lease_set_def live_leases_def filter_empty_conv)
  next
    case False
    then show ?thesis using assms by (auto simp: lease_reset_def lease_set_def live_leases_def)
  qed
  then show "lease_set (xs @ l1 # ys) m1" "lease_set (xs @ ys) m1" "lm_mode m = Gpu_shutting_down \<longleftrightarrow> lm_mode m1 = Gpu_shutting_down"
    by auto
qed

lemma lease_set_shutdown: "lease_set ls m \<Longrightarrow> lease_set ls (begin_shutdown m)"
  by (auto simp: lease_set_def begin_shutdown_def manager_busy_def)

text \<open>A request takes a lease for a batch job or a realtime session, never during a shutdown, and changes nothing
otherwise.\<close>

lemma route_leases:
  assumes "http_route c sd r m = Some (outcome, m1)" "sd \<longrightarrow> lm_mode m = Gpu_shutting_down"
  shows "case outcome of
      Http_batch audio t l \<Rightarrow> \<not> sd \<and> try_acquire Gpu_batch m = (l, m1) \<and> gl_live l
    | Http_realtime l \<Rightarrow> \<not> sd \<and> try_acquire Gpu_realtime m = (l, m1) \<and> gl_live l
    | _ \<Rightarrow> m1 = m"
proof -
  have try_dead: "m2 = m" if "try_acquire mode m = (l, m2)" "\<not> gl_live l" for mode l m2
    using that by (auto simp: try_acquire_def Let_def split: if_splits)
  have try_shut: "\<not> gl_live l" if "try_acquire mode m = (l, m2)" "sd" for mode l m2
    using that assms(2) by (auto simp: try_acquire_def empty_lease_def split: if_splits)
  have batch: "case outcome of
      Http_batch audio t l \<Rightarrow> \<not> sd \<and> try_acquire Gpu_batch m = (l, m1) \<and> gl_live l
    | Http_realtime l \<Rightarrow> False | _ \<Rightarrow> m1 = m" if "handle_batch c sd r m = Some (outcome, m1)"
    using that try_dead
    by (auto simp: handle_batch_def busy_outcome_def Let_def split: if_split_asm option.splits Option.bind_splits sum.splits prod.splits)
  have realtime: "case outcome of
      Http_realtime l \<Rightarrow> \<not> sd \<and> try_acquire Gpu_realtime m = (l, m1) \<and> gl_live l
    | Http_batch audio t l \<Rightarrow> False | _ \<Rightarrow> m1 = m" if "handle_realtime_upgrade c sd r m = (outcome, m1)"
    using that try_dead try_shut
    by (auto simp: handle_realtime_upgrade_def busy_outcome_def split: if_split_asm prod.splits)
  show ?thesis
    using assms(1) batch realtime
    by (auto simp: http_route_def Let_def split: if_split_asm http_outcome.splits)
qed

section \<open>The invariant\<close>

text \<open>One session: it reads its request, or its batch runs, or it writes its one response, or it is over.\<close>

definition session_ok :: "bool \<Rightarrow> http_session \<Rightarrow> bool" where
  "session_ok sd s \<longleftrightarrow>
    (hx_reading s \<longrightarrow> \<not> hx_running s \<and> \<not> hx_done s \<and> \<not> hx_writing s \<and> \<not> hx_transferred s \<and> \<not> hx_watching s \<and>
       hx_responses s = [] \<and> (hx_closed s \<longrightarrow> sd)) \<and>
    (hx_running s \<longrightarrow> \<not> hx_writing s \<and> \<not> hx_transferred s \<and> \<not> hx_done s \<and> hx_responses s = [] \<and> (sd \<longrightarrow> hx_closed s)) \<and>
    length (hx_responses s) \<le> 1 \<and> (hx_writing s \<longrightarrow> hx_responses s \<noteq> []) \<and>
    (http_registered s \<longrightarrow> hx_reading s \<or> hx_running s \<or> hx_writing s) \<and>
    (hx_watching s \<longrightarrow> hx_running s \<or> hx_done s)"

text \<open>The results on their way to a session: posted, or those of the job.\<close>

definition pending_results :: "nat \<Rightarrow> server_app \<Rightarrow> nat" where
  "pending_results i a =
    length (filter (\<lambda>p. \<exists>r t. p = Batch_result i r t) (ap_posted a)) + (if ap_slot a = Slot_batch i \<and> ap_job a \<noteq> None then 1 else 0)"

definition running_now :: "nat \<Rightarrow> server_app \<Rightarrow> bool" where
  "running_now i a \<longleftrightarrow> i < length (ap_http a) \<and> hx_running (ap_http a ! i)"

definition app_inv :: "server_app \<Rightarrow> bool" where
  "app_inv a \<longleftrightarrow>
    (\<forall>i < length (ap_http a). session_ok (ap_shutting_down a) (ap_http a ! i)) \<and>
    (\<forall>i. pending_results i a = (if running_now i a then 1 else 0)) \<and>
    (ap_job a \<noteq> None \<longrightarrow> (\<exists>i. ap_slot a = Slot_batch i)) \<and>
    lease_set (holders a) (ap_leases a) \<and> (lm_mode (ap_leases a) = Gpu_shutting_down \<longleftrightarrow> ap_shutting_down a)"

lemma inv_congr:
  assumes "ap_http b = ap_http a" "ap_realtime b = ap_realtime a" "ap_slot b = ap_slot a" "ap_job b = ap_job a"
    "lm_mode (ap_leases b) = lm_mode (ap_leases a)" "ap_posted b = ap_posted a" "ap_shutting_down b = ap_shutting_down a"
  shows "app_inv b = app_inv a"
  using assms by (simp add: app_inv_def pending_results_def running_now_def holders_def lease_set_mode [of "ap_leases b" "ap_leases a"])

lemma inv_finish [simp]: "app_inv (maybe_finish_shutdown a) = app_inv a"
  by (rule inv_congr) simp_all

lemma inv_leases: "app_inv a \<Longrightarrow> lm_mode m = lm_mode (ap_leases a) \<Longrightarrow> app_inv (a \<lparr> ap_leases := m \<rparr>)"
  by (subst inv_congr [of _ a]) simp_all

lemma inv_session: "app_inv a \<Longrightarrow> i < length (ap_http a) \<Longrightarrow> session_ok (ap_shutting_down a) (ap_http a ! i)"
  unfolding app_inv_def by blast

lemma inv_parts:
  assumes "app_inv a"
  shows "pending_results i a = (if running_now i a then 1 else 0)" "ap_job a \<noteq> None \<Longrightarrow> \<exists>i. ap_slot a = Slot_batch i"
    "lease_set (holders a) (ap_leases a)" "lm_mode (ap_leases a) = Gpu_shutting_down \<longleftrightarrow> ap_shutting_down a"
  using assms unfolding app_inv_def by blast+

lemma inv_intro:
  "(\<And>i. i < length (ap_http a) \<Longrightarrow> session_ok (ap_shutting_down a) (ap_http a ! i)) \<Longrightarrow>
   (\<And>i. pending_results i a = (if running_now i a then 1 else 0)) \<Longrightarrow>
   (ap_job a \<noteq> None \<Longrightarrow> \<exists>i. ap_slot a = Slot_batch i) \<Longrightarrow>
   lease_set (holders a) (ap_leases a) \<Longrightarrow> (lm_mode (ap_leases a) = Gpu_shutting_down \<longleftrightarrow> ap_shutting_down a) \<Longrightarrow> app_inv a"
  unfolding app_inv_def by blast

lemma inv_http:
  assumes "app_inv a" "i < length (ap_http a)" "session_ok (ap_shutting_down a) (f (ap_http a ! i))"
    "hx_running (f (ap_http a ! i)) = hx_running (ap_http a ! i)"
  shows "app_inv (on_http i f a)"
proof -
  have "running_now j (on_http i f a) = running_now j a" for j
    using assms(2,4) by (auto simp: running_now_def nth_list_update)
  moreover have "pending_results j (on_http i f a) = pending_results j a" "holders (on_http i f a) = holders a" for j
    by (simp_all add: pending_results_def holders_def)
  ultimately show ?thesis
    using inv_parts [OF assms(1)] inv_session [OF assms(1)] assms(2,3)
    by (intro inv_intro) (auto simp: nth_list_update)
qed

lemma session_ok_closed:
  "session_ok sd s \<Longrightarrow> (hx_reading s \<longrightarrow> sd) \<Longrightarrow> session_ok sd (closed_session s)" "hx_running (closed_session s) = hx_running s"
  by (auto simp: session_ok_def closed_session_def http_registered_def)

lemma close_is_http:
  "close_http i a = (if http_registered (ap_http a ! i) then maybe_finish_shutdown (on_http i closed_session a) else a)"
  by (auto simp: close_http_def http_registered_def closed_session_def on_http_def)

text \<open>A handler that changes its session and then closes it.\<close>

lemma close_after:
  assumes "i < length (ap_http a)"
  shows "close_http i (on_http i f a) = on_http i (\<lambda>s. closed_session (f s)) a \<or>
    close_http i (on_http i f a) = maybe_finish_shutdown (on_http i (\<lambda>s. closed_session (f s)) a)"
  using assms by (auto simp: close_is_http on_http_def closed_session_def)

lemma inv_close_after:
  assumes "app_inv (on_http i (\<lambda>s. closed_session (f s)) a)" "i < length (ap_http a)"
  shows "app_inv (close_http i (on_http i f a))"
  using close_after [OF assms(2), of f] assms(1) by auto

lemma inv_close:
  "app_inv a \<Longrightarrow> i < length (ap_http a) \<Longrightarrow> (hx_reading (ap_http a ! i) \<longrightarrow> ap_shutting_down a) \<Longrightarrow> app_inv (close_http i a)"
  using inv_session [of a i] session_ok_closed
  by (auto simp: close_is_http intro: inv_http)

lemma responding:
  assumes "session_ok sd s" "hx_reading s"
  shows "session_ok sd (s \<lparr> hx_reading := False, hx_writing := True, hx_responses := hx_responses s @ [r] \<rparr>)"
    "hx_closed s \<Longrightarrow> session_ok sd (s \<lparr> hx_reading := False \<rparr>)"
  using assms by (auto simp: session_ok_def http_registered_def)

text \<open>A request that is answered at once.\<close>

lemma inv_answered:
  assumes "app_inv a" "i < length (ap_http a)" "hx_reading (ap_http a ! i)"
  shows "app_inv (send_response i r (on_http i (\<lambda>s. s \<lparr> hx_reading := False \<rparr>) a))"
proof -
  let ?s = "ap_http a ! i"
  have s: "session_ok (ap_shutting_down a) ?s" using inv_session assms by blast
  show ?thesis
  proof (cases "hx_closed ?s")
    case True
    then show ?thesis using assms s responding(2) [OF s assms(3)]
      by (auto simp: send_response_def intro: inv_http)
  next
    case False
    have "send_response i r (on_http i (\<lambda>s. s \<lparr> hx_reading := False \<rparr>) a)
        = on_http i (\<lambda>s. s \<lparr> hx_reading := False, hx_writing := True, hx_responses := hx_responses s @ [r] \<rparr>) a"
      using False assms(2) by (simp add: send_response_def on_http_def)
    then show ?thesis using assms responding(1) [OF s assms(3)] by (auto intro: inv_http)
  qed
qed

lemma holders_leases [simp]: "holders (a \<lparr> ap_leases := m \<rparr>) = holders a" "holders (on_http i f a) = holders a"
  by (simp_all add: holders_def)

lemma pending_none:
  "app_inv a \<Longrightarrow> \<not> running_now i a \<Longrightarrow> filter (\<lambda>p. \<exists>r t. p = Batch_result i r t) (ap_posted a) = [] \<and> \<not> (ap_slot a = Slot_batch i \<and> ap_job a \<noteq> None)"
  using inv_parts(1) [of a i] by (auto simp: pending_results_def split: if_split_asm)

text \<open>A batch request that was admitted: it starts, or its lease is let go and it is answered.\<close>

lemma inv_start_batch:
  assumes "app_inv a" "i < length (ap_http a)" "hx_reading (ap_http a ! i)" "\<not> ap_shutting_down a"
    and l: "try_acquire Gpu_batch (ap_leases a) = (lease, m)" "gl_live lease"
  shows "app_inv (start_batch i t lease spawn (on_http i (\<lambda>s. s \<lparr> hx_reading := False \<rparr>) (a \<lparr> ap_leases := m \<rparr>)))"
proof (cases "ap_slot a = Slot_free \<and> spawn")
  case True
  let ?f = "\<lambda>s. s \<lparr> hx_reading := False, hx_running := True, hx_cell := gl_cancellation lease, hx_watching := True \<rparr>"
  let ?b = "(on_http i ?f a) \<lparr> ap_leases := m, ap_slot := Slot_batch i, ap_job := Some (t, lease) \<rparr>"
  have eq: "start_batch i t lease spawn (on_http i (\<lambda>s. s \<lparr> hx_reading := False \<rparr>) (a \<lparr> ap_leases := m \<rparr>)) = ?b"
    using True assms(2) by (simp add: start_batch_def on_http_def Let_def)
  have s: "session_ok (ap_shutting_down a) (ap_http a ! i)" using inv_session assms by blast
  then have "session_ok (ap_shutting_down a) (?f (ap_http a ! i))"
    using assms(3,4) by (auto simp: session_ok_def http_registered_def)
  then have sessions: "\<forall>j < length (ap_http ?b). session_ok (ap_shutting_down ?b) (ap_http ?b ! j)"
    using assms(1,2) by (auto simp: nth_list_update inv_session)
  have idle: "\<not> running_now i a" using s assms(3) by (auto simp: running_now_def session_ok_def)
  have pend: "filter (\<lambda>p. \<exists>r t. p = Batch_result i r t) (ap_posted a) = []" using pending_none [OF assms(1) idle] by blast
  have no_job: "ap_job a = None" using inv_parts(2) [OF assms(1)] True by (cases "ap_job a") auto
  have results: "pending_results j ?b = (if running_now j ?b then 1 else 0)" for j
  proof (cases "j = i")
    case True
    then show ?thesis using pend assms(2) by (simp add: pending_results_def running_now_def)
  next
    case False
    have "pending_results j a = (if running_now j a then 1 else 0)" by (rule inv_parts(1) [OF assms(1)])
    then show ?thesis using False no_job by (simp add: pending_results_def running_now_def)
  qed
  have "lease_set ([] @ holders a) (ap_leases a)" using inv_parts(3) [OF assms(1)] by simp
  note acq = lease_set_acquire [OF this l]
  have "lease_set (holders ?b) (ap_leases ?b)" using acq(1) no_job by (simp add: holders_def)
  then show ?thesis unfolding eq using sessions results assms(4) acq(3) by (intro inv_intro) auto
next
  case False
  define r where "r = (if ap_slot a \<noteq> Slot_free then Error_response 503 ''server_busy'' True else Error_response 500 ''internal_error'' False)"
  let ?m = "snd (lease_reset lease m)"
  have s: "session_ok (ap_shutting_down a) (ap_http a ! i)" using inv_session assms by blast
  let ?a = "(on_http i (\<lambda>s. s \<lparr> hx_cell := None \<rparr>) a) \<lparr> ap_leases := ?m \<rparr>"
  have "\<not> hx_running (ap_http a ! i)" using s assms(3) by (simp add: session_ok_def)
  then have "(ap_http a ! i) \<lparr> hx_reading := False, hx_running := False, hx_cell := None \<rparr> = (ap_http a ! i) \<lparr> hx_cell := None, hx_reading := False \<rparr>"
    by (cases "ap_http a ! i") simp
  then have eq: "start_batch i t lease spawn (on_http i (\<lambda>s. s \<lparr> hx_reading := False \<rparr>) (a \<lparr> ap_leases := m \<rparr>))
      = send_response i r (on_http i (\<lambda>s. s \<lparr> hx_reading := False \<rparr>) ?a)"
    using False assms(2) by (auto simp: start_batch_def on_http_leases Let_def r_def) (auto simp: on_http_def)
  have "lease_set ([] @ holders a) (ap_leases a)" using inv_parts(3) [OF assms(1)] by simp
  note acq = lease_set_acquire [OF this l]
  have rel: "lease_set (holders a) ?m" "lm_mode ?m \<noteq> Gpu_shutting_down"
    using lease_set_reset [of "[]" lease "holders a" m "fst (lease_reset lease m)" ?m] acq by simp_all
  have c: "app_inv (on_http i (\<lambda>s. s \<lparr> hx_cell := None \<rparr>) a)"
    using s by (intro inv_http [OF assms(1,2)]) (auto simp: session_ok_def http_registered_def)
  have "app_inv ?a"
    using rel assms(4) inv_session [OF c] inv_parts(1,2) [OF c]
    by (intro inv_intro) (auto simp: pending_results_def running_now_def)
  then show ?thesis unfolding eq using assms(2,3) by (intro inv_answered) auto
qed

text \<open>A request that becomes a realtime session.\<close>

lemma inv_upgrade:
  assumes "app_inv a" "i < length (ap_http a)" "hx_reading (ap_http a ! i)" "\<not> ap_shutting_down a"
    and l: "try_acquire Gpu_realtime (ap_leases a) = (lease, m)" "gl_live lease"
  shows "app_inv ((on_http i (\<lambda>s. s \<lparr> hx_reading := False, hx_transferred := True \<rparr>) (a \<lparr> ap_leases := m \<rparr>))
    \<lparr> ap_realtime := ap_realtime a @ [\<lparr> rp_open = True, rp_started = False, rp_lease = lease \<rparr>] \<rparr>)"
proof -
  let ?f = "\<lambda>s. s \<lparr> hx_reading := False, hx_transferred := True \<rparr>"
  have s: "session_ok (ap_shutting_down a) (ap_http a ! i)" using inv_session assms by blast
  then have i: "app_inv (on_http i ?f a)"
    using assms(3) by (intro inv_http [OF assms(1,2)]) (auto simp: session_ok_def http_registered_def)
  have "lease_set (holders a @ []) (ap_leases a)" using inv_parts(3) [OF assms(1)] by simp
  note acq = lease_set_acquire [OF this l]
  show ?thesis
    using acq(1,3) assms(4) inv_session [OF i] inv_parts(1,2) [OF i]
    by (intro inv_intro) (auto simp: pending_results_def running_now_def holders_def)
qed

lemma inv_request:
  assumes "app_inv a" "i < length (ap_http a)" "hx_reading (ap_http a ! i)" "on_request c i r spawn a = Some b"
  shows "app_inv b"
proof -
  obtain outcome m where o: "http_route c (ap_shutting_down a) r (ap_leases a) = Some (outcome, m)"
    using assms(4) by (auto simp: on_request_def)
  have sd: "ap_shutting_down a \<longrightarrow> lm_mode (ap_leases a) = Gpu_shutting_down" using inv_parts(4) [OF assms(1)] by simp
  note route = route_leases [OF o sd]
  have same: "m = ap_leases a \<Longrightarrow> a \<lparr> ap_leases := m \<rparr> = a" by simp
  show ?thesis
  proof (cases outcome)
    case (Http_error st code retry)
    then show ?thesis using assms(4) o route inv_answered [OF assms(1-3)] by (auto simp: on_request_def Let_def)
  next
    case Http_health
    then show ?thesis using assms(4) o route inv_answered [OF assms(1-3)] by (auto simp: on_request_def Let_def)
  next
    case (Http_batch audio t lease)
    then show ?thesis using assms(4) o route inv_start_batch [OF assms(1-3)] by (auto simp: on_request_def Let_def)
  next
    case (Http_realtime lease)
    then show ?thesis using assms(2,4) o route inv_upgrade [OF assms(1-3)]
      by (auto simp: on_request_def Let_def maybe_finish_shutdown_def on_http_def)
  qed
qed

lemma inv_read_error:
  assumes "app_inv a" "i < length (ap_http a)" "hx_reading (ap_http a ! i)"
  shows "app_inv (on_read_error i too_large a)"
proof (cases too_large)
  case True
  then show ?thesis using inv_answered [OF assms] by (simp add: on_read_error_def)
next
  case False
  let ?f = "\<lambda>s. closed_session (s \<lparr> hx_reading := False \<rparr>)"
  have s: "session_ok (ap_shutting_down a) (ap_http a ! i)" using inv_session assms by blast
  then have f: "session_ok (ap_shutting_down a) (?f (ap_http a ! i))" "hx_running (?f (ap_http a ! i)) = hx_running (ap_http a ! i)"
    using assms(3) by (auto simp: session_ok_def closed_session_def http_registered_def)
  then show ?thesis using False inv_close_after [of i "\<lambda>s. s \<lparr> hx_reading := False \<rparr>" a] inv_http [of a i ?f, OF assms(1,2) f] assms(2)
    by (simp add: on_read_error_def)
qed

lemma inv_written:
  assumes "app_inv a" "i < length (ap_http a)" "hx_writing (ap_http a ! i)"
  shows "app_inv (on_written i a)"
proof -
  let ?f = "\<lambda>s. closed_session (s \<lparr> hx_writing := False \<rparr>)"
  have s: "session_ok (ap_shutting_down a) (ap_http a ! i)" using inv_session assms by blast
  then have f: "session_ok (ap_shutting_down a) (?f (ap_http a ! i))" "hx_running (?f (ap_http a ! i)) = hx_running (ap_http a ! i)"
    using assms(3) by (auto simp: session_ok_def closed_session_def http_registered_def)
  then show ?thesis using inv_close_after [of i "\<lambda>s. s \<lparr> hx_writing := False \<rparr>" a] inv_http [of a i ?f, OF assms(1,2) f] assms(2)
    by (simp add: on_written_def)
qed

lemma inv_readable:
  assumes "app_inv a" "i < length (ap_http a)" "hx_watching (ap_http a ! i)"
  shows "app_inv (on_readable i aborted a)"
proof -
  have s: "session_ok (ap_shutting_down a) (ap_http a ! i)" using inv_session assms by blast
  then have nr: "\<not> hx_reading (ap_http a ! i)" using assms(3) by (auto simp: session_ok_def)
  have i: "app_inv (on_http i (\<lambda>s. s \<lparr> hx_watching := False \<rparr>) a)"
    using s by (intro inv_http [OF assms(1,2)]) (auto simp: session_ok_def http_registered_def)
  then show ?thesis
    using assms(2) nr by (auto simp: on_readable_def Let_def intro!: inv_close inv_leases)
qed

text \<open>The result of a batch reaches its session, which was waiting for it.\<close>

lemma inv_batch_result:
  assumes "app_inv a" "Batch_result i r t \<in> set (ap_posted a)"
  shows "app_inv (on_batch_result i r t (a \<lparr> ap_posted := remove1 (Batch_result i r t) (ap_posted a) \<rparr>))" "i < length (ap_http a)"
proof -
  let ?p = "Batch_result i r t" and ?P = "\<lambda>j p. \<exists>r t. p = Batch_result j r t"
  have count: "length (filter (?P j) (remove1 ?p xs)) + (if j = i then 1 else 0) = length (filter (?P j) xs)"
    if "?p \<in> set xs" for j xs
    using that by (induction xs) auto
  have run: "running_now i a" and job: "\<not> (ap_slot a = Slot_batch i \<and> ap_job a \<noteq> None)" and one: "length (filter (?P i) (ap_posted a)) = 1"
    using inv_parts(1) [OF assms(1), of i] count [OF assms(2), of i] by (auto simp: pending_results_def split: if_split_asm)
  then show n: "i < length (ap_http a)" by (simp add: running_now_def)
  let ?f = "\<lambda>s. s \<lparr> hx_running := False, hx_done := True, hx_cell := None \<rparr>"
  let ?s = "ap_http a ! i"
  have s: "session_ok (ap_shutting_down a) ?s" using inv_session assms(1) n by blast
  let ?a = "a \<lparr> ap_posted := remove1 ?p (ap_posted a) \<rparr>"
  have base: "app_inv (on_http i f ?a)"
    if "session_ok (ap_shutting_down a) (f ?s)" "\<not> hx_running (f ?s)" for f
  proof (rule inv_intro)
    fix j
    show "pending_results j (on_http i f ?a) = (if running_now j (on_http i f ?a) then 1 else 0)"
      using inv_parts(1) [OF assms(1), of j] count [OF assms(2), of j] that(2) n one job
      by (cases "j = i") (auto simp: pending_results_def running_now_def)
  qed (use that n inv_session [OF assms(1)] inv_parts(2-) [OF assms(1)] in \<open>auto simp: nth_list_update holders_def\<close>)
  have run': "hx_running ?s" using run by (simp add: running_now_def)
  have f: "\<not> hx_running (?f ?s)" "\<not> hx_running (closed_session (?f ?s))" by (simp_all add: closed_session_def)
  show "app_inv (on_batch_result i r t ?a)"
  proof (cases "hx_closed ?s \<or> ap_shutting_down a \<or> bt_cancelled r")
    case True
    show ?thesis
    proof (cases "bt_cancelled r \<and> \<not> hx_closed ?s")
      case close: True
      then have "session_ok (ap_shutting_down a) (closed_session (?f ?s))"
        using s run' by (auto simp: session_ok_def closed_session_def http_registered_def)
      then have "app_inv (on_http i (\<lambda>s. closed_session (?f s)) ?a)" using base [of "\<lambda>s. closed_session (?f s)"] f(2) by blast
      then show ?thesis using close n inv_close_after [of i ?f ?a] by (simp add: on_batch_result_def Let_def)
    next
      case stay: False
      then have "hx_closed ?s" using True s run' by (auto simp: session_ok_def)
      then have "session_ok (ap_shutting_down a) (?f ?s)"
        using s run' by (auto simp: session_ok_def http_registered_def)
      then have "app_inv (on_http i ?f ?a)" using base [of ?f] f(1) by blast
      then show ?thesis using True stay by (auto simp: on_batch_result_def Let_def)
    qed
  next
    case False
    let ?g = "\<lambda>s. (?f s) \<lparr> hx_writing := True, hx_responses := hx_responses s @ [result_response r t] \<rparr>"
    have "on_batch_result i r t ?a = on_http i ?g ?a"
      using False n by (simp add: on_batch_result_def send_response_def on_http_def Let_def)
    moreover have "session_ok (ap_shutting_down a) (?g ?s)" "\<not> hx_running (?g ?s)"
      using s run' False by (auto simp: session_ok_def http_registered_def)
    ultimately show ?thesis using base [of ?g] by simp
  qed
qed

lemma inv_finish_job:
  assumes "app_inv a" "ap_slot a = Slot_batch i" "ap_job a \<noteq> None"
  shows "app_inv (finish_job i r a)"
proof -
  obtain t lease where job: "ap_job a = Some (t, lease)" using assms(3) by auto
  let ?m = "snd (lease_reset lease (ap_leases a))"
  have "lease_set ([] @ lease # List.map rp_lease (ap_realtime a)) (ap_leases a)" using inv_parts(3) [OF assms(1)] job by (simp add: holders_def)
  from lease_set_reset [OF this, of "fst (lease_reset lease (ap_leases a))" ?m]
  have "lease_set (List.map rp_lease (ap_realtime a)) ?m" "lm_mode ?m = Gpu_shutting_down \<longleftrightarrow> ap_shutting_down a"
    using inv_parts(4) [OF assms(1)] by simp_all
  moreover have "pending_results j (finish_job i r a) = (if running_now j (finish_job i r a) then 1 else 0)" for j
    using inv_parts(1) [OF assms(1), of j] assms(2) job
    by (auto simp: finish_job_def pending_results_def running_now_def split: if_split_asm)
  ultimately show ?thesis
    using inv_session [OF assms(1)] job by (intro inv_intro) (auto simp: finish_job_def holders_def)
qed

lemma inv_return_slot:
  assumes "app_inv a" "ap_job a = None"
  shows "app_inv (return_slot a)"
proof (rule inv_intro)
  show "pending_results j (return_slot a) = (if running_now j (return_slot a) then 1 else 0)" for j
    using inv_parts(1) [OF assms(1), of j] assms(2) by (auto simp: return_slot_def pending_results_def running_now_def)
qed (use inv_session [OF assms(1)] inv_parts(2-) [OF assms(1)] assms(2) in \<open>auto simp: return_slot_def holders_def\<close>)

section \<open>Realtime sessions and shutdown\<close>

lemma inv_release_realtime:
  assumes "app_inv a" "k < length (ap_realtime a)"
  shows "app_inv (release_realtime k a)"
proof -
  let ?l = "rp_lease (ap_realtime a ! k)"
  obtain l m where r: "lease_reset ?l (ap_leases a) = (l, m)" by force
  have split: "List.map rp_lease (ap_realtime a)
      = take k (List.map rp_lease (ap_realtime a)) @ ?l # drop (Suc k) (List.map rp_lease (ap_realtime a))"
    using assms(2) id_take_nth_drop [of k "List.map rp_lease (ap_realtime a)"] by simp
  let ?pre = "(case ap_job a of None \<Rightarrow> [] | Some (t, l) \<Rightarrow> [l]) @ take k (List.map rp_lease (ap_realtime a))"
  have "lease_set (?pre @ ?l # drop (Suc k) (List.map rp_lease (ap_realtime a))) (ap_leases a)"
    using inv_parts(3) [OF assms(1)] unfolding holders_def by (subst (asm) split) simp
  note reset = lease_set_reset [OF this r]
  have "holders (release_realtime k a) = ?pre @ l # drop (Suc k) (List.map rp_lease (ap_realtime a))"
    using r assms(2) by (simp add: holders_def release_realtime_def map_update upd_conv_take_nth_drop take_map drop_map)
  then show ?thesis
    using inv_session [OF assms(1)] inv_parts [OF assms(1)] reset(1,3) r
    by (intro inv_intro) (auto simp: release_realtime_def pending_results_def running_now_def)
qed

lemma release_fields [simp]:
  "ap_http (release_realtime k a) = ap_http a" "ap_slot (release_realtime k a) = ap_slot a" "ap_job (release_realtime k a) = ap_job a"
  "ap_posted (release_realtime k a) = ap_posted a" "ap_shutting_down (release_realtime k a) = ap_shutting_down a"
  "ap_stopped (release_realtime k a) = ap_stopped a" "ap_timer (release_realtime k a) = ap_timer a" "length (ap_realtime (release_realtime k a)) = length (ap_realtime a)"
  by (simp_all add: release_realtime_def split: prod.split)

lemma inv_realtime_start:
  assumes "app_inv a" "k < length (ap_realtime a)"
  shows "app_inv (start_realtime_worker k spawn a)"
proof (cases "ap_slot a \<noteq> Slot_free \<or> \<not> spawn")
  case False
  then have "ap_job a = None" using inv_parts(2) [OF assms(1)] by (cases "ap_job a") auto
  moreover have "List.map rp_lease ((ap_realtime a) [k := (ap_realtime a ! k) \<lparr> rp_started := True \<rparr>]) = List.map rp_lease (ap_realtime a)"
    using assms(2) by (simp add: map_update list_update_same_conv)
  ultimately show ?thesis
    using False inv_session [OF assms(1)] inv_parts [OF assms(1)]
    by (intro inv_intro) (auto simp: start_realtime_worker_def pending_results_def running_now_def holders_def)
qed (use inv_release_realtime [OF assms] in \<open>simp add: start_realtime_worker_def\<close>)

lemma inv_realtime_closed:
  assumes "app_inv a" "k < length (ap_realtime a)"
  shows "app_inv (close_realtime k a)"
proof -
  have close: "app_inv (b \<lparr> ap_realtime := (ap_realtime b) [k := (ap_realtime b ! k) \<lparr> rp_open := False \<rparr>] \<rparr>)" if "app_inv b" "k < length (ap_realtime b)" for b
  proof -
    have "List.map rp_lease ((ap_realtime b) [k := (ap_realtime b ! k) \<lparr> rp_open := False \<rparr>]) = List.map rp_lease (ap_realtime b)"
      using that(2) by (simp add: map_update list_update_same_conv)
    then show ?thesis
      using inv_session [OF that(1)] inv_parts [OF that(1)]
      by (intro inv_intro) (auto simp: pending_results_def running_now_def holders_def)
  qed
  show ?thesis
    using close [of a] close [of "release_realtime k a"] assms inv_release_realtime [OF assms]
    by (simp add: close_realtime_def Let_def)
qed

text \<open>Every session that is registered is alive, so that a shutdown closes them all.\<close>

lemma registered_alive:
  assumes "app_inv a" "i < length (ap_http a)" "http_registered (ap_http a ! i)"
  shows "http_alive i a"
proof (cases "hx_running (ap_http a ! i)")
  case True
  then have "pending_results i a = 1" using inv_parts(1) [OF assms(1), of i] assms(2) by (simp add: running_now_def)
  then have "filter (\<lambda>p. \<exists>r t. p = Batch_result i r t) (ap_posted a) \<noteq> [] \<or> ap_slot a = Slot_batch i"
    by (auto simp: pending_results_def split: if_split_asm)
  then show ?thesis by (auto simp: http_alive_def filter_empty_conv)
next
  case False
  then show ?thesis using inv_session [OF assms(1,2)] assms(3) by (auto simp: session_ok_def http_alive_def Let_def)
qed

lemma live_sessions_inv:
  "app_inv a \<Longrightarrow> set (live_sessions a) = {i. i < length (ap_http a) \<and> http_registered (ap_http a ! i)}"
  using registered_alive by (auto simp: live_sessions_def)

text \<open>The start of a shutdown in the fields an invariant needs: the mode, the flag, and every session closed.\<close>

lemma shutdown_closes:
  assumes "app_inv a" "ap_http a1 = ap_http a" "ap_slot a1 = ap_slot a" "ap_posted a1 = ap_posted a"
    "i < length (ap_http a)"
  shows "ap_http (shutdown_sessions a1) ! i = closed_session (ap_http a ! i)"
proof -
  have "live_sessions a1 = live_sessions a"
    using assms(2-4) by (simp add: live_sessions_def http_alive_def)
  then show ?thesis
    using fold_shutdown_session [of i a1 "live_sessions a"] assms live_sessions_inv [OF assms(1)]
    by (auto simp: shutdown_sessions_def closed_session_def)
qed

lemma session_ok_shutdown: "session_ok sd s \<Longrightarrow> session_ok True (closed_session s)"
  by (auto simp: session_ok_def closed_session_def http_registered_def)

lemma inv_shutdown_sessions:
  assumes "app_inv a" "ap_http a1 = ap_http a" "ap_realtime a1 = ap_realtime a" "ap_slot a1 = ap_slot a" "ap_job a1 = ap_job a"
    "ap_posted a1 = ap_posted a" "ap_shutting_down a1" "lm_mode (ap_leases a1) = Gpu_shutting_down" "lease_set (holders a1) (ap_leases a1)"
  shows "app_inv (shutdown_sessions a1)"
proof (rule inv_intro)
  note fields = shutdown_fields [of a1]
  note closes = shutdown_closes [OF assms(1,2,4,6)]
  show "session_ok (ap_shutting_down (shutdown_sessions a1)) (ap_http (shutdown_sessions a1) ! i)"
    if "i < length (ap_http (shutdown_sessions a1))" for i
    using that fields assms(2,7) closes [of i] session_ok_shutdown inv_session [OF assms(1), of i] by simp
  show "pending_results i (shutdown_sessions a1) = (if running_now i (shutdown_sessions a1) then 1 else 0)" for i
    using inv_parts(1) [OF assms(1), of i] fields closes [of i] assms(2-6) session_ok_closed(2)
    by (simp add: pending_results_def running_now_def)
  show "ap_job (shutdown_sessions a1) \<noteq> None \<Longrightarrow> \<exists>i. ap_slot (shutdown_sessions a1) = Slot_batch i"
    using inv_parts(2) [OF assms(1)] fields assms(4,5) by simp
  have "holders (shutdown_sessions a1) = holders a1" using fields by (simp add: holders_def)
  then show "lease_set (holders (shutdown_sessions a1)) (ap_leases (shutdown_sessions a1))"
    using assms(9) fields lease_set_mode by metis
  show "lm_mode (ap_leases (shutdown_sessions a1)) = Gpu_shutting_down \<longleftrightarrow> ap_shutting_down (shutdown_sessions a1)"
    using fields assms(7,8) by simp
qed

lemma inv_initiate_shutdown:
  assumes "app_inv a"
  shows "app_inv (initiate_server_shutdown a)"
proof (cases "ap_shutting_down a")
  case False
  let ?a1 = "a \<lparr> ap_shutting_down := True, ap_leases := begin_shutdown (ap_leases a) \<rparr>"
  have "lease_set (holders ?a1) (ap_leases ?a1)"
    using lease_set_shutdown [OF inv_parts(3) [OF assms]] by (simp add: holders_def)
  then have "app_inv (shutdown_sessions ?a1)"
    by (intro inv_shutdown_sessions [OF assms]) (simp_all add: begin_shutdown_def)
  then have "app_inv ((shutdown_sessions ?a1) \<lparr> ap_timer := True \<rparr>)" by (subst inv_congr [of _ "shutdown_sessions ?a1"]) simp_all
  then show ?thesis using False by (simp add: initiate_server_shutdown_def Let_def)
qed (simp add: assms initiate_server_shutdown_def)

lemma inv_force_shutdown:
  assumes "app_inv a" "ap_shutting_down a"
  shows "app_inv (force_shutdown a)"
proof -
  have "app_inv (shutdown_sessions a)"
    using assms inv_parts(3,4) [OF assms(1)] by (intro inv_shutdown_sessions [OF assms(1)]) simp_all
  then show ?thesis unfolding force_shutdown_def by (subst inv_congr [of _ "shutdown_sessions a"]) simp_all
qed

section \<open>Nothing is left\<close>

text \<open>A shutdown has nothing more to wait for.\<close>

definition quiet :: "server_app \<Rightarrow> bool" where
  "quiet a \<longleftrightarrow>
    ap_shutting_down a \<and> ap_slot a = Slot_free \<and> Worker_finished \<notin> set (ap_posted a) \<and>
    (\<forall>s \<in> set (ap_http a). \<not> http_registered s) \<and> (\<forall>p \<in> set (ap_realtime a). \<not> rp_open p)"

definition app_side :: "server_app \<Rightarrow> bool" where
  "app_side a \<longleftrightarrow>
    (ap_timer a \<longrightarrow> ap_shutting_down a) \<and> (quiet a \<longrightarrow> ap_stopped a) \<and>
    (\<forall>k. ap_slot a = Slot_realtime k \<longrightarrow> k < length (ap_realtime a))"

lemma quiet_nothing_left: "quiet a \<Longrightarrow> \<not> sessions_left a"
  unfolding quiet_def sessions_left_def by (metis nth_mem)

lemma quiet_finish:
  assumes "quiet (maybe_finish_shutdown a)"
  shows "ap_stopped (maybe_finish_shutdown a)"
proof -
  have q: "quiet a" using assms unfolding quiet_def maybe_finish_fields .
  then have "ap_shutting_down a" "ap_slot a = Slot_free" by (simp_all add: quiet_def)
  with quiet_nothing_left [OF q] show ?thesis by (simp add: maybe_finish_shutdown_def)
qed

text \<open>A handler that ends in the check for the end of the process.\<close>

lemma side_finish:
  "(ap_timer a \<longrightarrow> ap_shutting_down a) \<Longrightarrow> (\<forall>k. ap_slot a = Slot_realtime k \<longrightarrow> k < length (ap_realtime a)) \<Longrightarrow> app_side (maybe_finish_shutdown a)"
  using quiet_finish [of a] by (auto simp: app_side_def maybe_finish_shutdown_def)

lemma side_http:
  assumes "app_side a" "http_registered (ap_http a ! i) \<Longrightarrow> http_registered (f (ap_http a ! i))"
  shows "app_side (on_http i f a)"
proof -
  have "quiet a" if q: "quiet (on_http i f a)"
  proof -
    have "\<not> http_registered s" if s: "s \<in> set (ap_http a)" for s
    proof -
      obtain j where j: "j < length (ap_http a)" "s = ap_http a ! j" using s by (auto simp: in_set_conv_nth)
      then have "(ap_http a) [i := f (ap_http a ! i)] ! j \<in> set ((ap_http a) [i := f (ap_http a ! i)])" by (intro nth_mem) simp
      then show ?thesis using q j assms(2) by (cases "j = i") (auto simp: quiet_def)
    qed
    then show ?thesis using q by (simp add: quiet_def)
  qed
  then show ?thesis using assms(1) unfolding app_side_def on_http_fields by blast
qed

lemma side_close:
  assumes "app_side a"
  shows "app_side (close_http i a)"
proof -
  have "app_side (maybe_finish_shutdown (on_http i closed_session a))"
    using assms by (intro side_finish) (simp_all add: app_side_def)
  then show ?thesis using assms by (simp add: close_is_http)
qed

lemma side_leases [simp]: "app_side (a \<lparr> ap_leases := m \<rparr>) = app_side a"
  by (simp add: app_side_def quiet_def)

lemma side_send: "app_side a \<Longrightarrow> app_side (send_response i r a)"
  by (auto simp: send_response_def http_registered_def intro: side_http)

lemma side_request:
  assumes "app_side a" "on_request c i r spawn a = Some b" "hx_reading (ap_http a ! i) \<longrightarrow> \<not> hx_transferred (ap_http a ! i)"
  shows "app_side b"
proof -
  obtain outcome m where o: "http_route c (ap_shutting_down a) r (ap_leases a) = Some (outcome, m)"
    using assms(2) by (auto simp: on_request_def)
  let ?a = "on_http i (\<lambda>s. s \<lparr> hx_reading := False \<rparr>) (a \<lparr> ap_leases := m \<rparr>)"
  have a: "app_side ?a" using assms(1) by (intro side_http) (auto simp: http_registered_def)
  have started: "app_side (start_batch i t lease spawn ?a)" for t lease
  proof (cases "ap_slot ?a \<noteq> Slot_free \<or> \<not> spawn")
    case True
    have "app_side (on_http i (\<lambda>s. s \<lparr> hx_running := False, hx_cell := None \<rparr>) ?a)"
      by (rule side_http [OF a]) (auto simp: http_registered_def)
    then show ?thesis using True by (auto simp: start_batch_def Let_def intro!: side_send)
  next
    case False
    then show ?thesis using a by (simp add: start_batch_def Let_def app_side_def quiet_def on_http_def)
  qed
  have "app_side (b \<lparr> ap_realtime := rt @ [\<lparr> rp_open = True, rp_started = False, rp_lease = lease \<rparr>] \<rparr>)" if "app_side b" "ap_realtime b = rt" for b lease rt
    using that by (auto simp: app_side_def quiet_def intro: less_SucI)
  moreover have "app_side (maybe_finish_shutdown (on_http i (\<lambda>s. s \<lparr> hx_transferred := True \<rparr>) ?a))"
    using a by (intro side_finish) (auto simp: app_side_def on_http_def)
  ultimately show ?thesis
    using assms(2) o side_send [OF a] started by (cases outcome) (auto simp: on_request_def Let_def)
qed

lemma release_open: "k < length (ap_realtime a) \<Longrightarrow> List.map rp_open (ap_realtime (release_realtime k a)) = List.map rp_open (ap_realtime a)"
  by (simp add: release_realtime_def map_update list_update_same_conv split: prod.split)

lemma side_release: "app_side a \<Longrightarrow> k < length (ap_realtime a) \<Longrightarrow> app_side (release_realtime k a)"
proof -
  assume a: "app_side a" "k < length (ap_realtime a)"
  have "(\<forall>p \<in> set (ap_realtime (release_realtime k a)). \<not> rp_open p) = (\<forall>p \<in> set (ap_realtime a). \<not> rp_open p)"
    using arg_cong [OF release_open [OF a(2)], of set] by (auto simp: image_iff set_eq_iff)
  then show ?thesis using a by (simp add: app_side_def quiet_def)
qed

lemma app_step_keeps:
  assumes "app_step c a b" "app_inv a" "app_side a"
  shows "app_inv b \<and> app_side b"
  using assms(1)
proof cases
  case Accept
  have "pending_results i a = 0" if "i \<ge> length (ap_http a)" for i
    using inv_parts(1) [OF assms(2), of i] that by (simp add: running_now_def)
  then have "app_inv b"
    using inv_session [OF assms(2)] inv_parts [OF assms(2)] unfolding Accept
    by (intro inv_intro) (auto simp: accept_http_def nth_append session_ok_def new_http_session_def http_registered_def
        holders_def pending_results_def running_now_def less_Suc_eq)
  moreover have "app_side b"
    using assms(3) unfolding Accept by (auto simp: app_side_def quiet_def accept_http_def new_http_session_def http_registered_def)
  ultimately show ?thesis by blast
next
  case (Request i r spawn)
  have "\<not> hx_transferred (ap_http a ! i)" using inv_session [OF assms(2) Request(2)] Request(3) by (simp add: session_ok_def)
  then show ?thesis using inv_request [OF assms(2)] side_request [OF assms(3)] Request by blast
next
  case (Read_error i too_large)
  have "app_side (on_http i (\<lambda>s. s \<lparr> hx_reading := False \<rparr>) a)" using assms(3) by (intro side_http) (auto simp: http_registered_def)
  then show ?thesis using Read_error inv_read_error [OF assms(2)] by (auto simp: on_read_error_def Let_def intro!: side_send side_close)
next
  case (Written i)
  have "app_side (on_http i (\<lambda>s. s \<lparr> hx_writing := False \<rparr>) a)" using assms(3) by (intro side_http) (auto simp: http_registered_def)
  then show ?thesis using Written inv_written [OF assms(2)] by (auto simp: on_written_def intro!: side_close)
next
  case (Readable i aborted)
  have "app_side (on_http i (\<lambda>s. s \<lparr> hx_watching := False \<rparr>) a)" using assms(3) by (intro side_http) (auto simp: http_registered_def)
  then show ?thesis using Readable inv_readable [OF assms(2)] by (auto simp: on_readable_def Let_def intro!: side_close)
next
  case (Posted p)
  show ?thesis
  proof (cases p)
    case Worker_finished
    have rem: "filter (\<lambda>p. \<exists>r t. p = Batch_result i r t) (remove1 Worker_finished xs) = filter (\<lambda>p. \<exists>r t. p = Batch_result i r t) xs" for i xs
      by (induction xs) auto
    have "app_inv (a \<lparr> ap_posted := remove1 Worker_finished (ap_posted a) \<rparr>)"
      using inv_session [OF assms(2)] inv_parts [OF assms(2)]
      by (intro inv_intro) (auto simp: pending_results_def rem running_now_def holders_def)
    moreover have "app_side (maybe_finish_shutdown (a \<lparr> ap_posted := remove1 Worker_finished (ap_posted a) \<rparr>))"
      using assms(3) by (intro side_finish) (auto simp: app_side_def)
    ultimately show ?thesis using Posted Worker_finished by (simp add: run_posted_def)
  next
    case (Batch_result i r t)
    let ?a = "a \<lparr> ap_posted := remove1 p (ap_posted a) \<rparr>"
    have "Worker_finished \<in> set (remove1 p xs) \<longleftrightarrow> Worker_finished \<in> set xs" for xs
      using Batch_result by (induction xs) auto
    then have "app_side ?a" using assms(3) by (simp add: app_side_def quiet_def)
    then have "app_side (on_http i (\<lambda>s. s \<lparr> hx_running := False, hx_done := True, hx_cell := None \<rparr>) ?a)"
      by (intro side_http) (auto simp: http_registered_def)
    then have "app_side (on_batch_result i r t ?a)" by (auto simp: on_batch_result_def Let_def intro!: side_send side_close)
    then show ?thesis using Posted Batch_result inv_batch_result(1) [OF assms(2), of i r t] by (simp add: run_posted_def)
  qed
next
  case (Job_done i r)
  then show ?thesis using inv_finish_job [OF assms(2)] assms(3) by (auto simp: finish_job_def app_side_def quiet_def)
next
  case (Slot_returned i)
  then show ?thesis using inv_return_slot [OF assms(2)] assms(3) by (auto simp: return_slot_def app_side_def quiet_def)
next
  case (Realtime_start k spawn)
  then show ?thesis using inv_realtime_start [OF assms(2)] side_release [OF assms(3)] assms(3)
    by (auto simp: start_realtime_worker_def app_side_def quiet_def)
next
  case (Realtime_done k)
  then have "k < length (ap_realtime a)" using assms(3) by (simp add: app_side_def)
  moreover have "ap_job a = None" using Realtime_done inv_parts(2) [OF assms(2)] by (cases "ap_job a") auto
  ultimately show ?thesis
    using Realtime_done inv_release_realtime [OF assms(2)] side_release [OF assms(3)] inv_return_slot [of "release_realtime k a"]
    by (auto simp: return_slot_def app_side_def quiet_def)
next
  case (Realtime_closed k)
  have "app_side (close_realtime k a)"
    using assms(3) unfolding close_realtime_def Let_def by (intro side_finish) (simp_all add: app_side_def)
  then show ?thesis using Realtime_closed inv_realtime_closed [OF assms(2)] by blast
next
  case Signal
  let ?a = "a \<lparr> ap_shutting_down := True, ap_leases := begin_shutdown (ap_leases a) \<rparr>"
  have "app_side (initiate_server_shutdown a)"
    using assms(3) shutdown_fields [of ?a]
    by (auto simp: initiate_server_shutdown_def Let_def app_side_def [of a] intro!: side_finish)
  then show ?thesis using Signal inv_initiate_shutdown [OF assms(2)] by simp
next
  case Timeout
  then have "ap_shutting_down a" using assms(3) by (simp add: app_side_def)
  moreover have "app_side (force_shutdown a)" using assms(3) shutdown_fields [of a]
    by (simp add: force_shutdown_def app_side_def)
  ultimately show ?thesis using Timeout inv_force_shutdown [OF assms(2)] by simp
qed

lemma app_reach_inv: "app_reach c a \<Longrightarrow> app_inv a \<and> app_side a"
proof (induction rule: app_reach.induct)
  case Start
  have "app_inv new_app"
    by (rule inv_intro) (auto simp: new_app_def pending_results_def running_now_def holders_def new_manager_def lease_set_def
        live_leases_def manager_busy_def)
  then show ?case by (simp add: new_app_def app_side_def quiet_def)
next
  case (Step a b)
  then show ?case using app_step_keeps by blast
qed

text \<open>C13: Whatever the clients, the worker and the operating system do and in whatever order: a session sends at most one
response; a session that is neither closed nor handed over has its read, its write or its batch under way; a running
batch has exactly one result coming; and the engine is free as soon as neither a batch job nor a realtime session
holds it, so that no refusal, failed start, disconnect or cancellation loses the lease.\<close>

theorem http_sessions_settle:
  assumes "app_reach c a" "i < length (ap_http a)"
  shows "length (hx_responses (ap_http a ! i)) \<le> 1 \<and>
    (http_registered (ap_http a ! i) \<longrightarrow> hx_reading (ap_http a ! i) \<or> hx_writing (ap_http a ! i) \<or> hx_running (ap_http a ! i)) \<and>
    pending_results i a = (if hx_running (ap_http a ! i) then 1 else 0) \<and>
    (ap_job a = None \<and> (\<forall>p \<in> set (ap_realtime a). \<not> gl_live (rp_lease p)) \<longrightarrow> \<not> manager_busy (ap_leases a))"
proof -
  have inv: "app_inv a" using app_reach_inv [OF assms(1)] by blast
  have "session_ok (ap_shutting_down a) (ap_http a ! i)" by (rule inv_session [OF inv assms(2)])
  moreover have "pending_results i a = (if hx_running (ap_http a ! i) then 1 else 0)"
    using inv_parts(1) [OF inv, of i] assms(2) by (simp add: running_now_def)
  moreover have "ap_job a = None \<Longrightarrow> \<forall>p \<in> set (ap_realtime a). \<not> gl_live (rp_lease p) \<Longrightarrow> \<not> manager_busy (ap_leases a)"
    using inv_parts(3) [OF inv] by (auto simp: lease_set_def live_leases_def holders_def filter_empty_conv)
  ultimately show ?thesis by (auto simp: session_ok_def)
qed

lemma sample_route:
  "http_route sample_settings False sample_upload new_manager
    = Some (Http_batch \<lparr> ad_samples = [1, - 1], ad_duration_ms = 0 \<rparr> True \<lparr> gl_live = True, gl_mode = Gpu_batch, gl_cancellation = Some 0 \<rparr>,
        \<lparr> lm_mode = Gpu_batch, lm_active = Some 0, lm_cells = [No_reason] \<rparr>)"
  by code_simp

text \<open>A batch that is running.\<close>

lemma running_batch:
  "\<exists>a. app_reach sample_settings a \<and> length (ap_http a) = 1 \<and> hx_running (ap_http a ! 0) \<and> hx_responses (ap_http a ! 0) = [] \<and>
     ap_slot a = Slot_batch 0 \<and> \<not> ap_shutting_down a \<and> \<not> ap_stopped a"
proof -
  let ?a = "accept_http new_app"
  have start: "app_reach sample_settings ?a" by (rule Step [OF Start Accept]) (simp add: new_app_def)
  obtain b where b: "on_request sample_settings 0 sample_upload True ?a = Some b" "length (ap_http b) = 1" "hx_running (ap_http b ! 0)"
      "hx_responses (ap_http b ! 0) = []" "ap_slot b = Slot_batch 0" "\<not> ap_shutting_down b" "\<not> ap_stopped b"
    using sample_route
    by (simp add: on_request_def accept_http_def new_app_def start_batch_def Let_def new_http_session_def)
  have "app_step sample_settings ?a b"
    by (rule Request [OF _ _ _ b(1)]) (simp_all add: accept_http_def new_app_def new_http_session_def)
  with start have "app_reach sample_settings b" by (rule Step)
  then show ?thesis using b by blast
qed

lemma http_sessions_settle_witness:
  "\<exists>a. app_reach sample_settings a \<and> hx_running (ap_http a ! 0) \<and> pending_results 0 a = 1 \<and> length (hx_responses (ap_http a ! 0)) \<le> 1"
proof -
  obtain a where a: "app_reach sample_settings a" "length (ap_http a) = 1" "hx_running (ap_http a ! 0)" using running_batch by blast
  from http_sessions_settle [OF a(1), of 0] a show ?thesis by auto
qed

section \<open>Shutdown\<close>

definition session_weight :: "http_session \<Rightarrow> nat" where
  "session_weight s = (if hx_reading s then 3 else 0) + (if hx_writing s then 1 else 0) + (if hx_watching s then 1 else 0)"

definition place_weight :: "realtime_place \<Rightarrow> nat" where
  "place_weight p = (if gl_live (rp_lease p) \<and> \<not> rp_started p then 3 else 0) + (if rp_open p then 1 else 0)"

fun posted_weight :: "posted \<Rightarrow> nat" where
  "posted_weight Worker_finished = 1"
| "posted_weight (Batch_result i r t) = 2"

text \<open>A bound on the steps that are left when nobody connects any more.\<close>

definition open_weight :: "server_app \<Rightarrow> nat" where
  "open_weight a =
    sum_list (List.map session_weight (ap_http a)) +
    sum_list (List.map posted_weight (ap_posted a)) +
    (if ap_slot a = Slot_free then 0 else 2) + (if ap_job a = None then 0 else 4) +
    sum_list (List.map place_weight (ap_realtime a))"

lemma sum_list_replace: "i < length xs \<Longrightarrow> sum_list (xs [i := x]) + xs ! i = sum_list xs + (x :: nat)"
  by (simp add: sum_list_update le_add2 elem_le_sum_list trans_le_add1)

lemma weight_http:
  assumes "i < length (ap_http a)"
  shows "open_weight (on_http i f a) + session_weight (ap_http a ! i) = open_weight a + session_weight (f (ap_http a ! i))"
  using sum_list_replace [of i "List.map session_weight (ap_http a)" "session_weight (f (ap_http a ! i))"] assms
  by (simp add: open_weight_def map_update)

lemma weight_finish: "open_weight (maybe_finish_shutdown a) = open_weight a"
  by (simp add: open_weight_def maybe_finish_shutdown_def)

lemma weight_close: "i < length (ap_http a) \<Longrightarrow> open_weight (close_http i a) \<le> open_weight a"
  using weight_finish [of "on_http i closed_session a"] weight_http [of i a closed_session]
  by (auto simp: close_is_http closed_session_def session_weight_def split: if_split_asm)

lemma weight_leases [simp]: "open_weight (a \<lparr> ap_leases := m \<rparr>) = open_weight a"
  by (simp add: open_weight_def)

lemma weight_release:
  assumes "k < length (ap_realtime a)"
  shows "open_weight (release_realtime k a) \<le> open_weight a"
    "gl_live (rp_lease (ap_realtime a ! k)) \<Longrightarrow> \<not> rp_started (ap_realtime a ! k) \<Longrightarrow> open_weight (release_realtime k a) < open_weight a"
proof -
  obtain l m where r: "lease_reset (rp_lease (ap_realtime a ! k)) (ap_leases a) = (l, m)" by force
  have l: "\<not> gl_live l" using r by (auto simp: lease_reset_def empty_lease_def split: if_splits)
  let ?p = "(ap_realtime a ! k) \<lparr> rp_lease := l \<rparr>"
  have "sum_list (List.map place_weight (ap_realtime (release_realtime k a))) + place_weight (ap_realtime a ! k)
      = sum_list (List.map place_weight (ap_realtime a)) + place_weight ?p"
    using sum_list_replace [of k "List.map place_weight (ap_realtime a)" "place_weight ?p"] r assms
    by (simp add: release_realtime_def map_update)
  then have "open_weight (release_realtime k a) + place_weight (ap_realtime a ! k) = open_weight a + place_weight ?p"
    by (simp add: open_weight_def)
  then show "open_weight (release_realtime k a) \<le> open_weight a"
    "gl_live (rp_lease (ap_realtime a ! k)) \<Longrightarrow> \<not> rp_started (ap_realtime a ! k) \<Longrightarrow> open_weight (release_realtime k a) < open_weight a"
    using l by (auto simp: place_weight_def split: if_split_asm)
qed

lemma weight_place:
  assumes "k < length (ap_realtime a)"
  shows "open_weight (a \<lparr> ap_realtime := (ap_realtime a) [k := p] \<rparr>) + place_weight (ap_realtime a ! k) = open_weight a + place_weight p"
  using sum_list_replace [of k "List.map place_weight (ap_realtime a)" "place_weight p"] assms
  by (simp add: open_weight_def map_update)

lemma weight_posted:
  "p \<in> set (ap_posted a) \<Longrightarrow> open_weight (a \<lparr> ap_posted := remove1 p (ap_posted a) \<rparr>) < open_weight a"
proof -
  have "p \<in> set ps \<Longrightarrow> sum_list (List.map posted_weight (remove1 p ps)) < sum_list (List.map posted_weight ps)" for ps
    by (induction ps; cases p) auto
  then show "p \<in> set (ap_posted a) \<Longrightarrow> open_weight (a \<lparr> ap_posted := remove1 p (ap_posted a) \<rparr>) < open_weight a"
    by (simp add: open_weight_def)
qed

lemma route_shut:
  assumes "http_route c True r m = Some (outcome, m1)" "lm_mode m = Gpu_shutting_down"
  shows "(\<exists>st code retry. outcome = Http_error st code retry) \<or> outcome = Http_health"
  using route_leases [OF assms(1)] assms(2) by (cases outcome) auto

text \<open>During a shutdown every step but a new connection or a repeated signal brings the end closer.\<close>

lemma weight_shutdown_sessions: "open_weight (shutdown_sessions a) \<le> open_weight a"
proof -
  have "\<forall>i \<in> set xs. i < length (ap_http a) \<Longrightarrow> open_weight (fold session_initiate_shutdown xs a) \<le> open_weight a" for xs a
  proof (induction xs arbitrary: a)
    case (Cons x xs)
    have "open_weight (session_initiate_shutdown x a) \<le> open_weight a"
      using weight_close [of x "a \<lparr> ap_leases := request_at By_shutdown (hx_cell (ap_http a ! x)) (ap_leases a) \<rparr>"] Cons.prems
      by (simp add: session_initiate_shutdown_def)
    then show ?case using Cons.IH [of "session_initiate_shutdown x a"] Cons.prems by simp
  qed simp
  then show ?thesis by (simp add: shutdown_sessions_def live_sessions_def)
qed

lemma shutdown_step:
  assumes "app_step c a b" "app_inv a" "app_side a" "ap_shutting_down a" "b \<noteq> a" "b \<noteq> accept_http a"
  shows "open_weight b < open_weight a \<or> (open_weight b \<le> open_weight a \<and> ap_stopped b \<and> \<not> ap_stopped a)"
  using assms(1)
proof cases
  case Accept
  then show ?thesis using assms(6) by simp
next
  case (Request i r spawn)
  obtain outcome m where o: "http_route c True r (ap_leases a) = Some (outcome, m)"
    using Request(4) assms(4) by (auto simp: on_request_def)
  let ?f = "\<lambda>s. s \<lparr> hx_reading := False \<rparr>"
  have s: "session_ok True (ap_http a ! i)" using inv_session [OF assms(2) Request(2)] assms(4) by simp
  have "open_weight (send_response i x (on_http i ?f (a \<lparr> ap_leases := m \<rparr>))) < open_weight a" for x
  proof (cases "hx_closed (ap_http a ! i)")
    case True
    then show ?thesis using weight_http [of i "a \<lparr> ap_leases := m \<rparr>" ?f] Request(2,3)
      by (simp add: send_response_def session_weight_def)
  next
    case False
    then show ?thesis
      using weight_http [of i "a \<lparr> ap_leases := m \<rparr>" ?f] Request(2,3) s
        weight_http [of i "on_http i ?f (a \<lparr> ap_leases := m \<rparr>)" "\<lambda>s. s \<lparr> hx_writing := True, hx_responses := hx_responses s @ [x] \<rparr>"]
      by (simp add: send_response_def session_weight_def session_ok_def)
  qed
  then show ?thesis using Request(4) o route_shut [OF o] inv_parts(4) [OF assms(2)] assms(4) by (auto simp: on_request_def)
next
  case (Read_error i too_large)
  let ?f = "\<lambda>s. s \<lparr> hx_reading := False \<rparr>"
  have s: "session_ok True (ap_http a ! i)" using inv_session [OF assms(2) Read_error(3)] assms(4) by simp
  have "open_weight (send_response i x (on_http i ?f a)) < open_weight a" for x
    using weight_http [of i a ?f] Read_error(3,4) s
      weight_http [of i "on_http i ?f a" "\<lambda>s. s \<lparr> hx_writing := True, hx_responses := hx_responses s @ [x] \<rparr>"]
    by (auto simp: send_response_def session_weight_def session_ok_def)
  moreover have "open_weight (close_http i (on_http i ?f a)) < open_weight a"
    using weight_http [of i a ?f] weight_close [of i "on_http i ?f a"] Read_error(3,4) by (simp add: session_weight_def)
  ultimately show ?thesis using Read_error(1) by (simp add: on_read_error_def Let_def)
next
  case (Written i)
  let ?f = "\<lambda>s. s \<lparr> hx_writing := False \<rparr>"
  show ?thesis using weight_http [of i a ?f] weight_close [of i "on_http i ?f a"] Written by (simp add: session_weight_def on_written_def)
next
  case (Readable i aborted)
  let ?f = "\<lambda>s. s \<lparr> hx_watching := False \<rparr>"
  have "open_weight (on_http i ?f a) < open_weight a" using weight_http [of i a ?f] Readable by (simp add: session_weight_def)
  moreover have "open_weight (close_http i ((on_http i ?f a) \<lparr> ap_leases := m \<rparr>)) \<le> open_weight (on_http i ?f a)" for m
    using weight_close [of i "(on_http i ?f a) \<lparr> ap_leases := m \<rparr>"] Readable(3) by simp
  ultimately show ?thesis using Readable(1) le_less_trans by (auto simp: on_readable_def Let_def)
next
  case (Posted p)
  note less = weight_posted [OF Posted(3)]
  show ?thesis
  proof (cases p)
    case Worker_finished
    then show ?thesis using less weight_finish le_less_trans Posted(1) by (auto simp: run_posted_def)
  next
    case (Batch_result i r t)
    let ?a = "a \<lparr> ap_posted := remove1 p (ap_posted a) \<rparr>" and ?f = "\<lambda>s. s \<lparr> hx_running := False, hx_done := True, hx_cell := None \<rparr>"
    have n: "i < length (ap_http a)" using inv_batch_result(2) [OF assms(2)] Posted(3) Batch_result by blast
    have "open_weight (on_http i ?f ?a) = open_weight ?a" using weight_http [of i ?a ?f] n by (simp add: session_weight_def)
    moreover have "open_weight (close_http i (on_http i ?f ?a)) \<le> open_weight (on_http i ?f ?a)" using weight_close n by simp
    ultimately have "open_weight (on_batch_result i r t ?a) \<le> open_weight ?a"
      using assms(4) by (simp add: on_batch_result_def Let_def)
    then show ?thesis using less Posted(1) Batch_result by (simp add: run_posted_def)
  qed
next
  case (Job_done i r)
  then show ?thesis by (auto simp: finish_job_def open_weight_def)
next
  case (Slot_returned i)
  then show ?thesis by (simp add: return_slot_def open_weight_def)
next
  case (Realtime_start k spawn)
  let ?p = "(ap_realtime a ! k) \<lparr> rp_started := True \<rparr>"
  have "open_weight (a \<lparr> ap_realtime := (ap_realtime a) [k := ?p] \<rparr>) + 3 = open_weight a"
    using weight_place [of k a ?p] Realtime_start by (simp add: place_weight_def)
  moreover have "open_weight (a \<lparr> ap_slot := Slot_realtime k, ap_realtime := rt \<rparr>) \<le> open_weight (a \<lparr> ap_realtime := rt \<rparr>) + 2" for rt
    by (simp add: open_weight_def)
  from this [of "(ap_realtime a) [k := ?p]"] calculation
  have "open_weight (a \<lparr> ap_slot := Slot_realtime k, ap_realtime := (ap_realtime a) [k := ?p] \<rparr>) < open_weight a" by linarith
  then show ?thesis using weight_release(2) [of k a] Realtime_start by (simp add: start_realtime_worker_def)
next
  case (Realtime_done k)
  have "open_weight (release_realtime k a) \<le> open_weight a"
    using Realtime_done(2) assms(3) by (intro weight_release(1)) (simp add: app_side_def)
  moreover have "open_weight (return_slot (release_realtime k a)) < open_weight (release_realtime k a)"
    using Realtime_done(2) by (simp add: return_slot_def open_weight_def)
  ultimately show ?thesis using Realtime_done(1) by simp
next
  case (Realtime_closed k)
  let ?b = "if rp_started (ap_realtime a ! k) then a else release_realtime k a"
  have b: "open_weight ?b \<le> open_weight a" "k < length (ap_realtime ?b)" "rp_open (ap_realtime ?b ! k)"
    using weight_release(1) [of k a] Realtime_closed(3,4) by (auto simp: release_realtime_def split: prod.split)
  then have "open_weight (?b \<lparr> ap_realtime := (ap_realtime ?b) [k := (ap_realtime ?b ! k) \<lparr> rp_open := False \<rparr>] \<rparr>) < open_weight a"
    using weight_place [of k ?b "(ap_realtime ?b ! k) \<lparr> rp_open := False \<rparr>"] by (simp add: place_weight_def)
  then show ?thesis using Realtime_closed(1) by (simp add: close_realtime_def Let_def weight_finish)
next
  case Signal
  then show ?thesis using assms(4,5) by (simp add: initiate_server_shutdown_def)
next
  case Timeout
  have "open_weight (force_shutdown a) = open_weight (shutdown_sessions a)" by (simp add: force_shutdown_def open_weight_def)
  then show ?thesis using weight_shutdown_sessions [of a] Timeout by (simp add: force_shutdown_def)
qed

definition shutdown_weight :: "server_app \<Rightarrow> nat" where
  "shutdown_weight a = open_weight a + (if ap_stopped a then 0 else 1)"

lemma stopped_stays: "app_step c a b \<Longrightarrow> ap_stopped a \<Longrightarrow> ap_stopped b"
  by (elim app_stepE) (auto simp: finish_job_def return_slot_def)

lemma shutting_down_kept [simp]:
  "ap_shutting_down (send_response i r a) = ap_shutting_down a" "ap_shutting_down (start_batch i t l spawn a) = ap_shutting_down a"
  by (simp_all add: send_response_def start_batch_def Let_def)

lemma shutting_down_stays:
  assumes "app_step c a b" "ap_shutting_down a"
  shows "ap_shutting_down b"
  using assms(1)
proof cases
  case (Request i r spawn)
  then obtain outcome m where "b = (case outcome of
         Http_error status code retry \<Rightarrow> send_response i (Error_response status code retry) (on_http i (\<lambda>s. s \<lparr> hx_reading := False \<rparr>) (a \<lparr> ap_leases := m \<rparr>))
       | Http_health \<Rightarrow> send_response i (Health_response (lm_mode m) (\<not> ap_shutting_down a)) (on_http i (\<lambda>s. s \<lparr> hx_reading := False \<rparr>) (a \<lparr> ap_leases := m \<rparr>))
       | Http_batch audio text_response lease \<Rightarrow> start_batch i text_response lease spawn (on_http i (\<lambda>s. s \<lparr> hx_reading := False \<rparr>) (a \<lparr> ap_leases := m \<rparr>))
       | Http_realtime lease \<Rightarrow>
           (let a2 = maybe_finish_shutdown (on_http i (\<lambda>s. s \<lparr> hx_transferred := True \<rparr>) (on_http i (\<lambda>s. s \<lparr> hx_reading := False \<rparr>) (a \<lparr> ap_leases := m \<rparr>)))
            in a2 \<lparr> ap_realtime := ap_realtime a2 @ [\<lparr> rp_open = True, rp_started = False, rp_lease = lease \<rparr>] \<rparr>))"
    by (auto simp: on_request_def Let_def)
  then show ?thesis using assms(2) by (cases outcome) (simp_all add: Let_def)
qed (use assms(2) shutdown_fields [of a] in
  \<open>auto simp: accept_http_def on_read_error_def on_written_def on_readable_def run_posted_def on_batch_result_def send_response_def
     finish_job_def return_slot_def start_realtime_worker_def close_realtime_def initiate_server_shutdown_def force_shutdown_def Let_def
     split: posted.splits option.splits\<close>)



end
