(* ===== verification/ServerConfig.thy ===== *)
theory ServerConfig
  imports EncoderSchedule
begin

text \<open>The server's configuration (\<open>server/server-config.cpp\<close>): defaults, then the environment, then the command
line, then validation.  The environment is a map of names, the key file an argument: its content and whether the read
failed, \<^term>\<open>None\<close> when it cannot be opened.\<close>

section \<open>Configuration\<close>

definition kibi_mebi :: int where "kibi_mebi = 1024 * 1024"

record server_config =
  cf_model_path :: string
  cf_listen_address :: string
  cf_port :: int
  cf_api_key :: string
  cf_api_key_file :: string
  cf_no_auth :: bool
  cf_allow_insecure :: bool
  cf_max_upload_bytes :: int
  cf_soft_lag_ms :: int
  cf_hard_lag_ms :: int
  cf_buffer_ms :: int
  cf_idle_timeout_sec :: int

definition default_server_config :: server_config where
  "default_server_config = \<lparr> cf_model_path = [], cf_listen_address = ''127.0.0.1'', cf_port = 8080, cf_api_key = [],
     cf_api_key_file = [], cf_no_auth = False, cf_allow_insecure = False, cf_max_upload_bytes = 512 * kibi_mebi,
     cf_soft_lag_ms = 1000, cf_hard_lag_ms = 5000, cf_buffer_ms = 1000, cf_idle_timeout_sec = 60 \<rparr>"

datatype config_action = Act_run | Act_help | Act_version

datatype config_error =
    Not_unsigned string
  | Out_of_range string int int
  | Missing_value string
  | Empty_value string
  | Unknown_option string
  | Config_message string

section \<open>Unsigned numbers\<close>

text \<open>The C library's \<open>strtoull\<close> in base 10, on a string up to its terminator: the value (negated modulo
\<open>2^64\<close> after a minus sign), whether it was out of range, and the unconsumed rest; \<^term>\<open>None\<close> without
a digit.\<close>

definition strtoull10 :: "string \<Rightarrow> (int \<times> bool \<times> string) option" where
  "strtoull10 s =
    (let s1 = dropWhile is_space s;
         (neg, s2) = (case s1 of
            [] \<Rightarrow> (False, [])
          | c # cs \<Rightarrow> if c = CHR ''-'' then (True, cs) else if c = CHR ''+'' then (False, cs) else (False, c # cs))
     in case s2 of
          [] \<Rightarrow> None
        | c # cs \<Rightarrow>
            if is_digit c
            then (let (v, rest) = parse_digits 0 s2
                  in if 2 ^ 64 \<le> v then Some (2 ^ 64 - 1, True, rest) else Some (u64 (if neg then - v else v), False, rest))
            else None)"

definition parse_unsigned :: "string \<Rightarrow> string \<Rightarrow> int \<Rightarrow> int \<Rightarrow> config_error + int" where
  "parse_unsigned val option_name minimum maximum =
    (if val = [] \<or> hd val = CHR ''-'' \<or> hd val = CHR ''+'' then Inl (Not_unsigned option_name)
     else case strtoull10 (takeWhile (\<lambda>c. c \<noteq> CHR 0x00) val) of
       None \<Rightarrow> Inl (Out_of_range option_name minimum maximum)
     | Some (parsed, range_error, rest) \<Rightarrow>
         if range_error \<or> rest \<noteq> [] \<or> parsed < minimum \<or> maximum < parsed
         then Inl (Out_of_range option_name minimum maximum)
         else Inr parsed)"

definition uint32_max :: int where "uint32_max = 2 ^ 32 - 1"

definition max_upload_mib :: int where "max_upload_mib = (2 ^ 64 - 1) div kibi_mebi"

section \<open>Environment\<close>

text \<open>A number of the environment, when it is set.\<close>

definition env_number ::
  "environment \<Rightarrow> string \<Rightarrow> int \<Rightarrow> (int \<Rightarrow> server_config \<Rightarrow> server_config) \<Rightarrow> config_error + server_config
   \<Rightarrow> config_error + server_config" where
  "env_number env n maximum put acc =
    (case acc of
       Inl e \<Rightarrow> Inl e
     | Inr c \<Rightarrow>
         (case env n of
            None \<Rightarrow> Inr c
          | Some val \<Rightarrow> (case parse_unsigned val n 1 maximum of Inl e \<Rightarrow> Inl e | Inr v \<Rightarrow> Inr (put v c))))"

definition apply_environment :: "environment \<Rightarrow> server_config \<Rightarrow> config_error + server_config" where
  "apply_environment env c0 =
    (let c1 = (case env ''VOXTRAL_SERVER_MODEL'' of None \<Rightarrow> c0 | Some v \<Rightarrow> c0 \<lparr> cf_model_path := v \<rparr>);
         c2 = (case env ''VOXTRAL_SERVER_LISTEN'' of None \<Rightarrow> c1 | Some v \<Rightarrow> c1 \<lparr> cf_listen_address := v \<rparr>);
         r3 = env_number env ''VOXTRAL_SERVER_PORT'' 65535 (\<lambda>v c. c \<lparr> cf_port := v \<rparr>) (Inr c2);
         r4 = (case r3 of
            Inl e \<Rightarrow> Inl e
          | Inr c \<Rightarrow> Inr (case env ''VOXTRAL_SERVER_API_KEY'' of
                Some v \<Rightarrow> c \<lparr> cf_api_key := v, cf_api_key_file := [] \<rparr>
              | None \<Rightarrow> (case env ''VOXTRAL_SERVER_API_KEY_FILE'' of None \<Rightarrow> c | Some v \<Rightarrow> c \<lparr> cf_api_key_file := v \<rparr>)));
         r5 = env_number env ''VOXTRAL_SERVER_MAX_UPLOAD_MIB'' max_upload_mib (\<lambda>v c. c \<lparr> cf_max_upload_bytes := v * kibi_mebi \<rparr>) r4;
         r6 = env_number env ''VOXTRAL_SERVER_REALTIME_SOFT_LAG_MS'' uint32_max (\<lambda>v c. c \<lparr> cf_soft_lag_ms := v \<rparr>) r5;
         r7 = env_number env ''VOXTRAL_SERVER_REALTIME_HARD_LAG_MS'' uint32_max (\<lambda>v c. c \<lparr> cf_hard_lag_ms := v \<rparr>) r6;
         r8 = env_number env ''VOXTRAL_SERVER_REALTIME_BUFFER_MS'' uint32_max (\<lambda>v c. c \<lparr> cf_buffer_ms := v \<rparr>) r7
     in env_number env ''VOXTRAL_SERVER_IDLE_TIMEOUT_SEC'' uint32_max (\<lambda>v c. c \<lparr> cf_idle_timeout_sec := v \<rparr>) r8)"

section \<open>Validation\<close>

definition is_loopback_address :: "string \<Rightarrow> bool" where
  "is_loopback_address address \<longleftrightarrow> address = ''localhost'' \<or> address = ''::1'' \<or> take 4 address = ''127.''"

definition max_api_key_bytes :: nat where "max_api_key_bytes = 4096"

definition is_line_end :: "char \<Rightarrow> bool" where
  "is_line_end c \<longleftrightarrow> c = CHR 0x0A \<or> c = CHR 0x0D"

definition read_api_key_file :: "(string \<Rightarrow> (string \<times> bool) option) \<Rightarrow> string \<Rightarrow> config_error + string" where
  "read_api_key_file read_file path =
    (case read_file path of
       None \<Rightarrow> Inl (Config_message ''cannot open API key file'')
     | Some (content, bad) \<Rightarrow>
         if bad \<or> max_api_key_bytes < length content then Inl (Config_message ''API key file is invalid or too large'')
         else let key = rev (dropWhile is_line_end (rev content))
              in if key = [] \<or> CHR 0x00 \<in> set key
                 then Inl (Config_message ''API key file must contain a non-empty text token'') else Inr key)"

definition validate_config :: "(string \<Rightarrow> (string \<times> bool) option) \<Rightarrow> server_config \<Rightarrow> config_error + server_config" where
  "validate_config read_file c =
    (if cf_model_path c = [] then Inl (Config_message ''model path is required (--model or VOXTRAL_SERVER_MODEL)'')
     else if cf_listen_address c = [] then Inl (Config_message ''listen address must not be empty'')
     else if cf_hard_lag_ms c < cf_soft_lag_ms c then Inl (Config_message ''realtime soft lag must not exceed hard lag'')
     else if cf_no_auth c
     then if \<not> is_loopback_address (cf_listen_address c) \<and> \<not> cf_allow_insecure c
          then Inl (Config_message ''--no-auth is only allowed on a loopback bind; use --allow-insecure-no-auth to override'')
          else Inr (c \<lparr> cf_api_key := [], cf_api_key_file := [] \<rparr>)
     else case (if cf_api_key_file c \<noteq> [] then read_api_key_file read_file (cf_api_key_file c) else Inr (cf_api_key c)) of
       Inl e \<Rightarrow> Inl e
     | Inr key \<Rightarrow>
         if key = [] then Inl (Config_message ''authentication is required; configure an API key or use --no-auth'')
         else if max_api_key_bytes < length key \<or> CHR 0x00 \<in> set key then Inl (Config_message ''API key is invalid or too large'')
         else Inr (c \<lparr> cf_api_key := key \<rparr>))"

section \<open>Command line\<close>

definition arg_number :: "string \<Rightarrow> string \<Rightarrow> int \<Rightarrow> (int \<Rightarrow> server_config) \<Rightarrow> config_error + server_config" where
  "arg_number option_name val maximum put =
    (case parse_unsigned val option_name 1 maximum of Inl e \<Rightarrow> Inl e | Inr v \<Rightarrow> Inr (put v))"

text \<open>The options that take a value: what they do with it.\<close>

definition value_option :: "string \<Rightarrow> (string \<Rightarrow> server_config \<Rightarrow> config_error + server_config) option" where
  "value_option a =
    (if a = ''--model'' then Some (\<lambda>v c. Inr (c \<lparr> cf_model_path := v \<rparr>))
     else if a = ''--listen'' then Some (\<lambda>v c. Inr (c \<lparr> cf_listen_address := v \<rparr>))
     else if a = ''--port'' then Some (\<lambda>v c. arg_number a v 65535 (\<lambda>n. c \<lparr> cf_port := n \<rparr>))
     else if a = ''--api-key-file'' then Some (\<lambda>v c. Inr (c \<lparr> cf_api_key_file := v, cf_api_key := [], cf_no_auth := False \<rparr>))
     else if a = ''--max-upload-mib''
     then Some (\<lambda>v c. arg_number a v max_upload_mib (\<lambda>n. c \<lparr> cf_max_upload_bytes := n * kibi_mebi \<rparr>))
     else if a = ''--realtime-soft-lag-ms'' then Some (\<lambda>v c. arg_number a v uint32_max (\<lambda>n. c \<lparr> cf_soft_lag_ms := n \<rparr>))
     else if a = ''--realtime-hard-lag-ms'' then Some (\<lambda>v c. arg_number a v uint32_max (\<lambda>n. c \<lparr> cf_hard_lag_ms := n \<rparr>))
     else if a = ''--realtime-buffer-ms'' then Some (\<lambda>v c. arg_number a v uint32_max (\<lambda>n. c \<lparr> cf_buffer_ms := n \<rparr>))
     else if a = ''--idle-timeout-sec'' then Some (\<lambda>v c. arg_number a v uint32_max (\<lambda>n. c \<lparr> cf_idle_timeout_sec := n \<rparr>))
     else None)"

text \<open>The loop over the arguments after the program's name.\<close>

fun parse_arguments :: "string list \<Rightarrow> server_config \<Rightarrow> config_error + (config_action \<times> server_config)" where
  "parse_arguments [] c = Inr (Act_run, c)"
| "parse_arguments (a # rest) c =
    (if a = ''--help'' then Inr (Act_help, c)
     else if a = ''--version'' then Inr (Act_version, c)
     else if a = ''--no-auth'' then parse_arguments rest (c \<lparr> cf_no_auth := True \<rparr>)
     else if a = ''--allow-insecure-no-auth'' then parse_arguments rest (c \<lparr> cf_allow_insecure := True \<rparr>)
     else case value_option a of
       None \<Rightarrow> Inl (Unknown_option a)
     | Some put \<Rightarrow>
         (case rest of
            [] \<Rightarrow> Inl (Missing_value a)
          | v # rest2 \<Rightarrow>
              if v = [] then Inl (Empty_value a)
              else (case put v c of Inl e \<Rightarrow> Inl e | Inr c1 \<Rightarrow> parse_arguments rest2 c1)))"

definition parse_config ::
  "(string \<Rightarrow> (string \<times> bool) option) \<Rightarrow> environment \<Rightarrow> string list \<Rightarrow> config_error + (config_action \<times> server_config)" where
  "parse_config read_file env arguments =
    (case apply_environment env default_server_config of
       Inl e \<Rightarrow> Inl e
     | Inr c \<Rightarrow>
         (case parse_arguments (tl arguments) c of
            Inl e \<Rightarrow> Inl e
          | Inr (action, c1) \<Rightarrow>
              if action \<noteq> Act_run then Inr (action, c1)
              else (case validate_config read_file c1 of Inl e \<Rightarrow> Inl e | Inr c2 \<Rightarrow> Inr (Act_run, c2))))"

section \<open>What a configuration guarantees\<close>

definition numbers_ok :: "server_config \<Rightarrow> bool" where
  "numbers_ok c \<longleftrightarrow>
    cf_port c \<in> {1..65535} \<and> cf_max_upload_bytes c \<in> {kibi_mebi..2 ^ 64 - 1} \<and> cf_soft_lag_ms c \<in> {1..uint32_max} \<and>
    cf_hard_lag_ms c \<in> {1..uint32_max} \<and> cf_buffer_ms c \<in> {1..uint32_max} \<and> cf_idle_timeout_sec c \<in> {1..uint32_max}"

lemma parse_unsigned_range: "parse_unsigned v n minimum maximum = Inr x \<Longrightarrow> minimum \<le> x \<and> x \<le> maximum"
  by (auto simp: parse_unsigned_def split: if_splits option.splits)

lemma mib_bounds: "1 \<le> v \<Longrightarrow> v \<le> max_upload_mib \<Longrightarrow> kibi_mebi \<le> v * kibi_mebi \<and> v * kibi_mebi \<le> 2 ^ 64 - 1"
  by (auto simp: kibi_mebi_def max_upload_mib_def)

lemma default_numbers_ok: "numbers_ok default_server_config"
  by (simp add: numbers_ok_def default_server_config_def uint32_max_def kibi_mebi_def)

definition in_range :: "config_error + server_config \<Rightarrow> bool" where
  "in_range r \<longleftrightarrow> (case r of Inl _ \<Rightarrow> True | Inr c \<Rightarrow> numbers_ok c)"

lemma in_range_simps [simp]: "in_range (Inl e)" "in_range (Inr c) = numbers_ok c"
  by (simp_all add: in_range_def)

lemma env_number_ok:
  assumes "in_range acc" "\<And>v c. numbers_ok c \<Longrightarrow> 1 \<le> v \<Longrightarrow> v \<le> maximum \<Longrightarrow> numbers_ok (put v c)"
  shows "in_range (env_number env n maximum put acc)"
proof (cases acc)
  case (Inr c)
  then show ?thesis using assms parse_unsigned_range [of _ n 1 maximum]
    by (cases "env n") (auto simp: env_number_def split: sum.split)
qed (simp add: env_number_def)

lemma numbers_ok_update [simp]:
  "numbers_ok (c \<lparr> cf_model_path := t \<rparr>) = numbers_ok c" "numbers_ok (c \<lparr> cf_listen_address := t \<rparr>) = numbers_ok c"
  "numbers_ok (c \<lparr> cf_api_key := t \<rparr>) = numbers_ok c" "numbers_ok (c \<lparr> cf_api_key_file := t \<rparr>) = numbers_ok c"
  "numbers_ok (c \<lparr> cf_no_auth := b \<rparr>) = numbers_ok c" "numbers_ok (c \<lparr> cf_allow_insecure := b \<rparr>) = numbers_ok c"
  by (simp_all add: numbers_ok_def)

lemma numbers_ok_put:
  assumes "numbers_ok c" "1 \<le> v"
  shows "v \<le> 65535 \<Longrightarrow> numbers_ok (c \<lparr> cf_port := v \<rparr>)" "v \<le> max_upload_mib \<Longrightarrow> numbers_ok (c \<lparr> cf_max_upload_bytes := v * kibi_mebi \<rparr>)"
    "v \<le> uint32_max \<Longrightarrow> numbers_ok (c \<lparr> cf_soft_lag_ms := v \<rparr>)" "v \<le> uint32_max \<Longrightarrow> numbers_ok (c \<lparr> cf_hard_lag_ms := v \<rparr>)"
    "v \<le> uint32_max \<Longrightarrow> numbers_ok (c \<lparr> cf_buffer_ms := v \<rparr>)" "v \<le> uint32_max \<Longrightarrow> numbers_ok (c \<lparr> cf_idle_timeout_sec := v \<rparr>)"
  using assms mib_bounds [of v] by (simp_all add: numbers_ok_def)

lemma environment_numbers_ok: "numbers_ok c \<Longrightarrow> in_range (apply_environment env c)"
proof -
  assume "numbers_ok c"
  then have c2: "numbers_ok (case env a of None \<Rightarrow> (case env b of None \<Rightarrow> c | Some v \<Rightarrow> c \<lparr> cf_model_path := v \<rparr>)
      | Some w \<Rightarrow> (case env b of None \<Rightarrow> c | Some v \<Rightarrow> c \<lparr> cf_model_path := v \<rparr>) \<lparr> cf_listen_address := w \<rparr>)" for a b
    by (simp split: option.split)
  have key: "in_range r \<Longrightarrow> in_range (case r of
            Inl e \<Rightarrow> Inl e
          | Inr c \<Rightarrow> Inr (case env a of
                Some v \<Rightarrow> c \<lparr> cf_api_key := v, cf_api_key_file := [] \<rparr>
              | None \<Rightarrow> (case env b of None \<Rightarrow> c | Some v \<Rightarrow> c \<lparr> cf_api_key_file := v \<rparr>)))" for r a b
    by (cases r) (simp_all split: option.split)
  show ?thesis unfolding apply_environment_def Let_def
    by (intro env_number_ok key) (simp_all only: in_range_simps c2, simp_all add: numbers_ok_put)
qed

lemma arg_number_ok: "(\<And>n. 1 \<le> n \<Longrightarrow> n \<le> maximum \<Longrightarrow> numbers_ok (put n)) \<Longrightarrow> in_range (arg_number a v maximum put)"
  using parse_unsigned_range [of v a 1 maximum] by (simp add: arg_number_def split: sum.split)

lemma value_option_ok: "value_option a = Some put \<Longrightarrow> numbers_ok c \<Longrightarrow> in_range (put v c)"
  unfolding value_option_def
  by (auto intro!: arg_number_ok numbers_ok_put split: if_split_asm simp del: One_nat_def)

lemma arguments_numbers_ok: "parse_arguments as c = Inr (action, d) \<Longrightarrow> numbers_ok c \<Longrightarrow> numbers_ok d"
proof (induction as c rule: parse_arguments.induct)
  case (2 a rest c)
  show ?case
  proof (cases "a = ''--help'' \<or> a = ''--version'' \<or> a = ''--no-auth'' \<or> a = ''--allow-insecure-no-auth''")
    case True
    then show ?thesis using 2 by (auto split: if_split_asm)
  next
    case False
    then obtain put v rest2 c1 where v: "value_option a = Some put" "rest = v # rest2" "v \<noteq> []" "put v c = Inr c1"
      "parse_arguments rest2 c1 = Inr (action, d)"
      using "2.prems"(1) by (auto split: option.splits list.splits sum.splits if_split_asm)
    have "numbers_ok c1" using value_option_ok [OF v(1) "2.prems"(2), of v] v(4) by simp
    then show ?thesis using "2.IH"(3) [of put v rest2 c1] False v by simp
  qed
qed simp

text \<open>C38: A configuration the server runs with has every number in its documented range, a soft lag limit not above
the hard one, a model and an address, and either a key of 1 to 4096 bytes without a zero byte, or authentication is
off and then the address is a loopback one or the override was given, and no key is kept.\<close>

theorem server_config_sound:
  assumes "parse_config read_file env arguments = Inr (Act_run, c)"
  shows "numbers_ok c \<and> cf_soft_lag_ms c \<le> cf_hard_lag_ms c \<and> cf_model_path c \<noteq> [] \<and> cf_listen_address c \<noteq> [] \<and>
    (if cf_no_auth c
     then cf_api_key c = [] \<and> (is_loopback_address (cf_listen_address c) \<or> cf_allow_insecure c)
     else length (cf_api_key c) \<in> {1..4096} \<and> CHR 0x00 \<notin> set (cf_api_key c))"
proof -
  obtain c0 c1 where c: "apply_environment env default_server_config = Inr c0" "parse_arguments (tl arguments) c0 = Inr (Act_run, c1)"
    "validate_config read_file c1 = Inr c"
    using assms by (auto simp: parse_config_def split: sum.splits if_splits)
  have "numbers_ok c1" using arguments_numbers_ok [OF c(2)] environment_numbers_ok [OF default_numbers_ok, of env] c(1) by simp
  then show ?thesis using c(3)
    by (auto simp: validate_config_def numbers_ok_def max_api_key_bytes_def Suc_le_eq split: if_splits sum.splits)
qed

lemma server_config_sound_witness:
  "\<exists>c. parse_config (\<lambda>_. Some (''secret'' @ [CHR 0x0A], False)) (\<lambda>_. None)
      [''server'', ''--model'', ''m'', ''--port'', ''80'', ''--no-auth'', ''--api-key-file'', ''k''] = Inr (Act_run, c) \<and>
    cf_api_key c = ''secret'' \<and> \<not> cf_no_auth c \<and> numbers_ok c"
proof -
  let ?r = "parse_config (\<lambda>_. Some (''secret'' @ [CHR 0x0A], False)) (\<lambda>_. None)
      [''server'', ''--model'', ''m'', ''--port'', ''80'', ''--no-auth'', ''--api-key-file'', ''k'']"
  have "(case ?r of Inl _ \<Rightarrow> False | Inr (a, c) \<Rightarrow> a = Act_run \<and> cf_api_key c = ''secret'' \<and> \<not> cf_no_auth c)" by code_simp
  then obtain c where c: "?r = Inr (Act_run, c)" "cf_api_key c = ''secret''" "\<not> cf_no_auth c" by (auto split: sum.splits)
  from server_config_sound [OF c(1)] c show ?thesis by auto
qed

text \<open>A leading blank hides the sign from the check, and \<open>strtoull\<close> negates modulo \<open>2^64\<close>.\<close>

lemma parse_unsigned_accepts_negative:
  "parse_unsigned '' -18446744073709543536'' ''--port'' 1 65535 = Inr 8080"
  by code_simp

end
