(* ===== verification/Quantize.thy ===== *)
theory Quantize
  imports Prelude
begin

text \<open>The model quantizer (\<open>src/voxtral-quantize.cpp\<close>): which tensors are quantized and to what, the chunked and
threaded conversion of a tensor's rows, and the layout of the file written.  The functions of ggml are the fields of
a record.  The schedule of the worker threads is an argument; what a thread does is atomic, the slices they write are
disjoint.\<close>

section \<open>ggml\<close>

datatype tensor_type =
    T_f32 | T_f16 | T_bf16 | T_q4_0 | T_q4_1 | T_q5_0 | T_q5_1 | T_q8_0 | T_q2_k | T_q3_k | T_q4_k | T_q5_k | T_q6_k
  | T_other int

record tensor =
  tn_name :: string
  tn_type :: tensor_type
  tn_ne :: "int list"
  tn_data :: "8 word list"

text \<open>\<open>gg_bf16_row\<close> is there when \<open>GGML_TYPE_BF16\<close> is a macro (\<open>#ifdef\<close>); \<open>gg_quantize\<close> is \<open>ggml_quantize_chunk\<close>: the bytes written for some rows of some width.\<close>

record 'f ggml =
  gg_n_dims :: "tensor \<Rightarrow> int"
  gg_nelements :: "tensor \<Rightarrow> int"
  gg_nbytes :: "tensor \<Rightarrow> nat"
  gg_blck_size :: "tensor_type \<Rightarrow> int"
  gg_row_size :: "tensor_type \<Rightarrow> int \<Rightarrow> nat"
  gg_is_quantized :: "tensor_type \<Rightarrow> bool"
  gg_float :: "8 word list \<Rightarrow> 'f"
  gg_bf16_row :: "(8 word list \<Rightarrow> int \<Rightarrow> 'f list) option"
  gg_fp16_row :: "8 word list \<Rightarrow> int \<Rightarrow> 'f list"
  gg_to_float :: "tensor_type \<Rightarrow> (8 word list \<Rightarrow> int \<Rightarrow> 'f list) option"
  gg_quantize :: "tensor_type \<Rightarrow> 'f list \<Rightarrow> nat \<Rightarrow> int \<Rightarrow> 8 word list"

section \<open>Options\<close>

text \<open>The file type \<open>GGML_FTYPE_MOSTLY_\<close>\<open>x\<close> is written as the tensor type \<open>x\<close>.\<close>

record quant_options =
  qo_name :: string
  qo_base_type :: tensor_type
  qo_file_type :: tensor_type
  qo_q4_k_m :: bool

definition lower_ascii :: "char \<Rightarrow> char" where
  "lower_ascii c = (let n = (of_char c :: int) in if 65 \<le> n \<and> n \<le> 90 then char_of (n + 32) else c)"

definition quant_table :: "(string \<times> quant_options) list" where
  "quant_table =
    [(''q4_0'', \<lparr> qo_name = ''Q4_0'', qo_base_type = T_q4_0, qo_file_type = T_q4_0, qo_q4_k_m = False \<rparr>),
     (''q4_1'', \<lparr> qo_name = ''Q4_1'', qo_base_type = T_q4_1, qo_file_type = T_q4_1, qo_q4_k_m = False \<rparr>),
     (''q5_0'', \<lparr> qo_name = ''Q5_0'', qo_base_type = T_q5_0, qo_file_type = T_q5_0, qo_q4_k_m = False \<rparr>),
     (''q5_1'', \<lparr> qo_name = ''Q5_1'', qo_base_type = T_q5_1, qo_file_type = T_q5_1, qo_q4_k_m = False \<rparr>),
     (''q8_0'', \<lparr> qo_name = ''Q8_0'', qo_base_type = T_q8_0, qo_file_type = T_q8_0, qo_q4_k_m = False \<rparr>),
     (''q8'', \<lparr> qo_name = ''Q8_0'', qo_base_type = T_q8_0, qo_file_type = T_q8_0, qo_q4_k_m = False \<rparr>),
     (''q2_k'', \<lparr> qo_name = ''Q2_K'', qo_base_type = T_q2_k, qo_file_type = T_q2_k, qo_q4_k_m = False \<rparr>),
     (''q3_k'', \<lparr> qo_name = ''Q3_K'', qo_base_type = T_q3_k, qo_file_type = T_q3_k, qo_q4_k_m = False \<rparr>),
     (''q4_k'', \<lparr> qo_name = ''Q4_K'', qo_base_type = T_q4_k, qo_file_type = T_q4_k, qo_q4_k_m = False \<rparr>),
     (''q5_k'', \<lparr> qo_name = ''Q5_K'', qo_base_type = T_q5_k, qo_file_type = T_q5_k, qo_q4_k_m = False \<rparr>),
     (''q6_k'', \<lparr> qo_name = ''Q6_K'', qo_base_type = T_q6_k, qo_file_type = T_q6_k, qo_q4_k_m = False \<rparr>),
     (''q6'', \<lparr> qo_name = ''Q6_K'', qo_base_type = T_q6_k, qo_file_type = T_q6_k, qo_q4_k_m = False \<rparr>),
     (''q4_k_m'', \<lparr> qo_name = ''Q4_K_M'', qo_base_type = T_q4_k, qo_file_type = T_q4_k, qo_q4_k_m = True \<rparr>)]"

datatype quant_error =
    Bad_type string | Bad_architecture string | No_to_float | Bad_source_type | Chunk_mismatch | Thread_mismatch
  | Copy_mismatch string | Quantized_mismatch string | Metadata_changed

definition parse_quant_type :: "string \<Rightarrow> quant_error + quant_options" where
  "parse_quant_type raw =
    (case map_of quant_table (List.map lower_ascii raw) of None \<Rightarrow> Inl (Bad_type raw) | Some q \<Rightarrow> Inr q)"

section \<open>Which tensors\<close>

text \<open>The regular expressions, by hand: after a prefix, a block number of at least one digit and a dot, one of the
names below.\<close>

definition is_digit_char :: "char \<Rightarrow> bool" where
  "is_digit_char c \<longleftrightarrow> 48 \<le> (of_char c :: nat) \<and> (of_char c :: nat) \<le> 57"

definition after_prefix :: "string \<Rightarrow> string \<Rightarrow> string option" where
  "after_prefix p s = (if take (length p) s = p then Some (drop (length p) s) else None)"

definition block_names :: "string list" where
  "block_names = [''.attn_q.weight'', ''.attn_k.weight'', ''.attn_v.weight'', ''.attn_o.weight'',
     ''.ffn_w1.weight'', ''.ffn_w2.weight'', ''.ffn_w3.weight'']"

definition block_tensor :: "string \<Rightarrow> string list \<Rightarrow> string \<Rightarrow> bool" where
  "block_tensor p suffixes s \<longleftrightarrow>
    (case after_prefix p s of
       None \<Rightarrow> False
     | Some rest \<Rightarrow> takeWhile is_digit_char rest \<noteq> [] \<and> dropWhile is_digit_char rest \<in> set suffixes)"

definition quantizable_name :: "string \<Rightarrow> bool" where
  "quantizable_name s \<longleftrightarrow>
    s \<in> {''tok_embeddings.weight'', ''adapter.0.weight'', ''adapter.2.weight'', ''output.weight'', ''output_mm.weight''} \<or>
    block_tensor ''enc.blk.'' block_names s \<or> block_tensor ''dec.blk.'' (block_names @ [''.ada0.weight'', ''.ada2.weight'']) s"

definition is_voxtral_quantizable :: "'f ggml \<Rightarrow> tensor \<Rightarrow> bool" where
  "is_voxtral_quantizable g t \<longleftrightarrow> gg_n_dims g t = 2 \<and> quantizable_name (tn_name t)"

fun contains :: "string \<Rightarrow> string \<Rightarrow> bool" where
  "contains p [] = (p = [])"
| "contains p (c # cs) = (take (length p) (c # cs) = p \<or> contains p cs)"

definition q4_k_m_prefers_q6_k :: "string \<Rightarrow> bool" where
  "q4_k_m_prefers_q6_k s \<longleftrightarrow>
    s \<in> {''tok_embeddings.weight'', ''output.weight'', ''output_mm.weight''} \<or>
    contains ''.attn_v.weight'' s \<or> contains ''.ffn_w2.weight'' s"

definition choose_tensor_type :: "quant_options \<Rightarrow> string \<Rightarrow> tensor_type" where
  "choose_tensor_type q s =
    (if \<not> qo_q4_k_m q then qo_base_type q else if q4_k_m_prefers_q6_k s then T_q6_k else T_q4_k)"

definition width :: "tensor \<Rightarrow> int" where
  "width t = tn_ne t ! 0"

definition is_row_compatible :: "'f ggml \<Rightarrow> tensor_type \<Rightarrow> int \<Rightarrow> bool" where
  "is_row_compatible g ty n \<longleftrightarrow> 0 < gg_blck_size g ty \<and> n mod gg_blck_size g ty = 0"

text \<open>The type a tensor gets, and whether it is quantized.\<close>

definition plan_tensor :: "'f ggml \<Rightarrow> quant_options \<Rightarrow> tensor \<Rightarrow> bool \<times> tensor_type" where
  "plan_tensor g q t =
    (if \<not> is_voxtral_quantizable g t then (False, tn_type t)
     else let ty = choose_tensor_type q (tn_name t) in
          if \<not> gg_is_quantized g ty then (False, tn_type t)
          else if \<not> is_row_compatible g ty (width t) then (False, tn_type t)
          else if tn_type t = ty then (False, ty)
          else (True, ty))"

definition tensor_nbytes_for_type :: "'f ggml \<Rightarrow> tensor \<Rightarrow> tensor_type \<Rightarrow> nat" where
  "tensor_nbytes_for_type g t ty =
    (if width t \<le> 0 then 0 else gg_row_size g ty (width t) * nat (gg_nelements g t div width t))"

section \<open>Rows\<close>

definition slot :: "nat \<Rightarrow> nat \<Rightarrow> 'a list \<Rightarrow> 'a list" where
  "slot rsz i xs = take rsz (drop (i * rsz) xs)"

text \<open>Memory read as floats.\<close>

fun floats :: "'f ggml \<Rightarrow> 8 word list \<Rightarrow> 'f list" where
  "floats g (a # b # c # d # rest) = gg_float g [a, b, c, d] # floats g rest"
| "floats g _ = []"

definition convert_rows_to_f32 :: "'f ggml \<Rightarrow> tensor \<Rightarrow> nat \<Rightarrow> nat \<Rightarrow> quant_error + 'f list" where
  "convert_rows_to_f32 g t row0 nrows =
    (let n = width t; rsz = gg_row_size g (tn_type t) n; base = drop (row0 * rsz) (tn_data t) in
     if tn_type t = T_f32 \<and> int rsz = n * 4 then Inr (floats g (take (nrows * rsz) base))
     else if tn_type t = T_f16 then Inr (concat (List.map (\<lambda>r. gg_fp16_row g (slot rsz r base) n) [0..<nrows]))
     else if tn_type t = T_bf16 \<and> gg_bf16_row g \<noteq> None
     then Inr (concat (List.map (\<lambda>r. the (gg_bf16_row g) (slot rsz r base) n) [0..<nrows]))
     else if gg_is_quantized g (tn_type t)
     then case gg_to_float g (tn_type t) of
            None \<Rightarrow> Inl No_to_float
          | Some f \<Rightarrow> Inr (concat (List.map (\<lambda>r. f (slot rsz r base) n) [0..<nrows]))
     else Inl Bad_source_type)"

text \<open>Writing into a buffer at an offset.\<close>

definition blit :: "'a list \<Rightarrow> nat \<Rightarrow> 'a list \<Rightarrow> 'a list" where
  "blit xs at_pos buf = take at_pos buf @ xs @ drop (at_pos + length xs) buf"

definition slice_start :: "nat \<Rightarrow> nat \<Rightarrow> nat \<Rightarrow> nat" where
  "slice_start rows threads ti = rows * ti div threads"

text \<open>Worker \<open>ti\<close>: the buffer after it, or its error.\<close>

definition run_worker_slice ::
  "'f ggml \<Rightarrow> tensor \<Rightarrow> tensor_type \<Rightarrow> nat \<Rightarrow> nat \<Rightarrow> nat \<Rightarrow> nat \<Rightarrow> 8 word list \<Rightarrow> quant_error + 8 word list" where
  "run_worker_slice g t ty row rows threads ti buf =
    (let r0 = slice_start rows threads ti; r1 = slice_start rows threads (ti + 1);
         rsz = gg_row_size g ty (width t) in
     if r1 \<le> r0 then Inr buf
     else case convert_rows_to_f32 g t (row + r0) (r1 - r0) of
       Inl e \<Rightarrow> Inl e
     | Inr fs \<Rightarrow>
         let out = gg_quantize g ty fs (r1 - r0) (width t)
         in if length out \<noteq> (r1 - r0) * rsz then Inl Thread_mismatch else Inr (blit out (r0 * rsz) buf))"

text \<open>The workers in the order the scheduler runs them: the buffer and the errors.\<close>

fun run_workers ::
  "'f ggml \<Rightarrow> tensor \<Rightarrow> tensor_type \<Rightarrow> nat \<Rightarrow> nat \<Rightarrow> nat \<Rightarrow> nat list \<Rightarrow> 8 word list \<Rightarrow> (nat \<times> quant_error) list \<times> 8 word list" where
  "run_workers g t ty row rows threads [] buf = ([], buf)"
| "run_workers g t ty row rows threads (ti # rest) buf =
    (case run_worker_slice g t ty row rows threads ti buf of
       Inl e \<Rightarrow> let (errs, b) = run_workers g t ty row rows threads rest buf in ((ti, e) # errs, b)
     | Inr b1 \<Rightarrow> run_workers g t ty row rows threads rest b1)"

definition first_error :: "nat \<Rightarrow> (nat \<times> quant_error) list \<Rightarrow> quant_error option" where
  "first_error threads errs =
    (case List.find (\<lambda>ti. map_of errs ti \<noteq> None) [0..<threads] of None \<Rightarrow> None | Some ti \<Rightarrow> map_of errs ti)"

text \<open>One chunk: the buffer after it.\<close>

definition quantize_chunk ::
  "'f ggml \<Rightarrow> tensor \<Rightarrow> tensor_type \<Rightarrow> int \<Rightarrow> (nat \<Rightarrow> nat list) \<Rightarrow> nat \<Rightarrow> nat \<Rightarrow> 8 word list \<Rightarrow> quant_error + 8 word list" where
  "quantize_chunk g t ty nthread order row rows buf =
    (let threads = nat (max 1 (min nthread (int rows))); rsz = gg_row_size g ty (width t) in
     if threads = 1
     then case convert_rows_to_f32 g t row rows of
            Inl e \<Rightarrow> Inl e
          | Inr fs \<Rightarrow>
              let out = gg_quantize g ty fs rows (width t)
              in if length out \<noteq> rows * rsz then Inl Chunk_mismatch else Inr (blit out 0 buf)
     else let (errs, b) = run_workers g t ty row rows threads (order threads) buf
          in case first_error threads errs of Some e \<Rightarrow> Inl e | None \<Rightarrow> Inr b)"

definition chunk_elems :: int where "chunk_elems = 2 ^ 20"

definition chunk_rows :: "int \<Rightarrow> int \<Rightarrow> nat" where
  "chunk_rows n nrows = nat (min (max 1 (chunk_elems div max 1 n)) nrows)"

text \<open>The loop over the chunks; \<open>orders row k\<close> is the order in which the \<open>k\<close> workers of the chunk at
\<open>row\<close> run.\<close>

function quantize_chunks ::
  "'f ggml \<Rightarrow> tensor \<Rightarrow> tensor_type \<Rightarrow> int \<Rightarrow> (nat \<Rightarrow> nat \<Rightarrow> nat list) \<Rightarrow> nat \<Rightarrow> nat \<Rightarrow> nat \<Rightarrow> 8 word list \<Rightarrow> 8 word list \<Rightarrow> quant_error + 8 word list" where
  "quantize_chunks g t ty nthread orders per nrows row buf out =
    (if row < nrows \<and> 0 < per
     then let rows = min per (nrows - row) in
          case quantize_chunk g t ty nthread (orders row) row rows buf of
            Inl e \<Rightarrow> Inl e
          | Inr b \<Rightarrow> quantize_chunks g t ty nthread orders per nrows (row + per) b
                       (out @ take (rows * gg_row_size g ty (width t)) b)
     else Inr out)"
  by pat_completeness auto
termination
  by (relation "measure (\<lambda>(g, t, ty, nthread, orders, per, nrows, row, buf, out). nrows - row)") auto

declare quantize_chunks.simps [simp del]

definition quantize_tensor_rows ::
  "'f ggml \<Rightarrow> tensor \<Rightarrow> tensor_type \<Rightarrow> int \<Rightarrow> (nat \<Rightarrow> nat \<Rightarrow> nat list) \<Rightarrow> quant_error + 8 word list" where
  "quantize_tensor_rows g t ty nthread orders =
    (let n = width t; nrows = gg_nelements g t div n; per = chunk_rows n nrows
     in quantize_chunks g t ty nthread orders per (nat nrows) 0 (replicate (per * gg_row_size g ty n) 0) [])"

section \<open>The file\<close>

definition padding :: "nat \<Rightarrow> nat \<Rightarrow> nat" where
  "padding alignment written = (alignment - written mod alignment) mod alignment"

text \<open>The bytes of one tensor.\<close>

definition tensor_bytes ::
  "'f ggml \<Rightarrow> quant_options \<Rightarrow> int \<Rightarrow> (nat \<Rightarrow> nat \<Rightarrow> nat list) \<Rightarrow> tensor \<Rightarrow> quant_error + 8 word list" where
  "tensor_bytes g q nthread orders t =
    (let (quantize, ty) = plan_tensor g q t in
     if \<not> quantize
     then if gg_nbytes g t \<noteq> tensor_nbytes_for_type g t ty then Inl (Copy_mismatch (tn_name t))
          else Inr (take (gg_nbytes g t) (tn_data t))
     else case quantize_tensor_rows g t ty nthread orders of
            Inl e \<Rightarrow> Inl e
          | Inr out \<Rightarrow>
              if length out \<noteq> tensor_nbytes_for_type g t ty then Inl (Quantized_mismatch (tn_name t)) else Inr out)"

fun write_tensors ::
  "'f ggml \<Rightarrow> quant_options \<Rightarrow> int \<Rightarrow> (string \<Rightarrow> nat \<Rightarrow> nat \<Rightarrow> nat list) \<Rightarrow> nat \<Rightarrow> tensor list \<Rightarrow> 8 word list \<Rightarrow> quant_error + 8 word list" where
  "write_tensors g q nthread orders alignment [] file = Inr file"
| "write_tensors g q nthread orders alignment (t # ts) file =
    (case tensor_bytes g q nthread (orders (tn_name t)) t of
       Inl e \<Rightarrow> Inl e
     | Inr bytes \<Rightarrow>
         write_tensors g q nthread orders alignment ts (file @ bytes @ replicate (padding alignment (length bytes)) 0))"

text \<open>The metadata, a parameter, given the file type and the types chosen; its size is taken before and after they are set.\<close>

definition quantize_file ::
  "'f ggml \<Rightarrow> (tensor_type \<Rightarrow> tensor_type list \<Rightarrow> 8 word list) \<Rightarrow> quant_options \<Rightarrow> int \<Rightarrow> (string \<Rightarrow> nat \<Rightarrow> nat \<Rightarrow> nat list) \<Rightarrow> nat
   \<Rightarrow> string \<Rightarrow> tensor list \<Rightarrow> quant_error + 8 word list" where
  "quantize_file g metadata q nthread orders alignment arch ts =
    (if arch \<noteq> ''voxtral_realtime'' \<and> arch \<noteq> ''voxtral'' then Inl (Bad_architecture arch)
     else let placeholder = length (metadata (qo_file_type q) (List.map tn_type ts)) in
          case write_tensors g q nthread orders alignment ts (replicate placeholder 0) of
            Inl e \<Rightarrow> Inl e
          | Inr file \<Rightarrow>
              let final = metadata (qo_file_type q) (List.map (\<lambda>t. snd (plan_tensor g q t)) ts)
              in if length final \<noteq> placeholder then Inl Metadata_changed else Inr (blit final 0 file))"

section \<open>The program\<close>

text \<open>\<open>nthreads\<close>: the hardware's count unless there is a fifth argument; \<open>stoi\<close> is the value of \<open>std::stoi\<close>, which
stops at the first character that is no digit.\<close>

definition thread_count :: "int \<Rightarrow> (string \<Rightarrow> int option) \<Rightarrow> string option \<Rightarrow> int option" where
  "thread_count hardware stoi arg =
    (case arg of
       None \<Rightarrow> Some (if hardware \<le> 0 then 1 else hardware)
     | Some s \<Rightarrow> (case stoi s of None \<Rightarrow> None | Some n \<Rightarrow> Some (if n \<le> 0 then 1 else n)))"

text \<open>The exit code, and the arguments of the quantization when it starts.\<close>

definition quantize_main ::
  "int \<Rightarrow> (string \<Rightarrow> int option) \<Rightarrow> (string \<Rightarrow> string \<Rightarrow> quant_options \<Rightarrow> int \<Rightarrow> bool) \<Rightarrow> string list \<Rightarrow> int" where
  "quantize_main hardware stoi quantize argv =
    (if length argv < 4 \<or> length argv > 5 then 1
     else case parse_quant_type (argv ! 3) of
       Inl _ \<Rightarrow> 1
     | Inr q \<Rightarrow>
         (case thread_count hardware stoi (if length argv = 5 then Some (argv ! 4) else None) of
            None \<Rightarrow> 1
          | Some n \<Rightarrow> if quantize (argv ! 1) (argv ! 2) q n then 0 else 1))"

end
