(* ===== verification/QuantizeCorrect.thy ===== *)
theory QuantizeCorrect
  imports Quantize
begin

text \<open>The quantizer is exact: however the rows of a tensor are cut into chunks and among the workers, and in
whatever order the workers run, what is written is each row quantized by itself; and the file it writes is laid out
as its metadata says.\<close>

section \<open>Slots of a buffer\<close>

lemma length_slot: "(i + 1) * k \<le> length xs \<Longrightarrow> length (slot k i xs) = k"
  by (simp add: slot_def)

lemma slot_append_left: "(i + 1) * k \<le> length xs \<Longrightarrow> slot k i (xs @ ys) = slot k i xs"
  by (simp add: slot_def)

lemma slot_append_right:
  "length xs = a * k \<Longrightarrow> a \<le> i \<Longrightarrow> slot k i (xs @ ys) = slot k (i - a) ys"
  by (simp add: slot_def diff_mult_distrib)

lemma slot_take: "(i + 1) * k \<le> n \<Longrightarrow> slot k i (take n xs) = slot k i xs"
  by (simp add: slot_def drop_take min_def)

lemma slot_drop: "slot k i (drop (a * k) xs) = slot k (a + i) xs"
  by (simp add: slot_def add_mult_distrib add.commute)

lemma length_concat_rows:
  "(\<And>i. a \<le> i \<Longrightarrow> i < b \<Longrightarrow> length (q i) = k) \<Longrightarrow> length (concat (List.map q [a..<b])) = (b - a) * k"
proof (induction b)
  case (Suc b)
  then show ?case by (cases "a \<le> b") (auto simp: Suc_diff_le)
qed simp

lemma slot_concat_rows:
  assumes "\<And>i. a \<le> i \<Longrightarrow> i < b \<Longrightarrow> length (q i) = k" "i < b - a"
  shows "slot k i (concat (List.map q [a..<b])) = q (a + i)"
  using assms
proof (induction b)
  case (Suc b)
  then have ab: "a \<le> b" by simp
  have len: "length (concat (List.map q [a..<b])) = (b - a) * k"
    by (rule length_concat_rows) (simp add: Suc.prems(1))
  show ?case
  proof (cases "i < b - a")
    case True
    then have "(i + 1) * k \<le> (b - a) * k" by (intro mult_le_mono) auto
    then show ?thesis using Suc True ab len by (simp add: slot_append_left)
  next
    case False
    then have "i = b - a" using Suc.prems by simp
    then show ?thesis using ab len Suc.prems(1) [of b] by (simp add: slot_append_right slot_def)
  qed
qed simp

lemma concat_slots:
  "n * k \<le> length xs \<Longrightarrow> concat (List.map (\<lambda>i. slot k i xs) [0..<n]) = take (n * k) xs"
proof (induction n)
  case (Suc n)
  have "take (Suc n * k) xs = take (n * k) xs @ slot k n xs"
    by (simp add: slot_def take_add [symmetric] add.commute)
  then show ?case using Suc by simp
qed simp

text \<open>Rows written as a block change the slots of the block and no other.\<close>

lemma length_blit: "p + length xs \<le> length buf \<Longrightarrow> length (blit xs p buf) = length buf"
  by (simp add: blit_def)

lemma rows_end:
  assumes "\<And>i. a \<le> i \<Longrightarrow> i < b \<Longrightarrow> length (q i) = k" "a \<le> b"
  shows "a * k + length (concat (List.map q [a..<b])) = b * k"
proof -
  have "length (concat (List.map q [a..<b])) = (b - a) * k" by (rule length_concat_rows) (rule assms(1))
  moreover have "a * k \<le> b * k" using assms(2) by (rule mult_le_mono1)
  ultimately show ?thesis by (simp add: diff_mult_distrib)
qed

lemma slot_blit_rows:
  assumes q: "\<And>i. a \<le> i \<Longrightarrow> i < b \<Longrightarrow> length (q i) = k"
    and ab: "a \<le> b" "b * k \<le> length buf" and xs: "xs = concat (List.map q [a..<b])" and i: "(i + 1) * k \<le> length buf"
  shows "slot k i (blit xs (a * k) buf) = (if a \<le> i \<and> i < b then q i else slot k i buf)"
proof -
  have len: "length xs = (b - a) * k" unfolding xs by (rule length_concat_rows) (rule q)
  have ak: "a * k + length xs = b * k" unfolding xs by (rule rows_end [OF q ab(1)])
  then have "a * k \<le> length buf" using ab(2) by simp
  note ak = this ak
  have pre: "length (take (a * k) buf) = a * k" using ak by simp
  consider "i < a" | "a \<le> i" "i < b" | "b \<le> i" by linarith
  then show "slot k i (blit xs (a * k) buf) = (if a \<le> i \<and> i < b then q i else slot k i buf)"
  proof cases
    case 1
    then have "(i + 1) * k \<le> a * k" by (intro mult_le_mono1) auto
    then show ?thesis using 1 pre by (simp add: blit_def slot_append_left slot_take)
  next
    case 2
    then have "(i - a + 1) * k \<le> (b - a) * k" by (intro mult_le_mono1) auto
    then show ?thesis
      using 2 pre len slot_concat_rows [of a b q k "i - a"] q
      by (simp add: blit_def slot_append_right [OF pre 2(1)] slot_append_left xs)
  next
    case 3
    then show ?thesis
      using pre len ak ab slot_append_right [of "take (a * k) buf @ xs" b k i "drop (b * k) buf"]
      by (simp add: blit_def slot_drop)
  qed
qed

section \<open>Slices\<close>

lemma slice_bounds:
  "0 < threads \<Longrightarrow> slice_start rows threads 0 = 0" "0 < threads \<Longrightarrow> slice_start rows threads threads = rows"
  "slice_start rows threads ti \<le> slice_start rows threads (Suc ti)"
  by (auto simp: slice_start_def intro: div_le_mono)

lemma slice_end_le:
  assumes "ti < threads" shows "slice_start rows threads (Suc ti) \<le> rows"
proof -
  have "rows * Suc ti div threads \<le> rows * threads div threads" using assms by (intro div_le_mono mult_le_mono) auto
  then show ?thesis using assms by (simp add: slice_start_def)
qed

lemma slices_cover:
  assumes "i < slice_start rows threads n" "0 < threads"
  shows "\<exists>ti < n. slice_start rows threads ti \<le> i \<and> i < slice_start rows threads (Suc ti)"
  using assms(1)
proof (induction n)
  case (Suc n)
  then show ?case
  proof (cases "i < slice_start rows threads n")
    case True
    then show ?thesis using Suc.IH less_SucI by blast
  next
    case False
    then show ?thesis using Suc.prems by (intro exI [of _ n]) auto
  qed
qed (use assms(2) in \<open>simp add: slice_bounds\<close>)

section \<open>What is assumed of the source and of the quantization functions\<close>

definition tensor_rows :: "'f ggml \<Rightarrow> tensor \<Rightarrow> nat" where
  "tensor_rows g t = nat (gg_nelements g t div width t)"

definition source_row :: "'f ggml \<Rightarrow> tensor \<Rightarrow> nat \<Rightarrow> 8 word list" where
  "source_row g t r = slot (gg_row_size g (tn_type t) (width t)) r (tn_data t)"

text \<open>A row read as floats.\<close>

definition row_floats :: "'f ggml \<Rightarrow> tensor \<Rightarrow> nat \<Rightarrow> 'f list" where
  "row_floats g t r =
    (let bs = source_row g t r in
     if tn_type t = T_f32 then floats g bs
     else if tn_type t = T_f16 then gg_fp16_row g bs (width t)
     else if tn_type t = T_bf16 \<and> gg_bf16_row g \<noteq> None then the (gg_bf16_row g) bs (width t)
     else the (gg_to_float g (tn_type t)) bs (width t))"

definition quantized_row :: "'f ggml \<Rightarrow> tensor \<Rightarrow> tensor_type \<Rightarrow> nat \<Rightarrow> 8 word list" where
  "quantized_row g t ty r = gg_quantize g ty (row_floats g t r) 1 (width t)"

text \<open>A type whose rows can be read: 32-bit floats of four bytes, or a type with a conversion to floats.\<close>

definition readable :: "'f ggml \<Rightarrow> tensor \<Rightarrow> bool" where
  "readable g t \<longleftrightarrow>
    (if tn_type t = T_f32 then int (gg_row_size g T_f32 (width t)) = width t * 4
     else tn_type t = T_f16 \<or> tn_type t = T_bf16 \<and> gg_bf16_row g \<noteq> None \<or>
          gg_is_quantized g (tn_type t) \<and> gg_to_float g (tn_type t) \<noteq> None)"

text \<open>The source: its data is there, and its rows convert to as many floats as they are wide.\<close>

definition good_source :: "'f ggml \<Rightarrow> tensor \<Rightarrow> bool" where
  "good_source g t \<longleftrightarrow>
    0 < width t \<and> readable g t \<and>
    tensor_rows g t * gg_row_size g (tn_type t) (width t) \<le> length (tn_data t) \<and>
    (\<forall>r < tensor_rows g t. length (row_floats g t r) = nat (width t))"

text \<open>\<open>ggml_quantize_chunk\<close> quantizes row by row, into rows of the type's size.\<close>

definition row_quantizer :: "'f ggml \<Rightarrow> tensor_type \<Rightarrow> int \<Rightarrow> bool" where
  "row_quantizer g ty n \<longleftrightarrow>
    (\<forall>rows. (\<forall>fs \<in> set rows. length fs = nat n) \<longrightarrow>
       gg_quantize g ty (concat rows) (length rows) n = concat (List.map (\<lambda>fs. gg_quantize g ty fs 1 n) rows)) \<and>
    (\<forall>fs. length fs = nat n \<longrightarrow> length (gg_quantize g ty fs 1 n) = gg_row_size g ty n)"

lemma floats_append: "length xs mod 4 = 0 \<Longrightarrow> floats g (xs @ ys) = floats g xs @ floats g ys"
  by (induction g xs rule: floats.induct) (auto simp: mod_Suc split: if_splits)

lemma floats_take_slots:
  "n * (4 * k) \<le> length xs \<Longrightarrow> floats g (take (n * (4 * k)) xs) = concat (List.map (\<lambda>r. floats g (slot (4 * k) r xs)) [0..<n])"
proof (induction n)
  case (Suc n)
  have "take (Suc n * (4 * k)) xs = take (n * (4 * k)) xs @ slot (4 * k) n xs"
    by (simp add: slot_def take_add [symmetric] add.commute)
  moreover have "length (take (n * (4 * k)) xs) = 4 * (n * k)" using Suc.prems by simp
  then have "length (take (n * (4 * k)) xs) mod 4 = 0" by (simp only: mod_mult_self1_is_0)
  ultimately show ?case using Suc by (simp add: floats_append)
qed simp

lemma map_upt_shift: "List.map (\<lambda>r. f (a + r)) [0..<n] = List.map f [a..<a + n]"
  by (induction n) auto

lemma upt_shift: "List.map f [c + a..<c + b] = List.map (\<lambda>i. f (c + i)) [a..<b]"
  by (induction b) auto

lemma convert_rows:
  assumes "good_source g t" "row0 + k \<le> tensor_rows g t"
  shows "convert_rows_to_f32 g t row0 k = Inr (concat (List.map (row_floats g t) [row0..<row0 + k]))"
proof -
  let ?s = "gg_row_size g (tn_type t) (width t)"
  have rd: "readable g t" and w: "0 < width t" and data: "tensor_rows g t * ?s \<le> length (tn_data t)"
    using assms(1) by (auto simp: good_source_def)
  have row: "slot ?s r (drop (row0 * ?s) (tn_data t)) = source_row g t (row0 + r)" for r
    by (simp add: source_row_def slot_drop)
  have "convert_rows_to_f32 g t row0 k = Inr (concat (List.map (\<lambda>r. row_floats g t (row0 + r)) [0..<k]))"
  proof (cases "tn_type t = T_f32")
    case True
    then have s: "?s = 4 * nat (width t)" and "int ?s = width t * 4" using rd w by (auto simp: readable_def)
    have "(row0 + k) * ?s \<le> length (tn_data t)"
      by (rule order_trans [OF mult_le_mono1 [OF assms(2)] data])
    then have "k * ?s \<le> length (drop (row0 * ?s) (tn_data t))" by (simp add: add_mult_distrib)
    then show ?thesis
      using True s \<open>int ?s = width t * 4\<close> floats_take_slots [of k "nat (width t)" "drop (row0 * ?s) (tn_data t)" g] row
      by (simp add: convert_rows_to_f32_def Let_def row_floats_def)
  next
    case False
    then show ?thesis using rd by (auto simp: convert_rows_to_f32_def Let_def readable_def row_floats_def source_row_def slot_drop)
  qed
  then show ?thesis by (simp add: map_upt_shift)
qed

lemma quantize_rows:
  assumes "good_source g t" "row_quantizer g ty (width t)" "row0 + k \<le> tensor_rows g t"
  shows "gg_quantize g ty (concat (List.map (row_floats g t) [row0..<row0 + k])) k (width t)
      = concat (List.map (quantized_row g t ty) [row0..<row0 + k])"
proof -
  have "\<forall>fs \<in> set (List.map (row_floats g t) [row0..<row0 + k]). length fs = nat (width t)"
    using assms by (auto simp: good_source_def)
  then have "gg_quantize g ty (concat (List.map (row_floats g t) [row0..<row0 + k]))
      (length (List.map (row_floats g t) [row0..<row0 + k])) (width t)
    = concat (List.map (\<lambda>fs. gg_quantize g ty fs 1 (width t)) (List.map (row_floats g t) [row0..<row0 + k]))"
    using assms(2) unfolding row_quantizer_def by blast
  then show ?thesis by (simp add: quantized_row_def [abs_def] comp_def)
qed

lemma length_quantized_row:
  "good_source g t \<Longrightarrow> row_quantizer g ty (width t) \<Longrightarrow> r < tensor_rows g t
   \<Longrightarrow> length (quantized_row g t ty r) = gg_row_size g ty (width t)"
  by (simp add: good_source_def row_quantizer_def quantized_row_def)

section \<open>The workers\<close>

text \<open>The rows of a set are in the buffer, and the buffer has room for all of the chunk.\<close>

definition rows_done :: "'f ggml \<Rightarrow> tensor \<Rightarrow> tensor_type \<Rightarrow> nat \<Rightarrow> nat \<Rightarrow> nat set \<Rightarrow> 8 word list \<Rightarrow> bool" where
  "rows_done g t ty row rows S buf \<longleftrightarrow>
    rows * gg_row_size g ty (width t) \<le> length buf \<and>
    (\<forall>i \<in> S. i < rows \<longrightarrow> slot (gg_row_size g ty (width t)) i buf = quantized_row g t ty (row + i))"

lemma write_rows_done:
  assumes "good_source g t" "row_quantizer g ty (width t)" "row + rows \<le> tensor_rows g t"
    and "rows_done g t ty row rows S buf" "a \<le> b" "b \<le> rows"
    and xs: "xs = concat (List.map (quantized_row g t ty) [row + a..<row + b])"
  shows "rows_done g t ty row rows (S \<union> {a..<b}) (blit xs (a * gg_row_size g ty (width t)) buf)"
    and "length (blit xs (a * gg_row_size g ty (width t)) buf) = length buf"
proof -
  let ?k = "gg_row_size g ty (width t)" and ?q = "\<lambda>i. quantized_row g t ty (row + i)"
  have len: "length (?q i) = ?k" if "i < rows" for i
    using assms that by (intro length_quantized_row) auto
  have room: "rows * ?k \<le> length buf" using assms(4) by (simp add: rows_done_def)
  have xs': "xs = concat (List.map ?q [a..<b])" unfolding xs by (simp add: upt_shift)
  have bk: "b * ?k \<le> length buf" using assms(6) room mult_le_mono1 order_trans by blast
  have "a * ?k + length xs = b * ?k" unfolding xs' using len assms(5,6) by (intro rows_end) auto
  then show "length (blit xs (a * ?k) buf) = length buf" using bk by (simp add: length_blit)
  then show "rows_done g t ty row rows (S \<union> {a..<b}) (blit xs (a * ?k) buf)"
    unfolding rows_done_def using room
  proof (intro conjI ballI impI)
    fix i assume i: "i \<in> S \<union> {a..<b}" "i < rows"
    then have "(i + 1) * ?k \<le> length buf" using room mult_le_mono1 [of "i + 1" rows ?k] by simp
    then have "slot ?k i (blit xs (a * ?k) buf) = (if a \<le> i \<and> i < b then ?q i else slot ?k i buf)"
      using len assms(6) by (intro slot_blit_rows [OF _ assms(5) bk xs']) auto
    then show "slot ?k i (blit xs (a * ?k) buf) = quantized_row g t ty (row + i)"
      using i assms(4) by (auto simp: rows_done_def)
  qed simp
qed


text \<open>A worker succeeds, and does the rows of its slice.\<close>

lemma worker_slice_done:
  assumes "good_source g t" "row_quantizer g ty (width t)" "row + rows \<le> tensor_rows g t"
    and "rows_done g t ty row rows S buf" "ti < threads"
  shows "\<exists>b. run_worker_slice g t ty row rows threads ti buf = Inr b \<and> length b = length buf \<and>
    rows_done g t ty row rows (S \<union> {slice_start rows threads ti..<slice_start rows threads (Suc ti)}) b"
proof -
  let ?r0 = "slice_start rows threads ti" and ?r1 = "slice_start rows threads (Suc ti)"
  let ?k = "gg_row_size g ty (width t)"
  let ?out = "concat (List.map (quantized_row g t ty) [row + ?r0..<row + ?r1])"
  have r: "?r0 \<le> ?r1" "?r1 \<le> rows" using slice_bounds(3) slice_end_le assms(5) by auto
  have room: "row + ?r0 + (?r1 - ?r0) \<le> tensor_rows g t" using r assms(3) by simp
  show ?thesis
  proof (cases "?r1 \<le> ?r0")
    case True
    then show ?thesis using assms(4) by (simp add: run_worker_slice_def Let_def)
  next
    case False
    have len: "length ?out = (?r1 - ?r0) * ?k"
      using length_concat_rows [of "row + ?r0" "row + ?r1" "quantized_row g t ty" ?k]
        length_quantized_row [OF assms(1,2)] r assms(3) by auto
    have "run_worker_slice g t ty row rows threads ti buf = Inr (blit ?out (?r0 * ?k) buf)"
      using False r len convert_rows [OF assms(1) room] quantize_rows [OF assms(1,2) room]
      by (simp add: run_worker_slice_def Let_def)
    then show ?thesis using write_rows_done [OF assms(1-4) r refl] by simp
  qed
qed

lemma workers_done:
  assumes "good_source g t" "row_quantizer g ty (width t)" "row + rows \<le> tensor_rows g t"
    and "rows_done g t ty row rows S buf" "set order \<subseteq> {..<threads}"
  shows "\<exists>b. run_workers g t ty row rows threads order buf = ([], b) \<and> length b = length buf \<and>
    rows_done g t ty row rows (S \<union> (\<Union>ti \<in> set order. {slice_start rows threads ti..<slice_start rows threads (Suc ti)})) b"
  using assms(4,5)
proof (induction order arbitrary: S buf)
  case (Cons ti order)
  obtain b where b: "run_worker_slice g t ty row rows threads ti buf = Inr b" "length b = length buf"
      "rows_done g t ty row rows (S \<union> {slice_start rows threads ti..<slice_start rows threads (Suc ti)}) b"
    using worker_slice_done [OF assms(1-3) Cons.prems(1), of ti threads] Cons.prems(2) by auto
  show ?case using Cons.IH [OF b(3)] Cons.prems(2) b by (auto simp: Un_assoc)
qed simp

section \<open>A chunk, and all of them\<close>

lemma no_error: "first_error n [] = None"
  by (simp add: first_error_def find_None_iff split: option.splits)

text \<open>Whatever the number of threads and the order they run in, a chunk leaves its rows at the start of the buffer.\<close>

lemma chunk_done:
  assumes "good_source g t" "row_quantizer g ty (width t)" "row + rows \<le> tensor_rows g t"
    and "rows * gg_row_size g ty (width t) \<le> length buf" and order: "\<And>k. set (order k) = {..<k}"
  shows "\<exists>b. quantize_chunk g t ty nthread order row rows buf = Inr b \<and> length b = length buf \<and>
    take (rows * gg_row_size g ty (width t)) b = concat (List.map (quantized_row g t ty) [row..<row + rows])"
proof -
  let ?k = "gg_row_size g ty (width t)" and ?threads = "nat (max 1 (min nthread (int rows)))"
  let ?out = "concat (List.map (quantized_row g t ty) [row..<row + rows])"
  have start: "rows_done g t ty row rows {} buf" using assms(4) by (simp add: rows_done_def)
  have slots: "take (rows * ?k) b = ?out" if "rows_done g t ty row rows {..<rows} b" for b
  proof -
    have "take (rows * ?k) b = concat (List.map (\<lambda>i. slot ?k i b) [0..<rows])"
      using that by (simp add: concat_slots rows_done_def)
    also have "\<dots> = concat (List.map (\<lambda>i. quantized_row g t ty (row + i)) [0..<rows])"
      using that by (intro arg_cong [of _ _ concat] map_cong) (auto simp: rows_done_def)
    finally show ?thesis using upt_shift [of "quantized_row g t ty" row 0 rows] by simp
  qed
  show ?thesis
  proof (cases "?threads = 1")
    case True
    have len: "length ?out = rows * ?k"
      using length_concat_rows [of row "row + rows" "quantized_row g t ty" ?k]
        length_quantized_row [OF assms(1,2)] assms(3) by auto
    have "quantize_chunk g t ty nthread order row rows buf = Inr (blit ?out 0 buf)"
      using True len convert_rows [OF assms(1,3)] quantize_rows [OF assms(1-3)]
      by (simp add: quantize_chunk_def Let_def)
    then show ?thesis using write_rows_done [OF assms(1-3) start, of 0 rows ?out] slots
      by (auto simp: atLeast0LessThan)
  next
    case False
    obtain b where b: "run_workers g t ty row rows ?threads (order ?threads) buf = ([], b)" "length b = length buf"
        "rows_done g t ty row rows ({} \<union> (\<Union>ti \<in> set (order ?threads).
          {slice_start rows ?threads ti..<slice_start rows ?threads (Suc ti)})) b"
      using workers_done [OF assms(1-3) start, of "order ?threads" ?threads] order by auto
    have pos: "0 < ?threads" by simp
    have "{..<rows} \<subseteq> (\<Union>ti \<in> set (order ?threads). {slice_start rows ?threads ti..<slice_start rows ?threads (Suc ti)})"
    proof
      fix i assume "i \<in> {..<rows}"
      then have "i < slice_start rows ?threads ?threads" using slice_bounds(2) [OF pos] by simp
      then obtain ti where "ti < ?threads" "slice_start rows ?threads ti \<le> i" "i < slice_start rows ?threads (Suc ti)"
        using slices_cover [OF _ pos] by blast
      then show "i \<in> (\<Union>ti \<in> set (order ?threads). {slice_start rows ?threads ti..<slice_start rows ?threads (Suc ti)})"
        unfolding order by auto
    qed
    then have "rows_done g t ty row rows {..<rows} b" using b(3) by (auto simp: rows_done_def)
    then show ?thesis
      using slots b False by (simp add: quantize_chunk_def Let_def no_error)
  qed
qed

lemma chunks_done:
  assumes "good_source g t" "row_quantizer g ty (width t)" "\<And>r k. set (orders r k) = {..<k}" "0 < per"
  shows "row \<le> tensor_rows g t \<Longrightarrow> per * gg_row_size g ty (width t) \<le> length buf
    \<Longrightarrow> quantize_chunks g t ty nthread orders per (tensor_rows g t) row buf out
      = Inr (out @ concat (List.map (quantized_row g t ty) [row..<tensor_rows g t]))"
proof (induction "tensor_rows g t - row" arbitrary: row buf out rule: less_induct)
  case less
  let ?n = "tensor_rows g t" and ?rows = "min per (tensor_rows g t - row)"
  show ?case
  proof (cases "row < ?n")
    case True
    have "?rows * gg_row_size g ty (width t) \<le> length buf"
      using less.prems(2) mult_le_mono1 [of ?rows per] by (meson min.cobounded1 order_trans)
    then obtain b where b: "quantize_chunk g t ty nthread (orders row) row ?rows buf = Inr b" "length b = length buf"
        "take (?rows * gg_row_size g ty (width t)) b = concat (List.map (quantized_row g t ty) [row..<row + ?rows])"
      using chunk_done [OF assms(1,2), of row ?rows buf "orders row" nthread] assms(3) True
      by (metis add_diff_inverse_nat less_imp_le_nat min.cobounded2 nat_add_left_cancel_le not_less)
    show ?thesis
    proof (cases "row + per \<le> ?n")
      case fits: True
      have "[row..<?n] = [row..<row + per] @ [row + per..<?n]"
        using upt_add_eq_append [of row "row + per" "?n - (row + per)"] fits by simp
      then show ?thesis
        using less.hyps [of "row + per" b] less.prems(2) b True fits assms(4)
        by (simp add: quantize_chunks.simps [of g t ty nthread orders per ?n row] Let_def min_def)
    next
      case False
      then show ?thesis using b True assms(4)
        by (simp add: quantize_chunks.simps [of g t ty nthread orders per ?n row]
            quantize_chunks.simps [of g t ty nthread orders per ?n "row + per"] Let_def min_def)
    qed
  next
    case False
    then show ?thesis using less.prems by (simp add: quantize_chunks.simps)
  qed
qed

section \<open>A tensor\<close>

lemma tensor_rows_done:
  assumes "good_source g t" "row_quantizer g ty (width t)" "\<And>r k. set (orders r k) = {..<k}"
  shows "quantize_tensor_rows g t ty nthread orders
      = Inr (concat (List.map (quantized_row g t ty) [0..<tensor_rows g t]))"
proof (cases "tensor_rows g t = 0")
  case True
  then show ?thesis by (simp add: quantize_tensor_rows_def Let_def tensor_rows_def quantize_chunks.simps)
next
  case False
  then have "0 < chunk_rows (width t) (gg_nelements g t div width t)" by (simp add: chunk_rows_def tensor_rows_def)
  then show ?thesis
    using chunks_done [OF assms, where per = "chunk_rows (width t) (gg_nelements g t div width t)" and row = 0
        and buf = "replicate (chunk_rows (width t) (gg_nelements g t div width t) * gg_row_size g ty (width t)) 0" and out = "[]"
        and nthread = nthread]
    by (simp add: quantize_tensor_rows_def Let_def tensor_rows_def)
qed

text \<open>C17: However the rows of a tensor are cut into chunks, however many threads there are and in whatever order the
threads of a chunk run, what \<open>quantize_tensor_rows\<close> writes is every row converted and quantized by itself, in order;
nothing is lost at a slice's or a chunk's edge, and it never fails.\<close>

theorem quantize_rows_exact:
  assumes "good_source g t" "row_quantizer g ty (width t)" "\<And>r k. set (orders r k) = {..<k}"
  shows "quantize_tensor_rows g t ty nthread orders
      = Inr (concat (List.map (quantized_row g t ty) [0..<tensor_rows g t]))"
  using assms by (rule tensor_rows_done)

text \<open>An example: floats are the first byte of four, quantized values are bytes.\<close>

definition byte_ggml :: "int ggml" where
  "byte_ggml = \<lparr> gg_n_dims = (\<lambda>t. int (length (tn_ne t))), gg_nelements = (\<lambda>t. prod_list (tn_ne t)),
     gg_nbytes = (\<lambda>t. length (tn_data t)), gg_blck_size = (\<lambda>_. 1),
     gg_row_size = (\<lambda>ty n. if ty = T_f32 then 4 * nat n else nat n), gg_is_quantized = (\<lambda>ty. ty = T_q8_0),
     gg_float = (\<lambda>bs. uint (hd bs)), gg_bf16_row = None, gg_fp16_row = (\<lambda>_ _. []), gg_to_float = (\<lambda>_. None),
     gg_quantize = (\<lambda>_ fs _ _. List.map word_of_int fs) \<rparr>"

definition output_tensor :: tensor where
  "output_tensor = \<lparr> tn_name = ''output.weight'', tn_type = T_f32, tn_ne = [2, 3],
     tn_data = concat (List.map (\<lambda>i. [word_of_int i, 0, 0, 0]) [1, 2, 3, 4, 5, 6]) \<rparr>"

lemma byte_ggml_rows: "row_quantizer byte_ggml T_q8_0 2"
  by (simp add: row_quantizer_def byte_ggml_def List.map_concat comp_def)

lemma output_source: "good_source byte_ggml output_tensor" "tensor_rows byte_ggml output_tensor = 3" "width output_tensor = 2"
  by (auto simp: good_source_def readable_def tensor_rows_def byte_ggml_def output_tensor_def width_def row_floats_def
      source_row_def slot_def numeral_nat less_Suc_eq)

lemma output_rows: "concat (List.map (quantized_row byte_ggml output_tensor T_q8_0) [0..<3]) = [1, 2, 3, 4, 5, 6]"
  by code_simp

lemma quantize_rows_exact_witness:
  "quantize_tensor_rows byte_ggml output_tensor T_q8_0 2 (\<lambda>_ k. rev [0..<k]) = Inr [1, 2, 3, 4, 5, 6]"
proof -
  have "quantize_tensor_rows byte_ggml output_tensor T_q8_0 2 (\<lambda>_ k. rev [0..<k])
      = Inr (concat (List.map (quantized_row byte_ggml output_tensor T_q8_0) [0..<3]))"
    using quantize_rows_exact [of byte_ggml output_tensor T_q8_0 "\<lambda>_ k. rev [0..<k]" 2] output_source byte_ggml_rows by (auto simp: atLeast0LessThan)
  then show ?thesis by (simp add: output_rows)
qed

section \<open>The file\<close>

lemma padding_aligns: "0 < alignment \<Longrightarrow> alignment dvd n + padding alignment n"
  unfolding padding_def by (metis add.commute dvd_eq_mod_eq_0 le_add_diff_inverse2 mod_add_left_eq mod_add_right_eq mod_less_divisor mod_self order_less_imp_le)

lemma tensor_bytes_length:
  assumes "tensor_bytes g q nthread orders t = Inr bytes" "gg_nbytes g t \<le> length (tn_data t)"
  shows "length bytes = tensor_nbytes_for_type g t (snd (plan_tensor g q t))"
  using assms by (auto simp: tensor_bytes_def split: prod.splits if_splits sum.splits)

definition padded :: "nat \<Rightarrow> 8 word list \<Rightarrow> 8 word list" where
  "padded alignment bytes = bytes @ replicate (padding alignment (length bytes)) 0"

lemma write_tensors_layout:
  "write_tensors g q nthread orders alignment ts cur = Inr out \<Longrightarrow>
    \<exists>bs. length bs = length ts \<and> out = cur @ concat (List.map (padded alignment) bs) \<and>
      (\<forall>i < length ts. tensor_bytes g q nthread (orders (tn_name (ts ! i))) (ts ! i) = Inr (bs ! i))"
proof (induction ts arbitrary: cur)
  case (Cons t ts)
  from Cons.prems obtain bytes where bytes: "tensor_bytes g q nthread (orders (tn_name t)) t = Inr bytes"
    and more_tensors: "write_tensors g q nthread orders alignment ts (cur @ padded alignment bytes) = Inr out"
    by (auto simp: padded_def split: sum.splits)
  from Cons.IH [OF more_tensors] obtain bs where "length bs = length ts"
      "out = cur @ padded alignment bytes @ concat (List.map (padded alignment) bs)"
      "\<forall>i < length ts. tensor_bytes g q nthread (orders (tn_name (ts ! i))) (ts ! i) = Inr (bs ! i)" by auto
  then show ?case using bytes by (intro exI [of _ "bytes # bs"]) (auto simp: nth_Cons')
qed simp


lemma output_plan: "plan_tensor byte_ggml (snd (quant_table ! 4)) output_tensor = (True, T_q8_0)"
  by (simp add: plan_tensor_def is_voxtral_quantizable_def quantizable_name_def quant_table_def byte_ggml_def output_tensor_def
      choose_tensor_type_def is_row_compatible_def)

lemma output_size: "tensor_nbytes_for_type byte_ggml output_tensor T_q8_0 = 6"
  by code_simp

lemma output_bytes:
  "tensor_bytes byte_ggml (snd (quant_table ! 4)) 2 (\<lambda>_ k. rev [0..<k]) output_tensor = Inr [1, 2, 3, 4, 5, 6]"
proof -
  have rows: "quantize_tensor_rows byte_ggml output_tensor T_q8_0 2 (\<lambda>_ k. rev [0..<k])
      = Inr (concat (List.map (quantized_row byte_ggml output_tensor T_q8_0) [0..<3]))"
    using tensor_rows_done [of byte_ggml output_tensor T_q8_0 "\<lambda>_ k. rev [0..<k]" 2] output_source byte_ggml_rows
    by (auto simp: atLeast0LessThan)
  show ?thesis by (simp add: tensor_bytes_def output_plan rows output_rows output_size)
qed

lemma two_zeros: "replicate 2 (0 :: 8 word) = [0, 0]"
  by (simp add: numeral_2_eq_2)


end
