(* ===== verification/WavFile.thy ===== *)
theory WavFile
  imports MelFrontend AbiStructs
begin

text \<open>The WAV loader of the command line (\<open>load_wav_file\<close> of \<open>src/voxtral.cpp\<close>) over a model of the input file
stream: its bytes, its position and whether it is good.  A short read leaves what it did not reach unchanged and the
stream not good.  What C++ leaves undefined is an outcome.\<close>

section \<open>The stream\<close>

record wav_stream =
  ws_data :: "8 word list"
  ws_pos :: nat
  ws_good :: bool

definition ws_read :: "nat \<Rightarrow> wav_stream \<Rightarrow> 8 word list \<times> wav_stream" where
  "ws_read n s =
    (if \<not> ws_good s then ([], s)
     else let got = take n (drop (ws_pos s) (ws_data s))
          in (got, s \<lparr> ws_pos := ws_pos s + length got, ws_good := (length got = n) \<rparr>))"

definition ws_skip :: "nat \<Rightarrow> wav_stream \<Rightarrow> wav_stream" where
  "ws_skip n s = (if ws_good s then s \<lparr> ws_pos := ws_pos s + n \<rparr> else s)"

text \<open>A read into an integer that holds \<open>old\<close>.\<close>

definition ws_read_int :: "nat \<Rightarrow> int \<Rightarrow> wav_stream \<Rightarrow> int \<times> wav_stream" where
  "ws_read_int n old s =
    (let (got, s1) = ws_read n s
     in (le_value got + 256 ^ length got * (old div 256 ^ length got), s1))"

definition tag :: "string \<Rightarrow> 8 word list" where
  "tag s = List.map (\<lambda>c. word_of_int (of_char c)) s"

section \<open>Chunks\<close>

record wav_head =
  wh_format :: int
  wh_channels :: int
  wh_rate :: int
  wh_bits :: int
  wh_data_size :: int
  wh_fmt :: bool
  wh_data :: bool

definition no_head :: wav_head where
  "no_head = \<lparr> wh_format = 0, wh_channels = 0, wh_rate = 0, wh_bits = 0, wh_data_size = 0, wh_fmt = False, wh_data = False \<rparr>"

definition read_fmt :: "int \<Rightarrow> wav_head \<Rightarrow> wav_stream \<Rightarrow> wav_head \<times> wav_stream" where
  "read_fmt sub_size h s0 =
    (let (format, s1) = ws_read_int 2 (wh_format h) s0; (channels, s2) = ws_read_int 2 (wh_channels h) s1;
         (rate, s3) = ws_read_int 4 (wh_rate h) s2; (_, s4) = ws_read 4 s3; (_, s5) = ws_read 2 s4;
         (bits, s6) = ws_read_int 2 (wh_bits h) s5
     in (h \<lparr> wh_format := format, wh_channels := channels, wh_rate := rate, wh_bits := bits, wh_fmt := True \<rparr>,
         if sub_size > 16 then ws_skip (nat (sub_size - 16)) s6 else s6))"

text \<open>A stream only moves forward.\<close>

definition later :: "wav_stream \<Rightarrow> wav_stream \<Rightarrow> bool" where
  "later s t \<longleftrightarrow> ws_data t = ws_data s \<and> ws_pos s \<le> ws_pos t"

lemma later_read: "later s t \<Longrightarrow> later s (snd (ws_read n t))" "later s t \<Longrightarrow> later s (snd (ws_read_int n x t))"
  "later s t \<Longrightarrow> later s (ws_skip n t)"
  by (simp_all add: later_def ws_read_int_def ws_read_def ws_skip_def Let_def split_beta)

lemma later_fmt: "later s (snd (read_fmt k h s))"
  unfolding read_fmt_def split_beta Let_def snd_conv by (simp add: later_read later_def [of s s])

text \<open>A tag and a size that could be read take the stream on, within the file.\<close>

lemma chunk_start:
  assumes "(sub_id, s1) = ws_read 4 s" "(sz, s2) = ws_read 4 s1" "ws_good s2"
  shows "ws_data s2 = ws_data s \<and> ws_pos s < ws_pos s2 \<and> ws_pos s2 \<le> length (ws_data s)"
  using assms by (auto simp: ws_read_def Let_def min_def split: if_splits)

text \<open>The loop over the chunks, which stops at the end of the file, at an error or when both chunks are found; the data
chunk is not skipped, so that its samples are next.\<close>

function wav_scan :: "wav_head \<Rightarrow> wav_stream \<Rightarrow> wav_head \<times> wav_stream" where
  "wav_scan h s =
    (if ws_good s \<and> \<not> (wh_fmt h \<and> wh_data h)
     then let (sub_id, s1) = ws_read 4 s; (sz, s2) = ws_read 4 s1; sub_size = le_value sz in
          if \<not> ws_good s2 then (h, s2)
          else if sub_id = tag ''fmt '' then (let (h1, s3) = read_fmt sub_size h s2 in wav_scan h1 s3)
          else if sub_id = tag ''data'' then wav_scan (h \<lparr> wh_data_size := sub_size, wh_data := True \<rparr>) s2
          else wav_scan h (ws_skip (nat sub_size) s2)
     else (h, s))"
  by pat_completeness auto
termination
proof (relation "measure (\<lambda>(h, s). length (ws_data s) - ws_pos s)", goal_cases)
  case (2 h s x sub_id s1 y sz s2 sub_size z h1 s3)
  then have "later s2 s3" by (metis later_fmt snd_conv)
  then show ?case using chunk_start [of sub_id s1 s sz s2] 2 by (auto simp: later_def split: prod.splits)
next
  case (3 h s x sub_id s1 y sz s2 sub_size)
  then show ?case using chunk_start [of sub_id s1 s sz s2] by auto
next
  case (4 h s x sub_id s1 y sz s2 sub_size)
  then show ?case using chunk_start [of sub_id s1 s sz s2] by (auto simp: ws_skip_def)
qed simp

declare wav_scan.simps [simp del]

section \<open>Loading\<close>

datatype 'f wav_load = Wav_fail | Wav_undefined | Wav_loaded "'f list"

text \<open>The samples \<open>raw\<close> of one frame, averaged.\<close>

definition mix_frame :: "'f float_ops \<Rightarrow> int \<Rightarrow> 'f list \<Rightarrow> 'f" where
  "mix_frame ops channels raw = f_div ops (foldl (f_add ops) (f_of_int ops 0) raw) (f_of_int ops channels)"

definition pcm16_sample :: "'f float_ops \<Rightarrow> 8 word list \<Rightarrow> 'f" where
  "pcm16_sample ops bs = f_div ops (f_of_int ops (sint (word_of_int (le_value bs) :: 16 word))) (f_of_int ops 32768)"

text \<open>The conversion of \<open>n\<close> samples of \<open>width\<close> bytes into frames: a vector of zeros, the read over it, which writes past
its end when the stream has more of the \<open>data_size\<close> bytes than fit, and the average of every frame.\<close>

definition load_frames ::
  "'f float_ops \<Rightarrow> (8 word list \<Rightarrow> 'f) \<Rightarrow> nat \<Rightarrow> nat \<Rightarrow> nat \<Rightarrow> nat \<Rightarrow> wav_stream \<Rightarrow> 'f wav_load" where
  "load_frames ops sample width n data_size channels s =
    (let (got, _) = ws_read data_size s; room = width * n in
     if length got > room then Wav_undefined
     else let raw = got @ replicate (room - length got) 0
          in Wav_loaded (List.map (\<lambda>i. mix_frame ops (int channels)
               (List.map (\<lambda>c. sample (take width (drop (width * (i * channels + c)) raw))) [0..<channels])) [0..<n div channels]))"

text \<open>\<open>None\<close> is a file that cannot be opened; the bytes of a float are read by \<open>float_bits\<close>.\<close>

definition load_wav_file :: "'f float_ops \<Rightarrow> (8 word list \<Rightarrow> 'f) \<Rightarrow> 8 word list option \<Rightarrow> 'f wav_load" where
  "load_wav_file ops float_bits input =
    (case input of
       None \<Rightarrow> Wav_fail
     | Some bytes \<Rightarrow>
         let (riff, s1) = ws_read 4 \<lparr> ws_data = bytes, ws_pos = 0, ws_good = True \<rparr> in
         if length riff < 4 then Wav_undefined
         else if riff \<noteq> tag ''RIFF'' then Wav_fail
         else let (_, s2) = ws_read 4 s1; (wave, s3) = ws_read 4 s2 in
         if length wave < 4 then Wav_undefined
         else if wave \<noteq> tag ''WAVE'' then Wav_fail
         else let (h, s4) = wav_scan no_head s3 in
         if \<not> wh_fmt h \<or> \<not> wh_data h then Wav_fail
         else if wh_format h \<noteq> 1 \<and> wh_format h \<noteq> 3 then Wav_fail
         else if wh_bits h div 8 = 0 \<or> wh_channels h = 0 then Wav_undefined
         else let n = nat (wh_data_size h div (wh_bits h div 8)) in
         if wh_format h = 1 \<and> wh_bits h = 16
         then load_frames ops (pcm16_sample ops) 2 n (nat (wh_data_size h)) (nat (wh_channels h)) s4
         else if wh_format h = 3 \<and> wh_bits h = 32
         then load_frames ops float_bits 4 n (nat (wh_data_size h)) (nat (wh_channels h)) s4
         else Wav_fail)"

section \<open>Files that are put together from chunks\<close>

definition stream_at :: "8 word list \<Rightarrow> 8 word list \<Rightarrow> wav_stream" where
  "stream_at pre rest = \<lparr> ws_data = pre @ rest, ws_pos = length pre, ws_good = True \<rparr>"

lemma read_at: "length xs = n \<Longrightarrow> ws_read n (stream_at pre (xs @ rest)) = (xs, stream_at (pre @ xs) rest)"
  by (simp add: ws_read_def stream_at_def)

lemma skip_at: "length xs = n \<Longrightarrow> ws_skip n (stream_at pre (xs @ rest)) = stream_at (pre @ xs) rest"
  by (simp add: ws_skip_def stream_at_def)

lemma read_int_at:
  "0 \<le> v \<Longrightarrow> v < 256 ^ n \<Longrightarrow> ws_read_int n 0 (stream_at pre (le_bytes n v @ rest)) = (v, stream_at (pre @ le_bytes n v) rest)"
  by (simp add: ws_read_int_def read_at le_value_le_bytes)

lemma good_at [simp]: "ws_good (stream_at pre rest)"
  by (simp add: stream_at_def)

definition riff_chunk :: "8 word list \<Rightarrow> 8 word list \<Rightarrow> 8 word list" where
  "riff_chunk ident body = ident @ le_bytes 4 (int (length body)) @ body"

definition fmt_body :: "int \<Rightarrow> int \<Rightarrow> int \<Rightarrow> 8 word list \<Rightarrow> int \<Rightarrow> 8 word list \<Rightarrow> 8 word list" where
  "fmt_body format channels rate rates bits ext =
    le_bytes 2 format @ le_bytes 2 channels @ le_bytes 4 rate @ rates @ le_bytes 2 bits @ ext"

text \<open>A chunk that is neither format nor data.\<close>

definition other_chunk :: "8 word list \<times> 8 word list \<Rightarrow> bool" where
  "other_chunk c \<longleftrightarrow> length (fst c) = 4 \<and> fst c \<noteq> tag ''fmt '' \<and> fst c \<noteq> tag ''data'' \<and> length (snd c) < 2 ^ 32"

lemma tag_length: "length (tag s) = length s"
  by (simp add: tag_def)

lemma tag_data_fmt: "tag ''data'' \<noteq> tag ''fmt ''"
  by (simp add: tag_def)

lemma scan_start:
  assumes "\<not> (wh_fmt h \<and> wh_data h)" "length ident = 4" "n < 2 ^ 32"
  shows "wav_scan h (stream_at pre (ident @ le_bytes 4 (int n) @ rest)) =
    (let s2 = stream_at (pre @ ident @ le_bytes 4 (int n)) rest in
     if ident = tag ''fmt '' then (let (h1, s3) = read_fmt (int n) h s2 in wav_scan h1 s3)
     else if ident = tag ''data'' then wav_scan (h \<lparr> wh_data_size := int n, wh_data := True \<rparr>) s2
     else wav_scan h (ws_skip n s2))"
proof -
  have "le_value (le_bytes 4 (int n)) = int n" using assms(3) by (intro le_value_le_bytes) auto
  then show ?thesis
    using assms(1,2) read_at [of "le_bytes 4 (int n)" 4 "pre @ ident" rest]
    by (subst wav_scan.simps) (simp add: read_at Let_def)
qed

lemma scan_others:
  assumes "\<not> (wh_fmt h \<and> wh_data h)" "\<forall>c \<in> set cs. other_chunk c"
  shows "wav_scan h (stream_at pre (concat (List.map (\<lambda>(i, b). riff_chunk i b) cs) @ rest))
    = wav_scan h (stream_at (pre @ concat (List.map (\<lambda>(i, b). riff_chunk i b) cs)) rest)"
  using assms(2)
proof (induction cs arbitrary: pre)
  case (Cons c cs)
  obtain i b where c: "c = (i, b)" by force
  show ?case
    using Cons.IH [of "pre @ riff_chunk i b"] Cons.prems scan_start [OF assms(1), of i "length b" pre]
      skip_at [of b "length b" "pre @ i @ le_bytes 4 (int (length b))"]
    by (simp add: c riff_chunk_def other_chunk_def Let_def)
qed simp

lemma read_fmt_at:
  assumes "0 \<le> format" "format < 2 ^ 16" "0 \<le> channels" "channels < 2 ^ 16" "0 \<le> rate" "rate < 2 ^ 32"
    and "length rates = 6" "0 \<le> bits" "bits < 2 ^ 16"
  shows "read_fmt (int (length (fmt_body format channels rate rates bits ext))) no_head
      (stream_at pre (fmt_body format channels rate rates bits ext @ rest))
    = (no_head \<lparr> wh_format := format, wh_channels := channels, wh_rate := rate, wh_bits := bits, wh_fmt := True \<rparr>,
       stream_at (pre @ fmt_body format channels rate rates bits ext) rest)"
proof -
  define r4 r2 where "r4 = take 4 rates" and "r2 = drop 4 rates"
  then have rates: "rates = r4 @ r2" "length r4 = 4" "length r2 = 2" using assms(7) by simp_all
  have n: "int (length (fmt_body format channels rate rates bits ext)) = 16 + int (length ext)"
    using rates by (simp add: fmt_body_def)
  have s: "fmt_body format channels rate rates bits ext @ rest =
      le_bytes 2 format @ le_bytes 2 channels @ le_bytes 4 rate @ r4 @ r2 @ le_bytes 2 bits @ ext @ rest"
    by (simp add: fmt_body_def rates)
  have fields: "wh_format no_head = 0" "wh_channels no_head = 0" "wh_rate no_head = 0" "wh_bits no_head = 0"
    by (simp_all add: no_head_def)
  have ends: "(if 16 + int (length ext) > 16 then ws_skip (nat (16 + int (length ext) - 16)) (stream_at p (ext @ rest))
      else stream_at p (ext @ rest)) = stream_at (p @ ext) rest" for p
    using skip_at [of ext "length ext" p rest] by simp
  show ?thesis
    unfolding n s read_fmt_def fields using assms rates(2,3)
    by (simp add: read_int_at read_at ends del: append_assoc) (simp add: fmt_body_def rates skip_at)
qed

lemma scan_data:
  assumes "wh_fmt h" "\<not> wh_data h" "n < 2 ^ 32"
  shows "wav_scan h (stream_at pre (tag ''data'' @ le_bytes 4 (int n) @ rest))
    = (h \<lparr> wh_data_size := int n, wh_data := True \<rparr>, stream_at (pre @ tag ''data'' @ le_bytes 4 (int n)) rest)"
  using assms scan_start [of h "tag ''data''" n pre rest] tag_data_fmt
  by (simp add: tag_length wav_scan.simps [of "h \<lparr> wh_data_size := int n, wh_data := True \<rparr>"])

text \<open>A file of the loader's kind: any other chunks, the format, any other chunks, the samples, anything.\<close>

definition wav_bytes ::
  "8 word list \<Rightarrow> (8 word list \<times> 8 word list) list \<Rightarrow> int \<Rightarrow> int \<Rightarrow> int \<Rightarrow> 8 word list \<Rightarrow> int \<Rightarrow> 8 word list
   \<Rightarrow> (8 word list \<times> 8 word list) list \<Rightarrow> 8 word list \<Rightarrow> 8 word list \<Rightarrow> 8 word list" where
  "wav_bytes riff_size cs1 format channels rate rates bits ext cs2 samples rest =
    tag ''RIFF'' @ riff_size @ tag ''WAVE'' @ concat (List.map (\<lambda>(i, b). riff_chunk i b) cs1)
    @ riff_chunk (tag ''fmt '') (fmt_body format channels rate rates bits ext)
    @ concat (List.map (\<lambda>(i, b). riff_chunk i b) cs2) @ tag ''data'' @ le_bytes 4 (int (length samples)) @ samples @ rest"

lemma scan_file:
  assumes "\<forall>c \<in> set cs1. other_chunk c" "\<forall>c \<in> set cs2. other_chunk c" "length samples < 2 ^ 32"
    and "0 \<le> format" "format < 2 ^ 16" "0 \<le> channels" "channels < 2 ^ 16" "0 \<le> rate" "rate < 2 ^ 32"
    and "length rates = 6" "0 \<le> bits" "bits < 2 ^ 16" "length ext < 2 ^ 32 - 16"
  shows "\<exists>p. wav_scan no_head (stream_at pre (concat (List.map (\<lambda>(i, b). riff_chunk i b) cs1)
      @ riff_chunk (tag ''fmt '') (fmt_body format channels rate rates bits ext)
      @ concat (List.map (\<lambda>(i, b). riff_chunk i b) cs2) @ tag ''data'' @ le_bytes 4 (int (length samples)) @ samples @ rest))
    = (\<lparr> wh_format = format, wh_channels = channels, wh_rate = rate, wh_bits = bits, wh_data_size = int (length samples),
         wh_fmt = True, wh_data = True \<rparr>, stream_at p (samples @ rest))"
proof -
  let ?fmt = "fmt_body format channels rate rates bits ext"
  let ?tail = "concat (List.map (\<lambda>(i, b). riff_chunk i b) cs2) @ tag ''data'' @ le_bytes 4 (int (length samples)) @ samples @ rest"
  let ?p1 = "pre @ concat (List.map (\<lambda>(i, b). riff_chunk i b) cs1)"
  let ?h = "no_head \<lparr> wh_format := format, wh_channels := channels, wh_rate := rate, wh_bits := bits, wh_fmt := True \<rparr>"
  let ?p2 = "(?p1 @ tag ''fmt '' @ le_bytes 4 (int (length ?fmt))) @ ?fmt"
  have none: "\<not> (wh_fmt no_head \<and> wh_data no_head)" by (simp add: no_head_def)
  have h: "wh_fmt ?h" "\<not> wh_data ?h" by (simp_all add: no_head_def)
  have "length ?fmt < 2 ^ 32" using assms(10,13) by (simp add: fmt_body_def)
  then have "wav_scan no_head (stream_at ?p1 (riff_chunk (tag ''fmt '') ?fmt @ ?tail)) = wav_scan ?h (stream_at ?p2 ?tail)"
    using scan_start [OF none, of "tag ''fmt ''" "length ?fmt" ?p1 "?fmt @ ?tail"] assms(4-12)
      read_fmt_at [of format channels rate rates bits ext "?p1 @ tag ''fmt '' @ le_bytes 4 (int (length ?fmt))" ?tail]
    by (simp add: riff_chunk_def tag_length)
  then show ?thesis
    using scan_others [OF none assms(1), of pre "riff_chunk (tag ''fmt '') ?fmt @ ?tail"]
      scan_others [of ?h cs2 ?p2 "tag ''data'' @ le_bytes 4 (int (length samples)) @ samples @ rest"] h assms(2)
      scan_data [OF h assms(3), of "?p2 @ concat (List.map (\<lambda>(i, b). riff_chunk i b) cs2)" "samples @ rest"]
    by (auto simp: no_head_def)
qed



end
