(* ===== verification/CommandLine.thy ===== *)
theory CommandLine
  imports EncoderSchedule WavFile
begin

text \<open>The command line program (\<open>src/main.cpp\<close>): its options, its exit codes and what it prints and writes.  The
model, the context and the transcription are parameters; so is the decimal text of numbers.\<close>

section \<open>Options\<close>

datatype cli_gpu = Gpu_none | Gpu_auto | Gpu_cuda | Gpu_metal | Gpu_vulkan

datatype cli_level = Level_error | Level_warn | Level_info | Level_debug

record cli_params =
  cl_model :: string
  cl_audio :: string
  cl_prompt :: string
  cl_dump_logits :: string
  cl_dump_logits_bin :: string
  cl_dump_tokens :: string
  cl_output_text :: string
  cl_threads :: int
  cl_seed :: int
  cl_max_tokens :: int
  cl_log_level :: cli_level
  cl_gpu :: cli_gpu

definition default_cli :: cli_params where
  "default_cli = \<lparr> cl_model = [], cl_audio = [], cl_prompt = [], cl_dump_logits = [], cl_dump_logits_bin = [], cl_dump_tokens = [],
     cl_output_text = [], cl_threads = 0, cl_seed = 0, cl_max_tokens = 0, cl_log_level = Level_info, cl_gpu = Gpu_auto \<rparr>"

definition to_lower_copy :: "string \<Rightarrow> string" where
  "to_lower_copy s = List.map (\<lambda>c. let n = (of_char c :: int) in if 65 \<le> n \<and> n \<le> 90 then char_of (n + 32) else c) s"

text \<open>\<open>strtol\<close> without a digit leaves the end at the start, which is the end of the string when it is empty.\<close>

definition parse_i32 :: "string \<Rightarrow> int option" where
  "parse_i32 s =
    (case strtol10 s of
       None \<Rightarrow> if s = [] then Some 0 else None
     | Some (v, rest) \<Rightarrow> if rest \<noteq> [] then None else Some (i32 v))"

text \<open>\<open>strtoul\<close> on 64 bits: a minus sign negates modulo \<open>2^64\<close>, an overflow is the largest value.\<close>

definition strtoul10 :: "string \<Rightarrow> (int \<times> string) option" where
  "strtoul10 s =
    (let s1 = dropWhile is_space s;
         (neg, s2) = (case s1 of
            [] \<Rightarrow> (False, [])
          | c # cs \<Rightarrow> if c = CHR ''-'' then (True, cs) else if c = CHR ''+'' then (False, cs) else (False, c # cs))
     in case s2 of
          [] \<Rightarrow> None
        | c # cs \<Rightarrow>
            if is_digit c
            then (let (v, rest) = parse_digits 0 s2
                  in Some (if 2 ^ 64 \<le> v then 2 ^ 64 - 1 else u64 (if neg then - v else v), rest))
            else None)"

definition parse_u32 :: "string \<Rightarrow> int option" where
  "parse_u32 s =
    (case strtoul10 s of
       None \<Rightarrow> if s = [] then Some 0 else None
     | Some (v, rest) \<Rightarrow> if rest \<noteq> [] then None else Some (u32 v))"

definition parse_gpu :: "string \<Rightarrow> cli_gpu option" where
  "parse_gpu s =
    map_of [(''none'', Gpu_none), (''auto'', Gpu_auto), (''cuda'', Gpu_cuda), (''metal'', Gpu_metal), (''vulkan'', Gpu_vulkan)]
      (to_lower_copy s)"

definition parse_level :: "string \<Rightarrow> cli_level option" where
  "parse_level s = map_of [(''error'', Level_error), (''warn'', Level_warn), (''info'', Level_info), (''debug'', Level_debug)] s"

text \<open>The options with a value: what the value does to the parameters, \<^term>\<open>None\<close> when it is refused.\<close>

definition cli_options :: "(string \<times> (string \<Rightarrow> cli_params \<Rightarrow> cli_params option)) list" where
  "cli_options =
    [(''--model'', \<lambda>v p. Some (p \<lparr> cl_model := v \<rparr>)),
     (''--audio'', \<lambda>v p. Some (p \<lparr> cl_audio := v \<rparr>)),
     (''--threads'', \<lambda>v p. map_option (\<lambda>n. p \<lparr> cl_threads := n \<rparr>) (parse_i32 v)),
     (''--seed'', \<lambda>v p. map_option (\<lambda>n. p \<lparr> cl_seed := n \<rparr>) (parse_u32 v)),
     (''--prompt'', \<lambda>v p. Some (p \<lparr> cl_prompt := v \<rparr>)),
     (''--n-tokens'', \<lambda>v p. map_option (\<lambda>n. p \<lparr> cl_max_tokens := n \<rparr>) (parse_i32 v)),
     (''--max-len'', \<lambda>v p. map_option (\<lambda>n. p \<lparr> cl_max_tokens := n \<rparr>) (parse_i32 v)),
     (''--log-level'', \<lambda>v p. map_option (\<lambda>l. p \<lparr> cl_log_level := l \<rparr>) (parse_level v)),
     (''--dump-logits'', \<lambda>v p. Some (p \<lparr> cl_dump_logits := v \<rparr>)),
     (''--dump-logits-bin'', \<lambda>v p. Some (p \<lparr> cl_dump_logits_bin := v \<rparr>)),
     (''--dump-tokens'', \<lambda>v p. Some (p \<lparr> cl_dump_tokens := v \<rparr>)),
     (''--output-text'', \<lambda>v p. Some (p \<lparr> cl_output_text := v \<rparr>)),
     (''--gpu'', \<lambda>v p. map_option (\<lambda>g. p \<lparr> cl_gpu := g \<rparr>) (parse_gpu v))]"

datatype cli_outcome = Cli_help | Cli_refused | Cli_run cli_params

fun parse_args :: "string list \<Rightarrow> cli_params \<Rightarrow> cli_outcome" where
  "parse_args [] p = (if cl_model p = [] then Cli_refused else if cl_audio p = [] then Cli_refused else Cli_run p)"
| "parse_args (a # rest) p =
    (if a = ''-h'' \<or> a = ''--help'' then Cli_help
     else case map_of cli_options a of
       Some set_value \<Rightarrow>
         (case rest of
            [] \<Rightarrow> Cli_refused
          | v # rest1 \<Rightarrow> (case set_value v p of None \<Rightarrow> Cli_refused | Some q \<Rightarrow> parse_args rest1 q))
     | None \<Rightarrow>
         if a = ''--verbose'' then parse_args rest (p \<lparr> cl_log_level := Level_debug \<rparr>)
         else if a = ''--metal'' then parse_args rest (p \<lparr> cl_gpu := Gpu_metal \<rparr>)
         else Cli_refused)"

section \<open>The summary\<close>

record backend_reg_info =
  br_name :: string
  br_devices :: nat

definition has_runtime_backend :: "backend_reg_info list \<Rightarrow> string \<Rightarrow> bool" where
  "has_runtime_backend regs name =
    (case List.find (\<lambda>r. to_lower_copy (br_name r) = to_lower_copy name) regs of None \<Rightarrow> False | Some r \<Rightarrow> br_devices r > 0)"

fun separated :: "string \<Rightarrow> string list \<Rightarrow> string" where
  "separated sep [] = []"
| "separated sep [s] = s"
| "separated sep (s # t # ss) = s @ sep @ separated sep (t # ss)"

definition format_runtime_backends :: "(nat \<Rightarrow> string) \<Rightarrow> backend_reg_info list \<Rightarrow> string" where
  "format_runtime_backends dec_text regs =
    (if regs = [] then ''none''
     else separated '', '' (List.map (\<lambda>r. br_name r @ ''('' @ dec_text (br_devices r) @ '' dev'' @
       (if br_devices r \<noteq> 1 then ''s'' else []) @ '')'') regs))"

definition known_backends :: "string list" where
  "known_backends = [''CPU'', ''BLAS'', ''METAL'', ''CUDA'', ''VULKAN'', ''SYCL'', ''OPENCL'', ''CANN'', ''WEBGPU'', ''RPC'',
     ''ZDNN'', ''ZENDNN'', ''HEXAGON'', ''VIRTGPU'']"

definition format_runtime_availability :: "backend_reg_info list \<Rightarrow> string" where
  "format_runtime_availability regs =
    separated '', '' (List.map (\<lambda>b. b @ ''='' @ (if has_runtime_backend regs b then ''yes'' else ''no'')) known_backends)"

section \<open>The run\<close>

text \<open>\<open>voxtral_transcribe_file\<close>: \<^term>\<open>None\<close> when loading the file is undefined.\<close>

definition transcribe_file :: "'f wav_load \<Rightarrow> ('f list \<Rightarrow> 'r option) \<Rightarrow> 'r option option" where
  "transcribe_file audio transcribe =
    (case audio of Wav_undefined \<Rightarrow> None | Wav_fail \<Rightarrow> Some None | Wav_loaded samples \<Rightarrow> Some (transcribe samples))"

record 'f cli_result =
  cr_text :: string
  cr_tokens :: "int list"
  cr_logits :: "'f list"

record 'f cli_world =
  cw_load :: "string \<Rightarrow> cli_gpu \<Rightarrow> bool"
  cw_context :: "int \<Rightarrow> cli_gpu \<Rightarrow> bool"
  cw_transcribe :: "string \<Rightarrow> int \<Rightarrow> 'f cli_result option"
  cw_opens :: "string \<Rightarrow> bool"
  cw_int :: "int \<Rightarrow> string"
  cw_float :: "'f \<Rightarrow> string"

datatype 'f cli_effect = Print string | Complain string | Write_text string string | Write_floats string "'f list"

definition lf :: string where "lf = [CHR 0x0A]"

definition write_if :: "'f cli_world \<Rightarrow> string \<Rightarrow> string \<Rightarrow> 'f cli_effect list \<Rightarrow> 'f cli_effect list" where
  "write_if w path option effects =
    (if path = [] then [] else if \<not> cw_opens w path then [Complain (''failed to open '' @ option @ '' output'')] else effects)"

definition cli_outputs :: "'f cli_world \<Rightarrow> cli_params \<Rightarrow> 'f cli_result \<Rightarrow> 'f cli_effect list" where
  "cli_outputs w p r =
    (let printed_text = (if cr_text r = [] then ''[no-transcript]'' else cr_text r) in
     [Print (printed_text @ lf),
      Print ((if cr_tokens r \<noteq> [] then ''[tokens]'' @ concat (List.map (\<lambda>t. '' '' @ cw_int w t) (cr_tokens r)) else ''[no-transcript]'') @ lf)]
     @ write_if w (cl_output_text p) ''--output-text'' [Write_text (cl_output_text p) (printed_text @ lf)]
     @ write_if w (cl_dump_logits p) ''--dump-logits''
         [Write_text (cl_dump_logits p) (separated lf (List.map (cw_float w) (take 32 (cr_logits r))))]
     @ write_if w (cl_dump_logits_bin p) ''--dump-logits-bin'' [Write_floats (cl_dump_logits_bin p) (cr_logits r)]
     @ write_if w (cl_dump_tokens p) ''--dump-tokens''
         [Write_text (cl_dump_tokens p) (separated '' '' (List.map (cw_int w) (cr_tokens r)) @ lf)])"

text \<open>The exit code and the effects; the summary that is printed at every exit after the options is left out.\<close>

definition cli_main :: "'f cli_world \<Rightarrow> string list \<Rightarrow> int \<times> 'f cli_effect list" where
  "cli_main w args =
    (case parse_args args default_cli of
       Cli_help \<Rightarrow> (0, [])
     | Cli_refused \<Rightarrow> (1, [])
     | Cli_run p \<Rightarrow>
         if \<not> cw_load w (cl_model p) (cl_gpu p) then (2, [])
         else if \<not> cw_context w (cl_threads p) (cl_gpu p) then (3, [])
         else case cw_transcribe w (cl_audio p) (cl_max_tokens p) of
           None \<Rightarrow> (4, [])
         | Some r \<Rightarrow> (0, cli_outputs w p r))"

section \<open>The log\<close>

text \<open>Levels are compared by the numbers of the enum.\<close>

definition level_index :: "cli_level \<Rightarrow> nat" where
  "level_index l = (case l of Level_error \<Rightarrow> 0 | Level_warn \<Rightarrow> 1 | Level_info \<Rightarrow> 2 | Level_debug \<Rightarrow> 3)"

lemma level_index_inj: "level_index l = level_index m \<Longrightarrow> l = m"
  by (simp add: level_index_def split: cli_level.splits)

instantiation cli_level :: linorder
begin

definition less_eq_cli_level :: "cli_level \<Rightarrow> cli_level \<Rightarrow> bool" where
  "less_eq_cli_level l m \<longleftrightarrow> level_index l \<le> level_index m"

definition less_cli_level :: "cli_level \<Rightarrow> cli_level \<Rightarrow> bool" where
  "less_cli_level l m \<longleftrightarrow> level_index l < level_index m"

instance
  by standard (auto simp: less_eq_cli_level_def less_cli_level_def intro: level_index_inj)

end

definition log_line :: "cli_level \<Rightarrow> cli_level \<Rightarrow> string \<Rightarrow> string option" where
  "log_line level msg_level msg =
    (if msg_level > level then None
     else Some (''voxtral_'' @
       (if msg_level = Level_error then ''E'' else if msg_level = Level_warn then ''W'' else if msg_level = Level_debug then ''D'' else ''I'')
       @ '': '' @ msg @ lf))"

text \<open>A more verbose level prints what a less verbose one does.\<close>

lemma log_line_mono: "log_line l m s = Some t \<Longrightarrow> l \<le> l1 \<Longrightarrow> log_line l1 m s = Some t"
  by (auto simp: log_line_def split: if_split_asm)

section \<open>What is accepted\<close>

definition cli_in_range :: "cli_params \<Rightarrow> bool" where
  "cli_in_range p \<longleftrightarrow> i32_range (cl_threads p) \<and> i32_range (cl_max_tokens p) \<and> 0 \<le> cl_seed p \<and> cl_seed p < 2 ^ 32"

lemma parse_i32_range: "parse_i32 s = Some n \<Longrightarrow> i32_range n"
  using i32_in_range i32_in_range [of 0] by (auto simp: parse_i32_def split: option.splits if_splits)

lemma parse_u32_range: "parse_u32 s = Some n \<Longrightarrow> 0 \<le> n \<and> n < 2 ^ 32"
  using take_bit_int_less_exp [of 32] by (auto simp: parse_u32_def u32_def split: option.splits if_splits)

lemma cli_options_range: "(a, f) \<in> set cli_options \<Longrightarrow> f v p = Some q \<Longrightarrow> cli_in_range p \<Longrightarrow> cli_in_range q"
  using parse_i32_range [of v] parse_u32_range [of v] by (auto simp: cli_options_def cli_in_range_def)

fun_cases parse_args_NilE: "parse_args [] p = Cli_run q"

text \<open>A run has a model and an audio file, and its numbers fit their types.\<close>

lemma parse_args_run:
  "parse_args args p = Cli_run q \<Longrightarrow> cli_in_range p \<Longrightarrow> cl_model q \<noteq> [] \<and> cl_audio q \<noteq> [] \<and> cli_in_range q"
proof (induction args p rule: parse_args.induct)
  case (1 p)
  then show ?case by (auto elim!: parse_args_NilE split: if_split_asm)
next
  case (2 a rest p)
  show ?case
  proof (cases "map_of cli_options a")
    case None
    then show ?thesis using 2 by (auto simp: cli_in_range_def split: if_split_asm)
  next
    case (Some f)
    then obtain v rest1 r where r: "rest = v # rest1" "f v p = Some r" "parse_args rest1 r = Cli_run q"
      using "2.prems"(1) by (auto split: if_split_asm list.splits option.splits)
    then show ?thesis
      using "2.IH"(3) [OF _ Some r(1,2)] "2.prems" cli_options_range [OF map_of_SomeD [OF Some] r(2)] Some
      by (auto split: if_split_asm)
  qed
qed

text \<open>The exit code says how far the run came, and only a finished run prints.\<close>

lemma cli_exit_codes:
  assumes "cli_main w args = (code, effects)"
  shows "code \<in> {0, 1, 2, 3, 4} \<and> (code \<noteq> 0 \<longrightarrow> effects = []) \<and> (code = 1 \<longleftrightarrow> parse_args args default_cli = Cli_refused) \<and>
    (code = 0 \<longrightarrow> (effects = [] \<longleftrightarrow> parse_args args default_cli = Cli_help))"
proof (cases "parse_args args default_cli")
  case (Cli_run p)
  have "cli_outputs w p r \<noteq> []" for r by (simp add: cli_outputs_def Let_def)
  then show ?thesis using assms Cli_run by (auto simp: cli_main_def split: if_split_asm option.splits)
qed (use assms in \<open>auto simp: cli_main_def\<close>)

text \<open>The two ways in which a number is not what it says: the empty string is zero, and a number out of range wraps.\<close>

lemma parse_i32_accepts: "parse_i32 [] = Some 0" "parse_i32 ''4294967297'' = Some 1"
  by code_simp+

end
