(* ===== verification/Spec2Isabelle.thy ===== *)
theory Spec2Isabelle
  imports MelCorrect KvCorrect EncoderCorrect ReferenceEncoderCorrect PumpCorrect StreamSafety Telemetry CApiCorrect ServerHttpCorrect RealtimeProgress RealtimeWorkerCorrect ServerAppCorrect ServerConfig QuantizeCorrect CommandLine
begin

text \<open>Verification of voxtral.cpp, a streaming speech transcription engine over ggml, with its C interface, its server,
its command line program and its model quantizer.

\<^bold>\<open>The program.\<close>  Audio at 16 kHz becomes log-Mel frames (\<open>voxtral-mel.cpp\<close>); a causal encoder turns Mel frames
into encoder frames over per-layer attention caches (\<open>voxtral.cpp\<close>, the KV encoder); every four encoder frames become
one audio embedding (the adapter), and an autoregressive decoder with a sliding attention cache turns embeddings into
tokens, whose pieces make the text.  A stream (\<open>voxtral-stream*.cpp\<close>) owns one of each, is fed audio in any blocks,
and reports events through a bounded queue.  The C interface (\<open>voxtral-c-api.cpp\<close>) puts status codes, versioned
structures and one lease per context around it.  The server runs one inference at a time behind a process-wide lease:
an HTTP batch job or a WebSocket session whose network thread and inference thread share a PCM queue and an outbound
queue.  The command line program transcribes a file; the quantizer rewrites a model file.

\<^bold>\<open>Conventions.\<close>  Structures are records, enums datatypes; an integer is an \<open>int\<close> with the conversions of the
source (\<open>i32\<close>, \<open>u32\<close>, \<open>u64\<close> of \<open>Prelude\<close>) where it can wrap, or a word where bits matter.  Undefined behaviour (a
read outside a buffer) is a value: \<open>None\<close> of \<open>vec_get\<close>, carried by the option monad, so that a theorem that says
\<open>Some\<close> says that no such read happens.  Errors the source reports are statuses or the left side of a sum.  What is not
in the repository is a parameter: float arithmetic (\<open>float_ops\<close>), the ggml graphs (the fields of \<open>runtime\<close>, \<open>device\<close>
and \<open>offline_model\<close>: functions from an opaque device memory and the inputs the code computes), Boost (parsed
requests, completions of reads, writes and timers as steps), ggml's conversions in the quantizer.  Clock readings are
left out; where a decision depends on one it is an argument.

\<^bold>\<open>Theories and sources.\<close>

  \<^item> \<open>Prelude\<close>: conversions, checked reads, the locale \<open>chunked\<close> (an operation that consumes its input in pieces and
    gives the result of the whole), interpreted for the Mel frontend, the encoder and the hash.
  \<^item> \<open>MelFrontend\<close>, \<open>MelCorrect\<close>: \<open>voxtral-mel.cpp\<close>.  The incremental frontend gives the batch spectrogram bit for bit
    for any split of the signal, keeps fewer than 400 samples and never reads outside them, up to \<open>2^31\<close> samples,
    past which the source's conversion makes it read outside.
  \<^item> \<open>KvRing\<close>, \<open>KvCorrect\<close>: the ring planners of \<open>voxtral.cpp\<close>, as a locale \<open>ring_segments\<close> with two interpretations.
    The decoder cache is a sliding window; an encoder plan gathers what the mask allows.
  \<^item> \<open>EncoderSchedule\<close>, \<open>EncoderKv\<close>, \<open>EncoderCorrect\<close>: the schedule from the environment and the KV encoder.  The
    graphs submitted depend on the Mel frames only, every frame is encoded once, the retained tail is bounded; and the
    defect of a batch run after a stream on the same context.
  \<^item> \<open>ReferenceEncoder\<close>, \<open>ReferenceEncoderCorrect\<close>: the bounded-window strategy of an encoder stream and the counters of
    both.  It accumulates the rows of the chunked batch encoder for any split of the Mel frames, given that the graph
    is causal; and the two frames the chunked encoder loses.
  \<^item> \<open>Tokens\<close>: base64 and the detokenizers.  \<open>DecoderRuntime\<close>, \<open>DecoderCorrect\<close>: adapter, prefill and steps; the rings
    compute what the batch tail computes over linear memory.  \<open>Sha256\<close>: the hash of the diagnostics.
  \<^item> \<open>StreamState\<close>, \<open>StreamEvents\<close>, \<open>StreamDecoder\<close>, \<open>StreamFrontend\<close>, \<open>Transcribe\<close>, \<open>StreamLifecycle\<close>, \<open>Telemetry\<close>: the
    stream and batch transcription.  \<open>PumpCorrect\<close>: under every interleaving of passes, encoder progress, polls and full
    queues the delivered tokens are a prefix of the batch decoder's, and after the last frame they are all of them with
    the batch text.  \<open>StreamSafety\<close>: the lifecycle as a state machine with its invariant and transition table.
  \<^item> \<open>Utf8\<close>, \<open>AbiStructs\<close>, \<open>CApi\<close>, \<open>CApiCorrect\<close>: the C interface; its contracts for every sequence of calls.
  \<^item> \<open>ServerQueue\<close> (the locale \<open>sample_queue\<close>), \<open>ServerHttp\<close>, \<open>ServerHttpCorrect\<close>, \<open>ServerConfig\<close>, \<open>JsonProtocol\<close>: queue,
    lease, authentication, bodies, routing, configuration, messages.
  \<^item> \<open>EngineJobs\<close>, \<open>EngineJobsCorrect\<close>, \<open>RealtimeWorker\<close>, \<open>RealtimeWorkerCorrect\<close>: the loops over the engine.  What they
    promise is proved for any engine that satisfies the locale \<open>engine_contract\<close>, and the public C interface is an
    interpretation of it.
  \<^item> \<open>RealtimeSession\<close>, \<open>RealtimeCorrect\<close>, \<open>RealtimeAudio\<close>, \<open>RealtimeProgress\<close>: the realtime session as a step relation of
    its two threads and the client; bounds, order, completeness of the audio and progress.
  \<^item> \<open>ServerApp\<close>, \<open>ServerAppCorrect\<close>: \<open>server-app.cpp\<close> and \<open>http-session.cpp\<close> as a step relation of the network handlers,
    the batch worker and the operator: one response per session, a lease that is never lost, and a shutdown that ends
    without needing its timeout.
  \<^item> \<open>WavFile\<close>, \<open>CommandLine\<close>: \<open>load_wav_file\<close> and \<open>main.cpp\<close>.  \<open>Quantize\<close>, \<open>QuantizeCorrect\<close>: \<open>voxtral-quantize.cpp\<close>.

\<^bold>\<open>Groups of lemmas.\<close>  Each \<open>...Correct\<close> theory first proves what every operation keeps (an invariant or a simulation
step), then the theorem over all sequences of operations by induction on the sequence or on the step relation.  The
equivalences (Mel, encoder, decoder, detokenizer, hash, quantizer) compare the optimised routine with a direct
definition; the refinements (caches, event queue, PCM queue) relate it to an abstract structure.

\<^bold>\<open>Recursion, fuel and bounds.\<close>  Loops over a finite list or range are structural or have a measure (\<open>termination\<close>), so
they always return.  Loops that wait for the engine or the other thread (batch job and worker) are
\<open>partial_function (option)\<close>: not returning is \<open>None\<close>, statements about results are for runs that return, and that a
cancelled batch job returns is a theorem of its own.  No definition uses fuel.  The bounds that appear are the source's:
256 slots of the encoder output and embedding rings, 878 of the encoder caches with their window of 750 keys, 8192
prompt tokens, 256 outbound messages and 4 MiB, and the event bound plus a terminal reserve of 64.

\<^bold>\<open>Not modelled.\<close>  The construction of the ggml graphs and of the device memory, model loading and the vocabulary file,
the numerics of the networks (parameters above); latency markers, encoder timelines and other clock statistics; a
stream over the reference encoder (the encoder's operations are modelled, \<open>StreamLifecycle\<close> composes the default
one); the metrics query of the C interface; JSON text, HTTP parsing, sockets and transport (Boost); the logger; process start-up and signal
installation of the server's \<open>main\<close>; allocation failure, except where the source turns it into a status that is an
argument here; the tests, tools, scripts and documents.\<close>

end
